(* ===== verification/Kernel_Prelude.thy ===== *)
theory Kernel_Prelude
  imports Main "HOL-Library.Word" "HOL-Library.Monad_Syntax"
begin

text \<open>
  Shared vocabulary of the development: the machine types of the i586 target,
  the result convention of the model, bounds-checked array access, and the
  generic facts on bits, words and index-linked lists that the components use.

  \<^bold>\<open>Result convention.\<close>  A kernel function is a HOL function from the state it
  reads to \<open>(result \<times> new state) option\<close>.  \<^term>\<open>None\<close> means that the call does
  not return to its caller in a defined state: a failed \<open>dassert\<close> or a
  \<open>dpanic\<close> (both spin in \<open>for (;;);\<close>, since the kernel's Makefile defines
  \<open>_DEBUG\<close>), a \<open>NULL\<close> dereference, or an access outside the bounds of an array.
  Errors that the kernel reports to user space are ordinary values.
\<close>

unbundle bit_operations_syntax

type_synonym u8 = "8 word"
type_synonym u16 = "16 word"
type_synonym u32 = "32 word"
type_synonym u64 = "64 word"

named_theorems kdefs \<open>definitions the component proofs unfold\<close>

text \<open>\<open>dassert\<close> of \<open>kernel/debug/error.h\<close>: continue, or never return.\<close>

definition dassert :: "bool \<Rightarrow> unit option" where
  "dassert c = (if c then Some () else None)"

lemma dassert_True [simp]: "dassert True = Some ()"
  by (simp add: dassert_def)

lemma dassert_False [simp]: "dassert False = None"
  by (simp add: dassert_def)

lemma dassert_eq_Some [simp]: "dassert c = Some u \<longleftrightarrow> c"
  by (simp add: dassert_def)

text \<open>Array access with the array's bounds made explicit.\<close>

definition arr_get :: "'a list \<Rightarrow> nat \<Rightarrow> 'a option" where
  "arr_get xs i = (if i < length xs then Some (xs ! i) else None)"

definition arr_set :: "'a list \<Rightarrow> nat \<Rightarrow> 'a \<Rightarrow> 'a list option" where
  "arr_set xs i v = (if i < length xs then Some (xs[i := v]) else None)"

lemma arr_get_eq_Some [simp]: "arr_get xs i = Some x \<longleftrightarrow> i < length xs \<and> x = xs ! i"
  by (auto simp: arr_get_def)

lemma arr_set_eq_Some [simp]: "arr_set xs i v = Some ys \<longleftrightarrow> i < length xs \<and> ys = xs[i := v]"
  by (auto simp: arr_set_def)

lemma arr_get_in [simp]: "i < length xs \<Longrightarrow> arr_get xs i = Some (xs ! i)"
  by (simp add: arr_get_def)

lemma arr_get_out [simp]: "\<not> i < length xs \<Longrightarrow> arr_get xs i = None"
  by (simp add: arr_get_def)

lemma arr_set_in [simp]: "i < length xs \<Longrightarrow> arr_set xs i v = Some (xs[i := v])"
  by (simp add: arr_set_def)

lemma arr_set_out [simp]: "\<not> i < length xs \<Longrightarrow> arr_set xs i v = None"
  by (simp add: arr_set_def)

lemma arr_set_length: "arr_set xs i v = Some ys \<Longrightarrow> length ys = length xs"
  by simp

text \<open>
  \<open>for (i = 0; i != n; ++i) body\<close> is \<^term>\<open>for_each [0..<n] body\<close>: the body may stop
  the run (\<^term>\<open>None\<close>) or hand the updated state to the next iteration.
\<close>

fun for_each :: "'a list \<Rightarrow> ('a \<Rightarrow> 's \<Rightarrow> 's option) \<Rightarrow> 's \<Rightarrow> 's option" where
  "for_each [] body s = Some s"
| "for_each (x # xs) body s = do { s' \<leftarrow> body x s; for_each xs body s' }"

lemma for_each_append:
  "for_each (xs @ ys) body s = do { s' \<leftarrow> for_each xs body s; for_each ys body s' }"
  by (induction xs arbitrary: s) (auto split: Option.bind_split)

lemma for_each_Nil_fun [simp]: "for_each [] body = Some"
  by (rule ext) simp

lemma for_each_upt_Suc:
  "for_each [0..<Suc n] body s = do { s' \<leftarrow> for_each [0..<n] body s; body n s' }"
  by (simp add: for_each_append)

text \<open>A step taken \<open>n\<close> times.\<close>

primrec repeat :: "nat \<Rightarrow> ('s \<Rightarrow> 's option) \<Rightarrow> 's \<Rightarrow> 's option" where
  "repeat 0 f s = Some s"
| "repeat (Suc n) f s = do { s' \<leftarrow> f s; repeat n f s' }"

lemma repeat_add: "repeat (m + n) f s = do { s' \<leftarrow> repeat m f s; repeat n f s' }"
  by (induction m arbitrary: s) (auto split: Option.bind_split)

text \<open>The invariant rule of such a loop: partial correctness, and that it runs to its end.\<close>

lemma for_each_inv:
  assumes "for_each xs body s = Some t" and "I s"
    and "\<And>x u v. x \<in> set xs \<Longrightarrow> I u \<Longrightarrow> body x u = Some v \<Longrightarrow> I v"
  shows "I t"
  using assms
proof (induction xs arbitrary: s)
  case Nil
  then show ?case by simp
next
  case (Cons x xs)
  then obtain v where v: "body x s = Some v" "for_each xs body v = Some t"
    by (auto simp: bind_eq_Some_conv)
  moreover have "I v" using Cons.prems(2,3) v(1) by (auto intro: Cons.prems(3))
  ultimately show ?case using Cons.IH Cons.prems(3) by auto
qed

lemma for_each_total:
  assumes "I 0 s"
    and "\<And>k u. k < n \<Longrightarrow> I k u \<Longrightarrow> \<exists>v. body k u = Some v \<and> I (Suc k) v"
  shows "\<exists>t. for_each [0..<n] body s = Some t \<and> I n t"
  using assms
proof (induction n)
  case 0
  then show ?case by simp
next
  case (Suc n)
  then obtain t where "for_each [0..<n] body s = Some t" "I n t" by auto
  moreover from this obtain v where "body n t = Some v" "I (Suc n) v" using Suc.prems by blast
  ultimately show ?case by (simp add: for_each_append)
qed

lemma for_each_total_from:
  assumes "I a s" and "a \<le> b"
    and "\<And>k u. a \<le> k \<Longrightarrow> k < b \<Longrightarrow> I k u \<Longrightarrow> \<exists>v. body k u = Some v \<and> I (Suc k) v"
  shows "\<exists>t. for_each [a..<b] body s = Some t \<and> I b t"
  using assms(2,1,3)
proof (induction b rule: dec_induct)
  case base
  then show ?case by simp
next
  case (step n)
  then obtain t where "for_each [a..<n] body s = Some t" "I n t" by auto
  moreover from this step obtain v where "body n t = Some v" "I (Suc n) v" by blast
  ultimately show ?case using step.hyps by (simp add: for_each_append)
qed

subsection \<open>Bits of machine words\<close>

text \<open>\<open>__builtin_ffsl\<close>: one plus the index of the least significant set bit, 0 if there is none.\<close>

definition ffsl :: "u32 \<Rightarrow> nat" where
  "ffsl w = (case filter (bit w) [0..<32] of [] \<Rightarrow> 0 | i # _ \<Rightarrow> Suc i)"

lemma ffsl_eq_0_iff: "ffsl w = 0 \<longleftrightarrow> w = 0"
proof -
  have "ffsl w = 0 \<longleftrightarrow> (\<forall>i<32. \<not> bit w i)"
    by (auto simp: ffsl_def filter_empty_conv split: list.splits) (metis atLeastLessThan_iff filter_empty_conv list.distinct(1) set_upt zero_le)
  also have "\<dots> \<longleftrightarrow> w = 0"
    by (auto intro: bit_word_eqI)
  finally show ?thesis .
qed

lemma ffsl_Suc:
  assumes "ffsl w = Suc b"
  shows "b < 32 \<and> bit w b \<and> (\<forall>j<b. \<not> bit w j)"
proof -
  from assms obtain r where f: "filter (bit w) [0..<32] = b # r"
    by (auto simp: ffsl_def split: list.splits)
  then obtain us vs where d: "[0..<32] = us @ b # vs" "\<forall>u\<in>set us. \<not> bit w u" "bit w b"
    by (auto simp: filter_eq_Cons_iff)
  then have b: "b = length us" "b < 32"
    by (metis add.left_neutral length_append length_Cons length_upt diff_zero less_add_Suc1
        add_Suc_right nth_append_length nth_upt)+
  have us: "set us = {0..<b}"
  proof -
    have "us = take b [0..<32]" using d(1) b by simp
    also have "\<dots> = [0..<b]" using b by (simp add: take_upt)
    finally show ?thesis by simp
  qed
  then have "\<forall>j<b. \<not> bit w j" using d(2) by auto
  with b(2) d(3) show ?thesis by blast
qed

lemma unat32_less: "unat (w::u32) < 4294967296"
proof -
  have "unat w < 2 ^ LENGTH(32)" by (rule unsigned_less)
  then show ?thesis by simp
qed

lemma unat_exp [simp]: "k < 32 \<Longrightarrow> unat (2 ^ k :: u32) = 2 ^ k"
proof -
  assume "k < 32"
  then have "(2::nat) ^ k < 2 ^ 32" by (intro power_strict_increasing) auto
  then have "unat (of_nat (2 ^ k) :: u32) = 2 ^ k" by (simp only: unat_of_nat) simp
  then show ?thesis by simp
qed

lemma and_not_exp: "(a::u32) AND NOT (2 ^ k - 1) = push_bit k (drop_bit k a)"
  by (rule bit_word_eqI) (auto simp: bit_simps mask_eq_exp_minus_1 [symmetric])

lemma unat_and_not_exp:
  fixes a :: u32
  assumes "k < 32"
  shows "unat (a AND NOT (2 ^ k - 1)) = unat a div 2 ^ k * 2 ^ k"
proof -
  have "unat a div 2 ^ k * 2 ^ k < 2 ^ 32"
    using unsigned_less [of a] by (auto intro: le_less_trans [OF div_times_less_eq_dividend])
  moreover have "unat a div 2 ^ k < 2 ^ 32"
    using unsigned_less [of a] by (auto intro: le_less_trans [OF div_le_dividend])
  ultimately show ?thesis using assms
    by (simp add: and_not_exp push_bit_eq_mult drop_bit_eq_div unat_word_ariths unat_div)
qed

text \<open>The test \<open>x && (x & (x-1)) == 0\<close> holds exactly of the powers of two.\<close>

lemma pow2_test:
  fixes b :: u32
  shows "b \<noteq> 0 \<and> b AND (b - 1) = 0 \<longleftrightarrow> (\<exists>k<32. b = 2 ^ k)"
proof
  assume A: "b \<noteq> 0 \<and> b AND (b - 1) = 0"
  then obtain n where n: "bit b n" using bit_word_eqI [of b 0] by auto
  define k where "k = (LEAST n. bit b n)"
  have k: "bit b k" "\<And>j. j < k \<Longrightarrow> \<not> bit b j"
    unfolding k_def using n by (auto intro: LeastI dest: not_less_Least)
  have k32: "k < 32" using k(1) by (auto dest: bit_imp_le_length)
  define h where "h = b AND NOT (mask (Suc k))"
  have hb: "bit h j \<longleftrightarrow> k < j \<and> bit b j" for j
    by (auto simp: h_def bit_simps dest: bit_imp_le_length)
  have b: "b = h OR 2 ^ k"
    by (rule bit_word_eqI) (use k in \<open>auto simp: bit_simps hb dest: linorder_neqE_nat\<close>)
  also have "\<dots> = h + 2 ^ k"
    by (rule disjunctive_add_eq_or [symmetric], rule bit_word_eqI) (auto simp: bit_simps hb)
  finally have "b - 1 = h + mask k" by (simp add: mask_eq_exp_minus_1)
  also have "\<dots> = h OR mask k"
    by (rule disjunctive_add_eq_or, rule bit_word_eqI) (auto simp: bit_simps hb)
  finally have pred: "b - 1 = h OR mask k" .
  have "h = 0"
  proof (rule bit_word_eqI)
    fix j show "bit h j = bit 0 j"
      using A pred by (metis bit_0_eq bit_and_iff bit_or_iff bot_apply bot_bool_def hb)
  qed
  with b k32 show "\<exists>k<32. b = 2 ^ k" by auto
next
  assume "\<exists>k<32. b = 2 ^ k"
  then obtain k where k: "k < 32" "b = 2 ^ k" by auto
  have "b AND (b - 1) = 0" unfolding k mask_eq_exp_minus_1 [symmetric]
    by (rule bit_word_eqI) (auto simp: bit_simps)
  moreover have "bit b k" using k by (simp add: bit_simps)
  then have "b \<noteq> 0" by auto
  ultimately show "b \<noteq> 0 \<and> b AND (b - 1) = 0" by simp
qed

subsection \<open>Index-linked lists\<close>

text \<open>
  The kernel links array elements by pointers or by indices.  \<^term>\<open>chain nx p xs\<close>: following
  the link function \<open>nx\<close> from \<open>p\<close> visits exactly \<open>xs\<close> and then ends.
\<close>

fun chain :: "('a \<Rightarrow> 'a option) \<Rightarrow> 'a option \<Rightarrow> 'a list \<Rightarrow> bool" where
  "chain nx p [] \<longleftrightarrow> p = None"
| "chain nx p (x # xs) \<longleftrightarrow> p = Some x \<and> chain nx (nx x) xs"

lemma chain_None [simp]: "chain nx None xs \<longleftrightarrow> xs = []"
  by (cases xs) auto

lemma chain_Some: "chain nx (Some x) xs \<longleftrightarrow> (\<exists>ys. xs = x # ys \<and> chain nx (nx x) ys)"
  by (cases xs) auto

lemma chain_unique: "chain nx p xs \<Longrightarrow> chain nx p ys \<Longrightarrow> xs = ys"
  by (induction xs arbitrary: p ys) (auto simp: chain_Some)

lemma chain_cong: "(\<And>x. x \<in> set xs \<Longrightarrow> f x = g x) \<Longrightarrow> chain f p xs = chain g p xs"
  by (induction xs arbitrary: p) auto

lemma chain_suffix: "chain nx p (xs @ y # ys) \<Longrightarrow> chain nx (Some y) (y # ys)"
  by (induction xs arbitrary: p) auto

lemma chain_distinct: "chain nx p xs \<Longrightarrow> distinct xs"
proof (induction xs arbitrary: p)
  case Nil
  then show ?case by simp
next
  case (Cons x xs)
  have "x \<notin> set xs"
  proof
    assume "x \<in> set xs"
    then obtain us vs where xs: "xs = us @ x # vs" by (meson split_list)
    with Cons.prems have "chain nx (Some x) (x # us @ x # vs)" by simp
    moreover from this have "chain nx (Some x) (x # vs)"
      using chain_suffix [of nx _ "x # us" x vs] by simp
    ultimately show False using chain_unique by fastforce
  qed
  with Cons show ?case by auto
qed

lemma chain_snoc:
  assumes "chain nx p xs" and "xs \<noteq> []" and "nx' (last xs) = Some i" and "nx' i = None"
    and "\<And>x. x \<in> set (butlast xs) \<Longrightarrow> nx' x = nx x"
  shows "chain nx' p (xs @ [i])"
  using assms
proof (induction xs arbitrary: p)
  case Nil
  then show ?case by simp
next
  case (Cons x xs)
  then show ?case by (cases "xs = []") auto
qed

text \<open>A segment of a chain, from \<open>p\<close> to \<open>e\<close>.\<close>

fun chain_seg :: "('a \<Rightarrow> 'a option) \<Rightarrow> 'a option \<Rightarrow> 'a list \<Rightarrow> 'a option \<Rightarrow> bool" where
  "chain_seg nx p [] e \<longleftrightarrow> p = e"
| "chain_seg nx p (x # xs) e \<longleftrightarrow> p = Some x \<and> chain_seg nx (nx x) xs e"

lemma chain_append: "chain nx p (xs @ ys) \<longleftrightarrow> (\<exists>m. chain_seg nx p xs m \<and> chain nx m ys)"
  by (induction xs arbitrary: p) auto

lemma chain_seg_relink:
  assumes "chain_seg nx p xs e" and "xs \<noteq> []" and "nx' (last xs) = e'"
    and "\<And>x. x \<in> set (butlast xs) \<Longrightarrow> nx' x = nx x"
  shows "chain_seg nx' p xs e'"
  using assms
proof (induction xs arbitrary: p)
  case Nil
  then show ?case by simp
next
  case (Cons x xs)
  then show ?case by (cases "xs = []") auto
qed

end
