(* ===== verification/Slots.thy ===== *)
theory Slots
  imports Kernel_Prelude
begin

text \<open>
  The interface of the kernel's slot allocators.  Physical frames, process control
  blocks, thread slots and message slots are all handed out by a bitmap of some kind;
  the clients rely on the same contract, stated here once.  The bitmaps of
  \<open>util/bitmap.c\<close> and the bitmap stacks of \<open>util/bmstack.c\<close> are shown to meet it in
  their own theories.

  \<open>slot_table\<close> is safety: what a request returns, when it returns.  \<open>slot_table_live\<close>
  adds that requests are met while a slot is free, and \<open>slot_table_total\<close> that a full
  table recovers when a slot comes back.
\<close>

locale slot_table =
  fixes inv :: "'s \<Rightarrow> bool"
    and cap :: "'s \<Rightarrow> nat"
    and used :: "'s \<Rightarrow> nat set"
    and alloc :: "'s \<Rightarrow> (int \<times> 's) option"
    and release :: "'s \<Rightarrow> nat \<Rightarrow> 's option"
    and test :: "'s \<Rightarrow> nat \<Rightarrow> bool option"
  assumes used_bounded: "inv s \<Longrightarrow> used s \<subseteq> {..<cap s}"
    and alloc_sound: "inv s \<Longrightarrow> alloc s = Some (n, s') \<Longrightarrow>
      \<exists>i. n = int i \<and> i < cap s \<and> i \<notin> used s \<and> used s' = insert i (used s) \<and>
          cap s' = cap s \<and> inv s'"
    and release_used: "inv s \<Longrightarrow> i < cap s \<Longrightarrow>
      \<exists>s'. release s i = Some s' \<and> used s' = used s - {i} \<and> cap s' = cap s \<and> inv s'"
    and test_used: "inv s \<Longrightarrow> i < cap s \<Longrightarrow> test s i = Some (i \<in> used s)"
begin

lemma alloc_twice_distinct:
  assumes "inv s" and "alloc s = Some (m, s')" and "alloc s' = Some (n, s'')"
  shows "m \<noteq> n"
  using alloc_sound [OF assms(1,2)] alloc_sound [OF _ assms(3)] by auto

lemma alloc_then_test:
  assumes "inv s" and "alloc s = Some (int i, s')"
  shows "test s' i = Some True"
  using alloc_sound [OF assms] test_used by auto

lemma alloc_release_restores:
  assumes "inv s" and "alloc s = Some (int i, s')"
  shows "\<exists>s''. release s' i = Some s'' \<and> used s'' = used s \<and> inv s''"
proof -
  from alloc_sound [OF assms] have i: "i < cap s" "i \<notin> used s"
    "used s' = insert i (used s)" "cap s' = cap s" "inv s'" by auto
  then obtain s'' where "release s' i = Some s''" "used s'' = used s' - {i}" "inv s''"
    using release_used [of s' i] by auto
  with i show ?thesis by auto
qed

end

locale slot_table_live = slot_table +
  fixes ready :: "'a \<Rightarrow> bool"
  assumes ready_inv: "ready s \<Longrightarrow> inv s"
    and alloc_live: "ready s \<Longrightarrow> used s \<noteq> {..<cap s} \<Longrightarrow> \<exists>n s'. alloc s = Some (n, s') \<and> ready s'"
    and release_live: "ready s \<Longrightarrow> used s \<noteq> {..<cap s} \<Longrightarrow> i < cap s \<Longrightarrow> release s i = Some s' \<Longrightarrow> ready s'"
begin

lemma alloc_free:
  assumes "ready s" and "used s \<noteq> {..<cap s}"
  shows "\<exists>i s'. alloc s = Some (int i, s') \<and> i < cap s \<and> i \<notin> used s \<and>
                used s' = insert i (used s) \<and> cap s' = cap s \<and> ready s'"
  using alloc_live [OF assms] alloc_sound [OF ready_inv [OF assms(1)]] by blast

text \<open>
  Allocating \<open>n\<close> times: while fewer than \<open>n\<close> slots are missing, every request is met
  and no slot is handed out twice.
\<close>

lemma alloc_many:
  assumes "ready s" and "card (used s) + n \<le> cap s"
  shows "\<exists>is s'. length is = n \<and> distinct is \<and> set is \<inter> used s = {} \<and>
           set is \<subseteq> {..<cap s} \<and> ready s' \<and> cap s' = cap s \<and> used s' = used s \<union> set is \<and>
           for_each is (\<lambda>i t. case alloc t of None \<Rightarrow> None
                              | Some (j, t') \<Rightarrow> if j = int i then Some t' else None) s = Some s'"
  using assms
proof (induction n arbitrary: s)
  case 0
  then show ?case by auto
next
  case (Suc n)
  have "card (used s) < cap s" using Suc.prems(2) by simp
  then have free: "used s \<noteq> {..<cap s}" by (metis card_lessThan less_irrefl)
  obtain i s1 where a: "alloc s = Some (int i, s1)" "i < cap s" "i \<notin> used s"
    "used s1 = insert i (used s)" "cap s1 = cap s" "ready s1"
    using alloc_free [OF Suc.prems(1) free] by blast
  have "finite (used s)" using used_bounded [OF ready_inv [OF Suc.prems(1)]] finite_subset by blast
  then have "card (used s1) + n \<le> cap s1" using a Suc.prems(2) by simp
  from Suc.IH [OF a(6) this] obtain js s' where js: "length js = n" "distinct js"
    "set js \<inter> used s1 = {}" "set js \<subseteq> {..<cap s1}" "ready s'" "cap s' = cap s1"
    "used s' = used s1 \<union> set js"
    "for_each js (\<lambda>i t. case alloc t of None \<Rightarrow> None
        | Some (j, t') \<Rightarrow> if j = int i then Some t' else None) s1 = Some s'"
    by blast
  show ?case
    by (rule exI [of _ "i # js"], rule exI [of _ s']) (use a js in auto)
qed

end

locale slot_table_total = slot_table_live +
  assumes release_full: "ready s \<Longrightarrow> i < cap s \<Longrightarrow> release s i = Some s' \<Longrightarrow> ready s'"
begin

lemma release_then_alloc:
  assumes "ready s" and "i < cap s"
  shows "\<exists>s'. release s i = Some s' \<and> (\<exists>j s''. alloc s' = Some (int j, s'') \<and> j < cap s)"
proof -
  obtain s' where s': "release s i = Some s'" "used s' = used s - {i}" "cap s' = cap s"
    using release_used [OF ready_inv [OF assms(1)] assms(2)] by blast
  then have "used s' \<noteq> {..<cap s'}" using assms(2) by auto
  from alloc_free [OF release_full [OF assms s'(1)] this] s' show ?thesis by auto
qed

end

end
