(* ===== verification/Bitmap.thy ===== *)
theory Bitmap
  imports Slots
begin

text \<open>
  \<open>kernel/util/bitmap.c\<close> and \<open>bitmap.h\<close>: arrays of \<open>bitmap_t\<close> words.  A bitmap is
  the list of its words; an index past the last word is outside the array and the
  access is undefined (\<^term>\<open>None\<close>).  \<open>size_t\<close> indices are naturals: every caller
  passes an index below the number of bits of an array it declared.
\<close>

abbreviation (input) BITMAP_BITS :: nat where
  "BITMAP_BITS \<equiv> 32"

definition BITMAP_LENGTH :: "nat \<Rightarrow> nat" where
  "BITMAP_LENGTH x = x div BITMAP_BITS"

definition BITMAP_SIZE :: "nat \<Rightarrow> nat" where
  "BITMAP_SIZE x = BITMAP_LENGTH x * 4"

definition bitmap_set :: "u32 list \<Rightarrow> nat \<Rightarrow> u32 list option" where
  "bitmap_set bm index = (let i = index div BITMAP_BITS; b = index mod BITMAP_BITS in do {
     w \<leftarrow> arr_get bm i;
     arr_set bm i (w OR push_bit b 1)
   })"

definition bitmap_clear :: "u32 list \<Rightarrow> nat \<Rightarrow> u32 list option" where
  "bitmap_clear bm index = (let i = index div BITMAP_BITS; b = index mod BITMAP_BITS in do {
     w \<leftarrow> arr_get bm i;
     arr_set bm i (w AND NOT (push_bit b 1))
   })"

definition bitmap_test :: "u32 list \<Rightarrow> nat \<Rightarrow> bool option" where
  "bitmap_test bm index = (let i = index div BITMAP_BITS; b = index mod BITMAP_BITS in do {
     w \<leftarrow> arr_get bm i;
     Some (w AND push_bit b 1 \<noteq> 0)
   })"

text \<open>\<open>memset\<close> of the first \<open>n\<close> bytes with one byte value, on an array of words.\<close>

definition memset_words :: "u32 list \<Rightarrow> u32 \<Rightarrow> nat \<Rightarrow> u32 list option" where
  "memset_words bm w n =
     (if n div 4 \<le> length bm then Some (replicate (n div 4) w @ drop (n div 4) bm) else None)"

definition bitmap_set_all :: "u32 list \<Rightarrow> nat \<Rightarrow> u32 list option" where
  "bitmap_set_all bm items = memset_words bm 0xFFFFFFFF (BITMAP_SIZE items)"

definition bitmap_clear_all :: "u32 list \<Rightarrow> nat \<Rightarrow> u32 list option" where
  "bitmap_clear_all bm items = memset_words bm 0 (BITMAP_SIZE items)"

text \<open>
  The search loop of \<open>bitmap_find_and_set\<close>.  The word is read before the bound is
  tested, as in the source: the result is \<^term>\<open>Some None\<close> for the early \<open>return -1\<close>.
\<close>

function bitmap_find_loop :: "u32 list \<Rightarrow> nat \<Rightarrow> nat \<Rightarrow> nat option option" where
  "bitmap_find_loop bm items i =
     (case arr_get bm i of
        None \<Rightarrow> None
      | Some w \<Rightarrow>
          if NOT w = 0 then
            if i \<ge> BITMAP_LENGTH items then Some None else bitmap_find_loop bm items (i + 1)
          else Some (Some i))"
  by pat_completeness auto
termination
  by (relation "measure (\<lambda>(bm, items, i). length bm - i)") (auto simp: arr_get_def split: if_splits)

declare bitmap_find_loop.simps [simp del]

definition bitmap_find_and_set :: "u32 list \<Rightarrow> nat \<Rightarrow> (int \<times> u32 list) option" where
  "bitmap_find_and_set bm items = do {
     r \<leftarrow> bitmap_find_loop bm items 0;
     case r of
       None \<Rightarrow> Some (-1, bm)
     | Some i \<Rightarrow> do {
         w \<leftarrow> arr_get bm i;
         let b = ffsl (NOT w) - 1;
         let index = i * BITMAP_BITS + b;
         bm' \<leftarrow> arr_set bm i (w OR push_bit b 1);
         Some (int index, bm')
       }
   }"

subsection \<open>The set of indices a bitmap stands for\<close>

definition bitmap_bits :: "u32 list \<Rightarrow> nat set" where
  "bitmap_bits bm = {i. i < length bm * BITMAP_BITS \<and> bit (bm ! (i div BITMAP_BITS)) (i mod BITMAP_BITS)}"

lemma div_less_length_iff: "i div 32 < n \<longleftrightarrow> i < n * (32::nat)"
  by (simp add: less_mult_imp_div_less div_less_iff_less_mult)

lemma bit_or_single: "b < 32 \<Longrightarrow> bit ((w::u32) OR 2 ^ b) n \<longleftrightarrow> bit w n \<or> n = b"
  by (auto simp: bit_simps)

lemma bit_and_not_single: "b < 32 \<Longrightarrow> bit ((w::u32) AND NOT (2 ^ b)) n \<longleftrightarrow> bit w n \<and> n \<noteq> b"
  by (auto simp: bit_simps dest: bit_imp_le_length)

lemma and_single_neq_0: "b < 32 \<Longrightarrow> ((w::u32) AND 2 ^ b \<noteq> 0) \<longleftrightarrow> bit w b"
proof -
  assume b: "b < 32"
  have "bit (w AND 2 ^ b) n \<longleftrightarrow> bit w b \<and> n = b" for n
    using b by (auto simp: bit_simps)
  then show ?thesis by (metis bit_0_eq bot_apply bot_bool_def bit_word_eqI)
qed

lemma not_eq_0_iff_full: "NOT (w::u32) = 0 \<longleftrightarrow> (\<forall>b<32. bit w b)"
proof -
  have "NOT w = 0 \<longleftrightarrow> (\<forall>b<32. \<not> bit (NOT w) b)"
    by (auto intro: bit_word_eqI)
  then show ?thesis by (simp add: bit_simps)
qed

lemma nat_index_eq: "n < 32 \<Longrightarrow> i div 32 * 32 + n = i \<longleftrightarrow> n = i mod (32::nat)"
  by (metis add_left_cancel div_mult_mod_eq)

lemma bits_update:
  assumes "k < length bm" and "\<And>n. n < 32 \<Longrightarrow> bit w n \<longleftrightarrow> P (k * 32 + n)"
  shows "bitmap_bits (bm[k := w]) =
    {i. i < length bm * 32 \<and> (if i div 32 = k then P i else i \<in> bitmap_bits bm)}"
proof (rule set_eqI)
  fix i
  have "i div 32 = k \<Longrightarrow> k * 32 + i mod 32 = i" by auto
  then show "i \<in> bitmap_bits (bm[k := w]) \<longleftrightarrow> i \<in> {i. i < length bm * 32 \<and>
      (if i div 32 = k then P i else i \<in> bitmap_bits bm)}"
    using assms by (auto simp: bitmap_bits_def)
qed

lemma bitmap_bits_subset: "bitmap_bits bm \<subseteq> {..<length bm * BITMAP_BITS}"
  by (auto simp: bitmap_bits_def)

lemma bitmap_bits_mem: "k < length bm \<Longrightarrow> b < 32 \<Longrightarrow> k * 32 + b \<in> bitmap_bits bm \<longleftrightarrow> bit (bm ! k) b"
proof -
  assume "k < length bm" "b < 32"
  moreover from this have "k * 32 + b < length bm * 32"
    by (metis div_less_length_iff div_mult_self3 zero_neq_numeral add.commute div_less add_0)
  ultimately show ?thesis by (simp add: bitmap_bits_def)
qed

subsection \<open>The operations on the set of indices\<close>

lemma bitmap_set_bits:
  assumes "i < length bm * BITMAP_BITS"
  shows "\<exists>bm'. bitmap_set bm i = Some bm' \<and> length bm' = length bm \<and>
               bitmap_bits bm' = insert i (bitmap_bits bm)"
proof -
  let ?k = "i div 32" and ?b = "i mod 32"
  have k: "?k < length bm" using assms by (simp add: div_less_length_iff)
  have "bit (bm ! ?k OR 2 ^ ?b) n \<longleftrightarrow> ?k * 32 + n \<in> insert i (bitmap_bits bm)"
    if "n < 32" for n
    using that k bitmap_bits_mem [OF k that] by (simp add: bit_or_single nat_index_eq disj_commute)
  from bits_update [OF k this]
  have "bitmap_bits (bm[?k := bm ! ?k OR 2 ^ ?b]) = insert i (bitmap_bits bm)"
    using assms bitmap_bits_subset [of bm] by auto
  with k show ?thesis by (simp add: bitmap_set_def Let_def)
qed

lemma bitmap_clear_bits:
  assumes "i < length bm * BITMAP_BITS"
  shows "\<exists>bm'. bitmap_clear bm i = Some bm' \<and> length bm' = length bm \<and>
               bitmap_bits bm' = bitmap_bits bm - {i}"
proof -
  let ?k = "i div 32" and ?b = "i mod 32"
  have k: "?k < length bm" using assms by (simp add: div_less_length_iff)
  have "bit (bm ! ?k AND NOT (2 ^ ?b)) n \<longleftrightarrow> ?k * 32 + n \<in> bitmap_bits bm - {i}"
    if "n < 32" for n
    using that k bitmap_bits_mem [OF k that] by (simp add: bit_and_not_single nat_index_eq)
  from bits_update [OF k this]
  have "bitmap_bits (bm[?k := bm ! ?k AND NOT (2 ^ ?b)]) = bitmap_bits bm - {i}"
    using assms bitmap_bits_subset [of bm] by auto
  with k show ?thesis by (simp add: bitmap_clear_def Let_def)
qed

lemma bitmap_test_bits:
  assumes "i < length bm * BITMAP_BITS"
  shows "bitmap_test bm i = Some (i \<in> bitmap_bits bm)"
  using assms by (simp add: bitmap_test_def bitmap_bits_def div_less_length_iff and_single_neq_0)

lemma bitmap_find_loop_found:
  assumes "i \<le> j" and "j < length bm" and "j \<le> BITMAP_LENGTH items" and "NOT (bm ! j) \<noteq> 0"
    and "\<And>k. i \<le> k \<Longrightarrow> k < j \<Longrightarrow> NOT (bm ! k) = 0"
  shows "bitmap_find_loop bm items i = Some (Some j)"
  using assms
proof (induction "j - i" arbitrary: i)
  case 0
  then show ?case by (subst bitmap_find_loop.simps) simp
next
  case (Suc n)
  then have "NOT (bm ! i) = 0" by simp
  moreover have "bitmap_find_loop bm items (i + 1) = Some (Some j)"
    by (rule Suc.hyps(1)) (use Suc.prems Suc.hyps(2) in auto)
  ultimately show ?case
    using Suc.prems Suc.hyps(2) by (subst bitmap_find_loop.simps) simp
qed

lemma bitmap_find_loop_full:
  assumes "i \<le> length bm" and "length bm \<le> BITMAP_LENGTH items" and "\<forall>k<length bm. NOT (bm ! k) = 0"
  shows "bitmap_find_loop bm items i = None"
  using assms
proof (induction "length bm - i" arbitrary: i)
  case 0
  then show ?case by (subst bitmap_find_loop.simps) simp
next
  case (Suc n)
  then have "bitmap_find_loop bm items (i + 1) = None" by simp
  with Suc show ?case by (subst bitmap_find_loop.simps) simp
qed

lemma bitmap_bits_full_iff:
  "bitmap_bits bm = {..<length bm * 32} \<longleftrightarrow> (\<forall>k<length bm. NOT (bm ! k) = 0)"
proof
  assume full: "bitmap_bits bm = {..<length bm * 32}"
  show "\<forall>k<length bm. NOT (bm ! k) = 0"
  proof (intro allI impI)
    fix k assume k: "k < length bm"
    have "bit (bm ! k) b" if "b < 32" for b
      using full k that bitmap_bits_mem [OF k that] by auto
    then show "NOT (bm ! k) = 0" by (simp add: not_eq_0_iff_full)
  qed
next
  assume "\<forall>k<length bm. NOT (bm ! k) = 0"
  then show "bitmap_bits bm = {..<length bm * 32}"
    by (auto simp: bitmap_bits_def not_eq_0_iff_full div_less_length_iff)
qed

lemma set_first_clear:
  assumes k: "k < length bm" and w: "NOT (bm ! k) \<noteq> 0" and below: "\<And>j. j < k \<Longrightarrow> NOT (bm ! j) = 0"
    and b: "b = ffsl (NOT (bm ! k)) - 1"
  shows "b < 32 \<and> k * 32 + b < length bm * 32 \<and> k * 32 + b \<notin> bitmap_bits bm \<and>
         {..<k * 32 + b} \<subseteq> bitmap_bits bm \<and>
         bitmap_bits (bm[k := bm ! k OR 2 ^ b]) = insert (k * 32 + b) (bitmap_bits bm)"
proof -
  have "ffsl (NOT (bm ! k)) = Suc b" using w b ffsl_eq_0_iff by fastforce
  then have f: "b < 32" "\<not> bit (bm ! k) b" "\<And>n. n < b \<Longrightarrow> bit (bm ! k) n"
    using ffsl_Suc [of "NOT (bm ! k)" b] by (auto simp: bit_simps)
  have lt: "k * 32 + b < length bm * 32" using k f(1) by simp
  have "j \<in> bitmap_bits bm" if "j < k * 32 + b" for j
  proof (cases "j div 32 < k")
    case True
    with below [OF True] k show ?thesis
      by (simp add: bitmap_bits_def not_eq_0_iff_full div_less_length_iff [symmetric])
  next
    case False
    moreover have "j div 32 * 32 + j mod 32 < k * 32 + b" using that by simp
    ultimately have "j div 32 = k" "j mod 32 < b" using f(1) by linarith+
    with f k show ?thesis by (auto simp: bitmap_bits_def div_less_length_iff [symmetric])
  qed
  moreover obtain bm' where "bitmap_set bm (k * 32 + b) = Some bm'"
    "bitmap_bits bm' = insert (k * 32 + b) (bitmap_bits bm)"
    using bitmap_set_bits [OF lt] by blast
  moreover from this k f(1) have "bm' = bm[k := bm ! k OR 2 ^ b]"
    by (simp add: bitmap_set_def Let_def)
  ultimately show ?thesis
    using f k lt bitmap_bits_mem [OF k f(1)] by auto
qed

lemma bitmap_find_and_set_free:
  assumes "bitmap_bits bm \<noteq> {..<length bm * 32}" and "length bm \<le> BITMAP_LENGTH items"
  shows "\<exists>i bm'. bitmap_find_and_set bm items = Some (int i, bm') \<and> i < length bm * 32 \<and>
           i \<notin> bitmap_bits bm \<and> {..<i} \<subseteq> bitmap_bits bm \<and>
           bitmap_bits bm' = insert i (bitmap_bits bm) \<and> length bm' = length bm"
proof -
  let ?P = "\<lambda>k. k < length bm \<and> NOT (bm ! k) \<noteq> 0"
  define k where "k = (LEAST k. ?P k)"
  from assms(1) have "\<exists>k. ?P k" by (auto simp: bitmap_bits_full_iff)
  from LeastI_ex [OF this] have k: "k < length bm" "NOT (bm ! k) \<noteq> 0" by (simp_all add: k_def)
  have below: "NOT (bm ! j) = 0" if "j < k" for j
    using not_less_Least [of j ?P] that k(1) by (auto simp: k_def)
  define b where "b = ffsl (NOT (bm ! k)) - 1"
  have "bitmap_find_loop bm items 0 = Some (Some k)"
    by (rule bitmap_find_loop_found) (use k below assms(2) in auto)
  then have "bitmap_find_and_set bm items = Some (int (k * 32 + b), bm[k := bm ! k OR 2 ^ b])"
    using k by (simp add: bitmap_find_and_set_def b_def Let_def)
  with set_first_clear [OF k below b_def] show ?thesis
    by (intro exI [of _ "k * 32 + b"] exI [of _ "bm[k := bm ! k OR 2 ^ b]"]) auto
qed

lemma bitmap_find_and_set_overrun:
  assumes "bitmap_bits bm = {..<length bm * 32}" and "length bm \<le> BITMAP_LENGTH items"
  shows "bitmap_find_and_set bm items = None"
  using assms bitmap_find_loop_full [of 0 bm items]
  by (simp add: bitmap_find_and_set_def bitmap_bits_full_iff)

text \<open>\<open>bitmap_set_all\<close> and \<open>bitmap_clear_all\<close> on an array of whole words.\<close>

lemma bit_all_ones: "bit (0xFFFFFFFF :: int) b \<longleftrightarrow> b < 32"
proof -
  have "(0xFFFFFFFF :: int) = mask 32" by (simp add: mask_eq_exp_minus_1)
  then show ?thesis by (simp only: bit_mask_iff) simp
qed

lemma bitmap_set_all_bits:
  "bitmap_set_all bm (length bm * 32) = Some (replicate (length bm) 0xFFFFFFFF)"
  "bitmap_bits (replicate n 0xFFFFFFFF) = {..<n * 32}"
  by (auto simp: bitmap_set_all_def memset_words_def BITMAP_SIZE_def BITMAP_LENGTH_def
      bitmap_bits_def div_less_length_iff bit_all_ones)

lemma bitmap_clear_all_bits:
  "bitmap_clear_all bm (length bm * 32) = Some (replicate (length bm) 0)"
  "bitmap_bits (replicate n 0) = {}"
  by (auto simp: bitmap_clear_all_def memset_words_def BITMAP_SIZE_def BITMAP_LENGTH_def
      bitmap_bits_def div_less_length_iff)

subsection \<open>Bitmaps as slot tables\<close>

text \<open>
  A process keeps two bitmaps: 64 thread slots (\<open>thread_info.bitmap\<close>) and 1024 message
  slots (\<open>msg_info.bitmap\<close>).  Both meet the slot table contract.
\<close>

lemma bitmap_slots:
  "slot_table_total (\<lambda>bm. length bm = n) (\<lambda>_. n * 32) bitmap_bits
     (\<lambda>bm. bitmap_find_and_set bm (n * 32)) bitmap_clear bitmap_test (\<lambda>bm. length bm = n)"
proof
  fix s s' :: "u32 list" and i m
  assume n: "length s = n"
  then have free: "bitmap_bits s \<noteq> {..<n * 32} \<Longrightarrow>
      \<exists>i s'. bitmap_find_and_set s (n * 32) = Some (int i, s') \<and> i < n * 32 \<and> i \<notin> bitmap_bits s \<and>
        bitmap_bits s' = insert i (bitmap_bits s) \<and> length s' = n"
    using bitmap_find_and_set_free [of s "n * 32"] by (auto simp: BITMAP_LENGTH_def)
  show "bitmap_bits s \<subseteq> {..<n * 32}" using n bitmap_bits_subset [of s] by simp
  show "\<exists>i. m = int i \<and> i < n * 32 \<and> i \<notin> bitmap_bits s \<and>
          bitmap_bits s' = insert i (bitmap_bits s) \<and> n * 32 = n * 32 \<and> length s' = n"
    if "bitmap_find_and_set s (n * 32) = Some (m, s')"
    using that free bitmap_find_and_set_overrun [of s "n * 32"] n by (fastforce simp: BITMAP_LENGTH_def)
  show "\<exists>m s'. bitmap_find_and_set s (n * 32) = Some (m, s') \<and> length s' = n"
    if "bitmap_bits s \<noteq> {..<n * 32}" using free [OF that] by blast
  assume i: "i < n * 32"
  show "\<exists>s'. bitmap_clear s i = Some s' \<and> bitmap_bits s' = bitmap_bits s - {i} \<and>
          n * 32 = n * 32 \<and> length s' = n"
    using bitmap_clear_bits [of i s] n i by auto
  show "bitmap_test s i = Some (i \<in> bitmap_bits s)"
    using bitmap_test_bits [of i s] n i by simp
  assume "bitmap_clear s i = Some s'"
  then show "length s' = n" "length s' = n" using bitmap_clear_bits [of i s] n i by auto
qed

interpretation thread_slots: slot_table_total "\<lambda>bm. length bm = 2" "\<lambda>_. 64" bitmap_bits
  "\<lambda>bm. bitmap_find_and_set bm 64" bitmap_clear bitmap_test "\<lambda>bm. length bm = 2"
  using bitmap_slots [of 2] by simp

interpretation message_slots: slot_table_total "\<lambda>bm. length bm = 32" "\<lambda>_. 1024" bitmap_bits
  "\<lambda>bm. bitmap_find_and_set bm 1024" bitmap_clear bitmap_test "\<lambda>bm. length bm = 32"
  using bitmap_slots [of 32] by simp

text \<open>
  C25. bitmap_find_and_set returns the first clear bit and sets exactly that bit; on a full bitmap
  it reads past its end before it tests the bound, so no result is defined.
\<close>

theorem bitmap_find_and_set_correct:
  assumes "length bm \<le> BITMAP_LENGTH items"
  shows "if bitmap_bits bm = {..<length bm * 32} then bitmap_find_and_set bm items = None
    else \<exists>i bm'. bitmap_find_and_set bm items = Some (int i, bm') \<and> i \<notin> bitmap_bits bm \<and> {..<i} \<subseteq> bitmap_bits bm \<and>
      bitmap_bits bm' = insert i (bitmap_bits bm)"
  using bitmap_find_and_set_free [OF _ assms] bitmap_find_and_set_overrun [OF _ assms] by auto

end
