(* ===== verification/Bmstack.thy ===== *)
theory Bmstack
  imports Bitmap
begin

text \<open>
  \<open>kernel/util/bmstack.c\<close> and \<open>bmstack.h\<close>: a bitmap whose words are linked into a list of
  the words that still have a clear bit.  A \<open>bmstack_entry_t*\<close> is either \<open>NULL\<close>
  (\<^term>\<open>None\<close>) or the index of the entry it points to, so that
  \<open>addr_to_index(base, sizeof(bmstack_entry_t), head)\<close> is the index itself; a pointer
  outside the array is an index past its end, and following it is undefined.
\<close>

record bmstack_entry =
  bme_next :: "nat option"
  bme_bitmap :: u32

record bmstack =
  bms_base :: "bmstack_entry list option"
  bms_head :: "nat option"

definition BMSTACK_SIZE :: "nat \<Rightarrow> nat" where
  "BMSTACK_SIZE x = BITMAP_LENGTH x * 8"

definition bmstack_init :: "bmstack_entry list \<Rightarrow> bmstack" where
  "bmstack_init base = \<lparr>bms_base = Some base, bms_head = None\<rparr>"

definition bmstack_link_step ::
    "nat \<Rightarrow> bmstack \<times> nat option \<Rightarrow> (bmstack \<times> nat option) option" where
  "bmstack_link_step i = (\<lambda>(bms, prev). do {
     base \<leftarrow> bms_base bms;
     curr \<leftarrow> arr_get base i;
     base \<leftarrow> arr_set base i (curr\<lparr>bme_next := None\<rparr>);
     let bms = bms\<lparr>bms_base := Some base\<rparr>;
     if NOT (bme_bitmap curr) = 0 then Some (bms, prev)
     else case prev of
       None \<Rightarrow> Some (bms\<lparr>bms_head := Some i\<rparr>, Some i)
     | Some p \<Rightarrow> do {
         e \<leftarrow> arr_get base p;
         base \<leftarrow> arr_set base p (e\<lparr>bme_next := Some i\<rparr>);
         Some (bms\<lparr>bms_base := Some base\<rparr>, Some i)
       }
   })"

definition bmstack_link :: "bmstack \<Rightarrow> nat \<Rightarrow> bmstack option" where
  "bmstack_link bms items = do {
     (bms, prev) \<leftarrow> for_each [0..<BITMAP_LENGTH items] bmstack_link_step (bms, None);
     Some bms
   }"

definition bmstack_set :: "bmstack \<Rightarrow> nat \<Rightarrow> bmstack option" where
  "bmstack_set bms index = do {
     base \<leftarrow> bms_base bms;
     let i = index div BITMAP_BITS;
     let b = index mod BITMAP_BITS;
     entry \<leftarrow> arr_get base i;
     let entry = entry\<lparr>bme_bitmap := bme_bitmap entry OR push_bit b 1\<rparr>;
     base \<leftarrow> arr_set base i entry;
     let bms = bms\<lparr>bms_base := Some base\<rparr>;
     if bms_head bms = Some i \<and> NOT (bme_bitmap entry) = 0
     then Some (bms\<lparr>bms_head := bme_next entry\<rparr>)
     else Some bms
   }"

definition bmstack_clear :: "bmstack \<Rightarrow> nat \<Rightarrow> bmstack option" where
  "bmstack_clear bms index = do {
     base \<leftarrow> bms_base bms;
     let i = index div BITMAP_BITS;
     let b = index mod BITMAP_BITS;
     entry \<leftarrow> arr_get base i;
     let was_full = (NOT (bme_bitmap entry) = 0);
     let entry = entry\<lparr>bme_bitmap := bme_bitmap entry AND NOT (push_bit b 1)\<rparr>;
     if bms_head bms \<noteq> None \<and> was_full
     then do {
       base \<leftarrow> arr_set base i (entry\<lparr>bme_next := bms_head bms\<rparr>);
       Some (bms\<lparr>bms_base := Some base, bms_head := Some i\<rparr>)
     }
     else do {
       base \<leftarrow> arr_set base i entry;
       Some (bms\<lparr>bms_base := Some base\<rparr>)
     }
   }"

definition bmstack_test :: "bmstack \<Rightarrow> nat \<Rightarrow> bool option" where
  "bmstack_test bms index = do {
     base \<leftarrow> bms_base bms;
     let i = index div BITMAP_BITS;
     let b = index mod BITMAP_BITS;
     entry \<leftarrow> arr_get base i;
     Some (bme_bitmap entry AND push_bit b 1 \<noteq> 0)
   }"

text \<open>
  \<open>memset\<close> on the entries.  All-ones bytes make every \<open>next\<close> the address \<open>0xFFFFFFFF\<close>,
  which is no entry of the array.
\<close>

definition memset_entries :: "bmstack \<Rightarrow> bmstack_entry \<Rightarrow> nat \<Rightarrow> bmstack option" where
  "memset_entries bms e n = do {
     base \<leftarrow> bms_base bms;
     dassert (n div 8 \<le> length base);
     Some (bms\<lparr>bms_base := Some (replicate (n div 8) e @ drop (n div 8) base)\<rparr>)
   }"

definition bmstack_set_all :: "bmstack \<Rightarrow> nat \<Rightarrow> bmstack option" where
  "bmstack_set_all bms items = do {
     base \<leftarrow> bms_base bms;
     memset_entries bms \<lparr>bme_next = Some (length base), bme_bitmap = 0xFFFFFFFF\<rparr> (BMSTACK_SIZE items)
   }"

definition bmstack_clear_all :: "bmstack \<Rightarrow> nat \<Rightarrow> bmstack option" where
  "bmstack_clear_all bms items =
     memset_entries bms \<lparr>bme_next = None, bme_bitmap = 0\<rparr> (BMSTACK_SIZE items)"

definition bmstack_find_and_set :: "bmstack \<Rightarrow> (int \<times> bmstack) option" where
  "bmstack_find_and_set bms = do {
     i \<leftarrow> bms_head bms;
     base \<leftarrow> bms_base bms;
     entry \<leftarrow> arr_get base i;
     let f = ffsl (NOT (bme_bitmap entry));
     if f = 0 then Some (-1, bms)
     else do {
       let index = i * BITMAP_BITS + (f - 1);
       bms \<leftarrow> bmstack_set bms index;
       Some (int index, bms)
     }
   }"

subsection \<open>The set of indices and the invariant of the list\<close>

definition bms_words :: "bmstack \<Rightarrow> u32 list" where
  "bms_words bms = (case bms_base bms of None \<Rightarrow> [] | Some base \<Rightarrow> map bme_bitmap base)"

definition bmstack_used :: "bmstack \<Rightarrow> nat set" where
  "bmstack_used bms = bitmap_bits (bms_words bms)"

definition bmstack_cap :: "bmstack \<Rightarrow> nat" where
  "bmstack_cap bms = length (bms_words bms) * BITMAP_BITS"

definition nonfull :: "bmstack_entry list \<Rightarrow> nat set" where
  "nonfull base = {i. i < length base \<and> NOT (bme_bitmap (base ! i)) \<noteq> 0}"

definition next_of :: "bmstack_entry list \<Rightarrow> nat \<Rightarrow> nat option" where
  "next_of base i = (if i < length base then bme_next (base ! i) else None)"

text \<open>
  \<open>linked bms base xs\<close>: the list from \<open>head\<close> runs through \<open>xs\<close>, all of them words with a
  clear bit.  In a state reached before the table was ever exhausted it runs through all
  such words (\<open>bmstack_inv\<close>); afterwards some may be missing (\<open>bmstack_winv\<close>).
\<close>

definition linked :: "bmstack \<Rightarrow> bmstack_entry list \<Rightarrow> nat list \<Rightarrow> bool" where
  "linked bms base xs \<longleftrightarrow> bms_base bms = Some base \<and> chain (next_of base) (bms_head bms) xs \<and>
     set xs \<subseteq> nonfull base"

definition bmstack_winv :: "bmstack \<Rightarrow> bool" where
  "bmstack_winv bms \<longleftrightarrow> (\<exists>base xs. linked bms base xs)"

definition bmstack_inv :: "bmstack \<Rightarrow> bool" where
  "bmstack_inv bms \<longleftrightarrow> (\<exists>base xs. linked bms base xs \<and> nonfull base \<subseteq> set xs)"

lemma bmstack_inv_winv: "bmstack_inv bms \<Longrightarrow> bmstack_winv bms"
  by (auto simp: bmstack_inv_def bmstack_winv_def)

lemma bms_words_Some [simp]: "bms_base bms = Some base \<Longrightarrow> bms_words bms = map bme_bitmap base"
  by (simp add: bms_words_def)

lemma next_of_update [simp]:
  "next_of (base[i := e]) j = (if j = i \<and> i < length base then bme_next e else next_of base j)"
  by (simp add: next_of_def)

lemma next_of_same:
  "bme_next e = bme_next (base ! i) \<Longrightarrow> next_of (base[i := e]) = next_of base"
  by (rule ext, cases "i < length base") (auto simp: next_of_def nth_list_update)

lemma nonfull_update:
  "i < length base \<Longrightarrow>
   nonfull (base[i := e]) = (if NOT (bme_bitmap e) = 0 then nonfull base - {i} else insert i (nonfull base))"
  by (auto simp: nonfull_def nth_list_update)

lemma nonfull_empty_iff:
  "bms_base bms = Some base \<Longrightarrow> nonfull base = {} \<longleftrightarrow> bmstack_used bms = {..<bmstack_cap bms}"
  using bitmap_bits_full_iff [of "map bme_bitmap base"]
  by (simp add: nonfull_def bmstack_used_def bmstack_cap_def)

text \<open>On the words, the operations are the bitmap operations.\<close>

lemma bmstack_set_words:
  "bmstack_set bms n = Some bms' \<Longrightarrow> bitmap_set (bms_words bms) n = Some (bms_words bms')"
  by (auto simp: bmstack_set_def bitmap_set_def bms_words_def bind_eq_Some_conv Let_def map_update
      split: if_splits)

lemma bmstack_clear_words:
  "bmstack_clear bms n = Some bms' \<Longrightarrow> bitmap_clear (bms_words bms) n = Some (bms_words bms')"
  by (auto simp: bmstack_clear_def bitmap_clear_def bms_words_def bind_eq_Some_conv Let_def map_update
      split: if_splits)

lemma bmstack_test_words:
  "bms_base bms \<noteq> None \<Longrightarrow> bmstack_test bms n = bitmap_test (bms_words bms) n"
  by (auto simp: bmstack_test_def bitmap_test_def bms_words_def Let_def arr_get_def)

lemma bmstack_set_used:
  assumes "bmstack_set bms n = Some bms'" and "n < bmstack_cap bms"
  shows "bmstack_used bms' = insert n (bmstack_used bms) \<and> bmstack_cap bms' = bmstack_cap bms"
  using bitmap_set_bits [of n "bms_words bms"] bmstack_set_words [OF assms(1)] assms(2)
  by (auto simp: bmstack_used_def bmstack_cap_def)

lemma bmstack_clear_used:
  assumes "bmstack_clear bms n = Some bms'" and "n < bmstack_cap bms"
  shows "bmstack_used bms' = bmstack_used bms - {n} \<and> bmstack_cap bms' = bmstack_cap bms"
  using bitmap_clear_bits [of n "bms_words bms"] bmstack_clear_words [OF assms(1)] assms(2)
  by (auto simp: bmstack_used_def bmstack_cap_def)

lemma bmstack_find_and_set_linked:
  assumes "linked bms base (k # ys)"
  shows "\<exists>i bms' base' xs'. bmstack_find_and_set bms = Some (int i, bms') \<and> i < bmstack_cap bms \<and>
           i \<notin> bmstack_used bms \<and> bmstack_used bms' = insert i (bmstack_used bms) \<and>
           bmstack_cap bms' = bmstack_cap bms \<and> linked bms' base' xs' \<and>
           (nonfull base \<subseteq> set (k # ys) \<longrightarrow> nonfull base' \<subseteq> set xs')"
proof -
  from assms have b: "bms_base bms = Some base" "chain (next_of base) (bms_head bms) (k # ys)"
    "set (k # ys) \<subseteq> nonfull base" by (auto simp: linked_def)
  then have hd: "bms_head bms = Some k" and ys: "chain (next_of base) (next_of base k) ys" by auto
  have kys: "k \<notin> set ys" using chain_distinct [OF b(2)] by simp
  have k: "k < length base" "NOT (bme_bitmap (base ! k)) \<noteq> 0" using b(3) by (auto simp: nonfull_def)
  obtain c where c: "ffsl (NOT (bme_bitmap (base ! k))) = Suc c"
    using k(2) ffsl_eq_0_iff by (metis not0_implies_Suc)
  from ffsl_Suc [OF this] have c32: "c < 32" "\<not> bit (bme_bitmap (base ! k)) c" by (auto simp: bit_simps)
  let ?n = "k * 32 + c" and ?e = "(base ! k)\<lparr>bme_bitmap := bme_bitmap (base ! k) OR 2 ^ c\<rparr>"
  let ?b = "base[k := ?e]" and ?xs = "\<lambda>full. if full then ys else k # ys"
  define full where "full \<longleftrightarrow> NOT (bme_bitmap ?e) = 0"
  define bms' where "bms' = bms\<lparr>bms_base := Some ?b, bms_head := if full then next_of base k else Some k\<rparr>"
  have n: "?n < bmstack_cap bms" "?n \<notin> bmstack_used bms"
    using bitmap_bits_mem [of k "bms_words bms" c] b(1) k c32 by (auto simp: bmstack_cap_def bmstack_used_def)
  have set: "bmstack_set bms ?n = Some bms'"
    using b(1) hd k c32 by (auto simp: bmstack_set_def bms'_def full_def Let_def next_of_def)
  have "next_of ?b = next_of base" by (rule next_of_same) simp
  moreover have nf: "nonfull ?b = (if full then nonfull base - {k} else insert k (nonfull base))"
    using k(1) by (simp only: nonfull_update full_def)
  ultimately have "linked bms' ?b (?xs full)"
    using ys b(3) kys hd by (cases full) (auto simp: linked_def bms'_def)
  moreover have "bmstack_find_and_set bms = Some (int ?n, bms')"
    using b(1) hd k c set by (simp add: bmstack_find_and_set_def Let_def)
  moreover have "nonfull base \<subseteq> set (k # ys) \<longrightarrow> nonfull ?b \<subseteq> set (?xs full)"
    using nf by (cases full) auto
  ultimately show ?thesis using n bmstack_set_used [OF set n(1)] by blast
qed

lemma bmstack_clear_linked:
  assumes "linked bms base xs" and "n < bmstack_cap bms"
  shows "\<exists>bms' base' xs'. bmstack_clear bms n = Some bms' \<and> bmstack_used bms' = bmstack_used bms - {n} \<and>
           bmstack_cap bms' = bmstack_cap bms \<and> linked bms' base' xs' \<and>
           (nonfull base \<subseteq> set xs \<and> xs \<noteq> [] \<longrightarrow> nonfull base' \<subseteq> set xs')"
proof -
  from assms(1) have b: "bms_base bms = Some base" "chain (next_of base) (bms_head bms) xs"
    "set xs \<subseteq> nonfull base" by (auto simp: linked_def)
  let ?k = "n div 32"
  have k: "?k < length base" using assms(2) b(1) by (simp add: bmstack_cap_def div_less_length_iff)
  let ?w = "bme_bitmap (base ! ?k) AND NOT (2 ^ (n mod 32))"
  have "\<not> bit ?w (n mod 32)" by (simp add: bit_and_not_single)
  then have "NOT ?w \<noteq> 0" using not_eq_0_iff_full [of ?w] by fastforce
  then have nf: "nonfull (base[?k := e]) = insert ?k (nonfull base)" if "bme_bitmap e = ?w" for e
    using k that by (simp add: nonfull_update)
  show ?thesis
  proof (cases "bms_head bms \<noteq> None \<and> NOT (bme_bitmap (base ! ?k)) = 0")
    case True
    let ?e = "(base ! ?k)\<lparr>bme_bitmap := ?w, bme_next := bms_head bms\<rparr>"
    let ?bms = "bms\<lparr>bms_base := Some (base[?k := ?e]), bms_head := Some ?k\<rparr>"
    have c: "bmstack_clear bms n = Some ?bms"
      using b(1) k True by (simp add: bmstack_clear_def Let_def)
    have "?k \<notin> set xs" using True b(3) by (auto simp: nonfull_def)
    then have "chain (next_of (base[?k := ?e])) (bms_head bms) xs"
      using b(2) by (subst chain_cong [where g = "next_of base"]) auto
    then have "linked ?bms (base[?k := ?e]) (?k # xs)"
      using k nf [of ?e] b(3) by (auto simp: linked_def)
    moreover have "nonfull base \<subseteq> set xs \<longrightarrow> nonfull (base[?k := ?e]) \<subseteq> set (?k # xs)"
      using nf [of ?e] by auto
    ultimately show ?thesis using c bmstack_clear_used [OF c assms(2)] by blast
  next
    case False
    let ?e = "(base ! ?k)\<lparr>bme_bitmap := ?w\<rparr>"
    let ?bms = "bms\<lparr>bms_base := Some (base[?k := ?e])\<rparr>"
    have c: "bmstack_clear bms n = Some ?bms"
      using b(1) k False by (auto simp: bmstack_clear_def Let_def)
    have "next_of (base[?k := ?e]) = next_of base" by (rule next_of_same) simp
    then have "linked ?bms (base[?k := ?e]) xs" using b nf [of ?e] by (auto simp: linked_def)
    moreover have "nonfull base \<subseteq> set xs \<and> xs \<noteq> [] \<longrightarrow> nonfull (base[?k := ?e]) \<subseteq> set xs"
      using nf [of ?e] False k b(2) by (cases xs) (auto simp: nonfull_def)
    ultimately show ?thesis using c bmstack_clear_used [OF c assms(2)] by blast
  qed
qed

lemma bmstack_exhausted_head:
  assumes "bmstack_inv bms"
  shows "bms_head bms = None \<longleftrightarrow> bmstack_used bms = {..<bmstack_cap bms}"
proof -
  obtain base xs where "linked bms base xs" "nonfull base \<subseteq> set xs"
    using assms by (auto simp: bmstack_inv_def)
  then show ?thesis
    using nonfull_empty_iff [of bms base] by (cases xs) (auto simp: linked_def)
qed

interpretation bmstack_slots: slot_table_live bmstack_winv bmstack_cap bmstack_used
  bmstack_find_and_set bmstack_clear bmstack_test bmstack_inv
proof
  fix s s' i n
  show "bmstack_used s \<subseteq> {..<bmstack_cap s}"
    using bitmap_bits_subset by (simp add: bmstack_used_def bmstack_cap_def)
  show "bmstack_inv s \<Longrightarrow> bmstack_winv s" by (rule bmstack_inv_winv)
  show "\<exists>n s'. bmstack_find_and_set s = Some (n, s') \<and> bmstack_inv s'"
    if I: "bmstack_inv s" and free: "bmstack_used s \<noteq> {..<bmstack_cap s}"
  proof -
    obtain base xs where xs: "linked s base xs" "nonfull base \<subseteq> set xs"
      using I by (auto simp: bmstack_inv_def)
    moreover have "xs \<noteq> []" using xs free bmstack_exhausted_head [OF I] by (auto simp: linked_def)
    ultimately show ?thesis
      using bmstack_find_and_set_linked unfolding bmstack_inv_def by (cases xs) blast+
  qed
  show "bmstack_inv s'" if I: "bmstack_inv s" and free: "bmstack_used s \<noteq> {..<bmstack_cap s}"
    and "i < bmstack_cap s" "bmstack_clear s i = Some s'"
  proof -
    obtain base xs where xs: "linked s base xs" "nonfull base \<subseteq> set xs"
      using I by (auto simp: bmstack_inv_def)
    moreover have "xs \<noteq> []" using xs free bmstack_exhausted_head [OF I] by (auto simp: linked_def)
    ultimately show ?thesis
      using bmstack_clear_linked [OF xs(1) that(3)] that(4) unfolding bmstack_inv_def by auto
  qed
  assume "bmstack_winv s"
  then obtain base xs where xs: "linked s base xs" by (auto simp: bmstack_winv_def)
  show "\<exists>i. n = int i \<and> i < bmstack_cap s \<and> i \<notin> bmstack_used s \<and> bmstack_used s' = insert i (bmstack_used s) \<and>
      bmstack_cap s' = bmstack_cap s \<and> bmstack_winv s'" if "bmstack_find_and_set s = Some (n, s')"
  proof (cases xs)
    case Nil
    then show ?thesis using xs that by (simp add: linked_def bmstack_find_and_set_def)
  next
    case (Cons k ys)
    then show ?thesis
      using bmstack_find_and_set_linked [of s base k ys] xs that unfolding bmstack_winv_def by auto
  qed
  assume i: "i < bmstack_cap s"
  show "\<exists>s'. bmstack_clear s i = Some s' \<and> bmstack_used s' = bmstack_used s - {i} \<and>
      bmstack_cap s' = bmstack_cap s \<and> bmstack_winv s'"
    using bmstack_clear_linked [OF xs i] unfolding bmstack_winv_def by blast
  show "bmstack_test s i = Some (i \<in> bmstack_used s)"
    using xs i bmstack_test_words [of s i] bitmap_test_bits [of i "bms_words s"]
    by (auto simp: linked_def bmstack_used_def bmstack_cap_def)
qed

subsection \<open>Building the list\<close>

definition link_inv :: "u32 list \<Rightarrow> nat \<Rightarrow> bmstack \<times> nat option \<Rightarrow> bool" where
  "link_inv ws i = (\<lambda>(bms, prev). \<exists>base xs. bms_base bms = Some base \<and> map bme_bitmap base = ws \<and>
     xs = filter (\<lambda>j. NOT (ws ! j) \<noteq> 0) [0..<i] \<and> chain (next_of base) (bms_head bms) xs \<and>
     prev = (if xs = [] then None else Some (last xs)))"

lemma chain_last_None: "chain nx p xs \<Longrightarrow> xs \<noteq> [] \<Longrightarrow> nx (last xs) = None"
  by (induction xs arbitrary: p) (auto split: if_splits)

lemma last_notin_butlast: "distinct xs \<Longrightarrow> xs \<noteq> [] \<Longrightarrow> last xs \<notin> set (butlast xs)"
  by (induction xs) (auto split: if_splits dest: in_set_butlastD)

lemma map_update_same: "f y = f (xs ! i) \<Longrightarrow> map f (xs[i := y]) = map f xs"
  by (rule nth_equalityI, simp, cases "i < length xs") (auto simp: nth_list_update)

lemma bmstack_link_step_inv:
  assumes "i < length ws" and "link_inv ws i (bms, prev)"
  shows "\<exists>v. bmstack_link_step i (bms, prev) = Some v \<and> link_inv ws (Suc i) v"
proof -
  let ?xs = "filter (\<lambda>j. NOT (ws ! j) \<noteq> 0) [0..<i]"
  obtain base where b: "bms_base bms = Some base" "map bme_bitmap base = ws"
    "chain (next_of base) (bms_head bms) ?xs" "prev = (if ?xs = [] then None else Some (last ?xs))"
    using assms(2) by (auto simp: link_inv_def)
  have i: "i < length base" "ws ! i = bme_bitmap (base ! i)" using assms(1) b(2) by auto
  let ?b1 = "base[i := (base ! i)\<lparr>bme_next := None\<rparr>]"
  have b1: "map bme_bitmap ?b1 = ws" "next_of ?b1 i = None" using i b(2) by (simp_all add: map_update_same del: map_update)
  have c1: "chain (next_of ?b1) (bms_head bms) ?xs"
    using b(3) by (subst chain_cong [where g = "next_of base"]) auto
  show ?thesis
  proof (cases "NOT (bme_bitmap (base ! i)) = 0")
    case True
    then show ?thesis using b i b1 c1 by (auto simp: bmstack_link_step_def link_inv_def Let_def)
  next
    case nf: False
    then have xs': "filter (\<lambda>j. NOT (ws ! j) \<noteq> 0) [0..<Suc i] = ?xs @ [i]" using i by simp
    show ?thesis
    proof (cases "?xs = []")
      case True
      then show ?thesis
        using b i b1 nf unfolding link_inv_def xs' by (auto simp: bmstack_link_step_def Let_def)
    next
      case False
      define p where "p = last ?xs"
      have p: "p < i" using last_in_set [OF False] by (simp add: p_def)
      let ?b2 = "?b1[p := (?b1 ! p)\<lparr>bme_next := Some i\<rparr>]"
      have "chain (next_of ?b2) (bms_head bms) (?xs @ [i])"
        by (rule chain_snoc [OF c1 False]) (use p i p_def last_notin_butlast [OF chain_distinct [OF c1] False] in auto)
      moreover have "map bme_bitmap ?b2 = ws" by (subst map_update_same) (use b1 in simp_all)
      moreover have "bmstack_link_step i (bms, prev) = Some (bms\<lparr>bms_base := Some ?b2\<rparr>, Some i)"
        using b i nf False p by (simp add: bmstack_link_step_def Let_def p_def [symmetric])
      ultimately show ?thesis unfolding link_inv_def xs' by auto
    qed
  qed
qed

lemma bmstack_link_ok:
  assumes "bms_base bms = Some base" and "bms_head bms = None" and "BITMAP_LENGTH items = length base"
  shows "\<exists>bms'. bmstack_link bms items = Some bms' \<and> bms_words bms' = bms_words bms \<and> bmstack_inv bms'"
proof -
  let ?ws = "map bme_bitmap base"
  have "\<exists>t. for_each [0..<length ?ws] bmstack_link_step (bms, None) = Some t \<and> link_inv ?ws (length ?ws) t"
  proof (rule for_each_total)
    show "link_inv ?ws 0 (bms, None)" using assms by (simp add: link_inv_def)
  next
    fix k u assume "k < length ?ws" "link_inv ?ws k u"
    then show "\<exists>v. bmstack_link_step k u = Some v \<and> link_inv ?ws (Suc k) v"
      using bmstack_link_step_inv by (cases u) blast
  qed
  then obtain bms' prev b xs where "for_each [0..<length base] bmstack_link_step (bms, None) = Some (bms', prev)"
    "bms_base bms' = Some b" "map bme_bitmap b = ?ws" "chain (next_of b) (bms_head bms') xs"
    "xs = filter (\<lambda>j. NOT (?ws ! j) \<noteq> 0) [0..<length base]"
    by (auto simp: link_inv_def)
  moreover from this(3) have "length b = length base" by (metis length_map)
  moreover from calculation have "set xs = nonfull b"
    by (auto simp: nonfull_def) (metis nth_map)+
  ultimately show ?thesis
    using assms by (auto simp: bmstack_link_def bmstack_inv_def linked_def)
qed

text \<open>
  Once the last clear bit is taken the list is empty, and \<open>bmstack_clear\<close> only links an
  entry into a list that has a head: the bits given back afterwards stay clear in the
  bitmap but are never found again.
\<close>

text \<open>
  C36. Once every slot of a bitmap stack has been used, clearing a slot does not make it available:
  the next find_and_set stops in its assertion, since clear does not relink a word when the list is
  empty.
\<close>

lemma bmstack_exhausted_stuck:
  assumes "bmstack_inv bms" and "bmstack_used bms = {..<bmstack_cap bms}" and "n < bmstack_cap bms"
  shows "\<exists>bms'. bmstack_clear bms n = Some bms' \<and> bmstack_used bms' = bmstack_used bms - {n} \<and>
           bmstack_find_and_set bms' = None"
proof -
  obtain base where b: "bms_base bms = Some base"
    using assms(1) by (auto simp: bmstack_inv_def linked_def)
  have "n div 32 < length base" using assms(3) b by (simp add: bmstack_cap_def div_less_length_iff)
  then obtain bms' where c: "bmstack_clear bms n = Some bms'" "bms_head bms' = None"
    using b bmstack_exhausted_head [OF assms(1)] assms(2) by (simp add: bmstack_clear_def Let_def)
  then show ?thesis
    using bmstack_clear_used [OF c(1) assms(3)] by (simp add: bmstack_find_and_set_def)
qed

end
