(* ===== verification/Addr.thy ===== *)
theory Addr
  imports Kernel_Prelude
begin

text \<open>
  \<open>kernel/util/addr.h\<close> and \<open>kernel/util/compare.h\<close>: alignment of addresses,
  conversion between addresses and array indices, and the comparison helpers.
  Addresses and sizes are 32-bit words, so every sum wraps as it does on the target.
\<close>

definition addr_align :: "u32 \<Rightarrow> u32 \<Rightarrow> u32 option" where
  "addr_align addr bound = do {
     dassert (bound \<noteq> 0 \<and> bound AND (bound - 1) = 0);
     Some (addr AND NOT (bound - 1))
   }"

definition addr_align_next :: "u32 \<Rightarrow> u32 \<Rightarrow> u32 option" where
  "addr_align_next addr bound = addr_align (addr + bound - 1) bound"

definition addr_to_index :: "u32 \<Rightarrow> u32 \<Rightarrow> u32 \<Rightarrow> u32" where
  "addr_to_index base blocksize addr = (addr - base) div blocksize"

definition index_to_addr :: "u32 \<Rightarrow> u32 \<Rightarrow> u32 \<Rightarrow> u32" where
  "index_to_addr base blocksize index = base + index * blocksize"

definition min_size :: "u32 \<Rightarrow> u32 \<Rightarrow> u32" where
  "min_size a b = (if a < b then a else b)"

definition max_size :: "u32 \<Rightarrow> u32 \<Rightarrow> u32" where
  "max_size a b = (if a > b then a else b)"

subsection \<open>Alignment\<close>

lemma addr_align_iff:
  "addr_align addr bound = Some r \<longleftrightarrow>
     (\<exists>k<32. bound = 2 ^ k \<and> unat r = unat addr div 2 ^ k * 2 ^ k)"
proof -
  have "addr_align addr bound = Some r \<longleftrightarrow>
      (\<exists>k<32. bound = 2 ^ k) \<and> r = addr AND NOT (bound - 1)"
    by (auto simp: addr_align_def bind_eq_Some_conv pow2_test)
  also have "\<dots> \<longleftrightarrow> (\<exists>k<32. bound = 2 ^ k \<and> unat r = unat addr div 2 ^ k * 2 ^ k)"
    by (metis unat_and_not_exp word_unat_eq_iff)
  finally show ?thesis .
qed

lemma addr_align_defined_iff: "addr_align addr bound \<noteq> None \<longleftrightarrow> (\<exists>k<32. bound = 2 ^ k)"
  by (auto simp: addr_align_def bind_eq_Some_conv pow2_test)

lemma addr_align_next_exp:
  assumes "k < 32" and "unat addr + (2 ^ k - 1) < 2 ^ 32"
  shows "\<exists>r. addr_align_next addr (2 ^ k) = Some r \<and>
             unat r = (unat addr + (2 ^ k - 1)) div 2 ^ k * 2 ^ k"
proof -
  have "unat (2 ^ k - 1 :: u32) = 2 ^ k - 1"
    using assms(1) by (metis mask_eq_exp_minus_1 unat_exp unat_minus_one power_not_zero
        unat_eq_zero zero_neq_numeral)
  then have u: "unat (addr + (2 ^ k - 1)) = unat addr + (2 ^ k - 1)"
    using assms(2) by (simp add: unat_word_ariths)
  obtain r where r: "addr_align (addr + 2 ^ k - 1) (2 ^ k) = Some r"
    using addr_align_defined_iff assms(1) by blast
  have "unat r = unat (addr + 2 ^ k - 1) div 2 ^ k * 2 ^ k"
    using r assms(1) unfolding addr_align_def
    by (auto simp: bind_eq_Some_conv unat_and_not_exp)
  with r u show ?thesis by (simp add: addr_align_next_def add_diff_eq)
qed

lemma addr_index_roundtrip:
  fixes i sz :: u32
  assumes "sz \<noteq> 0" and "unat i * unat sz < 2 ^ 32"
  shows "addr_to_index base sz (index_to_addr base sz i) = i"
proof -
  have "unat (i * sz) = unat i * unat sz" using assms(2)
    by (simp add: unat_word_ariths)
  moreover have "unat sz \<noteq> 0" using assms(1) by (simp add: unat_eq_0)
  ultimately have "unat ((i * sz) div sz) = unat i"
    by (simp add: unat_div)
  then have "(i * sz) div sz = i" by (rule word_unat_eq_iff [THEN iffD2])
  then show ?thesis by (simp add: addr_to_index_def index_to_addr_def)
qed

subsection \<open>Pages\<close>

abbreviation (input) ARCH_PGSIZE :: u32 where
  "ARCH_PGSIZE \<equiv> 4096"

definition page_align :: "u32 \<Rightarrow> u32" where
  "page_align a = a AND NOT 0xFFF"

definition page_aligned :: "u32 \<Rightarrow> bool" where
  "page_aligned a \<longleftrightarrow> a AND 0xFFF = 0"

lemma addr_align_page [simp]: "addr_align a 4096 = Some (page_align a)"
  by (simp add: addr_align_def page_align_def)

lemma unat_page_align: "unat (page_align a) = unat a div 4096 * 4096"
  using unat_and_not_exp [of 12 a] by (simp add: page_align_def)

lemma page_align_le: "unat (page_align a) \<le> unat a"
  by (simp add: unat_page_align)

lemma and_page_mask: "(a::u32) AND 0xFFF = take_bit 12 a"
  by (simp add: take_bit_eq_mask mask_eq_exp_minus_1)

lemma unat_take_bit: "unat (take_bit n (a::'a::len word)) = unat a mod 2 ^ n"
  by (subst unsigned_take_bit_eq) (rule take_bit_eq_mod)

lemma page_aligned_iff: "page_aligned a \<longleftrightarrow> unat a mod 4096 = 0"
proof -
  have "page_aligned a \<longleftrightarrow> unat (take_bit 12 a) = 0"
    by (simp only: page_aligned_def and_page_mask unat_eq_0)
  then show ?thesis by (simp add: unat_take_bit)
qed

lemma page_align_fixed: "page_align a = a \<longleftrightarrow> page_aligned a"
proof -
  have "page_align a = a \<longleftrightarrow> unat a div 4096 * 4096 = unat a"
    by (simp only: word_unat_eq_iff unat_page_align)
  also have "\<dots> \<longleftrightarrow> unat a mod 4096 = 0"
    using div_mult_mod_eq [of "unat a" 4096] by linarith
  finally show ?thesis by (simp only: page_aligned_iff)
qed

lemma page_aligned_align [simp]: "page_aligned (page_align a)"
  by (simp add: page_aligned_iff unat_page_align)

lemma page_align_idem [simp]: "page_align (page_align a) = page_align a"
  by (simp add: page_align_fixed)

lemma page_aligned_plus: "page_aligned a \<Longrightarrow> page_aligned b \<Longrightarrow> page_aligned (a + b)"
proof -
  assume "page_aligned a" "page_aligned b"
  then have "(unat a + unat b) mod 4096 = 0"
    unfolding page_aligned_iff by (metis mod_add_eq add_0 mod_0)
  then have "(unat a + unat b) mod 2 ^ 32 mod 4096 = 0"
    by (subst mod_mod_cancel) simp_all
  then show ?thesis by (simp add: page_aligned_iff unat_word_ariths)
qed

end
