(* ===== verification/Region.thy ===== *)
theory Region
  imports Addr
begin

text \<open>
  \<open>kernel/core/memory/region.c\<close>: the bump allocator of kernel address space.  The three
  static variables are the record \<open>region\<close>; \<open>ekernel\<close> is the linker symbol
  \<open>__ekernel\<close>.  \<open>dtrace\<close> output is left out.
\<close>

record region =
  max_mapped :: u32
  next_free :: u32
  idmap_valid :: bool

text \<open>The static initialisers.\<close>

definition region_boot :: region where
  "region_boot = \<lparr>max_mapped = 0, next_free = 0, idmap_valid = True\<rparr>"

definition region_init :: "u32 \<Rightarrow> u32 \<Rightarrow> region \<Rightarrow> region option" where
  "region_init ekernel mapped r = do {
     nf \<leftarrow> addr_align_next ekernel ARCH_PGSIZE;
     Some (r\<lparr>max_mapped := mapped, next_free := nf\<rparr>)
   }"

definition region_reserve :: "region \<Rightarrow> u32 \<Rightarrow> (u32 \<times> region) option" where
  "region_reserve r sz = do {
     nf \<leftarrow> addr_align_next (next_free r) ARCH_PGSIZE;
     dassert (idmap_valid r \<longrightarrow> nf + sz < max_mapped r);
     Some (nf, r\<lparr>next_free := nf + sz\<rparr>)
   }"

definition region_idmap_invalidate :: "region \<Rightarrow> region option" where
  "region_idmap_invalidate r = do {
     dassert (idmap_valid r);
     Some (r\<lparr>next_free := max_mapped r, idmap_valid := False\<rparr>)
   }"

definition region_end_get :: "region \<Rightarrow> u32" where
  "region_end_get r = next_free r"

definition region_idmap_end_get :: "region \<Rightarrow> u32" where
  "region_idmap_end_get r = max_mapped r"

subsection \<open>Reservations never overlap\<close>

lemma region_reserve_range:
  assumes "region_reserve r sz = Some (a, r')" and "unat (next_free r) + 4095 + unat sz < 2 ^ 32"
  shows "page_aligned a \<and> unat (next_free r) \<le> unat a \<and> unat a < unat (next_free r) + 4096 \<and>
         unat (next_free r') = unat a + unat sz \<and> max_mapped r' = max_mapped r \<and>
         idmap_valid r' = idmap_valid r"
proof -
  let ?n = "unat (next_free r)"
  obtain nf where nf: "addr_align_next (next_free r) (2 ^ 12) = Some nf"
    "unat nf = (?n + (2 ^ 12 - 1)) div 2 ^ 12 * 2 ^ 12"
    using addr_align_next_exp [of 12 "next_free r"] assms(2) by auto
  then have a: "nf = a" "next_free r' = a + sz" "max_mapped r' = max_mapped r"
    "idmap_valid r' = idmap_valid r"
    using assms(1) by (auto simp: region_reserve_def bind_eq_Some_conv)
  have b: "?n \<le> unat a" "unat a \<le> ?n + 4095" "unat a mod 4096 = 0" using nf(2) a(1) by auto
  then have "unat (a + sz) = unat a + unat sz"
    using assms(2) by (simp add: unat_word_ariths)
  with a b show ?thesis by (simp add: page_aligned_iff)
qed

text \<open>A run of reservations, as the boot code makes them.\<close>

fun region_reserve_all :: "region \<Rightarrow> u32 list \<Rightarrow> ((nat \<times> nat) list \<times> region) option" where
  "region_reserve_all r [] = Some ([], r)"
| "region_reserve_all r (sz # szs) = do {
     (a, r) \<leftarrow> region_reserve r sz;
     (rs, r) \<leftarrow> region_reserve_all r szs;
     Some ((unat a, unat a + unat sz) # rs, r)
   }"

lemma region_reserve_all_above:
  assumes "region_reserve_all r szs = Some (rs, r')"
    and "unat (next_free r) + (\<Sum>s\<leftarrow>szs. unat s + 4095) < 2 ^ 32"
  shows "(\<forall>(a, b) \<in> set rs. unat (next_free r) \<le> a \<and> b \<le> unat (next_free r')) \<and>
         unat (next_free r) \<le> unat (next_free r') \<and>
         sorted_wrt (\<lambda>(a, b) (c, d). b \<le> c) rs"
  using assms
proof (induction szs arbitrary: r rs)
  case Nil
  then show ?case by simp
next
  case (Cons sz szs)
  obtain a r1 rs1 where s: "region_reserve r sz = Some (a, r1)"
    "region_reserve_all r1 szs = Some (rs1, r')" "rs = (unat a, unat a + unat sz) # rs1"
    using Cons.prems(1) by (auto simp: bind_eq_Some_conv)
  have r1: "unat (next_free r) \<le> unat a" "unat (next_free r1) = unat a + unat sz"
    "unat a < unat (next_free r) + 4096"
    using region_reserve_range [OF s(1)] Cons.prems(2) by auto
  have "unat (next_free r1) + (\<Sum>s\<leftarrow>szs. unat s + 4095) < 2 ^ 32"
    using Cons.prems(2) r1 by simp
  from Cons.IH [OF s(2) this] r1 show ?case by (fastforce simp: s(3))
qed

text \<open>While the identity map is in use, a reservation lies below its end.\<close>

lemma region_reserve_idmap:
  assumes "region_reserve r sz = Some (a, r')" and "idmap_valid r"
    and "unat (next_free r) + 4095 + unat sz < 2 ^ 32"
  shows "unat a + unat sz < unat (max_mapped r)"
proof -
  have "a + sz < max_mapped r" using assms(1,2) by (auto simp: region_reserve_def bind_eq_Some_conv)
  moreover have "unat (a + sz) = unat a + unat sz"
    using region_reserve_range [OF assms(1,3)] assms(1)
    by (auto simp: region_reserve_def bind_eq_Some_conv)
  ultimately show ?thesis by (simp add: word_less_nat_alt)
qed

end
