(* ===== verification/Bootinfo.thy ===== *)
theory Bootinfo
  imports Addr
begin

text \<open>
  \<open>kernel/spec/multiboot/mmap.c\<close>, \<open>kernel/arch/i586/boot/meminfo.c\<close> and
  \<open>module.c\<close>: the memory map and the modules handed over by the boot loader.  The
  structures the loader leaves in memory are a parameter, \<open>mmap_at\<close> and
  \<open>module_at\<close>, giving the record found at an address.
\<close>

record multiboot_info =
  mbi_flags :: u32
  mbi_mem_upper :: u32
  mbi_mods_count :: u32
  mbi_mods_addr :: u32
  mbi_mmap_length :: u32
  mbi_mmap_addr :: u32

record multiboot_mmap =
  mm_size :: u32
  mm_addr :: u32
  mm_length :: u32
  mm_type :: u32

record multiboot_module =
  mb_mod_start :: u32
  mb_mod_end :: u32

definition MULTIBOOT_INFO_MEMORY :: u32 where "MULTIBOOT_INFO_MEMORY = 0x1"

definition MULTIBOOT_INFO_MEM_MAP :: u32 where "MULTIBOOT_INFO_MEM_MAP = 0x40"

definition MULTIBOOT_MEMORY_AVAILABLE :: u32 where "MULTIBOOT_MEMORY_AVAILABLE = 0x1"

definition multiboot_mem_size_get :: "multiboot_info \<Rightarrow> u32" where
  "multiboot_mem_size_get mbi =
     (if mbi_flags mbi AND MULTIBOOT_INFO_MEMORY = 0 then 0
      else (mbi_mem_upper mbi + 1024) * 1024)"

text \<open>Entry pointers are addresses, 0 being \<open>NULL\<close>.\<close>

definition multiboot_mmap_get :: "multiboot_info \<Rightarrow> (u32 \<Rightarrow> multiboot_mmap) \<Rightarrow> u32 \<Rightarrow> u32" where
  "multiboot_mmap_get mbi mmap_at prev =
     (if prev = 0 then
        if mbi_flags mbi AND MULTIBOOT_INFO_MEM_MAP = 0 then 0 else mbi_mmap_addr mbi
      else
        let nxt = prev + mm_size (mmap_at prev) + 4 in
        if nxt \<ge> mbi_mmap_addr mbi + mbi_mmap_length mbi then 0 else nxt)"

subsection \<open>Memory information\<close>

abbreviation (input) MEMINFO_MMAP_MAX :: nat where "MEMINFO_MMAP_MAX \<equiv> 8"

record meminfo_mmap =
  mmap_start :: u32
  mmap_end :: u32

record meminfo =
  mem_total :: u32
  mem_usable :: u32
  mem_limit :: u32
  mmap_count :: nat
  mmaps :: "meminfo_mmap list"

definition meminfo_boot :: meminfo where
  "meminfo_boot = \<lparr>mem_total = 0, mem_usable = 0, mem_limit = 0, mmap_count = 0,
     mmaps = replicate MEMINFO_MMAP_MAX \<lparr>mmap_start = 0, mmap_end = 0\<rparr>\<rparr>"

text \<open>One iteration of the loop of \<open>meminfo_init\<close>.\<close>

definition meminfo_entry :: "multiboot_mmap \<Rightarrow> meminfo \<Rightarrow> meminfo option" where
  "meminfo_entry entry m =
     (if mm_addr entry > 0xFFFFFFFF - mm_length entry then Some m
      else
        let e = mm_addr entry + mm_length entry in
        if mm_type entry \<noteq> MULTIBOOT_MEMORY_AVAILABLE then Some m
        else do {
          let m = m\<lparr>mem_usable := mem_usable m + mm_length entry, mem_limit := max_size (mem_limit m) e\<rparr>;
          dassert (mmap_count m < MEMINFO_MMAP_MAX);
          ms \<leftarrow> arr_set (mmaps m) (mmap_count m) \<lparr>mmap_start = mm_addr entry, mmap_end = e\<rparr>;
          Some (m\<lparr>mmaps := ms, mmap_count := mmap_count m + 1\<rparr>)
        })"

partial_function (option) meminfo_loop ::
    "multiboot_info \<Rightarrow> (u32 \<Rightarrow> multiboot_mmap) \<Rightarrow> u32 \<Rightarrow> meminfo \<Rightarrow> meminfo option" where
  "meminfo_loop mbi mmap_at entry m =
     (if entry = 0 then Some m
      else do {
        m \<leftarrow> meminfo_entry (mmap_at entry) m;
        meminfo_loop mbi mmap_at (multiboot_mmap_get mbi mmap_at entry) m
      })"

definition meminfo_init :: "multiboot_info \<Rightarrow> (u32 \<Rightarrow> multiboot_mmap) \<Rightarrow> meminfo \<Rightarrow> meminfo option" where
  "meminfo_init mbi mmap_at m = do {
     let m = m\<lparr>mem_total := multiboot_mem_size_get mbi\<rparr>;
     dassert (mem_total m \<noteq> 0);
     meminfo_loop mbi mmap_at (multiboot_mmap_get mbi mmap_at 0) m
   }"

fun meminfo_scan :: "meminfo_mmap list \<Rightarrow> u32 \<Rightarrow> u32 \<Rightarrow> bool" where
  "meminfo_scan [] start e = False"
| "meminfo_scan (mm # mms) start e =
     (if mmap_start mm \<le> start \<and> mmap_end mm > e then True else meminfo_scan mms start e)"

definition meminfo_region_is_valid :: "meminfo \<Rightarrow> u32 \<Rightarrow> u32 \<Rightarrow> bool option" where
  "meminfo_region_is_valid m start sz = do {
     dassert (start \<le> 0xFFFFFFFF - sz);
     Some (meminfo_scan (take (mmap_count m) (mmaps m)) start (start + sz))
   }"

definition meminfo_total_get :: "meminfo \<Rightarrow> u32" where "meminfo_total_get m = mem_total m"

definition meminfo_usable_get :: "meminfo \<Rightarrow> u32" where "meminfo_usable_get m = mem_usable m"

definition meminfo_limit_get :: "meminfo \<Rightarrow> u32" where "meminfo_limit_get m = mem_limit m"

definition meminfo_mmap_count_get :: "meminfo \<Rightarrow> nat" where "meminfo_mmap_count_get m = mmap_count m"

definition meminfo_mmap_get :: "meminfo \<Rightarrow> nat \<Rightarrow> meminfo_mmap option" where
  "meminfo_mmap_get m index = do {
     dassert (index < mmap_count m);
     arr_get (mmaps m) index
   }"

subsection \<open>Boot modules\<close>

abbreviation (input) MODULE_MAX :: nat where "MODULE_MAX \<equiv> 10"

record module_info =
  module_start :: u32
  module_size :: u32

record modules =
  mod_count :: nat
  mod_info :: "module_info list"

definition modules_boot :: modules where
  "modules_boot = \<lparr>mod_count = 0, mod_info = replicate MODULE_MAX \<lparr>module_start = 0, module_size = 0\<rparr>\<rparr>"

text \<open>\<open>module_at\<close> reads the loader's array of modules: address of the array and index.\<close>

definition module_init ::
    "multiboot_info \<Rightarrow> (u32 \<Rightarrow> nat \<Rightarrow> multiboot_module) \<Rightarrow> modules \<Rightarrow> modules option" where
  "module_init mbi module_at ms =
     (if mbi_mods_count mbi = 0 then Some ms
      else for_each [0..<min (unat (mbi_mods_count mbi)) MODULE_MAX]
        (\<lambda>i ms. do {
           let mb = module_at (mbi_mods_addr mbi) i;
           info \<leftarrow> arr_set (mod_info ms) i
             \<lparr>module_start = mb_mod_start mb, module_size = mb_mod_end mb - mb_mod_start mb\<rparr>;
           Some (ms\<lparr>mod_info := info\<rparr>)
         })
        (ms\<lparr>mod_count := min (unat (mbi_mods_count mbi)) MODULE_MAX\<rparr>))"

definition module_count_get :: "modules \<Rightarrow> nat" where "module_count_get ms = mod_count ms"

definition module_get :: "modules \<Rightarrow> nat \<Rightarrow> module_info option" where
  "module_get ms i = do {
     dassert (i < mod_count ms);
     arr_get (mod_info ms) i
   }"

subsection \<open>The memory map as a list\<close>

text \<open>
  \<open>mmap_layout mbi mmap_at a es\<close>: walking the loader's map from \<open>a\<close> meets the entries
  \<open>es\<close> and then stops.
\<close>

fun mmap_layout :: "multiboot_info \<Rightarrow> (u32 \<Rightarrow> multiboot_mmap) \<Rightarrow> u32 \<Rightarrow> multiboot_mmap list \<Rightarrow> bool" where
  "mmap_layout mbi mmap_at a [] \<longleftrightarrow> a = 0"
| "mmap_layout mbi mmap_at a (e # es) \<longleftrightarrow> a \<noteq> 0 \<and> mmap_at a = e \<and>
     mmap_layout mbi mmap_at (multiboot_mmap_get mbi mmap_at a) es"

definition mmap_usable :: "multiboot_mmap \<Rightarrow> bool" where
  "mmap_usable e \<longleftrightarrow> unat (mm_addr e) + unat (mm_length e) < 2 ^ 32 \<and> mm_type e = MULTIBOOT_MEMORY_AVAILABLE"

definition mmap_range :: "multiboot_mmap \<Rightarrow> meminfo_mmap" where
  "mmap_range e = \<lparr>mmap_start = mm_addr e, mmap_end = mm_addr e + mm_length e\<rparr>"

lemma no_overflow_iff: "\<not> (a > 0xFFFFFFFF - b) \<longleftrightarrow> unat a + unat (b::u32) < 2 ^ 32"
proof -
  have "unat (0xFFFFFFFF - b) = 2 ^ 32 - 1 - unat b"
    using unat_sub [of b "0xFFFFFFFF"] unat32_less [of b] by (simp add: word_le_nat_alt)
  moreover have "unat b < 2 ^ 32" using unat32_less [of b] by simp
  ultimately show ?thesis unfolding word_less_nat_alt by linarith
qed

lemma meminfo_entry_usable:
  "meminfo_entry e m =
     (if mmap_usable e then
        if mmap_count m < 8 \<and> mmap_count m < length (mmaps m)
        then Some (m\<lparr>mem_usable := mem_usable m + mm_length e,
                     mem_limit := max_size (mem_limit m) (mmap_end (mmap_range e)),
                     mmaps := (mmaps m)[mmap_count m := mmap_range e], mmap_count := mmap_count m + 1\<rparr>)
        else None
      else Some m)"
proof -
  have "\<not> (mm_addr e > 0xFFFFFFFF - mm_length e) \<and> mm_type e = MULTIBOOT_MEMORY_AVAILABLE \<longleftrightarrow> mmap_usable e"
    unfolding mmap_usable_def no_overflow_iff by simp
  then show ?thesis by (auto simp: meminfo_entry_def mmap_range_def Let_def dassert_def arr_set_def)
qed

lemma meminfo_loop_list:
  "mmap_layout mbi mmap_at a es \<Longrightarrow> meminfo_loop mbi mmap_at a m = for_each es meminfo_entry m"
proof (induction es arbitrary: a m)
  case Nil
  then show ?case by (simp add: meminfo_loop.simps)
next
  case (Cons e es)
  then show ?case
    by (subst meminfo_loop.simps) (auto intro!: Option.bind_cong)
qed

lemma meminfo_entries:
  assumes "mmap_count m + length (filter mmap_usable es) \<le> 8" and "length (mmaps m) = 8"
  shows "\<exists>m'. for_each es meminfo_entry m = Some m' \<and>
    mmap_count m' = mmap_count m + length (filter mmap_usable es) \<and>
    take (mmap_count m') (mmaps m') = take (mmap_count m) (mmaps m) @ map mmap_range (filter mmap_usable es) \<and>
    mem_usable m' = mem_usable m + sum_list (map mm_length (filter mmap_usable es)) \<and>
    mem_limit m' = fold (\<lambda>e l. max_size l (mmap_end (mmap_range e))) (filter mmap_usable es) (mem_limit m) \<and>
    mem_total m' = mem_total m"
  using assms
proof (induction es arbitrary: m)
  case Nil
  then show ?case by simp
next
  case (Cons e es)
  show ?case
  proof (cases "mmap_usable e")
    case False
    then show ?thesis using Cons by (simp add: meminfo_entry_usable)
  next
    case True
    define m1 where "m1 = m\<lparr>mem_usable := mem_usable m + mm_length e,
      mem_limit := max_size (mem_limit m) (mmap_end (mmap_range e)),
      mmaps := (mmaps m)[mmap_count m := mmap_range e], mmap_count := mmap_count m + 1\<rparr>"
    have c: "mmap_count m < 8" using Cons.prems(1) True by simp
    then have "meminfo_entry e m = Some m1"
      using True Cons.prems(2) by (simp add: meminfo_entry_usable m1_def)
    moreover have "take (mmap_count m1) (mmaps m1) = take (mmap_count m) (mmaps m) @ [mmap_range e]"
      using c Cons.prems(2) by (simp add: m1_def take_Suc_conv_app_nth)
    moreover have "mmap_count m1 + length (filter mmap_usable es) \<le> 8" "length (mmaps m1) = 8"
      using Cons.prems True by (simp_all add: m1_def)
    ultimately show ?thesis
      using Cons.IH [of m1] True by (auto simp: m1_def add.assoc)
  qed
qed

lemma meminfo_entries_too_many:
  assumes "mmap_count m + length (filter mmap_usable es) > 8" and "length (mmaps m) = 8"
    and "mmap_count m \<le> 8"
  shows "for_each es meminfo_entry m = None"
  using assms
proof (induction es arbitrary: m)
  case (Cons e es)
  then show ?case by (cases "mmap_usable e") (auto simp: meminfo_entry_usable)
qed simp

lemma fold_max_size_ge:
  "unat l \<le> unat (fold (\<lambda>e l. max_size l (f e)) es l) \<and>
   (\<forall>e \<in> set es. unat (f e) \<le> unat (fold (\<lambda>e l. max_size l (f e)) es l))"
proof (induction es arbitrary: l)
  case (Cons e es)
  have "unat l \<le> unat (max_size l (f e))" "unat (f e) \<le> unat (max_size l (f e))"
    by (auto simp: max_size_def word_less_nat_alt)
  with Cons.IH [of "max_size l (f e)"] show ?case by auto
qed simp

text \<open>
  C27. For any memory map the boot loader provides with at most eight usable entries, meminfo_init
  records exactly the usable ranges in order, their total size, and a limit above all of them.
\<close>

lemma meminfo_init_map:
  assumes "multiboot_mem_size_get mbi \<noteq> 0"
    and "mmap_layout mbi mmap_at (multiboot_mmap_get mbi mmap_at 0) es"
    and "length (filter mmap_usable es) \<le> 8"
  shows "\<exists>m. meminfo_init mbi mmap_at meminfo_boot = Some m \<and>
    take (mmap_count m) (mmaps m) = map mmap_range (filter mmap_usable es) \<and>
    mmap_count m = length (filter mmap_usable es) \<and>
    mem_usable m = sum_list (map mm_length (filter mmap_usable es)) \<and>
    mem_total m = multiboot_mem_size_get mbi \<and>
    (\<forall>e \<in> set es. mmap_usable e \<longrightarrow> unat (mmap_end (mmap_range e)) \<le> unat (mem_limit m))"
  using assms meminfo_entries [of "meminfo_boot\<lparr>mem_total := multiboot_mem_size_get mbi\<rparr>" es]
    fold_max_size_ge [of 0 "\<lambda>e. mmap_end (mmap_range e)" "filter mmap_usable es"]
  by (auto simp: meminfo_init_def Let_def meminfo_loop_list meminfo_boot_def)

end
