(* ===== verification/Physical.thy ===== *)
theory Physical
  imports Bmstack Region Bootinfo
begin

text \<open>
  \<open>kernel/core/memory/physical.c\<close>: the allocator of page frames, a bitmap stack with a
  reference count per frame.  The arrays the code carves out of the kernel region are held
  as typed lists; their old contents never matter, since \<open>physical_init\<close> overwrites them.
\<close>

abbreviation (input) PHYSICAL_USABLE_BASE :: u32 where "PHYSICAL_USABLE_BASE \<equiv> 0x1000000"

record phys =
  alloc_map :: bmstack
  ref_counts :: "u8 list option"

definition phys_boot :: phys where
  "phys_boot = \<lparr>alloc_map = \<lparr>bms_base = None, bms_head = None\<rparr>, ref_counts = None\<rparr>"

text \<open>The inner loop of \<open>physical_init\<close>: clear the bit of every page of one range.\<close>

partial_function (option) physical_unmark :: "u32 \<Rightarrow> u32 \<Rightarrow> bmstack \<Rightarrow> bmstack option" where
  "physical_unmark cur e bms =
     (if cur + ARCH_PGSIZE \<le> e
      then do {
        bms \<leftarrow> bmstack_clear bms (unat (addr_to_index PHYSICAL_USABLE_BASE ARCH_PGSIZE cur));
        physical_unmark (cur + ARCH_PGSIZE) e bms
      }
      else Some bms)"

definition physical_init :: "meminfo \<Rightarrow> region \<Rightarrow> phys \<Rightarrow> (region \<times> phys) option" where
  "physical_init m r p = do {
     let blocks = unat (addr_to_index PHYSICAL_USABLE_BASE ARCH_PGSIZE (meminfo_limit_get m));
     (alloc_start, r) \<leftarrow> region_reserve r (of_nat (BMSTACK_SIZE blocks));
     let bms = bmstack_init (replicate (BITMAP_LENGTH blocks) \<lparr>bme_next = None, bme_bitmap = 0\<rparr>);
     bms \<leftarrow> bmstack_set_all bms blocks;
     bms \<leftarrow> for_each [0..<meminfo_mmap_count_get m]
       (\<lambda>i bms. do {
          mmap \<leftarrow> meminfo_mmap_get m i;
          physical_unmark (mmap_start mmap) (mmap_end mmap) bms
        }) bms;
     bms \<leftarrow> bmstack_link bms blocks;
     (ref_start, r) \<leftarrow> region_reserve r (of_nat blocks);
     Some (r, p\<lparr>alloc_map := bms, ref_counts := Some (replicate blocks 0)\<rparr>)
   }"

definition physical_alloc :: "phys \<Rightarrow> (u32 \<times> phys) option" where
  "physical_alloc p = do {
     rc \<leftarrow> ref_counts p;
     (index, bms) \<leftarrow> bmstack_find_and_set (alloc_map p);
     dassert (index \<noteq> -1);
     rc \<leftarrow> arr_set rc (nat index) 1;
     Some (index_to_addr PHYSICAL_USABLE_BASE ARCH_PGSIZE (word_of_int index),
           p\<lparr>alloc_map := bms, ref_counts := Some rc\<rparr>)
   }"

definition physical_retain :: "phys \<Rightarrow> u32 \<Rightarrow> phys option" where
  "physical_retain p block = do {
     rc \<leftarrow> ref_counts p;
     let index = unat (addr_to_index PHYSICAL_USABLE_BASE ARCH_PGSIZE block);
     c \<leftarrow> arr_get rc index;
     if c = 0 then Some p
     else do {
       dassert (c < 255);
       rc \<leftarrow> arr_set rc index (c + 1);
       Some (p\<lparr>ref_counts := Some rc\<rparr>)
     }
   }"

definition physical_release :: "phys \<Rightarrow> u32 \<Rightarrow> (bool \<times> phys) option" where
  "physical_release p block = do {
     rc \<leftarrow> ref_counts p;
     let index = unat (addr_to_index PHYSICAL_USABLE_BASE ARCH_PGSIZE block);
     c \<leftarrow> arr_get rc index;
     if c = 0 then Some (False, p)
     else do {
       rc \<leftarrow> arr_set rc index (c - 1);
       let p = p\<lparr>ref_counts := Some rc\<rparr>;
       if c - 1 \<noteq> 0 then Some (False, p)
       else do {
         t \<leftarrow> bmstack_test (alloc_map p) index;
         dassert t;
         bms \<leftarrow> bmstack_clear (alloc_map p) index;
         Some (True, p\<lparr>alloc_map := bms\<rparr>)
       }
     }
   }"

subsection \<open>Reference counts\<close>

text \<open>The reference count of a frame index, and the frame index of an address.\<close>

definition refs :: "phys \<Rightarrow> nat \<Rightarrow> nat" where
  "refs p i = (case ref_counts p of None \<Rightarrow> 0 | Some rc \<Rightarrow> if i < length rc then unat (rc ! i) else 0)"

definition frames :: "phys \<Rightarrow> nat" where
  "frames p = (case ref_counts p of None \<Rightarrow> 0 | Some rc \<Rightarrow> length rc)"

definition frame_index :: "u32 \<Rightarrow> nat" where
  "frame_index a = unat (addr_to_index PHYSICAL_USABLE_BASE ARCH_PGSIZE a)"

definition frame_addr :: "nat \<Rightarrow> u32" where
  "frame_addr i = index_to_addr PHYSICAL_USABLE_BASE ARCH_PGSIZE (of_nat i)"

text \<open>
  Invariant: a frame with a positive count is marked in the bitmap, and every frame has an
  address below 4 GB.  \<open>phys_ready\<close> adds that the free list is complete.
\<close>

definition phys_inv :: "phys \<Rightarrow> bool" where
  "phys_inv p \<longleftrightarrow> ref_counts p \<noteq> None \<and> bmstack_winv (alloc_map p) \<and>
     bmstack_cap (alloc_map p) \<le> frames p \<and> frames p \<le> 0xFF000 \<and>
     (\<forall>i. refs p i \<noteq> 0 \<longrightarrow> i \<in> bmstack_used (alloc_map p))"

definition phys_ready :: "phys \<Rightarrow> bool" where
  "phys_ready p \<longleftrightarrow> phys_inv p \<and> bmstack_inv (alloc_map p)"

lemma unat_frame_addr: "i < 0xFF000 \<Longrightarrow> unat (frame_addr i) = 0x1000000 + 4096 * i"
  by (simp add: frame_addr_def index_to_addr_def unat_word_ariths unat_of_nat)

lemma frame_index_addr [simp]: "i < 0xFF000 \<Longrightarrow> frame_index (frame_addr i) = i"
  unfolding frame_index_def frame_addr_def
  by (subst addr_index_roundtrip) (simp_all add: unat_of_nat)

lemma page_aligned_frame_addr: "i < 0xFF000 \<Longrightarrow> page_aligned (frame_addr i)"
  by (simp add: page_aligned_iff unat_frame_addr mod_add_eq [symmetric])

lemma frame_index_nat:
  "frame_index a = (if 0x1000000 \<le> unat a then (unat a - 0x1000000) div 4096
                    else (unat a + 0xFF000000) div 4096)"
proof (cases "0x1000000 \<le> unat a")
  case True
  then have "unat (a - 0x1000000) = unat a - 0x1000000"
    using unat_sub [of "0x1000000" a] by (simp add: word_le_nat_alt)
  with True show ?thesis by (simp add: frame_index_def addr_to_index_def unat_div)
next
  case False
  have "a - 0x1000000 = a + 0xFF000000" by (simp add: eq_diff_eq diff_eq_eq)
  moreover have "unat (a + 0xFF000000) = unat a + 0xFF000000"
    using False by (simp add: unat_word_ariths)
  ultimately have "unat (a - 0x1000000) = unat a + 0xFF000000" by (simp only:)
  with False show ?thesis by (simp add: frame_index_def addr_to_index_def unat_div)
qed

lemma frame_addr_index:
  assumes "page_aligned a" and "0x1000000 \<le> unat a"
  shows "frame_addr (frame_index a) = a"
proof -
  have i: "frame_index a = (unat a - 0x1000000) div 4096" using assms by (simp add: frame_index_nat)
  then have "frame_index a < 0xFF000" using unat32_less [of a] by simp
  moreover have "4096 * ((unat a - 0x1000000) div 4096) = unat a - 0x1000000"
    using assms by (simp add: page_aligned_iff mod_eq_0_iff_dvd)
  ultimately have "unat (frame_addr (frame_index a)) = unat a"
    using assms(2) i by (simp add: unat_frame_addr)
  then show ?thesis by (simp add: word_unat_eq_iff)
qed

subsection \<open>Allocation, retention and release\<close>

lemma refs_update:
  "ref_counts p = Some rc \<Longrightarrow> i < length rc \<Longrightarrow>
   refs (p\<lparr>ref_counts := Some (rc[i := c])\<rparr>) = (refs p)(i := unat c)"
  by (rule ext) (auto simp: refs_def nth_list_update)

lemma refs_alloc_map [simp]: "refs (p\<lparr>alloc_map := b\<rparr>) = refs p" "frames (p\<lparr>alloc_map := b\<rparr>) = frames p"
  by (auto simp: refs_def frames_def fun_eq_iff)

lemma frames_update [simp]:
  "ref_counts p = Some rc \<Longrightarrow> frames (p\<lparr>ref_counts := Some (rc[i := c])\<rparr>) = frames p"
  by (simp add: frames_def)

lemma phys_inv_index: "phys_inv p \<Longrightarrow> refs p i \<noteq> 0 \<Longrightarrow> i < frames p \<and> i < 0xFF000 \<and> i < bmstack_cap (alloc_map p)"
  using bmstack_slots.used_bounded [of "alloc_map p"]
  by (auto simp: phys_inv_def dest!: subsetD)

lemma physical_alloc_frame:
  assumes "phys_inv p" and "physical_alloc p = Some (a, p')"
  shows "\<exists>i. a = frame_addr i \<and> i < 0xFF000 \<and> i < frames p \<and> i \<notin> bmstack_used (alloc_map p) \<and>
     refs p i = 0 \<and> refs p' = (refs p)(i := 1) \<and> frames p' = frames p \<and>
     bmstack_used (alloc_map p') = insert i (bmstack_used (alloc_map p)) \<and>
     bmstack_cap (alloc_map p') = bmstack_cap (alloc_map p) \<and> phys_inv p'"
proof -
  obtain rc n bms where a: "ref_counts p = Some rc" "bmstack_find_and_set (alloc_map p) = Some (n, bms)"
    "nat n < length rc" "a = index_to_addr PHYSICAL_USABLE_BASE ARCH_PGSIZE (word_of_int n)"
    "p' = p\<lparr>alloc_map := bms, ref_counts := Some (rc[nat n := 1])\<rparr>"
    using assms(2) by (auto simp: physical_alloc_def bind_eq_Some_conv)
  obtain i where i: "n = int i" "i < bmstack_cap (alloc_map p)" "i \<notin> bmstack_used (alloc_map p)"
    "bmstack_used bms = insert i (bmstack_used (alloc_map p))"
    "bmstack_cap bms = bmstack_cap (alloc_map p)" "bmstack_winv bms"
    using bmstack_slots.alloc_sound [OF _ a(2)] assms(1) by (auto simp: phys_inv_def)
  let ?q = "p\<lparr>alloc_map := bms\<rparr>"
  have r: "refs p' = (refs p)(i := 1)" "frames p' = frames p"
    using refs_update [of ?q rc i 1] a(1,3) i(1) by (simp_all add: a(5) frames_def)
  have "i < frames p" "frames p \<le> 0xFF000"
    using i assms(1) by (auto simp: phys_inv_def)
  moreover have "refs p i = 0" using i(3) assms(1) by (auto simp: phys_inv_def)
  moreover have "phys_inv p'" using assms(1) r i by (auto simp: phys_inv_def a(5))
  ultimately show ?thesis using a i r by (intro exI [of _ i]) (auto simp: frame_addr_def)
qed

lemma physical_alloc_live:
  assumes "phys_ready p" and "bmstack_used (alloc_map p) \<noteq> {..<bmstack_cap (alloc_map p)}"
  shows "\<exists>a p'. physical_alloc p = Some (a, p') \<and> phys_ready p'"
proof -
  obtain i bms where i: "bmstack_find_and_set (alloc_map p) = Some (int i, bms)"
    "i < bmstack_cap (alloc_map p)" "bmstack_inv bms"
    using bmstack_slots.alloc_free [OF _ assms(2)] assms(1) unfolding phys_ready_def by blast
  obtain rc where rc: "ref_counts p = Some rc" "i < length rc"
    using assms(1) i(2) by (auto simp: phys_ready_def phys_inv_def frames_def)
  then obtain a p' where p': "physical_alloc p = Some (a, p')" "alloc_map p' = bms"
    using i by (auto simp: physical_alloc_def)
  moreover have "phys_inv p'"
    using physical_alloc_frame [OF _ p'(1)] assms(1) by (auto simp: phys_ready_def)
  ultimately show ?thesis using i(3) by (auto simp: phys_ready_def)
qed

lemma physical_retain_cases:
  assumes "phys_inv p"
  shows "physical_retain p a =
    (let i = frame_index a in
     if frames p \<le> i then None else if refs p i = 0 then Some p
     else if refs p i = 255 then None
     else Some (p\<lparr>ref_counts := Some ((the (ref_counts p))[i := the (ref_counts p) ! i + 1])\<rparr>))"
proof -
  obtain rc where rc: "ref_counts p = Some rc" using assms by (auto simp: phys_inv_def)
  have c: "unat c = 255 \<longleftrightarrow> \<not> c < 255" for c :: u8
  proof -
    have "unat c < 2 ^ LENGTH(8)" by (rule unsigned_less)
    then show ?thesis by (auto simp: word_less_nat_alt)
  qed
  show ?thesis
    by (auto simp: physical_retain_def rc refs_def frames_def frame_index_def Let_def c unat_eq_0 not_le
        dassert_def)
qed

lemma unat8_pred: "c \<noteq> 0 \<Longrightarrow> unat (c - 1 :: u8) = unat c - 1"
  by (simp add: unat_minus_one)

lemma physical_release_zero:
  "phys_inv p \<Longrightarrow> frame_index a < frames p \<Longrightarrow> refs p (frame_index a) = 0 \<Longrightarrow> physical_release p a = Some (False, p)"
  by (auto simp: phys_inv_def physical_release_def refs_def frames_def frame_index_def Let_def unat_eq_0)

lemma physical_release_shared:
  assumes "phys_inv p" and "i = frame_index a" and "refs p i > 1"
  shows "\<exists>p'. physical_release p a = Some (False, p') \<and> refs p' = (refs p)(i := refs p i - 1) \<and>
           alloc_map p' = alloc_map p \<and> frames p' = frames p \<and> phys_inv p'"
proof -
  obtain rc where rc: "ref_counts p = Some rc" using assms(1) by (auto simp: phys_inv_def)
  then have i: "i < length rc" "unat (rc ! i) > 1" using assms(3) by (auto simp: refs_def split: if_splits)
  then have c: "rc ! i \<noteq> 0" by auto
  let ?p = "p\<lparr>ref_counts := Some (rc[i := rc ! i - 1])\<rparr>"
  have r: "refs ?p = (refs p)(i := refs p i - 1)"
    using refs_update [OF rc i(1)] c rc i(1) by (simp add: unat8_pred refs_def)
  have "rc ! i - 1 \<noteq> 0" using i(2) by auto
  then have "physical_release p a = Some (False, ?p)"
    using rc i c by (simp add: physical_release_def Let_def assms(2) frame_index_def)
  moreover have "phys_inv ?p" using assms(1,3) r rc by (auto simp: phys_inv_def)
  ultimately show ?thesis using r rc by auto
qed

lemma physical_release_last:
  assumes "phys_inv p" and "i = frame_index a" and "refs p i = 1"
  shows "\<exists>p'. physical_release p a = Some (True, p') \<and> refs p' = (refs p)(i := 0) \<and>
           bmstack_used (alloc_map p') = bmstack_used (alloc_map p) - {i} \<and>
           bmstack_cap (alloc_map p') = bmstack_cap (alloc_map p) \<and> frames p' = frames p \<and>
           phys_inv p' \<and>
           (phys_ready p \<and> bmstack_used (alloc_map p) \<noteq> {..<bmstack_cap (alloc_map p)} \<longrightarrow> phys_ready p')"
proof -
  obtain rc where rc: "ref_counts p = Some rc" and w: "bmstack_winv (alloc_map p)"
    using assms(1) by (auto simp: phys_inv_def)
  then have i: "i < length rc" "unat (rc ! i) = 1" using assms(3) by (auto simp: refs_def split: if_splits)
  then have c: "rc ! i = 1" by (simp add: word_unat_eq_iff)
  have cap: "i < bmstack_cap (alloc_map p)" "i \<in> bmstack_used (alloc_map p)"
    using phys_inv_index [OF assms(1), of i] assms by (auto simp: phys_inv_def)
  obtain bms where b: "bmstack_clear (alloc_map p) i = Some bms"
    "bmstack_used bms = bmstack_used (alloc_map p) - {i}" "bmstack_cap bms = bmstack_cap (alloc_map p)"
    "bmstack_winv bms"
    using bmstack_slots.release_used [OF w cap(1)] by blast
  let ?q = "p\<lparr>ref_counts := Some (rc[i := 0])\<rparr>"
  let ?p = "?q\<lparr>alloc_map := bms\<rparr>"
  have r: "refs ?p = (refs p)(i := 0)" using refs_update [OF rc i(1), of 0] by simp
  have f: "frames ?p = frames p" using rc by simp
  have "physical_release p a = Some (True, ?p)"
    using rc i c cap(2) b(1) bmstack_slots.test_used [OF w cap(1)]
    by (simp add: physical_release_def Let_def assms(2) frame_index_def)
  moreover have I: "phys_inv ?p" using assms(1) r f b by (auto simp: phys_inv_def)
  moreover have "phys_ready ?p"
    if "phys_ready p" "bmstack_used (alloc_map p) \<noteq> {..<bmstack_cap (alloc_map p)}"
    using I bmstack_slots.release_live [OF _ that(2) cap(1) b(1)] that(1) by (simp add: phys_ready_def)
  ultimately show ?thesis using r f b by auto
qed

lemma physical_retain_count:
  assumes "phys_inv p" and "i = frame_index a" and "0 < refs p i" and "refs p i < 255"
  shows "\<exists>p'. physical_retain p a = Some p' \<and> refs p' = (refs p)(i := refs p i + 1) \<and>
           alloc_map p' = alloc_map p \<and> frames p' = frames p \<and> phys_inv p'"
proof -
  obtain rc where rc: "ref_counts p = Some rc" using assms(1) by (auto simp: phys_inv_def)
  then have i: "i < length rc" "unat (rc ! i) < 255" "unat (rc ! i) = refs p i"
    using assms(3,4) by (auto simp: refs_def split: if_splits)
  let ?p = "p\<lparr>ref_counts := Some (rc[i := rc ! i + 1])\<rparr>"
  have "unat (rc ! i + 1) = unat (rc ! i) + 1" using i(2) by (simp add: unat_word_ariths)
  then have r: "refs ?p = (refs p)(i := refs p i + 1)"
    using refs_update [OF rc i(1)] rc i by simp
  have "physical_retain p a = Some ?p"
    using physical_retain_cases [OF assms(1), of a] rc i assms by (simp add: Let_def frames_def)
  moreover have "phys_inv ?p" using assms(1,3) r rc by (auto simp: phys_inv_def)
  ultimately show ?thesis using r rc by auto
qed

text \<open>
  An address below \<open>PHYSICAL_USABLE_BASE\<close>, such as a frame of video memory, has an index
  that wraps around to the end of the address space and lies outside the count array.
\<close>

lemma physical_low_memory:
  assumes "phys_inv p" and "unat a < 0x1000000"
  shows "physical_release p a = None" "physical_retain p a = None"
proof -
  obtain rc where rc: "ref_counts p = Some rc" "length rc \<le> 0xFF000"
    using assms(1) by (auto simp: phys_inv_def frames_def)
  have "frame_index a \<ge> 0xFF000" using assms(2) by (simp add: frame_index_nat)
  then have "\<not> frame_index a < length rc" using rc(2) by simp
  then show "physical_release p a = None" "physical_retain p a = None"
    using rc(1) by (simp_all add: physical_release_def physical_retain_def frame_index_def Let_def)
qed

subsection \<open>Initialisation\<close>

text \<open>Before \<open>bmstack_link\<close> the list is empty and clearing a bit only clears the bit.\<close>

definition unlinked :: "nat \<Rightarrow> bmstack \<Rightarrow> bool" where
  "unlinked n bms \<longleftrightarrow> bms_head bms = None \<and> (\<exists>base. bms_base bms = Some base \<and> length base = n)"

lemma unlinked_cap: "unlinked n bms \<Longrightarrow> bmstack_cap bms = n * 32"
  by (auto simp: unlinked_def bmstack_cap_def)

lemma bmstack_clear_unlinked:
  assumes "unlinked n bms" and "i < n * 32"
  shows "\<exists>bms'. bmstack_clear bms i = Some bms' \<and> unlinked n bms' \<and> bmstack_used bms' = bmstack_used bms - {i}"
proof -
  obtain base where b: "bms_base bms = Some base" "length base = n" "bms_head bms = None"
    using assms(1) by (auto simp: unlinked_def)
  have "i div 32 < n" using assms(2) by (simp add: div_less_length_iff)
  then obtain bms' where c: "bmstack_clear bms i = Some bms'" "unlinked n bms'"
    using b by (auto simp: bmstack_clear_def Let_def unlinked_def)
  with bmstack_clear_used [OF c(1)] show ?thesis using unlinked_cap [OF assms(1)] assms(2) by auto
qed

text \<open>The frames that lie wholly inside a range of physical memory.\<close>

definition range_frames :: "u32 \<Rightarrow> u32 \<Rightarrow> nat set" where
  "range_frames s e = {i. unat s \<le> 0x1000000 + 4096 * i \<and> 0x1000000 + 4096 * (i + 1) \<le> unat e}"

text \<open>
  Ranges the loop can walk over: page aligned, and not in the last page of the address space, where
  the loop counter wraps.  The pages of a range fit a bitmap of \<open>n\<close> words if none of them lies below
  \<open>PHYSICAL_USABLE_BASE\<close>, where the index wraps around, or beyond the last bit.
\<close>

definition range_ok :: "u32 \<Rightarrow> u32 \<Rightarrow> bool" where
  "range_ok s e \<longleftrightarrow> page_aligned s \<and> unat s \<le> unat e \<and> unat e < 0xFFFFF000"

definition fits :: "nat \<Rightarrow> u32 \<Rightarrow> u32 \<Rightarrow> bool" where
  "fits n s e \<longleftrightarrow> unat s + 4096 \<le> unat e \<longrightarrow>
     0x1000000 \<le> unat s \<and> unat s + (unat e - unat s) div 4096 * 4096 \<le> 0x1000000 + 4096 * (n * 32)"

lemma bmstack_clear_outside: "unlinked n bms \<Longrightarrow> n * 32 \<le> i \<Longrightarrow> bmstack_clear bms i = None"
  by (auto simp: unlinked_def bmstack_clear_def Let_def arr_get_def div_less_length_iff)

lemma range_frames_step:
  assumes "page_aligned s" and "0x1000000 \<le> unat s" and "unat s + 4096 \<le> unat e" and "unat e < 0xFFFFF000"
  shows "range_frames s e = insert (frame_index s) (range_frames (s + 4096) e)"
proof -
  obtain k where k: "unat s = 0x1000000 + 4096 * k"
  proof -
    have "4096 dvd unat s - 0x1000000" using assms(1,2) by (simp add: page_aligned_iff mod_eq_0_iff_dvd)
    then obtain k where "unat s - 0x1000000 = 4096 * k" by (rule dvdE)
    with assms(2) that show thesis by (metis le_add_diff_inverse)
  qed
  then have "frame_index s = k" by (simp add: frame_index_nat)
  moreover have "unat (s + 4096) = unat s + 4096" using assms(3,4) by (simp add: unat_word_ariths)
  ultimately show ?thesis using k assms(3) by (auto simp: range_frames_def)
qed

lemma fits_step:
  assumes "page_aligned s" and "unat s + 4096 \<le> unat e" and "unat e < 0xFFFFF000" and "n * 32 \<le> 0xFF000"
  shows "fits n s e \<longleftrightarrow> frame_index s < n * 32 \<and> fits n (s + 4096) e"
    and "frame_index s < n * 32 \<Longrightarrow> 0x1000000 \<le> unat s"
proof -
  have plus: "unat (s + 4096) = unat s + 4096" using assms(2,3) by (simp add: unat_word_ariths)
  define k where "k = (unat e - unat (s + 4096)) div 4096"
  have "unat e - unat s = unat e - unat (s + 4096) + 4096" using plus assms(2) by simp
  then have k: "(unat e - unat s) div 4096 = Suc k" by (simp add: k_def)
  have low: "0xFF000 \<le> frame_index s" if "unat s < 0x1000000" using that by (simp add: frame_index_nat)
  then show "frame_index s < n * 32 \<Longrightarrow> 0x1000000 \<le> unat s" using assms(4) by (meson leI less_le_trans not_less)
  show "fits n s e \<longleftrightarrow> frame_index s < n * 32 \<and> fits n (s + 4096) e"
  proof (cases "0x1000000 \<le> unat s")
    case True
    obtain d where d: "unat s = 0x1000000 + 4096 * d"
    proof -
      have "4096 dvd unat s - 0x1000000" using assms(1) True by (simp add: page_aligned_iff mod_eq_0_iff_dvd)
      then obtain d where "unat s - 0x1000000 = 4096 * d" by (rule dvdE)
      with True that show thesis by (metis le_add_diff_inverse)
    qed
    have "frame_index s = d" using d by (simp add: frame_index_nat)
    moreover have "fits n s e \<longleftrightarrow> d + Suc k \<le> n * 32" using True assms(2) k d by (auto simp: fits_def)
    moreover have "fits n (s + 4096) e \<longleftrightarrow> (0 < k \<longrightarrow> d + Suc k \<le> n * 32)"
    proof -
      have "unat (s + 4096) + 4096 \<le> unat e \<longleftrightarrow> 0 < k" unfolding k_def using plus assms(2) by (simp add: div_greater_zero_iff; linarith)
      then show ?thesis unfolding fits_def k_def [symmetric] using plus d by auto
    qed
    ultimately show ?thesis by auto
  next
    case False
    then show ?thesis using low assms(2,4) by (auto simp: fits_def)
  qed
qed

lemma physical_unmark_cases:
  assumes "range_ok s e" and "unlinked n bms" and "n * 32 \<le> 0xFF000"
  shows "if fits n s e then \<exists>bms'. physical_unmark s e bms = Some bms' \<and> unlinked n bms' \<and>
           bmstack_used bms' = bmstack_used bms - range_frames s e
         else physical_unmark s e bms = None"
  using assms
proof (induction "unat e - unat s" arbitrary: s bms rule: less_induct)
  case less
  have s: "page_aligned s" "unat s \<le> unat e" "unat e < 0xFFFFF000" using less.prems(1) by (auto simp: range_ok_def)
  have plus: "unat (s + 4096) = unat s + 4096" using s by (simp add: unat_word_ariths)
  show ?case
  proof (cases "s + 4096 \<le> e")
    case False
    then have lt: "unat e < unat s + 4096" by (simp add: word_le_nat_alt plus)
    then have "range_frames s e = {}" "fits n s e" by (auto simp: range_frames_def fits_def)
    moreover have "physical_unmark s e bms = Some bms" using False by (subst physical_unmark.simps) simp
    ultimately show ?thesis using less.prems(2) by simp
  next
    case True
    then have le: "unat s + 4096 \<le> unat e" by (simp add: word_le_nat_alt plus)
    note F = fits_step [OF s(1) le s(3) less.prems(3)]
    have run: "physical_unmark s e bms = do { b \<leftarrow> bmstack_clear bms (frame_index s); physical_unmark (s + 4096) e b }"
      using True by (subst physical_unmark.simps) (simp add: frame_index_def)
    show ?thesis
    proof (cases "frame_index s < n * 32")
      case False
      then show ?thesis using run F(1) bmstack_clear_outside [OF less.prems(2)] by simp
    next
      case idx: True
      obtain b1 where b1: "bmstack_clear bms (frame_index s) = Some b1" "unlinked n b1"
        "bmstack_used b1 = bmstack_used bms - {frame_index s}"
        using bmstack_clear_unlinked [OF less.prems(2) idx] by blast
      have "range_ok (s + 4096) e"
        using s le plus page_aligned_plus [OF s(1), of 4096] by (simp add: range_ok_def page_aligned_iff)
      moreover have "unat e - unat (s + 4096) < unat e - unat s" using le plus by linarith
      ultimately have "if fits n (s + 4096) e then \<exists>b2. physical_unmark (s + 4096) e b1 = Some b2 \<and> unlinked n b2 \<and>
          bmstack_used b2 = bmstack_used b1 - range_frames (s + 4096) e else physical_unmark (s + 4096) e b1 = None"
        using less.hyps [of "s + 4096" b1] b1(2) less.prems(3) by blast
      then show ?thesis
        using run b1 F(1) idx range_frames_step [OF s(1) F(2) [OF idx] le s(3)] by (auto split: if_splits)
    qed
  qed
qed

lemma bmstack_set_all_unlinked:
  assumes "length base = BITMAP_LENGTH items"
  shows "\<exists>bms. bmstack_set_all (bmstack_init base) items = Some bms \<and> unlinked (BITMAP_LENGTH items) bms \<and>
           bmstack_used bms = {..<BITMAP_LENGTH items * 32}"
proof -
  have "bmstack_set_all (bmstack_init base) items = Some \<lparr>bms_base = Some (replicate (BITMAP_LENGTH items)
      \<lparr>bme_next = Some (length base), bme_bitmap = 0xFFFFFFFF\<rparr>), bms_head = None\<rparr>"
    using assms by (simp add: bmstack_set_all_def bmstack_init_def memset_entries_def BMSTACK_SIZE_def)
  then show ?thesis
    by (simp add: unlinked_def bmstack_used_def bitmap_set_all_bits(2))
qed

lemma physical_init_run:
  fixes m
  defines "blocks \<equiv> frame_index (meminfo_limit_get m)"
  shows "physical_init m r p = do {
     (a, r) \<leftarrow> region_reserve r (of_nat (BMSTACK_SIZE blocks));
     b \<leftarrow> bmstack_set_all (bmstack_init (replicate (BITMAP_LENGTH blocks) \<lparr>bme_next = None, bme_bitmap = 0\<rparr>)) blocks;
     b \<leftarrow> for_each [0..<mmap_count m]
       (\<lambda>i b. do { mmap \<leftarrow> meminfo_mmap_get m i; physical_unmark (mmap_start mmap) (mmap_end mmap) b }) b;
     b \<leftarrow> bmstack_link b blocks;
     (a, r) \<leftarrow> region_reserve r (of_nat blocks);
     Some (r, p\<lparr>alloc_map := b, ref_counts := Some (replicate blocks 0)\<rparr>)
   }"
  by (simp add: physical_init_def Let_def meminfo_mmap_count_get_def blocks_def frame_index_def)

text \<open>The loops over the memory map: every range fits, or one of them runs out of the bitmap.\<close>

lemma unmark_ranges:
  fixes m
  defines "body \<equiv> \<lambda>i b. do { mmap \<leftarrow> meminfo_mmap_get m i; physical_unmark (mmap_start mmap) (mmap_end mmap) b }"
    and "S \<equiv> \<lambda>i. mmap_start (mmaps m ! i)" and "E \<equiv> \<lambda>i. mmap_end (mmaps m ! i)"
  assumes b: "unlinked n b" "n * 32 \<le> 0xFF000" and m: "mmap_count m \<le> length (mmaps m)" "\<And>i. i < mmap_count m \<Longrightarrow> range_ok (S i) (E i)"
    and k: "k \<le> mmap_count m"
  shows "if \<forall>i<k. fits n (S i) (E i)
    then \<exists>b'. for_each [0..<k] body b = Some b' \<and> unlinked n b' \<and> bmstack_used b' = bmstack_used b - (\<Union>i<k. range_frames (S i) (E i))
    else for_each [0..<k] body b = None"
  using k
proof (induction k)
  case (Suc k)
  have step: "body k c = physical_unmark (S k) (E k) c" for c
    using Suc.prems m(1) by (simp add: body_def S_def E_def meminfo_mmap_get_def)
  have U: "(\<Union>i<Suc k. range_frames (S i) (E i)) = (\<Union>i<k. range_frames (S i) (E i)) \<union> range_frames (S k) (E k)"
    by (auto simp: less_Suc_eq)
  show ?case
  proof (cases "\<forall>i<k. fits n (S i) (E i)")
    case True
    then obtain b' where b': "for_each [0..<k] body b = Some b'" "unlinked n b'"
        "bmstack_used b' = bmstack_used b - (\<Union>i<k. range_frames (S i) (E i))"
      using Suc by auto
    then show ?thesis
      using physical_unmark_cases [OF m(2) b'(2) b(2), of k] Suc.prems True U
      by (auto simp: for_each_append step less_Suc_eq)
  next
    case False
    then have "for_each [0..<k] body b = None" using Suc by (meson Suc_leD)
    moreover have "\<not> (\<forall>i<Suc k. fits n (S i) (E i))" using False less_SucI by blast
    ultimately show ?thesis by (simp add: for_each_append)
  qed
qed (use b in simp)

text \<open>
  C26. For a memory map of page-aligned ranges and a limit of at least 16 MB: if every range that
  holds a page lies between 16 MB and the end of the bitmap, whose length is rounded down to whole
  words, physical_init returns exactly when the kernel region has room, with an allocator in which
  exactly the frames of the ranges are free, all reference counts are zero and the free list reaches
  every free frame; otherwise it clears a bit outside of the bitmap, so that no result is defined.
\<close>

theorem physical_init_ready:
  fixes m
  defines "blocks \<equiv> frame_index (meminfo_limit_get m)"
    and "S \<equiv> \<lambda>i. mmap_start (mmaps m ! i)" and "E \<equiv> \<lambda>i. mmap_end (mmaps m ! i)"
  assumes lim: "0x1000000 \<le> unat (meminfo_limit_get m)"
    and m: "mmap_count m \<le> length (mmaps m)" "\<And>i. i < mmap_count m \<Longrightarrow> range_ok (S i) (E i)"
  shows "if \<forall>i<mmap_count m. fits (blocks div 32) (S i) (E i)
    then \<exists>p'. physical_init m r p = do {
        (a, r) \<leftarrow> region_reserve r (of_nat (BMSTACK_SIZE blocks));
        (a, r) \<leftarrow> region_reserve r (of_nat blocks);
        Some (r, p')
      } \<and> phys_ready p' \<and> frames p' = blocks \<and>
      bmstack_cap (alloc_map p') = blocks div 32 * 32 \<and> (\<forall>i. refs p' i = 0) \<and>
      bmstack_used (alloc_map p') = {..<blocks div 32 * 32} - (\<Union>i<mmap_count m. range_frames (S i) (E i))
    else physical_init m r p = None"
proof -
  let ?n = "blocks div 32"
  let ?body = "\<lambda>i b. do { mmap \<leftarrow> meminfo_mmap_get m i; physical_unmark (mmap_start mmap) (mmap_end mmap) b }"
  have bl: "blocks \<le> 0xFF000" using lim unat32_less [of "meminfo_limit_get m"] by (simp add: blocks_def frame_index_nat)
  have n: "BITMAP_LENGTH blocks = ?n" "?n * 32 \<le> 0xFF000" "?n * 32 \<le> blocks" using bl by (auto simp: BITMAP_LENGTH_def)
  let ?base = "replicate ?n \<lparr>bme_next = None, bme_bitmap = 0\<rparr>"
  obtain b0 where b0: "bmstack_set_all (bmstack_init ?base) blocks = Some b0" "unlinked ?n b0"
    "bmstack_used b0 = {..<?n * 32}"
    using bmstack_set_all_unlinked [of ?base blocks] n by auto
  have R: "if \<forall>i<mmap_count m. fits ?n (S i) (E i)
    then \<exists>b1. for_each [0..<mmap_count m] ?body b0 = Some b1 \<and> unlinked ?n b1 \<and>
      bmstack_used b1 = {..<?n * 32} - (\<Union>i<mmap_count m. range_frames (S i) (E i))
    else for_each [0..<mmap_count m] ?body b0 = None"
    using unmark_ranges [OF b0(2) n(2) m(1) m(2) [unfolded S_def E_def] order_refl] unfolding S_def E_def b0(3) .
  note run = physical_init_run [of m r p, folded blocks_def]
  show ?thesis
  proof (cases "\<forall>i<mmap_count m. fits ?n (S i) (E i)")
    case False
    then have "for_each [0..<mmap_count m] ?body b0 = None" using R by (simp only: if_False)
    then show ?thesis using False run b0(1) n(1) by (cases "region_reserve r (of_nat (BMSTACK_SIZE blocks))") auto
  next
    case True
    then obtain b1 where b1: "for_each [0..<mmap_count m] ?body b0 = Some b1" "unlinked ?n b1"
      "bmstack_used b1 = {..<?n * 32} - (\<Union>i<mmap_count m. range_frames (S i) (E i))"
      using R by auto
    then obtain base1 where "bms_base b1 = Some base1" "bms_head b1 = None" "length base1 = ?n"
      by (auto simp: unlinked_def)
    then obtain b2 where b2: "bmstack_link b1 blocks = Some b2" "bms_words b2 = bms_words b1" "bmstack_inv b2"
      using bmstack_link_ok [of b1 base1 blocks] n by auto
    let ?p = "p\<lparr>alloc_map := b2, ref_counts := Some (replicate blocks 0)\<rparr>"
    have "physical_init m r p = do {
        (a, r) \<leftarrow> region_reserve r (of_nat (BMSTACK_SIZE blocks));
        (a, r) \<leftarrow> region_reserve r (of_nat blocks);
        Some (r, ?p)
      }"
      unfolding run using b0(1) b1(1) b2(1) n(1) by simp
    moreover have refs0: "refs ?p = (\<lambda>_. 0)" "frames ?p = blocks" by (auto simp: refs_def frames_def)
    moreover have cap: "bmstack_cap b2 = ?n * 32" "bmstack_used b2 = bmstack_used b1"
      using unlinked_cap [OF b1(2)] b2(2) by (simp_all add: bmstack_cap_def bmstack_used_def)
    moreover have "phys_ready ?p"
      using refs0 cap bl n(3) b2(3) bmstack_inv_winv [OF b2(3)] by (simp add: phys_ready_def phys_inv_def)
    ultimately show ?thesis using True b1(3) by (auto intro!: exI [of _ ?p])
  qed
qed

subsection \<open>The contract with the paging code\<close>

text \<open>
  What the page directory code relies on: a fresh frame has no other owner, every retain
  is undone by one release, and the last release frees the frame.  \<open>count\<close> is the
  number of owners of the frame at an address.
\<close>

locale frame_source =
  fixes inv :: "'s \<Rightarrow> bool"
    and count :: "'s \<Rightarrow> u32 \<Rightarrow> nat"
    and alloc :: "'s \<Rightarrow> (u32 \<times> 's) option"
    and retain :: "'s \<Rightarrow> u32 \<Rightarrow> 's option"
    and release :: "'s \<Rightarrow> u32 \<Rightarrow> (bool \<times> 's) option"
  assumes alloc_fresh: "inv s \<Longrightarrow> alloc s = Some (a, s') \<Longrightarrow>
      page_aligned a \<and> a \<noteq> 0 \<and> count s a = 0 \<and> count s' = (count s)(a := 1) \<and> inv s'"
    and retain_owned: "inv s \<Longrightarrow> 0 < count s a \<Longrightarrow> count s a < 255 \<Longrightarrow>
      \<exists>s'. retain s a = Some s' \<and> count s' = (count s)(a := count s a + 1) \<and> inv s'"
    and release_owned: "inv s \<Longrightarrow> 0 < count s a \<Longrightarrow>
      \<exists>s'. release s a = Some (count s a = 1, s') \<and> count s' = (count s)(a := count s a - 1) \<and> inv s'"
begin

lemma retain_release:
  assumes "inv s" and "0 < count s a" and "count s a < 255"
  shows "\<exists>s' s''. retain s a = Some s' \<and> release s' a = Some (False, s'') \<and> count s'' = count s \<and> inv s''"
proof -
  obtain s' where s': "retain s a = Some s'" "count s' = (count s)(a := count s a + 1)" "inv s'"
    using retain_owned [OF assms] by blast
  from release_owned [OF s'(3), of a] s' assms(2) show ?thesis by auto
qed

text \<open>The frame is freed by exactly as many releases as it has owners.\<close>

lemma release_until_free:
  assumes "inv s" and "count s a = Suc n"
  shows "\<exists>s'. for_each (replicate n False @ [True])
            (\<lambda>b t. do { (f, t) \<leftarrow> release t a; if f = b then Some t else None }) s = Some s' \<and>
           count s' = (count s)(a := 0) \<and> inv s'"
  using assms
proof (induction n arbitrary: s)
  case 0
  then show ?case using release_owned [of s a] by auto
next
  case (Suc n)
  obtain s1 where s1: "release s a = Some (False, s1)" "count s1 = (count s)(a := Suc n)" "inv s1"
    using release_owned [OF Suc.prems(1), of a] Suc.prems(2) by auto
  from Suc.IH [OF s1(3)] s1 show ?case by (auto simp: fun_eq_iff)
qed

lemma alloc_twice_distinct_frames:
  "inv s \<Longrightarrow> alloc s = Some (a, s') \<Longrightarrow> alloc s' = Some (b, s'') \<Longrightarrow> a \<noteq> b"
  using alloc_fresh [of s a s'] alloc_fresh [of s' b s''] by auto

end

definition frame_count :: "phys \<Rightarrow> u32 \<Rightarrow> nat" where
  "frame_count p a = (if page_aligned a \<and> 0x1000000 \<le> unat a then refs p (frame_index a) else 0)"

lemma frame_count_update:
  assumes "page_aligned a" and "0x1000000 \<le> unat a" and "refs p' = (refs p)(frame_index a := c)"
  shows "frame_count p' = (frame_count p)(a := c)"
proof
  fix b
  have "frame_index b = frame_index a \<longleftrightarrow> b = a" if "page_aligned b" "0x1000000 \<le> unat b"
    using frame_addr_index [OF assms(1,2)] frame_addr_index [OF that] by metis
  then show "frame_count p' b = ((frame_count p)(a := c)) b"
    using assms by (auto simp: frame_count_def)
qed

interpretation frames_of: frame_source phys_inv frame_count physical_alloc physical_retain physical_release
proof
  fix p p' a
  assume I: "phys_inv p"
  show "page_aligned a \<and> a \<noteq> 0 \<and> frame_count p a = 0 \<and> frame_count p' = (frame_count p)(a := 1) \<and> phys_inv p'"
    if al: "physical_alloc p = Some (a, p')"
  proof -
    obtain i where i: "a = frame_addr i" "i < 0xFF000" "refs p i = 0" "refs p' = (refs p)(i := 1)" "phys_inv p'"
      using physical_alloc_frame [OF I al] by blast
    then have a: "page_aligned a" "0x1000000 \<le> unat a" "frame_index a = i"
      by (simp_all add: page_aligned_frame_addr unat_frame_addr)
    then have "a \<noteq> 0" by auto
    with a i frame_count_update [OF a(1,2), of p' p 1] show ?thesis by (simp add: frame_count_def)
  qed
  assume "0 < frame_count p a"
  then have a: "page_aligned a" "0x1000000 \<le> unat a" "frame_count p a = refs p (frame_index a)"
    by (auto simp: frame_count_def split: if_splits)
  with \<open>0 < frame_count p a\<close> have pos: "0 < refs p (frame_index a)" by simp
  show "\<exists>p'. physical_retain p a = Some p' \<and> frame_count p' = (frame_count p)(a := frame_count p a + 1) \<and> phys_inv p'"
    if "frame_count p a < 255"
    using physical_retain_count [OF I refl pos] frame_count_update [OF a(1,2)] that a(3) by fastforce
  show "\<exists>p'. physical_release p a = Some (frame_count p a = 1, p') \<and>
      frame_count p' = (frame_count p)(a := frame_count p a - 1) \<and> phys_inv p'"
  proof (cases "refs p (frame_index a) = 1")
    case True
    then show ?thesis using physical_release_last [OF I refl True] frame_count_update [OF a(1,2)] a(3) by fastforce
  next
    case False
    then have "refs p (frame_index a) > 1" using pos by simp
    from physical_release_shared [OF I refl this] frame_count_update [OF a(1,2)] a(3) False
    show ?thesis by fastforce
  qed
qed

subsection \<open>Running out of frames\<close>

text \<open>The allocator returns as long as a frame is free, and each call takes one.\<close>

definition free_frames :: "phys \<Rightarrow> nat" where
  "free_frames p = bmstack_cap (alloc_map p) - card (bmstack_used (alloc_map p))"

lemma physical_alloc_returns:
  assumes "phys_ready p" and "0 < free_frames p"
  shows "\<exists>a p'. physical_alloc p = Some (a, p') \<and> phys_ready p' \<and> Suc (free_frames p') = free_frames p"
proof -
  have inv: "phys_inv p" using assms(1) by (simp add: phys_ready_def)
  have "bmstack_used (alloc_map p) \<noteq> {..<bmstack_cap (alloc_map p)}"
  proof
    assume "bmstack_used (alloc_map p) = {..<bmstack_cap (alloc_map p)}"
    then have "card (bmstack_used (alloc_map p)) = bmstack_cap (alloc_map p)" by (simp only: card_lessThan)
    then show False using assms(2) by (simp add: free_frames_def)
  qed
  then obtain a p' where p': "physical_alloc p = Some (a, p')" "phys_ready p'"
    using physical_alloc_live [OF assms(1)] by blast
  obtain i where i: "i \<notin> bmstack_used (alloc_map p)" "bmstack_used (alloc_map p') = insert i (bmstack_used (alloc_map p))"
      "bmstack_cap (alloc_map p') = bmstack_cap (alloc_map p)"
    using physical_alloc_frame [OF inv p'(1)] by blast
  have "finite (bmstack_used (alloc_map p))" by (simp add: bmstack_used_def bitmap_bits_def)
  then have "card (bmstack_used (alloc_map p')) = Suc (card (bmstack_used (alloc_map p)))" using i by simp
  then show ?thesis using p' i(3) assms(2) by (auto simp: free_frames_def)
qed


text \<open>Releasing a frame the allocator manages always returns.\<close>

definition managed :: "phys \<Rightarrow> u32 \<Rightarrow> bool" where
  "managed p a \<longleftrightarrow> frame_index a < frames p"

lemma physical_release_managed:
  assumes "phys_inv p" and "managed p a"
  shows "\<exists>b p'. physical_release p a = Some (b, p') \<and> phys_inv p' \<and> frames p' = frames p"
proof -
  consider "refs p (frame_index a) = 0" | "refs p (frame_index a) = 1" | "refs p (frame_index a) > 1" by linarith
  then show ?thesis
    using physical_release_zero [OF assms(1)] physical_release_last [OF assms(1) refl] physical_release_shared [OF assms(1) refl]
      assms unfolding managed_def by cases blast+
qed

end
