(* ===== verification/Memory.thy ===== *)
theory Memory
  imports Addr
begin

text \<open>
  Physical memory: one byte per address, little endian as on the i586.  Page directories
  and page tables, the pages of the processes and their message buffers all live here.
\<close>

type_synonym memory = "u32 \<Rightarrow> u8"

definition ld32 :: "memory \<Rightarrow> u32 \<Rightarrow> u32" where
  "ld32 m a = ucast (m a) OR push_bit 8 (ucast (m (a + 1))) OR push_bit 16 (ucast (m (a + 2))) OR
              push_bit 24 (ucast (m (a + 3)))"

definition st32 :: "memory \<Rightarrow> u32 \<Rightarrow> u32 \<Rightarrow> memory" where
  "st32 m a w = m(a := ucast w, a + 1 := ucast (drop_bit 8 w), a + 2 := ucast (drop_bit 16 w),
                  a + 3 := ucast (drop_bit 24 w))"

text \<open>\<open>memset\<close> of \<open>n\<close> bytes from \<open>a\<close>.\<close>

definition memset_mem :: "memory \<Rightarrow> u32 \<Rightarrow> u8 \<Rightarrow> nat \<Rightarrow> memory" where
  "memset_mem m a v n = (\<lambda>x. if unat (x - a) < n then v else m x)"

text \<open>\<open>memcpy\<close> of \<open>n\<close> bytes, the source read before anything is written.\<close>

definition memcpy_mem :: "memory \<Rightarrow> u32 \<Rightarrow> u32 \<Rightarrow> nat \<Rightarrow> memory" where
  "memcpy_mem m dst src n = (\<lambda>x. if unat (x - dst) < n then m (src + (x - dst)) else m x)"

definition word_aligned :: "u32 \<Rightarrow> bool" where
  "word_aligned a \<longleftrightarrow> unat a mod 4 = 0"

lemma ld32_st32_same [simp]: "ld32 (st32 m a w) a = w"
proof -
  have d: "a + 1 \<noteq> a" "a + 2 \<noteq> a" "a + 3 \<noteq> a" "a + 1 \<noteq> a + 2" "a + 1 \<noteq> a + 3" "a + 2 \<noteq> a + 3" by auto
  have "ld32 (st32 m a w) a = ucast (ucast w :: u8) OR push_bit 8 (ucast (ucast (drop_bit 8 w) :: u8)) OR
      push_bit 16 (ucast (ucast (drop_bit 16 w) :: u8)) OR push_bit 24 (ucast (ucast (drop_bit 24 w) :: u8))"
    using d by (simp add: ld32_def st32_def)
  also have "\<dots> = w"
  proof (rule bit_word_eqI)
    fix n assume "n < LENGTH(32)"
    then consider "n < 8" | "8 \<le> n" "n < 16" | "16 \<le> n" "n < 24" | "24 \<le> n" "n < 32" by fastforce
    then show "bit ((ucast (ucast w :: u8) :: u32) OR push_bit 8 (ucast (ucast (drop_bit 8 w) :: u8)) OR
      push_bit 16 (ucast (ucast (drop_bit 16 w) :: u8)) OR push_bit 24 (ucast (ucast (drop_bit 24 w) :: u8))) n =
      bit w n"
      by cases (auto simp: bit_simps)
  qed
  finally show ?thesis .
qed

lemma word_aligned_le: "word_aligned a \<Longrightarrow> unat a \<le> 4294967292"
proof -
  assume "word_aligned a"
  then obtain k where "unat a = 4 * k" by (auto simp: word_aligned_def)
  with unat32_less [of a] show ?thesis by simp
qed

lemma word_aligned_bytes:
  assumes "word_aligned a" and "word_aligned b" and "a \<noteq> b" and "i < 4" and "j < 4"
  shows "a + of_nat i \<noteq> b + of_nat j"
proof
  assume eq: "a + of_nat i = b + of_nat j"
  have bound: "unat a \<le> 4294967292" "unat b \<le> 4294967292"
    using assms(1,2) by (auto dest: word_aligned_le)
  have "unat (a + of_nat i) = unat a + i" "unat (b + of_nat j) = unat b + j"
    using bound assms(4,5) by (simp_all add: unat_word_ariths unat_of_nat)
  with eq have "unat a + i = unat b + j" by metis
  then have "unat a = unat b" using assms(1,2,4,5) unfolding word_aligned_def by presburger
  with assms(3) show False by (simp add: word_unat_eq_iff)
qed

lemma ld32_st32_other:
  assumes "word_aligned a" and "word_aligned b" and "a \<noteq> b"
  shows "ld32 (st32 m a w) b = ld32 m b"
proof -
  have byte: "st32 m a w (b + of_nat j) = m (b + of_nat j)" if "j < 4" for j
    using word_aligned_bytes [OF assms, of 0 j] word_aligned_bytes [OF assms, of 1 j]
      word_aligned_bytes [OF assms, of 2 j] word_aligned_bytes [OF assms, of 3 j] that
    by (auto simp: st32_def)
  show ?thesis
    using byte [of 0] byte [of 1] byte [of 2] byte [of 3] by (simp add: ld32_def)
qed

lemma ld32_agree:
  assumes "\<And>i. i < 4 \<Longrightarrow> m' (a + of_nat i) = m (a + of_nat i)"
  shows "ld32 m' a = ld32 m a"
  using assms [of 0] assms [of 1] assms [of 2] assms [of 3] by (simp add: ld32_def)

lemma st32_byte_other: "4 \<le> unat (x - a) \<Longrightarrow> st32 m a w x = m x"
proof -
  assume far: "4 \<le> unat (x - a)"
  have "x \<noteq> a + of_nat i" if "i < 4" for i
  proof
    assume "x = a + of_nat i"
    then have "unat (x - a) = i" using that by (simp add: unat_of_nat)
    with far that show False by simp
  qed
  from this [of 0] this [of 1] this [of 2] this [of 3] show ?thesis by (simp add: st32_def)
qed

text \<open>Words that do not overlap, whatever their alignment.\<close>

lemma ld32_st32_near:
  assumes "4 \<le> unat (b - a)" and "unat (b - a) \<le> 4294967292"
  shows "ld32 (st32 m a w) b = ld32 m b"
proof (rule ld32_agree, rule st32_byte_other)
  fix i :: nat assume i: "i < 4"
  define y where "y = b - a"
  have "unat (y + of_nat i) = unat y + i" using assms(2) i unfolding y_def [symmetric] by (simp add: unat_word_ariths unat_of_nat)
  then show "4 \<le> unat (b + of_nat i - a)" using assms(1) by (simp add: y_def diff_add_eq)
qed

lemma ld32_memset_zero:
  assumes "unat (b - a) + 3 < n"
  shows "ld32 (memset_mem m a 0 n) b = 0"
proof -
  have "unat (b + of_nat j - a) < n" if "j \<le> 3" for j
  proof -
    have "b + of_nat j - a = (b - a) + of_nat j" by simp
    moreover have "unat ((b - a) + of_nat j) \<le> unat (b - a) + j"
      using that by (simp add: unat_word_ariths unat_of_nat)
    ultimately have "unat (b + of_nat j - a) \<le> unat (b - a) + j" by (simp only:)
    with assms that show ?thesis by linarith
  qed
  from this [of 0] this [of 1] this [of 2] this [of 3] show ?thesis
    by (simp add: ld32_def memset_mem_def)
qed

end
