(* ===== verification/Paging.thy ===== *)
theory Paging
  imports Physical Memory
begin

text \<open>
  \<open>kernel/arch/i586/sw/paging.c\<close>: two-level page directories in physical memory.

  The kernel reaches a directory or a table through an 8 KB window, \<open>paging_map_temp\<close>:
  the two page table entries behind the window are the fields \<open>temp_low\<close> and
  \<open>temp_high\<close> (frame numbers), and an access through the window goes to the frame that
  is mapped there at that moment, so a pointer kept across another \<open>paging_map_temp\<close>
  reads the new frame, as it does on the machine.  The translation cache is not modelled:
  \<open>invlpg\<close> and the reload of CR3 only matter to it.
\<close>

abbreviation (input) KERNEL_VIRT_BASE :: u32 where "KERNEL_VIRT_BASE \<equiv> 0xC0000000"
abbreviation (input) KERNEL_VIRT_ADDR :: u32 where "KERNEL_VIRT_ADDR \<equiv> 0xC0100000"
abbreviation (input) KERNEL_PHYS_ADDR :: u32 where "KERNEL_PHYS_ADDR \<equiv> 0x100000"
abbreviation (input) PAGING_PAGE_SIZE :: u32 where "PAGING_PAGE_SIZE \<equiv> 4096"
abbreviation (input) PAGING_FLAG_WRITE :: u32 where "PAGING_FLAG_WRITE \<equiv> 1"
abbreviation (input) PAGING_FLAG_USER :: u32 where "PAGING_FLAG_USER \<equiv> 2"
abbreviation (input) PAGING_FLAG_FORCE :: u32 where "PAGING_FLAG_FORCE \<equiv> 4"

record kmem =
  region_st :: region
  phys_st :: phys
  mem :: memory
  cr3 :: u32
  cr4 :: u32
  kernel_dir :: u32
  tempmap_addr :: u32
  temp_low :: u32
  temp_high :: u32

subsection \<open>Entries\<close>

text \<open>The bit fields of \<open>paging_dirent_t\<close> and \<open>paging_tblent_t\<close> on the raw word.\<close>

definition ent_present :: "u32 \<Rightarrow> bool" where "ent_present w = bit w 0"
definition ent_writable :: "u32 \<Rightarrow> bool" where "ent_writable w = bit w 1"
definition ent_user :: "u32 \<Rightarrow> bool" where "ent_user w = bit w 2"
definition ent_global :: "u32 \<Rightarrow> bool" where "ent_global w = bit w 8"
definition ent_frame :: "u32 \<Rightarrow> u32" where "ent_frame w = drop_bit 12 w"

definition ent_set_bit :: "nat \<Rightarrow> bool \<Rightarrow> u32 \<Rightarrow> u32" where
  "ent_set_bit n b w = (if b then w OR 2 ^ n else w AND NOT (2 ^ n))"

definition ent_set_frame :: "u32 \<Rightarrow> u32 \<Rightarrow> u32" where
  "ent_set_frame f w = push_bit 12 f OR take_bit 12 w"

text \<open>A cleared entry made present with the given access bits, and then given its frame.\<close>

definition ent_flags :: "bool \<Rightarrow> bool \<Rightarrow> u32" where
  "ent_flags w u = ent_set_bit 2 u (ent_set_bit 1 w (ent_set_bit 0 True 0))"

definition ent_make :: "bool \<Rightarrow> bool \<Rightarrow> u32 \<Rightarrow> u32" where
  "ent_make w u phys = ent_set_frame (drop_bit 12 phys) (ent_flags w u)"

text \<open>\<open>!!(flags & f)\<close>\<close>

definition flag :: "u32 \<Rightarrow> u32 \<Rightarrow> bool" where
  "flag flags f \<longleftrightarrow> flags AND f \<noteq> 0"

definition DIR_INDEX :: "u32 \<Rightarrow> u32" where "DIR_INDEX x = drop_bit 22 x AND 0x3FF"
definition TBL_INDEX :: "u32 \<Rightarrow> u32" where "TBL_INDEX x = drop_bit 12 x AND 0x3FF"
definition ENTRY_FRAME :: "u32 \<Rightarrow> u32" where "ENTRY_FRAME x = drop_bit 12 x"
definition ENTRY_ADDR :: "u32 \<Rightarrow> u32" where "ENTRY_ADDR x = push_bit 12 x"

subsection \<open>The window\<close>

definition paging_tempmap_init :: "kmem \<Rightarrow> kmem option" where
  "paging_tempmap_init s = do {
     (a, r) \<leftarrow> region_reserve (region_st s) (2 * PAGING_PAGE_SIZE);
     Some (s\<lparr>region_st := r, tempmap_addr := a\<rparr>)
   }"

definition paging_map_temp :: "kmem \<Rightarrow> u32 \<Rightarrow> (u32 \<times> kmem) option" where
  "paging_map_temp s phys = do {
     dassert (tempmap_addr s \<noteq> 0);
     let s = s\<lparr>temp_low := ENTRY_FRAME phys, temp_high := ENTRY_FRAME (phys + PAGING_PAGE_SIZE)\<rparr>;
     Some (tempmap_addr s + phys mod PAGING_PAGE_SIZE, s)
   }"

text \<open>The physical address behind an address of the window.\<close>

definition temp_phys :: "kmem \<Rightarrow> u32 \<Rightarrow> u32 option" where
  "temp_phys s va = (let off = va - tempmap_addr s in
     if off < 4096 then Some (push_bit 12 (temp_low s) + off)
     else if off < 8192 then Some (push_bit 12 (temp_high s) + (off - 4096))
     else None)"

definition temp_ld :: "kmem \<Rightarrow> u32 \<Rightarrow> u32 option" where
  "temp_ld s va = do { pa \<leftarrow> temp_phys s va; Some (ld32 (mem s) pa) }"

definition temp_st :: "kmem \<Rightarrow> u32 \<Rightarrow> u32 \<Rightarrow> kmem option" where
  "temp_st s va w = do { pa \<leftarrow> temp_phys s va; Some (s\<lparr>mem := st32 (mem s) pa w\<rparr>) }"

text \<open>A \<open>memset\<close> that stays inside the first page of the window.\<close>

definition temp_memset :: "kmem \<Rightarrow> u32 \<Rightarrow> u8 \<Rightarrow> nat \<Rightarrow> kmem option" where
  "temp_memset s va v n = do {
     dassert (unat (va - tempmap_addr s) + n \<le> 4096);
     Some (s\<lparr>mem := memset_mem (mem s) (push_bit 12 (temp_low s) + (va - tempmap_addr s)) v n\<rparr>)
   }"

definition paging_dir_load :: "kmem \<Rightarrow> u32 \<Rightarrow> kmem" where
  "paging_dir_load s dir = s\<lparr>cr3 := dir\<rparr>"

definition paging_dir_is_active :: "kmem \<Rightarrow> u32 \<Rightarrow> bool" where
  "paging_dir_is_active s dir \<longleftrightarrow> drop_bit 12 (cr3 s) = drop_bit 12 dir"

definition kernel_pgdir :: "kmem \<Rightarrow> u32" where
  "kernel_pgdir s = kernel_dir s"

definition kmem_alloc :: "kmem \<Rightarrow> (u32 \<times> kmem) option" where
  "kmem_alloc s = do { (a, p) \<leftarrow> physical_alloc (phys_st s); Some (a, s\<lparr>phys_st := p\<rparr>) }"

definition kmem_retain :: "kmem \<Rightarrow> u32 \<Rightarrow> kmem option" where
  "kmem_retain s a = do { p \<leftarrow> physical_retain (phys_st s) a; Some (s\<lparr>phys_st := p\<rparr>) }"

definition kmem_release :: "kmem \<Rightarrow> u32 \<Rightarrow> kmem option" where
  "kmem_release s a = do { (b, p) \<leftarrow> physical_release (phys_st s) a; Some (s\<lparr>phys_st := p\<rparr>) }"

subsection \<open>Looking up entries\<close>

definition dirent_get :: "kmem \<Rightarrow> u32 \<Rightarrow> u32 \<Rightarrow> (u32 \<times> kmem) option" where
  "dirent_get s dir virt = do {
     (vdir, s) \<leftarrow> paging_map_temp s dir;
     Some (vdir + 4 * DIR_INDEX virt, s)
   }"

text \<open>The result is \<^term>\<open>None\<close> inside the option for \<open>NULL\<close>.\<close>

definition tblent_get :: "kmem \<Rightarrow> u32 \<Rightarrow> u32 \<Rightarrow> (u32 option \<times> kmem) option" where
  "tblent_get s dir virt = do {
     (de, s) \<leftarrow> dirent_get s dir virt;
     e \<leftarrow> temp_ld s de;
     if \<not> ent_present e then Some (None, s)
     else do {
       (vtbl, s) \<leftarrow> paging_map_temp s (ENTRY_ADDR (ent_frame e));
       Some (Some (vtbl + 4 * TBL_INDEX virt), s)
     }
   }"

definition dir_or_kernel :: "kmem \<Rightarrow> u32 \<Rightarrow> u32 option" where
  "dir_or_kernel s dir = do {
     let dir = (if dir = 0 then kernel_dir s else dir);
     dassert (dir \<noteq> 0);
     Some dir
   }"

definition assert_page_aligned :: "u32 \<Rightarrow> unit option" where
  "assert_page_aligned a = do { b \<leftarrow> addr_align a PAGING_PAGE_SIZE; dassert (b = a) }"

definition paging_is_mapped :: "kmem \<Rightarrow> u32 \<Rightarrow> u32 \<Rightarrow> (bool \<times> kmem) option" where
  "paging_is_mapped s dir virt = do {
     assert_page_aligned virt;
     dir \<leftarrow> dir_or_kernel s dir;
     (te, s) \<leftarrow> tblent_get s dir virt;
     case te of
       None \<Rightarrow> Some (False, s)
     | Some te \<Rightarrow> do { t \<leftarrow> temp_ld s te; Some (ent_present t, s) }
   }"

definition paging_mapping_get :: "kmem \<Rightarrow> u32 \<Rightarrow> u32 \<Rightarrow> (u32 \<times> kmem) option" where
  "paging_mapping_get s dir virt = do {
     assert_page_aligned virt;
     dir \<leftarrow> dir_or_kernel s dir;
     (te, s) \<leftarrow> tblent_get s dir virt;
     case te of
       None \<Rightarrow> Some (0, s)
     | Some te \<Rightarrow> do {
         t \<leftarrow> temp_ld s te;
         if \<not> ent_present t then Some (0, s) else Some (ENTRY_ADDR (ent_frame t), s)
       }
   }"

subsection \<open>Mapping and unmapping\<close>

definition paging_map :: "kmem \<Rightarrow> u32 \<Rightarrow> u32 \<Rightarrow> u32 \<Rightarrow> u32 \<Rightarrow> (bool \<times> kmem) option" where
  "paging_map s dir virt phys flags = do {
     assert_page_aligned virt;
     assert_page_aligned phys;
     dir \<leftarrow> dir_or_kernel s dir;
     let w = flag flags PAGING_FLAG_WRITE;
     let u = flag flags PAGING_FLAG_USER;
     (de, s) \<leftarrow> dirent_get s dir virt;
     e \<leftarrow> temp_ld s de;
     (vtbl, s) \<leftarrow>
       (if ent_present e then do {
          let e = ent_set_bit 1 (ent_writable e \<or> w) e;
          let e = ent_set_bit 2 (ent_user e \<or> u) e;
          s \<leftarrow> temp_st s de e;
          paging_map_temp s (ENTRY_ADDR (ent_frame e))
        }
        else do {
          s \<leftarrow> temp_st s de (ent_flags w u);
          (tbl, s) \<leftarrow> kmem_alloc s;
          s \<leftarrow> temp_st s de (ent_make w u tbl);
          (vtbl, s) \<leftarrow> paging_map_temp s tbl;
          s \<leftarrow> temp_memset s vtbl 0 4096;
          Some (vtbl, if paging_dir_is_active s dir then paging_dir_load s dir else s)
        });
     let te = vtbl + 4 * TBL_INDEX virt;
     t \<leftarrow> temp_ld s te;
     if \<not> ent_present t \<or> flag flags PAGING_FLAG_FORCE
     then do {
       s \<leftarrow> temp_st s te (ent_make w u phys);
       Some (True, s)
     }
     else Some (False, s)
   }"

definition paging_unmap :: "kmem \<Rightarrow> u32 \<Rightarrow> u32 \<Rightarrow> kmem option" where
  "paging_unmap s dir virt = do {
     assert_page_aligned virt;
     dir \<leftarrow> dir_or_kernel s dir;
     (te, s) \<leftarrow> tblent_get s dir virt;
     case te of
       None \<Rightarrow> Some s
     | Some te \<Rightarrow> do {
         t \<leftarrow> temp_ld s te;
         if \<not> ent_present t then Some s
         else do {
           s \<leftarrow> kmem_release s (ENTRY_ADDR (ent_frame t));
           temp_st s te (ent_set_bit 0 False t)
         }
       }
   }"

subsection \<open>Directories\<close>

text \<open>Entries 768 up to, and not including, 1023 are kernel space.\<close>

definition paging_dir_create :: "kmem \<Rightarrow> (u32 \<times> kmem) option" where
  "paging_dir_create s = do {
     (dir, s) \<leftarrow> kmem_alloc s;
     (vdir, s) \<leftarrow> paging_map_temp s dir;
     s \<leftarrow> temp_memset s vdir 0 4096;
     let de = ent_set_frame (ENTRY_FRAME dir) (ent_set_bit 1 True (ent_set_bit 0 True 0));
     s \<leftarrow> temp_st s (vdir + 4 * 1023) de;
     s \<leftarrow> (if kernel_dir s \<noteq> 0 then
         for_each [unat (DIR_INDEX KERNEL_VIRT_BASE)..<1023]
           (\<lambda>i s. do {
              (kdir, s) \<leftarrow> paging_map_temp s (kernel_dir s);
              kde \<leftarrow> temp_ld s (kdir + 4 * of_nat i);
              (tdir, s) \<leftarrow> paging_map_temp s dir;
              temp_st s (tdir + 4 * of_nat i) kde
            }) s
       else Some s);
     Some (dir, s)
   }"

text \<open>
  The inner loop of \<open>paging_dir_destroy\<close> runs \<open>j\<close> over the table but looks at entry
  \<open>i\<close>, the index of the outer loop, as the source does.
\<close>

definition paging_dir_destroy_table :: "u32 \<Rightarrow> nat \<Rightarrow> kmem \<Rightarrow> kmem option" where
  "paging_dir_destroy_table dir i s = do {
     (vdir, s) \<leftarrow> paging_map_temp s dir;
     de \<leftarrow> temp_ld s (vdir + 4 * of_nat i);
     if \<not> ent_present de then Some s
     else do {
       let tbl = ENTRY_ADDR (ent_frame de);
       (vtbl, s) \<leftarrow> paging_map_temp s tbl;
       s \<leftarrow> for_each [0..<1024]
         (\<lambda>j s. do {
            te \<leftarrow> temp_ld s (vtbl + 4 * of_nat i);
            if \<not> ent_present te then Some s
            else kmem_release s (ENTRY_ADDR (ent_frame te))
          }) s;
       kmem_release s tbl
     }
   }"

definition paging_dir_destroy :: "kmem \<Rightarrow> u32 \<Rightarrow> kmem option" where
  "paging_dir_destroy s dir = do {
     dassert (dir \<noteq> 0 \<and> dir \<noteq> kernel_dir s);
     s \<leftarrow> for_each [0..<unat (DIR_INDEX KERNEL_VIRT_BASE)] (paging_dir_destroy_table dir) s;
     kmem_release s dir
   }"

text \<open>
  \<open>for (; cur < end; cur += PGSIZE)\<close>: the walk over a range of pages.  The sum wraps, so a
  range that reaches the last page of the address space never ends.
\<close>

partial_function (option) page_loop :: "(u32 \<Rightarrow> 's \<Rightarrow> 's option) \<Rightarrow> u32 \<Rightarrow> u32 \<Rightarrow> 's \<Rightarrow> 's option" where
  "page_loop body cur e s =
     (if cur < e then do { s \<leftarrow> body cur s; page_loop body (cur + ARCH_PGSIZE) e s } else Some s)"

text \<open>\<open>has_pge\<close>: the processor reports global pages, so CR4.PGE (bit 7) is set.\<close>

definition paging_init :: "bool \<Rightarrow> kmem \<Rightarrow> kmem option" where
  "paging_init has_pge s = do {
     dassert (tempmap_addr s \<noteq> 0);
     let s = (if has_pge then s\<lparr>cr4 := cr4 s OR 2 ^ 7\<rparr> else s);
     (dir, s) \<leftarrow> paging_dir_create s;
     let s = s\<lparr>kernel_dir := dir\<rparr>;
     (vdir, s) \<leftarrow> paging_map_temp s dir;
     s \<leftarrow> for_each [unat (DIR_INDEX KERNEL_VIRT_BASE)..<1023]
       (\<lambda>i s. do {
          de \<leftarrow> temp_ld s (vdir + 4 * of_nat i);
          let de = ent_set_bit 8 True (ent_set_bit 1 True (ent_set_bit 0 True de));
          s \<leftarrow> temp_st s (vdir + 4 * of_nat i) de;
          (tbl, s) \<leftarrow> kmem_alloc s;
          temp_st s (vdir + 4 * of_nat i) (ent_set_frame (ENTRY_FRAME tbl) de)
        }) s;
     s \<leftarrow> page_loop (\<lambda>virt s. do {
          (b, s) \<leftarrow> paging_map s (kernel_dir s) virt (virt - KERNEL_VIRT_BASE) PAGING_FLAG_WRITE;
          Some s }) KERNEL_VIRT_BASE KERNEL_VIRT_ADDR s;
     s \<leftarrow> page_loop (\<lambda>virt s. do {
          (b, s) \<leftarrow> paging_map s (kernel_dir s) virt (virt - KERNEL_VIRT_ADDR + KERNEL_PHYS_ADDR) PAGING_FLAG_WRITE;
          Some s }) KERNEL_VIRT_ADDR (region_idmap_end_get (region_st s)) s;
     Some (paging_dir_load s (kernel_dir s))
   }"

subsection \<open>Entries of a page\<close>

definition ent_addr :: "u32 \<Rightarrow> nat \<Rightarrow> u32" where
  "ent_addr base i = base + 4 * of_nat i"

definition ent :: "memory \<Rightarrow> u32 \<Rightarrow> nat \<Rightarrow> u32" where
  "ent m base i = ld32 m (ent_addr base i)"

lemma page_alignedE:
  assumes "page_aligned a"
  obtains k where "unat a = 4096 * k"
  using assms by (auto simp: page_aligned_iff)

lemma page_aligned_le: "page_aligned a \<Longrightarrow> unat a \<le> 0xFFFFF000"
proof -
  assume "page_aligned a"
  then obtain k where "unat a = 4096 * k" by (auto simp: page_aligned_iff)
  with unat32_less [of a] show ?thesis by simp
qed

lemma unat_ent_addr: "page_aligned base \<Longrightarrow> i < 1024 \<Longrightarrow> unat (ent_addr base i) = unat base + 4 * i"
  using page_aligned_le [of base] by (simp add: ent_addr_def unat_word_ariths unat_of_nat)

lemma ent_addr_aligned: "page_aligned base \<Longrightarrow> i < 1024 \<Longrightarrow> word_aligned (ent_addr base i)"
proof -
  assume a: "page_aligned base" "i < 1024"
  then obtain k where "unat base = 4096 * k" by (auto simp: page_aligned_iff)
  with a have "unat (ent_addr base i) = 4 * (1024 * k + i)" by (simp add: unat_ent_addr)
  then show ?thesis by (simp add: word_aligned_def)
qed

lemma ent_addr_inj:
  assumes "page_aligned a" and "page_aligned b" and "i < 1024" and "j < 1024"
  shows "ent_addr a i = ent_addr b j \<longleftrightarrow> a = b \<and> i = j"
proof
  assume "ent_addr a i = ent_addr b j"
  then have eq: "unat a + 4 * i = unat b + 4 * j" using assms by (metis unat_ent_addr)
  obtain k l where k: "unat a = 4096 * k" "unat b = 4096 * l"
    using page_alignedE [OF assms(1)] page_alignedE [OF assms(2)] by metis
  with eq assms(3,4) have "k = l" by linarith
  with k eq show "a = b \<and> i = j" by (auto simp: word_unat_eq_iff)
qed simp

lemma ent_st32:
  assumes "page_aligned a" and "page_aligned b" and "i < 1024" and "j < 1024"
  shows "ent (st32 m (ent_addr a i) w) b j = (if a = b \<and> i = j then w else ent m b j)"
  using assms ld32_st32_other [of "ent_addr a i" "ent_addr b j"]
  by (auto simp: ent_def ent_addr_aligned ent_addr_inj)

lemma ent_memset_same: "page_aligned a \<Longrightarrow> i < 1024 \<Longrightarrow> ent (memset_mem m a 0 4096) a i = 0"
  by (simp add: ent_def ent_addr_def ld32_memset_zero unat_word_ariths unat_of_nat)

lemma memset_page_outside:
  assumes "page_aligned a" and "page_aligned b" and "a \<noteq> b" and "j < 4096"
  shows "memset_mem m a v 4096 (b + of_nat j) = m (b + of_nat j)"
proof -
  let ?x = "b + of_nat j"
  have x: "unat ?x = unat b + j" using page_aligned_le [OF assms(2)] assms(4) by (simp add: unat_word_ariths unat_of_nat)
  obtain k l where k: "unat a = 4096 * k" "unat b = 4096 * l"
    using page_alignedE [OF assms(1)] page_alignedE [OF assms(2)] by metis
  have kl: "k \<noteq> l" using k assms(3) by (auto simp: word_unat_eq_iff)
  have "4096 \<le> unat (?x - a)"
  proof (cases "k < l")
    case True
    then have "unat (?x - a) = unat ?x - unat a" using x k unat_sub [of a ?x] by (simp add: word_le_nat_alt)
    with True x k show ?thesis by simp
  next
    case False
    have "unat (?x - a) = unat ?x + 2 ^ 32 - unat a"
    proof -
      have "unat ?x < unat a" using False kl x k assms(4) by simp
      then show ?thesis using unat_sub_if' [of ?x a] by (simp add: word_le_nat_alt)
    qed
    with x k page_aligned_le [OF assms(1)] show ?thesis by simp
  qed
  then show ?thesis by (simp add: memset_mem_def)
qed

lemma ent_memset_other:
  assumes "page_aligned a" and "page_aligned b" and "a \<noteq> b" and "i < 1024"
  shows "ent (memset_mem m a v 4096) b i = ent m b i"
proof -
  have "ent_addr b i + of_nat k = b + of_nat (4 * i + k)" for k by (simp add: ent_addr_def)
  then have "memset_mem m a v 4096 (ent_addr b i + of_nat k) = m (ent_addr b i + of_nat k)" if "k < 4" for k
    using memset_page_outside [OF assms(1-3), of "4 * i + k"] assms(4) that by (simp add: add.assoc)
  from this [of 0] this [of 1] this [of 2] this [of 3] show ?thesis by (simp add: ent_def ld32_def)
qed

subsection \<open>Accesses through the window\<close>

definition window :: "kmem \<Rightarrow> u32 \<Rightarrow> kmem" where
  "window s p = s\<lparr>temp_low := ENTRY_FRAME p, temp_high := ENTRY_FRAME (p + PAGING_PAGE_SIZE)\<rparr>"

lemma window_simps [simp]:
  "mem (window s p) = mem s" "phys_st (window s p) = phys_st s" "region_st (window s p) = region_st s"
  "cr3 (window s p) = cr3 s" "cr4 (window s p) = cr4 s" "kernel_dir (window s p) = kernel_dir s"
  "tempmap_addr (window s p) = tempmap_addr s" "window (window s p) q = window s q"
  "window (s\<lparr>phys_st := ph\<rparr>) p = (window s p)\<lparr>phys_st := ph\<rparr>"
  "window (s\<lparr>mem := m\<rparr>) p = (window s p)\<lparr>mem := m\<rparr>"
  "window (s\<lparr>cr3 := c\<rparr>) p = (window s p)\<lparr>cr3 := c\<rparr>"
  by (simp_all add: window_def)

lemma page_align_push_drop: "page_align a = push_bit 12 (drop_bit 12 a)"
  using and_not_exp [of a 12] by (simp add: page_align_def)

lemma page_aligned_push [simp]: "page_aligned (push_bit 12 f)" "page_aligned (ENTRY_ADDR f)"
  by (simp_all add: page_aligned_def ENTRY_ADDR_def and_page_mask take_bit_push_bit)

lemma entry_addr_frame [simp]: "page_aligned p \<Longrightarrow> ENTRY_ADDR (ENTRY_FRAME p) = p"
  by (simp add: ENTRY_ADDR_def ENTRY_FRAME_def page_align_push_drop [symmetric] page_align_fixed)

lemma mod_page: "page_aligned (p::u32) \<Longrightarrow> p mod 4096 = 0"
  by (simp add: page_aligned_iff word_unat_eq_iff unat_mod)

lemma paging_map_temp_aligned:
  "page_aligned p \<Longrightarrow> tempmap_addr s \<noteq> 0 \<Longrightarrow> paging_map_temp s p = Some (tempmap_addr s, window s p)"
  by (simp add: paging_map_temp_def window_def Let_def mod_page)

lemma temp_phys_window:
  "page_aligned p \<Longrightarrow> i < 1024 \<Longrightarrow>
   temp_phys (window s p) (tempmap_addr s + 4 * of_nat i) = Some (ent_addr p i)"
proof -
  assume a: "page_aligned p" "i < 1024"
  then have "(4 * of_nat i :: u32) < 4096" by (simp add: word_less_nat_alt unat_word_ariths unat_of_nat)
  moreover have "push_bit 12 (ENTRY_FRAME p) = p" using entry_addr_frame [OF a(1)] by (simp add: ENTRY_ADDR_def)
  ultimately show ?thesis by (simp add: temp_phys_def window_def ent_addr_def)
qed

lemma temp_phys_fields [simp]:
  "temp_phys (s\<lparr>mem := m\<rparr>) va = temp_phys s va" "temp_phys (s\<lparr>phys_st := ph\<rparr>) va = temp_phys s va"
  "temp_phys (s\<lparr>cr3 := c\<rparr>) va = temp_phys s va" "temp_phys (s\<lparr>kernel_dir := c\<rparr>) va = temp_phys s va"
  by (simp_all add: temp_phys_def Let_def)

lemma temp_ld_window:
  "page_aligned p \<Longrightarrow> i < 1024 \<Longrightarrow>
   temp_ld (window s p) (tempmap_addr s + 4 * of_nat i) = Some (ent (mem s) p i)"
  by (simp add: temp_ld_def temp_phys_window ent_def)

lemma temp_st_window:
  "page_aligned p \<Longrightarrow> i < 1024 \<Longrightarrow>
   temp_st (window s p) (tempmap_addr s + 4 * of_nat i) w =
     Some ((window s p)\<lparr>mem := st32 (mem s) (ent_addr p i) w\<rparr>)"
  by (simp add: temp_st_def temp_phys_window)

lemma temp_memset_window:
  "page_aligned p \<Longrightarrow> temp_memset (window s p) (tempmap_addr s) v 4096 =
     Some ((window s p)\<lparr>mem := memset_mem (mem s) p v 4096\<rparr>)"
  using entry_addr_frame [of p] by (simp add: temp_memset_def window_def ENTRY_ADDR_def)

subsection \<open>The translation a directory defines\<close>

definition dir_index :: "u32 \<Rightarrow> nat" where "dir_index v = unat (DIR_INDEX v)"
definition tbl_index :: "u32 \<Rightarrow> nat" where "tbl_index v = unat (TBL_INDEX v)"

lemma of_nat_indices [simp]: "of_nat (dir_index v) = DIR_INDEX v" "of_nat (tbl_index v) = TBL_INDEX v"
  by (simp_all add: dir_index_def tbl_index_def)

lemma and_3FF: "(a::u32) AND 0x3FF = take_bit 10 a"
  by (simp add: take_bit_eq_mask mask_eq_exp_minus_1)

lemma dir_index_nat: "dir_index v = unat v div 4194304"
proof -
  have "unat v div 4194304 < 1024" using unat32_less [of v] by (simp add: div_less_iff_less_mult)
  moreover have "unat (drop_bit 22 v) = unat v div 4194304" by (simp add: drop_bit_eq_div unat_div)
  ultimately show ?thesis
    by (simp add: dir_index_def DIR_INDEX_def and_3FF unat_take_bit)
qed

lemma tbl_index_nat: "tbl_index v = unat v div 4096 mod 1024"
proof -
  have "unat (drop_bit 12 v) = unat v div 4096" by (simp add: drop_bit_eq_div unat_div)
  then show ?thesis by (simp add: tbl_index_def TBL_INDEX_def and_3FF unat_take_bit)
qed

lemma dir_index_less [simp]: "dir_index v < 1024"
  using unat32_less [of v] by (simp add: dir_index_nat div_less_iff_less_mult)

lemma tbl_index_less [simp]: "tbl_index v < 1024"
  by (simp add: tbl_index_nat)

text \<open>Two addresses use the same table entry exactly when they are on the same page.\<close>

lemma index_page_eq: "dir_index u = dir_index v \<and> tbl_index u = tbl_index v \<longleftrightarrow> page_align u = page_align v"
proof -
  have d: "dir_index x = unat x div 4096 div 1024" for x by (simp add: dir_index_nat div_mult2_eq)
  have "dir_index u = dir_index v \<and> tbl_index u = tbl_index v \<longleftrightarrow> unat u div 4096 = unat v div 4096"
    unfolding d tbl_index_nat by (metis div_mult_mod_eq)
  also have "\<dots> \<longleftrightarrow> page_align u = page_align v"
    by (simp add: word_unat_eq_iff unat_page_align)
  finally show ?thesis .
qed

definition table_of :: "memory \<Rightarrow> u32 \<Rightarrow> nat \<Rightarrow> u32" where
  "table_of m dir i = ENTRY_ADDR (ent_frame (ent m dir i))"

definition walk :: "memory \<Rightarrow> u32 \<Rightarrow> u32 \<Rightarrow> u32 option" where
  "walk m dir v =
     (if ent_present (ent m dir (dir_index v)) then
        let t = ent m (table_of m dir (dir_index v)) (tbl_index v) in
        if ent_present t then Some t else None
      else None)"

text \<open>
  What the processor grants at an address: the frame of the table entry, writable and open to user
  code only where the directory entry allows it as well.  A page is \<open>covered\<close> if its directory entry
  takes nothing away from its table entry.
\<close>

definition translate :: "memory \<Rightarrow> u32 \<Rightarrow> u32 \<Rightarrow> (u32 \<times> bool \<times> bool) option" where
  "translate m dir v = (let d = ent m dir (dir_index v) in
     map_option (\<lambda>t. (ENTRY_ADDR (ent_frame t), ent_writable d \<and> ent_writable t, ent_user d \<and> ent_user t)) (walk m dir v))"

definition grants :: "memory \<Rightarrow> u32 \<Rightarrow> nat \<Rightarrow> bool \<Rightarrow> bool \<Rightarrow> bool" where
  "grants m dir i w u \<longleftrightarrow> (w \<longrightarrow> ent_writable (ent m dir i)) \<and> (u \<longrightarrow> ent_user (ent m dir i))"

definition covered :: "memory \<Rightarrow> u32 \<Rightarrow> u32 \<Rightarrow> bool" where
  "covered m dir v \<longleftrightarrow>
     (case walk m dir v of None \<Rightarrow> True | Some t \<Rightarrow> grants m dir (dir_index v) (ent_writable t) (ent_user t))"

definition dir_grows :: "memory \<Rightarrow> u32 \<Rightarrow> memory \<Rightarrow> bool" where
  "dir_grows m dir m' \<longleftrightarrow> (\<forall>i<1023. ent_present (ent m dir i) \<longrightarrow>
     ent_present (ent m' dir i) \<and> (\<forall>w u. grants m dir i w u \<longrightarrow> grants m' dir i w u))"

lemma dir_grows_refl [simp]: "dir_grows m dir m" by (simp add: dir_grows_def)

lemma dir_grows_trans: "dir_grows m dir m' \<Longrightarrow> dir_grows m' dir m'' \<Longrightarrow> dir_grows m dir m''"
  by (simp add: dir_grows_def)

lemma dir_grows_same: "(\<And>i. i < 1023 \<Longrightarrow> ent m' dir i = ent m dir i) \<Longrightarrow> dir_grows m dir m'"
  by (simp add: dir_grows_def grants_def)

lemma covered_translate:
  "covered m dir v \<Longrightarrow> translate m dir v =
     map_option (\<lambda>t. (ENTRY_ADDR (ent_frame t), ent_writable t, ent_user t)) (walk m dir v)"
  by (auto simp: covered_def translate_def grants_def split: option.splits)

lemma translate_make:
  "walk m dir v = Some t \<Longrightarrow> covered m dir v \<longleftrightarrow> translate m dir v = Some (ENTRY_ADDR (ent_frame t), ent_writable t, ent_user t)"
  by (auto simp: covered_def translate_def grants_def Let_def)

lemma covered_grows:
  assumes "dir_grows m dir m'" and "dir_index v < 1023" and "walk m' dir v = walk m dir v" and "covered m dir v"
  shows "covered m' dir v \<and> translate m' dir v = translate m dir v"
proof -
  have "ent_present (ent m dir (dir_index v))" if "walk m dir v \<noteq> None" using that by (simp add: walk_def split: if_splits)
  then have "covered m' dir v" using assms by (auto simp: covered_def dir_grows_def split: option.splits)
  then show ?thesis using assms(3,4) by (simp add: covered_translate)
qed

lemma translate_cong:
  "walk m' dir' v = walk m dir v \<Longrightarrow> ent m' dir' (dir_index v) = ent m dir (dir_index v) \<Longrightarrow> translate m' dir' v = translate m dir v"
  by (simp add: translate_def)

lemma table_of_aligned [simp]: "page_aligned (table_of m dir i)"
  by (simp add: table_of_def)

lemma tblent_get_walk:
  assumes "page_aligned dir" and "tempmap_addr s \<noteq> 0"
  shows "tblent_get s dir v = Some
    (if ent_present (ent (mem s) dir (dir_index v))
     then (Some (tempmap_addr s + 4 * TBL_INDEX v), window s (table_of (mem s) dir (dir_index v)))
     else (None, window s dir))"
  using assms temp_ld_window [OF assms(1), of "dir_index v" s]
  by (simp add: tblent_get_def dirent_get_def paging_map_temp_aligned table_of_def)

lemma assert_page_aligned_simp [simp]: "assert_page_aligned a = (if page_aligned a then Some () else None)"
  by (simp add: assert_page_aligned_def page_align_fixed dassert_def)

lemma paging_is_mapped_walk:
  assumes "page_aligned dir" and "dir \<noteq> 0" and "tempmap_addr s \<noteq> 0" and "page_aligned v"
  shows "\<exists>p. paging_is_mapped s dir v = Some (walk (mem s) dir v \<noteq> None, window s p)"
  using assms temp_ld_window [of "table_of (mem s) dir (dir_index v)" "tbl_index v" s]
  by (auto simp: paging_is_mapped_def dir_or_kernel_def tblent_get_walk walk_def Let_def)

lemma paging_mapping_get_walk:
  assumes "page_aligned dir" and "dir \<noteq> 0" and "tempmap_addr s \<noteq> 0" and "page_aligned v"
  shows "\<exists>p. paging_mapping_get s dir v = Some (case walk (mem s) dir v of None \<Rightarrow> 0 | Some t \<Rightarrow> ENTRY_ADDR (ent_frame t), window s p)"
  using assms temp_ld_window [of "table_of (mem s) dir (dir_index v)" "tbl_index v" s]
  by (auto simp: paging_mapping_get_def dir_or_kernel_def tblent_get_walk walk_def Let_def)

subsection \<open>Entry bits\<close>

lemma ent_set_bit_bit: "n < 32 \<Longrightarrow> bit (ent_set_bit n b w) k = (if k = n then b else bit w k)"
  by (auto simp: ent_set_bit_def bit_simps dest: bit_imp_le_length)

lemma ent_set_bit_simps [simp]:
  "n < 12 \<Longrightarrow> ent_frame (ent_set_bit n b w) = ent_frame w"
  "ent_present (ent_set_bit 0 b w) = b" "ent_present (ent_set_bit 1 b w) = ent_present w"
  "ent_present (ent_set_bit 2 b w) = ent_present w"
  "ent_writable (ent_set_bit 1 b w) = b" "ent_writable (ent_set_bit 2 b w) = ent_writable w"
  "ent_user (ent_set_bit 2 b w) = b" "ent_user (ent_set_bit 1 b w) = ent_user w"
  "ent_present (ent_set_bit 8 b w) = ent_present w"
  "ent_present (ent_set_bit (Suc 0) b w) = ent_present w" "ent_user (ent_set_bit (Suc 0) b w) = ent_user w"
  "ent_writable (ent_set_bit (Suc 0) b w) = b"
  unfolding ent_frame_def ent_present_def ent_writable_def ent_user_def
  by (rule bit_word_eqI) (auto simp: bit_drop_bit_eq ent_set_bit_bit)

lemma ent_set_frame_bit:
  "bit (ent_set_frame f w) k = (if k < 12 then bit w k else k < 32 \<and> bit f (k - 12))"
  by (auto simp: ent_set_frame_def bit_simps)

lemma ent_set_frame_simps [simp]:
  "ent_present (ent_set_frame f w) = ent_present w" "ent_writable (ent_set_frame f w) = ent_writable w"
  "ent_user (ent_set_frame f w) = ent_user w"
  "page_aligned p \<Longrightarrow> ENTRY_ADDR (ent_frame (ent_set_frame (ENTRY_FRAME p) w)) = p"
proof -
  show "ent_present (ent_set_frame f w) = ent_present w" "ent_writable (ent_set_frame f w) = ent_writable w"
    "ent_user (ent_set_frame f w) = ent_user w"
    by (simp_all add: ent_present_def ent_writable_def ent_user_def ent_set_frame_bit)
  assume "page_aligned p"
  then have "push_bit 12 (drop_bit 12 p) = p"
    using entry_addr_frame by (simp add: ENTRY_ADDR_def ENTRY_FRAME_def)
  moreover have "push_bit 12 (drop_bit 12 (ent_set_frame (drop_bit 12 p) w)) = push_bit 12 (drop_bit 12 p)"
    by (rule bit_word_eqI) (auto simp: bit_push_bit_iff bit_drop_bit_eq ent_set_frame_bit)
  ultimately show "ENTRY_ADDR (ent_frame (ent_set_frame (ENTRY_FRAME p) w)) = p"
    by (simp add: ENTRY_ADDR_def ent_frame_def ENTRY_FRAME_def)
qed

lemma ent_make_simps [simp]:
  "ent_present (ent_make w u p)" "ent_writable (ent_make w u p) = w" "ent_user (ent_make w u p) = u"
  "page_aligned p \<Longrightarrow> ENTRY_ADDR (ent_frame (ent_make w u p)) = p"
  by (simp_all add: ent_make_def ent_flags_def ENTRY_FRAME_def [symmetric])

lemma ent_zero [simp]: "\<not> ent_present 0" by (simp add: ent_present_def)

subsection \<open>Memory outside a page\<close>

definition same_outside :: "u32 set \<Rightarrow> memory \<Rightarrow> memory \<Rightarrow> bool" where
  "same_outside P m m' \<longleftrightarrow> (\<forall>a. page_align a \<notin> P \<longrightarrow> m' a = m a)"

lemma same_outside_refl [simp]: "same_outside P m m" by (simp add: same_outside_def)

lemma same_outside_trans: "same_outside P m m' \<Longrightarrow> same_outside P m' m'' \<Longrightarrow> same_outside P m m''"
  by (simp add: same_outside_def)

lemma same_outside_mono: "same_outside P m m' \<Longrightarrow> P \<subseteq> Q \<Longrightarrow> same_outside Q m m'"
  by (auto simp: same_outside_def)

lemma same_outside_trans2: "same_outside P m m' \<Longrightarrow> same_outside Q m' m'' \<Longrightarrow> same_outside (P \<union> Q) m m''"
  by (simp add: same_outside_def)

lemma page_align_in_page: "page_aligned p \<Longrightarrow> j < 4096 \<Longrightarrow> page_align (p + of_nat j) = p"
proof -
  assume a: "page_aligned p" "j < 4096"
  then have "unat (p + of_nat j) = unat p + j"
    using page_aligned_le [of p] by (simp add: unat_word_ariths unat_of_nat)
  moreover obtain k where "unat p = 4096 * k" using page_alignedE [OF a(1)] .
  ultimately show ?thesis using a(2) by (simp add: word_unat_eq_iff unat_page_align)
qed

lemma ent_addr_page: "page_aligned p \<Longrightarrow> i < 1024 \<Longrightarrow> k < 4 \<Longrightarrow> page_align (ent_addr p i + of_nat k) = p"
  using page_align_in_page [of p "4 * i + k"] by (simp add: ent_addr_def add.assoc)

lemma same_outside_st32:
  assumes "page_aligned p" and "i < 1024"
  shows "same_outside {p} m (st32 m (ent_addr p i) w)"
  using ent_addr_page [OF assms, of 0] ent_addr_page [OF assms, of 1]
    ent_addr_page [OF assms, of 2] ent_addr_page [OF assms, of 3]
  by (auto simp: same_outside_def st32_def)

lemma page_of_offset: "page_align a + of_nat (unat a mod 4096) = a"
proof -
  have "of_nat (unat (page_align a)) + of_nat (unat a mod 4096) = (of_nat (unat a) :: u32)"
    by (simp only: of_nat_add [symmetric] unat_page_align div_mult_mod_eq)
  then show ?thesis by simp
qed

lemma same_outside_memset: "page_aligned p \<Longrightarrow> same_outside {p} m (memset_mem m p v 4096)"
  unfolding same_outside_def
  by (metis memset_page_outside page_of_offset page_aligned_align mod_less_divisor singletonI zero_less_numeral)

lemma same_outside_ent:
  assumes "same_outside P m m'" and "page_aligned p" and "p \<notin> P" and "k < 1024"
  shows "ent m' p k = ent m p k"
  using assms ent_addr_page [OF assms(2,4), of 0] ent_addr_page [OF assms(2,4), of 1]
    ent_addr_page [OF assms(2,4), of 2] ent_addr_page [OF assms(2,4), of 3]
  by (simp add: same_outside_def ent_def ld32_def)

subsection \<open>Address spaces\<close>

text \<open>
  The state of one address space: the directory and its tables (the recursive entry 1023
  apart) are distinct frames owned in the allocator.
\<close>

definition kmem_ok :: "kmem \<Rightarrow> bool" where
  "kmem_ok s \<longleftrightarrow> tempmap_addr s \<noteq> 0 \<and> phys_inv (phys_st s)"

definition pas_inv :: "kmem \<Rightarrow> u32 \<Rightarrow> bool" where
  "pas_inv s dir \<longleftrightarrow> page_aligned dir \<and> dir \<noteq> 0 \<and> 0 < frame_count (phys_st s) dir \<and>
     (\<forall>i<1023. ent_present (ent (mem s) dir i) \<longrightarrow>
        table_of (mem s) dir i \<noteq> dir \<and> 0 < frame_count (phys_st s) (table_of (mem s) dir i) \<and>
        (\<forall>j<1023. j \<noteq> i \<longrightarrow> ent_present (ent (mem s) dir j) \<longrightarrow> table_of (mem s) dir j \<noteq> table_of (mem s) dir i))"

lemma kmem_alloc_Some:
  "kmem_alloc s = Some (a, s') \<longleftrightarrow> (\<exists>p. physical_alloc (phys_st s) = Some (a, p) \<and> s' = s\<lparr>phys_st := p\<rparr>)"
  by (auto simp: kmem_alloc_def bind_eq_Some_conv)

text \<open>What \<open>paging_map\<close> does when the table exists.\<close>

lemma paging_map_present:
  fixes s dir virt phys flags
  assumes "kmem_ok s" and "pas_inv s dir" and "page_aligned virt" and "page_aligned phys"
    and "dir_index virt < 1023" and "ent_present (ent (mem s) dir (dir_index virt))"
  defines "T \<equiv> table_of (mem s) dir (dir_index virt)"
    and "new \<equiv> walk (mem s) dir virt = None \<or> flag flags PAGING_FLAG_FORCE"
  shows "\<exists>m'. paging_map s dir virt phys flags = Some (new, (window s T)\<lparr>mem := m'\<rparr>) \<and>
    same_outside {dir, T} (mem s) m' \<and>
    ent_present (ent m' dir (dir_index virt)) \<and> table_of m' dir (dir_index virt) = T \<and>
    (\<forall>k<1024. k \<noteq> dir_index virt \<longrightarrow> ent m' dir k = ent (mem s) dir k) \<and>
    (\<forall>k<1024. k \<noteq> tbl_index virt \<longrightarrow> ent m' T k = ent (mem s) T k) \<and>
    dir_grows (mem s) dir m' \<and> grants m' dir (dir_index virt) (flag flags 1) (flag flags 2) \<and>
    ent m' T (tbl_index virt) = (if new then ent_make (flag flags 1) (flag flags 2) phys else ent (mem s) T (tbl_index virt))"
proof -
  let ?i = "dir_index virt" and ?j = "tbl_index virt" and ?e = "ent (mem s) dir (dir_index virt)"
  define e' where "e' = ent_set_bit 2 (ent_user ?e \<or> flag flags 2) (ent_set_bit 1 (ent_writable ?e \<or> flag flags 1) ?e)"
  define m1 where "m1 = st32 (mem s) (ent_addr dir ?i) e'"
  have d: "page_aligned dir" "dir \<noteq> 0" "T \<noteq> dir" "page_aligned T" "tempmap_addr s \<noteq> 0"
    using assms by (auto simp: pas_inv_def kmem_ok_def)
  have T: "ENTRY_ADDR (ent_frame e') = T" "ent_present e'" "ENTRY_ADDR (ent_frame ?e) = T"
    using assms(6) by (simp_all add: T_def table_of_def e'_def)
  have t: "ent m1 T ?j = ent (mem s) T ?j" using d by (simp add: ent_st32 m1_def)
  have new: "new \<longleftrightarrow> \<not> ent_present (ent (mem s) T ?j) \<or> flag flags PAGING_FLAG_FORCE"
    using assms(6) by (auto simp: new_def walk_def Let_def T_def)
  define m' where "m' = (if new then st32 m1 (ent_addr T ?j) (ent_make (flag flags 1) (flag flags 2) phys) else m1)"
  have "paging_map s dir virt phys flags = Some (new, (window s T)\<lparr>mem := m'\<rparr>)"
  proof -
    have "temp_ld (window s dir) (tempmap_addr s + 4 * DIR_INDEX virt) = Some ?e"
      using temp_ld_window [OF d(1), of ?i s] by simp
    moreover have "temp_st (window s dir) (tempmap_addr s + 4 * DIR_INDEX virt) e' = Some ((window s dir)\<lparr>mem := m1\<rparr>)"
      using temp_st_window [OF d(1), of ?i s e'] by (simp add: m1_def)
    moreover have "temp_ld ((window s T)\<lparr>mem := m1\<rparr>) (tempmap_addr s + 4 * TBL_INDEX virt) = Some (ent m1 T ?j)"
      using temp_ld_window [OF d(4), of ?j "s\<lparr>mem := m1\<rparr>"] by simp
    moreover have "temp_st ((window s T)\<lparr>mem := m1\<rparr>) (tempmap_addr s + 4 * TBL_INDEX virt) w =
        Some ((window s T)\<lparr>mem := st32 m1 (ent_addr T ?j) w\<rparr>)" for w
      using temp_st_window [OF d(4), of ?j "s\<lparr>mem := m1\<rparr>" w] by simp
    ultimately show ?thesis
      using d assms(3,4,6) T t new
      by (simp add: paging_map_def dir_or_kernel_def dirent_get_def paging_map_temp_aligned Let_def
          e'_def [symmetric, unfolded One_nat_def] m'_def)
  qed
  moreover have "same_outside {dir, T} (mem s) m'"
  proof -
    have "same_outside {dir} (mem s) m1" using same_outside_st32 [OF d(1), of ?i] by (simp add: m1_def)
    then show ?thesis
      using same_outside_trans2 [OF _ same_outside_st32 [OF d(4), of ?j m1], of "{dir}"]
      by (auto simp: m'_def insert_commute elim: same_outside_mono)
  qed
  moreover have "ent m' dir k = (if k = ?i then e' else ent (mem s) dir k)" if "k < 1024" for k
    using d that by (auto simp: m'_def m1_def ent_st32)
  then have "dir_grows (mem s) dir m' \<and> grants m' dir ?i (flag flags 1) (flag flags 2)"
    using T(2) by (simp add: dir_grows_def grants_def e'_def)
  ultimately show ?thesis
    using d T t by (intro exI [of _ m']) (auto simp: m'_def m1_def ent_st32 table_of_def)
qed

text \<open>What \<open>paging_map\<close> does when the table has to be allocated.\<close>

lemma paging_map_absent:
  fixes s dir virt phys flags
  assumes "kmem_ok s" and "pas_inv s dir" and "page_aligned virt" and "page_aligned phys"
    and "dir_index virt < 1023" and "\<not> ent_present (ent (mem s) dir (dir_index virt))"
    and "physical_alloc (phys_st s) = Some (T, ph)"
  shows "\<exists>m' c. paging_map s dir virt phys flags = Some (True, (window s T)\<lparr>mem := m', phys_st := ph, cr3 := c\<rparr>) \<and>
    c = (if paging_dir_is_active s dir then dir else cr3 s) \<and> same_outside {dir, T} (mem s) m' \<and>
    ent m' dir (dir_index virt) = ent_make (flag flags 1) (flag flags 2) T \<and>
    (\<forall>k<1024. k \<noteq> dir_index virt \<longrightarrow> ent m' dir k = ent (mem s) dir k) \<and>
    (\<forall>k<1024. ent m' T k = (if k = tbl_index virt then ent_make (flag flags 1) (flag flags 2) phys else 0))"
proof -
  let ?i = "dir_index virt" and ?j = "tbl_index virt" and ?w = "flag flags 1" and ?u = "flag flags 2"
  have T: "page_aligned T" "frame_count (phys_st s) T = 0"
    using frames_of.alloc_fresh [OF _ assms(7)] assms(1) by (auto simp: kmem_ok_def)
  have d: "page_aligned dir" "dir \<noteq> 0" "T \<noteq> dir" "tempmap_addr s \<noteq> 0"
    using assms T by (auto simp: pas_inv_def kmem_ok_def)
  define m1 where "m1 = st32 (mem s) (ent_addr dir ?i) (ent_flags ?w ?u)"
  define m2 where "m2 = st32 m1 (ent_addr dir ?i) (ent_make ?w ?u T)"
  define m3 where "m3 = memset_mem m2 T 0 4096"
  define m' where "m' = st32 m3 (ent_addr T ?j) (ent_make ?w ?u phys)"
  define c where "c = (if paging_dir_is_active s dir then dir else cr3 s)"
  have "paging_map s dir virt phys flags = Some (True, (window s T)\<lparr>mem := m', phys_st := ph, cr3 := c\<rparr>)"
  proof -
    have "temp_ld (window s dir) (tempmap_addr s + 4 * DIR_INDEX virt) = Some (ent (mem s) dir ?i)"
      using temp_ld_window [OF d(1), of ?i s] by simp
    moreover have "temp_st (window s dir) (tempmap_addr s + 4 * DIR_INDEX virt) (ent_flags ?w ?u) =
        Some ((window s dir)\<lparr>mem := m1\<rparr>)"
      using temp_st_window [OF d(1), of ?i s] by (simp add: m1_def)
    moreover have "kmem_alloc ((window s dir)\<lparr>mem := m1\<rparr>) = Some (T, (window s dir)\<lparr>mem := m1, phys_st := ph\<rparr>)"
      using assms(7) by (simp add: kmem_alloc_Some)
    moreover have "temp_st ((window s dir)\<lparr>mem := m1, phys_st := ph\<rparr>) (tempmap_addr s + 4 * DIR_INDEX virt) (ent_make ?w ?u T) =
        Some ((window s dir)\<lparr>mem := m2, phys_st := ph\<rparr>)"
      using temp_st_window [OF d(1), of ?i "s\<lparr>mem := m1, phys_st := ph\<rparr>"] by (simp add: m2_def)
    moreover have "temp_memset ((window s T)\<lparr>mem := m2, phys_st := ph\<rparr>) (tempmap_addr s) 0 4096 =
        Some ((window s T)\<lparr>mem := m3, phys_st := ph\<rparr>)"
      using temp_memset_window [OF T(1), of "s\<lparr>mem := m2, phys_st := ph\<rparr>"] by (simp add: m3_def)
    moreover have "temp_ld ((window s T)\<lparr>mem := m3, phys_st := ph, cr3 := c\<rparr>) (tempmap_addr s + 4 * TBL_INDEX virt) = Some 0"
      using temp_ld_window [OF T(1), of ?j "s\<lparr>mem := m3, phys_st := ph, cr3 := c\<rparr>"] T(1)
      by (simp add: m3_def ent_memset_same)
    moreover have "temp_st ((window s T)\<lparr>mem := m3, phys_st := ph, cr3 := c\<rparr>) (tempmap_addr s + 4 * TBL_INDEX virt) (ent_make ?w ?u phys) =
        Some ((window s T)\<lparr>mem := m', phys_st := ph, cr3 := c\<rparr>)"
      using temp_st_window [OF T(1), of ?j "s\<lparr>mem := m3, phys_st := ph, cr3 := c\<rparr>"] by (simp add: m'_def)
    moreover have "(if paging_dir_is_active ((window s T)\<lparr>mem := m3, phys_st := ph\<rparr>) dir
        then paging_dir_load ((window s T)\<lparr>mem := m3, phys_st := ph\<rparr>) dir
        else (window s T)\<lparr>mem := m3, phys_st := ph\<rparr>) = (window s T)\<lparr>mem := m3, phys_st := ph, cr3 := c\<rparr>"
      by (simp add: paging_dir_is_active_def paging_dir_load_def c_def)
    ultimately show ?thesis
      using d T(1) assms(3,4,6)
      by (simp add: paging_map_def dir_or_kernel_def dirent_get_def paging_map_temp_aligned Let_def)
  qed
  moreover have "same_outside {dir, T} (mem s) m'"
    using same_outside_st32 [OF d(1), of ?i "mem s" "ent_flags ?w ?u"]
      same_outside_st32 [OF d(1), of ?i m1 "ent_make ?w ?u T"] same_outside_memset [OF T(1), of m2 0]
      same_outside_st32 [OF T(1), of ?j m3 "ent_make ?w ?u phys"]
    by (simp add: m'_def m3_def m2_def m1_def same_outside_def)
  ultimately show ?thesis
    using d T by (intro exI [of _ m'] exI [of _ c])
      (auto simp: m'_def m3_def m2_def m1_def c_def ent_st32 ent_memset_other ent_memset_same)
qed

text \<open>The table frame a successful \<open>paging_map\<close> works on, and everything it leaves alone.\<close>

definition maps_in :: "kmem \<Rightarrow> u32 \<Rightarrow> u32 \<Rightarrow> u32 \<Rightarrow> kmem \<Rightarrow> bool" where
  "maps_in s dir virt T s' \<longleftrightarrow> same_outside {dir, T} (mem s) (mem s') \<and>
     ent_present (ent (mem s') dir (dir_index virt)) \<and> table_of (mem s') dir (dir_index virt) = T \<and>
     (\<forall>k<1024. k \<noteq> dir_index virt \<longrightarrow> ent (mem s') dir k = ent (mem s) dir k) \<and>
     (if ent_present (ent (mem s) dir (dir_index virt))
      then T = table_of (mem s) dir (dir_index virt) \<and> phys_st s' = phys_st s \<and>
           (\<forall>k<1024. k \<noteq> tbl_index virt \<longrightarrow> ent (mem s') T k = ent (mem s) T k)
      else physical_alloc (phys_st s) = Some (T, phys_st s') \<and>
           (\<forall>k<1024. k \<noteq> tbl_index virt \<longrightarrow> ent (mem s') T k = 0)) \<and>
     dir_grows (mem s) dir (mem s') \<and> region_st s' = region_st s \<and> kernel_dir s' = kernel_dir s \<and> tempmap_addr s' = tempmap_addr s \<and>
     cr4 s' = cr4 s \<and> drop_bit 12 (cr3 s') = drop_bit 12 (cr3 s)"

lemma paging_map_maps_in:
  assumes "kmem_ok s" and "pas_inv s dir" and "page_aligned virt" and "page_aligned phys"
    and "dir_index virt < 1023" and "paging_map s dir virt phys flags = Some (b, s')"
  shows "\<exists>T. maps_in s dir virt T s' \<and> b = (walk (mem s) dir virt = None \<or> flag flags PAGING_FLAG_FORCE) \<and>
    grants (mem s') dir (dir_index virt) (flag flags 1) (flag flags 2) \<and>
    ent (mem s') T (tbl_index virt) =
      (if b then ent_make (flag flags 1) (flag flags 2) phys else ent (mem s) T (tbl_index virt))"
proof (cases "ent_present (ent (mem s) dir (dir_index virt))")
  case True
  let ?T = "table_of (mem s) dir (dir_index virt)"
  let ?new = "walk (mem s) dir virt = None \<or> flag flags PAGING_FLAG_FORCE"
  obtain m' where m': "paging_map s dir virt phys flags = Some (?new, (window s ?T)\<lparr>mem := m'\<rparr>)"
      "same_outside {dir, ?T} (mem s) m'" "ent_present (ent m' dir (dir_index virt))" "table_of m' dir (dir_index virt) = ?T"
      "\<forall>k<1024. k \<noteq> dir_index virt \<longrightarrow> ent m' dir k = ent (mem s) dir k"
      "\<forall>k<1024. k \<noteq> tbl_index virt \<longrightarrow> ent m' ?T k = ent (mem s) ?T k"
      "dir_grows (mem s) dir m'" "grants m' dir (dir_index virt) (flag flags 1) (flag flags 2)"
      "ent m' ?T (tbl_index virt) = (if ?new then ent_make (flag flags 1) (flag flags 2) phys else ent (mem s) ?T (tbl_index virt))"
    using paging_map_present [OF assms(1-5) True, of flags] by (elim exE conjE) (rule that)
  have b: "b = ?new" "s' = (window s ?T)\<lparr>mem := m'\<rparr>" using m'(1) assms(6) by simp_all
  have "maps_in s dir virt ?T s'" using True m'(2-7) by (simp add: maps_in_def b(2))
  then show ?thesis using m'(8,9) b by (intro exI [of _ ?T]) simp
next
  case False
  have "physical_alloc (phys_st s) \<noteq> None"
  proof
    assume "physical_alloc (phys_st s) = None"
    then have "kmem_alloc ((window s dir)\<lparr>mem := m\<rparr>) = None" for m by (simp add: kmem_alloc_def)
    moreover have "page_aligned dir" "dir \<noteq> 0" "tempmap_addr s \<noteq> 0" using assms by (auto simp: pas_inv_def kmem_ok_def)
    ultimately show False
      using False assms(3,4,6) temp_ld_window [of dir "dir_index virt" s] temp_st_window [of dir "dir_index virt" s]
      by (simp add: paging_map_def dir_or_kernel_def dirent_get_def paging_map_temp_aligned Let_def)
  qed
  then obtain T ph where al: "physical_alloc (phys_st s) = Some (T, ph)" by auto
  then have "page_aligned T" using frames_of.alloc_fresh [OF _ al] assms(1) by (simp add: kmem_ok_def)
  moreover have "walk (mem s) dir virt = None" using False by (simp add: walk_def)
  moreover obtain m' c where m': "paging_map s dir virt phys flags = Some (True, (window s T)\<lparr>mem := m', phys_st := ph, cr3 := c\<rparr>)"
      "c = (if paging_dir_is_active s dir then dir else cr3 s)" "same_outside {dir, T} (mem s) m'"
      "ent m' dir (dir_index virt) = ent_make (flag flags 1) (flag flags 2) T"
      "\<forall>k<1024. k \<noteq> dir_index virt \<longrightarrow> ent m' dir k = ent (mem s) dir k"
      "\<forall>k<1024. ent m' T k = (if k = tbl_index virt then ent_make (flag flags 1) (flag flags 2) phys else 0)"
    using paging_map_absent [OF assms(1-5) False al, of flags] by (elim exE conjE) (rule that)
  moreover have "b" "s' = (window s T)\<lparr>mem := m', phys_st := ph, cr3 := c\<rparr>" using m'(1) assms(6) by simp_all
  moreover have "ent m' dir i = ent (mem s) dir i" if "i < 1023" "ent_present (ent (mem s) dir i)" for i
    using m'(5) False that by (cases "i = dir_index virt") simp_all
  then have "dir_grows (mem s) dir m'" by (simp add: dir_grows_def grants_def)
  ultimately show ?thesis
    using False al by (intro exI [of _ T]) (simp add: maps_in_def table_of_def paging_dir_is_active_def grants_def)
qed

lemma maps_in_table_neq_dir:
  assumes "kmem_ok s" and "pas_inv s dir" and "dir_index virt < 1023" and "maps_in s dir virt T s'"
  shows "page_aligned T \<and> T \<noteq> dir \<and> kmem_ok s' \<and>
    (\<forall>a. frame_count (phys_st s) a > 0 \<longrightarrow> frame_count (phys_st s') a > 0) \<and> frame_count (phys_st s') T > 0"
proof (cases "ent_present (ent (mem s) dir (dir_index virt))")
  case True
  then show ?thesis using assms by (auto simp: maps_in_def pas_inv_def kmem_ok_def)
next
  case False
  then have "physical_alloc (phys_st s) = Some (T, phys_st s')" using assms(4) by (simp add: maps_in_def)
  from frames_of.alloc_fresh [OF _ this] assms False show ?thesis
    by (auto simp: maps_in_def pas_inv_def kmem_ok_def)
qed

text \<open>Entries of another table of the same directory are left alone.\<close>

lemma maps_in_other_table:
  assumes "kmem_ok s" and "pas_inv s dir" and "dir_index virt < 1023" and "maps_in s dir virt T s'"
    and "i < 1023" and "i \<noteq> dir_index virt" and "ent_present (ent (mem s) dir i)"
  shows "table_of (mem s') dir i = table_of (mem s) dir i \<and> table_of (mem s) dir i \<noteq> T \<and>
    (k < 1024 \<longrightarrow> ent (mem s') (table_of (mem s) dir i) k = ent (mem s) (table_of (mem s) dir i) k)"
proof -
  let ?U = "table_of (mem s) dir i"
  have U: "?U \<noteq> dir" "0 < frame_count (phys_st s) ?U" using assms by (auto simp: pas_inv_def)
  have "?U \<noteq> T"
  proof (cases "ent_present (ent (mem s) dir (dir_index virt))")
    case True
    then show ?thesis using assms by (auto simp: maps_in_def pas_inv_def)
  next
    case False
    then have "physical_alloc (phys_st s) = Some (T, phys_st s')" using assms(4) by (simp add: maps_in_def)
    from frames_of.alloc_fresh [OF _ this] assms(1) U(2) show ?thesis by (auto simp: kmem_ok_def)
  qed
  moreover have "ent (mem s') dir i = ent (mem s) dir i" using assms by (simp add: maps_in_def)
  ultimately show ?thesis
    using U same_outside_ent [of "{dir, T}" "mem s" "mem s'" ?U k] assms(4)
    by (auto simp: table_of_def maps_in_def)
qed

lemma maps_in_pas_inv:
  assumes "kmem_ok s" and "pas_inv s dir" and "dir_index virt < 1023" and "maps_in s dir virt T s'"
  shows "pas_inv s' dir"
proof -
  let ?i = "dir_index virt"
  note T = maps_in_table_neq_dir [OF assms]
  have d: "page_aligned dir" "dir \<noteq> 0" "0 < frame_count (phys_st s) dir" using assms(2) by (auto simp: pas_inv_def)
  have Ti: "table_of (mem s') dir ?i = T" using assms(4) by (simp add: maps_in_def)
  have other: "ent (mem s') dir k = ent (mem s) dir k" if "k < 1023" "k \<noteq> ?i" for k
    using assms(4) that by (simp add: maps_in_def)
  have tab: "table_of (mem s') dir k \<noteq> dir \<and> 0 < frame_count (phys_st s') (table_of (mem s') dir k)"
    if "k < 1023" "ent_present (ent (mem s') dir k)" for k
  proof (cases "k = ?i")
    case True
    then show ?thesis using Ti T by simp
  next
    case False
    with that other have "ent_present (ent (mem s) dir k)" by simp
    with maps_in_other_table [OF assms that(1) False this, of 0] assms(2) that(1) T show ?thesis
      by (auto simp: pas_inv_def)
  qed
  have disj: "table_of (mem s') dir j \<noteq> table_of (mem s') dir k"
    if "k < 1023" "j < 1023" "j \<noteq> k" "ent_present (ent (mem s') dir k)" "ent_present (ent (mem s') dir j)" for j k
  proof -
    have pre: "table_of (mem s') dir l = table_of (mem s) dir l \<and> table_of (mem s) dir l \<noteq> T \<and> ent_present (ent (mem s) dir l)"
      if "l < 1023" "l \<noteq> ?i" "ent_present (ent (mem s') dir l)" for l
      using maps_in_other_table [OF assms that(1,2), of 0] other [OF that(1,2)] that(3) by auto
    show ?thesis
    proof (cases "j = ?i \<or> k = ?i")
      case True
      then show ?thesis using pre [OF that(1)] pre [OF that(2)] that Ti by metis
    next
      case False
      then show ?thesis using pre [OF that(1)] pre [OF that(2)] that assms(2) by (auto simp: pas_inv_def)
    qed
  qed
  show ?thesis using d T tab disj by (simp add: pas_inv_def)
qed

lemma maps_in_walk_other:
  assumes "kmem_ok s" and "pas_inv s dir" and "dir_index virt < 1023" and "maps_in s dir virt T s'"
    and "dir_index v < 1023" and "page_align v \<noteq> page_align virt"
  shows "walk (mem s') dir v = walk (mem s) dir v"
proof (cases "dir_index v = dir_index virt")
  case True
  then have "tbl_index v \<noteq> tbl_index virt" using assms(6) index_page_eq by blast
  then show ?thesis using assms(4) True by (auto simp: walk_def maps_in_def Let_def split: if_splits)
next
  case False
  then have e: "ent (mem s') dir (dir_index v) = ent (mem s) dir (dir_index v)"
    using assms(4) by (simp add: maps_in_def)
  show ?thesis
  proof (cases "ent_present (ent (mem s) dir (dir_index v))")
    case True
    from maps_in_other_table [OF assms(1-5) False True, of "tbl_index v"] e show ?thesis
      by (simp add: walk_def)
  qed (simp add: walk_def e)
qed

theorem paging_map_walk:
  assumes "kmem_ok s" and "pas_inv s dir" and "page_aligned virt" and "page_aligned phys"
    and "dir_index virt < 1023" and "paging_map s dir virt phys flags = Some (b, s')"
  shows "kmem_ok s' \<and> pas_inv s' dir \<and> b = (walk (mem s) dir virt = None \<or> flag flags PAGING_FLAG_FORCE) \<and>
    walk (mem s') dir virt = (if b then Some (ent_make (flag flags 1) (flag flags 2) phys) else walk (mem s) dir virt) \<and>
    (b \<longrightarrow> covered (mem s') dir virt) \<and> dir_grows (mem s) dir (mem s') \<and>
    (\<forall>v. dir_index v < 1023 \<longrightarrow> page_align v \<noteq> page_align virt \<longrightarrow> walk (mem s') dir v = walk (mem s) dir v)"
proof -
  obtain T where T: "maps_in s dir virt T s'" "b = (walk (mem s) dir virt = None \<or> flag flags PAGING_FLAG_FORCE)"
    "ent (mem s') T (tbl_index virt) =
      (if b then ent_make (flag flags 1) (flag flags 2) phys else ent (mem s) T (tbl_index virt))"
    and g: "grants (mem s') dir (dir_index virt) (flag flags 1) (flag flags 2)"
    using paging_map_maps_in [OF assms] by blast
  have w: "walk (mem s') dir virt = (if b then Some (ent_make (flag flags 1) (flag flags 2) phys) else walk (mem s) dir virt)"
    using T by (auto simp: walk_def maps_in_def Let_def split: if_splits)
  then have "b \<longrightarrow> covered (mem s') dir virt" using g by (simp add: covered_def)
  moreover have "dir_grows (mem s) dir (mem s')" using T(1) by (simp add: maps_in_def)
  ultimately show ?thesis using w T maps_in_table_neq_dir [OF assms(1,2,5) T(1)] maps_in_pas_inv [OF assms(1,2,5) T(1)]
    maps_in_walk_other [OF assms(1,2,5) T(1)] by blast
qed

text \<open>
  Isolation: the translation of another address space does not change, for any page whose
  table is not shared with the page being mapped.
\<close>

text \<open>
  C18. Mapping a page in one address space changes no translation in another one, access rights of
  both levels included, provided the two share no page table for the pages concerned.
\<close>

theorem paging_map_isolation:
  assumes "kmem_ok s" and "pas_inv s dir" and "page_aligned virt" and "page_aligned phys"
    and "dir_index virt < 1023" and "paging_map s dir virt phys flags = Some (b, s')"
    and "pas_inv s dir2" and "dir2 \<noteq> dir" and "dir_index v < 1023"
    and "ent_present (ent (mem s) dir2 (dir_index v)) \<longrightarrow>
         table_of (mem s) dir2 (dir_index v) \<noteq> dir \<and>
         (ent_present (ent (mem s) dir (dir_index virt)) \<longrightarrow>
          table_of (mem s) dir2 (dir_index v) \<noteq> table_of (mem s) dir (dir_index virt))"
    and "ent_present (ent (mem s) dir (dir_index virt)) \<longrightarrow> table_of (mem s) dir (dir_index virt) \<noteq> dir2"
  shows "walk (mem s') dir2 v = walk (mem s) dir2 v \<and> translate (mem s') dir2 v = translate (mem s) dir2 v"
proof -
  obtain T where T: "maps_in s dir virt T s'" using paging_map_maps_in [OF assms(1-6)] by blast
  let ?U = "table_of (mem s) dir2 (dir_index v)"
  have fresh: "frame_count (phys_st s) T = 0" if "\<not> ent_present (ent (mem s) dir (dir_index virt))"
  proof -
    have "physical_alloc (phys_st s) = Some (T, phys_st s')" using T that by (simp add: maps_in_def)
    from frames_of.alloc_fresh [OF _ this] assms(1) show ?thesis by (simp add: kmem_ok_def)
  qed
  have old: "T = table_of (mem s) dir (dir_index virt)" if "ent_present (ent (mem s) dir (dir_index virt))"
    using T that by (simp add: maps_in_def)
  let ?P = "ent_present (ent (mem s) dir (dir_index virt))"
  have "dir2 \<notin> {dir, T}"
    using assms(7,8,11) fresh old by (cases ?P) (auto simp: pas_inv_def)
  then have e: "ent (mem s') dir2 (dir_index v) = ent (mem s) dir2 (dir_index v)"
    using same_outside_ent [of "{dir, T}" "mem s" "mem s'" dir2] T assms(7) by (auto simp: maps_in_def pas_inv_def)
  have "walk (mem s') dir2 v = walk (mem s) dir2 v"
  proof (cases "ent_present (ent (mem s) dir2 (dir_index v))")
    case True
    then have "?U \<notin> {dir, T}"
      using assms(7,9,10) fresh old by (cases ?P) (auto simp: pas_inv_def)
    then have "ent (mem s') ?U (tbl_index v) = ent (mem s) ?U (tbl_index v)"
      using same_outside_ent [of "{dir, T}" "mem s" "mem s'" ?U] T by (auto simp: maps_in_def)
    then show ?thesis using e by (simp add: walk_def table_of_def)
  qed (simp add: walk_def e)
  with translate_cong [OF this e] show ?thesis by blast
qed

subsection \<open>Unmapping\<close>

definition pas_frames :: "memory \<Rightarrow> u32 \<Rightarrow> u32 set" where
  "pas_frames m dir = insert dir {table_of m dir i | i. i < 1023 \<and> ent_present (ent m dir i)}"

lemma pas_inv_cong:
  assumes "pas_inv s dir" and "\<And>i. i < 1023 \<Longrightarrow> ent (mem s') dir i = ent (mem s) dir i"
    and "\<And>a. a \<in> pas_frames (mem s) dir \<Longrightarrow> 0 < frame_count (phys_st s') a"
  shows "pas_inv s' dir"
proof -
  have "table_of (mem s') dir i = table_of (mem s) dir i" if "i < 1023" for i
    using assms(2) that by (simp add: table_of_def)
  with assms show ?thesis by (auto simp: pas_inv_def pas_frames_def)
qed

lemma paging_unmap_none:
  assumes "kmem_ok s" and "pas_inv s dir" and "page_aligned virt" and "walk (mem s) dir virt = None"
  shows "\<exists>p. paging_unmap s dir virt = Some (window s p)"
proof -
  let ?T = "table_of (mem s) dir (dir_index virt)"
  have d: "page_aligned dir" "dir \<noteq> 0" "tempmap_addr s \<noteq> 0" using assms(1,2) by (auto simp: pas_inv_def kmem_ok_def)
  have "temp_ld (window s ?T) (tempmap_addr s + 4 * TBL_INDEX virt) = Some (ent (mem s) ?T (tbl_index virt))"
    using temp_ld_window [of ?T "tbl_index virt" s] by simp
  then show ?thesis
    using d assms(3,4) by (cases "ent_present (ent (mem s) dir (dir_index virt))")
      (auto simp: paging_unmap_def dir_or_kernel_def tblent_get_walk walk_def Let_def)
qed

lemma paging_unmap_some:
  assumes "kmem_ok s" and "pas_inv s dir" and "page_aligned virt" and "dir_index virt < 1023"
    and "walk (mem s) dir virt = Some t"
    and "b = ENTRY_ADDR (ent_frame t)" and "0 < frame_count (phys_st s) b" and "b \<notin> pas_frames (mem s) dir"
  shows "\<exists>s'. paging_unmap s dir virt = Some s' \<and> kmem_ok s' \<and> pas_inv s' dir \<and>
    frame_count (phys_st s') = (frame_count (phys_st s))(b := frame_count (phys_st s) b - 1) \<and>
    same_outside {table_of (mem s) dir (dir_index virt)} (mem s) (mem s') \<and>
    walk (mem s') dir virt = None \<and>
    (\<forall>v. dir_index v < 1023 \<longrightarrow> page_align v \<noteq> page_align virt \<longrightarrow> walk (mem s') dir v = walk (mem s) dir v)"
proof -
  let ?T = "table_of (mem s) dir (dir_index virt)" and ?j = "tbl_index virt"
  have d: "page_aligned dir" "dir \<noteq> 0" "tempmap_addr s \<noteq> 0" "phys_inv (phys_st s)"
    using assms(1,2) by (auto simp: pas_inv_def kmem_ok_def)
  have w: "ent_present (ent (mem s) dir (dir_index virt))" "ent (mem s) ?T ?j = t" "ent_present t"
    using assms(5) by (auto simp: walk_def Let_def split: if_splits)
  then have TT: "?T \<noteq> dir" using assms(2,4) by (auto simp: pas_inv_def)
  obtain p where p: "physical_release (phys_st s) b = Some (frame_count (phys_st s) b = 1, p)"
    "frame_count p = (frame_count (phys_st s))(b := frame_count (phys_st s) b - 1)" "phys_inv p"
    using frames_of.release_owned [OF d(4) assms(7)] by blast
  define m' where "m' = st32 (mem s) (ent_addr ?T ?j) (ent_set_bit 0 False t)"
  define s' where "s' = (window s ?T)\<lparr>phys_st := p, mem := m'\<rparr>"
  have "kmem_release (window s ?T) b = Some ((window s ?T)\<lparr>phys_st := p\<rparr>)"
    using p(1) by (simp add: kmem_release_def)
  then have run: "paging_unmap s dir virt = Some s'"
    using d assms(3,6) w temp_ld_window [of ?T ?j s] temp_st_window [of ?T ?j "s\<lparr>phys_st := p\<rparr>"]
    by (simp add: paging_unmap_def dir_or_kernel_def tblent_get_walk s'_def m'_def)
  have out: "same_outside {?T} (mem s) m'" using same_outside_st32 [of ?T ?j] by (simp add: m'_def)
  then have dirs: "ent m' dir i = ent (mem s) dir i" if "i < 1024" for i
    using same_outside_ent [OF out d(1)] TT that by auto
  have inv: "pas_inv s' dir"
    by (rule pas_inv_cong [OF assms(2)]) (use dirs p(2) assms(2,8) in \<open>auto simp: s'_def pas_frames_def pas_inv_def\<close>)
  have "walk m' dir v = walk (mem s) dir v" if "dir_index v < 1023" "page_align v \<noteq> page_align virt" for v
  proof -
    have "ent m' (table_of (mem s) dir (dir_index v)) (tbl_index v) = ent (mem s) (table_of (mem s) dir (dir_index v)) (tbl_index v)"
      if P: "ent_present (ent (mem s) dir (dir_index v))"
    proof -
      have "table_of (mem s) dir (dir_index v) \<noteq> ?T \<or> tbl_index v \<noteq> ?j"
      proof (cases "dir_index v = dir_index virt")
        case True
        then show ?thesis using index_page_eq [of v virt] \<open>page_align v \<noteq> page_align virt\<close> by auto
      next
        case False
        then show ?thesis using assms(2,4) P w(1) \<open>dir_index v < 1023\<close> by (auto simp: pas_inv_def)
      qed
      then show ?thesis by (auto simp: m'_def ent_st32)
    qed
    then show ?thesis using dirs by (simp add: walk_def table_of_def)
  qed
  moreover have "walk m' dir virt = None"
    using dirs [of "dir_index virt"] w(1) by (simp add: walk_def table_of_def m'_def ent_st32)
  ultimately show ?thesis
    using run inv out p d by (intro exI [of _ s']) (auto simp: s'_def kmem_ok_def)
qed

end
