(* ===== verification/Paging_Dirs.thy ===== *)
theory Paging_Dirs
  imports Paging
begin

text \<open>
  Creating and destroying address spaces: \<open>paging_dir_create\<close> and
  \<open>paging_dir_destroy\<close> of \<open>kernel/arch/i586/sw/paging.c\<close>.
\<close>

lemma kernel_dir_index [simp]: "DIR_INDEX KERNEL_VIRT_BASE = 768"
  by (simp add: DIR_INDEX_def)

lemma window_temp [simp]: "window (s\<lparr>temp_low := l, temp_high := h\<rparr>) p = window s p"
  "window (s\<lparr>mem := m, temp_low := l, temp_high := h\<rparr>) p = (window s p)\<lparr>mem := m\<rparr>"
  by (simp_all add: window_def)

subsection \<open>Creation\<close>

text \<open>The loop that copies the kernel's entries, after \<open>k - 768\<close> iterations.\<close>

definition copied :: "kmem \<Rightarrow> u32 \<Rightarrow> nat \<Rightarrow> kmem \<Rightarrow> bool" where
  "copied s dir k u \<longleftrightarrow> (\<exists>m l h. u = s\<lparr>mem := m, temp_low := l, temp_high := h\<rparr> \<and> same_outside {dir} (mem s) m \<and>
     (\<forall>j<1024. ent m dir j = (if 768 \<le> j \<and> j < k then ent (mem s) (kernel_dir s) j else ent (mem s) dir j)))"

lemma copy_kernel_entries:
  assumes "page_aligned dir" and "page_aligned (kernel_dir s)" and "kernel_dir s \<noteq> dir" and "tempmap_addr s \<noteq> 0"
  shows "\<exists>u. for_each [768..<1023]
    (\<lambda>i s. do {
       (kdir, s) \<leftarrow> paging_map_temp s (kernel_dir s);
       kde \<leftarrow> temp_ld s (kdir + 4 * of_nat i);
       (tdir, s) \<leftarrow> paging_map_temp s dir;
       temp_st s (tdir + 4 * of_nat i) kde
     }) s = Some u \<and> copied s dir 1023 u"
proof (rule for_each_total_from)
  show "copied s dir 768 s"
    unfolding copied_def
    by (intro exI [of _ "mem s"] exI [of _ "temp_low s"] exI [of _ "temp_high s"]) auto
next
  fix k u assume k: "768 \<le> k" "k < 1023" and "copied s dir k u"
  then obtain m l h where u: "u = s\<lparr>mem := m, temp_low := l, temp_high := h\<rparr>" and m: "same_outside {dir} (mem s) m"
    "\<forall>j<1024. ent m dir j = (if 768 \<le> j \<and> j < k then ent (mem s) (kernel_dir s) j else ent (mem s) dir j)"
    by (auto simp: copied_def)
  let ?kd = "kernel_dir s" and ?s = "s\<lparr>mem := m\<rparr>"
  have e: "ent m ?kd k = ent (mem s) ?kd k" using same_outside_ent [OF m(1) assms(2)] assms(3) k by simp
  let ?m' = "st32 m (ent_addr dir k) (ent m ?kd k)"
  have "temp_ld ((window s ?kd)\<lparr>mem := m\<rparr>) (tempmap_addr s + 4 * of_nat k) = Some (ent m ?kd k)"
    using temp_ld_window [OF assms(2), of k ?s] k by simp
  moreover have "temp_st ((window s dir)\<lparr>mem := m\<rparr>) (tempmap_addr s + 4 * of_nat k) w =
      Some ((window s dir)\<lparr>mem := st32 m (ent_addr dir k) w\<rparr>)" for w
    using temp_st_window [OF assms(1), of k ?s w] k by simp
  moreover have "copied s dir (Suc k) ((window s dir)\<lparr>mem := ?m'\<rparr>)"
    unfolding copied_def
    using m e k assms(1) same_outside_trans [OF m(1) same_outside_st32 [OF assms(1), of k]]
    by (intro exI [of _ ?m'] exI [of _ "ENTRY_FRAME dir"] exI [of _ "ENTRY_FRAME (dir + 4096)"])
      (auto simp: ent_st32 less_Suc_eq window_def)
  ultimately show "\<exists>v. do {
       (kdir, s) \<leftarrow> paging_map_temp u (kernel_dir u);
       kde \<leftarrow> temp_ld s (kdir + 4 * of_nat k);
       (tdir, s) \<leftarrow> paging_map_temp s dir;
       temp_st s (tdir + 4 * of_nat k) kde
     } = Some v \<and> copied s dir (Suc k) v"
    using assms by (simp add: u paging_map_temp_aligned)
qed simp

lemma paging_dir_create_run:
  assumes "kmem_ok s" and "pas_inv s (kernel_dir s)" and "physical_alloc (phys_st s) = Some (dir, ph)"
  shows "\<exists>s'. paging_dir_create s = Some (dir, s') \<and> phys_st s' = ph \<and> region_st s' = region_st s \<and>
    kernel_dir s' = kernel_dir s \<and> tempmap_addr s' = tempmap_addr s \<and> cr3 s' = cr3 s \<and> cr4 s' = cr4 s \<and>
    same_outside {dir} (mem s) (mem s') \<and>
    (\<forall>j<1023. ent (mem s') dir j = (if 768 \<le> j then ent (mem s) (kernel_dir s) j else 0)) \<and>
    ent (mem s') dir 1023 = ent_make True False dir"
proof -
  let ?kd = "kernel_dir s"
  have kd: "page_aligned ?kd" "?kd \<noteq> 0" "tempmap_addr s \<noteq> 0" using assms by (auto simp: pas_inv_def kmem_ok_def)
  have dir: "page_aligned dir" "frame_count (phys_st s) dir = 0"
    using frames_of.alloc_fresh [OF _ assms(3)] assms(1) by (auto simp: kmem_ok_def)
  then have ne: "?kd \<noteq> dir" using assms(2) by (auto simp: pas_inv_def)
  let ?de = "ent_set_frame (ENTRY_FRAME dir) (ent_set_bit 1 True (ent_set_bit 0 True 0))"
  define m1 where "m1 = memset_mem (mem s) dir 0 4096"
  define m2 where "m2 = st32 m1 (ent_addr dir 1023) ?de"
  define s2 where "s2 = (window s dir)\<lparr>phys_st := ph, mem := m2\<rparr>"
  have out: "same_outside {dir} (mem s) m2"
    using same_outside_trans [OF same_outside_memset [OF dir(1), of "mem s" 0] same_outside_st32 [OF dir(1)]]
    by (simp add: m1_def m2_def)
  have de: "?de = ent_make True False dir"
    by (rule bit_word_eqI) (simp add: ent_make_def ent_flags_def ENTRY_FRAME_def ent_set_frame_bit ent_set_bit_bit)
  have e2: "ent m2 dir j = (if j = 1023 then ent_make True False dir else 0)" if "j < 1024" for j
    using that dir(1) by (simp add: m1_def m2_def ent_st32 ent_memset_same de [unfolded One_nat_def])
  obtain u where u: "for_each [768..<1023]
    (\<lambda>i s. do {
       (kdir, s) \<leftarrow> paging_map_temp s (kernel_dir s);
       kde \<leftarrow> temp_ld s (kdir + 4 * of_nat i);
       (tdir, s) \<leftarrow> paging_map_temp s dir;
       temp_st s (tdir + 4 * of_nat i) kde
     }) s2 = Some u" "copied s2 dir 1023 u"
    using copy_kernel_entries [of dir s2] dir kd ne by (auto simp: s2_def)
  have "temp_memset ((window s dir)\<lparr>phys_st := ph\<rparr>) (tempmap_addr s) 0 4096 = Some ((window s dir)\<lparr>phys_st := ph, mem := m1\<rparr>)"
    using temp_memset_window [OF dir(1), of "s\<lparr>phys_st := ph\<rparr>"] by (simp add: m1_def)
  moreover have "temp_st ((window s dir)\<lparr>phys_st := ph, mem := m1\<rparr>) (tempmap_addr s + 4 * 1023) ?de = Some s2"
    using temp_st_window [OF dir(1), of 1023 "s\<lparr>phys_st := ph, mem := m1\<rparr>" ?de] by (simp add: m2_def s2_def)
  ultimately have "paging_dir_create s = Some (dir, u)"
    using assms(3) kd dir u(1)
    by (simp add: paging_dir_create_def kmem_alloc_def paging_map_temp_aligned Let_def) (simp add: s2_def)
  moreover from u(2) obtain m l h where um: "u = s2\<lparr>mem := m, temp_low := l, temp_high := h\<rparr>"
    "same_outside {dir} m2 m"
    "\<And>j. j < 1024 \<Longrightarrow> ent m dir j = (if 768 \<le> j \<and> j < 1023 then ent m2 ?kd j else ent m2 dir j)"
    by (auto simp: copied_def s2_def)
  moreover have "ent m2 ?kd j = ent (mem s) ?kd j" if "j < 1024" for j
    using same_outside_ent [OF out kd(1)] ne that by simp
  ultimately show ?thesis
    using e2 same_outside_trans [OF out um(2)] by (intro exI [of _ u]) (simp add: s2_def window_def)
qed

theorem paging_dir_create_walk:
  assumes "kmem_ok s" and "pas_inv s (kernel_dir s)" and "paging_dir_create s = Some (dir, s')"
  shows "kmem_ok s' \<and> pas_inv s' dir \<and> frame_count (phys_st s) dir = 0 \<and>
    (\<forall>v. unat v < 0xC0000000 \<longrightarrow> walk (mem s') dir v = None) \<and>
    (\<forall>v. 0xC0000000 \<le> unat v \<longrightarrow> dir_index v < 1023 \<longrightarrow> walk (mem s') dir v = walk (mem s) (kernel_dir s) v \<and>
       translate (mem s') dir v = translate (mem s) (kernel_dir s) v)"
proof -
  let ?kd = "kernel_dir s"
  obtain ph where al: "physical_alloc (phys_st s) = Some (dir, ph)"
    using assms(3) by (auto simp: paging_dir_create_def kmem_alloc_def bind_eq_Some_conv)
  have c: "phys_st s' = ph" "tempmap_addr s' = tempmap_addr s" "same_outside {dir} (mem s) (mem s')"
    "\<And>j. j < 1023 \<Longrightarrow> ent (mem s') dir j = (if 768 \<le> j then ent (mem s) ?kd j else 0)"
    using paging_dir_create_run [OF assms(1,2) al] assms(3) by auto
  have dir: "page_aligned dir" "dir \<noteq> 0" "frame_count (phys_st s) dir = 0"
    "frame_count ph = (frame_count (phys_st s))(dir := 1)" "phys_inv ph"
    using frames_of.alloc_fresh [OF _ al] assms(1) by (auto simp: kmem_ok_def)
  have tab: "table_of (mem s') dir j = table_of (mem s) ?kd j" if "768 \<le> j" "j < 1023" for j
    using c(4) that by (simp add: table_of_def)
  have kt: "table_of (mem s) ?kd j \<noteq> dir \<and> 0 < frame_count ph (table_of (mem s) ?kd j)"
    if "j < 1023" "ent_present (ent (mem s) ?kd j)" for j
    using assms(2) dir that by (auto simp: pas_inv_def)
  have pres: "ent_present (ent (mem s') dir j) \<longleftrightarrow> 768 \<le> j \<and> ent_present (ent (mem s) ?kd j)" if "j < 1023" for j
    using c(4) [OF that] by simp
  have "pas_inv s' dir"
    unfolding pas_inv_def using dir c(1) tab kt pres assms(2) by (auto simp: pas_inv_def)
  moreover have "walk (mem s') dir v = None" if "unat v < 0xC0000000" for v
  proof -
    have "dir_index v < 768" using that by (simp add: dir_index_nat div_less_iff_less_mult)
    then show ?thesis using c(4) [of "dir_index v"] by (simp add: walk_def)
  qed
  moreover have "walk (mem s') dir v = walk (mem s) ?kd v \<and> translate (mem s') dir v = translate (mem s) ?kd v" if "0xC0000000 \<le> unat v" "dir_index v < 1023" for v
  proof -
    have i: "768 \<le> dir_index v" using div_le_mono [OF that(1), of 4194304] by (simp add: dir_index_nat)
    have "ent (mem s') (table_of (mem s) ?kd (dir_index v)) k = ent (mem s) (table_of (mem s) ?kd (dir_index v)) k"
      if "ent_present (ent (mem s) ?kd (dir_index v))" "k < 1024" for k
      using same_outside_ent [OF c(3)] kt [OF \<open>dir_index v < 1023\<close> that(1)] that(2) by simp
    then have w: "walk (mem s') dir v = walk (mem s) ?kd v" using tab [OF i that(2)] pres [OF that(2)] i by (auto simp: walk_def)
    moreover have "ent (mem s') dir (dir_index v) = ent (mem s) ?kd (dir_index v)" using c(4) [OF that(2)] i by simp
    ultimately show ?thesis using translate_cong [OF w] by blast
  qed
  ultimately show ?thesis using dir c assms(1) by (simp add: kmem_ok_def)
qed

subsection \<open>Destruction\<close>

lemma physical_release_other:
  assumes "phys_inv p" and "page_aligned b" and "physical_release p b = Some (f, p')"
  shows "phys_inv p' \<and> (\<forall>a. a \<noteq> b \<longrightarrow> frame_count p' a = frame_count p a) \<and> frame_count p' b \<le> frame_count p b"
proof (cases "0 < frame_count p b")
  case True
  then show ?thesis using frames_of.release_owned [OF assms(1) True] assms(3) by auto
next
  case False
  have "unat b \<ge> 0x1000000" using physical_low_memory(1) [OF assms(1), of b] assms(3) by (metis not_le option.distinct(1))
  then have "refs p (frame_index b) = 0" using False assms(2) by (simp add: frame_count_def)
  moreover have "frame_index b < frames p"
    using assms(1,3) by (auto simp: physical_release_def frame_index_def frames_def bind_eq_Some_conv Let_def)
  ultimately show ?thesis using physical_release_zero [OF assms(1)] assms(1,3) by auto
qed

text \<open>The frames that \<open>paging_dir_destroy\<close> may give back.\<close>

definition destroy_frees :: "memory \<Rightarrow> u32 \<Rightarrow> u32 set" where
  "destroy_frees m dir = insert dir (\<Union>i \<in> {i. i < 768 \<and> ent_present (ent m dir i)}.
     {table_of m dir i, ENTRY_ADDR (ent_frame (ent m (table_of m dir i) i))})"

definition only_released :: "u32 set \<Rightarrow> kmem \<Rightarrow> kmem \<Rightarrow> bool" where
  "only_released R s u \<longleftrightarrow> mem u = mem s \<and> tempmap_addr u = tempmap_addr s \<and> kernel_dir u = kernel_dir s \<and>
     phys_inv (phys_st u) \<and> (\<forall>b. b \<notin> R \<longrightarrow> frame_count (phys_st u) b = frame_count (phys_st s) b)"

lemma only_released_window: "only_released R s (window u p) \<longleftrightarrow> only_released R s u"
  by (simp add: only_released_def)

lemma kmem_release_only:
  assumes "kmem_release u b = Some v" and "only_released R s u" and "page_aligned b" and "b \<in> R"
  shows "only_released R s v \<and> (\<exists>p. v = u\<lparr>phys_st := p\<rparr>)"
proof -
  obtain f p where p: "physical_release (phys_st u) b = Some (f, p)" "v = u\<lparr>phys_st := p\<rparr>"
    using assms(1) by (auto simp: kmem_release_def bind_eq_Some_conv)
  with physical_release_other [OF _ assms(3) p(1)] assms show ?thesis by (auto simp: only_released_def)
qed

theorem paging_dir_destroy_only:
  assumes "kmem_ok s" and "page_aligned dir" and "paging_dir_destroy s dir = Some s'"
  shows "mem s' = mem s \<and> (\<forall>b. b \<notin> destroy_frees (mem s) dir \<longrightarrow> frame_count (phys_st s') b = frame_count (phys_st s) b)"
proof -
  let ?R = "destroy_frees (mem s) dir"
  have step: "only_released ?R s v" if i: "i < 768" and u: "only_released ?R s u" and run: "paging_dir_destroy_table dir i u = Some v" for i u v
  proof -
    let ?T = "table_of (mem s) dir i"
    have m: "mem u = mem s" "tempmap_addr u \<noteq> 0" using u assms(1) by (auto simp: only_released_def kmem_ok_def)
    have ld: "temp_ld (window u dir) (tempmap_addr u + 4 * of_nat i) = Some (ent (mem s) dir i)"
      using temp_ld_window [OF assms(2), of i u] i m by simp
    show ?thesis
    proof (cases "ent_present (ent (mem s) dir i)")
      case False
      then have "v = window u dir"
        using run m ld assms(2) by (simp add: paging_dir_destroy_table_def paging_map_temp_aligned)
      then show ?thesis using u by (simp add: only_released_window)
    next
      case True
      let ?te = "ent (mem s) ?T i"
      let ?inner = "\<lambda>(j::nat) s. do {
                 te \<leftarrow> temp_ld s (tempmap_addr u + 4 * of_nat i);
                 if \<not> ent_present te then Some s
                 else kmem_release s (ENTRY_ADDR (ent_frame te))
               }"
      let ?I = "\<lambda>w. only_released ?R s w \<and> (\<exists>p. w = (window u ?T)\<lparr>phys_st := p\<rparr>)"
      have R: "?T \<in> ?R" "ENTRY_ADDR (ent_frame ?te) \<in> ?R" using True i by (auto simp: destroy_frees_def)
      obtain w where w: "for_each [0..<1024] ?inner (window u ?T) = Some w" "kmem_release w ?T = Some v"
        using run True ld m assms(2)
        by (auto simp: paging_dir_destroy_table_def paging_map_temp_aligned bind_eq_Some_conv Let_def
            table_of_def [symmetric])
      have "?I w"
      proof (rule for_each_inv [OF w(1)])
        show "?I (window u ?T)" using u by (auto simp: only_released_window intro: exI [of _ "phys_st u"])
      next
        fix j x y assume x: "?I x" and y: "?inner j x = Some y"
        from x obtain p where p: "x = (window u ?T)\<lparr>phys_st := p\<rparr>" by blast
        have "temp_ld x (tempmap_addr u + 4 * of_nat i) = Some ?te"
          using temp_ld_window [of ?T i "u\<lparr>phys_st := p\<rparr>"] i m by (simp add: p)
        with y show "?I y"
          using x kmem_release_only [of x _ y ?R s] R(2) p by (auto split: if_splits)
      qed
      then show ?thesis using kmem_release_only [OF w(2)] R(1) by auto
    qed
  qed
  obtain u where u: "for_each [0..<768] (paging_dir_destroy_table dir) s = Some u" "kmem_release u dir = Some s'"
    using assms(3) by (auto simp: paging_dir_destroy_def bind_eq_Some_conv)
  have "only_released ?R s s" using assms(1) by (simp add: only_released_def kmem_ok_def)
  then have "only_released ?R s u" by (rule for_each_inv [OF u(1)]) (use step in auto)
  from kmem_release_only [OF u(2) this assms(2)] show ?thesis
    by (simp add: destroy_frees_def only_released_def)
qed

subsection \<open>Destruction returns\<close>

text \<open>\<open>quiet s u\<close>: only the temporary window and the frame counts differ.\<close>

definition quiet :: "kmem \<Rightarrow> kmem \<Rightarrow> bool" where
  "quiet s u \<longleftrightarrow> mem u = mem s \<and> tempmap_addr u = tempmap_addr s \<and> kernel_dir u = kernel_dir s \<and>
     phys_inv (phys_st u) \<and> frames (phys_st u) = frames (phys_st s)"

lemma quiet_window [simp]: "quiet s (window u p) \<longleftrightarrow> quiet s u"
  by (simp add: quiet_def)

text \<open>
  \<open>dropped s u D\<close>: in addition, each frame \<open>a\<close> has been released \<open>D a\<close> times; a release of a frame
  that has no owner left is ignored.
\<close>

definition dropped :: "kmem \<Rightarrow> kmem \<Rightarrow> (u32 \<Rightarrow> nat) \<Rightarrow> bool" where
  "dropped s u D \<longleftrightarrow> quiet s u \<and> (\<forall>a. frame_count (phys_st u) a = frame_count (phys_st s) a - D a)"

lemma dropped_window [simp]: "dropped s (window u p) D \<longleftrightarrow> dropped s u D"
  by (simp add: dropped_def)

lemma physical_release_count:
  assumes "phys_inv p" and "managed p b" and "page_aligned b"
  shows "\<exists>f p'. physical_release p b = Some (f, p') \<and> phys_inv p' \<and> frames p' = frames p \<and>
    (\<forall>a. frame_count p' a = frame_count p a - of_bool (a = b))"
proof -
  obtain f p' where p': "physical_release p b = Some (f, p')" "phys_inv p'" "frames p' = frames p"
    using physical_release_managed [OF assms(1,2)] by blast
  have "frame_count p' b = frame_count p b - 1"
  proof (cases "0 < frame_count p b")
    case True
    then show ?thesis using frames_of.release_owned [OF assms(1) True] p'(1) by auto
  next
    case False
    then show ?thesis using physical_release_other [OF assms(1,3) p'(1)] by simp
  qed
  then show ?thesis using p' physical_release_other [OF assms(1,3) p'(1)] by auto
qed

lemma kmem_release_drops:
  assumes "dropped s u D" and "managed (phys_st s) b" and "page_aligned b"
  shows "\<exists>p. kmem_release u b = Some (u\<lparr>phys_st := p\<rparr>) \<and> dropped s (u\<lparr>phys_st := p\<rparr>) (\<lambda>a. D a + of_bool (a = b))"
proof -
  have q: "quiet s u" and c: "frame_count (phys_st u) a = frame_count (phys_st s) a - D a" for a
    using assms(1) by (simp_all add: dropped_def)
  obtain f p where p: "physical_release (phys_st u) b = Some (f, p)" "phys_inv p" "frames p = frames (phys_st u)"
      "\<And>a. frame_count p a = frame_count (phys_st u) a - of_bool (a = b)"
    using physical_release_count [of "phys_st u" b] q assms(2,3) by (auto simp: quiet_def managed_def)
  then have "dropped s (u\<lparr>phys_st := p\<rparr>) (\<lambda>a. D a + of_bool (a = b))"
    using q by (simp add: dropped_def quiet_def c)
  then show ?thesis using p(1) by (auto simp: kmem_release_def)
qed

text \<open>What the destruction of a directory releases is under management.\<close>

definition destroyable :: "kmem \<Rightarrow> u32 \<Rightarrow> bool" where
  "destroyable s dir \<longleftrightarrow> page_aligned dir \<and> dir \<noteq> 0 \<and> dir \<noteq> kernel_dir s \<and> managed (phys_st s) dir \<and>
     (\<forall>i<768. ent_present (ent (mem s) dir i) \<longrightarrow> managed (phys_st s) (table_of (mem s) dir i) \<and>
        (ent_present (ent (mem s) (table_of (mem s) dir i) i) \<longrightarrow>
         managed (phys_st s) (ENTRY_ADDR (ent_frame (ent (mem s) (table_of (mem s) dir i) i)))))"

text \<open>
  How often the destruction of a directory releases frame \<open>a\<close>: of each table of the user half, the
  frame of the table once, and the frame of the one entry the inner loop looks at 1024 times.
\<close>

definition table_drops :: "memory \<Rightarrow> u32 \<Rightarrow> nat \<Rightarrow> u32 \<Rightarrow> nat" where
  "table_drops m dir i a = (if ent_present (ent m dir i) then
     let T = table_of m dir i; te = ent m T i in
     of_bool (a = T) + (if ent_present te \<and> a = ENTRY_ADDR (ent_frame te) then 1024 else 0) else 0)"

definition destroy_drops :: "memory \<Rightarrow> u32 \<Rightarrow> u32 \<Rightarrow> nat" where
  "destroy_drops m dir a = (\<Sum>i<768. table_drops m dir i a) + of_bool (a = dir)"

lemma paging_dir_destroy_table_drops:
  assumes "kmem_ok s" and "destroyable s dir" and "i < 768" and "dropped s u D"
  shows "\<exists>v. paging_dir_destroy_table dir i u = Some v \<and> dropped s v (\<lambda>a. D a + table_drops (mem s) dir i a)"
proof -
  let ?T = "table_of (mem s) dir i"
  have d: "page_aligned dir" using assms(2) by (simp add: destroyable_def)
  have m: "mem u = mem s" "tempmap_addr u \<noteq> 0" using assms(1,4) by (auto simp: dropped_def quiet_def kmem_ok_def)
  have ld: "temp_ld (window u dir) (tempmap_addr u + 4 * of_nat i) = Some (ent (mem s) dir i)"
    using temp_ld_window [OF d, of i u] assms(3) m by simp
  show ?thesis
  proof (cases "ent_present (ent (mem s) dir i)")
    case False
    then show ?thesis using m ld d assms(4)
      by (simp add: paging_dir_destroy_table_def paging_map_temp_aligned table_drops_def)
  next
    case True
    let ?te = "ent (mem s) ?T i"
    let ?f = "ENTRY_ADDR (ent_frame ?te)"
    let ?inner = "\<lambda>(j::nat) s. do {
               te \<leftarrow> temp_ld s (tempmap_addr u + 4 * of_nat i);
               if \<not> ent_present te then Some s
               else kmem_release s (ENTRY_ADDR (ent_frame te))
             }"
    let ?D = "\<lambda>j a. D a + (if ent_present ?te \<and> a = ?f then j else 0)"
    let ?I = "\<lambda>j w. dropped s w (?D j) \<and> (\<exists>p. w = (window u ?T)\<lparr>phys_st := p\<rparr>)"
    have M: "managed (phys_st s) ?T" "ent_present ?te \<Longrightarrow> managed (phys_st s) ?f"
      using True assms(2,3) by (auto simp: destroyable_def)
    have "\<exists>w. for_each [0..<1024] ?inner (window u ?T) = Some w \<and> ?I 1024 w"
    proof (rule for_each_total)
      show "?I 0 (window u ?T)" using assms(4) by (auto intro: exI [of _ "phys_st u"])
    next
      fix j x assume x: "?I j x"
      then obtain p where p: "x = (window u ?T)\<lparr>phys_st := p\<rparr>" by blast
      have ld': "temp_ld x (tempmap_addr u + 4 * of_nat i) = Some ?te"
        using temp_ld_window [of ?T i "u\<lparr>phys_st := p\<rparr>"] assms(3) m by (simp add: p)
      have step: "?D (Suc j) = (\<lambda>a. ?D j a + of_bool (a = ?f))" if "ent_present ?te" using that by (simp add: fun_eq_iff)
      show "\<exists>y. ?inner j x = Some y \<and> ?I (Suc j) y"
      proof (cases "ent_present ?te")
        case True
        obtain q where "kmem_release x ?f = Some (x\<lparr>phys_st := q\<rparr>)" "dropped s (x\<lparr>phys_st := q\<rparr>) (?D (Suc j))"
          using kmem_release_drops [of s x "?D j" ?f] x M(2) [OF True] step [OF True] by auto
        then show ?thesis using ld' True p by auto
      next
        case False
        then show ?thesis using x ld' by simp
      qed
    qed
    then obtain w where w: "for_each [0..<1024] ?inner (window u ?T) = Some w" "dropped s w (?D 1024)" by blast
    obtain q where q: "kmem_release w ?T = Some (w\<lparr>phys_st := q\<rparr>)"
        "dropped s (w\<lparr>phys_st := q\<rparr>) (\<lambda>a. ?D 1024 a + of_bool (a = ?T))"
      using kmem_release_drops [OF w(2) M(1)] by auto
    have "(\<lambda>a. ?D 1024 a + of_bool (a = ?T)) = (\<lambda>a. D a + table_drops (mem s) dir i a)"
      using True by (simp add: table_drops_def fun_eq_iff Let_def)
    then show ?thesis
      using q w(1) True ld m d by (auto simp: paging_dir_destroy_table_def paging_map_temp_aligned table_of_def [symmetric])
  qed
qed

lemma paging_dir_destroy_drops:
  assumes "kmem_ok s" and "destroyable s dir"
  shows "\<exists>s'. paging_dir_destroy s dir = Some s' \<and> dropped s s' (destroy_drops (mem s) dir)"
proof -
  let ?D = "\<lambda>n a. \<Sum>i<n. table_drops (mem s) dir i a"
  have "\<exists>u. for_each [0..<768] (paging_dir_destroy_table dir) s = Some u \<and> dropped s u (?D 768)"
  proof (rule for_each_total [where I = "\<lambda>n u. dropped s u (?D n)"])
    show "dropped s s (?D 0)" using assms(1) by (simp add: dropped_def quiet_def kmem_ok_def)
  next
    fix k u assume "k < 768" "dropped s u (?D k)"
    then show "\<exists>v. paging_dir_destroy_table dir k u = Some v \<and> dropped s v (?D (Suc k))"
      using paging_dir_destroy_table_drops [OF assms, of k u "?D k"] by simp
  qed
  then obtain u where u: "for_each [0..<768] (paging_dir_destroy_table dir) s = Some u" "dropped s u (?D 768)" by blast
  have "managed (phys_st s) dir" "page_aligned dir" using assms(2) by (simp_all add: destroyable_def)
  from kmem_release_drops [OF u(2) this] show ?thesis
    using assms(2) u(1) by (auto simp: paging_dir_destroy_def destroyable_def destroy_drops_def [abs_def])
qed

subsection \<open>Unmapping returns\<close>

text \<open>Clearing the present bit of any entry takes mappings away and changes none.\<close>

lemma walk_clear:
  assumes "page_aligned dir" and "page_aligned p" and "i < 1024"
  shows "walk (st32 m (ent_addr p i) (ent_set_bit 0 False (ent m p i))) dir v \<in> {None, walk m dir v}"
proof -
  let ?m = "st32 m (ent_addr p i) (ent_set_bit 0 False (ent m p i))"
  have e: "ent ?m q j = (if q = p \<and> j = i then ent_set_bit 0 False (ent m p i) else ent m q j)"
    if "page_aligned q" "j < 1024" for q j
    using ent_st32 [OF assms(2) that(1) assms(3) that(2)] by auto
  show ?thesis
    using assms(1) by (simp add: walk_def table_of_def Let_def e)
qed

text \<open>A directory whose tables are frames of their own, and the frame it maps a page to.\<close>

definition dir_shape :: "memory \<Rightarrow> u32 \<Rightarrow> bool" where
  "dir_shape m dir \<longleftrightarrow> page_aligned dir \<and> dir \<noteq> 0 \<and>
     (\<forall>i<1023. ent_present (ent m dir i) \<longrightarrow> table_of m dir i \<noteq> dir \<and>
        (\<forall>j<1023. j \<noteq> i \<longrightarrow> ent_present (ent m dir j) \<longrightarrow> table_of m dir j \<noteq> table_of m dir i))"

definition page_frame_at :: "memory \<Rightarrow> u32 \<Rightarrow> u32 \<Rightarrow> u32 option" where
  "page_frame_at m dir v = map_option (\<lambda>t. ENTRY_ADDR (ent_frame t)) (walk m dir v)"

lemma unmap_entry:
  assumes "dir_shape m dir" and "dir_index v < 1023" and "walk m dir v = Some t"
    and "T = table_of m dir (dir_index v)" and "m' = st32 m (ent_addr T (tbl_index v)) (ent_set_bit 0 False t)"
  shows "dir_shape m' dir \<and> walk m' dir v = None \<and>
    (\<forall>x. dir_index x < 1023 \<longrightarrow> page_align x \<noteq> page_align v \<longrightarrow> walk m' dir x = walk m dir x)"
proof -
  have w: "ent_present (ent m dir (dir_index v))" "ent m T (tbl_index v) = t" "page_aligned dir" "page_aligned T"
    using assms(1,3,4) by (auto simp: walk_def Let_def dir_shape_def split: if_splits)
  have TT: "T \<noteq> dir" using assms(1,2,4) w(1) by (simp add: dir_shape_def)
  have e: "ent m' q j = (if q = T \<and> j = tbl_index v then ent_set_bit 0 False t else ent m q j)" if "page_aligned q" "j < 1024" for q j
    using ent_st32 [OF w(4) that(1) _ that(2), of "tbl_index v"] by (auto simp: assms(5))
  have dirs: "ent m' dir i = ent m dir i" if "i < 1024" for i using e [OF w(3) that] TT by auto
  then have tab: "table_of m' dir i = table_of m dir i" if "i < 1024" for i using that by (simp add: table_of_def)
  have "dir_shape m' dir" using assms(1) dirs tab by (simp add: dir_shape_def)
  moreover have "walk m' dir v = None" using e [OF w(4), of "tbl_index v"] w(1) dirs tab assms(4) by (simp add: walk_def)
  moreover have "walk m' dir x = walk m dir x" if x: "dir_index x < 1023" "page_align x \<noteq> page_align v" for x
  proof (cases "ent_present (ent m dir (dir_index x))")
    case True
    have "table_of m dir (dir_index x) \<noteq> T \<or> tbl_index x \<noteq> tbl_index v"
      using index_page_eq [of x v] x True w(1) assms(1,2,4) by (cases "dir_index x = dir_index v") (auto simp: dir_shape_def)
    then show ?thesis using e [of "table_of m dir (dir_index x)" "tbl_index x"] dirs tab by (auto simp: walk_def)
  qed (simp add: walk_def dirs)
  ultimately show ?thesis by blast
qed

definition unmappable :: "kmem \<Rightarrow> u32 set \<Rightarrow> bool" where
  "unmappable s V \<longleftrightarrow> dir_shape (mem s) (kernel_dir s) \<and>
     (\<forall>v \<in> V. page_aligned v \<and> dir_index v < 1023 \<and>
        (\<forall>a. page_frame_at (mem s) (kernel_dir s) v = Some a \<longrightarrow> managed (phys_st s) a))"

text \<open>The pages \<open>V\<close> are gone from the kernel directory, and only they; their frames are released.\<close>

definition unmapped :: "kmem \<Rightarrow> u32 list \<Rightarrow> kmem \<Rightarrow> bool" where
  "unmapped s vs s' \<longleftrightarrow> kmem_ok s' \<and> kernel_dir s' = kernel_dir s \<and> frames (phys_st s') = frames (phys_st s) \<and>
     dir_shape (mem s') (kernel_dir s) \<and> (\<forall>v \<in> set vs. walk (mem s') (kernel_dir s) v = None) \<and>
     (\<forall>v. dir_index v < 1023 \<longrightarrow> page_align v \<notin> set vs \<longrightarrow> walk (mem s') (kernel_dir s) v = walk (mem s) (kernel_dir s) v) \<and>
     (\<forall>a. frame_count (phys_st s') a =
        frame_count (phys_st s) a - length (filter (\<lambda>v. page_frame_at (mem s) (kernel_dir s) v = Some a) vs))"

lemma paging_unmap_unmapped:
  assumes "kmem_ok s" and "unmappable s V" and "v \<in> V"
  shows "\<exists>s'. paging_unmap s 0 v = Some s' \<and> unmapped s [v] s'"
proof -
  let ?kd = "kernel_dir s"
  let ?T = "table_of (mem s) ?kd (dir_index v)" and ?j = "tbl_index v"
  have v: "page_aligned v" "dir_index v < 1023" "page_align v = v" using assms(2,3) by (auto simp: unmappable_def page_align_fixed)
  have d: "page_aligned ?kd" "?kd \<noteq> 0" "tempmap_addr s \<noteq> 0" "dir_shape (mem s) ?kd"
    using assms(1,2) by (auto simp: unmappable_def dir_shape_def kmem_ok_def)
  have ld: "temp_ld (window s ?T) (tempmap_addr s + 4 * TBL_INDEX v) = Some (ent (mem s) ?T ?j)"
    using temp_ld_window [of ?T ?j s] by simp
  show ?thesis
  proof (cases "walk (mem s) ?kd v")
    case None
    then have "\<exists>p. paging_unmap s 0 v = Some (window s p)"
      using d v(1) ld by (cases "ent_present (ent (mem s) ?kd (dir_index v))")
        (auto simp: paging_unmap_def dir_or_kernel_def tblent_get_walk walk_def Let_def)
    moreover have "unmapped s [v] (window s p)" for p
      using assms(1) d(4) None by (simp add: unmapped_def page_frame_at_def kmem_ok_def)
    ultimately show ?thesis by blast
  next
    case (Some t)
    let ?f = "ENTRY_ADDR (ent_frame t)"
    have w: "ent_present (ent (mem s) ?kd (dir_index v))" "ent (mem s) ?T ?j = t" "ent_present t" "page_frame_at (mem s) ?kd v = Some ?f"
      using Some by (auto simp: walk_def Let_def page_frame_at_def split: if_splits)
    have M: "managed (phys_st s) ?f" using assms(2,3) w(4) by (auto simp: unmappable_def)
    obtain b p where p: "physical_release (phys_st s) ?f = Some (b, p)" "phys_inv p" "frames p = frames (phys_st s)"
        "\<And>a. frame_count p a = frame_count (phys_st s) a - of_bool (a = ?f)"
      using physical_release_count [of "phys_st s" ?f] M assms(1) by (auto simp: kmem_ok_def)
    define m' where "m' = st32 (mem s) (ent_addr ?T ?j) (ent_set_bit 0 False t)"
    define s' where "s' = (window s ?T)\<lparr>phys_st := p, mem := m'\<rparr>"
    have "paging_unmap s 0 v = Some s'"
      using d(1-3) v(1) w p(1) ld temp_st_window [of ?T ?j "s\<lparr>phys_st := p\<rparr>"]
      by (simp add: paging_unmap_def dir_or_kernel_def tblent_get_walk s'_def m'_def kmem_release_def)
    moreover have "unmapped s [v] s'"
      using unmap_entry [OF d(4) v(2) Some refl m'_def] p d(3) w(4) v(3) by (auto simp: unmapped_def s'_def kmem_ok_def)
    ultimately show ?thesis by blast
  qed
qed

lemma unmapped_walk:
  assumes "unmapped s [v] t" and "unmappable s (set (v # vs))" and "distinct (v # vs)" and "x \<in> set vs"
  shows "walk (mem t) (kernel_dir s) x = walk (mem s) (kernel_dir s) x"
proof -
  have "page_align x = x" "dir_index x < 1023" "x \<noteq> v" using assms(2-4) by (auto simp: unmappable_def page_align_fixed)
  then show ?thesis using assms(1) by (simp add: unmapped_def)
qed

lemma unmapped_step:
  assumes "unmapped s [v] t" and "unmapped t vs u" and "unmappable s (set (v # vs))" and "distinct (v # vs)"
  shows "unmapped s (v # vs) u"
proof -
  have v: "page_align v = v" "dir_index v < 1023" using assms(3) by (auto simp: unmappable_def page_align_fixed)
  have "filter (\<lambda>x. page_frame_at (mem t) (kernel_dir s) x = Some a) vs = filter (\<lambda>x. page_frame_at (mem s) (kernel_dir s) x = Some a) vs" for a
    using unmapped_walk [OF assms(1,3,4)] by (intro filter_cong) (auto simp: page_frame_at_def)
  moreover have "walk (mem u) (kernel_dir s) v = None" using assms v by (auto simp: unmapped_def)
  ultimately show ?thesis using assms(1,2) by (auto simp: unmapped_def)
qed

lemma unmappable_step:
  assumes "unmapped s [v] t" and "unmappable s (set (v # vs))" and "distinct (v # vs)"
  shows "unmappable t (set vs)"
  using assms(1,2) unmapped_walk [OF assms] by (auto simp: unmappable_def unmapped_def page_frame_at_def managed_def)

lemma unmap_pages:
  assumes "kmem_ok s" and "unmappable s (set vs)" and "distinct vs"
  shows "\<exists>s'. for_each vs (\<lambda>v k. paging_unmap k 0 v) s = Some s' \<and> unmapped s vs s'"
  using assms
proof (induction vs arbitrary: s)
  case Nil
  then show ?case by (auto simp: unmapped_def unmappable_def)
next
  case (Cons v vs)
  obtain t where t: "paging_unmap s 0 v = Some t" "unmapped s [v] t"
    using paging_unmap_unmapped [OF Cons.prems(1,2), of v] by auto
  obtain u where "for_each vs (\<lambda>v k. paging_unmap k 0 v) t = Some u" "unmapped t vs u"
    using Cons.IH [of t] t(2) unmappable_step [OF t(2) Cons.prems(2,3)] Cons.prems(3) by (auto simp: unmapped_def)
  then show ?case using t(1) unmapped_step [OF t(2) _ Cons.prems(2,3)] by auto
qed

end
