(* ===== verification/Kernel_State.thy ===== *)
theory Kernel_State
  imports Paging_Dirs
begin

text \<open>
  The kernel's data: interrupt frames, tasks, threads, messages, processes, and the state
  that the files of \<open>kernel/core\<close> and \<open>kernel/arch/i586/sw/int\<close> keep in their static
  variables.  Process control blocks are typed: block \<open>n\<close> of the array \<open>blocks\<close> is
  the record \<^typ>\<open>nat\<close>-indexed by the process id.
\<close>

type_synonym pid_t = u16
type_synonym tid_t = u8
type_synonym ipcport_t = u32

abbreviation (input) PROCESS_MAX :: nat where "PROCESS_MAX \<equiv> 1024"
abbreviation (input) PROCESS_THREAD_MAX :: nat where "PROCESS_THREAD_MAX \<equiv> 64"
abbreviation (input) PROCESS_MESSAGE_MAX :: nat where "PROCESS_MESSAGE_MAX \<equiv> 1024"
abbreviation (input) SCHEDULER_FREQ :: nat where "SCHEDULER_FREQ \<equiv> 100"
abbreviation (input) SCHEDULER_TIMESLICE :: u32 where "SCHEDULER_TIMESLICE \<equiv> 5"
abbreviation (input) PRIV_NONE :: u32 where "PRIV_NONE \<equiv> 0"
abbreviation (input) PRIV_SERVER :: u32 where "PRIV_SERVER \<equiv> 1"
abbreviation (input) PRIV_DRIVER :: u32 where "PRIV_DRIVER \<equiv> 2"
abbreviation (input) IPORT_ANY :: u32 where "IPORT_ANY \<equiv> 1"
abbreviation (input) IPORT_KERNEL :: u32 where "IPORT_KERNEL \<equiv> 0x40001"
abbreviation (input) MSG_ARGC :: nat where "MSG_ARGC \<equiv> 3"

text \<open>Error codes, as the 32-bit values the system calls return.\<close>

abbreviation (input) ENONE :: u32 where "ENONE \<equiv> 0"
abbreviation (input) EPARAM :: u32 where "EPARAM \<equiv> - 1"
abbreviation (input) EPRIV :: u32 where "EPRIV \<equiv> - 2"
abbreviation (input) EADDR :: u32 where "EADDR \<equiv> - 3"
abbreviation (input) ESIZE :: u32 where "ESIZE \<equiv> - 4"
abbreviation (input) EALIGN :: u32 where "EALIGN \<equiv> - 5"
abbreviation (input) ENOTAVAIL :: u32 where "ENOTAVAIL \<equiv> - 6"
abbreviation (input) EINVALID :: u32 where "EINVALID \<equiv> - 7"
abbreviation (input) ENORES :: u32 where "ENORES \<equiv> - 8"

subsection \<open>Interrupt frames and tasks\<close>

record int_frame =
  GS :: u32
  FS :: u32
  ES :: u32
  DS :: u32
  EDI :: u32
  ESI :: u32
  EBP :: u32
  ESP :: u32
  EBX :: u32
  EDX :: u32
  ECX :: u32
  EAX :: u32
  int_num :: u32
  err_code :: u32
  EIP :: u32
  CS :: u32
  EFLAGS :: u32
  user_esp :: u32
  SS :: u32

definition zero_frame :: int_frame where
  "zero_frame = \<lparr>GS = 0, FS = 0, ES = 0, DS = 0, EDI = 0, ESI = 0, EBP = 0, ESP = 0, EBX = 0, EDX = 0,
     ECX = 0, EAX = 0, int_num = 0, err_code = 0, EIP = 0, CS = 0, EFLAGS = 0, user_esp = 0, SS = 0\<rparr>"

record task_info =
  entry :: u32
  stack :: u32
  frame :: int_frame

subsection \<open>Threads\<close>

datatype thread_state =
    THREAD_STATE_NEW
  | THREAD_STATE_ACTIVE
  | THREAD_STATE_SENDING
  | THREAD_STATE_WAITING
  | THREAD_STATE_OLD

text \<open>\<open>thread_uid_t\<close>: 10 bits of process id below 6 bits of thread id.\<close>

type_synonym thread_uid = u16

definition uid_pid :: "thread_uid \<Rightarrow> pid_t" where "uid_pid u = take_bit 10 u"
definition uid_tid :: "thread_uid \<Rightarrow> tid_t" where "uid_tid u = ucast (drop_bit 10 u)"

definition mk_uid :: "pid_t \<Rightarrow> tid_t \<Rightarrow> thread_uid" where
  "mk_uid p t = take_bit 10 p OR push_bit 10 (ucast t)"

record shm =
  shm_to :: ipcport_t
  shm_addr :: u32
  shm_size :: u32
  shm_prot :: u8

record thread =
  th_tid :: tid_t
  th_version :: u8
  th_owner :: pid_t
  th_state :: thread_state
  th_task :: task_info
  th_msg_count :: u32
  th_msg_head :: u16
  th_msg_tail :: u16
  timeslice :: u32
  sched_next :: thread_uid
  sched_prev :: thread_uid
  wait_for :: ipcport_t
  shm_offer :: shm
  payload_addr :: u32
  payload_size :: u32

definition zero_task :: task_info where
  "zero_task = \<lparr>entry = 0, stack = 0, frame = zero_frame\<rparr>"

definition zero_thread :: thread where
  "zero_thread = \<lparr>th_tid = 0, th_version = 0, th_owner = 0, th_state = THREAD_STATE_NEW, th_task = zero_task,
     th_msg_count = 0, th_msg_head = 0, th_msg_tail = 0, timeslice = 0, sched_next = 0, sched_prev = 0,
     wait_for = 0, shm_offer = \<lparr>shm_to = 0, shm_addr = 0, shm_size = 0, shm_prot = 0\<rparr>,
     payload_addr = 0, payload_size = 0\<rparr>"

subsection \<open>Messages and processes\<close>

text \<open>\<open>msg_next\<close> is the \<open>int16_t\<close> link, \<open>-1\<close> (all ones) ending the queue.\<close>

record message =
  msg_from :: ipcport_t
  msg_code :: u32
  msg_args :: "u32 list"
  msg_next :: u16
  msg_payload :: bool

definition zero_message :: message where
  "zero_message = \<lparr>msg_from = 0, msg_code = 0, msg_args = [0, 0, 0], msg_next = 0, msg_payload = False\<rparr>"

record process =
  pr_pid :: pid_t
  pr_version :: u8
  pr_parent :: pid_t
  priv :: u32
  pr_entry :: u32
  addr_space :: u32
  pr_msg_count :: u32
  pr_msg_bitmap :: "u32 list"
  pr_thread_count :: u32
  pr_thread_bitmap :: "u32 list"
  pr_thread_versions :: "u8 list"

definition zero_process :: process where
  "zero_process = \<lparr>pr_pid = 0, pr_version = 0, pr_parent = 0, priv = 0, pr_entry = 0, addr_space = 0,
     pr_msg_count = 0, pr_msg_bitmap = replicate 32 0, pr_thread_count = 0, pr_thread_bitmap = replicate 2 0,
     pr_thread_versions = replicate 64 0\<rparr>"

record block_data =
  bd_process :: process
  bd_messages :: "nat \<Rightarrow> message"
  bd_threads :: "nat \<Rightarrow> thread"

subsection \<open>Devices and interrupts\<close>

text \<open>
  Port I/O is a trace of accesses; what a port read returns is a parameter, a function of
  the accesses made so far and the port.
\<close>

datatype io_event = IoIn nat u16 u32 | IoOut nat u16 u32

record io =
  io_trace :: "io_event list"
  io_dev :: "io_event list \<Rightarrow> u16 \<Rightarrow> u32"

text \<open>The handlers the kernel installs for its interrupts.\<close>

datatype handler =
    exception_callback_h
  | exception_info_h
  | pic_eoi_h
  | irq_callback_h
  | timer_tick_h
  | dispatch_call_h

text \<open>The task state segment (\<open>tss_t\<close>); the fields \<open>tss_init\<close> leaves zero are not kept.\<close>

record tss =
  tss_ESP0 :: u32
  tss_SS0 :: u32
  tss_CS :: u32
  tss_DS :: u32
  tss_ES :: u32
  tss_FS :: u32
  tss_GS :: u32
  tss_SS :: u32

text \<open>
  Addresses the linker chooses: the static tables of the kernel, its stack, and the first two
  interrupt stubs.
\<close>

record link_env =
  gdt_address :: u32
  idt_address :: u32
  tss_address :: u32
  kernel_stack :: u32
  sisr :: u32
  eisr :: u32

text \<open>
  \<open>gdtr\<close>, \<open>idtr\<close> and \<open>task_reg\<close> are the descriptor registers of the processor, \<open>cr2\<close> the
  address of the last page fault, and \<open>user_start\<close> the context the cold start of a task
  returns to.  \<open>rep_last\<close> and \<open>rep_count\<close> are static variables of \<open>exception_info\<close>.
\<close>

record kstate =
  km :: kmem
  block_map :: bmstack
  blocks_addr :: u32
  block_versions :: "nat \<Rightarrow> u8"
  blocks :: "nat \<Rightarrow> block_data"
  active_thread :: thread_uid
  locked :: bool
  service_ids :: "nat \<Rightarrow> ipcport_t"
  cb_handle :: "u8 \<Rightarrow> handler option"
  cb_eoi :: "u8 \<Rightarrow> handler option"
  curr_frame :: "int_frame option"
  isr_levels :: "u16 list"
  irq_map :: "u8 \<Rightarrow> u8"
  isr_map :: "nat \<Rightarrow> u8"
  table_size :: nat
  rep_last :: int
  rep_count :: int
  io_st :: io
  cr2 :: u32
  gdt_entries :: "u64 list"
  idt_entries :: "u64 list"
  gdtr :: "(u16 \<times> u32) option"
  idtr :: "(u16 \<times> u32) option"
  kernel_task :: tss
  task_reg :: u16
  user_start :: "int_frame option"

subsection \<open>Identifiers\<close>

lemma uid_pid_mk [simp]: "uid_pid (mk_uid p t) = take_bit 10 p"
  by (rule bit_word_eqI) (auto simp: uid_pid_def mk_uid_def bit_simps)

lemma uid_tid_mk [simp]: "unat t < 64 \<Longrightarrow> uid_tid (mk_uid p t) = t"
proof -
  assume "unat t < 64"
  then have "unat (take_bit 6 t) = unat t" by (simp add: unat_take_bit)
  then have t: "take_bit 6 t = t" by (simp add: word_unat_eq_iff)
  show ?thesis
  proof (rule bit_word_eqI)
    fix n assume "n < LENGTH(8)"
    moreover have "bit t n \<longleftrightarrow> n < 6 \<and> bit t n" using t by (metis bit_take_bit_iff)
    ultimately show "bit (uid_tid (mk_uid p t)) n = bit t n"
      by (auto simp: uid_tid_def mk_uid_def bit_simps)
  qed
qed

lemma mk_uid_pid_tid [simp]: "mk_uid (uid_pid u) (uid_tid u) = u"
proof (rule bit_word_eqI)
  fix n assume "n < LENGTH(16)"
  then show "bit (mk_uid (uid_pid u) (uid_tid u)) n = bit u n"
    by (auto simp: uid_pid_def uid_tid_def mk_uid_def bit_simps)
qed

lemma unat_uid_pid: "unat (uid_pid u) < 1024"
  by (simp add: uid_pid_def unat_take_bit)

lemma unat_uid_tid: "unat (uid_tid u) < 64"
proof -
  have u: "unat u < 2 ^ LENGTH(16)" by (rule unsigned_less)
  then have "unat (drop_bit 10 u) < 64" by (simp add: drop_bit_eq_div unat_div div_less_iff_less_mult)
  moreover have "unat (uid_tid u) = unat (drop_bit 10 u) mod 256"
    by (simp add: uid_tid_def unsigned_ucast_eq take_bit_eq_mod)
  ultimately show ?thesis by simp
qed

lemma uid_pid_zero [simp]: "uid_pid 0 = 0" by (simp add: uid_pid_def)

end
