(* ===== verification/Proc_Table.thy ===== *)
theory Proc_Table
  imports Kernel_State
begin

text \<open>
  Access to the process table: \<open>process_get\<close> of \<open>core/multitask/process.c\<close>,
  \<open>thread_get\<close> of \<open>core/multitask/thread.c\<close>, and the updates through the pointers
  they return.  A \<open>NULL\<close> result is \<^term>\<open>None\<close> inside the outer option.
\<close>

definition process_get :: "kstate \<Rightarrow> pid_t \<Rightarrow> process option option" where
  "process_get s pid =
     (if unat pid \<ge> PROCESS_MAX then Some None
      else if pid < 2 then Some None
      else do {
        t \<leftarrow> bmstack_test (block_map s) (unat pid);
        Some (if t then Some (bd_process (blocks s (unat pid))) else None)
      })"

definition thread_get :: "kstate \<Rightarrow> thread_uid \<Rightarrow> thread option option" where
  "thread_get s uid =
     (if unat (uid_tid uid) \<ge> PROCESS_THREAD_MAX then Some None
      else do {
        owner \<leftarrow> process_get s (uid_pid uid);
        case owner of
          None \<Rightarrow> Some None
        | Some owner \<Rightarrow> do {
            t \<leftarrow> bitmap_test (pr_thread_bitmap owner) (unat (uid_tid uid));
            Some (if t then Some (bd_threads (blocks s (unat (uid_pid uid))) (unat (uid_tid uid))) else None)
          }
      })"

text \<open>A pointer that is dereferenced, or asserted not to be \<open>NULL\<close>.\<close>

definition the_process :: "kstate \<Rightarrow> pid_t \<Rightarrow> process option" where
  "the_process s pid = do { p \<leftarrow> process_get s pid; p }"

definition the_thread :: "kstate \<Rightarrow> thread_uid \<Rightarrow> thread option" where
  "the_thread s uid = do { t \<leftarrow> thread_get s uid; t }"

definition upd_block :: "nat \<Rightarrow> (block_data \<Rightarrow> block_data) \<Rightarrow> kstate \<Rightarrow> kstate" where
  "upd_block n f s = s\<lparr>blocks := (blocks s)(n := f (blocks s n))\<rparr>"

definition upd_process :: "pid_t \<Rightarrow> (process \<Rightarrow> process) \<Rightarrow> kstate \<Rightarrow> kstate" where
  "upd_process pid f = upd_block (unat pid) (\<lambda>b. b\<lparr>bd_process := f (bd_process b)\<rparr>)"

definition upd_thread :: "thread_uid \<Rightarrow> (thread \<Rightarrow> thread) \<Rightarrow> kstate \<Rightarrow> kstate" where
  "upd_thread uid f = upd_block (unat (uid_pid uid))
     (\<lambda>b. b\<lparr>bd_threads := (bd_threads b)(unat (uid_tid uid) := f (bd_threads b (unat (uid_tid uid))))\<rparr>)"

definition upd_message :: "pid_t \<Rightarrow> nat \<Rightarrow> (message \<Rightarrow> message) \<Rightarrow> kstate \<Rightarrow> kstate" where
  "upd_message pid i f = upd_block (unat pid)
     (\<lambda>b. b\<lparr>bd_messages := (bd_messages b)(i := f (bd_messages b i))\<rparr>)"

subsection \<open>The table as a map\<close>

text \<open>The table after \<open>process_init\<close>: 1024 slots, the bitmaps of every block complete.\<close>

definition table_ok :: "kstate \<Rightarrow> bool" where
  "table_ok s \<longleftrightarrow> bmstack_winv (block_map s) \<and> bmstack_cap (block_map s) = 1024 \<and>
     (\<forall>n. length (pr_thread_bitmap (bd_process (blocks s n))) = 2 \<and>
          length (pr_msg_bitmap (bd_process (blocks s n))) = 32 \<and>
          length (pr_thread_versions (bd_process (blocks s n))) = 64)"

definition live_pid :: "kstate \<Rightarrow> pid_t \<Rightarrow> bool" where
  "live_pid s pid \<longleftrightarrow> 2 \<le> unat pid \<and> unat pid < 1024 \<and> unat pid \<in> bmstack_used (block_map s)"

definition live_uid :: "kstate \<Rightarrow> thread_uid \<Rightarrow> bool" where
  "live_uid s uid \<longleftrightarrow> live_pid s (uid_pid uid) \<and>
     unat (uid_tid uid) \<in> bitmap_bits (pr_thread_bitmap (bd_process (blocks s (unat (uid_pid uid)))))"

definition thread_at :: "kstate \<Rightarrow> thread_uid \<Rightarrow> thread" where
  "thread_at s uid = bd_threads (blocks s (unat (uid_pid uid))) (unat (uid_tid uid))"

definition process_at :: "kstate \<Rightarrow> pid_t \<Rightarrow> process" where
  "process_at s pid = bd_process (blocks s (unat pid))"

definition message_at :: "kstate \<Rightarrow> pid_t \<Rightarrow> nat \<Rightarrow> message" where
  "message_at s pid i = bd_messages (blocks s (unat pid)) i"

lemma process_get_ok:
  "table_ok s \<Longrightarrow> process_get s pid = Some (if live_pid s pid then Some (process_at s pid) else None)"
proof -
  assume ok: "table_ok s"
  have "bmstack_test (block_map s) (unat pid) = Some (unat pid \<in> bmstack_used (block_map s))" if "unat pid < 1024"
    using bmstack_slots.test_used [of "block_map s" "unat pid"] ok that by (simp add: table_ok_def)
  then show ?thesis
    by (auto simp: process_get_def live_pid_def process_at_def word_less_nat_alt not_le)
qed

lemma thread_get_ok:
  "table_ok s \<Longrightarrow> thread_get s uid = Some (if live_uid s uid then Some (thread_at s uid) else None)"
proof -
  assume ok: "table_ok s"
  have "bitmap_test (pr_thread_bitmap (process_at s (uid_pid uid))) (unat (uid_tid uid)) =
      Some (unat (uid_tid uid) \<in> bitmap_bits (pr_thread_bitmap (process_at s (uid_pid uid))))"
    using bitmap_test_bits [of "unat (uid_tid uid)" "pr_thread_bitmap (process_at s (uid_pid uid))"]
      ok unat_uid_tid [of uid] by (simp add: table_ok_def process_at_def)
  then show ?thesis
    using unat_uid_tid [of uid]
    by (auto simp: thread_get_def process_get_ok [OF ok] live_uid_def thread_at_def process_at_def not_le)
qed

lemma the_process_ok: "table_ok s \<Longrightarrow> the_process s pid = (if live_pid s pid then Some (process_at s pid) else None)"
  by (simp add: the_process_def process_get_ok)

lemma the_thread_ok: "table_ok s \<Longrightarrow> the_thread s uid = (if live_uid s uid then Some (thread_at s uid) else None)"
  by (simp add: the_thread_def thread_get_ok)

text \<open>Updates of a thread leave the table's structure and every other thread alone.\<close>

lemma uid_eq_iff: "u = v \<longleftrightarrow> unat (uid_pid u) = unat (uid_pid v) \<and> unat (uid_tid u) = unat (uid_tid v)"
  by (metis mk_uid_pid_tid word_unat_eq_iff)

lemma upd_thread_simps [simp]:
  "thread_at (upd_thread u f s) v = (if v = u then f (thread_at s u) else thread_at s v)"
  "process_at (upd_thread u f s) p = process_at s p"
  "message_at (upd_thread u f s) p i = message_at s p i"
  "live_pid (upd_thread u f s) p = live_pid s p"
  "live_uid (upd_thread u f s) v = live_uid s v"
  "table_ok (upd_thread u f s) = table_ok s"
  "km (upd_thread u f s) = km s" "block_map (upd_thread u f s) = block_map s"
  "active_thread (upd_thread u f s) = active_thread s" "locked (upd_thread u f s) = locked s"
  "curr_frame (upd_thread u f s) = curr_frame s" "blocks_addr (upd_thread u f s) = blocks_addr s"
  "service_ids (upd_thread u f s) = service_ids s" "block_versions (upd_thread u f s) = block_versions s"
  "io_st (upd_thread u f s) = io_st s" "cb_handle (upd_thread u f s) = cb_handle s"
  "cb_eoi (upd_thread u f s) = cb_eoi s" "irq_map (upd_thread u f s) = irq_map s"
  "isr_map (upd_thread u f s) = isr_map s"
  by (auto simp: upd_thread_def upd_block_def thread_at_def process_at_def message_at_def live_pid_def
      live_uid_def table_ok_def uid_eq_iff)

lemma upd_message_simps [simp]:
  "thread_at (upd_message p i f s) v = thread_at s v"
  "process_at (upd_message p i f s) q = process_at s q"
  "message_at (upd_message p i f s) q j = (if q = p \<and> j = i then f (message_at s p i) else message_at s q j)"
  "live_pid (upd_message p i f s) q = live_pid s q"
  "live_uid (upd_message p i f s) v = live_uid s v"
  "table_ok (upd_message p i f s) = table_ok s"
  "km (upd_message p i f s) = km s" "block_map (upd_message p i f s) = block_map s"
  "active_thread (upd_message p i f s) = active_thread s" "locked (upd_message p i f s) = locked s"
  "curr_frame (upd_message p i f s) = curr_frame s" "blocks_addr (upd_message p i f s) = blocks_addr s"
  by (auto simp: upd_message_def upd_block_def thread_at_def process_at_def message_at_def live_pid_def
      live_uid_def table_ok_def word_unat_eq_iff)

lemma upd_process_simps [simp]:
  "thread_at (upd_process p f s) v = thread_at s v"
  "process_at (upd_process p f s) q = (if q = p then f (process_at s p) else process_at s q)"
  "message_at (upd_process p f s) q j = message_at s q j"
  "live_pid (upd_process p f s) q = live_pid s q"
  "km (upd_process p f s) = km s" "block_map (upd_process p f s) = block_map s"
  "active_thread (upd_process p f s) = active_thread s" "locked (upd_process p f s) = locked s"
  "curr_frame (upd_process p f s) = curr_frame s" "blocks_addr (upd_process p f s) = blocks_addr s"
  by (auto simp: upd_process_def upd_block_def thread_at_def process_at_def message_at_def live_pid_def
      word_unat_eq_iff)

lemma live_uid_process: "live_uid s uid \<longleftrightarrow> live_pid s (uid_pid uid) \<and>
    unat (uid_tid uid) \<in> bitmap_bits (pr_thread_bitmap (process_at s (uid_pid uid)))"
  by (simp add: live_uid_def process_at_def)

lemma live_uid_upd_process [simp]:
  "pr_thread_bitmap (f (process_at s p)) = pr_thread_bitmap (process_at s p) \<Longrightarrow> live_uid (upd_process p f s) u = live_uid s u"
  by (auto simp: live_uid_process)

lemma table_ok_upd_process:
  "table_ok s \<Longrightarrow> length (pr_thread_bitmap (f (process_at s p))) = 2 \<Longrightarrow>
   length (pr_msg_bitmap (f (process_at s p))) = 32 \<Longrightarrow> length (pr_thread_versions (f (process_at s p))) = 64 \<Longrightarrow>
   table_ok (upd_process p f s)"
  by (auto simp: table_ok_def upd_process_def upd_block_def process_at_def)

lemma live_uid_not_zero: "live_uid s uid \<Longrightarrow> uid_pid uid \<noteq> 0 \<and> uid \<noteq> 0"
  by (auto simp: live_uid_def live_pid_def)

subsection \<open>Fields the table does not depend on\<close>

lemma table_km [simp]:
  "thread_at (s\<lparr>km := x\<rparr>) u = thread_at s u" "process_at (s\<lparr>km := x\<rparr>) p = process_at s p"
  "message_at (s\<lparr>km := x\<rparr>) p i = message_at s p i" "live_pid (s\<lparr>km := x\<rparr>) p = live_pid s p"
  "live_uid (s\<lparr>km := x\<rparr>) u = live_uid s u" "table_ok (s\<lparr>km := x\<rparr>) = table_ok s"
  by (simp_all add: thread_at_def process_at_def message_at_def live_pid_def live_uid_def table_ok_def)

lemma table_active_thread [simp]:
  "thread_at (s\<lparr>active_thread := x\<rparr>) u = thread_at s u" "process_at (s\<lparr>active_thread := x\<rparr>) p = process_at s p"
  "message_at (s\<lparr>active_thread := x\<rparr>) p i = message_at s p i" "live_pid (s\<lparr>active_thread := x\<rparr>) p = live_pid s p"
  "live_uid (s\<lparr>active_thread := x\<rparr>) u = live_uid s u" "table_ok (s\<lparr>active_thread := x\<rparr>) = table_ok s"
  by (simp_all add: thread_at_def process_at_def message_at_def live_pid_def live_uid_def table_ok_def)

lemma table_locked [simp]:
  "thread_at (s\<lparr>locked := x\<rparr>) u = thread_at s u" "process_at (s\<lparr>locked := x\<rparr>) p = process_at s p"
  "message_at (s\<lparr>locked := x\<rparr>) p i = message_at s p i" "live_pid (s\<lparr>locked := x\<rparr>) p = live_pid s p"
  "live_uid (s\<lparr>locked := x\<rparr>) u = live_uid s u" "table_ok (s\<lparr>locked := x\<rparr>) = table_ok s"
  by (simp_all add: thread_at_def process_at_def message_at_def live_pid_def live_uid_def table_ok_def)

lemma table_curr_frame [simp]:
  "thread_at (s\<lparr>curr_frame := x\<rparr>) u = thread_at s u" "process_at (s\<lparr>curr_frame := x\<rparr>) p = process_at s p"
  "message_at (s\<lparr>curr_frame := x\<rparr>) p i = message_at s p i" "live_pid (s\<lparr>curr_frame := x\<rparr>) p = live_pid s p"
  "live_uid (s\<lparr>curr_frame := x\<rparr>) u = live_uid s u" "table_ok (s\<lparr>curr_frame := x\<rparr>) = table_ok s"
  by (simp_all add: thread_at_def process_at_def message_at_def live_pid_def live_uid_def table_ok_def)

lemma table_io_st [simp]:
  "thread_at (s\<lparr>io_st := x\<rparr>) u = thread_at s u" "process_at (s\<lparr>io_st := x\<rparr>) p = process_at s p"
  "message_at (s\<lparr>io_st := x\<rparr>) p i = message_at s p i" "live_pid (s\<lparr>io_st := x\<rparr>) p = live_pid s p"
  "live_uid (s\<lparr>io_st := x\<rparr>) u = live_uid s u" "table_ok (s\<lparr>io_st := x\<rparr>) = table_ok s"
  by (simp_all add: thread_at_def process_at_def message_at_def live_pid_def live_uid_def table_ok_def)

lemma table_cb_handle [simp]:
  "thread_at (s\<lparr>cb_handle := x\<rparr>) u = thread_at s u" "process_at (s\<lparr>cb_handle := x\<rparr>) p = process_at s p"
  "message_at (s\<lparr>cb_handle := x\<rparr>) p i = message_at s p i" "live_pid (s\<lparr>cb_handle := x\<rparr>) p = live_pid s p"
  "live_uid (s\<lparr>cb_handle := x\<rparr>) u = live_uid s u" "table_ok (s\<lparr>cb_handle := x\<rparr>) = table_ok s"
  by (simp_all add: thread_at_def process_at_def message_at_def live_pid_def live_uid_def table_ok_def)

lemma table_cb_eoi [simp]:
  "thread_at (s\<lparr>cb_eoi := x\<rparr>) u = thread_at s u" "process_at (s\<lparr>cb_eoi := x\<rparr>) p = process_at s p"
  "message_at (s\<lparr>cb_eoi := x\<rparr>) p i = message_at s p i" "live_pid (s\<lparr>cb_eoi := x\<rparr>) p = live_pid s p"
  "live_uid (s\<lparr>cb_eoi := x\<rparr>) u = live_uid s u" "table_ok (s\<lparr>cb_eoi := x\<rparr>) = table_ok s"
  by (simp_all add: thread_at_def process_at_def message_at_def live_pid_def live_uid_def table_ok_def)

lemma table_service_ids [simp]:
  "thread_at (s\<lparr>service_ids := x\<rparr>) u = thread_at s u" "process_at (s\<lparr>service_ids := x\<rparr>) p = process_at s p"
  "message_at (s\<lparr>service_ids := x\<rparr>) p i = message_at s p i" "live_pid (s\<lparr>service_ids := x\<rparr>) p = live_pid s p"
  "live_uid (s\<lparr>service_ids := x\<rparr>) u = live_uid s u" "table_ok (s\<lparr>service_ids := x\<rparr>) = table_ok s"
  by (simp_all add: thread_at_def process_at_def message_at_def live_pid_def live_uid_def table_ok_def)

lemma table_cr2 [simp]:
  "thread_at (s\<lparr>cr2 := x\<rparr>) u = thread_at s u" "process_at (s\<lparr>cr2 := x\<rparr>) p = process_at s p"
  "message_at (s\<lparr>cr2 := x\<rparr>) p i = message_at s p i" "live_pid (s\<lparr>cr2 := x\<rparr>) p = live_pid s p"
  "live_uid (s\<lparr>cr2 := x\<rparr>) u = live_uid s u" "table_ok (s\<lparr>cr2 := x\<rparr>) = table_ok s"
  by (simp_all add: thread_at_def process_at_def message_at_def live_pid_def live_uid_def table_ok_def)

lemma table_rep_last [simp]:
  "thread_at (s\<lparr>rep_last := x\<rparr>) u = thread_at s u" "process_at (s\<lparr>rep_last := x\<rparr>) p = process_at s p"
  "message_at (s\<lparr>rep_last := x\<rparr>) p i = message_at s p i" "live_pid (s\<lparr>rep_last := x\<rparr>) p = live_pid s p"
  "live_uid (s\<lparr>rep_last := x\<rparr>) u = live_uid s u" "table_ok (s\<lparr>rep_last := x\<rparr>) = table_ok s"
  by (simp_all add: thread_at_def process_at_def message_at_def live_pid_def live_uid_def table_ok_def)

lemma table_rep_count [simp]:
  "thread_at (s\<lparr>rep_count := x\<rparr>) u = thread_at s u" "process_at (s\<lparr>rep_count := x\<rparr>) p = process_at s p"
  "message_at (s\<lparr>rep_count := x\<rparr>) p i = message_at s p i" "live_pid (s\<lparr>rep_count := x\<rparr>) p = live_pid s p"
  "live_uid (s\<lparr>rep_count := x\<rparr>) u = live_uid s u" "table_ok (s\<lparr>rep_count := x\<rparr>) = table_ok s"
  by (simp_all add: thread_at_def process_at_def message_at_def live_pid_def live_uid_def table_ok_def)

lemma table_user_start [simp]:
  "thread_at (s\<lparr>user_start := x\<rparr>) u = thread_at s u" "process_at (s\<lparr>user_start := x\<rparr>) p = process_at s p"
  "message_at (s\<lparr>user_start := x\<rparr>) p i = message_at s p i" "live_pid (s\<lparr>user_start := x\<rparr>) p = live_pid s p"
  "live_uid (s\<lparr>user_start := x\<rparr>) u = live_uid s u" "table_ok (s\<lparr>user_start := x\<rparr>) = table_ok s"
  by (simp_all add: thread_at_def process_at_def message_at_def live_pid_def live_uid_def table_ok_def)

lemma table_kernel_task [simp]:
  "thread_at (s\<lparr>kernel_task := x\<rparr>) u = thread_at s u" "process_at (s\<lparr>kernel_task := x\<rparr>) p = process_at s p"
  "message_at (s\<lparr>kernel_task := x\<rparr>) p i = message_at s p i" "live_pid (s\<lparr>kernel_task := x\<rparr>) p = live_pid s p"
  "live_uid (s\<lparr>kernel_task := x\<rparr>) u = live_uid s u" "table_ok (s\<lparr>kernel_task := x\<rparr>) = table_ok s"
  by (simp_all add: thread_at_def process_at_def message_at_def live_pid_def live_uid_def table_ok_def)

lemma table_task_reg [simp]:
  "thread_at (s\<lparr>task_reg := x\<rparr>) u = thread_at s u" "process_at (s\<lparr>task_reg := x\<rparr>) p = process_at s p"
  "message_at (s\<lparr>task_reg := x\<rparr>) p i = message_at s p i" "live_pid (s\<lparr>task_reg := x\<rparr>) p = live_pid s p"
  "live_uid (s\<lparr>task_reg := x\<rparr>) u = live_uid s u" "table_ok (s\<lparr>task_reg := x\<rparr>) = table_ok s"
  by (simp_all add: thread_at_def process_at_def message_at_def live_pid_def live_uid_def table_ok_def)

lemma table_gdt_entries [simp]:
  "thread_at (s\<lparr>gdt_entries := x\<rparr>) u = thread_at s u" "process_at (s\<lparr>gdt_entries := x\<rparr>) p = process_at s p"
  "message_at (s\<lparr>gdt_entries := x\<rparr>) p i = message_at s p i" "live_pid (s\<lparr>gdt_entries := x\<rparr>) p = live_pid s p"
  "live_uid (s\<lparr>gdt_entries := x\<rparr>) u = live_uid s u" "table_ok (s\<lparr>gdt_entries := x\<rparr>) = table_ok s"
  by (simp_all add: thread_at_def process_at_def message_at_def live_pid_def live_uid_def table_ok_def)

lemma table_gdtr [simp]:
  "thread_at (s\<lparr>gdtr := x\<rparr>) u = thread_at s u" "process_at (s\<lparr>gdtr := x\<rparr>) p = process_at s p"
  "message_at (s\<lparr>gdtr := x\<rparr>) p i = message_at s p i" "live_pid (s\<lparr>gdtr := x\<rparr>) p = live_pid s p"
  "live_uid (s\<lparr>gdtr := x\<rparr>) u = live_uid s u" "table_ok (s\<lparr>gdtr := x\<rparr>) = table_ok s"
  by (simp_all add: thread_at_def process_at_def message_at_def live_pid_def live_uid_def table_ok_def)

lemma table_isr_levels [simp]:
  "thread_at (s\<lparr>isr_levels := x\<rparr>) u = thread_at s u" "process_at (s\<lparr>isr_levels := x\<rparr>) p = process_at s p"
  "message_at (s\<lparr>isr_levels := x\<rparr>) p i = message_at s p i" "live_pid (s\<lparr>isr_levels := x\<rparr>) p = live_pid s p"
  "live_uid (s\<lparr>isr_levels := x\<rparr>) u = live_uid s u" "table_ok (s\<lparr>isr_levels := x\<rparr>) = table_ok s"
  by (simp_all add: thread_at_def process_at_def message_at_def live_pid_def live_uid_def table_ok_def)

lemma table_irq_map [simp]:
  "thread_at (s\<lparr>irq_map := x\<rparr>) u = thread_at s u" "process_at (s\<lparr>irq_map := x\<rparr>) p = process_at s p"
  "message_at (s\<lparr>irq_map := x\<rparr>) p i = message_at s p i" "live_pid (s\<lparr>irq_map := x\<rparr>) p = live_pid s p"
  "live_uid (s\<lparr>irq_map := x\<rparr>) u = live_uid s u" "table_ok (s\<lparr>irq_map := x\<rparr>) = table_ok s"
  by (simp_all add: thread_at_def process_at_def message_at_def live_pid_def live_uid_def table_ok_def)

lemma table_isr_map [simp]:
  "thread_at (s\<lparr>isr_map := x\<rparr>) u = thread_at s u" "process_at (s\<lparr>isr_map := x\<rparr>) p = process_at s p"
  "message_at (s\<lparr>isr_map := x\<rparr>) p i = message_at s p i" "live_pid (s\<lparr>isr_map := x\<rparr>) p = live_pid s p"
  "live_uid (s\<lparr>isr_map := x\<rparr>) u = live_uid s u" "table_ok (s\<lparr>isr_map := x\<rparr>) = table_ok s"
  by (simp_all add: thread_at_def process_at_def message_at_def live_pid_def live_uid_def table_ok_def)

end
