(* ===== verification/Virtual.thy ===== *)
theory Virtual
  imports Proc_Table
begin

text \<open>
  \<open>kernel/core/memory/virtual.c\<close>: mapping, unmapping, allocating and sharing ranges of
  an address space.  Every operation is a loop over the pages of the range that works on
  the memory part of the kernel state.
\<close>

definition get_dir :: "kstate \<Rightarrow> pid_t \<Rightarrow> (u32 \<times> u32) option" where
  "get_dir s pid =
     (if pid \<noteq> 0 then do {
        proc \<leftarrow> the_process s pid;
        Some (PAGING_FLAG_WRITE OR PAGING_FLAG_USER, addr_space proc)
      }
      else Some (PAGING_FLAG_WRITE, 0))"

definition virtual_map_pages :: "u32 \<Rightarrow> u32 \<Rightarrow> u32 \<Rightarrow> u32 \<Rightarrow> u32 \<Rightarrow> kmem \<Rightarrow> kmem option" where
  "virtual_map_pages pas virt phys sz flags k = do {
     phys \<leftarrow> addr_align phys ARCH_PGSIZE;
     cur \<leftarrow> addr_align virt ARCH_PGSIZE;
     (phys, k) \<leftarrow> page_loop (\<lambda>cur (phys, k). do {
         (b, k) \<leftarrow> paging_map k pas cur phys flags;
         Some (phys + ARCH_PGSIZE, k)
       }) cur (virt + sz) (phys, k);
     Some k
   }"

definition virtual_map :: "kstate \<Rightarrow> pid_t \<Rightarrow> u32 \<Rightarrow> u32 \<Rightarrow> u32 \<Rightarrow> kstate option" where
  "virtual_map s pid virt phys sz = do {
     dassert (sz \<noteq> 0);
     (flags, pas) \<leftarrow> get_dir s pid;
     k \<leftarrow> virtual_map_pages pas virt phys sz flags (km s);
     Some (s\<lparr>km := k\<rparr>)
   }"

definition virtual_unmap :: "kstate \<Rightarrow> pid_t \<Rightarrow> u32 \<Rightarrow> u32 \<Rightarrow> kstate option" where
  "virtual_unmap s pid virt sz = do {
     dassert (sz \<noteq> 0);
     (flags, pas) \<leftarrow> get_dir s pid;
     cur \<leftarrow> addr_align virt ARCH_PGSIZE;
     k \<leftarrow> page_loop (\<lambda>cur k. paging_unmap k pas cur) cur (virt + sz) (km s);
     Some (s\<lparr>km := k\<rparr>)
   }"

text \<open>The loop of \<open>virtual_is_mapped\<close>, which leaves early on a mixed range.\<close>

partial_function (option) is_mapped_loop :: "u32 \<Rightarrow> bool \<Rightarrow> u32 \<Rightarrow> u32 \<Rightarrow> kmem \<Rightarrow> (int \<times> kmem) option" where
  "is_mapped_loop pas st cur e k =
     (if cur < e then do {
        (temp, k) \<leftarrow> paging_is_mapped k pas cur;
        if temp \<noteq> st then Some (-1, k) else is_mapped_loop pas st (cur + ARCH_PGSIZE) e k
      }
      else Some (if st then 1 else 0, k))"

definition virtual_is_mapped_pages :: "u32 \<Rightarrow> u32 \<Rightarrow> u32 \<Rightarrow> kmem \<Rightarrow> (int \<times> kmem) option" where
  "virtual_is_mapped_pages pas virt sz k = do {
     cur \<leftarrow> addr_align virt ARCH_PGSIZE;
     (st, k) \<leftarrow> paging_is_mapped k pas cur;
     is_mapped_loop pas st (cur + ARCH_PGSIZE) (virt + sz) k
   }"

definition virtual_is_mapped :: "kstate \<Rightarrow> pid_t \<Rightarrow> u32 \<Rightarrow> u32 \<Rightarrow> (int \<times> kstate) option" where
  "virtual_is_mapped s pid virt sz = do {
     dassert (sz \<noteq> 0);
     (flags, pas) \<leftarrow> get_dir s pid;
     (r, k) \<leftarrow> virtual_is_mapped_pages pas virt sz (km s);
     Some (r, s\<lparr>km := k\<rparr>)
   }"

text \<open>
  One page of \<open>virtual_alloc\<close>.  The length of the \<open>memset\<close> is the rest of the page:
  the local \<open>size\<close> the source computes for it is never used.
\<close>

definition virtual_alloc_page :: "u32 \<Rightarrow> u32 \<Rightarrow> u32 \<Rightarrow> u32 \<Rightarrow> kmem \<Rightarrow> kmem option" where
  "virtual_alloc_page pas flags virt cur k = do {
     (m, k) \<leftarrow> paging_is_mapped k pas cur;
     k \<leftarrow> (if m then Some k
           else do {
             (block, k) \<leftarrow> kmem_alloc k;
             (b, k) \<leftarrow> paging_map k pas cur block flags;
             Some k
           });
     let diff = max_size cur virt - cur;
     (phys, k) \<leftarrow> paging_mapping_get k pas cur;
     (va, k) \<leftarrow> paging_map_temp k (phys + diff);
     temp_memset k va 0 (unat (ARCH_PGSIZE - diff))
   }"

definition virtual_alloc :: "kstate \<Rightarrow> pid_t \<Rightarrow> u32 \<Rightarrow> u32 \<Rightarrow> kstate option" where
  "virtual_alloc s pid virt sz = do {
     dassert (sz \<noteq> 0);
     (flags, pas) \<leftarrow> get_dir s pid;
     cur \<leftarrow> addr_align virt ARCH_PGSIZE;
     k \<leftarrow> page_loop (virtual_alloc_page pas flags virt) cur (virt + sz) (km s);
     Some (s\<lparr>km := k\<rparr>)
   }"

definition SPROT_WRITE :: u8 where "SPROT_WRITE = 1"

definition virtual_share_pages :: "u32 \<Rightarrow> u32 \<Rightarrow> u32 \<Rightarrow> u32 \<Rightarrow> u32 \<Rightarrow> u32 \<Rightarrow> kmem \<Rightarrow> kmem option" where
  "virtual_share_pages pas_dest pas_src to from sz flags k = do {
     cur \<leftarrow> addr_align from ARCH_PGSIZE;
     target \<leftarrow> addr_align to ARCH_PGSIZE;
     (target, k) \<leftarrow> page_loop (\<lambda>cur (target, k). do {
         (ms, k) \<leftarrow> paging_is_mapped k pas_src cur;
         k \<leftarrow> (if \<not> ms then Some k
               else do {
                 (md, k) \<leftarrow> paging_is_mapped k pas_dest target;
                 if md then Some k
                 else do {
                   (block, k) \<leftarrow> paging_mapping_get k pas_src cur;
                   k \<leftarrow> kmem_retain k block;
                   (b, k) \<leftarrow> paging_map k pas_dest target block flags;
                   Some k
                 }
               });
         Some (target + ARCH_PGSIZE, k)
       }) cur (from + sz) (target, k);
     Some k
   }"

definition virtual_share ::
    "kstate \<Rightarrow> pid_t \<Rightarrow> pid_t \<Rightarrow> u32 \<Rightarrow> u32 \<Rightarrow> u32 \<Rightarrow> u8 \<Rightarrow> kstate option" where
  "virtual_share s dest src to from sz mode = do {
     pdest \<leftarrow> the_process s dest;
     psrc \<leftarrow> the_process s src;
     dassert (sz \<noteq> 0);
     let flags = (if mode AND SPROT_WRITE \<noteq> 0 then PAGING_FLAG_USER OR PAGING_FLAG_WRITE else PAGING_FLAG_USER);
     k \<leftarrow> virtual_share_pages (addr_space pdest) (addr_space psrc) to from sz flags (km s);
     Some (s\<lparr>km := k\<rparr>)
   }"

subsection \<open>Page ranges\<close>

text \<open>The pages the loop over a range visits, when the range ends below the last page.\<close>

definition page_count :: "u32 \<Rightarrow> u32 \<Rightarrow> nat" where
  "page_count cur e = (unat e - unat cur + 4095) div 4096"

definition page_seq :: "u32 \<Rightarrow> u32 \<Rightarrow> u32 list" where
  "page_seq cur e = map (\<lambda>i. cur + 4096 * of_nat i) [0..<page_count cur e]"

lemma page_count_0: "\<not> cur < e \<Longrightarrow> page_count cur e = 0"
  by (simp add: page_count_def word_less_nat_alt)

lemma page_seq_step:
  assumes "cur < e" and "unat e \<le> 0xFFFFF000"
  shows "page_count cur e = Suc (page_count (cur + 4096) e)" and "page_seq cur e = cur # page_seq (cur + 4096) e"
proof -
  have "unat (cur + 4096) = unat cur + 4096" using assms by (simp add: word_less_nat_alt unat_word_ariths)
  moreover have "(a + 4095) div 4096 = Suc ((a - 4096 + 4095) div 4096)" if "0 < a" for a :: nat
  proof (cases "4096 \<le> a")
    case True
    then obtain c where "a = c + 4096" by (metis le_add_diff_inverse2)
    then show ?thesis by simp
  next
    case False
    then have "a - 4096 = 0" "(a + 4095) div 4096 = 1" using that by auto
    then show ?thesis by simp
  qed
  moreover have "unat e - (unat cur + 4096) = unat e - unat cur - 4096" by simp
  ultimately show c: "page_count cur e = Suc (page_count (cur + 4096) e)"
    using assms(1) unfolding page_count_def word_less_nat_alt by (metis zero_less_diff)
  have "map (\<lambda>i. cur + 4096 * of_nat i) [0..<Suc n] = cur # map (\<lambda>i. cur + 4096 + 4096 * of_nat i) [0..<n]" for n
    by (subst upt_conv_Cons) (auto simp: map_Suc_upt [symmetric] algebra_simps simp del: upt_Suc)
  then show "page_seq cur e = cur # page_seq (cur + 4096) e" unfolding page_seq_def c .
qed

lemma page_loop_seq:
  assumes "unat e \<le> 0xFFFFF000"
  shows "page_loop body cur e s = for_each (page_seq cur e) body s"
proof (induction "page_count cur e" arbitrary: cur s)
  case 0
  then have "\<not> cur < e" using page_seq_step(1) [OF _ assms] by auto
  then show ?case by (subst page_loop.simps) (simp add: page_seq_def page_count_0)
next
  case (Suc n)
  then have c: "cur < e" using page_count_0 by fastforce
  with Suc page_seq_step [OF c assms] show ?case
    by (subst page_loop.simps) (auto intro!: Option.bind_cong)
qed

lemma page_seq_nth: "i < page_count cur e \<Longrightarrow> page_seq cur e ! i = cur + 4096 * of_nat i"
  by (simp add: page_seq_def)

lemma length_page_seq [simp]: "length (page_seq cur e) = page_count cur e"
  by (simp add: page_seq_def)

subsection \<open>Checking a range\<close>

lemma page_seq_aligned: "page_aligned cur \<Longrightarrow> p \<in> set (page_seq cur e) \<Longrightarrow> page_aligned p"
proof -
  assume a: "page_aligned cur" "p \<in> set (page_seq cur e)"
  have "page_aligned (4096 * of_nat i)" for i
    using page_aligned_push(1) [of "of_nat i"] by (simp add: push_bit_eq_mult mult.commute)
  then show ?thesis using a page_aligned_plus by (auto simp: page_seq_def)
qed

lemma page_aligned_step: "page_aligned a \<Longrightarrow> page_aligned (a + 4096)"
  using page_aligned_plus [of a 4096] by (simp add: page_aligned_def)

lemma is_mapped_loop_spec:
  assumes "page_aligned pas" and "pas \<noteq> 0" and "tempmap_addr k \<noteq> 0" and "unat e \<le> 0xFFFFF000" and "page_aligned cur"
  shows "\<exists>q. is_mapped_loop pas st cur e (window k p) =
    Some (if \<forall>v \<in> set (page_seq cur e). (walk (mem k) pas v \<noteq> None) = st then (if st then 1 else 0) else -1, window k q)"
  using assms(5)
proof (induction "page_count cur e" arbitrary: cur p)
  case 0
  then have "\<not> cur < e" using page_seq_step(1) [OF _ assms(4)] by auto
  then show ?case by (subst is_mapped_loop.simps) (auto simp: page_seq_def page_count_0)
next
  case (Suc n)
  then have c: "cur < e" using page_count_0 by fastforce
  obtain q where q: "paging_is_mapped (window k p) pas cur = Some (walk (mem k) pas cur \<noteq> None, window k q)"
    using paging_is_mapped_walk [OF assms(1,2) _ Suc.prems, of "window k p"] assms(3) by auto
  have "page_aligned (cur + 4096)" by (rule page_aligned_step [OF Suc.prems])
  then obtain r where "is_mapped_loop pas st (cur + 4096) e (window k q) =
    Some (if \<forall>v \<in> set (page_seq (cur + 4096) e). (walk (mem k) pas v \<noteq> None) = st then (if st then 1 else 0) else -1, window k r)"
    using Suc.hyps(1) [of "cur + 4096" q] Suc.hyps(2) page_seq_step(1) [OF c assms(4)] by auto
  then show ?case
    using c q page_seq_step(2) [OF c assms(4)] by (subst is_mapped_loop.simps) auto
qed

text \<open>The pages of a range of \<open>sz\<close> bytes at \<open>virt\<close>.\<close>

definition range_pages :: "u32 \<Rightarrow> u32 \<Rightarrow> u32 list" where
  "range_pages virt sz = page_seq (page_align virt) (virt + sz)"

lemma range_no_wrap:
  "unat virt + unat sz \<le> 0xFFFFF000 \<Longrightarrow> unat (virt + sz) = unat virt + unat (sz::u32)"
  by (simp add: unat_word_ariths)

lemma page_align_less_end:
  assumes "sz \<noteq> 0" and "unat virt + unat sz \<le> 0xFFFFF000"
  shows "page_align virt < virt + sz"
proof -
  have "0 < unat sz" using assms(1) by (simp add: unat_gt_0)
  then show ?thesis
    unfolding word_less_nat_alt range_no_wrap [OF assms(2)] using page_align_le [of virt] by linarith
qed

lemma range_pages_Cons:
  assumes "sz \<noteq> 0" and "unat virt + unat sz \<le> 0xFFFFF000"
  shows "range_pages virt sz = page_align virt # page_seq (page_align virt + 4096) (virt + sz)"
  unfolding range_pages_def
  by (rule page_seq_step(2) [OF page_align_less_end [OF assms]]) (simp add: range_no_wrap assms)

lemma virtual_is_mapped_pages_spec:
  assumes "page_aligned pas" and "pas \<noteq> 0" and "tempmap_addr k \<noteq> 0" and "sz \<noteq> 0"
    and "unat virt + unat sz \<le> 0xFFFFF000"
  shows "\<exists>r q. virtual_is_mapped_pages pas virt sz k = Some (r, window k q) \<and> r \<in> {-1, 0, 1} \<and>
    (r = 1 \<longleftrightarrow> (\<forall>v \<in> set (range_pages virt sz). walk (mem k) pas v \<noteq> None)) \<and>
    (r = 0 \<longleftrightarrow> (\<forall>v \<in> set (range_pages virt sz). walk (mem k) pas v = None))"
proof -
  let ?cur = "page_align virt" and ?e = "virt + sz"
  have e: "unat ?e \<le> 0xFFFFF000" using range_no_wrap [OF assms(5)] assms(5) by simp
  obtain p where p: "paging_is_mapped k pas ?cur = Some (walk (mem k) pas ?cur \<noteq> None, window k p)"
    using paging_is_mapped_walk [OF assms(1-3) page_aligned_align] by blast
  have al: "page_aligned (?cur + 4096)" by (rule page_aligned_step) simp
  obtain q where "is_mapped_loop pas (walk (mem k) pas ?cur \<noteq> None) (?cur + 4096) ?e (window k p) =
    Some (if \<forall>v \<in> set (page_seq (?cur + 4096) ?e). (walk (mem k) pas v \<noteq> None) = (walk (mem k) pas ?cur \<noteq> None)
          then (if walk (mem k) pas ?cur \<noteq> None then 1 else 0) else -1, window k q)"
    using is_mapped_loop_spec [OF assms(1-3) e al] by blast
  with p have run: "virtual_is_mapped_pages pas virt sz k =
    Some (if \<forall>v \<in> set (page_seq (?cur + 4096) ?e). (walk (mem k) pas v \<noteq> None) = (walk (mem k) pas ?cur \<noteq> None)
          then (if walk (mem k) pas ?cur \<noteq> None then 1 else 0) else -1, window k q)"
    by (simp add: virtual_is_mapped_pages_def)
  show ?thesis unfolding range_pages_Cons [OF assms(4,5)] run by (auto split: if_splits)
qed

subsection \<open>Allocating a range\<close>

lemma pas_frames_outside:
  assumes "same_outside P m m'" and "P \<inter> pas_frames m dir = {}" and "page_aligned dir"
  shows "(i < 1024 \<longrightarrow> ent m' dir i = ent m dir i) \<and> pas_frames m' dir = pas_frames m dir \<and>
         (dir_index v < 1023 \<longrightarrow> walk m' dir v = walk m dir v)"
proof -
  have d: "dir \<notin> P" using assms(2) by (auto simp: pas_frames_def)
  have e: "ent m' dir j = ent m dir j" if "j < 1024" for j
    using same_outside_ent [OF assms(1,3) d that] .
  have "ent m' (table_of m dir j) k = ent m (table_of m dir j) k"
    if "j < 1023" "ent_present (ent m dir j)" "k < 1024" for j k
    by (rule same_outside_ent [OF assms(1)]) (use assms(2) that in \<open>auto simp: pas_frames_def\<close>)
  moreover have "pas_frames m' dir = pas_frames m dir"
    unfolding pas_frames_def table_of_def
    by (intro arg_cong [where f = "insert dir"] Collect_cong ex_cong1) (use e in auto)
  ultimately show ?thesis
    using e by (auto simp: walk_def table_of_def)
qed

text \<open>Growing the allocator keeps an address space.\<close>

lemma pas_inv_alloc:
  assumes "kmem_ok k" and "pas_inv k dir" and "physical_alloc (phys_st k) = Some (f, ph)"
  shows "kmem_ok (k\<lparr>phys_st := ph\<rparr>) \<and> pas_inv (k\<lparr>phys_st := ph\<rparr>) dir \<and> page_aligned f \<and>
    f \<notin> pas_frames (mem k) dir \<and> frame_count (phys_st k) f = 0 \<and>
    frame_count ph = (frame_count (phys_st k))(f := 1)"
  using frames_of.alloc_fresh [OF _ assms(3)] assms(1,2)
  by (auto simp: kmem_ok_def pas_inv_def pas_frames_def)

lemma pas_frames_maps_in:
  assumes "maps_in k dir virt T k'"
  shows "pas_frames (mem k') dir \<subseteq> insert T (pas_frames (mem k) dir)"
proof
  fix a assume "a \<in> pas_frames (mem k') dir"
  then consider "a = dir" | i where "i < 1023" "ent_present (ent (mem k') dir i)" "a = table_of (mem k') dir i"
    by (auto simp: pas_frames_def)
  then show "a \<in> insert T (pas_frames (mem k) dir)"
  proof cases
    case (2 i)
    then show ?thesis
      using assms by (cases "i = dir_index virt") (auto simp: maps_in_def pas_frames_def table_of_def)
  qed (simp add: pas_frames_def)
qed

definition zero_page :: "memory \<Rightarrow> u32 \<Rightarrow> bool" where
  "zero_page m p \<longleftrightarrow> (\<forall>a. page_align a = p \<longrightarrow> m a = 0)"

lemma zero_page_memset: "page_aligned p \<Longrightarrow> zero_page (memset_mem m p 0 4096) p"
proof -
  have "unat (a - p) < 4096" if "page_align a = p" for a
  proof -
    have "a - p = of_nat (unat a mod 4096)" using page_of_offset [of a] that by (metis add_diff_cancel_left')
    then show ?thesis by (simp add: unat_of_nat)
  qed
  then show ?thesis by (simp add: zero_page_def memset_mem_def)
qed

lemma zero_page_outside: "same_outside P m m' \<Longrightarrow> p \<notin> P \<Longrightarrow> zero_page m p \<Longrightarrow> zero_page m' p"
  by (auto simp: zero_page_def same_outside_def)

text \<open>The step from \<open>k\<close> to \<open>k'\<close> maps page \<open>cur\<close> to the fresh zeroed frame \<open>f\<close>, with table \<open>T\<close>.\<close>

definition page_alloced :: "kmem \<Rightarrow> u32 \<Rightarrow> u32 \<Rightarrow> u32 \<Rightarrow> u32 \<Rightarrow> u32 \<Rightarrow> kmem \<Rightarrow> bool" where
  "page_alloced k dir flags cur f T k' \<longleftrightarrow> kmem_ok k' \<and> pas_inv k' dir \<and> page_aligned f \<and>
    frame_count (phys_st k) f = 0 \<and> 0 < frame_count (phys_st k') f \<and>
    (\<forall>a. 0 < frame_count (phys_st k) a \<longrightarrow> 0 < frame_count (phys_st k') a) \<and>
    f \<notin> pas_frames (mem k') dir \<and> T \<noteq> f \<and> (T \<in> pas_frames (mem k) dir \<or> frame_count (phys_st k) T = 0) \<and>
    pas_frames (mem k') dir \<subseteq> insert T (pas_frames (mem k) dir) \<and>
    same_outside {dir, T, f} (mem k) (mem k') \<and> zero_page (mem k') f \<and>
    walk (mem k') dir cur = Some (ent_make (flag flags 1) (flag flags 2) f) \<and>
    covered (mem k') dir cur \<and> dir_grows (mem k) dir (mem k') \<and>
    (\<forall>v. dir_index v < 1023 \<longrightarrow> page_align v \<noteq> cur \<longrightarrow> walk (mem k') dir v = walk (mem k) dir v) \<and>
    kernel_dir k' = kernel_dir k \<and> tempmap_addr k' = tempmap_addr k \<and> region_st k' = region_st k"

text \<open>A page of \<open>virtual_alloc\<close> that was not mapped: it gets a fresh zeroed frame.\<close>

lemma virtual_alloc_page_new:
  assumes "kmem_ok k" and "pas_inv k dir" and "page_aligned cur" and "dir_index cur < 1023"
    and "virt \<le> cur" and "walk (mem k) dir cur = None"
    and "virtual_alloc_page dir flags virt cur k = Some k'"
  shows "\<exists>f T. page_alloced k dir flags cur f T k'"
proof -
  have d: "page_aligned dir" "dir \<noteq> 0" "tempmap_addr k \<noteq> 0" using assms by (auto simp: pas_inv_def kmem_ok_def)
  obtain p where p: "paging_is_mapped k dir cur = Some (False, window k p)"
    using paging_is_mapped_walk [OF d assms(3)] assms(6) by auto
  have diff: "max_size cur virt - cur = 0" using assms(5) by (auto simp: max_size_def)
  obtain f k1 b k2 where al: "kmem_alloc (window k p) = Some (f, k1)" and mp: "paging_map k1 dir cur f flags = Some (b, k2)"
    and rest: "do { (phys, k) \<leftarrow> paging_mapping_get k2 dir cur; (va, k) \<leftarrow> paging_map_temp k phys; temp_memset k va 0 4096 } = Some k'"
    using assms(7) p diff by (auto simp: virtual_alloc_page_def Let_def bind_eq_Some_conv)
  obtain ph where ph: "physical_alloc (phys_st k) = Some (f, ph)" "k1 = (window k p)\<lparr>phys_st := ph\<rparr>"
    using al by (auto simp: kmem_alloc_Some)
  have f: "page_aligned f" "f \<notin> pas_frames (mem k) dir" "frame_count (phys_st k) f = 0"
    "frame_count ph = (frame_count (phys_st k))(f := 1)"
    and k1: "kmem_ok k1" "pas_inv k1 dir" "mem k1 = mem k" "phys_st k1 = ph"
    using pas_inv_alloc [OF assms(1,2) ph(1)] ph(2) by (auto simp: kmem_ok_def pas_inv_def)
  have w1: "walk (mem k1) dir cur = None" using k1(3) assms(6) by simp
  obtain T where T: "maps_in k1 dir cur T k2" using paging_map_maps_in [OF k1(1,2) assms(3) f(1) assms(4) mp] by blast
  have w2: "kmem_ok k2" "pas_inv k2 dir" "walk (mem k2) dir cur = Some (ent_make (flag flags 1) (flag flags 2) f)"
    "\<And>v. dir_index v < 1023 \<Longrightarrow> page_align v \<noteq> cur \<Longrightarrow> walk (mem k2) dir v = walk (mem k) dir v"
    "covered (mem k2) dir cur" "dir_grows (mem k) dir (mem k2)"
    using paging_map_walk [OF k1(1,2) assms(3) f(1) assms(4) mp] w1 k1(3) assms(3)
    by (auto simp: page_align_fixed)
  have Tn: "T \<noteq> f" "T \<in> pas_frames (mem k) dir \<or> frame_count (phys_st k) T = 0"
    "\<And>a. 0 < frame_count ph a \<Longrightarrow> 0 < frame_count (phys_st k2) a"
  proof -
    show "0 < frame_count ph a \<Longrightarrow> 0 < frame_count (phys_st k2) a" for a
      using maps_in_table_neq_dir [OF k1(1,2) assms(4) T] k1(4) by auto
    have "T \<noteq> f \<and> (T \<in> pas_frames (mem k) dir \<or> frame_count (phys_st k) T = 0)"
    proof (cases "ent_present (ent (mem k1) dir (dir_index cur))")
      case True
      then have "T \<in> pas_frames (mem k) dir" using T k1(3) assms(4) by (auto simp: maps_in_def pas_frames_def)
      then show ?thesis using f(2) by auto
    next
      case False
      then have "physical_alloc ph = Some (T, phys_st k2)" using T k1(4) by (simp add: maps_in_def)
      from frames_of.alloc_fresh [OF _ this] k1 f(4) show ?thesis by (auto simp: kmem_ok_def split: if_splits)
    qed
    then show "T \<noteq> f" "T \<in> pas_frames (mem k) dir \<or> frame_count (phys_st k) T = 0" by auto
  qed
  have fr: "pas_frames (mem k2) dir \<subseteq> insert T (pas_frames (mem k) dir)" "f \<notin> pas_frames (mem k2) dir"
    using pas_frames_maps_in [OF T] k1(3) f(2) Tn(1) by auto
  have tm: "tempmap_addr k2 = tempmap_addr k" "kernel_dir k2 = kernel_dir k" "region_st k2 = region_st k"
    using T ph(2) by (simp_all add: maps_in_def)
  obtain q where "paging_mapping_get k2 dir cur = Some (f, window k2 q)"
    using paging_mapping_get_walk [OF d(1,2) _ assms(3), of k2] tm(1) d(3) w2(3) f(1) by auto
  then have k': "k' = (window k2 f)\<lparr>mem := memset_mem (mem k2) f 0 4096\<rparr>"
    using rest f(1) d(3) tm(1) temp_memset_window [OF f(1), of k2 0] by (simp add: paging_map_temp_aligned)
  have out2: "same_outside {f} (mem k2) (mem k')" using same_outside_memset [OF f(1)] by (simp add: k')
  note o = pas_frames_outside [OF out2 _ d(1)]
  have "pas_inv k' dir"
    by (rule pas_inv_cong [OF w2(2)]) (use o fr(2) w2(2) in \<open>auto simp: k' pas_frames_def pas_inv_def\<close>)
  moreover have "same_outside {dir, T, f} (mem k) (mem k')"
    using T out2 k1(3) by (auto simp: maps_in_def same_outside_def)
  moreover have "zero_page (mem k') f" using zero_page_memset [OF f(1)] by (simp add: k')
  moreover have "kmem_ok k'" using w2(1) by (simp add: k' kmem_ok_def)
  moreover have dk: "ent (mem k') dir i = ent (mem k2) dir i" if "i < 1024" for i
    using same_outside_ent [OF out2 d(1) _ that] fr(2) by (auto simp: pas_frames_def)
  then have "dir_grows (mem k) dir (mem k')" using dir_grows_trans [OF w2(6) dir_grows_same] by simp
  moreover have "covered (mem k') dir cur"
    using covered_grows [OF dir_grows_same assms(4) _ w2(5)] dk o fr(2) w2(3) assms(4) by simp
  ultimately show ?thesis
    using o fr w2 Tn f tm assms(4)
    unfolding page_alloced_def by (intro exI [of _ f] exI [of _ T]) (auto simp: k')
qed

text \<open>The state of the loop of \<open>virtual_alloc\<close> after its first pages \<open>ps\<close>.\<close>

definition allocated :: "kmem \<Rightarrow> u32 \<Rightarrow> u32 \<Rightarrow> u32 list \<Rightarrow> kmem \<Rightarrow> bool" where
  "allocated k dir flags ps k' \<longleftrightarrow> kmem_ok k' \<and> pas_inv k' dir \<and>
     (\<forall>a. 0 < frame_count (phys_st k) a \<longrightarrow> 0 < frame_count (phys_st k') a) \<and>
     (\<exists>F. inj_on F (set ps) \<and> (\<forall>v \<in> set ps. page_aligned (F v) \<and> frame_count (phys_st k) (F v) = 0 \<and>
        0 < frame_count (phys_st k') (F v) \<and> F v \<notin> pas_frames (mem k') dir \<and> zero_page (mem k') (F v) \<and>
        walk (mem k') dir v = Some (ent_make (flag flags 1) (flag flags 2) (F v)) \<and>
        translate (mem k') dir v = Some (F v, flag flags 1, flag flags 2))) \<and>
     dir_grows (mem k) dir (mem k') \<and>
     (\<forall>v. dir_index v < 1023 \<longrightarrow> page_align v \<notin> set ps \<longrightarrow> walk (mem k') dir v = walk (mem k) dir v \<and>
        (covered (mem k) dir v \<longrightarrow> covered (mem k') dir v \<and> translate (mem k') dir v = translate (mem k) dir v))"

lemma allocated_step:
  assumes A: "allocated k dir flags ps k1" and k: "kmem_ok k" "pas_inv k dir"
    and c: "page_aligned cur" "dir_index cur < 1023" "virt \<le> cur" "walk (mem k) dir cur = None" "cur \<notin> set ps"
    and ps: "\<And>v. v \<in> set ps \<Longrightarrow> page_aligned v \<and> dir_index v < 1023"
    and run: "virtual_alloc_page dir flags virt cur k1 = Some k2"
  shows "allocated k dir flags (ps @ [cur]) k2"
proof -
  have k1: "kmem_ok k1" "pas_inv k1 dir" "\<And>a. 0 < frame_count (phys_st k) a \<Longrightarrow> 0 < frame_count (phys_st k1) a"
    "\<And>v. dir_index v < 1023 \<Longrightarrow> page_align v \<notin> set ps \<Longrightarrow> walk (mem k1) dir v = walk (mem k) dir v"
    "dir_grows (mem k) dir (mem k1)"
    using A by (auto simp: allocated_def)
  obtain F where F: "inj_on F (set ps)" "\<And>v. v \<in> set ps \<Longrightarrow> page_aligned (F v) \<and> frame_count (phys_st k) (F v) = 0 \<and>
        0 < frame_count (phys_st k1) (F v) \<and> F v \<notin> pas_frames (mem k1) dir \<and> zero_page (mem k1) (F v) \<and>
        walk (mem k1) dir v = Some (ent_make (flag flags 1) (flag flags 2) (F v)) \<and>
        translate (mem k1) dir v = Some (F v, flag flags 1, flag flags 2)"
    using A unfolding allocated_def by blast
  have pc: "page_align cur = cur" using c(1) by (simp add: page_align_fixed)
  have "walk (mem k1) dir cur = None" using k1(4) [OF c(2)] c(4,5) pc by simp
  from virtual_alloc_page_new [OF k1(1,2) c(1-3) this run] obtain f T where P: "page_alloced k1 dir flags cur f T k2"
    by blast
  then have f: "kmem_ok k2" "pas_inv k2 dir" "page_aligned f" "frame_count (phys_st k1) f = 0" "0 < frame_count (phys_st k2) f"
    "\<And>a. 0 < frame_count (phys_st k1) a \<Longrightarrow> 0 < frame_count (phys_st k2) a"
    "f \<notin> pas_frames (mem k2) dir" "T \<noteq> f" "T \<in> pas_frames (mem k1) dir \<or> frame_count (phys_st k1) T = 0"
    "pas_frames (mem k2) dir \<subseteq> insert T (pas_frames (mem k1) dir)"
    "same_outside {dir, T, f} (mem k1) (mem k2)" "zero_page (mem k2) f"
    "walk (mem k2) dir cur = Some (ent_make (flag flags 1) (flag flags 2) f)"
    "\<And>v. dir_index v < 1023 \<Longrightarrow> page_align v \<noteq> cur \<Longrightarrow> walk (mem k2) dir v = walk (mem k1) dir v"
    "covered (mem k2) dir cur" "dir_grows (mem k1) dir (mem k2)"
    unfolding page_alloced_def by simp_all
  let ?F = "F(cur := f)"
  have old: "F v \<noteq> f \<and> F v \<noteq> T \<and> F v \<noteq> dir" if "v \<in> set ps" for v
    using F(2) [OF that] f(4,9) by (auto simp: pas_frames_def)
  have new: "page_aligned (?F v) \<and> frame_count (phys_st k) (?F v) = 0 \<and> 0 < frame_count (phys_st k2) (?F v) \<and>
      ?F v \<notin> pas_frames (mem k2) dir \<and> zero_page (mem k2) (?F v) \<and>
      walk (mem k2) dir v = Some (ent_make (flag flags 1) (flag flags 2) (?F v)) \<and>
      translate (mem k2) dir v = Some (?F v, flag flags 1, flag flags 2)"
    if v: "v \<in> set (ps @ [cur])" for v
  proof (cases "v = cur")
    case True
    have "translate (mem k2) dir cur = Some (f, flag flags 1, flag flags 2)"
      using translate_make [OF f(13)] f(3,15) by simp
    then show ?thesis using True f(3,5,7,12,13) k1(3) [of f] f(4) by auto
  next
    case False
    then have v: "v \<in> set ps" using v by simp
    then have pv: "page_align v = v" "dir_index v < 1023" using ps [OF v] by (simp_all add: page_align_fixed)
    then have w: "walk (mem k2) dir v = walk (mem k1) dir v" using f(14) False by simp
    have "covered (mem k1) dir v" using F(2) [OF v] translate_make [of "mem k1" dir v] by simp
    with covered_grows [OF f(16) pv(2) w] F(2) [OF v]
    have "translate (mem k2) dir v = Some (F v, flag flags 1, flag flags 2)" by simp
    then show ?thesis
      using w F(2) [OF v] old [OF v] f(6,10) False zero_page_outside [OF f(11), of "F v"] by auto
  qed
  have inj: "inj_on ?F (set (ps @ [cur]))"
    using F(1) old c(5) by (auto simp: inj_on_def)
  have ex: "\<exists>G. inj_on G (set (ps @ [cur])) \<and> (\<forall>v \<in> set (ps @ [cur]). page_aligned (G v) \<and>
      frame_count (phys_st k) (G v) = 0 \<and> 0 < frame_count (phys_st k2) (G v) \<and>
      G v \<notin> pas_frames (mem k2) dir \<and> zero_page (mem k2) (G v) \<and>
      walk (mem k2) dir v = Some (ent_make (flag flags 1) (flag flags 2) (G v)) \<and>
      translate (mem k2) dir v = Some (G v, flag flags 1, flag flags 2))"
    by (rule exI [of _ ?F]) (intro conjI [OF inj] ballI new)
  note grows = dir_grows_trans [OF k1(5) f(16)]
  have rest: "walk (mem k2) dir v = walk (mem k) dir v" if "dir_index v < 1023" "page_align v \<notin> set (ps @ [cur])" for v
    using f(14) k1(4) that by simp
  show ?thesis
    unfolding allocated_def by (intro conjI f(1,2) ex grows allI impI) (use f(6) k1(3) rest covered_grows [OF grows] in auto)
qed

lemma allocated_run:
  assumes k: "kmem_ok k" "pas_inv k dir"
    and qs: "distinct qs" "\<And>v. v \<in> set qs \<Longrightarrow> page_aligned v \<and> dir_index v < 1023 \<and> virt \<le> v \<and> walk (mem k) dir v = None"
    and run: "for_each qs (virtual_alloc_page dir flags virt) k = Some k'"
  shows "allocated k dir flags qs k'"
proof -
  have gen: "allocated k dir flags (ps @ qs) k'"
    if "allocated k dir flags ps k1" "for_each qs (virtual_alloc_page dir flags virt) k1 = Some k'"
      "distinct (ps @ qs)" "\<And>v. v \<in> set (ps @ qs) \<Longrightarrow> page_aligned v \<and> dir_index v < 1023"
      "\<And>v. v \<in> set qs \<Longrightarrow> virt \<le> v \<and> walk (mem k) dir v = None" for ps k1
    using that
  proof (induction qs arbitrary: ps k1)
    case Nil
    then show ?case by simp
  next
    case (Cons q qs)
    then obtain k2 where k2: "virtual_alloc_page dir flags virt q k1 = Some k2"
      "for_each qs (virtual_alloc_page dir flags virt) k2 = Some k'"
      by (auto simp: bind_eq_Some_conv)
    have "allocated k dir flags (ps @ [q]) k2"
      by (rule allocated_step [OF Cons.prems(1) k _ _ _ _ _ _ k2(1)]) (use Cons.prems(3-5) in auto)
    from Cons.IH [OF this k2(2)] Cons.prems(3-5) show ?case by auto
  qed
  have "allocated k dir flags [] k" using k by (simp add: allocated_def)
  from gen [OF this run] qs show ?thesis by auto
qed

lemma page_seq_unat:
  assumes "page_aligned cur" and "unat e \<le> 0xFFFFF000" and "i < page_count cur e"
  shows "unat (cur + 4096 * of_nat i) = unat cur + 4096 * i" and "unat cur + 4096 * i < unat e"
proof -
  define d where "d = unat e - unat cur"
  have "i < (d + 4095) div 4096" using assms(3) by (simp add: page_count_def d_def)
  then have "4096 * i + 4096 \<le> 4096 * ((d + 4095) div 4096)" by simp
  also have "\<dots> \<le> d + 4095" by (rule times_div_less_eq_dividend)
  finally have "4096 * i < unat e - unat cur" by (simp add: d_def)
  then show "unat cur + 4096 * i < unat e" by (simp add: less_diff_conv)
  then show "unat (cur + 4096 * of_nat i) = unat cur + 4096 * i"
    using assms(2) by (simp add: unat_word_ariths unat_of_nat)
qed

lemma page_seq_props:
  assumes "page_aligned cur" and "unat e \<le> 0xFFFFF000"
  shows "distinct (page_seq cur e)"
    and "v \<in> set (page_seq cur e) \<Longrightarrow> page_aligned v \<and> unat cur \<le> unat v \<and> unat v < unat e"
proof -
  show "v \<in> set (page_seq cur e) \<Longrightarrow> page_aligned v \<and> unat cur \<le> unat v \<and> unat v < unat e"
    using page_seq_aligned [OF assms(1)] page_seq_unat [OF assms] by (auto simp: page_seq_def)
  have "inj_on (\<lambda>i. cur + 4096 * of_nat i) {0..<page_count cur e}"
  proof (rule inj_onI)
    fix i j assume i: "i \<in> {0..<page_count cur e}" and j: "j \<in> {0..<page_count cur e}"
      and "cur + 4096 * of_nat i = cur + 4096 * of_nat j"
    then have "unat (cur + 4096 * of_nat i) = unat (cur + 4096 * of_nat j)" by (simp only:)
    then have "unat cur + 4096 * i = unat cur + 4096 * j"
      using i j by (simp only: page_seq_unat(1) [OF assms] atLeastLessThan_iff)
    then show "i = j" by simp
  qed
  then show "distinct (page_seq cur e)" by (simp add: page_seq_def distinct_map)
qed

lemma range_pages_user:
  assumes "page_aligned virt" and "unat virt + unat sz \<le> 0xC0000000"
  shows "distinct (range_pages virt sz)"
    and "v \<in> set (range_pages virt sz) \<Longrightarrow> page_aligned v \<and> virt \<le> v \<and> dir_index v < 768"
proof -
  have e: "unat (virt + sz) = unat virt + unat sz" using range_no_wrap [of virt sz] assms(2) by simp
  have al: "page_align virt = virt" using assms(1) by (simp add: page_align_fixed)
  show "distinct (range_pages virt sz)"
    unfolding range_pages_def al by (rule page_seq_props(1) [OF assms(1)]) (use e assms(2) in simp)
  assume "v \<in> set (range_pages virt sz)"
  then have "page_aligned v" "unat virt \<le> unat v" "unat v < unat virt + unat sz"
    using page_seq_props(2) [OF assms(1), of "virt + sz" v] e assms(2) by (auto simp: range_pages_def al)
  then show "page_aligned v \<and> virt \<le> v \<and> dir_index v < 768"
    using assms(2) by (auto simp: word_le_nat_alt dir_index_nat div_less_iff_less_mult)
qed

lemma get_dir_user:
  "table_ok s \<Longrightarrow> live_pid s pid \<Longrightarrow> get_dir s pid = Some (3, addr_space (process_at s pid))"
  by (auto simp: get_dir_def the_process_ok live_pid_def)

theorem virtual_alloc_fresh:
  assumes "table_ok s" and "live_pid s pid" and "dir = addr_space (process_at s pid)"
    and "kmem_ok (km s)" and "pas_inv (km s) dir"
    and "page_aligned virt" and "unat virt + unat sz \<le> 0xC0000000"
    and "\<forall>v \<in> set (range_pages virt sz). walk (mem (km s)) dir v = None"
    and "virtual_alloc s pid virt sz = Some s'"
  shows "allocated (km s) dir 3 (range_pages virt sz) (km s') \<and> s' = s\<lparr>km := km s'\<rparr>"
proof -
  have e: "unat (virt + sz) \<le> 0xFFFFF000" using range_no_wrap [of virt sz] assms(7) by simp
  obtain k where k: "for_each (range_pages virt sz) (virtual_alloc_page dir 3 virt) (km s) = Some k" "s' = s\<lparr>km := k\<rparr>"
    using assms(9) get_dir_user [OF assms(1,2)] assms(3)
    by (auto simp: virtual_alloc_def bind_eq_Some_conv page_loop_seq [OF e] range_pages_def)
  have "allocated (km s) dir 3 (range_pages virt sz) k"
    by (rule allocated_run [OF assms(4,5) range_pages_user(1) [OF assms(6,7)] _ k(1)])
      (use range_pages_user(2) [OF assms(6,7)] assms(8) in fastforce)
  with k(2) show ?thesis by simp
qed

text \<open>The test that the system calls make of a user range.\<close>

lemma virtual_is_mapped_spec:
  assumes "table_ok s" and "live_pid s pid" and "dir = addr_space (process_at s pid)"
    and "tempmap_addr (km s) \<noteq> 0" and "page_aligned dir" "dir \<noteq> 0" and "sz \<noteq> 0"
    and "unat virt + unat sz \<le> 0xFFFFF000"
  shows "\<exists>r q. virtual_is_mapped s pid virt sz = Some (r, s\<lparr>km := window (km s) q\<rparr>) \<and> r \<in> {-1, 0, 1} \<and>
    (r = 1 \<longleftrightarrow> (\<forall>v \<in> set (range_pages virt sz). walk (mem (km s)) dir v \<noteq> None)) \<and>
    (r = 0 \<longleftrightarrow> (\<forall>v \<in> set (range_pages virt sz). walk (mem (km s)) dir v = None))"
proof -
  obtain r q where r: "virtual_is_mapped_pages dir virt sz (km s) = Some (r, window (km s) q)" and rest: "r \<in> {-1, 0, 1} \<and>
      (r = 1 \<longleftrightarrow> (\<forall>v \<in> set (range_pages virt sz). walk (mem (km s)) dir v \<noteq> None)) \<and>
      (r = 0 \<longleftrightarrow> (\<forall>v \<in> set (range_pages virt sz). walk (mem (km s)) dir v = None))"
    using virtual_is_mapped_pages_spec [OF assms(5,6,4,7,8)] by (elim exE conjE) (rule that, assumption, intro conjI, assumption+)
  have "virtual_is_mapped s pid virt sz = Some (r, s\<lparr>km := window (km s) q\<rparr>)"
    using r get_dir_user [OF assms(1,2)] assms(3,7) by (simp add: virtual_is_mapped_def)
  with rest show ?thesis by blast
qed

subsection \<open>Enough memory\<close>

text \<open>
  \<open>virtual_alloc\<close> needs a frame for every page and possibly one for its table; with that many free
  frames it returns.
\<close>

lemma paging_map_returns:
  assumes "kmem_ok k" and "pas_inv k dir" and "page_aligned virt" and "page_aligned phys" and "dir_index virt < 1023"
    and "phys_ready (phys_st k)" and "0 < free_frames (phys_st k)"
  shows "\<exists>b k'. paging_map k dir virt phys flags = Some (b, k') \<and> phys_ready (phys_st k') \<and>
    free_frames (phys_st k) \<le> Suc (free_frames (phys_st k'))"
proof (cases "ent_present (ent (mem k) dir (dir_index virt))")
  case True
  then show ?thesis using paging_map_present [OF assms(1-5) True, of flags] assms(6) by auto
next
  case False
  obtain T ph where al: "physical_alloc (phys_st k) = Some (T, ph)" "phys_ready ph" "Suc (free_frames ph) = free_frames (phys_st k)"
    using physical_alloc_returns [OF assms(6,7)] by blast
  then show ?thesis using paging_map_absent [OF assms(1-5) False al(1), of flags] by auto
qed

lemma virtual_alloc_page_returns:
  assumes k: "kmem_ok k" "pas_inv k dir" and c: "page_aligned cur" "dir_index cur < 1023" "virt \<le> cur" "walk (mem k) dir cur = None"
    and f: "phys_ready (phys_st k)" "2 \<le> free_frames (phys_st k)"
  shows "\<exists>k'. virtual_alloc_page dir flags virt cur k = Some k' \<and> phys_ready (phys_st k') \<and>
    free_frames (phys_st k) \<le> free_frames (phys_st k') + 2"
proof -
  have d: "page_aligned dir" "dir \<noteq> 0" "tempmap_addr k \<noteq> 0" using k by (auto simp: pas_inv_def kmem_ok_def)
  obtain p where p: "paging_is_mapped k dir cur = Some (False, window k p)"
    using paging_is_mapped_walk [OF d c(1)] c(4) by auto
  have diff: "max_size cur virt - cur = 0" using c(3) by (auto simp: max_size_def)
  have "0 < free_frames (phys_st k)" using f(2) by simp
  then obtain a ph where al: "physical_alloc (phys_st k) = Some (a, ph)" "phys_ready ph" "Suc (free_frames ph) = free_frames (phys_st k)"
    using physical_alloc_returns [OF f(1)] by blast
  let ?k = "(window k p)\<lparr>phys_st := ph\<rparr>"
  have a: "page_aligned a" "kmem_ok ?k" "pas_inv ?k dir"
    using pas_inv_alloc [OF k al(1)] by (auto simp: kmem_ok_def pas_inv_def)
  obtain b k2 where mp: "paging_map ?k dir cur a flags = Some (b, k2)" "phys_ready (phys_st k2)" "free_frames ph \<le> Suc (free_frames (phys_st k2))"
    using paging_map_returns [OF a(2,3) c(1) a(1) c(2), of flags] al f(2) by auto
  have w: "walk (mem k2) dir cur = Some (ent_make (flag flags 1) (flag flags 2) a)" "kmem_ok k2"
    using paging_map_walk [OF a(2,3) c(1) a(1) c(2) mp(1)] c(4) by auto
  have t2: "tempmap_addr k2 \<noteq> 0" using w(2) by (simp add: kmem_ok_def)
  obtain q where "paging_mapping_get k2 dir cur = Some (a, window k2 q)"
    using paging_mapping_get_walk [OF d(1,2) t2 c(1)] w(1) a(1) by auto
  then have "virtual_alloc_page dir flags virt cur k = Some ((window k2 a)\<lparr>mem := memset_mem (mem k2) a 0 4096\<rparr>)"
    using p diff mp(1) al(1) a(1) t2 temp_memset_window [OF a(1), of k2 0]
    by (simp add: virtual_alloc_page_def kmem_alloc_def paging_map_temp_aligned)
  then show ?thesis using mp al(3) by auto
qed

lemma virtual_alloc_pages_return:
  assumes k: "kmem_ok k" "pas_inv k dir"
    and qs: "distinct qs" "\<And>v. v \<in> set qs \<Longrightarrow> page_aligned v \<and> dir_index v < 1023 \<and> virt \<le> v \<and> walk (mem k) dir v = None"
    and f: "phys_ready (phys_st k)" "2 * length qs \<le> free_frames (phys_st k)"
  shows "\<exists>k'. for_each qs (virtual_alloc_page dir flags virt) k = Some k'"
  using assms
proof (induction qs arbitrary: k)
  case (Cons q qs)
  have q: "page_aligned q" "dir_index q < 1023" "virt \<le> q" "walk (mem k) dir q = None" using Cons.prems(4) [of q] by simp_all
  obtain k1 where k1: "virtual_alloc_page dir flags virt q k = Some k1" "phys_ready (phys_st k1)"
      "free_frames (phys_st k) \<le> free_frames (phys_st k1) + 2"
    using virtual_alloc_page_returns [OF Cons.prems(1,2) q Cons.prems(5), of flags] Cons.prems(6) by auto
  obtain a T where P: "page_alloced k dir flags q a T k1" using virtual_alloc_page_new [OF Cons.prems(1,2) q k1(1)] by blast
  have "\<exists>k'. for_each qs (virtual_alloc_page dir flags virt) k1 = Some k'"
  proof (rule Cons.IH)
    show "kmem_ok k1" "pas_inv k1 dir" using P by (simp_all add: page_alloced_def)
    show "distinct qs" using Cons.prems(3) by simp
    show "phys_ready (phys_st k1)" by (rule k1(2))
    show "2 * length qs \<le> free_frames (phys_st k1)" using k1(3) Cons.prems(6) by simp
    fix v assume v: "v \<in> set qs"
    then have "page_aligned v \<and> dir_index v < 1023 \<and> virt \<le> v \<and> walk (mem k) dir v = None" "v \<noteq> q"
      using Cons.prems(3,4) by auto
    moreover from this have "page_align v = v" by (simp add: page_align_fixed)
    ultimately show "page_aligned v \<and> dir_index v < 1023 \<and> virt \<le> v \<and> walk (mem k1) dir v = None"
      using P by (simp add: page_alloced_def)
  qed
  then show ?case using k1(1) by simp
qed simp

lemma virtual_alloc_returns:
  assumes "table_ok s" and "live_pid s pid" and "dir = addr_space (process_at s pid)"
    and "kmem_ok (km s)" and "pas_inv (km s) dir"
    and "page_aligned virt" and "sz \<noteq> 0" and "unat virt + unat sz \<le> 0xC0000000"
    and "\<forall>v \<in> set (range_pages virt sz). walk (mem (km s)) dir v = None"
    and "phys_ready (phys_st (km s))" and "2 * length (range_pages virt sz) \<le> free_frames (phys_st (km s))"
  shows "\<exists>s'. virtual_alloc s pid virt sz = Some s'"
proof -
  have e: "unat (virt + sz) \<le> 0xFFFFF000" using range_no_wrap [of virt sz] assms(8) by simp
  have "\<exists>k'. for_each (range_pages virt sz) (virtual_alloc_page dir 3 virt) (km s) = Some k'"
    by (rule virtual_alloc_pages_return [OF assms(4,5) range_pages_user(1) [OF assms(6,8)] _ assms(10,11)])
      (use range_pages_user(2) [OF assms(6,8)] assms(9) in fastforce)
  then show ?thesis
    using get_dir_user [OF assms(1,2)] assms(3,7)
    by (auto simp: virtual_alloc_def page_loop_seq [OF e] range_pages_def)
qed

text \<open>Unmapping kernel pages returns when their frames are under management.\<close>

lemma virtual_unmap_kernel:
  assumes "kmem_ok (km s)" and "unmappable (km s) (set (range_pages virt sz))" and "sz \<noteq> 0"
    and "unat virt + unat sz \<le> 0xFFFFF000"
  shows "\<exists>k. virtual_unmap s 0 virt sz = Some (s\<lparr>km := k\<rparr>) \<and> unmapped (km s) (range_pages virt sz) k"
proof -
  have e: "unat (virt + sz) \<le> 0xFFFFF000" using range_no_wrap [OF assms(4)] assms(4) by simp
  have "distinct (range_pages virt sz)" unfolding range_pages_def by (rule page_seq_props(1) [OF page_aligned_align e])
  from unmap_pages [OF assms(1,2) this] show ?thesis
    using assms(3) by (auto simp: virtual_unmap_def get_dir_def page_loop_seq [OF e] range_pages_def)
qed

text \<open>
  C17. With a free frame for a table, paging_map returns in every well-formed address space for an
  aligned page below the recursive mapping and an aligned frame: it reports success exactly if the
  page was not mapped or FORCE is given; the processor then translates the page to the frame with
  exactly the write and user access of the flags, the bits of the directory entry included, and the
  entry of the page is unchanged otherwise. The entry of every other page is unchanged, and every
  page whose directory entry does not take away access its table entry gives is translated as
  before; the address space stays well formed.
\<close>

theorem paging_map_correct:
  assumes "kmem_ok k" and "pas_inv k dir" and "page_aligned virt" and "page_aligned phys" and "dir_index virt < 1023"
    and "phys_ready (phys_st k)" and "0 < free_frames (phys_st k)"
  shows "\<exists>b k'. paging_map k dir virt phys flags = Some (b, k') \<and> kmem_ok k' \<and> pas_inv k' dir \<and>
    b = (walk (mem k) dir virt = None \<or> flag flags PAGING_FLAG_FORCE) \<and>
    walk (mem k') dir virt = (if b then Some (ent_make (flag flags 1) (flag flags 2) phys) else walk (mem k) dir virt) \<and>
    (b \<longrightarrow> covered (mem k') dir virt \<and> translate (mem k') dir virt = Some (phys, flag flags 1, flag flags 2)) \<and>
    (\<forall>v. dir_index v < 1023 \<longrightarrow> page_align v \<noteq> page_align virt \<longrightarrow> walk (mem k') dir v = walk (mem k) dir v) \<and>
    (\<forall>v. dir_index v < 1023 \<longrightarrow> b \<and> page_align v = page_align virt \<or> \<not> covered (mem k) dir v \<or>
       covered (mem k') dir v \<and> translate (mem k') dir v = translate (mem k) dir v)"
proof -
  obtain b k' where run: "paging_map k dir virt phys flags = Some (b, k')" using paging_map_returns [OF assms] by blast
  note W = paging_map_walk [OF assms(1-5) run]
  have "translate (mem k') dir virt = Some (phys, flag flags 1, flag flags 2)" if b
    using W that assms(4) translate_make [of "mem k'" dir virt] by simp
  moreover have "covered (mem k') dir v \<and> translate (mem k') dir v = translate (mem k) dir v"
    if v: "dir_index v < 1023" "\<not> (b \<and> page_align v = page_align virt)" "covered (mem k) dir v" for v
  proof (rule covered_grows [OF _ v(1) _ v(3)])
    show "walk (mem k') dir v = walk (mem k) dir v"
    proof (cases "page_align v = page_align virt")
      case True
      then have "walk m dir v = walk m dir virt" for m using index_page_eq [of v virt] by (simp add: walk_def)
      then show ?thesis using W v(2) True by simp
    qed (use W v(1) in blast)
  qed (use W in blast)
  ultimately show ?thesis using W run by blast
qed

text \<open>
  C19. With a free frame, paging_dir_create returns a directory in a frame that was free: no user
  page is mapped in it, every kernel page translates as in the kernel directory, with the same
  access, and it is a well-formed address space.
\<close>

theorem paging_dir_create_correct:
  assumes "kmem_ok k" and "pas_inv k (kernel_dir k)" and "phys_ready (phys_st k)" and "0 < free_frames (phys_st k)"
  shows "\<exists>dir k'. paging_dir_create k = Some (dir, k') \<and> kmem_ok k' \<and> pas_inv k' dir \<and> frame_count (phys_st k) dir = 0 \<and>
    (\<forall>v. unat v < 0xC0000000 \<longrightarrow> walk (mem k') dir v = None) \<and>
    (\<forall>v. 0xC0000000 \<le> unat v \<longrightarrow> dir_index v < 1023 \<longrightarrow> walk (mem k') dir v = walk (mem k) (kernel_dir k) v \<and>
       translate (mem k') dir v = translate (mem k) (kernel_dir k) v)"
proof -
  obtain dir ph where "physical_alloc (phys_st k) = Some (dir, ph)" using physical_alloc_returns [OF assms(3,4)] by blast
  then obtain k' where run: "paging_dir_create k = Some (dir, k')" using paging_dir_create_run [OF assms(1,2)] by blast
  from paging_dir_create_walk [OF assms(1,2) run] run show ?thesis by blast
qed

end
