(* ===== verification/Devices.thy ===== *)
theory Devices
  imports Kernel_State
begin

text \<open>
  The devices the kernel drives through I/O ports: \<open>kernel/arch/i586/sw/instr/io.h\<close>,
  the interrupt controller (\<open>spec/pic8259/x86.c\<close>), the timer (\<open>spec/pit8253/x86.c\<close>,
  \<open>hw/pit.c\<close>) and the serial port (\<open>spec/uart/x86.c\<close>, \<open>hw/serial.c\<close>).  Every operation
  extends the trace of port accesses; what a read returns is the parameter \<open>io_dev\<close>.
\<close>

subsection \<open>Port instructions\<close>

definition inb :: "u16 \<Rightarrow> io \<Rightarrow> u8 \<times> io" where
  "inb port i = (let v = ucast (io_dev i (io_trace i) port) in
     (v, i\<lparr>io_trace := io_trace i @ [IoIn 8 port (ucast v)]\<rparr>))"

definition inw :: "u16 \<Rightarrow> io \<Rightarrow> u16 \<times> io" where
  "inw port i = (let v = ucast (io_dev i (io_trace i) port) in
     (v, i\<lparr>io_trace := io_trace i @ [IoIn 16 port (ucast v)]\<rparr>))"

definition outb :: "u16 \<Rightarrow> u8 \<Rightarrow> io \<Rightarrow> io" where
  "outb port v i = i\<lparr>io_trace := io_trace i @ [IoOut 8 port (ucast v)]\<rparr>"

definition outw :: "u16 \<Rightarrow> u16 \<Rightarrow> io \<Rightarrow> io" where
  "outw port v i = i\<lparr>io_trace := io_trace i @ [IoOut 16 port (ucast v)]\<rparr>"

subsection \<open>The interrupt controller\<close>

abbreviation (input) PIC1_PORT_CMD :: u16 where "PIC1_PORT_CMD \<equiv> 0x20"
abbreviation (input) PIC1_PORT_DATA :: u16 where "PIC1_PORT_DATA \<equiv> 0x21"
abbreviation (input) PIC2_PORT_CMD :: u16 where "PIC2_PORT_CMD \<equiv> 0xA0"
abbreviation (input) PIC2_PORT_DATA :: u16 where "PIC2_PORT_DATA \<equiv> 0xA1"
abbreviation (input) PIC_CHIP_MASTER :: u8 where "PIC_CHIP_MASTER \<equiv> 0"
abbreviation (input) PIC_CHIP_SLAVE :: u8 where "PIC_CHIP_SLAVE \<equiv> 8"
abbreviation (input) PIC_IRQ_MAX :: u8 where "PIC_IRQ_MAX \<equiv> 16"

definition pic_icw_write :: "u8 \<Rightarrow> u8 \<Rightarrow> bool \<Rightarrow> io \<Rightarrow> io" where
  "pic_icw_write mval sval cmd i =
     (if cmd then outb PIC2_PORT_CMD sval (outb PIC1_PORT_CMD mval i)
      else outb PIC2_PORT_DATA sval (outb PIC1_PORT_DATA mval i))"

definition pic_isr_read :: "io \<Rightarrow> u16 \<times> io" where
  "pic_isr_read i = (
     let i = outb PIC1_PORT_CMD 0x0B i;
         i = outb PIC2_PORT_CMD 0x0B i;
         (lo, i) = inb PIC1_PORT_CMD i;
         (hi, i) = inb PIC2_PORT_CMD i
     in (ucast lo OR push_bit 8 (ucast hi), i))"

definition pic_reset :: "u8 \<Rightarrow> io \<Rightarrow> io" where
  "pic_reset chip i = (if chip = PIC_CHIP_MASTER then outb PIC1_PORT_CMD 0x20 i else outb PIC2_PORT_CMD 0x20 i)"

definition pic_port :: "u8 \<Rightarrow> u16" where
  "pic_port irq = (if irq < PIC_CHIP_SLAVE then PIC1_PORT_DATA else PIC2_PORT_DATA)"

definition pic_bit :: "u8 \<Rightarrow> nat" where
  "pic_bit irq = unat (if pic_port irq = PIC2_PORT_DATA then irq - 8 else irq)"

definition pic_irq_enable :: "u8 \<Rightarrow> io \<Rightarrow> io option" where
  "pic_irq_enable irq i = do {
     dassert (irq < PIC_IRQ_MAX);
     let (mask, i) = inb (pic_port irq) i;
     Some (outb (pic_port irq) (mask AND NOT (push_bit (pic_bit irq) 1)) i)
   }"

definition pic_irq_disable :: "u8 \<Rightarrow> io \<Rightarrow> io option" where
  "pic_irq_disable irq i = do {
     dassert (irq < PIC_IRQ_MAX);
     let (mask, i) = inb (pic_port irq) i;
     Some (outb (pic_port irq) (mask OR push_bit (pic_bit irq) 1) i)
   }"

definition pic_irq_enable_all :: "io \<Rightarrow> io" where
  "pic_irq_enable_all i = outb PIC2_PORT_DATA 0 (outb PIC1_PORT_DATA 0 i)"

definition pic_irq_disable_all :: "io \<Rightarrow> io" where
  "pic_irq_disable_all i = outb PIC2_PORT_DATA 0xFF (outb PIC1_PORT_DATA 0xFF i)"

text \<open>\<open>pic_remap\<close>: the initialization control words 1 to 4, their bit fields packed.\<close>

definition pic_remap :: "u8 \<Rightarrow> u8 \<Rightarrow> io \<Rightarrow> io option" where
  "pic_remap pic1 pic2 i = do {
     dassert (unat pic1 \<le> 256 - 8);
     dassert (unat pic2 \<le> 256 - 8);
     let icw1 = 1 OR push_bit 4 1;
     let i = pic_icw_write icw1 icw1 True i;
     let i = pic_icw_write pic1 pic2 False i;
     let i = pic_icw_write (push_bit 2 1) 2 False i;
     let icw4 = 1;
     Some (pic_icw_write icw4 icw4 False i)
   }"

text \<open>
  \<open>pic_eoi\<close>; \<open>irq\<close> is an \<open>int8_t\<close>, so the comparisons with the chip base are signed.
\<close>

definition pic_eoi :: "u8 \<Rightarrow> io \<Rightarrow> io" where
  "pic_eoi irq i = (
     let (needs_eoi, i) =
           (if irq = 7 \<or> irq = 15 then
              let (irqs, i) = pic_isr_read i in (bit irqs (unat irq), i)
            else (True, i));
         slave = (sint irq \<ge> 8);
         i = (if needs_eoi \<and> slave then pic_reset PIC_CHIP_SLAVE i else i)
     in if needs_eoi \<or> slave then pic_reset PIC_CHIP_MASTER i else i)"

subsection \<open>The timer\<close>

abbreviation (input) PIT_PORT_COMMAND :: u16 where "PIT_PORT_COMMAND \<equiv> 0x43"
abbreviation (input) PIT_PORT_CONTROL :: u16 where "PIT_PORT_CONTROL \<equiv> 0x61"
abbreviation (input) PIT_PORT_CHANNEL0 :: u16 where "PIT_PORT_CHANNEL0 \<equiv> 0x40"
abbreviation (input) PIT_BASE_FREQ :: u32 where "PIT_BASE_FREQ \<equiv> 1193180"
abbreviation (input) PIT_OUTMODE_ONESHOT :: u8 where "PIT_OUTMODE_ONESHOT \<equiv> 1"
abbreviation (input) PIT_OUTMODE_SQRWAVE :: u8 where "PIT_OUTMODE_SQRWAVE \<equiv> 3"
abbreviation (input) PIT_ACCESS_RW_BOTH :: u8 where "PIT_ACCESS_RW_BOTH \<equiv> 3"

record pit_command =
  count_mode :: bool
  output_mode :: u8
  access_mode :: u8
  channel :: u8

definition pit_command_raw :: "pit_command \<Rightarrow> u8" where
  "pit_command_raw c = of_bool (count_mode c) OR push_bit 1 (take_bit 3 (output_mode c)) OR
     push_bit 4 (take_bit 2 (access_mode c)) OR push_bit 6 (take_bit 2 (channel c))"

definition pit_control_read :: "io \<Rightarrow> u8 \<times> io" where
  "pit_control_read i = inb PIT_PORT_CONTROL i"

definition pit_control_write :: "u8 \<Rightarrow> io \<Rightarrow> io" where
  "pit_control_write ctl i = outb PIT_PORT_CONTROL (ctl AND 0xF) i"

definition pit_write :: "pit_command \<Rightarrow> u32 \<Rightarrow> io \<Rightarrow> io" where
  "pit_write cmd freq i = (
     let i = outb PIT_PORT_COMMAND (pit_command_raw cmd) i in
     if freq = 0 then i
     else
       let port = PIT_PORT_CHANNEL0 + ucast (take_bit 2 (channel cmd));
           divider = (ucast (PIT_BASE_FREQ div freq) :: u16);
           i = (if bit (access_mode cmd) 0 then outb port (ucast (divider AND 0xFF)) i else i)
       in if bit (access_mode cmd) 1 then outb port (ucast (drop_bit 8 divider AND 0xFF)) i else i)"

definition pit_status_read :: "u8 \<Rightarrow> io \<Rightarrow> u8 \<times> io" where
  "pit_status_read timer i = (
     let cmd = push_bit 1 (of_bool (timer = 0)) OR push_bit 2 (of_bool (timer = 1)) OR
               push_bit 3 (of_bool (timer = 2)) OR push_bit 5 1 OR push_bit 6 3
     in inb (PIT_PORT_CHANNEL0 + ucast timer) (outb PIT_PORT_COMMAND cmd i))"

definition pit_count_read :: "u8 \<Rightarrow> io \<Rightarrow> u16 \<times> io" where
  "pit_count_read timer i = (
     let port = PIT_PORT_CHANNEL0 + ucast timer;
         (status, i) = pit_status_read timer i
     in if take_bit 2 (drop_bit 4 status) \<noteq> PIT_ACCESS_RW_BOTH then
          (let (v, i) = inb port i in (ucast v, i))
        else
          let cmd = \<lparr>count_mode = False, output_mode = 0, access_mode = 0, channel = timer\<rparr>;
              i = outb PIT_PORT_COMMAND (pit_command_raw cmd) i;
              (lo, i) = inb port i;
              (hi, i) = inb port i
          in (ucast lo OR push_bit 8 (ucast hi), i))"

definition pit_timer_set :: "u8 \<Rightarrow> u32 \<Rightarrow> u8 \<Rightarrow> io \<Rightarrow> io option" where
  "pit_timer_set timer freq mode i = do {
     dassert (freq \<noteq> 0);
     let cmd = \<lparr>count_mode = False, output_mode = mode, access_mode = PIT_ACCESS_RW_BOTH, channel = timer\<rparr>;
     Some (pit_write cmd freq i)
   }"

partial_function (option) pit_wait :: "io \<Rightarrow> io option" where
  "pit_wait i = (case pit_control_read i of (ctl, i) \<Rightarrow> if bit ctl 5 then Some i else pit_wait i)"

text \<open>A zero argument is a division by zero.\<close>

definition pit_sleep :: "u32 \<Rightarrow> io \<Rightarrow> io option" where
  "pit_sleep msec i = do {
     dassert (msec \<noteq> 0);
     i \<leftarrow> pit_timer_set 2 (1000 div msec) PIT_OUTMODE_ONESHOT i;
     let (ctl, i) = pit_control_read i;
     let i = pit_control_write (unset_bit 0 ctl) i;
     let i = pit_control_write (set_bit 0 ctl) i;
     pit_wait i
   }"

subsection \<open>The serial port\<close>

abbreviation (input) UART_FREQUENCY :: u32 where "UART_FREQUENCY \<equiv> 115200"
abbreviation (input) UART_COM1 :: u16 where "UART_COM1 \<equiv> 0x3F8"
abbreviation (input) UART_REG_DATA :: u16 where "UART_REG_DATA \<equiv> 0"
abbreviation (input) UART_REG_IER :: u16 where "UART_REG_IER \<equiv> 1"
abbreviation (input) UART_REG_BAUDL :: u16 where "UART_REG_BAUDL \<equiv> 0"
abbreviation (input) UART_REG_BAUDH :: u16 where "UART_REG_BAUDH \<equiv> 0"
abbreviation (input) UART_REG_LCR :: u16 where "UART_REG_LCR \<equiv> 3"
abbreviation (input) UART_REG_MCR :: u16 where "UART_REG_MCR \<equiv> 4"
abbreviation (input) UART_REG_LSR :: u16 where "UART_REG_LSR \<equiv> 5"

definition uart_write :: "u16 \<Rightarrow> u16 \<Rightarrow> u8 \<Rightarrow> io \<Rightarrow> io" where
  "uart_write port reg d i = outb (port + reg) d i"

definition uart_read :: "u16 \<Rightarrow> u16 \<Rightarrow> io \<Rightarrow> u8 \<times> io" where
  "uart_read port reg i = inb (port + reg) i"

definition uart_divisor_get :: "u32 \<Rightarrow> u16" where
  "uart_divisor_get baud = ucast (UART_FREQUENCY div baud)"

definition uart_baud_set :: "u16 \<Rightarrow> u16 \<Rightarrow> io \<Rightarrow> io" where
  "uart_baud_set port divisor i = (
     let (lcr, i) = uart_read port UART_REG_LCR i;
         i = uart_write port UART_REG_LCR (set_bit 7 lcr) i;
         i = uart_write port UART_REG_BAUDL (ucast (divisor AND 0xFF)) i;
         i = uart_write port UART_REG_BAUDH (ucast (drop_bit 8 divisor AND 0xFF)) i
     in uart_write port UART_REG_LCR (unset_bit 7 lcr) i)"

definition serial_init :: "u16 \<Rightarrow> io \<Rightarrow> io" where
  "serial_init port i = (
     let i = uart_write port UART_REG_IER 0 i;
         i = uart_baud_set port (uart_divisor_get 2400) i;
         i = uart_write port UART_REG_LCR 3 i;
         i = uart_write port UART_REG_MCR 0 i
     in snd (uart_read port UART_REG_DATA i))"

text \<open>Polling of a bit of the line status register.\<close>

partial_function (option) uart_wait :: "u16 \<Rightarrow> nat \<Rightarrow> io \<Rightarrow> io option" where
  "uart_wait port b i = (case uart_read port UART_REG_LSR i of
     (lsr, i) \<Rightarrow> if bit lsr b then Some i else uart_wait port b i)"

definition serial_write :: "u16 \<Rightarrow> u8 \<Rightarrow> io \<Rightarrow> io option" where
  "serial_write port d i = do {
     i \<leftarrow> uart_wait port 5 i;
     Some (uart_write port UART_REG_DATA d i)
   }"

definition serial_read :: "u16 \<Rightarrow> io \<Rightarrow> (u8 \<times> io) option" where
  "serial_read port i = do {
     i \<leftarrow> uart_wait port 0 i;
     Some (uart_read port UART_REG_DATA i)
   }"

subsection \<open>Unmasked interrupts\<close>

text \<open>The byte last written to a port, and the interrupt lines the two mask registers leave open.\<close>

definition last_out :: "io_event list \<Rightarrow> u16 \<Rightarrow> u32" where
  "last_out tr p = foldl (\<lambda>v e. case e of IoOut _ q x \<Rightarrow> if q = p then x else v | IoIn _ _ _ \<Rightarrow> v) 0 tr"

definition pic_enabled :: "io_event list \<Rightarrow> nat set" where
  "pic_enabled tr = {n. n < 16 \<and> \<not> bit (last_out tr (pic_port (of_nat n))) (pic_bit (of_nat n))}"

definition pic_masks_kept :: "io \<Rightarrow> bool" where
  "pic_masks_kept i \<longleftrightarrow> (\<forall>tr. \<forall>p \<in> {PIC1_PORT_DATA, PIC2_PORT_DATA}. io_dev i tr p = last_out tr p)"

lemma last_out_snoc [simp]:
  "last_out (tr @ [IoOut w q v]) p = (if q = p then v else last_out tr p)"
  "last_out (tr @ [IoIn w q v]) p = last_out tr p"
  by (auto simp: last_out_def)

lemma last_out_snoc2 [simp]: "last_out (tr @ [IoIn w q v, IoOut w' q' v']) p = (if q' = p then v' else last_out tr p)"
  using last_out_snoc(1) [of "tr @ [IoIn w q v]"] by simp

lemma pic_port_cases: "pic_port irq = PIC1_PORT_DATA \<or> pic_port irq = PIC2_PORT_DATA"
  by (simp add: pic_port_def)

lemma pic_bit_less: "irq < 16 \<Longrightarrow> pic_bit irq < 8"
  by (auto simp: pic_bit_def pic_port_def word_less_nat_alt unat_sub_if')

lemma pic_line_inj:
  "m < 16 \<Longrightarrow> n < 16 \<Longrightarrow> pic_port (of_nat m) = pic_port (of_nat n) \<Longrightarrow> pic_bit (of_nat m) = pic_bit (of_nat n) \<Longrightarrow> m = n"
  by (auto simp: pic_bit_def pic_port_def word_less_nat_alt unat_sub_if' unat_of_nat split: if_splits)

lemma bit_ucast8: "b < 8 \<Longrightarrow> bit (ucast (w :: u8) :: u32) b = bit w b"
  by (simp add: bit_simps)

lemma bit_ucast_to8: "b < 8 \<Longrightarrow> bit (ucast (w :: u32) :: u8) b = bit w b"
  by (simp add: bit_simps)

lemma pic_irq_enable_trace:
  "irq < 16 \<Longrightarrow> \<exists>m :: u8. pic_irq_enable irq i = Some (i\<lparr>io_trace := io_trace i @
     [IoIn 8 (pic_port irq) (ucast m), IoOut 8 (pic_port irq) (ucast (m AND NOT (push_bit (pic_bit irq) 1)))]\<rparr>) \<and>
   m = ucast (io_dev i (io_trace i) (pic_port irq))"
  by (simp add: pic_irq_enable_def inb_def outb_def Let_def)

lemma pic_irq_disable_trace:
  "irq < 16 \<Longrightarrow> \<exists>m :: u8. pic_irq_disable irq i = Some (i\<lparr>io_trace := io_trace i @
     [IoIn 8 (pic_port irq) (ucast m), IoOut 8 (pic_port irq) (ucast (m OR push_bit (pic_bit irq) 1))]\<rparr>) \<and>
   m = ucast (io_dev i (io_trace i) (pic_port irq))"
  by (simp add: pic_irq_disable_def inb_def outb_def Let_def)

lemma pic_enabled_write:
  assumes irq: "irq < 16"
    and m': "\<And>b. b < 8 \<Longrightarrow> bit m' b = (if b = pic_bit (of_nat irq) then v else bit (last_out tr (pic_port (of_nat irq))) b)"
  shows "pic_enabled (tr @ [IoIn w (pic_port (of_nat irq)) x, IoOut w' (pic_port (of_nat irq)) (ucast (m' :: u8))]) =
    (if v then pic_enabled tr - {irq} else insert irq (pic_enabled tr))"
proof (rule set_eqI)
  fix n
  have b: "n < 16 \<Longrightarrow> pic_bit (of_nat n) < 8" by (rule pic_bit_less) (simp add: word_less_nat_alt unat_of_nat)
  have "n < 16 \<Longrightarrow> pic_port (of_nat n) = pic_port (of_nat irq) \<Longrightarrow> pic_bit (of_nat n) = pic_bit (of_nat irq) \<longleftrightarrow> n = irq"
    using pic_line_inj [of n irq] irq by blast
  then show "n \<in> pic_enabled (tr @ [IoIn w (pic_port (of_nat irq)) x, IoOut w' (pic_port (of_nat irq)) (ucast m')]) \<longleftrightarrow>
     n \<in> (if v then pic_enabled tr - {irq} else insert irq (pic_enabled tr))"
    using irq m' [OF b] b by (auto simp: pic_enabled_def bit_ucast8)
qed

lemma pic_irq_enable_enabled:
  assumes "pic_masks_kept i" and "irq < 16"
  shows "\<exists>i'. pic_irq_enable (of_nat irq) i = Some i' \<and> pic_masks_kept i' \<and>
    pic_enabled (io_trace i') = insert irq (pic_enabled (io_trace i))"
proof -
  have "(of_nat irq :: u8) < 16" using assms(2) by (simp add: word_less_nat_alt unat_of_nat)
  from pic_irq_enable_trace [OF this, of i] obtain m :: u8
    where run: "pic_irq_enable (of_nat irq) i = Some (i\<lparr>io_trace := io_trace i @
        [IoIn 8 (pic_port (of_nat irq)) (ucast m), IoOut 8 (pic_port (of_nat irq)) (ucast (m AND NOT (push_bit (pic_bit (of_nat irq)) 1)))]\<rparr>)"
      and m: "m = ucast (io_dev i (io_trace i) (pic_port (of_nat irq)))" by blast
  have "bit (m AND NOT (push_bit (pic_bit (of_nat irq)) 1)) b =
      (if b = pic_bit (of_nat irq) then False else bit (last_out (io_trace i) (pic_port (of_nat irq))) b)" if "b < 8" for b
    using that assms(1) pic_port_cases [of "of_nat irq"] unfolding m pic_masks_kept_def by (auto simp: bit_simps)
  from pic_enabled_write [OF assms(2) this] run assms(1) show ?thesis by (simp add: pic_masks_kept_def)
qed

lemma pic_irq_disable_enabled:
  assumes "pic_masks_kept i" and "irq < 16"
  shows "\<exists>i'. pic_irq_disable (of_nat irq) i = Some i' \<and> pic_masks_kept i' \<and>
    pic_enabled (io_trace i') = pic_enabled (io_trace i) - {irq}"
proof -
  have l: "(of_nat irq :: u8) < 16" using assms(2) by (simp add: word_less_nat_alt unat_of_nat)
  from pic_irq_disable_trace [OF this, of i] obtain m :: u8
    where run: "pic_irq_disable (of_nat irq) i = Some (i\<lparr>io_trace := io_trace i @
        [IoIn 8 (pic_port (of_nat irq)) (ucast m), IoOut 8 (pic_port (of_nat irq)) (ucast (m OR push_bit (pic_bit (of_nat irq)) 1))]\<rparr>)"
      and m: "m = ucast (io_dev i (io_trace i) (pic_port (of_nat irq)))" by blast
  have "bit (m OR push_bit (pic_bit (of_nat irq)) 1) b =
      (if b = pic_bit (of_nat irq) then True else bit (last_out (io_trace i) (pic_port (of_nat irq))) b)" if "b < 8" for b
    using that assms(1) pic_port_cases [of "of_nat irq"] pic_bit_less [OF l] unfolding m pic_masks_kept_def by (auto simp: bit_simps)
  from pic_enabled_write [OF assms(2) this] run assms(1) show ?thesis by (simp add: pic_masks_kept_def)
qed

subsection \<open>Waiting for the line\<close>

definition uart_polls :: "u16 \<Rightarrow> nat \<Rightarrow> io \<Rightarrow> io" where
  "uart_polls port n i = ((\<lambda>i. snd (uart_read port UART_REG_LSR i)) ^^ n) i"

definition uart_ready :: "u16 \<Rightarrow> nat \<Rightarrow> nat \<Rightarrow> io \<Rightarrow> bool" where
  "uart_ready port b n i = bit (fst (uart_read port UART_REG_LSR (uart_polls port n i))) b"

lemma uart_polls_Suc: "uart_polls port (Suc n) i = uart_polls port n (snd (uart_read port UART_REG_LSR i))"
  by (simp add: uart_polls_def funpow_Suc_right del: funpow.simps)

lemma uart_ready_Suc: "uart_ready port b (Suc n) i = uart_ready port b n (snd (uart_read port UART_REG_LSR i))"
  by (simp add: uart_ready_def uart_polls_Suc)

lemma uart_ready_0: "uart_ready port b 0 i = bit (fst (uart_read port UART_REG_LSR i)) b"
  by (simp add: uart_ready_def uart_polls_def)

lemma uart_wait_ready:
  "uart_ready port b n i \<Longrightarrow> (\<forall>k<n. \<not> uart_ready port b k i) \<Longrightarrow> uart_wait port b i = Some (uart_polls port (Suc n) i)"
proof (induction n arbitrary: i)
  case 0
  then show ?case
    by (subst uart_wait.simps) (auto simp: uart_ready_0 uart_polls_def split: prod.splits)
next
  case (Suc n)
  let ?j = "snd (uart_read port UART_REG_LSR i)"
  have "\<forall>k<n. \<not> uart_ready port b k ?j" using Suc.prems(2) by (auto simp: uart_ready_Suc [symmetric])
  then have "uart_wait port b ?j = Some (uart_polls port (Suc n) ?j)"
    using Suc.IH Suc.prems(1) by (simp add: uart_ready_Suc)
  moreover have "\<not> bit (fst (uart_read port UART_REG_LSR i)) b" using Suc.prems(2) by (auto simp: uart_ready_0 [symmetric])
  ultimately show ?case
    by (subst uart_wait.simps) (auto simp: uart_polls_Suc [of port "Suc n"] split: prod.splits)
qed

lemma uart_wait_returns: "uart_wait port b i = Some i' \<Longrightarrow> \<exists>n. uart_ready port b n i"
proof (erule uart_wait.raw_induct [rotated])
  fix w and port :: u16 and b :: nat and i i' :: io
  assume IH: "\<And>port b i i'. w port b i = Some i' \<Longrightarrow> \<exists>n. uart_ready port b n i"
    and run: "(case uart_read port UART_REG_LSR i of (lsr, i) \<Rightarrow> if bit lsr b then Some i else w port b i) = Some i'"
  show "\<exists>n. uart_ready port b n i"
  proof (cases "bit (fst (uart_read port UART_REG_LSR i)) b")
    case True
    then show ?thesis using uart_ready_0 by blast
  next
    case False
    with run have "w port b (snd (uart_read port UART_REG_LSR i)) = Some i'" by (auto split: prod.splits)
    with IH show ?thesis using uart_ready_Suc by blast
  qed
qed

end
