(* ===== verification/Interrupts.thy ===== *)
theory Interrupts
  imports Devices
begin

text \<open>
  The tables of \<open>kernel/arch/i586/sw\<close>: segment descriptors (\<open>gdt.c\<close>), interrupt gates
  (\<open>int/idt.c\<close>), the task state segment (\<open>task.c\<close>), the allocation of interrupt vectors
  (\<open>int/isr.c\<close>, \<open>int/irq.c\<close>), the registration of callbacks (\<open>int/callback.c\<close>), and the
  initialization built on them (\<open>hw/int/pic.c\<close>, \<open>int/exception.c\<close>, \<open>arch.c\<close>).
\<close>

subsection \<open>Segment descriptors\<close>

datatype gdt_entrytype = GDT_ENTRYTYPE_CODE | GDT_ENTRYTYPE_DATA | GDT_ENTRYTYPE_TSS | GDT_ENTRYTYPE_LDT

abbreviation (input) GDT_SEGMENT_KCODE :: nat where "GDT_SEGMENT_KCODE \<equiv> 1"
abbreviation (input) GDT_SEGMENT_KDATA :: nat where "GDT_SEGMENT_KDATA \<equiv> 2"
abbreviation (input) GDT_SEGMENT_UCODE :: nat where "GDT_SEGMENT_UCODE \<equiv> 3"
abbreviation (input) GDT_SEGMENT_UDATA :: nat where "GDT_SEGMENT_UDATA \<equiv> 4"
abbreviation (input) GDT_SEGMENT_TSS :: nat where "GDT_SEGMENT_TSS \<equiv> 5"
abbreviation (input) GDT_SEGMENT_MAX :: nat where "GDT_SEGMENT_MAX \<equiv> 6"

definition GDT_SEGMENT_OFFSET :: "nat \<Rightarrow> u32" where
  "GDT_SEGMENT_OFFSET x = of_nat x * 8"

text \<open>The 64-bit descriptor, its bit fields in the order of \<open>gdt_entry_t\<close>.\<close>

definition gdt_entry_raw :: "u32 \<Rightarrow> u32 \<Rightarrow> gdt_entrytype \<Rightarrow> nat \<Rightarrow> u64" where
  "gdt_entry_raw base limit type dpl = (
     let normal = (type = GDT_ENTRYTYPE_CODE \<or> type = GDT_ENTRYTYPE_DATA) in
     take_bit 16 (ucast limit) OR
     push_bit 16 (take_bit 24 (ucast base)) OR
     push_bit 40 (of_bool (type = GDT_ENTRYTYPE_TSS)) OR
     push_bit 41 (of_bool (type = GDT_ENTRYTYPE_DATA)) OR
     push_bit 43 (of_bool (type = GDT_ENTRYTYPE_CODE \<or> type = GDT_ENTRYTYPE_TSS)) OR
     push_bit 44 (of_bool normal) OR
     push_bit 45 (take_bit 2 (of_nat dpl)) OR
     push_bit 47 1 OR
     push_bit 48 (take_bit 4 (drop_bit 16 (ucast limit))) OR
     push_bit 54 (of_bool normal) OR
     push_bit 55 (of_bool normal) OR
     push_bit 56 (take_bit 8 (drop_bit 24 (ucast base))))"

definition gdt_entry_set :: "nat \<Rightarrow> u32 \<Rightarrow> u32 \<Rightarrow> gdt_entrytype \<Rightarrow> nat \<Rightarrow> kstate \<Rightarrow> kstate option" where
  "gdt_entry_set i base limit type dpl s = do {
     dassert (i < GDT_SEGMENT_MAX);
     dassert (dpl \<le> 3);
     es \<leftarrow> arr_set (gdt_entries s) i (gdt_entry_raw base limit type dpl);
     Some (s\<lparr>gdt_entries := es\<rparr>)
   }"

text \<open>The descriptor of the table, which \<open>gdt_init\<close> computes and \<open>gdt_load\<close> loads.\<close>

definition gdt_desc :: "link_env \<Rightarrow> u16 \<times> u32" where
  "gdt_desc L = (of_nat (GDT_SEGMENT_MAX * 8 - 1), gdt_address L)"

definition gdt_init :: "kstate \<Rightarrow> kstate option" where
  "gdt_init s = do {
     s \<leftarrow> gdt_entry_set GDT_SEGMENT_KCODE 0 0xFFFFFFFF GDT_ENTRYTYPE_CODE 0 s;
     s \<leftarrow> gdt_entry_set GDT_SEGMENT_KDATA 0 0xFFFFFFFF GDT_ENTRYTYPE_DATA 0 s;
     s \<leftarrow> gdt_entry_set GDT_SEGMENT_UCODE 0 0xFFFFFFFF GDT_ENTRYTYPE_CODE 3 s;
     gdt_entry_set GDT_SEGMENT_UDATA 0 0xFFFFFFFF GDT_ENTRYTYPE_DATA 3 s
   }"

definition gdt_clone :: "u64 list \<Rightarrow> u64 list \<Rightarrow> u64 list option" where
  "gdt_clone dest src = for_each [0..<GDT_SEGMENT_MAX] (\<lambda>i dest. do {
     e \<leftarrow> arr_get src i;
     arr_set dest i e
   }) dest"

definition gdt_load :: "link_env \<Rightarrow> kstate \<Rightarrow> kstate" where
  "gdt_load L s = s\<lparr>gdtr := Some (gdt_desc L)\<rparr>"

subsection \<open>Interrupt gates\<close>

abbreviation (input) IDT_ENTRY_MAX :: nat where "IDT_ENTRY_MAX \<equiv> 256"
abbreviation (input) IDT_ENTRYTYPE_INT32 :: u64 where "IDT_ENTRYTYPE_INT32 \<equiv> 0xE"

text \<open>Stub \<open>i\<close> starts \<open>i\<close> stub sizes after the first one.\<close>

definition isr_stub :: "link_env \<Rightarrow> nat \<Rightarrow> u32" where
  "isr_stub L i = sisr L + (eisr L - sisr L) * of_nat i"

definition idt_entry_raw :: "u32 \<Rightarrow> nat \<Rightarrow> u64 \<Rightarrow> nat \<Rightarrow> u64" where
  "idt_entry_raw base seg type dpl =
     take_bit 16 (ucast base) OR
     push_bit 16 (take_bit 16 (ucast (GDT_SEGMENT_OFFSET seg))) OR
     push_bit 40 (take_bit 4 type) OR
     push_bit 45 (take_bit 2 (of_nat dpl)) OR
     push_bit 47 1 OR
     push_bit 48 (take_bit 16 (drop_bit 16 (ucast base)))"

definition idt_entry_set :: "link_env \<Rightarrow> nat \<Rightarrow> nat \<Rightarrow> u64 \<Rightarrow> nat \<Rightarrow> kstate \<Rightarrow> kstate option" where
  "idt_entry_set L i seg type dpl s = do {
     dassert (i < IDT_ENTRY_MAX);
     dassert (seg < GDT_SEGMENT_MAX);
     dassert (dpl \<le> 3);
     es \<leftarrow> arr_set (idt_entries s) i (idt_entry_raw (isr_stub L i) seg type dpl);
     Some (s\<lparr>idt_entries := es\<rparr>)
   }"

definition idt_init :: "link_env \<Rightarrow> kstate \<Rightarrow> kstate option" where
  "idt_init L s = for_each [0..<IDT_ENTRY_MAX] (\<lambda>i. idt_entry_set L i GDT_SEGMENT_KCODE IDT_ENTRYTYPE_INT32 0) s"

definition idt_entry_priv_set :: "nat \<Rightarrow> nat \<Rightarrow> kstate \<Rightarrow> kstate option" where
  "idt_entry_priv_set i dpl s = do {
     dassert (i < IDT_ENTRY_MAX);
     dassert (dpl \<le> 3);
     e \<leftarrow> arr_get (idt_entries s) i;
     es \<leftarrow> arr_set (idt_entries s) i (e AND NOT (push_bit 45 3) OR push_bit 45 (of_nat dpl));
     Some (s\<lparr>idt_entries := es\<rparr>)
   }"

definition idt_load :: "link_env \<Rightarrow> kstate \<Rightarrow> kstate" where
  "idt_load L s = s\<lparr>idtr := Some (of_nat (IDT_ENTRY_MAX * 8 - 1), idt_address L)\<rparr>"

definition arch_init :: "link_env \<Rightarrow> kstate \<Rightarrow> kstate option" where
  "arch_init L s = do {
     s \<leftarrow> gdt_init s;
     let s = gdt_load L s;
     s \<leftarrow> idt_init L s;
     Some (idt_load L s)
   }"

subsection \<open>The task state segment\<close>

definition tss_init :: "u32 \<Rightarrow> tss" where
  "tss_init kstack = (
     let ds = GDT_SEGMENT_OFFSET GDT_SEGMENT_KDATA OR 3 in
     \<lparr>tss_ESP0 = kstack, tss_SS0 = GDT_SEGMENT_OFFSET GDT_SEGMENT_KDATA,
      tss_CS = GDT_SEGMENT_OFFSET GDT_SEGMENT_KCODE OR 3, tss_DS = ds,
      tss_ES = ds, tss_FS = ds, tss_GS = ds, tss_SS = ds\<rparr>)"

text \<open>\<open>tss_t\<close> has 26 words.\<close>

definition tss_load :: "link_env \<Rightarrow> kstate \<Rightarrow> kstate option" where
  "tss_load L s = do {
     s \<leftarrow> gdt_entry_set GDT_SEGMENT_TSS (tss_address L) (104 - 1) GDT_ENTRYTYPE_TSS 0 s;
     let s = gdt_load L s;
     Some (s\<lparr>task_reg := 0x28 OR 3\<rparr>)
   }"

subsection \<open>Interrupt vectors\<close>

text \<open>
  \<open>priority_levels\<close> is an array of 128 16-bit words that \<open>isr.c\<close> casts to a bitmap of 32-bit
  words, from its start or from the word of a priority level.
\<close>

definition isr_view :: "nat \<Rightarrow> u16 list \<Rightarrow> u32 list" where
  "isr_view k ls = map (\<lambda>i. ucast (ls ! (k + 2 * i)) OR push_bit 16 (ucast (ls ! (k + 2 * i + 1))))
     [0..<(length ls - k) div 2]"

definition isr_unview :: "nat \<Rightarrow> u32 list \<Rightarrow> u16 list \<Rightarrow> u16 list" where
  "isr_unview k ws ls = map (\<lambda>j. if j < k \<or> (j - k) div 2 \<ge> length ws then ls ! j
      else if even (j - k) then ucast (ws ! ((j - k) div 2)) else ucast (drop_bit 16 (ws ! ((j - k) div 2))))
     [0..<length ls]"

definition isr_reserve :: "u8 \<Rightarrow> kstate \<Rightarrow> kstate option" where
  "isr_reserve isr s = do {
     isset \<leftarrow> bitmap_test (isr_view 0 (isr_levels s)) (unat isr);
     dassert (\<not> isset);
     ws \<leftarrow> bitmap_set (isr_view 0 (isr_levels s)) (unat isr);
     Some (s\<lparr>isr_levels := isr_unview 0 ws (isr_levels s)\<rparr>)
   }"

definition isr_alloc :: "nat \<Rightarrow> kstate \<Rightarrow> (u8 \<times> kstate) option" where
  "isr_alloc pri s = do {
     dassert (pri < 16);
     (isr, ws) \<leftarrow> bitmap_find_and_set (isr_view pri (isr_levels s)) ((16 - pri) * 16);
     dassert (isr \<noteq> -1);
     Some (of_int (isr + int pri * 16), s\<lparr>isr_levels := isr_unview pri ws (isr_levels s)\<rparr>)
   }"

definition isr_free :: "u8 \<Rightarrow> kstate \<Rightarrow> kstate option" where
  "isr_free isr s = do {
     ws \<leftarrow> bitmap_clear (isr_view 0 (isr_levels s)) (unat isr);
     Some (s\<lparr>isr_levels := isr_unview 0 ws (isr_levels s)\<rparr>)
   }"

text \<open>\<open>irq_t\<close> is an \<open>int8_t\<close>: \<open>-1\<close> is the byte \<open>0xFF\<close>, and \<open>irq >= 0\<close> is a clear top bit.\<close>

definition irq_set_isr :: "u8 \<Rightarrow> u8 \<Rightarrow> kstate \<Rightarrow> kstate option" where
  "irq_set_isr irq isr s = do {
     dassert (irq_map s isr = 0xFF);
     dassert (sint irq \<ge> 0);
     Some (s\<lparr>irq_map := (irq_map s)(isr := irq), isr_map := (isr_map s)(unat irq := isr)\<rparr>)
   }"

definition irq_from_isr :: "u8 \<Rightarrow> kstate \<Rightarrow> u8" where
  "irq_from_isr isr s = irq_map s isr"

definition irq_to_isr :: "u8 \<Rightarrow> kstate \<Rightarrow> u8 option" where
  "irq_to_isr irq s = do {
     dassert (sint irq \<ge> 0);
     Some (isr_map s (unat irq))
   }"

definition int_callback_set :: "u8 \<Rightarrow> bool \<Rightarrow> handler option \<Rightarrow> kstate \<Rightarrow> kstate" where
  "int_callback_set isr eoi h s =
     (if eoi then s\<lparr>cb_eoi := (cb_eoi s)(isr := h)\<rparr> else s\<lparr>cb_handle := (cb_handle s)(isr := h)\<rparr>)"

definition int_callback_frame_get :: "kstate \<Rightarrow> int_frame option" where
  "int_callback_frame_get s = curr_frame s"

text \<open>Lifting of a device operation to the kernel state.\<close>

definition with_io :: "(io \<Rightarrow> io option) \<Rightarrow> kstate \<Rightarrow> kstate option" where
  "with_io f s = do { i \<leftarrow> f (io_st s); Some (s\<lparr>io_st := i\<rparr>) }"

subsection \<open>Initialization\<close>

abbreviation (input) PIC_REMAP_BASE :: u8 where "PIC_REMAP_BASE \<equiv> 32"

definition pic_init :: "kstate \<Rightarrow> kstate option" where
  "pic_init s = do {
     s \<leftarrow> with_io (pic_remap (PIC_CHIP_MASTER + PIC_REMAP_BASE) (PIC_CHIP_SLAVE + PIC_REMAP_BASE)) s;
     s \<leftarrow> with_io (\<lambda>i. Some (pic_irq_disable_all i)) s;
     for_each [0..<16] (\<lambda>i s. do {
       let isr = PIC_REMAP_BASE + of_nat i;
       s \<leftarrow> isr_reserve isr s;
       s \<leftarrow> irq_set_isr (of_nat i) isr s;
       Some (int_callback_set isr True (Some pic_eoi_h) s)
     }) s
   }"

definition exception_init :: "kstate \<Rightarrow> kstate option" where
  "exception_init s = for_each [0..<32] (\<lambda>i s. do {
     s \<leftarrow> isr_reserve (of_nat i) s;
     let s = int_callback_set (of_nat i) False (Some exception_callback_h) s;
     Some (int_callback_set (of_nat i) True (Some exception_info_h) s)
   }) s"

definition int_init :: "kstate \<Rightarrow> kstate option" where
  "int_init s = do {
     s \<leftarrow> exception_init s;
     pic_init s
   }"

abbreviation (input) PIT_IRQ :: u8 where "PIT_IRQ \<equiv> 0"

definition arch_timer_init :: "u32 \<Rightarrow> handler \<Rightarrow> kstate \<Rightarrow> kstate option" where
  "arch_timer_init freq h s = do {
     isr \<leftarrow> irq_to_isr PIT_IRQ s;
     let s = int_callback_set isr False (Some h) s;
     s \<leftarrow> with_io (pic_irq_enable PIT_IRQ) s;
     with_io (pit_timer_set 0 freq PIT_OUTMODE_SQRWAVE) s
   }"

text \<open>\<open>arch_sysio\<close>: the four port accesses a driver may ask for, with their range checks.\<close>

definition arch_sysio :: "u32 \<Rightarrow> u32 \<Rightarrow> u32 \<Rightarrow> io \<Rightarrow> u32 \<times> io" where
  "arch_sysio action arg d i =
     (if action = 0 then
        if arg > 0xFFFF then (EPARAM, i)
        else let (v, i) = inb (ucast arg) i in (ucast v, i)
      else if action = 1 then
        if arg > 0xFFFF then (EPARAM, i)
        else let (v, i) = inw (ucast arg) i in (ucast v, i)
      else if action = 2 then
        if arg > 0xFFFF then (EPARAM, i)
        else if d > 0xFF then (EPARAM, i)
        else (ENONE, outb (ucast arg) (ucast d) i)
      else if action = 3 then
        if arg > 0xFFFF then (EPARAM, i)
        else if d > 0xFFFF then (EPARAM, i)
        else (ENONE, outw (ucast arg) (ucast d) i)
      else (EPARAM, i))"

subsection \<open>Descriptors decode to what was encoded\<close>

definition gdt_base :: "u64 \<Rightarrow> u32" where
  "gdt_base e = ucast (take_bit 24 (drop_bit 16 e)) OR push_bit 24 (ucast (drop_bit 56 e))"

definition gdt_limit :: "u64 \<Rightarrow> u32" where
  "gdt_limit e = ucast (take_bit 16 e) OR push_bit 16 (ucast (take_bit 4 (drop_bit 48 e)))"

definition desc_dpl :: "u64 \<Rightarrow> nat" where
  "desc_dpl e = unat (take_bit 2 (drop_bit 45 e))"

definition idt_base :: "u64 \<Rightarrow> u32" where
  "idt_base e = ucast (take_bit 16 e) OR push_bit 16 (ucast (drop_bit 48 e))"

lemma bit_present: "bit (0x800000000000 :: int) n \<longleftrightarrow> n = 47"
proof -
  have "(0x800000000000 :: int) = 2 ^ 47" by simp
  then show ?thesis by (simp only: bit_exp_iff) simp
qed

lemma gdt_entry_bits:
  "n < 16 \<Longrightarrow> bit (gdt_entry_raw base limit type dpl) n = bit limit n"
  "16 \<le> n \<Longrightarrow> n < 40 \<Longrightarrow> bit (gdt_entry_raw base limit type dpl) n = bit base (n - 16)"
  "45 \<le> n \<Longrightarrow> n < 47 \<Longrightarrow> bit (gdt_entry_raw base limit type dpl) n = bit dpl (n - 45)"
  "48 \<le> n \<Longrightarrow> n < 52 \<Longrightarrow> bit (gdt_entry_raw base limit type dpl) n = bit limit (n - 32)"
  "56 \<le> n \<Longrightarrow> n < 64 \<Longrightarrow> bit (gdt_entry_raw base limit type dpl) n = bit base (n - 32)"
  by (auto simp: gdt_entry_raw_def Let_def bit_simps bit_present)

lemma gdt_entry_decode:
  "gdt_base (gdt_entry_raw base limit type dpl) = base"
  "gdt_limit (gdt_entry_raw base limit type dpl) = take_bit 20 limit"
proof -
  show "gdt_base (gdt_entry_raw base limit type dpl) = base"
  proof (rule bit_word_eqI)
    fix n assume "n < LENGTH(32)"
    then show "bit (gdt_base (gdt_entry_raw base limit type dpl)) n = bit base n"
      by (cases "n < 24") (auto simp: gdt_base_def bit_simps gdt_entry_bits)
  qed
  show "gdt_limit (gdt_entry_raw base limit type dpl) = take_bit 20 limit"
  proof (rule bit_word_eqI)
    fix n assume "n < LENGTH(32)"
    then show "bit (gdt_limit (gdt_entry_raw base limit type dpl)) n = bit (take_bit 20 limit) n"
      by (cases "n < 16"; cases "n < 20") (auto simp: gdt_limit_def bit_simps gdt_entry_bits)
  qed
qed

theorem gdt_entry_roundtrip:
  "gdt_base (gdt_entry_raw base limit type dpl) = base \<and> gdt_limit (gdt_entry_raw base limit type dpl) = take_bit 20 limit"
  by (simp add: gdt_entry_decode)

end
