(* ===== verification/Multitask.thy ===== *)
theory Multitask
  imports Virtual Interrupts
begin

text \<open>
  Processes, threads and tasks: \<open>kernel/core/multitask/process.c\<close>, \<open>thread.c\<close> and
  \<open>kernel/arch/i586/sw/task.c\<close>.  Process control blocks are records of the state; their
  memory is mapped by \<open>virtual_alloc\<close>, which zeroes from the given address to the end of the
  last page it touches.  \<open>block_zero\<close> is that effect on the records of a block, word by word.
\<close>

subsection \<open>Layout of a control block\<close>

text \<open>
  Offsets of the i586 layout of \<open>block_data_t\<close>: the process, 1024 messages of 24 bytes, 64 threads
  of 136 bytes, rounded up to pages.
\<close>

abbreviation (input) PROCESS_T_SIZE :: nat where "PROCESS_T_SIZE \<equiv> 236"
abbreviation (input) MESSAGE_T_SIZE :: nat where "MESSAGE_T_SIZE \<equiv> 24"
abbreviation (input) THREAD_T_SIZE :: nat where "THREAD_T_SIZE \<equiv> 136"
abbreviation (input) BLOCK_DATA_SIZE :: nat where "BLOCK_DATA_SIZE \<equiv> 0x9000"

definition message_offset :: "nat \<Rightarrow> nat" where
  "message_offset i = PROCESS_T_SIZE + MESSAGE_T_SIZE * i"

definition thread_offset :: "nat \<Rightarrow> nat" where
  "thread_offset i = PROCESS_T_SIZE + MESSAGE_T_SIZE * PROCESS_MESSAGE_MAX + THREAD_T_SIZE * i"

definition block_address :: "kstate \<Rightarrow> nat \<Rightarrow> u32" where
  "block_address s n = index_to_addr (blocks_addr s) (of_nat BLOCK_DATA_SIZE) (of_nat n)"

text \<open>A field at an offset, zeroed when its word is in the range.\<close>

definition zero_in :: "nat \<Rightarrow> nat \<Rightarrow> nat \<Rightarrow> 'a \<Rightarrow> 'a \<Rightarrow> 'a" where
  "zero_in lo hi off z v = (if lo \<le> off \<and> off < hi then z else v)"

definition message_zero :: "nat \<Rightarrow> nat \<Rightarrow> nat \<Rightarrow> message \<Rightarrow> message" where
  "message_zero lo hi o' m =
     \<lparr>msg_from = zero_in lo hi o' 0 (msg_from m),
      msg_code = zero_in lo hi (o' + 4) 0 (msg_code m),
      msg_args = map (\<lambda>k. zero_in lo hi (o' + 8 + 4 * k) 0 (msg_args m ! k)) [0..<length (msg_args m)],
      msg_next = zero_in lo hi (o' + 20) 0 (msg_next m),
      msg_payload = zero_in lo hi (o' + 20) False (msg_payload m)\<rparr>"

definition frame_zero :: "nat \<Rightarrow> nat \<Rightarrow> nat \<Rightarrow> int_frame \<Rightarrow> int_frame" where
  "frame_zero lo hi o' f =
     \<lparr>GS = zero_in lo hi o' 0 (GS f), FS = zero_in lo hi (o' + 4) 0 (FS f),
      ES = zero_in lo hi (o' + 8) 0 (ES f), DS = zero_in lo hi (o' + 12) 0 (DS f),
      EDI = zero_in lo hi (o' + 16) 0 (EDI f), ESI = zero_in lo hi (o' + 20) 0 (ESI f),
      EBP = zero_in lo hi (o' + 24) 0 (EBP f), ESP = zero_in lo hi (o' + 28) 0 (ESP f),
      EBX = zero_in lo hi (o' + 32) 0 (EBX f), EDX = zero_in lo hi (o' + 36) 0 (EDX f),
      ECX = zero_in lo hi (o' + 40) 0 (ECX f), EAX = zero_in lo hi (o' + 44) 0 (EAX f),
      int_num = zero_in lo hi (o' + 48) 0 (int_num f), err_code = zero_in lo hi (o' + 52) 0 (err_code f),
      EIP = zero_in lo hi (o' + 56) 0 (EIP f), CS = zero_in lo hi (o' + 60) 0 (CS f),
      EFLAGS = zero_in lo hi (o' + 64) 0 (EFLAGS f), user_esp = zero_in lo hi (o' + 68) 0 (user_esp f),
      SS = zero_in lo hi (o' + 72) 0 (SS f)\<rparr>"

definition thread_zero :: "nat \<Rightarrow> nat \<Rightarrow> nat \<Rightarrow> thread \<Rightarrow> thread" where
  "thread_zero lo hi o' t =
     \<lparr>th_tid = zero_in lo hi o' 0 (th_tid t), th_version = zero_in lo hi o' 0 (th_version t),
      th_owner = zero_in lo hi o' 0 (th_owner t),
      th_state = zero_in lo hi (o' + 4) THREAD_STATE_NEW (th_state t),
      th_task = \<lparr>entry = zero_in lo hi (o' + 8) 0 (entry (th_task t)),
                 stack = zero_in lo hi (o' + 12) 0 (stack (th_task t)),
                 frame = frame_zero lo hi (o' + 16) (frame (th_task t))\<rparr>,
      th_msg_count = zero_in lo hi (o' + 92) 0 (th_msg_count t),
      th_msg_head = zero_in lo hi (o' + 96) 0 (th_msg_head t),
      th_msg_tail = zero_in lo hi (o' + 96) 0 (th_msg_tail t),
      timeslice = zero_in lo hi (o' + 100) 0 (timeslice t),
      sched_next = zero_in lo hi (o' + 104) 0 (sched_next t),
      sched_prev = zero_in lo hi (o' + 104) 0 (sched_prev t),
      wait_for = zero_in lo hi (o' + 108) 0 (wait_for t),
      shm_offer = \<lparr>shm_to = zero_in lo hi (o' + 112) 0 (shm_to (shm_offer t)),
                   shm_addr = zero_in lo hi (o' + 116) 0 (shm_addr (shm_offer t)),
                   shm_size = zero_in lo hi (o' + 120) 0 (shm_size (shm_offer t)),
                   shm_prot = zero_in lo hi (o' + 124) 0 (shm_prot (shm_offer t))\<rparr>,
      payload_addr = zero_in lo hi (o' + 128) 0 (payload_addr t),
      payload_size = zero_in lo hi (o' + 132) 0 (payload_size t)\<rparr>"

text \<open>The process record is at offset 0 and shorter than a page: it is zeroed as a whole or not at all.\<close>

definition block_zero :: "nat \<Rightarrow> nat \<Rightarrow> block_data \<Rightarrow> block_data" where
  "block_zero lo hi b =
     \<lparr>bd_process = (if lo = 0 \<and> PROCESS_T_SIZE \<le> hi then zero_process else bd_process b),
      bd_messages = (\<lambda>i. message_zero lo hi (message_offset i) (bd_messages b i)),
      bd_threads = (\<lambda>i. thread_zero lo hi (thread_offset i) (bd_threads b i))\<rparr>"

definition page_end :: "nat \<Rightarrow> nat" where
  "page_end n = (n + 4095) div 4096 * 4096"

text \<open>\<open>virtual_alloc\<close> of a part of block \<open>n\<close>, offsets \<open>lo\<close> to \<open>lo + sz\<close>.\<close>

definition block_alloc :: "nat \<Rightarrow> nat \<Rightarrow> nat \<Rightarrow> kstate \<Rightarrow> kstate option" where
  "block_alloc n lo sz s = do {
     s \<leftarrow> virtual_alloc s 0 (block_address s n + of_nat lo) (of_nat sz);
     Some (upd_block n (block_zero lo (page_end (lo + sz))) s)
   }"

subsection \<open>Tasks\<close>

definition task_init :: "task_info \<Rightarrow> task_info" where
  "task_init info = info"

text \<open>
  The cold start loads the user data segments, pushes the frame of an \<open>iret\<close> and returns to
  the entry point in ring 3 with interrupts enabled; \<open>eflags\<close> is the flags register at that point.
\<close>

definition task_start :: "link_env \<Rightarrow> u32 \<Rightarrow> task_info \<Rightarrow> kstate \<Rightarrow> kstate option" where
  "task_start L eflags info s = do {
     let s = s\<lparr>kernel_task := tss_init (kernel_stack L - 16)\<rparr>;
     s \<leftarrow> tss_load L s;
     Some (s\<lparr>user_start := Some (zero_frame\<lparr>GS := 0x20 OR 3, FS := 0x20 OR 3, ES := 0x20 OR 3, DS := 0x20 OR 3,
       SS := 0x20 OR 3, user_esp := stack info, EFLAGS := eflags OR 0x200, CS := 0x18 OR 3, EIP := entry info\<rparr>)\<rparr>)
   }"

text \<open>The interrupt frame after a switch to \<open>next\<close>, and the saved state.\<close>

definition task_load :: "task_info \<Rightarrow> int_frame \<Rightarrow> int_frame" where
  "task_load nxt f =
     (if EIP (frame nxt) = 0 then f\<lparr>EIP := entry nxt, user_esp := stack nxt\<rparr> else frame nxt)"

definition task_preserve :: "thread_uid \<Rightarrow> kstate \<Rightarrow> kstate option" where
  "task_preserve uid s = do {
     f \<leftarrow> int_callback_frame_get s;
     Some (upd_thread uid (\<lambda>t. t\<lparr>th_task := (th_task t)\<lparr>frame := f\<rparr>\<rparr>) s)
   }"

definition task_switch :: "thread_uid option \<Rightarrow> thread_uid \<Rightarrow> kstate \<Rightarrow> kstate option" where
  "task_switch cur nxt s = do {
     f \<leftarrow> int_callback_frame_get s;
     s \<leftarrow> (case cur of None \<Rightarrow> Some s | Some c \<Rightarrow> task_preserve c s);
     t \<leftarrow> the_thread s nxt;
     Some (s\<lparr>curr_frame := Some (task_load (th_task t) f)\<rparr>)
   }"

subsection \<open>Processes and threads\<close>

definition process_init :: "kstate \<Rightarrow> kstate option" where
  "process_init s = do {
     (blk, r) \<leftarrow> region_reserve (region_st (km s)) (of_nat (PROCESS_MAX * BLOCK_DATA_SIZE));
     (map_start, r) \<leftarrow> region_reserve r (of_nat (BMSTACK_SIZE PROCESS_MAX));
     let s = s\<lparr>km := (km s)\<lparr>region_st := r\<rparr>, blocks_addr := blk\<rparr>;
     s \<leftarrow> virtual_alloc s 0 map_start (of_nat (BMSTACK_SIZE PROCESS_MAX));
     let bm = bmstack_init (replicate 32 \<lparr>bme_next = None, bme_bitmap = 0\<rparr>);
     bm \<leftarrow> bmstack_set bm 0;
     bm \<leftarrow> bmstack_set bm 1;
     bm \<leftarrow> bmstack_link bm PROCESS_MAX;
     Some (s\<lparr>block_map := bm\<rparr>)
   }"

text \<open>
  The new version of a slot: \<open>max(1, v + 1)\<close> is computed in \<open>size_t\<close> and stored in a byte.
\<close>

definition next_version :: "u8 \<Rightarrow> u8" where
  "next_version v = ucast (max_size 1 (ucast v + 1))"

definition process_new :: "pid_t \<Rightarrow> u32 \<Rightarrow> kstate \<Rightarrow> (pid_t \<times> kstate) option" where
  "process_new ppid e s = do {
     (index, bm) \<leftarrow> bmstack_find_and_set (block_map s);
     dassert (index \<noteq> -1);
     let n = nat index;
     let pid = (of_nat n :: pid_t);
     s \<leftarrow> block_alloc n 0 PROCESS_T_SIZE (s\<lparr>block_map := bm\<rparr>);
     let s = upd_block n (\<lambda>b. b\<lparr>bd_process := zero_process\<rparr>) s;
     let s = s\<lparr>block_versions := (block_versions s)(n := next_version (block_versions s n))\<rparr>;
     let s = upd_process pid (\<lambda>p. p\<lparr>pr_pid := pid, pr_version := block_versions s n\<rparr>) s;
     par \<leftarrow> process_get s ppid;
     let s = upd_process pid (\<lambda>p. p\<lparr>pr_parent := (case par of None \<Rightarrow> 0 | Some _ \<Rightarrow> ppid),
               priv := (case par of None \<Rightarrow> PRIV_DRIVER | Some q \<Rightarrow> priv q), pr_entry := e\<rparr>) s;
     (dir, k) \<leftarrow> paging_dir_create (km s);
     let s = upd_process pid (\<lambda>p. p\<lparr>addr_space := dir\<rparr>) (s\<lparr>km := k\<rparr>);
     Some (pid, s)
   }"

definition thread_new :: "pid_t \<Rightarrow> u32 \<Rightarrow> kstate \<Rightarrow> (thread_uid \<times> kstate) option" where
  "thread_new pid e s = do {
     owner \<leftarrow> the_process s pid;
     (index, bm) \<leftarrow> bitmap_find_and_set (pr_thread_bitmap owner) PROCESS_THREAD_MAX;
     dassert (index \<noteq> -1);
     let i = nat index;
     let uid = mk_uid pid (of_nat i);
     let s = upd_process pid (\<lambda>p. p\<lparr>pr_thread_bitmap := bm\<rparr>) s;
     s \<leftarrow> block_alloc (unat pid) (thread_offset i) THREAD_T_SIZE s;
     let s = upd_thread uid (\<lambda>_. zero_thread) s;
     v \<leftarrow> arr_get (pr_thread_versions owner) i;
     vs \<leftarrow> arr_set (pr_thread_versions owner) i (next_version v);
     let s = upd_process pid (\<lambda>p. p\<lparr>pr_thread_versions := vs, pr_thread_count := pr_thread_count p + 1\<rparr>) s;
     let s = upd_thread uid (\<lambda>t. t\<lparr>th_tid := of_nat i, th_version := next_version v, th_owner := pid,
               th_state := THREAD_STATE_NEW\<rparr>) s;
     let s = upd_thread uid (\<lambda>t. t\<lparr>th_task := (task_init (th_task t))
               \<lparr>entry := (if e \<noteq> 0 then e else pr_entry owner)\<rparr>\<rparr>) s;
     Some (uid, s)
   }"

definition thread_kill :: "thread_uid \<Rightarrow> kstate \<Rightarrow> kstate option" where
  "thread_kill uid s = do {
     target \<leftarrow> the_thread s uid;
     dassert (th_state target \<noteq> THREAD_STATE_ACTIVE);
     owner \<leftarrow> the_process s (uid_pid uid);
     t \<leftarrow> bitmap_test (pr_thread_bitmap owner) (unat (uid_tid uid));
     dassert t;
     bm \<leftarrow> bitmap_clear (pr_thread_bitmap owner) (unat (uid_tid uid));
     Some (upd_process (uid_pid uid)
       (\<lambda>p. p\<lparr>pr_thread_bitmap := bm, pr_thread_count := pr_thread_count p - 1\<rparr>) s)
   }"

text \<open>
  The control block of the process is unmapped at the end.  Its records stay in \<open>blocks\<close>, but no live process number
  leads to them any more.
\<close>

definition process_kill :: "pid_t \<Rightarrow> kstate \<Rightarrow> kstate option" where
  "process_kill pid s = do {
     target \<leftarrow> the_process s pid;
     s \<leftarrow> for_each [0..<PROCESS_THREAD_MAX] (\<lambda>i s. do {
         t \<leftarrow> bitmap_test (pr_thread_bitmap (process_at s pid)) i;
         if t then thread_kill (mk_uid pid (of_nat i)) s else Some s
       }) s;
     bm \<leftarrow> bmstack_clear (block_map s) (unat pid);
     let s = s\<lparr>block_map := bm\<rparr>;
     k \<leftarrow> paging_dir_destroy (km s) (addr_space (process_at s pid));
     let s = s\<lparr>km := k\<rparr>;
     virtual_unmap s 0 (block_address s (unat pid)) (of_nat BLOCK_DATA_SIZE)
   }"

subsection \<open>What the memory operations leave alone\<close>

lemma virtual_alloc_km: "virtual_alloc s pid v sz = Some s' \<Longrightarrow> \<exists>k. s' = s\<lparr>km := k\<rparr>"
  by (auto simp: virtual_alloc_def bind_eq_Some_conv)

lemma virtual_unmap_km: "virtual_unmap s pid v sz = Some s' \<Longrightarrow> \<exists>k. s' = s\<lparr>km := k\<rparr>"
  by (auto simp: virtual_unmap_def bind_eq_Some_conv)

lemma block_zero_simps [simp]:
  "0 < lo \<Longrightarrow> bd_process (block_zero lo hi b) = bd_process b"
  "PROCESS_T_SIZE \<le> hi \<Longrightarrow> bd_process (block_zero 0 hi b) = zero_process"
  "bd_threads (block_zero lo hi b) i = thread_zero lo hi (thread_offset i) (bd_threads b i)"
  "bd_messages (block_zero lo hi b) i = message_zero lo hi (message_offset i) (bd_messages b i)"
  by (simp_all add: block_zero_def)

lemma block_alloc_Some:
  "block_alloc n lo sz s = Some s' \<Longrightarrow> \<exists>k. s' = upd_block n (block_zero lo (page_end (lo + sz))) (s\<lparr>km := k\<rparr>)"
  by (auto simp: block_alloc_def bind_eq_Some_conv dest: virtual_alloc_km)

text \<open>A thread record inside the zeroed range is zero, one before it is unchanged.\<close>

lemma zero_in_cases:
  "lo \<le> off \<Longrightarrow> off < hi \<Longrightarrow> zero_in lo hi off z v = z"
  "off < lo \<Longrightarrow> zero_in lo hi off z v = v"
  "hi \<le> off \<Longrightarrow> zero_in lo hi off z v = v"
  by (simp_all add: zero_in_def)

lemma thread_zero_inside: "lo \<le> off \<Longrightarrow> off + THREAD_T_SIZE \<le> hi \<Longrightarrow> thread_zero lo hi off t = zero_thread"
  by (simp add: thread_zero_def frame_zero_def zero_in_cases zero_thread_def zero_task_def zero_frame_def)

lemma thread_zero_before: "off + THREAD_T_SIZE \<le> lo \<Longrightarrow> thread_zero lo hi off t = t"
  by (simp add: thread_zero_def frame_zero_def zero_in_cases)

lemma thread_zero_after: "hi \<le> off \<Longrightarrow> thread_zero lo hi off t = t"
  by (simp add: thread_zero_def frame_zero_def zero_in_cases)

lemma next_version_eq: "next_version v = v + 1"
proof -
  have v: "unat v < 256" using unsigned_less [of v, where 'a = nat] by simp
  then have u: "unat (ucast v + 1 :: u32) = Suc (unat v)"
    by (simp add: unat_word_ariths unsigned_ucast_eq take_bit_eq_mod)
  then have "max_size 1 (ucast v + 1 :: u32) = ucast v + 1"
    by (auto simp: max_size_def word_less_nat_alt word_unat_eq_iff)
  then have "unat (next_version v) = Suc (unat v) mod 256"
    by (simp add: next_version_def unsigned_ucast_eq take_bit_eq_mod u)
  then show ?thesis by (simp add: word_unat_eq_iff unat_word_ariths)
qed

subsection \<open>Creating a thread\<close>

lemma upd_block_zero [simp]:
  assumes "0 < lo"
  shows "process_at (upd_block n (block_zero lo hi) s) p = process_at s p"
    and "live_pid (upd_block n (block_zero lo hi) s) p = live_pid s p"
    and "live_uid (upd_block n (block_zero lo hi) s) u = live_uid s u"
    and "table_ok (upd_block n (block_zero lo hi) s) = table_ok s"
    and "thread_at (upd_block n (block_zero lo hi) s) u =
      (if unat (uid_pid u) = n then thread_zero lo hi (thread_offset (unat (uid_tid u))) (thread_at s u) else thread_at s u)"
  using assms
  by (auto simp: upd_block_def process_at_def live_pid_def live_uid_def table_ok_def thread_at_def)

lemma thread_offset_pos [simp]: "0 < thread_offset i"
  by (simp add: thread_offset_def)

definition new_thread :: "kstate \<Rightarrow> thread_uid \<Rightarrow> u32 \<Rightarrow> thread" where
  "new_thread s uid e = zero_thread\<lparr>th_tid := uid_tid uid,
     th_version := next_version (pr_thread_versions (process_at s (uid_pid uid)) ! unat (uid_tid uid)),
     th_owner := uid_pid uid, th_state := THREAD_STATE_NEW,
     th_task := zero_task\<lparr>entry := (if e \<noteq> 0 then e else pr_entry (process_at s (uid_pid uid)))\<rparr>\<rparr>"

lemma take_bit_pid: "live_pid s pid \<Longrightarrow> take_bit 10 pid = pid"
  by (simp add: live_pid_def word_unat_eq_iff unat_take_bit)

lemma thread_new_spec:
  assumes ok: "table_ok s" and run: "thread_new pid e s = Some (uid, s')"
  shows "live_pid s pid" "uid_pid uid = pid" "\<not> live_uid s uid" "table_ok s'"
    and "live_pid s' = live_pid s" "live_uid s' v \<longleftrightarrow> v = uid \<or> live_uid s v"
    and "thread_at s' uid = new_thread s uid e"
    and "v \<noteq> uid \<Longrightarrow> thread_at s' v = (if uid_pid v = pid
       then thread_zero (thread_offset (unat (uid_tid uid))) (page_end (thread_offset (unat (uid_tid uid)) + THREAD_T_SIZE))
              (thread_offset (unat (uid_tid v))) (thread_at s v)
       else thread_at s v)"
    and "q \<noteq> pid \<Longrightarrow> process_at s' q = process_at s q"
    and "pr_thread_count (process_at s' pid) = pr_thread_count (process_at s pid) + 1"
    and "active_thread s' = active_thread s" "locked s' = locked s"
proof -
  let ?P = "process_at s pid"
  obtain n bm s1 v0 vs where live: "live_pid s pid"
    and al: "bitmap_find_and_set (pr_thread_bitmap ?P) 64 = Some (n, bm)"
    and s1: "block_alloc (unat pid) (thread_offset (nat n)) 136 (upd_process pid (\<lambda>p. p\<lparr>pr_thread_bitmap := bm\<rparr>) s) = Some s1"
    and v0: "arr_get (pr_thread_versions ?P) (nat n) = Some v0"
    and vs: "arr_set (pr_thread_versions ?P) (nat n) (next_version v0) = Some vs"
    and uid: "uid = mk_uid pid (of_nat (nat n))"
    and s': "s' = upd_thread uid (\<lambda>t. t\<lparr>th_task := (task_init (th_task t))\<lparr>entry := (if e \<noteq> 0 then e else pr_entry ?P)\<rparr>\<rparr>)
        (upd_thread uid (\<lambda>t. t\<lparr>th_tid := of_nat (nat n), th_version := next_version v0, th_owner := pid, th_state := THREAD_STATE_NEW\<rparr>)
        (upd_process pid (\<lambda>p. p\<lparr>pr_thread_versions := vs, pr_thread_count := pr_thread_count p + 1\<rparr>)
        (upd_thread uid (\<lambda>_. zero_thread) s1)))"
    using run unfolding thread_new_def the_process_ok [OF ok]
    by (auto simp: bind_eq_Some_conv Let_def split: if_splits prod.splits)
  have len: "length (pr_thread_bitmap ?P) = 2" "length (pr_thread_versions ?P) = 64" "length (pr_msg_bitmap ?P) = 32"
    using ok by (simp_all add: table_ok_def process_at_def)
  obtain i where i: "n = int i" "i < 64" "i \<notin> bitmap_bits (pr_thread_bitmap ?P)"
      "bitmap_bits bm = insert i (bitmap_bits (pr_thread_bitmap ?P))" "length bm = 2"
    using thread_slots.alloc_sound [of "pr_thread_bitmap ?P" n bm] len(1) al by auto
  have ti: "unat (of_nat i :: u8) = i" using i(2) by (simp add: unat_of_nat)
  have u: "uid_pid uid = pid" "uid_tid uid = of_nat i" "unat (uid_tid uid) = i"
    using uid i ti take_bit_pid [OF live] by simp_all
  obtain k where k: "s1 = upd_block (unat pid) (block_zero (thread_offset i) (page_end (thread_offset i + 136)))
      ((upd_process pid (\<lambda>p. p\<lparr>pr_thread_bitmap := bm\<rparr>) s)\<lparr>km := k\<rparr>)"
    using block_alloc_Some [OF s1] i(1) by auto
  have vv: "v0 = pr_thread_versions ?P ! i" "length vs = 64"
    using v0 vs i(1) len(2) by (auto simp: arr_get_def arr_set_def split: if_splits)
  have ok1: "table_ok (upd_process pid (\<lambda>p. p\<lparr>pr_thread_bitmap := bm\<rparr>) s)"
    by (rule table_ok_upd_process [OF ok]) (simp_all add: i len)
  show "live_pid s pid" "uid_pid uid = pid" using live u by simp_all
  show "\<not> live_uid s uid" using i(3) u by (simp add: live_uid_process)
  show "table_ok s'"
    using ok1 len vv(2) i(5) by (simp add: s' k table_ok_upd_process)
  show "live_pid s' = live_pid s" by (simp add: s' k fun_eq_iff)
  show "live_uid s' v \<longleftrightarrow> v = uid \<or> live_uid s v"
    using live i(4) u by (auto simp: s' k live_uid_process uid_eq_iff [of v uid] simp flip: word_unat_eq_iff)
  show "thread_at s' uid = new_thread s uid e"
    using u i(1) vv(1) by (simp add: s' new_thread_def task_init_def zero_thread_def)
  show "v \<noteq> uid \<Longrightarrow> thread_at s' v = (if uid_pid v = pid
       then thread_zero (thread_offset (unat (uid_tid uid))) (page_end (thread_offset (unat (uid_tid uid)) + THREAD_T_SIZE))
              (thread_offset (unat (uid_tid v))) (thread_at s v)
       else thread_at s v)"
    using u by (simp add: s' k word_unat_eq_iff)
  show "q \<noteq> pid \<Longrightarrow> process_at s' q = process_at s q" by (simp add: s' k)
  show "pr_thread_count (process_at s' pid) = pr_thread_count (process_at s pid) + 1" by (simp add: s' k)
  show "active_thread s' = active_thread s" "locked s' = locked s" by (simp_all add: s' k upd_block_def)
qed

subsection \<open>Ending a thread\<close>

lemma thread_kill_spec:
  assumes ok: "table_ok s" and run: "thread_kill uid s = Some s'"
  shows "live_uid s uid" "th_state (thread_at s uid) \<noteq> THREAD_STATE_ACTIVE" "table_ok s'"
    and "live_pid s' = live_pid s" "live_uid s' v \<longleftrightarrow> v \<noteq> uid \<and> live_uid s v"
    and "thread_at s' = thread_at s" "block_map s' = block_map s" "km s' = km s"
    and "blocks_addr s' = blocks_addr s"
    and "q \<noteq> uid_pid uid \<Longrightarrow> process_at s' q = process_at s q"
    and "addr_space (process_at s' q) = addr_space (process_at s q)"
    and "active_thread s' = active_thread s" "locked s' = locked s"
proof -
  let ?p = "uid_pid uid"
  let ?P = "process_at s ?p"
  obtain bm where live: "live_uid s uid" "th_state (thread_at s uid) \<noteq> THREAD_STATE_ACTIVE"
    and bm: "bitmap_clear (pr_thread_bitmap ?P) (unat (uid_tid uid)) = Some bm"
    and s': "s' = upd_process ?p (\<lambda>p. p\<lparr>pr_thread_bitmap := bm, pr_thread_count := pr_thread_count p - 1\<rparr>) s"
    using run unfolding thread_kill_def the_process_ok [OF ok] the_thread_ok [OF ok]
    by (auto simp: bind_eq_Some_conv Let_def split: if_splits)
  have len: "length (pr_thread_bitmap ?P) = 2" "length (pr_thread_versions ?P) = 64" "length (pr_msg_bitmap ?P) = 32"
    using ok by (simp_all add: table_ok_def process_at_def)
  obtain bm' where "bitmap_clear (pr_thread_bitmap ?P) (unat (uid_tid uid)) = Some bm'" "length bm' = 2"
    "bitmap_bits bm' = bitmap_bits (pr_thread_bitmap ?P) - {unat (uid_tid uid)}"
    using bitmap_clear_bits [of "unat (uid_tid uid)" "pr_thread_bitmap ?P"] len(1) unat_uid_tid [of uid] by auto
  then have b: "bitmap_bits bm = bitmap_bits (pr_thread_bitmap ?P) - {unat (uid_tid uid)}" "length bm = 2"
    using bm by auto
  show "live_uid s uid" "th_state (thread_at s uid) \<noteq> THREAD_STATE_ACTIVE" using live by simp_all
  show "table_ok s'" unfolding s' by (rule table_ok_upd_process [OF ok]) (simp_all add: b len)
  show "live_pid s' = live_pid s" by (simp add: s' fun_eq_iff)
  show "live_uid s' v \<longleftrightarrow> v \<noteq> uid \<and> live_uid s v"
    using b(1) by (auto simp: s' live_uid_process uid_eq_iff [of v uid] simp flip: word_unat_eq_iff)
  show "thread_at s' = thread_at s" "block_map s' = block_map s" "km s' = km s" "blocks_addr s' = blocks_addr s"
    "active_thread s' = active_thread s" "locked s' = locked s"
    by (simp_all add: s' fun_eq_iff)
  show "q \<noteq> uid_pid uid \<Longrightarrow> process_at s' q = process_at s q" by (simp add: s')
  show "addr_space (process_at s' q) = addr_space (process_at s q)" by (simp add: s')
qed

text \<open>The loop of \<open>process_kill\<close> ends every thread of the process.\<close>

definition kill_threads :: "pid_t \<Rightarrow> nat list \<Rightarrow> kstate \<Rightarrow> kstate option" where
  "kill_threads pid is = for_each is (\<lambda>i s. do {
     t \<leftarrow> bitmap_test (pr_thread_bitmap (process_at s pid)) i;
     if t then thread_kill (mk_uid pid (of_nat i)) s else Some s
   })"

lemma live_uid_tid:
  "live_pid s pid \<Longrightarrow> i < 64 \<Longrightarrow>
   live_uid s (mk_uid pid (of_nat i)) \<longleftrightarrow> i \<in> bitmap_bits (pr_thread_bitmap (process_at s pid))"
  by (simp add: live_uid_process take_bit_pid unat_of_nat)

lemma kill_threads_spec:
  assumes "table_ok s" and "live_pid s pid" and "\<forall>i \<in> set is. i < 64" and "kill_threads pid is s = Some s'"
  shows "table_ok s' \<and> live_pid s' = live_pid s \<and> thread_at s' = thread_at s \<and> block_map s' = block_map s \<and>
    km s' = km s \<and> blocks_addr s' = blocks_addr s \<and>
    (\<forall>v. live_uid s' v \<longleftrightarrow> live_uid s v \<and> \<not> (uid_pid v = pid \<and> unat (uid_tid v) \<in> set is)) \<and>
    (\<forall>q. q \<noteq> pid \<longrightarrow> process_at s' q = process_at s q) \<and>
    (\<forall>q. addr_space (process_at s' q) = addr_space (process_at s q)) \<and>
    (\<forall>v. live_uid s v \<and> uid_pid v = pid \<and> unat (uid_tid v) \<in> set is \<longrightarrow> th_state (thread_at s v) \<noteq> THREAD_STATE_ACTIVE)"
  using assms
proof (induction "is" arbitrary: s)
  case Nil
  then show ?case by (simp add: kill_threads_def)
next
  case (Cons i "is")
  let ?u = "mk_uid pid (of_nat i)"
  have i: "i < 64" using Cons.prems(3) by simp
  have u: "uid_pid ?u = pid" "unat (uid_tid ?u) = i" using i Cons.prems(2) by (simp_all add: take_bit_pid unat_of_nat)
  have t: "bitmap_test (pr_thread_bitmap (process_at s pid)) i = Some (live_uid s ?u)"
    using bitmap_test_bits [of i "pr_thread_bitmap (process_at s pid)"] i Cons.prems(1,2)
    by (simp add: live_uid_tid table_ok_def process_at_def)
  obtain s1 where s1: "(if live_uid s ?u then thread_kill ?u s else Some s) = Some s1" "kill_threads pid is s1 = Some s'"
    using Cons.prems(4) t by (auto simp: kill_threads_def bind_eq_Some_conv)
  have k: "table_ok s1 \<and> live_pid s1 = live_pid s \<and> thread_at s1 = thread_at s \<and> block_map s1 = block_map s \<and>
     km s1 = km s \<and> blocks_addr s1 = blocks_addr s \<and> (\<forall>v. live_uid s1 v \<longleftrightarrow> v \<noteq> ?u \<and> live_uid s v) \<and>
     (\<forall>q. q \<noteq> pid \<longrightarrow> process_at s1 q = process_at s q) \<and> (\<forall>q. addr_space (process_at s1 q) = addr_space (process_at s q)) \<and>
     (live_uid s ?u \<longrightarrow> th_state (thread_at s ?u) \<noteq> THREAD_STATE_ACTIVE)"
    using thread_kill_spec [OF Cons.prems(1)] s1(1) Cons.prems(1) u by (auto split: if_splits)
  then have lp: "live_pid s1 pid" using Cons.prems(2) by simp
  have e: "v = ?u \<longleftrightarrow> uid_pid v = pid \<and> unat (uid_tid v) = i" for v
    using u uid_eq_iff [of v ?u] by (auto simp: word_unat_eq_iff)
  have ok1: "table_ok s1" "\<forall>i \<in> set is. i < 64" using k Cons.prems(3) by simp_all
  note IH = Cons.IH [OF ok1(1) lp ok1(2) s1(2)]
  have "live_uid s' v \<longleftrightarrow> live_uid s v \<and> \<not> (uid_pid v = pid \<and> unat (uid_tid v) \<in> set (i # is))" for v
    using IH k e [of v] by auto
  moreover have "th_state (thread_at s v) \<noteq> THREAD_STATE_ACTIVE"
    if "live_uid s v" "uid_pid v = pid" "unat (uid_tid v) \<in> set (i # is)" for v
  proof (cases "v = ?u")
    case True
    then show ?thesis using k that(1) by simp
  next
    case False
    then have "live_uid s1 v" "unat (uid_tid v) \<in> set is" using k that e [of v] by auto
    then show ?thesis using IH k that(2) by simp
  qed
  ultimately show ?case using IH k by simp
qed

lemma process_kill_spec:
  assumes ok: "table_ok s" and run: "process_kill pid s = Some s'"
  shows "live_pid s pid" "\<not> live_pid s' pid" "q \<noteq> pid \<Longrightarrow> live_pid s' q = live_pid s q"
    and "uid_pid v \<noteq> pid \<Longrightarrow> live_uid s' v = live_uid s v \<and> thread_at s' v = thread_at s v"
    and "q \<noteq> pid \<Longrightarrow> process_at s' q = process_at s q" "table_ok s'"
    and "\<And>u. live_uid s u \<Longrightarrow> uid_pid u = pid \<Longrightarrow> th_state (thread_at s u) \<noteq> THREAD_STATE_ACTIVE"
proof -
  obtain s1 bm k where live: "live_pid s pid" and k1: "kill_threads pid [0..<64] s = Some s1"
    and bm: "bmstack_clear (block_map s1) (unat pid) = Some bm"
    and un: "virtual_unmap (s1\<lparr>block_map := bm, km := k\<rparr>) 0 (block_address (s1\<lparr>block_map := bm, km := k\<rparr>) (unat pid)) 0x9000 = Some s'"
    using run unfolding process_kill_def the_process_ok [OF ok] kill_threads_def [symmetric]
    by (auto simp: bind_eq_Some_conv Let_def split: if_splits)
  have K: "table_ok s1 \<and> live_pid s1 = live_pid s \<and> thread_at s1 = thread_at s \<and> block_map s1 = block_map s \<and>
    (\<forall>v. live_uid s1 v \<longleftrightarrow> live_uid s v \<and> uid_pid v \<noteq> pid) \<and>
    (\<forall>q. q \<noteq> pid \<longrightarrow> process_at s1 q = process_at s q) \<and>
    (\<forall>v. live_uid s v \<and> uid_pid v = pid \<longrightarrow> th_state (thread_at s v) \<noteq> THREAD_STATE_ACTIVE)"
    using kill_threads_spec [OF ok live _ k1] unat_uid_tid by auto
  obtain k' where s': "s' = s1\<lparr>block_map := bm, km := k'\<rparr>"
    using virtual_unmap_km [OF un] by auto
  have p: "unat pid < 1024" using live by (simp add: live_pid_def)
  have w: "bmstack_winv (block_map s)" "bmstack_cap (block_map s) = 1024" using ok by (simp_all add: table_ok_def)
  have b: "bmstack_used bm = bmstack_used (block_map s) - {unat pid}" "bmstack_cap bm = 1024" "bmstack_winv bm"
    using bmstack_slots.release_used [OF w(1), of "unat pid"] bm K w(2) p by auto
  have lp: "live_pid s' q \<longleftrightarrow> q \<noteq> pid \<and> live_pid s q" for q
    using b(1) by (auto simp: live_pid_def s' word_unat_eq_iff)
  have pa: "process_at s' = process_at s1" "thread_at s' = thread_at s1"
    by (simp_all add: s' process_at_def thread_at_def fun_eq_iff)
  have lu: "live_uid s' v \<longleftrightarrow> uid_pid v \<noteq> pid \<and> live_uid s1 v" for v
    using K by (auto simp: live_uid_process lp pa)
  show "live_pid s pid" "\<not> live_pid s' pid" "q \<noteq> pid \<Longrightarrow> live_pid s' q = live_pid s q" using live lp by auto
  show "uid_pid v \<noteq> pid \<Longrightarrow> live_uid s' v = live_uid s v \<and> thread_at s' v = thread_at s v"
    using K by (simp add: lu pa)
  show "q \<noteq> pid \<Longrightarrow> process_at s' q = process_at s q" using K by (simp add: pa)
  show "table_ok s'" using K b by (simp add: table_ok_def s')
  show "\<And>u. live_uid s u \<Longrightarrow> uid_pid u = pid \<Longrightarrow> th_state (thread_at s u) \<noteq> THREAD_STATE_ACTIVE" using K by blast
qed

subsection \<open>Creating a process\<close>

lemma process_new_spec:
  assumes ok: "table_ok s" and res: "{0, 1} \<subseteq> bmstack_used (block_map s)" and pp: "ppid = 0 \<or> live_pid s ppid"
    and run: "process_new ppid e s = Some (pid, s')"
  shows "\<not> live_pid s pid" "live_pid s' pid" "q \<noteq> pid \<Longrightarrow> live_pid s' q = live_pid s q" "table_ok s'"
    and "q \<noteq> pid \<Longrightarrow> process_at s' q = process_at s q"
    and "uid_pid v \<noteq> pid \<Longrightarrow> thread_at s' v = thread_at s v" "uid_pid v = pid \<Longrightarrow> \<not> live_uid s' v"
    and "\<exists>dir. process_at s' pid = zero_process\<lparr>pr_pid := pid, pr_version := next_version (block_versions s (unat pid)),
       pr_parent := ppid, priv := (if ppid = 0 then PRIV_DRIVER else priv (process_at s ppid)),
       pr_entry := e, addr_space := dir\<rparr>"
    and "block_versions s' = (block_versions s)(unat pid := next_version (block_versions s (unat pid)))"
proof -
  obtain n bm s1 par dir k where al: "bmstack_find_and_set (block_map s) = Some (n, bm)" and pid: "pid = of_nat (nat n)"
    and s1: "block_alloc (nat n) 0 236 (s\<lparr>block_map := bm\<rparr>) = Some s1"
    and par: "process_get (upd_process pid (\<lambda>p. p\<lparr>pr_pid := pid, pr_version := next_version (block_versions s1 (nat n))\<rparr>)
       ((upd_block (nat n) (\<lambda>b. b\<lparr>bd_process := zero_process\<rparr>) s1)\<lparr>block_versions :=
          (block_versions s1)(nat n := next_version (block_versions s1 (nat n)))\<rparr>)) ppid = Some par"
    and s': "s' = upd_process pid (\<lambda>p. p\<lparr>addr_space := dir\<rparr>) ((upd_process pid (\<lambda>p. p\<lparr>pr_parent := (case par of None \<Rightarrow> 0 | Some _ \<Rightarrow> ppid),
               priv := (case par of None \<Rightarrow> PRIV_DRIVER | Some q \<Rightarrow> priv q), pr_entry := e\<rparr>)
       (upd_process pid (\<lambda>p. p\<lparr>pr_pid := pid, pr_version := next_version (block_versions s1 (nat n))\<rparr>)
       ((upd_block (nat n) (\<lambda>b. b\<lparr>bd_process := zero_process\<rparr>) s1)\<lparr>block_versions :=
          (block_versions s1)(nat n := next_version (block_versions s1 (nat n)))\<rparr>)))\<lparr>km := k\<rparr>)"
    using run unfolding process_new_def
    by (auto simp: bind_eq_Some_conv Let_def upd_block_def split: if_splits prod.splits)
  have w: "bmstack_winv (block_map s)" "bmstack_cap (block_map s) = 1024" using ok by (simp_all add: table_ok_def)
  obtain i where i: "n = int i" "i < 1024" "i \<notin> bmstack_used (block_map s)"
      "bmstack_used bm = insert i (bmstack_used (block_map s))" "bmstack_cap bm = 1024" "bmstack_winv bm"
    using bmstack_slots.alloc_sound [OF w(1) al] w(2) by auto
  have pi: "unat pid = i" using pid i(1,2) by (simp add: unat_of_nat)
  have "i \<noteq> 0 \<and> i \<noteq> 1" using res i(3) by (intro conjI notI) auto
  then have i2: "2 \<le> i" by linarith
  obtain k1 where k1: "s1 = upd_block i (block_zero 0 (page_end 236)) (s\<lparr>block_map := bm, km := k1\<rparr>)"
    using block_alloc_Some [OF s1] i(1) by auto
  have pa: "process_at s' q = (if q = pid then zero_process\<lparr>pr_pid := pid, pr_version := next_version (block_versions s i),
       pr_parent := (case par of None \<Rightarrow> 0 | Some _ \<Rightarrow> ppid), priv := (case par of None \<Rightarrow> PRIV_DRIVER | Some q \<Rightarrow> priv q),
       pr_entry := e, addr_space := dir\<rparr> else process_at s q)" for q
    using pi i(1) by (auto simp: s' k1 upd_process_def upd_block_def process_at_def word_unat_eq_iff)
  have lp: "live_pid s' q \<longleftrightarrow> q = pid \<or> live_pid s q" for q
    using pi i i2 by (auto simp: live_pid_def s' k1 upd_process_def upd_block_def word_unat_eq_iff)
  have th: "uid_pid v \<noteq> pid \<Longrightarrow> thread_at s' v = thread_at s v" for v
    using pi i(1) by (auto simp: s' k1 upd_process_def upd_block_def thread_at_def word_unat_eq_iff)
  have bv: "block_versions s' = (block_versions s)(i := next_version (block_versions s i))"
    using i(1) by (simp add: s' k1 upd_process_def upd_block_def)
  have nl: "\<not> live_pid s pid" using i(3) pi by (simp add: live_pid_def)
  have z: "length (pr_thread_bitmap zero_process) = 2" "length (pr_thread_versions zero_process) = 64"
     "length (pr_msg_bitmap zero_process) = 32" "bitmap_bits (pr_thread_bitmap zero_process) = {}"
    using bitmap_clear_all_bits(2) [of 2] by (simp_all add: zero_process_def numeral_2_eq_2)
  show "table_ok s'"
    using ok i z pi by (auto simp: table_ok_def s' k1 upd_process_def upd_block_def)
  define t where "t = upd_process pid (\<lambda>p. p\<lparr>pr_pid := pid, pr_version := next_version (block_versions s1 (nat n))\<rparr>)
       ((upd_block (nat n) (\<lambda>b. b\<lparr>bd_process := zero_process\<rparr>) s1)\<lparr>block_versions :=
          (block_versions s1)(nat n := next_version (block_versions s1 (nat n)))\<rparr>)"
  have "table_ok t" using ok i z pi by (auto simp: table_ok_def t_def k1 upd_process_def upd_block_def)
  moreover have "live_pid t q \<longleftrightarrow> q = pid \<or> live_pid s q" for q
    using pi i i2 by (auto simp: live_pid_def t_def k1 upd_process_def upd_block_def word_unat_eq_iff)
  moreover have "q \<noteq> pid \<Longrightarrow> process_at t q = process_at s q" for q
    using pi i(1) by (auto simp: t_def k1 upd_process_def upd_block_def process_at_def word_unat_eq_iff)
  moreover have "ppid \<noteq> pid" "\<not> live_pid s 0" using pp nl pi i2 by (auto simp: live_pid_def)
  ultimately have "par = (if ppid = 0 then None else Some (process_at s ppid))"
    using par pp process_get_ok [of t ppid] by (auto simp: t_def [symmetric])
  then show "\<exists>dir. process_at s' pid = zero_process\<lparr>pr_pid := pid, pr_version := next_version (block_versions s (unat pid)),
       pr_parent := ppid, priv := (if ppid = 0 then PRIV_DRIVER else priv (process_at s ppid)), pr_entry := e, addr_space := dir\<rparr>"
    by (intro exI [of _ dir]) (simp add: pa pi)
  show "\<not> live_pid s pid" "live_pid s' pid" "q \<noteq> pid \<Longrightarrow> live_pid s' q = live_pid s q"
    "q \<noteq> pid \<Longrightarrow> process_at s' q = process_at s q" "uid_pid v \<noteq> pid \<Longrightarrow> thread_at s' v = thread_at s v"
    using nl lp pa th by auto
  show "uid_pid v = pid \<Longrightarrow> \<not> live_uid s' v" using z(4) by (simp add: live_uid_process pa)
  show "block_versions s' = (block_versions s)(unat pid := next_version (block_versions s (unat pid)))"
    using bv pi by simp
qed

subsection \<open>Lifetimes\<close>

text \<open>
  A process can be killed when its threads are off the run queue and the frames it gives back are
  under management.
\<close>

definition killable :: "kstate \<Rightarrow> pid_t \<Rightarrow> bool" where
  "killable s pid \<longleftrightarrow> live_pid s pid \<and>
     (\<forall>u. live_uid s u \<longrightarrow> uid_pid u = pid \<longrightarrow> th_state (thread_at s u) \<noteq> THREAD_STATE_ACTIVE) \<and>
     kmem_ok (km s) \<and> destroyable (km s) (addr_space (process_at s pid)) \<and>
     unat (block_address s (unat pid)) + 0x9000 \<le> 0xFFC00000 \<and>
     unmappable (km s) (set (range_pages (block_address s (unat pid)) 0x9000))"

lemma thread_kill_returns:
  "table_ok s \<Longrightarrow> live_uid s u \<Longrightarrow> th_state (thread_at s u) \<noteq> THREAD_STATE_ACTIVE \<Longrightarrow> \<exists>s'. thread_kill u s = Some s'"
  using bitmap_clear_bits [of "unat (uid_tid u)" "pr_thread_bitmap (process_at s (uid_pid u))"]
    bitmap_test_bits [of "unat (uid_tid u)" "pr_thread_bitmap (process_at s (uid_pid u))"] unat_uid_tid [of u]
  by (auto simp: thread_kill_def the_thread_ok the_process_ok live_uid_process table_ok_def process_at_def)

lemma kill_threads_returns:
  assumes "table_ok s" and "live_pid s pid" and "\<forall>i \<in> set is. i < 64"
    and "\<forall>u. live_uid s u \<longrightarrow> uid_pid u = pid \<longrightarrow> th_state (thread_at s u) \<noteq> THREAD_STATE_ACTIVE"
  shows "\<exists>s'. kill_threads pid is s = Some s'"
  using assms
proof (induction "is" arbitrary: s)
  case (Cons i "is")
  let ?u = "mk_uid pid (of_nat i)"
  have i: "i < 64" "uid_pid ?u = pid" using Cons.prems(2,3) by (simp_all add: take_bit_pid)
  have t: "bitmap_test (pr_thread_bitmap (process_at s pid)) i = Some (live_uid s ?u)"
    using bitmap_test_bits [of i "pr_thread_bitmap (process_at s pid)"] i Cons.prems(1,2)
    by (simp add: live_uid_tid table_ok_def process_at_def)
  obtain s1 where s1: "(if live_uid s ?u then thread_kill ?u s else Some s) = Some s1"
    using thread_kill_returns [OF Cons.prems(1), of ?u] Cons.prems(4) i(2) by (cases "live_uid s ?u") auto
  have k: "table_ok s1 \<and> live_pid s1 = live_pid s \<and> thread_at s1 = thread_at s \<and> (\<forall>v. live_uid s1 v \<longrightarrow> live_uid s v)"
    using thread_kill_spec [OF Cons.prems(1)] s1 Cons.prems(1) by (auto split: if_splits)
  have "\<exists>s'. kill_threads pid is s1 = Some s'"
    by (rule Cons.IH) (use k Cons.prems in auto)
  then show ?case using t s1 by (auto simp: kill_threads_def)
qed (simp add: kill_threads_def)

text \<open>
  How often killing a process releases a frame: for its address space, and once for each page of its
  control block that is mapped to it.
\<close>

definition kill_drops :: "kstate \<Rightarrow> pid_t \<Rightarrow> u32 \<Rightarrow> nat" where
  "kill_drops s pid a = destroy_drops (mem (km s)) (addr_space (process_at s pid)) a +
     length (filter (\<lambda>v. page_frame_at (mem (km s)) (kernel_dir (km s)) v = Some a) (range_pages (block_address s (unat pid)) 0x9000))"

lemma process_kill_memory:
  assumes ok: "table_ok s" and k: "killable s pid"
  shows "\<exists>s'. process_kill pid s = Some s' \<and> bitmap_bits (pr_thread_bitmap (process_at s' pid)) = {} \<and>
    (\<forall>a. frame_count (phys_st (km s')) a = frame_count (phys_st (km s)) a - kill_drops s pid a) \<and>
    (let V = range_pages (block_address s (unat pid)) 0x9000; kd = kernel_dir (km s) in
     (\<forall>v \<in> set V. walk (mem (km s')) kd v = None) \<and>
     (\<forall>v. dir_index v < 1023 \<longrightarrow> page_align v \<notin> set V \<longrightarrow> walk (mem (km s')) kd v = walk (mem (km s)) kd v))"
proof -
  let ?b = "block_address s (unat pid)" and ?dir = "addr_space (process_at s pid)"
  have live: "live_pid s pid" using k by (simp add: killable_def)
  obtain s1 where s1: "kill_threads pid [0..<64] s = Some s1"
    using kill_threads_returns [OF ok live, of "[0..<64]"] k by (auto simp: killable_def)
  have K: "table_ok s1 \<and> block_map s1 = block_map s \<and> km s1 = km s \<and> blocks_addr s1 = blocks_addr s \<and>
      addr_space (process_at s1 pid) = ?dir \<and> live_pid s1 = live_pid s \<and>
      (\<forall>v. live_uid s1 v \<longleftrightarrow> live_uid s v \<and> \<not> (uid_pid v = pid \<and> unat (uid_tid v) \<in> set [0..<64]))"
    using kill_threads_spec [OF ok live _ s1] by auto
  have lp: "live_pid s1 pid" using K live by simp
  have "bitmap_bits (pr_thread_bitmap (process_at s1 pid)) \<subseteq> {..<64}"
    using bitmap_bits_subset [of "pr_thread_bitmap (process_at s1 pid)"] K by (simp add: table_ok_def process_at_def)
  moreover have "i \<notin> bitmap_bits (pr_thread_bitmap (process_at s1 pid))" if i: "i < 64" for i
  proof -
    have "uid_pid (mk_uid pid (of_nat i)) = pid" "unat (uid_tid (mk_uid pid (of_nat i))) = i"
      using i live by (simp_all add: take_bit_pid unat_of_nat)
    then have "\<not> live_uid s1 (mk_uid pid (of_nat i))" using K i by auto
    then show ?thesis using live_uid_tid [OF lp i] by simp
  qed
  ultimately have bits: "bitmap_bits (pr_thread_bitmap (process_at s1 pid)) = {}" by blast
  obtain bm where bm: "bmstack_clear (block_map s) (unat pid) = Some bm"
    using bmstack_slots.release_used [of "block_map s" "unat pid"] ok live by (auto simp: table_ok_def live_pid_def)
  obtain k2 where k2: "paging_dir_destroy (km s) ?dir = Some k2" "dropped (km s) k2 (destroy_drops (mem (km s)) ?dir)"
    using paging_dir_destroy_drops [of "km s" ?dir] k by (auto simp: killable_def)
  then have q: "mem k2 = mem (km s)" "kernel_dir k2 = kernel_dir (km s)" "frames (phys_st k2) = frames (phys_st (km s))" "kmem_ok k2"
    using k by (auto simp: dropped_def quiet_def killable_def kmem_ok_def)
  let ?s2 = "s1\<lparr>block_map := bm, km := k2\<rparr>"
  have b: "block_address ?s2 (unat pid) = ?b" using K by (simp add: block_address_def)
  have um: "unmappable k2 (set (range_pages ?b 0x9000))" using k q by (simp add: killable_def unmappable_def managed_def)
  have nb: "unat ?b + 0x9000 \<le> 0xFFFFF000" using k by (simp add: killable_def)
  obtain k3 where k3: "virtual_unmap ?s2 0 ?b 0x9000 = Some (?s2\<lparr>km := k3\<rparr>)" "unmapped k2 (range_pages ?b 0x9000) k3"
    using virtual_unmap_kernel [of ?s2 ?b "0x9000"] q(4) um nb by auto
  have pa: "process_at ?s2 = process_at s1" "process_at (?s2\<lparr>km := k3\<rparr>) = process_at s1" by (simp_all add: process_at_def fun_eq_iff)
  have "process_kill pid s = Some (?s2\<lparr>km := k3\<rparr>)"
    using s1 K bm k2(1) live b k3(1) unfolding process_kill_def the_process_ok [OF ok] kill_threads_def [symmetric]
    by (simp add: process_at_def)
  moreover have "frame_count (phys_st k3) a = frame_count (phys_st (km s)) a - kill_drops s pid a" for a
    using k2(2) k3(2) q(1,2) by (simp add: dropped_def unmapped_def kill_drops_def)
  ultimately show ?thesis
    using bits k3(2) q(1,2) pa(2) by (intro exI [of _ "?s2\<lparr>km := k3\<rparr>"]) (simp add: unmapped_def)
qed

text \<open>
  C23. Killing a process whose threads are off the run queue, and whose directory, tables and
  frames, and the frames of its control block, are under management, with the control block below
  the recursive mapping and no table shared in the kernel directory, returns: the process and all of
  its threads are gone, its thread table is empty, the pages of its control block are unmapped from
  the kernel directory and only they, and the count of each frame has dropped by exactly the
  releases of its directory, of its tables, of the one entry of each table that paging_dir_destroy
  looks at 1024 times, and of the control block. Every other process, thread and control block is
  unchanged.
\<close>

theorem process_kill_removes:
  assumes "table_ok s" and "killable s pid"
  shows "\<exists>s'. process_kill pid s = Some s' \<and> table_ok s' \<and> \<not> live_pid s' pid \<and>
    (\<forall>u. uid_pid u = pid \<longrightarrow> \<not> live_uid s' u) \<and> bitmap_bits (pr_thread_bitmap (process_at s' pid)) = {} \<and>
    (\<forall>a. frame_count (phys_st (km s')) a = frame_count (phys_st (km s)) a - kill_drops s pid a) \<and>
    (let V = range_pages (block_address s (unat pid)) 0x9000; kd = kernel_dir (km s) in
     (\<forall>v \<in> set V. walk (mem (km s')) kd v = None) \<and>
     (\<forall>v. dir_index v < 1023 \<longrightarrow> page_align v \<notin> set V \<longrightarrow> walk (mem (km s')) kd v = walk (mem (km s)) kd v)) \<and>
    (\<forall>q. q \<noteq> pid \<longrightarrow> live_pid s' q = live_pid s q \<and> process_at s' q = process_at s q) \<and>
    (\<forall>u. uid_pid u \<noteq> pid \<longrightarrow> live_uid s' u = live_uid s u \<and> thread_at s' u = thread_at s u)"
proof -
  obtain s' where run: "process_kill pid s = Some s'" and M: "bitmap_bits (pr_thread_bitmap (process_at s' pid)) = {}"
    "\<forall>a. frame_count (phys_st (km s')) a = frame_count (phys_st (km s)) a - kill_drops s pid a"
    "let V = range_pages (block_address s (unat pid)) 0x9000; kd = kernel_dir (km s) in
     (\<forall>v \<in> set V. walk (mem (km s')) kd v = None) \<and>
     (\<forall>v. dir_index v < 1023 \<longrightarrow> page_align v \<notin> set V \<longrightarrow> walk (mem (km s')) kd v = walk (mem (km s)) kd v)"
    using process_kill_memory [OF assms] by (elim exE conjE) (rule that)
  then show ?thesis
    using process_kill_spec [OF assms(1) run] by (intro exI [of _ s'] conjI) (simp_all add: live_uid_def)
qed

theorem thread_new_clobbers:
  assumes "table_ok s" and "thread_new pid e s = Some (uid, s')" and "live_uid s v" and "uid_pid v = pid"
    and "unat (uid_tid uid) < unat (uid_tid v)"
    and "thread_offset (unat (uid_tid v)) + THREAD_T_SIZE \<le> page_end (thread_offset (unat (uid_tid uid)) + THREAD_T_SIZE)"
  shows "live_uid s' v \<and> thread_at s' v = zero_thread"
proof -
  note S = thread_new_spec [OF assms(1,2)]
  have ne: "v \<noteq> uid" using assms(5) by auto
  have "thread_offset (unat (uid_tid uid)) \<le> thread_offset (unat (uid_tid v))" using assms(5) by (simp add: thread_offset_def)
  then have "thread_at s' v = zero_thread" using S(8) [OF ne] assms(4,6) thread_zero_inside by simp
  then show ?thesis using S(6) [of v] assms(3) by simp
qed

end
