(* ===== verification/Scheduler.thy ===== *)
theory Scheduler
  imports Multitask
begin

text \<open>
  \<open>kernel/core/multitask/scheduler.c\<close>: the circular doubly linked queue of running threads, and
  its refinement of a queue of thread ids with the active thread at the head.
\<close>

definition scheduler_start :: "link_env \<Rightarrow> u32 \<Rightarrow> kstate \<Rightarrow> kstate option" where
  "scheduler_start L eflags s = do {
     dassert (active_thread s \<noteq> 0);
     s \<leftarrow> arch_timer_init (of_nat SCHEDULER_FREQ) timer_tick_h s;
     p \<leftarrow> the_process s (uid_pid (active_thread s));
     let s = s\<lparr>km := paging_dir_load (km s) (addr_space p)\<rparr>;
     t \<leftarrow> the_thread s (active_thread s);
     task_start L eflags (th_task t) s
   }"

definition scheduler_add :: "thread_uid \<Rightarrow> kstate \<Rightarrow> kstate option" where
  "scheduler_add uid s = do {
     target \<leftarrow> the_thread s uid;
     dassert (th_state target \<noteq> THREAD_STATE_ACTIVE);
     let s = upd_thread uid (\<lambda>t. t\<lparr>th_state := THREAD_STATE_ACTIVE, timeslice := SCHEDULER_TIMESLICE\<rparr>) s;
     if uid_pid (active_thread s) = 0 then
       Some ((upd_thread uid (\<lambda>t. t\<lparr>sched_next := uid, sched_prev := uid\<rparr>) s)\<lparr>active_thread := uid\<rparr>)
     else do {
       let act = active_thread s;
       cur \<leftarrow> the_thread s act;
       let prev = sched_prev cur;
       p \<leftarrow> the_thread s prev;
       let s = upd_thread uid (\<lambda>t. t\<lparr>sched_next := act, sched_prev := prev\<rparr>) s;
       let s = upd_thread act (\<lambda>t. t\<lparr>sched_prev := uid\<rparr>) s;
       Some (upd_thread prev (\<lambda>t. t\<lparr>sched_next := uid\<rparr>) s)
     }
   }"

definition scheduler_remove :: "thread_uid \<Rightarrow> kstate \<Rightarrow> kstate option" where
  "scheduler_remove uid s = do {
     target \<leftarrow> the_thread s uid;
     dassert (th_state target = THREAD_STATE_ACTIVE);
     dassert (uid \<noteq> active_thread s \<or> locked s);
     s \<leftarrow> (if sched_next target = uid then Some (s\<lparr>active_thread := 0\<rparr>)
           else do {
             let s = (if active_thread s = uid then s\<lparr>active_thread := sched_next target\<rparr> else s);
             n \<leftarrow> the_thread s (sched_next target);
             p \<leftarrow> the_thread s (sched_prev target);
             let s = upd_thread (sched_next target) (\<lambda>t. t\<lparr>sched_prev := sched_prev target\<rparr>) s;
             Some (upd_thread (sched_prev target) (\<lambda>t. t\<lparr>sched_next := sched_next target\<rparr>) s)
           });
     Some (upd_thread uid (\<lambda>t. t\<lparr>th_state := THREAD_STATE_OLD\<rparr>) s)
   }"

definition scheduler_purge :: "pid_t \<Rightarrow> kstate \<Rightarrow> kstate option" where
  "scheduler_purge pid s = do {
     p \<leftarrow> the_process s pid;
     for_each [0..<PROCESS_THREAD_MAX] (\<lambda>i s. do {
       t \<leftarrow> bitmap_test (pr_thread_bitmap (process_at s pid)) i;
       if t then do {
         let uid = mk_uid pid (of_nat i);
         target \<leftarrow> the_thread s uid;
         if th_state target \<noteq> THREAD_STATE_ACTIVE then Some s
         else scheduler_remove uid s
       }
       else Some s
     }) s
   }"

definition scheduler_next :: "kstate \<Rightarrow> kstate option" where
  "scheduler_next s = do {
     let act = active_thread s;
     cur \<leftarrow> the_thread s act;
     let s = upd_thread act (\<lambda>t. t\<lparr>timeslice := SCHEDULER_TIMESLICE\<rparr>) s;
     if act = sched_next cur then Some s
     else do {
       let s = s\<lparr>active_thread := sched_next cur\<rparr>;
       nxt \<leftarrow> the_thread s (sched_next cur);
       s \<leftarrow> (if th_owner cur \<noteq> th_owner nxt then do {
               p \<leftarrow> the_process s (th_owner nxt);
               Some (s\<lparr>km := paging_dir_load (km s) (addr_space p)\<rparr>)
             }
             else Some s);
       task_switch (Some act) (sched_next cur) s
     }
   }"

definition scheduler_lock :: "kstate \<Rightarrow> kstate option" where
  "scheduler_lock s = do {
     let s = s\<lparr>locked := True\<rparr>;
     cur \<leftarrow> the_thread s (active_thread s);
     task_preserve (active_thread s) s
   }"

definition scheduler_unlock :: "kstate \<Rightarrow> kstate option" where
  "scheduler_unlock s = do {
     dassert (active_thread s \<noteq> 0);
     let s = s\<lparr>locked := False\<rparr>;
     cur \<leftarrow> the_thread s (active_thread s);
     p \<leftarrow> the_process s (th_owner cur);
     let s = s\<lparr>km := paging_dir_load (km s) (addr_space p)\<rparr>;
     task_switch None (active_thread s) s
   }"

definition scheduler_curr :: "kstate \<Rightarrow> thread_uid" where
  "scheduler_curr s = (if locked s then 0 else active_thread s)"

definition timer_tick :: "kstate \<Rightarrow> kstate option" where
  "timer_tick s = do {
     cur \<leftarrow> the_thread s (active_thread s);
     let s = upd_thread (active_thread s) (\<lambda>t. t\<lparr>timeslice := timeslice t - 1\<rparr>) s;
     if timeslice cur - 1 = 0 then scheduler_next s else Some s
   }"

subsection \<open>Rings\<close>

text \<open>A ring is a list whose last element is linked to its first.\<close>

definition cyclic :: "('a \<Rightarrow> 'a \<Rightarrow> bool) \<Rightarrow> 'a list \<Rightarrow> bool" where
  "cyclic P xs \<longleftrightarrow> (xs \<noteq> [] \<longrightarrow> successively P (xs @ [hd xs]))"

lemma cyclic_Cons:
  "cyclic P (x # xs) \<longleftrightarrow> (if xs = [] then P x x else P x (hd xs) \<and> successively P xs \<and> P (last xs) x)"
proof (cases xs)
  case (Cons y ys)
  then show ?thesis using successively_append_iff [of P "y # ys" "[x]"] by (auto simp: cyclic_def)
qed (simp add: cyclic_def)

lemma cyclic_rotate1: "cyclic P (rotate1 xs) = cyclic P xs"
proof (cases xs)
  case (Cons x ys)
  show ?thesis
  proof (cases ys)
    case (Cons y zs)
    then show ?thesis
      using \<open>xs = x # ys\<close> successively_append_iff [of P "y # zs" "[x]"] successively_append_iff [of P "y # zs" "[x, y]"]
      by (auto simp: cyclic_def)
  qed (use \<open>xs = x # ys\<close> in simp)
qed simp

lemma cyclic_rotate: "cyclic P (rotate n xs) = cyclic P xs"
  by (induction n) (simp_all add: cyclic_rotate1)

lemma cyclic_commute: "cyclic P (xs @ ys) = cyclic P (ys @ xs)"
  using cyclic_rotate [of P "length xs" "xs @ ys"] by (simp add: rotate_append)

text \<open>Links may change at the last element's successor and the first one's predecessor only.\<close>

lemma successively_inner:
  assumes "successively P xs" and "\<And>x y. x \<in> set (butlast xs) \<Longrightarrow> y \<in> set (tl xs) \<Longrightarrow> P x y \<Longrightarrow> Q x y"
  shows "successively Q xs"
  using assms
proof (induction xs rule: induct_list012)
  case (3 x y zs)
  have "successively Q (y # zs)"
  proof (rule 3)
    show "successively P (y # zs)" using 3(3) by simp
    fix a b assume "a \<in> set (butlast (y # zs))" "b \<in> set (tl (y # zs))" "P a b"
    then show "Q a b" using 3(4) [of a b] by auto
  qed
  then show ?case using 3(3) 3(4) [of x y] by simp
qed auto

lemma distinct_butlast_last: "distinct xs \<Longrightarrow> x \<in> set (butlast xs) \<Longrightarrow> x \<noteq> last xs"
  by (induction xs) (auto split: if_splits)

lemma distinct_tl_hd: "distinct xs \<Longrightarrow> x \<in> set (tl xs) \<Longrightarrow> x \<noteq> hd xs"
  by (cases xs) auto

subsection \<open>The scheduler queue as a list\<close>

definition sched_link :: "kstate \<Rightarrow> thread_uid \<Rightarrow> thread_uid \<Rightarrow> bool" where
  "sched_link s x y \<longleftrightarrow> sched_next (thread_at s x) = y \<and> sched_prev (thread_at s y) = x"

definition running :: "kstate \<Rightarrow> thread_uid \<Rightarrow> bool" where
  "running s u \<longleftrightarrow> live_uid s u \<and> th_state (thread_at s u) = THREAD_STATE_ACTIVE"

definition sched_queue :: "kstate \<Rightarrow> thread_uid list \<Rightarrow> bool" where
  "sched_queue s xs \<longleftrightarrow> distinct xs \<and> set xs = {u. running s u} \<and>
     active_thread s = (if xs = [] then 0 else hd xs) \<and> cyclic (sched_link s) xs"

text \<open>The table, and every live thread recorded under its process.\<close>

definition sched_ok :: "kstate \<Rightarrow> bool" where
  "sched_ok s \<longleftrightarrow> table_ok s \<and> (\<forall>u. live_uid s u \<longrightarrow> th_owner (thread_at s u) = uid_pid u)"

lemma sched_queue_nonempty:
  "sched_queue s xs \<Longrightarrow> xs \<noteq> [] \<Longrightarrow> running s (active_thread s) \<and> uid_pid (active_thread s) \<noteq> 0"
  using live_uid_not_zero [of s "hd xs"] by (cases xs) (auto simp: sched_queue_def running_def)

lemma sched_queue_last:
  assumes "sched_queue s xs" and "xs \<noteq> []"
  shows "sched_prev (thread_at s (active_thread s)) = last xs" "running s (last xs)"
proof -
  show "sched_prev (thread_at s (active_thread s)) = last xs"
    using assms by (cases xs) (auto simp: sched_queue_def cyclic_Cons sched_link_def)
  show "running s (last xs)" using assms last_in_set [of xs] by (auto simp: sched_queue_def)
qed

lemma scheduler_add_queue:
  assumes ok: "sched_ok s" and q: "sched_queue s xs" and u: "live_uid s u" "\<not> running s u"
  shows "\<exists>s'. scheduler_add u s = Some s' \<and> sched_ok s' \<and> sched_queue s' (xs @ [u]) \<and>
    timeslice (thread_at s' u) = SCHEDULER_TIMESLICE"
proof -
  let ?s = "upd_thread u (\<lambda>t. t\<lparr>th_state := THREAD_STATE_ACTIVE, timeslice := 5\<rparr>) s"
  have t: "table_ok s" and st: "th_state (thread_at s u) \<noteq> THREAD_STATE_ACTIVE"
    using ok u by (auto simp: sched_ok_def running_def)
  have nu: "u \<notin> set xs" using q u(2) by (auto simp: sched_queue_def)
  show ?thesis
  proof (cases "xs = []")
    case True
    then have "active_thread s = 0" using q by (simp add: sched_queue_def)
    then have "scheduler_add u s = Some ((upd_thread u (\<lambda>t. t\<lparr>sched_next := u, sched_prev := u\<rparr>) ?s)\<lparr>active_thread := u\<rparr>)"
      using u(1) st by (simp add: scheduler_add_def the_thread_ok [OF t])
    with True q u(1) ok show ?thesis
      by (auto simp: sched_queue_def running_def cyclic_def sched_link_def sched_ok_def)
  next
    case False
    let ?a = "active_thread s" and ?p = "last xs"
    have a: "running s ?a" "uid_pid ?a \<noteq> 0" "?a = hd xs" using sched_queue_nonempty [OF q False] q False by (auto simp: sched_queue_def)
    have p: "sched_prev (thread_at s ?a) = ?p" "running s ?p" using sched_queue_last [OF q False] by auto
    have ne: "?a \<noteq> u" "?p \<noteq> u" using a p u(2) by auto
    define s' where "s' = upd_thread ?p (\<lambda>t. t\<lparr>sched_next := u\<rparr>) (upd_thread ?a (\<lambda>t. t\<lparr>sched_prev := u\<rparr>)
        (upd_thread u (\<lambda>t. t\<lparr>sched_next := ?a, sched_prev := ?p\<rparr>) ?s))"
    have run: "scheduler_add u s = Some s'"
      using u(1) st a p ne by (simp add: scheduler_add_def the_thread_ok t s'_def running_def Let_def)
    have old: "successively (sched_link s) xs" "distinct xs" using q False
      by (auto simp: sched_queue_def cyclic_def successively_append_iff)
    have "successively (sched_link s') xs"
    proof (rule successively_inner [OF old(1)])
      fix x y assume xy: "x \<in> set (butlast xs)" "y \<in> set (tl xs)" "sched_link s x y"
      have "x \<noteq> ?p" "y \<noteq> ?a" using distinct_butlast_last [OF old(2) xy(1)] distinct_tl_hd [OF old(2) xy(2)] a(3) by auto
      moreover have "x \<noteq> u" "y \<noteq> u" using nu xy(1,2) by (auto dest: in_set_butlastD list.set_sel(2) [OF False])
      ultimately show "sched_link s' x y" using xy(3) ne by (auto simp: sched_link_def s'_def)
    qed
    then have "cyclic (sched_link s') (xs @ [u])"
      using ne a(3) False by (simp add: cyclic_def successively_append_iff) (auto simp: sched_link_def s'_def)
    moreover have "sched_ok s'" using ok by (auto simp: sched_ok_def s'_def)
    moreover have "running s' v \<longleftrightarrow> v = u \<or> running s v" for v
      using u(1) a(1) p(2) ne by (auto simp: running_def s'_def)
    ultimately show ?thesis
      using run q nu False ne by (auto simp: sched_queue_def s'_def)
  qed
qed

lemma scheduler_remove_queue:
  assumes ok: "sched_ok s" and q: "sched_queue s xs" and u: "u \<in> set xs" "u = active_thread s \<longrightarrow> locked s"
  shows "\<exists>s'. scheduler_remove u s = Some s' \<and> sched_ok s' \<and> sched_queue s' (remove1 u xs) \<and>
    th_state (thread_at s' u) = THREAD_STATE_OLD"
proof -
  have t: "table_ok s" and run: "running s u" using ok q u by (auto simp: sched_ok_def sched_queue_def)
  then have st: "live_uid s u" "th_state (thread_at s u) = THREAD_STATE_ACTIVE" by (auto simp: running_def)
  have d: "distinct xs" and r: "set xs = {u. running s u}" using q by (auto simp: sched_queue_def)
  obtain ys zs where xs: "xs = ys @ u # zs" by (meson split_list u(1))
  let ?ws = "zs @ ys"
  have c: "cyclic (sched_link s) (u # ?ws)" using q xs cyclic_commute [of _ ys "u # zs"] by (simp add: sched_queue_def)
  have rm: "remove1 u xs = ys @ zs" using d xs by (simp add: remove1_append)
  have u_ws: "u \<notin> set ?ws" "distinct ?ws" using d xs by auto
  show ?thesis
  proof (cases "?ws = []")
    case True
    then have "sched_next (thread_at s u) = u" using c by (simp add: cyclic_Cons sched_link_def)
    then have run': "scheduler_remove u s = Some (upd_thread u (\<lambda>t. t\<lparr>th_state := THREAD_STATE_OLD\<rparr>) (s\<lparr>active_thread := 0\<rparr>))"
      using st u(2) by (simp add: scheduler_remove_def the_thread_ok t)
    have "running s v \<longleftrightarrow> v = u" for v using r xs True by auto
    with run' True ok rm show ?thesis
      by (auto simp: sched_queue_def running_def cyclic_def sched_ok_def split: if_splits)
  next
    case False
    let ?n = "hd ?ws" and ?p = "last ?ws"
    have l: "sched_link s u ?n" "successively (sched_link s) ?ws" "sched_link s ?p u"
      using c False by (simp_all add: cyclic_Cons)
    then have np: "sched_next (thread_at s u) = ?n" "sched_prev (thread_at s u) = ?p" by (simp_all add: sched_link_def)
    have m: "?n \<in> set ?ws" "?p \<in> set ?ws" using hd_in_set [OF False] last_in_set [OF False] by blast+
    then have ne: "?n \<noteq> u" "?p \<noteq> u" using u_ws by auto
    have rn: "running s ?n" "running s ?p" using m r xs by auto
    define s' where "s' = upd_thread u (\<lambda>t. t\<lparr>th_state := THREAD_STATE_OLD\<rparr>)
        (upd_thread ?p (\<lambda>t. t\<lparr>sched_next := ?n\<rparr>) (upd_thread ?n (\<lambda>t. t\<lparr>sched_prev := ?p\<rparr>)
        (if active_thread s = u then s\<lparr>active_thread := ?n\<rparr> else s)))"
    have run': "scheduler_remove u s = Some s'"
      using st u(2) np ne rn by (simp add: scheduler_remove_def the_thread_ok t s'_def running_def Let_def)
    have "successively (sched_link s') ?ws"
    proof (rule successively_inner [OF l(2)])
      fix x y assume xy: "x \<in> set (butlast ?ws)" "y \<in> set (tl ?ws)" "sched_link s x y"
      have "x \<noteq> ?p" "y \<noteq> ?n" using distinct_butlast_last [OF u_ws(2) xy(1)] distinct_tl_hd [OF u_ws(2) xy(2)] by auto
      moreover have "x \<noteq> u" "y \<noteq> u" using u_ws(1) in_set_butlastD [OF xy(1)] list.set_sel(2) [OF False xy(2)] by auto
      ultimately show "sched_link s' x y" using xy(3) ne by (auto simp: sched_link_def s'_def)
    qed
    then have "cyclic (sched_link s') ?ws"
      using ne False by (simp add: cyclic_def successively_append_iff [of _ "zs @ ys"] del: append_assoc)
        (auto simp: sched_link_def s'_def)
    then have "cyclic (sched_link s') (ys @ zs)" by (simp add: cyclic_commute)
    moreover have "sched_ok s'" using ok by (auto simp: sched_ok_def s'_def)
    moreover have "running s' v \<longleftrightarrow> v \<noteq> u \<and> running s v" for v
      using ne by (auto simp: running_def s'_def)
    moreover have "active_thread s' = hd (ys @ zs)"
      using q xs False u_ws by (cases ys) (auto simp: sched_queue_def s'_def)
    moreover have "th_state (thread_at s' u) = THREAD_STATE_OLD" by (simp add: s'_def)
    ultimately show ?thesis
      using run' rm u_ws r xs d False by (auto simp: sched_queue_def)
  qed
qed

text \<open>
  \<open>scheduler_next\<close> during an interrupt: the queue rotates, the interrupted context is saved in the
  old thread and the interrupt frame becomes the context of the new one.
\<close>

definition switched :: "kstate \<Rightarrow> thread_uid \<Rightarrow> thread_uid \<Rightarrow> int_frame \<Rightarrow> kstate \<Rightarrow> bool" where
  "switched s a b f s' \<longleftrightarrow> frame (th_task (thread_at s' a)) = f \<and>
     curr_frame s' = Some (task_load (th_task (thread_at s b)) f) \<and>
     (uid_pid a \<noteq> uid_pid b \<longrightarrow> km s' = paging_dir_load (km s) (addr_space (process_at s (uid_pid b)))) \<and>
     (uid_pid a = uid_pid b \<longrightarrow> km s' = km s)"

lemma running_live: "sched_queue s xs \<Longrightarrow> u \<in> set xs \<Longrightarrow> live_uid s u"
  by (auto simp: sched_queue_def running_def)

lemma scheduler_next_queue:
  assumes ok: "sched_ok s" and q: "sched_queue s xs" and ne: "xs \<noteq> []" and f: "curr_frame s = Some f"
  shows "\<exists>s'. scheduler_next s = Some s' \<and> sched_ok s' \<and> sched_queue s' (rotate1 xs) \<and> curr_frame s' \<noteq> None \<and>
    (if length xs = 1 then curr_frame s' = Some f else switched s (hd xs) (hd (tl xs)) f s') \<and>
    (\<forall>u. timeslice (thread_at s' u) = (if u = hd xs then SCHEDULER_TIMESLICE else timeslice (thread_at s u)))"
proof -
  have t: "table_ok s" using ok by (simp add: sched_ok_def)
  obtain a ws where xs: "xs = a # ws" using ne by (cases xs) auto
  have a: "active_thread s = a" "live_uid s a" using q xs running_live [OF q, of a] by (auto simp: sched_queue_def)
  have c: "cyclic (sched_link s) (a # ws)" using q xs by (simp add: sched_queue_def)
  show ?thesis
  proof (cases "ws = []")
    case True
    then have "sched_next (thread_at s a) = a" using c by (simp add: cyclic_Cons sched_link_def)
    then have "scheduler_next s = Some (upd_thread a (\<lambda>t. t\<lparr>timeslice := 5\<rparr>) s)"
      using a by (simp add: scheduler_next_def the_thread_ok t Let_def)
    with xs True q ok f a show ?thesis
      by (auto simp: sched_queue_def sched_ok_def running_def cyclic_def sched_link_def split: if_splits)
  next
    case False
    let ?b = "hd ws"
    have "?b \<in> set ws" "distinct xs" using False hd_in_set q by (simp_all add: sched_queue_def)
    then have b: "?b \<noteq> a" "live_uid s ?b" using xs running_live [OF q, of ?b] by auto
    have n: "sched_next (thread_at s a) = ?b" using c False by (simp add: cyclic_Cons sched_link_def)
    have lp: "live_pid s (uid_pid ?b)" using b(2) by (simp add: live_uid_def)
    have ow: "th_owner (thread_at s a) = uid_pid a" "th_owner (thread_at s ?b) = uid_pid ?b"
      using ok a b by (auto simp: sched_ok_def)
    define t1 where "t1 = (upd_thread a (\<lambda>t. t\<lparr>timeslice := 5\<rparr>) s)\<lparr>active_thread := ?b\<rparr>"
    define s' where "s' = (upd_thread a (\<lambda>t. t\<lparr>th_task := (th_task t)\<lparr>frame := f\<rparr>\<rparr>)
       (if uid_pid a \<noteq> uid_pid ?b then t1\<lparr>km := paging_dir_load (km s) (addr_space (process_at s (uid_pid ?b)))\<rparr> else t1))
       \<lparr>curr_frame := Some (task_load (th_task (thread_at s ?b)) f)\<rparr>"
    have run: "scheduler_next s = Some s'"
      using a b n ow lp f
      by (simp add: scheduler_next_def the_thread_ok the_process_ok t Let_def task_switch_def task_preserve_def
          int_callback_frame_get_def s'_def t1_def)
    have "sched_link s' = sched_link s" by (auto simp: sched_link_def s'_def t1_def fun_eq_iff)
    moreover have "running s' = running s" by (auto simp: running_def s'_def t1_def fun_eq_iff)
    ultimately have "sched_queue s' (rotate1 xs)"
      using q xs False cyclic_rotate1 [of "sched_link s" xs] by (auto simp: sched_queue_def s'_def t1_def)
    moreover have "sched_ok s'" using ok by (auto simp: sched_ok_def s'_def t1_def)
    moreover have "switched s a ?b f s'" using b by (simp add: switched_def s'_def t1_def)
    ultimately show ?thesis using run xs False by (auto simp: s'_def t1_def)
  qed
qed

subsection \<open>Round robin\<close>

text \<open>
  What the clock relies on: a tick uses up one unit of the head's slice, and the tick that uses up
  the last one rotates the queue and gives the next head a full quantum.
\<close>

locale round_robin =
  fixes inv :: "'s \<Rightarrow> bool"
    and queue :: "'s \<Rightarrow> 'a list \<Rightarrow> bool"
    and slice :: "'s \<Rightarrow> nat"
    and tick :: "'s \<Rightarrow> 's option"
    and quantum :: nat
  assumes slice_pos: "inv s \<Longrightarrow> queue s xs \<Longrightarrow> xs \<noteq> [] \<Longrightarrow> 0 < slice s"
    and quantum_pos: "0 < quantum"
    and tick_running: "inv s \<Longrightarrow> queue s xs \<Longrightarrow> xs \<noteq> [] \<Longrightarrow> 1 < slice s \<Longrightarrow>
      \<exists>s'. tick s = Some s' \<and> inv s' \<and> queue s' xs \<and> slice s' = slice s - 1"
    and tick_expired: "inv s \<Longrightarrow> queue s xs \<Longrightarrow> xs \<noteq> [] \<Longrightarrow> slice s = 1 \<Longrightarrow>
      \<exists>s'. tick s = Some s' \<and> inv s' \<and> queue s' (rotate1 xs) \<and> slice s' = quantum"
begin

lemma slice_runs_out:
  assumes "inv s" and "queue s xs" and "xs \<noteq> []"
  shows "\<exists>s'. repeat (slice s) tick s = Some s' \<and> inv s' \<and> queue s' (rotate1 xs) \<and> slice s' = quantum"
  using assms
proof (induction "slice s" arbitrary: s rule: less_induct)
  case less
  show ?case
  proof (cases "slice s = 1")
    case True
    then show ?thesis using tick_expired [OF less.prems] by auto
  next
    case False
    then have gt: "1 < slice s" using slice_pos [OF less.prems] by simp
    obtain s1 where s1: "tick s = Some s1" "inv s1" "queue s1 xs" "slice s1 = slice s - 1"
      using tick_running [OF less.prems gt] by blast
    obtain s' where s': "repeat (slice s1) tick s1 = Some s'" "inv s'" "queue s' (rotate1 xs)" "slice s' = quantum"
      using less.hyps [OF _ s1(2,3) less.prems(3)] s1(4) gt by auto
    have "slice s = Suc (slice s1)" using s1(4) gt by simp
    then show ?thesis using s1(1) s' by simp
  qed
qed

lemma served_in_turn:
  assumes "inv s" and "queue s xs" and "xs \<noteq> []"
  shows "\<exists>s'. repeat (slice s + quantum * k) tick s = Some s' \<and> inv s' \<and>
    queue s' (rotate (Suc k) xs) \<and> slice s' = quantum"
proof (induction k)
  case 0
  then show ?case using slice_runs_out [OF assms] by simp
next
  case (Suc k)
  then obtain s1 where s1: "repeat (slice s + quantum * k) tick s = Some s1" "inv s1"
    "queue s1 (rotate (Suc k) xs)" "slice s1 = quantum" by blast
  obtain s' where "repeat (slice s1) tick s1 = Some s'" "inv s'"
    "queue s' (rotate1 (rotate (Suc k) xs))" "slice s' = quantum"
    using slice_runs_out [OF s1(2,3)] assms(3) by auto
  moreover have "slice s + quantum * Suc k = (slice s + quantum * k) + slice s1" using s1(4) by simp
  ultimately show ?case using s1(1) by (simp only: repeat_add) simp
qed

end

text \<open>Slices of the running threads: full, except for the active thread's.\<close>

definition slices_ok :: "kstate \<Rightarrow> bool" where
  "slices_ok s \<longleftrightarrow> (\<forall>u. running s u \<longrightarrow>
     (if u = active_thread s then 0 < timeslice (thread_at s u) \<and> timeslice (thread_at s u) \<le> 5 else timeslice (thread_at s u) = 5))"

definition clock_inv :: "kstate \<Rightarrow> bool" where
  "clock_inv s \<longleftrightarrow> sched_ok s \<and> slices_ok s \<and> curr_frame s \<noteq> None"

definition active_slice :: "kstate \<Rightarrow> nat" where
  "active_slice s = unat (timeslice (thread_at s (active_thread s)))"

lemma timer_tick_running:
  assumes I: "clock_inv s" and q: "sched_queue s xs" and ne: "xs \<noteq> []" and sl: "1 < active_slice s"
  shows "\<exists>s'. timer_tick s = Some s' \<and> clock_inv s' \<and> sched_queue s' xs \<and> active_slice s' = active_slice s - 1"
proof -
  let ?a = "active_thread s"
  have t: "table_ok s" and la: "live_uid s ?a" and ra: "running s ?a"
    using I sched_queue_nonempty [OF q ne] by (auto simp: clock_inv_def sched_ok_def running_def)
  have w: "unat (timeslice (thread_at s ?a) - 1) = active_slice s - 1" using sl
    by (simp add: active_slice_def unat_sub_if' )
  then have nz: "timeslice (thread_at s ?a) - 1 \<noteq> 0" using sl by (auto simp: unat_eq_0)
  define s' where "s' = upd_thread ?a (\<lambda>t. t\<lparr>timeslice := timeslice t - 1\<rparr>) s"
  have "timer_tick s = Some s'" using la nz by (simp add: timer_tick_def the_thread_ok t s'_def Let_def)
  moreover have "running s' = running s" "sched_link s' = sched_link s"
    by (auto simp: running_def sched_link_def s'_def fun_eq_iff)
  moreover have "timeslice (thread_at s ?a) - 1 \<le> 5" "0 < timeslice (thread_at s ?a) - 1"
    using I ra sl w nz by (auto simp: clock_inv_def slices_ok_def active_slice_def word_le_nat_alt word_less_nat_alt)
  ultimately show ?thesis
    using I q w by (auto simp: clock_inv_def sched_ok_def slices_ok_def sched_queue_def active_slice_def s'_def)
qed

lemma timer_tick_expired:
  assumes I: "clock_inv s" and q: "sched_queue s xs" and ne: "xs \<noteq> []" and sl: "active_slice s = 1"
  shows "\<exists>s'. timer_tick s = Some s' \<and> clock_inv s' \<and> sched_queue s' (rotate1 xs) \<and> active_slice s' = 5"
proof -
  let ?a = "active_thread s"
  have t: "table_ok s" and la: "live_uid s ?a" and ra: "running s ?a"
    using I sched_queue_nonempty [OF q ne] by (auto simp: clock_inv_def sched_ok_def running_def)
  have w: "timeslice (thread_at s ?a) = 1" using sl by (simp add: active_slice_def word_unat_eq_iff)
  define s1 where "s1 = upd_thread ?a (\<lambda>t. t\<lparr>timeslice := timeslice t - 1\<rparr>) s"
  have tick: "timer_tick s = scheduler_next s1" using la w by (simp add: timer_tick_def the_thread_ok t s1_def Let_def)
  have r1: "running s1 = running s" "sched_link s1 = sched_link s"
    by (auto simp: running_def sched_link_def s1_def fun_eq_iff)
  then have q1: "sched_queue s1 xs" and ok1: "sched_ok s1"
    using q I by (auto simp: sched_queue_def s1_def sched_ok_def clock_inv_def)
  obtain f where f: "curr_frame s1 = Some f" using I by (auto simp: clock_inv_def s1_def)
  obtain s' where s': "scheduler_next s1 = Some s'" "sched_ok s'" "sched_queue s' (rotate1 xs)" "curr_frame s' \<noteq> None"
    "\<And>u. timeslice (thread_at s' u) = (if u = hd xs then 5 else timeslice (thread_at s1 u))"
    using scheduler_next_queue [OF ok1 q1 ne f] by blast
  have hd: "hd xs = ?a" using q ne by (simp add: sched_queue_def)
  have all5: "timeslice (thread_at s' u) = 5" if "running s' u" for u
  proof -
    have "running s u" using that s'(3) q by (auto simp: sched_queue_def)
    then show ?thesis using s'(5) I hd by (auto simp: clock_inv_def slices_ok_def s1_def)
  qed
  moreover have "running s' (active_thread s')" using sched_queue_nonempty [OF s'(3)] ne by simp
  ultimately show ?thesis
    using s' tick by (auto simp: clock_inv_def slices_ok_def active_slice_def)
qed

interpretation clock: round_robin clock_inv sched_queue active_slice timer_tick 5
proof
  fix s xs assume a: "clock_inv s" "sched_queue s xs" "xs \<noteq> []"
  then have "running s (active_thread s)" using sched_queue_nonempty by blast
  then show "0 < active_slice s" using a(1)
    by (auto simp: clock_inv_def slices_ok_def active_slice_def word_less_nat_alt)
  show "1 < active_slice s \<Longrightarrow> \<exists>s'. timer_tick s = Some s' \<and> clock_inv s' \<and> sched_queue s' xs \<and> active_slice s' = active_slice s - 1"
    using timer_tick_running a by blast
  show "active_slice s = 1 \<Longrightarrow> \<exists>s'. timer_tick s = Some s' \<and> clock_inv s' \<and> sched_queue s' (rotate1 xs) \<and> active_slice s' = 5"
    using timer_tick_expired a by blast
qed simp

text \<open>Every thread of the queue becomes active: the \<open>k\<close>-th after \<open>k\<close> slices.\<close>

text \<open>
  C8. Round robin: the k-th thread of the run queue is running, with a fresh slice of five ticks,
  after the rest of the current slice and five ticks for each thread between.
\<close>

lemma timer_serves_all:
  assumes "clock_inv s" and "sched_queue s xs" and "0 < k" and "k < length xs"
  shows "\<exists>s'. repeat (active_slice s + 5 * (k - 1)) timer_tick s = Some s' \<and> clock_inv s' \<and>
    active_thread s' = xs ! k \<and> active_slice s' = 5"
proof -
  have ne: "xs \<noteq> []" using assms(4) by auto
  obtain s' where s': "repeat (active_slice s + 5 * (k - 1)) timer_tick s = Some s'" "clock_inv s'"
    "sched_queue s' (rotate (Suc (k - 1)) xs)" "active_slice s' = 5"
    using clock.served_in_turn [OF assms(1,2) ne, of "k - 1"] by blast
  have "active_thread s' = hd (rotate k xs)" using s'(3) assms(3) ne by (simp add: sched_queue_def)
  also have "\<dots> = xs ! k" using assms(4) ne by (simp add: hd_rotate_conv_nth)
  finally show ?thesis using s' by blast
qed

subsection \<open>Leaving and entering the kernel with no thread\<close>

lemma scheduler_lock_queue:
  assumes "sched_ok s" and "sched_queue s xs" and "xs \<noteq> []" and "curr_frame s = Some f"
  shows "\<exists>s'. scheduler_lock s = Some s' \<and> locked s' \<and> scheduler_curr s' = 0 \<and> sched_ok s' \<and> sched_queue s' xs \<and>
    frame (th_task (thread_at s' (hd xs))) = f \<and> curr_frame s' = Some f \<and> km s' = km s"
proof -
  have t: "table_ok s" using assms(1) by (simp add: sched_ok_def)
  have a: "active_thread s = hd xs" "live_uid s (hd xs)"
    using sched_queue_nonempty [OF assms(2,3)] assms(2,3) by (auto simp: sched_queue_def running_def)
  define s' where "s' = upd_thread (hd xs) (\<lambda>t. t\<lparr>th_task := (th_task t)\<lparr>frame := f\<rparr>\<rparr>) (s\<lparr>locked := True\<rparr>)"
  have "scheduler_lock s = Some s'"
    using a assms(4) by (simp add: scheduler_lock_def the_thread_ok t task_preserve_def int_callback_frame_get_def s'_def)
  moreover have "running s' = running s" "sched_link s' = sched_link s"
    by (auto simp: running_def sched_link_def s'_def fun_eq_iff)
  ultimately show ?thesis
    using assms by (auto simp: sched_queue_def sched_ok_def scheduler_curr_def s'_def)
qed

lemma scheduler_unlock_queue:
  assumes "sched_ok s" and "sched_queue s xs" and "xs \<noteq> []" and "curr_frame s = Some f"
  shows "\<exists>s'. scheduler_unlock s = Some s' \<and> \<not> locked s' \<and> sched_ok s' \<and> sched_queue s' xs \<and>
    curr_frame s' = Some (task_load (th_task (thread_at s (hd xs))) f) \<and>
    km s' = paging_dir_load (km s) (addr_space (process_at s (uid_pid (hd xs)))) \<and>
    thread_at s' = thread_at s \<and> process_at s' = process_at s"
proof -
  have t: "table_ok s" using assms(1) by (simp add: sched_ok_def)
  have a: "active_thread s = hd xs" "live_uid s (hd xs)" "hd xs \<noteq> 0" "live_pid s (uid_pid (hd xs))"
    using sched_queue_nonempty [OF assms(2,3)] assms(2,3) live_uid_not_zero [of s "hd xs"]
    by (auto simp: sched_queue_def running_def live_uid_def)
  define s' where "s' = s\<lparr>locked := False, km := paging_dir_load (km s) (addr_space (process_at s (uid_pid (hd xs)))),
      curr_frame := Some (task_load (th_task (thread_at s (hd xs))) f)\<rparr>"
  have ow: "th_owner (thread_at s (hd xs)) = uid_pid (hd xs)" using assms(1) a(2) by (auto simp: sched_ok_def)
  have "scheduler_unlock s = Some s'"
    using a assms(4) ow by (simp add: scheduler_unlock_def the_thread_ok the_process_ok t task_switch_def
        int_callback_frame_get_def s'_def Let_def)
  moreover have "thread_at s' = thread_at s" "process_at s' = process_at s" "live_uid s' = live_uid s"
    by (simp_all add: s'_def fun_eq_iff)
  moreover from this have "running s' = running s" "sched_link s' = sched_link s"
    by (simp_all add: running_def sched_link_def fun_eq_iff)
  moreover have "active_thread s' = active_thread s" "\<not> locked s'" "table_ok s'" using t by (simp_all add: s'_def)
  ultimately show ?thesis
    using assms by (auto simp: sched_queue_def sched_ok_def s'_def)
qed

text \<open>\<open>scheduler_purge\<close> takes every thread of a process out of the queue.\<close>

lemma scheduler_remove_frame:
  "scheduler_remove u s = Some s' \<Longrightarrow> locked s' = locked s \<and> live_uid s' = live_uid s \<and> live_pid s' = live_pid s \<and>
     process_at s' = process_at s \<and> curr_frame s' = curr_frame s \<and> km s' = km s"
  by (auto simp: scheduler_remove_def bind_eq_Some_conv Let_def split: if_splits intro!: ext)

lemma scheduler_purge_queue:
  assumes ok: "sched_ok s" and q: "sched_queue s xs" and lp: "live_pid s pid"
    and lk: "uid_pid (active_thread s) = pid \<longrightarrow> locked s"
  shows "\<exists>s'. scheduler_purge pid s = Some s' \<and> sched_ok s' \<and> sched_queue s' (filter (\<lambda>u. uid_pid u \<noteq> pid) xs)"
proof -
  let ?keep = "\<lambda>n u. \<not> (uid_pid u = pid \<and> unat (uid_tid u) < n)"
  define I where "I n t \<longleftrightarrow> sched_ok t \<and> sched_queue t (filter (?keep n) xs) \<and> live_pid t pid \<and> locked t = locked s" for n t
  define body where "body i s = do {
       t \<leftarrow> bitmap_test (pr_thread_bitmap (process_at s pid)) i;
       if t then do {
         let uid = mk_uid pid (of_nat i);
         target \<leftarrow> the_thread s uid;
         if th_state target \<noteq> THREAD_STATE_ACTIVE then Some s
         else scheduler_remove uid s
       }
       else Some s
     }" for i s
  have "\<exists>t. for_each [0..<64] body s = Some t \<and> I 64 t"
  proof (rule for_each_total)
    show "I 0 s" using ok q lp by (simp add: I_def)
    fix n t assume n: "n < 64" and It: "I n t"
    let ?u = "mk_uid pid (of_nat n)" and ?ys = "filter (?keep n) xs"
    have t: "sched_ok t" "sched_queue t ?ys" "live_pid t pid" "locked t = locked s" "table_ok t"
      using It by (auto simp: I_def sched_ok_def)
    have u: "uid_pid ?u = pid" "unat (uid_tid ?u) = n" using n lp by (simp_all add: take_bit_pid unat_of_nat)
    have test: "bitmap_test (pr_thread_bitmap (process_at t pid)) n = Some (live_uid t ?u)"
      using bitmap_test_bits [of n "pr_thread_bitmap (process_at t pid)"] n t(3,5)
      by (simp add: live_uid_tid table_ok_def process_at_def)
    have eq: "u = ?u \<longleftrightarrow> uid_pid u = pid \<and> unat (uid_tid u) = n" for u
      using u uid_eq_iff [of u ?u] by (auto simp: word_unat_eq_iff)
    have f: "filter (?keep (Suc n)) xs = filter (\<lambda>v. v \<noteq> ?u) ?ys"
      by (simp add: eq less_Suc_eq) (rule filter_cong, auto)
    have d: "distinct ?ys" using q by (simp add: sched_queue_def)
    show "\<exists>v. body n t = Some v \<and> I (Suc n) v"
    proof (cases "running t ?u")
      case False
      then have "?u \<notin> set ?ys" using t(2) by (auto simp: sched_queue_def)
      then have "filter (?keep (Suc n)) xs = ?ys" unfolding f by (metis (mono_tags, lifting) filter_True)
      moreover have "body n t = Some t"
        using False t(5) test by (auto simp: body_def the_thread_ok running_def Let_def)
      ultimately show ?thesis using It by (simp add: I_def)
    next
      case True
      then have m: "?u \<in> set ?ys" using t(2) unfolding sched_queue_def by blast
      have "xs \<noteq> []" using m by auto
      then have "uid_pid (active_thread s) \<noteq> pid \<Longrightarrow> active_thread t = active_thread s"
        using q t(2) by (cases xs) (auto simp: sched_queue_def)
      then have "?u = active_thread t \<longrightarrow> locked t" using lk t(4) u(1) by metis
      from scheduler_remove_queue [OF t(1,2) m this] obtain v where v: "scheduler_remove ?u t = Some v"
        "sched_ok v" "sched_queue v (remove1 ?u ?ys)" by blast
      moreover have "body n t = scheduler_remove ?u t"
        using True t(5) test by (auto simp: body_def the_thread_ok running_def Let_def)
      moreover have "remove1 ?u ?ys = filter (?keep (Suc n)) xs" unfolding f using d by (simp add: distinct_remove1_removeAll removeAll_filter_not_eq neq_commute)
      ultimately show ?thesis using scheduler_remove_frame [OF v(1)] t(3,4) by (auto simp: I_def)
    qed
  qed
  then obtain t where "for_each [0..<64] body s = Some t" "I 64 t" by blast
  moreover have "scheduler_purge pid s = for_each [0..<64] body s"
    using ok lp by (simp add: scheduler_purge_def the_process_ok sched_ok_def body_def [abs_def])
  moreover have "filter (?keep 64) xs = filter (\<lambda>u. uid_pid u \<noteq> pid) xs" using unat_uid_tid by simp
  ultimately show ?thesis by (auto simp: I_def)
qed

end
