(* ===== verification/Ipc_Port.thy ===== *)
theory Ipc_Port
  imports Scheduler
begin

text \<open>
  \<open>kernel/core/ipc/port.c\<close>: IPC ports, their translation from and to thread ids, and their
  comparison.
\<close>

subsection \<open>The fields of a port\<close>

definition port_pid :: "ipcport_t \<Rightarrow> pid_t" where "port_pid p = ucast (take_bit 10 p)"
definition port_pvn :: "ipcport_t \<Rightarrow> u8" where "port_pvn p = ucast (drop_bit 10 p)"
definition port_tid :: "ipcport_t \<Rightarrow> tid_t" where "port_tid p = ucast (take_bit 6 (drop_bit 18 p))"
definition port_tvn :: "ipcport_t \<Rightarrow> u8" where "port_tvn p = ucast (drop_bit 24 p)"

definition mk_port :: "pid_t \<Rightarrow> u8 \<Rightarrow> tid_t \<Rightarrow> u8 \<Rightarrow> ipcport_t" where
  "mk_port pid pvn tid tvn = take_bit 10 (ucast pid) OR push_bit 10 (ucast pvn) OR
     push_bit 18 (take_bit 6 (ucast tid)) OR push_bit 24 (ucast tvn)"

definition port_from_uid :: "kstate \<Rightarrow> thread_uid \<Rightarrow> ipcport_t option" where
  "port_from_uid s uid = do {
     p \<leftarrow> the_process s (uid_pid uid);
     t \<leftarrow> the_thread s uid;
     Some (mk_port (pr_pid p) (pr_version p) (th_tid t) (th_version t))
   }"

definition port_to_uid :: "kstate \<Rightarrow> ipcport_t \<Rightarrow> pid_t \<Rightarrow> thread_uid option" where
  "port_to_uid s port parent =
     (if port = IPORT_ANY \<or> port = IPORT_KERNEL then Some (mk_uid 1 (port_tid port))
      else if port_pvn port = 0 \<and> port_tvn port = 0 then
        if port_pid port = 0 then Some (mk_uid parent (port_tid port))
        else Some (mk_uid (port_pid port) 0)
      else do {
        let target = mk_uid (port_pid port) (port_tid port);
        thr \<leftarrow> thread_get s target;
        case thr of
          None \<Rightarrow> Some 0
        | Some t \<Rightarrow> do {
            p \<leftarrow> the_process s (uid_pid target);
            if pr_version p \<noteq> port_pvn port \<or> th_version t \<noteq> port_tvn port then Some 0
            else Some target
          }
      })"

definition port_compare :: "ipcport_t \<Rightarrow> ipcport_t \<Rightarrow> bool" where
  "port_compare p q =
     (if p = IPORT_ANY \<or> q = IPORT_ANY then True
      else if (port_pvn p = 0 \<and> port_tvn p = 0) \<or> (port_pvn q = 0 \<and> port_tvn q = 0) then
        port_pid p = port_pid q \<and> port_tid p = port_tid q
      else p = q)"

subsection \<open>Ports name what they were made for\<close>

lemma port_fields [simp]:
  "port_pid (mk_port pid pvn tid tvn) = take_bit 10 pid"
  "port_pvn (mk_port pid pvn tid tvn) = pvn"
  "port_tid (mk_port pid pvn tid tvn) = take_bit 6 tid"
  "port_tvn (mk_port pid pvn tid tvn) = tvn"
proof -
  show "port_pid (mk_port pid pvn tid tvn) = take_bit 10 pid"
    by (rule bit_word_eqI) (auto simp: port_pid_def mk_port_def bit_simps)
  show "port_pvn (mk_port pid pvn tid tvn) = pvn"
    by (rule bit_word_eqI) (auto simp: port_pvn_def mk_port_def bit_simps)
  show "port_tid (mk_port pid pvn tid tvn) = take_bit 6 tid"
    by (rule bit_word_eqI) (auto simp: port_tid_def mk_port_def bit_simps dest: bit_imp_le_length)
  show "port_tvn (mk_port pid pvn tid tvn) = tvn"
    by (rule bit_word_eqI) (auto simp: port_tvn_def mk_port_def bit_simps dest: bit_imp_le_length)
qed

text \<open>The control block of a live thread carries its own ids.\<close>

definition ids_ok :: "kstate \<Rightarrow> bool" where
  "ids_ok s \<longleftrightarrow> table_ok s \<and> (\<forall>p. live_pid s p \<longrightarrow> pr_pid (process_at s p) = p) \<and>
     (\<forall>u. live_uid s u \<longrightarrow> th_tid (thread_at s u) = uid_tid u)"

definition port_of :: "kstate \<Rightarrow> thread_uid \<Rightarrow> ipcport_t" where
  "port_of s u = mk_port (uid_pid u) (pr_version (process_at s (uid_pid u))) (uid_tid u) (th_version (thread_at s u))"

lemma port_from_uid_live: "ids_ok s \<Longrightarrow> live_uid s u \<Longrightarrow> port_from_uid s u = Some (port_of s u)"
  by (auto simp: port_from_uid_def ids_ok_def the_process_ok the_thread_ok port_of_def live_uid_def)

lemma take_bit_uid [simp]: "take_bit 10 (uid_pid u) = uid_pid u" "take_bit 6 (uid_tid u) = uid_tid u"
  by (simp_all add: uid_pid_def word_unat_eq_iff unat_take_bit) (use unat_uid_tid [of u] in simp)

lemma port_of_fields [simp]:
  "port_pid (port_of s u) = uid_pid u" "port_tid (port_of s u) = uid_tid u"
  "port_pvn (port_of s u) = pr_version (process_at s (uid_pid u))" "port_tvn (port_of s u) = th_version (thread_at s u)"
  by (simp_all add: port_of_def)

lemma port_pid_special: "port_pid IPORT_ANY = 1" "port_pid IPORT_KERNEL = 1"
  by (simp_all add: port_pid_def)

lemma live_uid_pid_ge2: "live_uid s u \<Longrightarrow> uid_pid u \<noteq> 0 \<and> uid_pid u \<noteq> 1"
  by (auto simp: live_uid_def live_pid_def)

lemma port_not_special: "live_uid s u \<Longrightarrow> port_of s' u \<noteq> IPORT_ANY \<and> port_of s' u \<noteq> IPORT_KERNEL"
  using live_uid_pid_ge2 [of s u] port_of_fields(1) [of s' u] port_pid_special by metis

text \<open>A port that carries a version resolves to the thread it was made for, in any state.\<close>

lemma port_to_uid_versioned:
  assumes "table_ok s'" and "live_uid s u" and "port = port_of s u" and "port_pvn port \<noteq> 0 \<or> port_tvn port \<noteq> 0"
  shows "port_to_uid s' port parent =
    Some (if live_uid s' u \<and> port_of s' u = port then u else 0)"
proof -
  have f: "port_pid port = uid_pid u" "port_tid port = uid_tid u"
    "port \<noteq> 1" "port \<noteq> 0x40001" "\<not> (port_pvn port = 0 \<and> port_tvn port = 0)"
    using port_not_special [OF assms(2), of s] assms(4) by (simp_all add: assms(3))
  have eq: "port_of s' u = port \<longleftrightarrow> pr_version (process_at s' (uid_pid u)) = port_pvn port \<and>
      th_version (thread_at s' u) = port_tvn port"
    using assms(3) port_of_fields(3,4) port_of_def by metis
  have r: "port_to_uid s' port parent = do {
      thr \<leftarrow> thread_get s' u;
      case thr of None \<Rightarrow> Some 0
      | Some t \<Rightarrow> do {
          p \<leftarrow> the_process s' (uid_pid u);
          if pr_version p \<noteq> port_pvn port \<or> th_version t \<noteq> port_tvn port then Some 0 else Some u } }"
    by (simp only: port_to_uid_def f if_False simp_thms Let_def mk_uid_pid_tid)
  show ?thesis
  proof (cases "live_uid s' u")
    case True
    then have "live_pid s' (uid_pid u)" by (simp add: live_uid_def)
    with True show ?thesis
      by (simp add: r thread_get_ok [OF assms(1)] the_process_ok [OF assms(1)] eq)
  next
    case False
    then show ?thesis by (simp add: r thread_get_ok [OF assms(1)])
  qed
qed

lemma port_roundtrip:
  assumes "ids_ok s" and "live_uid s u" and "pr_version (process_at s (uid_pid u)) \<noteq> 0 \<or> th_version (thread_at s u) \<noteq> 0"
  shows "\<exists>port. port_from_uid s u = Some port \<and> port_to_uid s port parent = Some u"
proof -
  have "table_ok s" using assms(1) by (simp add: ids_ok_def)
  from port_to_uid_versioned [OF this assms(2) refl, of parent] assms show ?thesis
    by (auto simp: port_from_uid_live)
qed

text \<open>Comparison: reflexive, symmetric, and exact on ports with versions.\<close>

lemma port_compare_sym: "port_compare p q = port_compare q p"
  by (auto simp: port_compare_def)

lemma port_compare_any [simp]: "port_compare IPORT_ANY q" "port_compare q IPORT_ANY"
  by (simp_all add: port_compare_def)

lemma port_compare_refl [simp]: "port_compare p p"
  by (simp add: port_compare_def)

lemma port_compare_versioned:
  "live_uid s u \<Longrightarrow> live_uid s v \<Longrightarrow> port_pvn (port_of s u) \<noteq> 0 \<or> port_tvn (port_of s u) \<noteq> 0 \<Longrightarrow>
   port_pvn (port_of s v) \<noteq> 0 \<or> port_tvn (port_of s v) \<noteq> 0 \<Longrightarrow> port_compare (port_of s u) (port_of s v) \<longleftrightarrow> u = v"
proof -
  assume a: "live_uid s u" "live_uid s v" "port_pvn (port_of s u) \<noteq> 0 \<or> port_tvn (port_of s u) \<noteq> 0"
    "port_pvn (port_of s v) \<noteq> 0 \<or> port_tvn (port_of s v) \<noteq> 0"
  then have "port_compare (port_of s u) (port_of s v) \<longleftrightarrow> port_of s u = port_of s v"
    using port_not_special [OF a(1), of s] port_not_special [OF a(2), of s] unfolding port_compare_def by presburger
  then show ?thesis by (metis mk_uid_pid_tid port_of_fields(1,2))
qed

text \<open>
  C22. A port taken from a live thread, with a version, resolves at any later state to that thread
  exactly if the thread is still live with the same versions, and to nothing otherwise: a port never
  reaches a later process or thread in the same slot with other versions.
\<close>

theorem stale_port:
  assumes "table_ok s'" and "live_uid s u" and "port = port_of s u" and "port_pvn port \<noteq> 0 \<or> port_tvn port \<noteq> 0"
  shows "port_to_uid s' port parent = Some (if live_uid s' u \<and> port_of s' u = port then u else 0)"
  by (rule port_to_uid_versioned [OF assms])

end
