(* ===== verification/Ipc_Message.thy ===== *)
theory Ipc_Message
  imports Ipc_Port
begin

text \<open>
  \<open>kernel/core/ipc/message.c\<close>: the message queues.  The messages of a process are an array in its
  control block; each of its threads has a queue, linked through the array by 16-bit indices.
\<close>

text \<open>\<open>struct msg\<close>, as the kernel reads it from its caller.\<close>

record umsg =
  um_port :: ipcport_t
  um_code :: u32
  um_args :: "u32 list"
  um_buf :: u32
  um_size :: u32

subsection \<open>Access to the array\<close>

text \<open>
  The control blocks live in kernel memory that is mapped page by page: an access to a message
  on a page that is not mapped faults.  The kernel's page tables are shared by all address
  spaces, so the kernel directory decides.
\<close>

definition kernel_mapped :: "kstate \<Rightarrow> u32 \<Rightarrow> bool" where
  "kernel_mapped s va \<longleftrightarrow> walk (mem (km s)) (kernel_dir (km s)) va \<noteq> None"

definition message_address :: "kstate \<Rightarrow> pid_t \<Rightarrow> nat \<Rightarrow> u32" where
  "message_address s pid i = block_address s (unat pid) + of_nat (message_offset i)"

definition message_mapped :: "kstate \<Rightarrow> pid_t \<Rightarrow> nat \<Rightarrow> bool" where
  "message_mapped s pid i \<longleftrightarrow> i < PROCESS_MESSAGE_MAX \<and>
     kernel_mapped s (message_address s pid i) \<and> kernel_mapped s (message_address s pid i + 23)"

definition message_get :: "kstate \<Rightarrow> pid_t \<Rightarrow> u16 \<Rightarrow> message option" where
  "message_get s pid i = (if message_mapped s pid (unat i) then Some (message_at s pid (unat i)) else None)"

definition message_set :: "pid_t \<Rightarrow> u16 \<Rightarrow> (message \<Rightarrow> message) \<Rightarrow> kstate \<Rightarrow> kstate option" where
  "message_set pid i f s = (if message_mapped s pid (unat i) then Some (upd_message pid (unat i) f s) else None)"

subsection \<open>Operations\<close>

definition message_link :: "thread_uid \<Rightarrow> u16 \<Rightarrow> bool \<Rightarrow> kstate \<Rightarrow> kstate option" where
  "message_link uid index head s = do {
     t \<leftarrow> the_thread s uid;
     if head then do {
       let s = (if th_msg_count t = 0 then upd_thread uid (\<lambda>t. t\<lparr>th_msg_tail := index\<rparr>) s else s);
       s \<leftarrow> message_set (uid_pid uid) index (\<lambda>m. m\<lparr>msg_next := th_msg_head t\<rparr>) s;
       Some (upd_thread uid (\<lambda>t. t\<lparr>th_msg_head := index\<rparr>) s)
     }
     else do {
       s \<leftarrow> (if th_msg_count t = 0 then Some (upd_thread uid (\<lambda>t. t\<lparr>th_msg_head := index\<rparr>) s)
             else message_set (uid_pid uid) (th_msg_tail t) (\<lambda>m. m\<lparr>msg_next := index\<rparr>) s);
       s \<leftarrow> message_set (uid_pid uid) index (\<lambda>m. m\<lparr>msg_next := -1\<rparr>) s;
       Some (upd_thread uid (\<lambda>t. t\<lparr>th_msg_tail := index\<rparr>) s)
     }
   }"

definition message_add :: "thread_uid \<Rightarrow> ipcport_t \<Rightarrow> umsg \<Rightarrow> bool \<Rightarrow> kstate \<Rightarrow> kstate option" where
  "message_add uid from info head s = do {
     let pid = uid_pid uid;
     owner \<leftarrow> the_process s pid;
     dassert (unat (pr_msg_count owner) \<le> PROCESS_MESSAGE_MAX);
     (n, bm) \<leftarrow> bitmap_find_and_set (pr_msg_bitmap owner) PROCESS_MESSAGE_MAX;
     dassert (n \<noteq> -1);
     let index = (of_int n :: u16);
     let s = upd_process pid (\<lambda>p. p\<lparr>pr_msg_bitmap := bm\<rparr>) s;
     s \<leftarrow> message_set pid index (\<lambda>_. zero_message\<lparr>msg_from := from, msg_code := um_code info,
             msg_args := um_args info, msg_payload := (um_size info > 0)\<rparr>) s;
     s \<leftarrow> message_link uid index head s;
     let s = upd_process pid (\<lambda>p. p\<lparr>pr_msg_count := pr_msg_count p + 1\<rparr>) s;
     Some (upd_thread uid (\<lambda>t. t\<lparr>th_msg_count := th_msg_count t + 1\<rparr>) s)
   }"

text \<open>
  \<open>message_remove\<close> returns the message; the caller copies it to its destination.  The head is an
  unsigned 16-bit field, so the test \<open>head == -1\<close> of the source compares \<open>65535\<close> with \<open>-1\<close> and
  the tail is never reset.
\<close>

definition message_remove :: "thread_uid \<Rightarrow> kstate \<Rightarrow> (message \<times> kstate) option" where
  "message_remove uid s = do {
     let pid = uid_pid uid;
     owner \<leftarrow> the_process s pid;
     t \<leftarrow> the_thread s uid;
     dassert (th_msg_count t \<noteq> 0);
     bm \<leftarrow> bitmap_clear (pr_msg_bitmap owner) (unat (th_msg_head t));
     let s = upd_process pid (\<lambda>p. p\<lparr>pr_msg_bitmap := bm\<rparr>) s;
     source \<leftarrow> message_get s pid (th_msg_head t);
     let s = upd_thread uid (\<lambda>t. t\<lparr>th_msg_head := msg_next source\<rparr>) s;
     let s = (if uint (msg_next source) = -1 then upd_thread uid (\<lambda>t. t\<lparr>th_msg_tail := -1\<rparr>) s else s);
     let s = upd_process pid (\<lambda>p. p\<lparr>pr_msg_count := pr_msg_count p - 1\<rparr>) s;
     Some (source, upd_thread uid (\<lambda>t. t\<lparr>th_msg_count := th_msg_count t - 1\<rparr>) s)
   }"

definition message_peek :: "thread_uid \<Rightarrow> kstate \<Rightarrow> (bool \<times> ipcport_t) option" where
  "message_peek uid s = do {
     owner \<leftarrow> the_process s (uid_pid uid);
     t \<leftarrow> the_thread s uid;
     dassert (th_msg_count t \<noteq> 0);
     source \<leftarrow> message_get s (uid_pid uid) (th_msg_head t);
     Some (msg_payload source, msg_from source)
   }"

text \<open>The search loop: it looks for the first match and ends at the index \<open>-1\<close>.\<close>

partial_function (option) message_find_loop ::
    "thread_uid \<Rightarrow> ipcport_t \<Rightarrow> u16 \<Rightarrow> u16 \<Rightarrow> kstate \<Rightarrow> (bool \<times> kstate) option" where
  "message_find_loop uid search prev cur s =
     (if cur = -1 then Some (False, s)
      else do {
        msg \<leftarrow> message_get s (uid_pid uid) cur;
        if port_compare search (msg_from msg) then
          if prev = -1 then Some (True, s)
          else do {
            t \<leftarrow> the_thread s uid;
            s \<leftarrow> message_set (uid_pid uid) prev (\<lambda>m. m\<lparr>msg_next := msg_next msg\<rparr>) s;
            let s = (if th_msg_tail t = cur then upd_thread uid (\<lambda>t. t\<lparr>th_msg_tail := prev\<rparr>) s else s);
            s \<leftarrow> message_set (uid_pid uid) cur (\<lambda>m. m\<lparr>msg_next := th_msg_head t\<rparr>) s;
            Some (True, upd_thread uid (\<lambda>t. t\<lparr>th_msg_head := cur\<rparr>) s)
          }
        else message_find_loop uid search cur (msg_next msg) s
      })"

definition message_find :: "thread_uid \<Rightarrow> ipcport_t \<Rightarrow> kstate \<Rightarrow> (bool \<times> kstate) option" where
  "message_find uid search s = do {
     owner \<leftarrow> the_process s (uid_pid uid);
     t \<leftarrow> the_thread s uid;
     if th_msg_count t = 0 then Some (False, s)
     else message_find_loop uid search (-1) (th_msg_head t) s
   }"

subsection \<open>Queues as lists\<close>

lemma message_mapped_upd [simp]:
  "message_mapped (upd_thread u f s) p i = message_mapped s p i"
  "message_mapped (upd_message q j g s) p i = message_mapped s p i"
  "message_mapped (upd_process q h s) p i = message_mapped s p i"
  by (simp_all add: message_mapped_def kernel_mapped_def message_address_def block_address_def)

lemma message_set_mapped: "message_mapped s pid (unat i) \<Longrightarrow> message_set pid i f s = Some (upd_message pid (unat i) f s)"
  by (simp add: message_set_def)

lemma message_get_mapped: "message_mapped s pid (unat i) \<Longrightarrow> message_get s pid i = Some (message_at s pid (unat i))"
  by (simp add: message_get_def)

definition msg_nexts :: "kstate \<Rightarrow> pid_t \<Rightarrow> nat \<Rightarrow> nat option" where
  "msg_nexts s pid i = (let n = msg_next (message_at s pid i) in if n = -1 then None else Some (unat n))"

definition msg_used :: "kstate \<Rightarrow> pid_t \<Rightarrow> nat set" where
  "msg_used s pid = bitmap_bits (pr_msg_bitmap (process_at s pid))"

definition msg_queue :: "kstate \<Rightarrow> thread_uid \<Rightarrow> nat list \<Rightarrow> bool" where
  "msg_queue s uid is \<longleftrightarrow> unat (th_msg_count (thread_at s uid)) = length is \<and>
     (is \<noteq> [] \<longrightarrow> chain (msg_nexts s (uid_pid uid)) (Some (unat (th_msg_head (thread_at s uid)))) is \<and>
                unat (th_msg_tail (thread_at s uid)) = last is) \<and>
     set is \<subseteq> msg_used s (uid_pid uid) \<and> (\<forall>i \<in> set is. message_mapped s (uid_pid uid) i)"

text \<open>
  The invariant of the message system, for the assignment \<open>Q\<close> of its queue to every thread: the
  queues of a process are disjoint, and its counter is the number of messages in use.
\<close>

definition ipc_inv :: "kstate \<Rightarrow> (thread_uid \<Rightarrow> nat list) \<Rightarrow> bool" where
  "ipc_inv s Q \<longleftrightarrow> table_ok s \<and> (\<forall>u. live_uid s u \<longrightarrow> msg_queue s u (Q u)) \<and>
     (\<forall>u v. live_uid s u \<longrightarrow> live_uid s v \<longrightarrow> u \<noteq> v \<longrightarrow> uid_pid u = uid_pid v \<longrightarrow> set (Q u) \<inter> set (Q v) = {}) \<and>
     (\<forall>p. live_pid s p \<longrightarrow> unat (pr_msg_count (process_at s p)) = card (msg_used s p))"

text \<open>What a message carries, and the contents of a queue.\<close>

definition msg_body :: "message \<Rightarrow> ipcport_t \<times> u32 \<times> u32 list \<times> bool" where
  "msg_body m = (msg_from m, msg_code m, msg_args m, msg_payload m)"

definition inbox :: "kstate \<Rightarrow> thread_uid \<Rightarrow> nat list \<Rightarrow> (ipcport_t \<times> u32 \<times> u32 list \<times> bool) list" where
  "inbox s u is = map (\<lambda>i. msg_body (message_at s (uid_pid u) i)) is"

lemma msg_used_bound: "table_ok s \<Longrightarrow> msg_used s p \<subseteq> {..<1024}"
  using bitmap_bits_subset [of "pr_msg_bitmap (process_at s p)"] by (simp add: msg_used_def table_ok_def process_at_def)

lemma msg_queue_length: "table_ok s \<Longrightarrow> msg_queue s u is \<Longrightarrow> set is \<subseteq> {..<1024} \<and> distinct is"
  using msg_used_bound [of s "uid_pid u"] chain_distinct [of "msg_nexts s (uid_pid u)"]
  by (cases "is = []") (auto simp: msg_queue_def)

lemma msg_queue_cong:
  assumes "msg_queue s u is"
    and "th_msg_count (thread_at s' u) = th_msg_count (thread_at s u)" "th_msg_head (thread_at s' u) = th_msg_head (thread_at s u)"
    and "th_msg_tail (thread_at s' u) = th_msg_tail (thread_at s u)"
    and "\<And>i. i \<in> set is \<Longrightarrow> msg_next (message_at s' (uid_pid u) i) = msg_next (message_at s (uid_pid u) i)"
    and "set is \<subseteq> msg_used s' (uid_pid u)"
    and "\<And>i. message_mapped s' (uid_pid u) i = message_mapped s (uid_pid u) i"
  shows "msg_queue s' u is"
proof -
  have "chain (msg_nexts s' (uid_pid u)) p is = chain (msg_nexts s (uid_pid u)) p is" for p
    by (rule chain_cong) (simp add: msg_nexts_def assms(5))
  with assms show ?thesis by (simp add: msg_queue_def)
qed

lemma unat_of_nat16: "i < 1024 \<Longrightarrow> unat (of_nat i :: u16) = i"
  by (simp add: unat_of_nat)

lemma unat_minus1_16 [simp]: "unat (-1 :: u16) = 65535"
  by (simp add: unsigned_minus_1_eq_mask mask_eq_exp_minus_1)

lemma uint_neq_minus1 [simp]: "uint (w :: u16) \<noteq> -1"
  using unsigned_greater_eq [of w, where 'a = int] by linarith

text \<open>The message a request turns into.\<close>

definition new_message :: "ipcport_t \<Rightarrow> umsg \<Rightarrow> message" where
  "new_message from info = zero_message\<lparr>msg_from := from, msg_code := um_code info,
     msg_args := um_args info, msg_payload := (um_size info > 0)\<rparr>"

text \<open>The state after \<open>message_add\<close>, for the free slot \<open>i\<close> it takes.\<close>

definition message_added ::
    "thread_uid \<Rightarrow> ipcport_t \<Rightarrow> umsg \<Rightarrow> bool \<Rightarrow> nat list \<Rightarrow> nat \<Rightarrow> kstate \<Rightarrow> kstate \<Rightarrow> bool" where
  "message_added u from info head is i s s' \<longleftrightarrow>
     (\<forall>q j. message_at s' q j =
        (if q = uid_pid u \<and> j = i then (new_message from info)\<lparr>msg_next := (if head then th_msg_head (thread_at s u) else -1)\<rparr>
         else if q = uid_pid u \<and> \<not> head \<and> is \<noteq> [] \<and> j = last is then (message_at s q j)\<lparr>msg_next := of_nat i\<rparr>
         else message_at s q j)) \<and>
     (\<forall>v. thread_at s' v = (if v = u then (thread_at s u)
        \<lparr>th_msg_head := (if head \<or> is = [] then of_nat i else th_msg_head (thread_at s u)),
         th_msg_tail := (if \<not> head \<or> is = [] then of_nat i else th_msg_tail (thread_at s u)),
         th_msg_count := th_msg_count (thread_at s u) + 1\<rparr> else thread_at s v)) \<and>
     (\<forall>q. q \<noteq> uid_pid u \<longrightarrow> process_at s' q = process_at s q) \<and>
     msg_used s' (uid_pid u) = insert i (msg_used s (uid_pid u)) \<and>
     (\<exists>bm. process_at s' (uid_pid u) = (process_at s (uid_pid u))
        \<lparr>pr_msg_bitmap := bm, pr_msg_count := pr_msg_count (process_at s (uid_pid u)) + 1\<rparr>) \<and>
     table_ok s' \<and> live_pid s' = live_pid s \<and> live_uid s' = live_uid s \<and> message_mapped s' = message_mapped s \<and>
     active_thread s' = active_thread s \<and> locked s' = locked s \<and> km s' = km s \<and> curr_frame s' = curr_frame s"

lemma message_add_run:
  assumes ok: "table_ok s" and u: "live_uid s u" and q: "msg_queue s u is"
    and cnt: "unat (pr_msg_count (process_at s (uid_pid u))) \<le> 1024"
    and free: "msg_used s (uid_pid u) \<noteq> {..<1024}"
    and mapped: "message_mapped s (uid_pid u) (LEAST i. i \<notin> msg_used s (uid_pid u))"
  shows "\<exists>s' i. message_add u from info head s = Some s' \<and> i = (LEAST i. i \<notin> msg_used s (uid_pid u)) \<and>
    i < 1024 \<and> i \<notin> msg_used s (uid_pid u) \<and> message_added u from info head is i s s'"
proof -
  let ?p = "uid_pid u" and ?P = "process_at s (uid_pid u)"
  have len: "length (pr_msg_bitmap ?P) = 32" "length (pr_thread_bitmap ?P) = 2" "length (pr_thread_versions ?P) = 64"
    using ok by (simp_all add: table_ok_def process_at_def)
  obtain i bm where bm: "bitmap_find_and_set (pr_msg_bitmap ?P) 1024 = Some (int i, bm)" "i < 1024" "i \<notin> msg_used s ?p"
    "{..<i} \<subseteq> msg_used s ?p" "bitmap_bits bm = insert i (msg_used s ?p)" "length bm = 32"
    using bitmap_find_and_set_free [of "pr_msg_bitmap ?P" 1024] free len(1) by (auto simp: msg_used_def BITMAP_LENGTH_def)
  have "(LEAST i. i \<notin> msg_used s ?p) = i"
    by (rule Least_equality) (use bm(3,4) in \<open>auto simp: not_le [symmetric]\<close>)
  then have im: "message_mapped s ?p i" "i = (LEAST i. i \<notin> msg_used s ?p)" using mapped by simp_all
  have ui: "unat (of_nat i :: u16) = i" using bm(2) by (rule unat_of_nat16)
  have lp: "live_pid s ?p" using u by (simp add: live_uid_def)
  have c0: "th_msg_count (thread_at s u) = 0 \<longleftrightarrow> is = []" using q by (auto simp: msg_queue_def unat_eq_zero [symmetric])
  have tl: "is \<noteq> [] \<Longrightarrow> unat (th_msg_tail (thread_at s u)) = last is \<and> message_mapped s ?p (last is) \<and> last is \<noteq> i"
  proof -
    assume "is \<noteq> []"
    have "set is \<subseteq> msg_used s ?p" using q by (simp add: msg_queue_def)
    then have l: "last is \<in> msg_used s ?p" using last_in_set [OF \<open>is \<noteq> []\<close>] by blast
    then show ?thesis using q bm(3) \<open>is \<noteq> []\<close> by (auto simp: msg_queue_def)
  qed
  define s1 where "s1 = upd_message ?p i (\<lambda>_. new_message from info) (upd_process ?p (\<lambda>p. p\<lparr>pr_msg_bitmap := bm\<rparr>) s)"
  define fin where "fin t = upd_thread u (\<lambda>t. t\<lparr>th_msg_count := th_msg_count t + 1\<rparr>)
      (upd_process ?p (\<lambda>p. p\<lparr>pr_msg_count := pr_msg_count p + 1\<rparr>) t)" for t
  have ok1: "table_ok s1" "live_uid s1 = live_uid s"
    using bm(6) len table_ok_upd_process [OF ok, of "\<lambda>p. p\<lparr>pr_msg_bitmap := bm\<rparr>" ?p]
    by (auto simp: s1_def fun_eq_iff live_uid_process)
  have t1: "the_thread s1 u = Some (thread_at s u)"
    using u by (simp add: the_thread_ok [OF ok1(1)] ok1(2)) (simp add: s1_def)
  have m1: "message_mapped s1 = message_mapped s" by (simp add: s1_def fun_eq_iff)
  have "message_add u from info head s = do { s \<leftarrow> message_link u (of_nat i) head s1; Some (fin s) }"
    using lp cnt bm(1) im(1) ui
    by (simp add: message_add_def the_process_ok [OF ok] Let_def message_set_mapped s1_def new_message_def fin_def)
  moreover have "\<exists>s2. message_link u (of_nat i) head s1 = Some s2 \<and> message_added u from info head is i s (fin s2)"
  proof -
    let ?h = "th_msg_head (thread_at s u)"
    consider (hfirst) head "is = []" | (hmore) head "is \<noteq> []" | (first) "\<not> head" "is = []" | (more) "\<not> head" "is \<noteq> []" by blast
    then show ?thesis
    proof cases
      case hfirst
      define s2 where "s2 = upd_thread u (\<lambda>t. t\<lparr>th_msg_head := of_nat i\<rparr>) (upd_message ?p i (\<lambda>m. m\<lparr>msg_next := ?h\<rparr>)
         (upd_thread u (\<lambda>t. t\<lparr>th_msg_tail := of_nat i\<rparr>) s1))"
      have "message_link u (of_nat i) head s1 = Some s2"
        using hfirst im(1) ui c0 by (simp add: message_link_def t1 m1 s2_def message_set_mapped Let_def)
      then show ?thesis
        using hfirst ok1 bm(5) len
        by (intro exI [of _ s2]) (auto simp: message_added_def s2_def fin_def msg_used_def s1_def new_message_def fun_eq_iff table_ok_upd_process bm(6))
    next
      case hmore
      define s2 where "s2 = upd_thread u (\<lambda>t. t\<lparr>th_msg_head := of_nat i\<rparr>) (upd_message ?p i (\<lambda>m. m\<lparr>msg_next := ?h\<rparr>) s1)"
      have "message_link u (of_nat i) head s1 = Some s2"
        using hmore im(1) ui c0 by (simp add: message_link_def t1 m1 s2_def message_set_mapped Let_def)
      then show ?thesis
        using hmore ok1 bm(5) len
        by (intro exI [of _ s2]) (auto simp: message_added_def s2_def fin_def msg_used_def s1_def new_message_def fun_eq_iff table_ok_upd_process bm(6))
    next
      case first
      define s2 where "s2 = upd_thread u (\<lambda>t. t\<lparr>th_msg_tail := of_nat i\<rparr>) (upd_message ?p i (\<lambda>m. m\<lparr>msg_next := -1\<rparr>)
         (upd_thread u (\<lambda>t. t\<lparr>th_msg_head := of_nat i\<rparr>) s1))"
      have "message_link u (of_nat i) head s1 = Some s2"
        using first im(1) ui c0 by (simp add: message_link_def t1 m1 s2_def message_set_mapped Let_def)
      then show ?thesis
        using first ok1 bm(5) len
        by (intro exI [of _ s2]) (auto simp: message_added_def s2_def fin_def msg_used_def s1_def new_message_def fun_eq_iff table_ok_upd_process bm(6))
    next
      case more
      define s2 where "s2 = upd_thread u (\<lambda>t. t\<lparr>th_msg_tail := of_nat i\<rparr>) (upd_message ?p i (\<lambda>m. m\<lparr>msg_next := -1\<rparr>)
         (upd_message ?p (last is) (\<lambda>m. m\<lparr>msg_next := of_nat i\<rparr>) s1))"
      have "message_link u (of_nat i) head s1 = Some s2"
        using more im(1) ui c0 tl by (simp add: message_link_def t1 m1 s2_def message_set_mapped Let_def)
      moreover have "last is \<noteq> i" using tl more(2) by blast
      ultimately show ?thesis
        using more ok1 bm(5) len
        by (intro exI [of _ s2]) (auto simp: message_added_def s2_def fin_def msg_used_def s1_def new_message_def fun_eq_iff table_ok_upd_process bm(6))
    qed
  qed
  ultimately show ?thesis using bm(2,3) im(2) by auto
qed

text \<open>The queue of the receiver after an addition at the tail and at the head.\<close>

lemma message_added_tail:
  assumes A: "message_added u from info False is i s s'" and ok: "table_ok s" and q: "msg_queue s u is"
    and i: "i < 1024" "i \<notin> msg_used s (uid_pid u)" "message_mapped s (uid_pid u) i"
  shows "msg_queue s' u (is @ [i]) \<and> inbox s' u (is @ [i]) = inbox s u is @ [(from, um_code info, um_args info, um_size info > 0)]"
proof -
  let ?p = "uid_pid u"
  have ui: "unat (of_nat i :: u16) = i" using i(1) by (rule unat_of_nat16)
  then have neg: "(of_nat i :: u16) \<noteq> -1" using i(1) by auto
  have isn: "i \<notin> set is" "set is \<subseteq> {..<1024}" "distinct is"
    using q i(2) msg_queue_length [OF ok q] by (auto simp: msg_queue_def)
  have th: "thread_at s' u = (thread_at s u)\<lparr>th_msg_head := (if is = [] then of_nat i else th_msg_head (thread_at s u)),
      th_msg_tail := of_nat i, th_msg_count := th_msg_count (thread_at s u) + 1\<rparr>"
    using A by (simp add: message_added_def)
  have ms: "message_at s' ?p j = (if j = i then (new_message from info)\<lparr>msg_next := -1\<rparr>
      else if is \<noteq> [] \<and> j = last is then (message_at s ?p j)\<lparr>msg_next := of_nat i\<rparr> else message_at s ?p j)" for j
    using A by (simp add: message_added_def)
  have cnt: "unat (th_msg_count (thread_at s' u)) = Suc (length is)"
  proof -
    have "length is \<le> 1024" using isn by (metis card_lessThan card_mono distinct_card finite_lessThan)
    then show ?thesis using q by (simp add: th msg_queue_def unat_word_ariths)
  qed
  have ch: "chain (msg_nexts s' ?p) (Some (unat (th_msg_head (thread_at s' u)))) (is @ [i])"
  proof (cases "is = []")
    case True
    then show ?thesis by (simp add: th ui msg_nexts_def ms)
  next
    case False
    have "chain (msg_nexts s ?p) (Some (unat (th_msg_head (thread_at s u)))) is" using q False by (simp add: msg_queue_def)
    then have "chain (msg_nexts s' ?p) (Some (unat (th_msg_head (thread_at s u)))) (is @ [i])"
      by (rule chain_snoc) (use False isn neg ui in \<open>auto simp: msg_nexts_def ms dest: distinct_butlast_last in_set_butlastD\<close>)
    then show ?thesis using False by (simp add: th)
  qed
  have bodies: "msg_body (message_at s' ?p j) = msg_body (message_at s ?p j)" if "j \<noteq> i" for j
    using that by (simp add: ms msg_body_def)
  then have "map (\<lambda>j. msg_body (message_at s' ?p j)) is = map (\<lambda>j. msg_body (message_at s ?p j)) is"
    using isn(1) by (intro map_cong refl) metis
  then have "inbox s' u (is @ [i]) = inbox s u is @ [(from, um_code info, um_args info, um_size info > 0)]"
    by (simp add: inbox_def ms msg_body_def new_message_def)
  moreover have "msg_queue s' u (is @ [i])"
    using cnt ch A q i ui by (auto simp: msg_queue_def th message_added_def)
  ultimately show ?thesis by blast
qed

lemma message_added_head:
  assumes A: "message_added u from info True is i s s'" and ok: "table_ok s" and q: "msg_queue s u is"
    and i: "i < 1024" "i \<notin> msg_used s (uid_pid u)" "message_mapped s (uid_pid u) i"
    and ne: "is = [] \<longrightarrow> th_msg_head (thread_at s u) = -1"
  shows "msg_queue s' u (i # is) \<and> inbox s' u (i # is) = (from, um_code info, um_args info, um_size info > 0) # inbox s u is"
proof -
  let ?p = "uid_pid u"
  have ui: "unat (of_nat i :: u16) = i" using i(1) by (rule unat_of_nat16)
  have isn: "i \<notin> set is" "set is \<subseteq> {..<1024}" "distinct is"
    using q i(2) msg_queue_length [OF ok q] by (auto simp: msg_queue_def)
  have th: "thread_at s' u = (thread_at s u)\<lparr>th_msg_head := of_nat i,
      th_msg_tail := (if is = [] then of_nat i else th_msg_tail (thread_at s u)), th_msg_count := th_msg_count (thread_at s u) + 1\<rparr>"
    using A by (simp add: message_added_def)
  have ms: "message_at s' ?p j = (if j = i then (new_message from info)\<lparr>msg_next := th_msg_head (thread_at s u)\<rparr> else message_at s ?p j)" for j
    using A by (simp add: message_added_def)
  have cnt: "unat (th_msg_count (thread_at s' u)) = Suc (length is)"
  proof -
    have "length is \<le> 1024" using isn by (metis card_lessThan card_mono distinct_card finite_lessThan)
    then show ?thesis using q by (simp add: th msg_queue_def unat_word_ariths)
  qed
  have eq: "chain (msg_nexts s' ?p) p is = chain (msg_nexts s ?p) p is" for p
    by (rule chain_cong) (use isn(1) in \<open>auto simp: msg_nexts_def ms\<close>)
  have "chain (msg_nexts s' ?p) (msg_nexts s' ?p i) is"
  proof (cases "is = []")
    case True
    then show ?thesis using ne by (simp add: msg_nexts_def ms)
  next
    case False
    then have c: "chain (msg_nexts s ?p) (Some (unat (th_msg_head (thread_at s u)))) is" using q by (simp add: msg_queue_def)
    then have "unat (th_msg_head (thread_at s u)) \<in> set is" using False by (cases "is") auto
    then have "unat (th_msg_head (thread_at s u)) < 1024" using isn(2) by blast
    then have "th_msg_head (thread_at s u) \<noteq> -1" by auto
    then show ?thesis using c by (simp add: eq msg_nexts_def [of s' _ i] ms)
  qed
  then have "msg_queue s' u (i # is)"
    using cnt A q i ui by (auto simp: msg_queue_def th message_added_def)
  moreover have "map (\<lambda>j. msg_body (message_at s' ?p j)) is = map (\<lambda>j. msg_body (message_at s ?p j)) is"
    using isn(1) by (intro map_cong) (auto simp: ms)
  then have "inbox s' u (i # is) = (from, um_code info, um_args info, um_size info > 0) # inbox s u is"
    by (simp add: inbox_def ms msg_body_def new_message_def)
  ultimately show ?thesis by blast
qed

lemma ipc_invD:
  assumes "ipc_inv s Q"
  shows "table_ok s" and "live_uid s u \<Longrightarrow> msg_queue s u (Q u)" and "live_uid s u \<Longrightarrow> set (Q u) \<subseteq> msg_used s (uid_pid u)"
    and "live_uid s u \<Longrightarrow> live_uid s v \<Longrightarrow> u \<noteq> v \<Longrightarrow> uid_pid u = uid_pid v \<Longrightarrow> set (Q u) \<inter> set (Q v) = {}"
    and "live_pid s p \<Longrightarrow> unat (pr_msg_count (process_at s p)) = card (msg_used s p)"
  using assms by (auto simp: ipc_inv_def msg_queue_def)

lemma ipc_invI:
  assumes "table_ok s" and "\<And>u. live_uid s u \<Longrightarrow> msg_queue s u (Q u)"
    and "\<And>u v. live_uid s u \<Longrightarrow> live_uid s v \<Longrightarrow> u \<noteq> v \<Longrightarrow> uid_pid u = uid_pid v \<Longrightarrow> set (Q u) \<inter> set (Q v) = {}"
    and "\<And>p. live_pid s p \<Longrightarrow> unat (pr_msg_count (process_at s p)) = card (msg_used s p)"
  shows "ipc_inv s Q"
  using assms by (simp add: ipc_inv_def)

lemma ipc_inv_upd:
  assumes I: "ipc_inv s Q" and fr: "live_uid s' = live_uid s" "live_pid s' = live_pid s" "table_ok s'"
    and u: "msg_queue s' u is" and other: "\<And>v. live_uid s v \<Longrightarrow> v \<noteq> u \<Longrightarrow> msg_queue s' v (Q v)"
    and disj: "\<And>v. live_uid s v \<Longrightarrow> v \<noteq> u \<Longrightarrow> uid_pid v = uid_pid u \<Longrightarrow> set is \<inter> set (Q v) = {}"
    and cnt: "\<And>p. live_pid s p \<Longrightarrow> unat (pr_msg_count (process_at s' p)) = card (msg_used s' p)"
  shows "ipc_inv s' (Q(u := is))"
proof (rule ipc_invI)
  fix a b assume ab: "live_uid s' a" "live_uid s' b" "a \<noteq> b" "uid_pid a = uid_pid b"
  then have l: "live_uid s a" "live_uid s b" using fr(1) by simp_all
  show "set ((Q(u := is)) a) \<inter> set ((Q(u := is)) b) = {}"
  proof (cases "a = u")
    case True
    then show ?thesis using disj [OF l(2)] ab(3,4) by simp
  next
    case a: False
    show ?thesis
    proof (cases "b = u")
      case True
      then show ?thesis using a disj [OF l(1)] ab(4) by (simp add: Int_commute)
    next
      case False
      then show ?thesis using a ipc_invD(4) [OF I l ab(3,4)] by simp
    qed
  qed
qed (use fr u other cnt in auto)

text \<open>An addition keeps the invariant and every other queue.\<close>

lemma message_added_others:
  assumes I: "ipc_inv s Q" and u: "live_uid s u" and A: "message_added u from info head (Q u) i s s'"
    and i: "i \<notin> msg_used s (uid_pid u)" and v: "live_uid s v" "v \<noteq> u"
  shows "msg_queue s' v (Q v) \<and> inbox s' v (Q v) = inbox s v (Q v)"
proof -
  let ?p = "uid_pid u"
  note D = ipc_invD [OF I]
  have fr: "message_mapped s' = message_mapped s" "thread_at s' v = thread_at s v" "msg_used s' ?p = insert i (msg_used s ?p)"
    "\<And>p. p \<noteq> ?p \<Longrightarrow> process_at s' p = process_at s p"
    using A v(2) by (auto simp: message_added_def)
  have ms: "message_at s' (uid_pid v) j = message_at s (uid_pid v) j" if j: "j \<in> set (Q v)" for j
  proof -
    have "uid_pid v = ?p \<longrightarrow> j \<noteq> i \<and> j \<notin> set (Q u)" using j i D(3) [OF v(1)] D(4) [OF u v(1)] v(2) by auto
    then show ?thesis using A last_in_set [of "Q u"] by (auto simp: message_added_def)
  qed
  have used: "set (Q v) \<subseteq> msg_used s' (uid_pid v)"
    using D(3) [OF v(1)] fr(3,4) by (cases "uid_pid v = ?p") (auto simp: msg_used_def)
  have "msg_queue s' v (Q v)" by (rule msg_queue_cong [OF D(2) [OF v(1)]]) (use fr ms used in simp_all)
  moreover have "inbox s' v (Q v) = inbox s v (Q v)" using ms by (simp add: inbox_def)
  ultimately show ?thesis by blast
qed

lemma message_added_ipc_inv:
  assumes I: "ipc_inv s Q" and u: "live_uid s u" and A: "message_added u from info head (Q u) i s s'"
    and i: "i \<notin> msg_used s (uid_pid u)" "i < 1024" and q: "msg_queue s' u is" "set is = insert i (set (Q u))"
  shows "ipc_inv s' (Q(u := is))"
proof -
  let ?p = "uid_pid u"
  note D = ipc_invD [OF I]
  have fr: "live_uid s' = live_uid s" "live_pid s' = live_pid s" "table_ok s'" "message_mapped s' = message_mapped s"
    "msg_used s' ?p = insert i (msg_used s ?p)" "\<And>v. v \<noteq> u \<Longrightarrow> thread_at s' v = thread_at s v"
    "\<And>p. p \<noteq> ?p \<Longrightarrow> process_at s' p = process_at s p"
    "pr_msg_count (process_at s' ?p) = pr_msg_count (process_at s ?p) + 1"
    using A by (auto simp: message_added_def)
  have used: "msg_used s' p = (if p = ?p then insert i (msg_used s p) else msg_used s p)" for p
    using fr(5,7) by (auto simp: msg_used_def)
  have other: "msg_queue s' v (Q v)" if v: "live_uid s v" "v \<noteq> u" for v
    using message_added_others [OF I u A i(1) v] by blast
  have disj: "set is \<inter> set (Q v) = {}" if "live_uid s v" "v \<noteq> u" "uid_pid v = ?p" for v
    using D(3) [OF that(1)] D(4) [OF u that(1)] that q(2) i(1) by auto
  have cnt: "unat (pr_msg_count (process_at s' p)) = card (msg_used s' p)" if "live_pid s p" for p
  proof (cases "p = ?p")
    case True
    have "msg_used s p \<subseteq> {..<1024}" by (rule msg_used_bound [OF D(1)])
    then have f: "finite (msg_used s p)" "card (msg_used s p) \<le> 1024"
      using card_mono [of "{..<1024}" "msg_used s p"] by (auto intro: finite_subset)
    then show ?thesis using True D(5) [OF that] i(1) fr(8) by (simp add: used unat_word_ariths)
  next
    case False
    then show ?thesis using D(5) [OF that] fr(7) by (simp add: used)
  qed
  show ?thesis
    by (rule ipc_inv_upd [OF I fr(1-3) q(1) other disj cnt])
qed

subsection \<open>Sending and receiving\<close>

text \<open>
  Only the page of the process record is mapped when a process is created; it also holds the
  first 160 messages.  A process with fewer messages than that can take another one.
\<close>

definition page0_mapped :: "kstate \<Rightarrow> bool" where
  "page0_mapped s \<longleftrightarrow> (\<forall>p. live_pid s p \<longrightarrow> (\<forall>i<160. message_mapped s p i))"

lemma least_free:
  assumes "finite A" and "card A < n"
  shows "(LEAST i. i \<notin> A) < (n :: nat)"
proof -
  let ?l = "LEAST i. i \<notin> A"
  have "{..<?l} \<subseteq> A" by (auto dest: not_less_Least)
  then have "?l \<le> card A" using card_mono [OF assms(1), of "{..<?l}"] by simp
  with assms(2) show ?thesis by simp
qed

lemma message_room:
  assumes "ipc_inv s Q" and "page0_mapped s" and "live_pid s p" and "card (msg_used s p) < 160"
  shows "msg_used s p \<noteq> {..<1024}" "message_mapped s p (LEAST i. i \<notin> msg_used s p)"
    "unat (pr_msg_count (process_at s p)) \<le> 1024"
proof -
  have f: "finite (msg_used s p)" using msg_used_bound [OF ipc_invD(1) [OF assms(1)]] finite_subset by blast
  show "msg_used s p \<noteq> {..<1024}"
  proof
    assume "msg_used s p = {..<1024}"
    then have "card (msg_used s p) = 1024" by (simp only: card_lessThan)
    with assms(4) show False by (simp only:)
  qed
  show "message_mapped s p (LEAST i. i \<notin> msg_used s p)"
    using assms(2,3) least_free [OF f assms(4)] by (simp add: page0_mapped_def)
  show "unat (pr_msg_count (process_at s p)) \<le> 1024" using ipc_invD(5) [OF assms(1,3)] assms(4) by simp
qed

text \<open>
  A message put in front of an empty queue takes its link from the head of the thread.  The head is
  the end mark after a message has been taken out, but zero in a new thread: then the link dangles,
  and the queue is not terminated.
\<close>

definition dangles :: "kstate \<Rightarrow> thread_uid \<Rightarrow> nat list \<Rightarrow> bool \<Rightarrow> bool" where
  "dangles s u is head \<longleftrightarrow> head \<and> is = [] \<and> th_msg_head (thread_at s u) \<noteq> -1"

text \<open>The queues after a message \<open>b\<close> for thread \<open>u\<close> has been put into slot \<open>i\<close>.\<close>

definition queued ::
    "thread_uid \<Rightarrow> ipcport_t \<times> u32 \<times> u32 list \<times> bool \<Rightarrow> bool \<Rightarrow> (thread_uid \<Rightarrow> nat list) \<Rightarrow> nat \<Rightarrow> kstate \<Rightarrow> kstate \<Rightarrow> bool" where
  "queued u b head Q i s s' \<longleftrightarrow>
     (\<forall>v. live_uid s v \<longrightarrow> v \<noteq> u \<longrightarrow> msg_queue s' v (Q v) \<and> inbox s' v (Q v) = inbox s v (Q v)) \<and>
     (if dangles s u (Q u) head
      then th_msg_count (thread_at s' u) = 1 \<and> th_msg_head (thread_at s' u) = of_nat i \<and>
           msg_body (message_at s' (uid_pid u) i) = b \<and>
           msg_next (message_at s' (uid_pid u) i) = th_msg_head (thread_at s u)
      else let is = (if head then i # Q u else Q u @ [i]) in
           ipc_inv s' (Q(u := is)) \<and> inbox s' u is = (if head then b # inbox s u (Q u) else inbox s u (Q u) @ [b]))"

lemma message_add_queued:
  assumes I: "ipc_inv s Q" and m: "page0_mapped s" and u: "live_uid s u" and c: "card (msg_used s (uid_pid u)) < 160"
  shows "\<exists>s' i. message_add u from info head s = Some s' \<and> message_added u from info head (Q u) i s s' \<and>
    i = (LEAST i. i \<notin> msg_used s (uid_pid u)) \<and> i \<notin> msg_used s (uid_pid u) \<and> page0_mapped s' \<and>
    queued u (from, um_code info, um_args info, um_size info > 0) head Q i s s'"
proof -
  let ?b = "(from, um_code info, um_args info, um_size info > 0)"
  note D = ipc_invD [OF I]
  have lp: "live_pid s (uid_pid u)" using u by (simp add: live_uid_def)
  note R = message_room [OF I m lp c]
  obtain s' i where run: "message_add u from info head s = Some s'" "i = (LEAST i. i \<notin> msg_used s (uid_pid u))"
    "i < 1024" "i \<notin> msg_used s (uid_pid u)" "message_added u from info head (Q u) i s s'"
    using message_add_run [OF D(1) u D(2) [OF u] R(3) R(1,2), of "from" info head] by (elim exE conjE) (rule that)
  have im: "message_mapped s (uid_pid u) i" using R(2) run(2) by simp
  have p0: "page0_mapped s'" using m run(5) by (simp add: page0_mapped_def message_added_def)
  note O = message_added_others [OF I u run(5,4)]
  consider (dangling) "dangles s u (Q u) head" | (front) "head" "\<not> dangles s u (Q u) head" | (tail) "\<not> head" by blast
  then have "queued u ?b head Q i s s'"
  proof cases
    case dangling
    then have d: "head" "Q u = []" by (simp_all add: dangles_def)
    then have "th_msg_count (thread_at s u) = 0" using D(2) [OF u] by (simp add: msg_queue_def unat_eq_zero)
    then show ?thesis
      using run(5) d dangling O by (simp add: queued_def message_added_def msg_body_def new_message_def)
  next
    case front
    have "msg_queue s' u (i # Q u) \<and> inbox s' u (i # Q u) = ?b # inbox s u (Q u)"
      by (rule message_added_head [OF _ D(1) D(2) [OF u] run(3,4) im]) (use run(5) front in \<open>simp_all add: dangles_def\<close>)
    with message_added_ipc_inv [OF I u run(5,4,3), of "i # Q u"] show ?thesis
      using front O by (simp add: queued_def del: fun_upd_apply)
  next
    case tail
    have "msg_queue s' u (Q u @ [i]) \<and> inbox s' u (Q u @ [i]) = inbox s u (Q u) @ [?b]"
      by (rule message_added_tail [OF _ D(1) D(2) [OF u] run(3,4) im]) (use run(5) tail in simp)
    with message_added_ipc_inv [OF I u run(5,4,3), of "Q u @ [i]"] show ?thesis
      using tail O by (simp add: queued_def dangles_def del: fun_upd_apply)
  qed
  then show ?thesis using run p0 by blast
qed

lemma message_remove_ipc:
  assumes I: "ipc_inv s Q" and u: "live_uid s u" and q: "Q u = i # is"
  shows "\<exists>s'. message_remove u s = Some (message_at s (uid_pid u) i, s') \<and> ipc_inv s' (Q(u := is)) \<and>
    inbox s' u is = tl (inbox s u (Q u)) \<and> message_at s' = message_at s \<and>
    msg_used s' (uid_pid u) = msg_used s (uid_pid u) - {i} \<and> live_uid s' = live_uid s \<and>
    (page0_mapped s \<longrightarrow> page0_mapped s')"
proof -
  let ?p = "uid_pid u" and ?P = "process_at s (uid_pid u)" and ?t = "thread_at s u"
  note D = ipc_invD [OF I]
  have ok: "table_ok s" by (rule D(1))
  have qu: "msg_queue s u (i # is)" using D(2) [OF u] q by simp
  then have hd: "unat (th_msg_head ?t) = i" and cnt: "unat (th_msg_count ?t) = Suc (length is)"
    and ch: "chain (msg_nexts s ?p) (msg_nexts s ?p i) is" and im: "message_mapped s ?p i"
    and tl: "unat (th_msg_tail ?t) = last (i # is)" and iu: "i \<in> msg_used s ?p" "set is \<subseteq> msg_used s ?p"
    and mm: "\<forall>j \<in> set is. message_mapped s ?p j"
    by (simp_all add: msg_queue_def)
  have dis: "i \<notin> set is" "i < 1024" using msg_queue_length [OF ok qu] by auto
  have lp: "live_pid s ?p" using u by (simp add: live_uid_def)
  have len: "length (pr_msg_bitmap ?P) = 32" "length (pr_thread_bitmap ?P) = 2" "length (pr_thread_versions ?P) = 64"
    using ok by (simp_all add: table_ok_def process_at_def)
  obtain bm where bm: "bitmap_clear (pr_msg_bitmap ?P) i = Some bm" "length bm = 32" "bitmap_bits bm = msg_used s ?p - {i}"
    using bitmap_clear_bits [of i "pr_msg_bitmap ?P"] len(1) dis(2) by (auto simp: msg_used_def)
  define m where "m = message_at s ?p i"
  define s' where "s' = upd_thread u (\<lambda>t. t\<lparr>th_msg_count := th_msg_count t - 1\<rparr>)
     (upd_process ?p (\<lambda>p. p\<lparr>pr_msg_count := pr_msg_count p - 1\<rparr>)
     (upd_thread u (\<lambda>t. t\<lparr>th_msg_head := msg_next m\<rparr>) (upd_process ?p (\<lambda>p. p\<lparr>pr_msg_bitmap := bm\<rparr>) s)))"
  have c0: "th_msg_count ?t \<noteq> 0" using cnt by auto
  have run: "message_remove u s = Some (m, s')"
    using lp u c0 hd bm(1) im
    by (simp add: message_remove_def the_process_ok [OF ok] the_thread_ok [OF ok] Let_def message_get_mapped s'_def m_def)
  have th: "thread_at s' v = (if v = u then ?t\<lparr>th_msg_head := msg_next m, th_msg_count := th_msg_count ?t - 1\<rparr> else thread_at s v)" for v
    by (simp add: s'_def)
  have pr: "process_at s' p = (if p = ?p then ?P\<lparr>pr_msg_bitmap := bm, pr_msg_count := pr_msg_count ?P - 1\<rparr> else process_at s p)" for p
    by (simp add: s'_def)
  have used: "msg_used s' p = (if p = ?p then msg_used s p - {i} else msg_used s p)" for p
    by (simp add: msg_used_def pr bm(3) [unfolded msg_used_def])
  have fr: "live_uid s' = live_uid s" "live_pid s' = live_pid s" "table_ok s'" "message_mapped s' = message_mapped s"
    "message_at s' = message_at s"
    using ok len bm(2) by (simp_all add: s'_def fun_eq_iff table_ok_upd_process)
  have nx: "msg_nexts s' = msg_nexts s" by (simp add: msg_nexts_def fun_eq_iff fr(5))
  have "unat (th_msg_count ?t - 1) = length is" using cnt c0 by (simp add: unat_sub_if')
  moreover have "is \<noteq> [] \<Longrightarrow> msg_nexts s ?p i = Some (unat (msg_next m))"
    using ch by (cases "msg_nexts s ?p i") (auto simp: msg_nexts_def m_def Let_def split: if_splits)
  ultimately have q': "msg_queue s' u is"
    using ch tl iu mm dis by (auto simp: msg_queue_def th nx used fr(4))
  have other: "msg_queue s' v (Q v)" if v: "live_uid s v" "v \<noteq> u" for v
  proof (rule msg_queue_cong [OF D(2) [OF v(1)]])
    show "set (Q v) \<subseteq> msg_used s' (uid_pid v)"
      using D(3) [OF v(1)] D(4) [OF u v(1)] v(2) q used by auto
  qed (use v fr th in simp_all)
  have disj: "set is \<inter> set (Q v) = {}" if "live_uid s v" "v \<noteq> u" "uid_pid v = ?p" for v
    using D(4) [OF u that(1)] that q by auto
  have cn: "unat (pr_msg_count (process_at s' p)) = card (msg_used s' p)" if "live_pid s p" for p
  proof (cases "p = ?p")
    case True
    have f: "finite (msg_used s p)" using msg_used_bound [OF ok] finite_subset by blast
    then have "card (msg_used s p - {i}) = card (msg_used s p) - 1" "0 < card (msg_used s p)"
      using True iu(1) by (auto simp: card_gt_0_iff)
    then show ?thesis using True D(5) [OF that] by (auto simp: used pr unat_sub_if')
  next
    case False
    then show ?thesis using D(5) [OF that] by (simp add: used pr)
  qed
  have "ipc_inv s' (Q(u := is))" by (rule ipc_inv_upd [OF I fr(1-3) q' other disj cn])
  moreover have "inbox s' u is = tl (inbox s u (Q u))" by (simp add: inbox_def fr(5) q)
  ultimately show ?thesis
    using run fr used by (auto simp: m_def page0_mapped_def)
qed

subsection \<open>Searching\<close>

text \<open>The queue with its first match moved to the front.\<close>

definition move_first :: "('a \<Rightarrow> bool) \<Rightarrow> 'a list \<Rightarrow> 'a list" where
  "move_first P xs = (case dropWhile (\<lambda>x. \<not> P x) xs of [] \<Rightarrow> xs | y # ys \<Rightarrow> y # takeWhile (\<lambda>x. \<not> P x) xs @ ys)"

definition matches :: "kstate \<Rightarrow> thread_uid \<Rightarrow> ipcport_t \<Rightarrow> nat \<Rightarrow> bool" where
  "matches s u search i = port_compare search (msg_from (message_at s (uid_pid u) i))"

definition index_opt :: "u16 \<Rightarrow> nat option" where
  "index_opt c = (if c = -1 then None else Some (unat c))"

lemma msg_nexts_opt: "msg_nexts s p i = index_opt (msg_next (message_at s p i))"
  by (simp add: msg_nexts_def index_opt_def Let_def)

lemma message_find_loop_none:
  assumes "chain (msg_nexts s (uid_pid u)) (index_opt cur) ys" and "\<forall>i \<in> set ys. message_mapped s (uid_pid u) i"
    and "\<forall>i \<in> set ys. \<not> matches s u search i"
  shows "message_find_loop u search prev cur s = Some (False, s)"
  using assms
proof (induction ys arbitrary: prev cur)
  case Nil
  then show ?case by (subst message_find_loop.simps) (simp add: index_opt_def split: if_splits)
next
  case (Cons y ys)
  then have cur: "cur \<noteq> -1" "unat cur = y" by (auto simp: index_opt_def split: if_splits)
  have "chain (msg_nexts s (uid_pid u)) (index_opt (msg_next (message_at s (uid_pid u) y))) ys"
    using Cons.prems(1) by (simp flip: msg_nexts_opt)
  then show ?case using cur Cons.IH Cons.prems(2,3)
    by (subst message_find_loop.simps) (simp add: message_get_mapped matches_def)
qed

text \<open>The state after a match at \<open>i\<close> has been moved from behind \<open>prev\<close> to the front.\<close>

definition moved :: "thread_uid \<Rightarrow> nat \<Rightarrow> nat \<Rightarrow> kstate \<Rightarrow> kstate" where
  "moved u prev i s = (let p = uid_pid u; t = thread_at s u in
     upd_thread u (\<lambda>t. t\<lparr>th_msg_head := of_nat i\<rparr>) (upd_message p i (\<lambda>m. m\<lparr>msg_next := th_msg_head t\<rparr>)
       (let s1 = upd_message p prev (\<lambda>m. m\<lparr>msg_next := msg_next (message_at s p i)\<rparr>) s in
        if unat (th_msg_tail t) = i then upd_thread u (\<lambda>t. t\<lparr>th_msg_tail := of_nat prev\<rparr>) s1 else s1)))"

lemma message_find_loop_hit:
  assumes "chain (msg_nexts s (uid_pid u)) (index_opt cur) (as @ i # bs)"
    and "\<forall>j \<in> set (as @ i # bs). message_mapped s (uid_pid u) j"
    and "\<forall>j \<in> set as. \<not> matches s u search j" and "matches s u search i"
    and "the_thread s u = Some (thread_at s u)" and "prev = -1 \<or> message_mapped s (uid_pid u) (unat prev)"
  shows "message_find_loop u search prev cur s =
    (if as = [] \<and> prev = -1 then Some (True, s)
     else Some (True, moved u (if as = [] then unat prev else last as) i s))"
  using assms
proof (induction as arbitrary: prev cur)
  case Nil
  then have cur: "cur \<noteq> -1" "unat cur = i" "cur = of_nat i" by (auto simp: index_opt_def split: if_splits)
  have tl: "th_msg_tail (thread_at s u) = cur \<longleftrightarrow> unat (th_msg_tail (thread_at s u)) = i"
    using cur(2) by (auto simp: word_unat_eq_iff)
  show ?case
    using Nil cur tl
    by (subst message_find_loop.simps)
       (auto simp: message_get_mapped matches_def message_set_mapped moved_def Let_def)
next
  case (Cons a as)
  then have cur: "cur \<noteq> -1" "unat cur = a" by (auto simp: index_opt_def split: if_splits)
  have "chain (msg_nexts s (uid_pid u)) (index_opt (msg_next (message_at s (uid_pid u) a))) (as @ i # bs)"
    using Cons.prems(1) by (simp flip: msg_nexts_opt)
  from Cons.IH [OF this _ _ Cons.prems(4,5), of cur] Cons.prems(2,3) cur show ?case
    by (subst message_find_loop.simps) (simp add: message_get_mapped matches_def)
qed

lemma moved_facts:
  assumes "prev < 1024" "i < 1024" "prev \<noteq> i"
  shows "message_at (moved u prev i s) q j =
     (if q = uid_pid u \<and> j = i then (message_at s q i)\<lparr>msg_next := th_msg_head (thread_at s u)\<rparr>
      else if q = uid_pid u \<and> j = prev then (message_at s q j)\<lparr>msg_next := msg_next (message_at s q i)\<rparr>
      else message_at s q j)"
    and "thread_at (moved u prev i s) v = (if v = u then (thread_at s u)\<lparr>th_msg_head := of_nat i,
        th_msg_tail := (if unat (th_msg_tail (thread_at s u)) = i then of_nat prev else th_msg_tail (thread_at s u))\<rparr> else thread_at s v)"
    and "process_at (moved u prev i s) = process_at s" "live_uid (moved u prev i s) = live_uid s"
    and "live_pid (moved u prev i s) = live_pid s" "table_ok (moved u prev i s) = table_ok s"
    and "message_mapped (moved u prev i s) = message_mapped s" "msg_used (moved u prev i s) = msg_used s"
    and "km (moved u prev i s) = km s" "active_thread (moved u prev i s) = active_thread s"
    and "locked (moved u prev i s) = locked s" "curr_frame (moved u prev i s) = curr_frame s"
  using assms by (auto simp: moved_def Let_def fun_eq_iff msg_used_def)

lemma moved_queue:
  assumes ok: "table_ok s" and q: "msg_queue s u (as @ i # bs)" and ne: "as \<noteq> []"
  shows "msg_queue (moved u (last as) i s) u (i # as @ bs)"
proof -
  let ?p = "uid_pid u" and ?t = "thread_at s u" and ?s = "moved u (last as) i s"
  have b: "set (as @ i # bs) \<subseteq> {..<1024}" "distinct (as @ i # bs)" using msg_queue_length [OF ok q] by blast+
  then have l: "last as < 1024" "i < 1024" "last as \<noteq> i" "last as \<notin> set bs" "i \<notin> set bs" "i \<notin> set as"
    using last_in_set [OF ne] by auto
  note F = moved_facts [OF l(1-3), of u s]
  have c: "chain (msg_nexts s ?p) (Some (unat (th_msg_head ?t))) (as @ i # bs)"
    and tl: "unat (th_msg_tail ?t) = last (as @ i # bs)" using q by (simp_all add: msg_queue_def)
  then have h: "unat (th_msg_head ?t) \<in> set as" using ne by (cases as) auto
  then have "unat (th_msg_head ?t) < 1024" using b(1) by auto
  then have hn: "th_msg_head ?t \<noteq> -1" by auto
  have sg: "chain_seg (msg_nexts s ?p) (Some (unat (th_msg_head ?t))) as (Some i)" "chain (msg_nexts s ?p) (msg_nexts s ?p i) bs"
    using c by (auto simp: chain_append)
  have nx: "msg_nexts ?s ?p i = Some (unat (th_msg_head ?t))" "msg_nexts ?s ?p (last as) = msg_nexts s ?p i"
    "\<And>j. j \<noteq> i \<Longrightarrow> j \<noteq> last as \<Longrightarrow> msg_nexts ?s ?p j = msg_nexts s ?p j"
    using hn l(3) by (simp_all add: msg_nexts_def F(1))
  have "chain_seg (msg_nexts ?s ?p) (Some (unat (th_msg_head ?t))) as (msg_nexts s ?p i)"
  proof (rule chain_seg_relink [where nx' = "msg_nexts ?s ?p", OF sg(1) ne nx(2)])
    fix x assume "x \<in> set (butlast as)"
    then have "x \<noteq> i" "x \<noteq> last as" using l(6) b(2) by (auto dest: in_set_butlastD distinct_butlast_last)
    then show "msg_nexts ?s ?p x = msg_nexts s ?p x" by (rule nx(3))
  qed
  moreover have "chain (msg_nexts ?s ?p) (msg_nexts s ?p i) bs"
    using sg(2) chain_cong [of bs "msg_nexts ?s ?p" "msg_nexts s ?p"] nx(3) l(4,5) by metis
  ultimately have ch: "chain (msg_nexts ?s ?p) (Some i) (i # as @ bs)" by (auto simp: nx(1) chain_append)
  have "unat (of_nat i :: u16) = i" "unat (of_nat (last as) :: u16) = last as" using l(1,2) by (simp_all add: unat_of_nat16)
  then have "unat (th_msg_tail (thread_at ?s u)) = last (i # as @ bs)" "unat (th_msg_head (thread_at ?s u)) = i"
    using tl l ne last_in_set [of bs] by (auto simp: F(2))
  then show ?thesis
    using q ch by (auto simp: msg_queue_def F)
qed

text \<open>
  C10. message_find returns in every state that satisfies the queue invariant: the result says
  whether a message from the port is queued, the first such message is moved to the head with the
  order of the others kept, and the queue invariant and the contents of the messages are preserved.
\<close>

lemma message_find_ipc:
  assumes I: "ipc_inv s Q" and u: "live_uid s u"
  shows "\<exists>s'. message_find u search s = Some (\<exists>i \<in> set (Q u). matches s u search i, s') \<and>
    ipc_inv s' (Q(u := move_first (matches s u search) (Q u))) \<and>
    inbox s' u (move_first (matches s u search) (Q u)) = inbox s u (move_first (matches s u search) (Q u)) \<and>
    (page0_mapped s \<longrightarrow> page0_mapped s')"
proof -
  let ?M = "matches s u search" and ?p = "uid_pid u"
  note D = ipc_invD [OF I]
  have lp: "live_pid s ?p" using u by (simp add: live_uid_def)
  note T = the_thread_ok [OF D(1)] the_process_ok [OF D(1)]
  have qu: "msg_queue s u (Q u)" by (rule D(2) [OF u])
  show ?thesis
  proof (cases "\<exists>i \<in> set (Q u). ?M i")
    case False
    then have d: "dropWhile (\<lambda>x. \<not> ?M x) (Q u) = []" by auto
    have "move_first ?M (Q u) = Q u" by (simp only: move_first_def d list.case)
    moreover have "message_find u search s = Some (False, s)"
    proof (cases "Q u = []")
      case True
      then have "th_msg_count (thread_at s u) = 0" using qu by (simp add: msg_queue_def unat_eq_0)
      then show ?thesis using u lp by (simp add: message_find_def T)
    next
      case ne: False
      have "chain (msg_nexts s ?p) (Some (unat (th_msg_head (thread_at s u)))) (Q u)" using qu ne by (simp add: msg_queue_def)
      moreover from this have "unat (th_msg_head (thread_at s u)) \<in> set (Q u)" using ne by (cases "Q u") auto
      then have "th_msg_head (thread_at s u) \<noteq> -1" using msg_queue_length [OF D(1) qu] by auto
      ultimately have "message_find_loop u search (-1) (th_msg_head (thread_at s u)) s = Some (False, s)"
        using message_find_loop_none [of s u "th_msg_head (thread_at s u)" "Q u" search "-1"] qu False
        by (simp add: index_opt_def msg_queue_def)
      moreover have "th_msg_count (thread_at s u) \<noteq> 0" using qu ne by (auto simp: msg_queue_def)
      ultimately show ?thesis using u lp by (simp add: message_find_def T)
    qed
    ultimately show ?thesis using False I by (intro exI [of _ s]) (auto simp: fun_upd_idem)
  next
    case True
    then obtain as i bs where sp: "Q u = as @ i # bs" "?M i" "\<forall>j \<in> set as. \<not> ?M j"
      by (metis split_list_first_prop)
    have mf: "move_first ?M (Q u) = i # as @ bs"
      using sp by (simp add: move_first_def dropWhile_append takeWhile_append)
    have m: "\<forall>j \<in> set (as @ i # bs). message_mapped s ?p j" "unat (th_msg_count (thread_at s u)) \<noteq> 0"
      using qu sp(1) by (auto simp: msg_queue_def)
    have "chain (msg_nexts s ?p) (Some (unat (th_msg_head (thread_at s u)))) (as @ i # bs)" using qu sp(1) by (simp add: msg_queue_def)
    moreover from this have "unat (th_msg_head (thread_at s u)) \<in> set (Q u)" using sp(1) by (cases as) auto
    then have "th_msg_head (thread_at s u) \<noteq> -1" using msg_queue_length [OF D(1) qu] by auto
    ultimately have "message_find_loop u search (-1) (th_msg_head (thread_at s u)) s =
        (if as = [] then Some (True, s) else Some (True, moved u (last as) i s))"
      using message_find_loop_hit [of s u "th_msg_head (thread_at s u)" as i bs search "-1"] m(1) sp(2,3) u
      by (simp add: index_opt_def T)
    then have run: "message_find u search s = Some (True, if as = [] then s else moved u (last as) i s)"
      using u lp m(2) by (auto simp: message_find_def T)
    show ?thesis
    proof (cases "as = []")
      case as: True
      then have "move_first ?M (Q u) = Q u" using mf sp(1) by simp
      then show ?thesis using True run as I by (intro exI [of _ s]) (simp add: fun_upd_idem)
    next
      case ne: False
      let ?s = "moved u (last as) i s"
      have b: "set (as @ i # bs) \<subseteq> {..<1024}" "distinct (as @ i # bs)" using msg_queue_length [OF D(1) qu] sp(1) by simp_all
      then have l: "last as < 1024" "i < 1024" "last as \<noteq> i" "last as \<in> set (Q u)" "i \<in> set (Q u)"
        using last_in_set [OF ne] sp(1) by auto
      note F = moved_facts [OF l(1-3), of u s]
      have other: "msg_queue ?s v (Q v)" if v: "live_uid s v" "v \<noteq> u" for v
      proof (rule msg_queue_cong [OF D(2) [OF v(1)]])
        fix j assume j: "j \<in> set (Q v)"
        then have "uid_pid v = ?p \<longrightarrow> j \<notin> set (Q u)" using D(4) [OF u v(1)] v(2) by auto
        then have "uid_pid v = ?p \<longrightarrow> j \<noteq> i \<and> j \<noteq> last as" using l(4,5) by metis
        then show "msg_next (message_at ?s (uid_pid v) j) = msg_next (message_at s (uid_pid v) j)" by (auto simp: F(1))
      qed (use v F D(3) [OF v(1)] in simp_all)
      have disj: "set (i # as @ bs) \<inter> set (Q v) = {}" if "live_uid s v" "v \<noteq> u" "uid_pid v = ?p" for v
        using D(4) [OF u that(1)] that sp(1) by auto
      have "ipc_inv ?s (Q(u := i # as @ bs))"
      proof (rule ipc_inv_upd [OF I F(4,5) _ moved_queue [OF D(1) _ ne] other disj])
        show "table_ok ?s" using D(1) F(6) by simp
        show "msg_queue s u (as @ i # bs)" using qu sp(1) by simp
        show "\<And>p. live_pid s p \<Longrightarrow> unat (pr_msg_count (process_at ?s p)) = card (msg_used ?s p)" using D(5) by (simp add: F)
      qed
      moreover have "inbox ?s u (i # as @ bs) = inbox s u (i # as @ bs)"
        by (simp add: inbox_def F(1) msg_body_def)
      ultimately show ?thesis using True run ne mf F by (intro exI [of _ ?s]) (simp add: page0_mapped_def)
    qed
  qed
qed

subsection \<open>Mailboxes\<close>

text \<open>
  What a client of the message queues relies on: while there is room a message can be put, and
  messages come out in the order they were put.
\<close>

primrec get_many :: "('s \<Rightarrow> ('m \<times> 's) option) \<Rightarrow> nat \<Rightarrow> 's \<Rightarrow> ('m list \<times> 's) option" where
  "get_many g 0 s = Some ([], s)"
| "get_many g (Suc n) s = do { (m, s) \<leftarrow> g s; (ms, s) \<leftarrow> get_many g n s; Some (m # ms, s) }"

locale mailbox =
  fixes holds :: "'s \<Rightarrow> 'm list \<Rightarrow> bool"
    and room :: "'s \<Rightarrow> nat"
    and put :: "'m \<Rightarrow> 's \<Rightarrow> 's option"
    and get :: "'s \<Rightarrow> ('m \<times> 's) option"
  assumes put_holds: "holds s ms \<Longrightarrow> 0 < room s \<Longrightarrow>
      \<exists>s'. put m s = Some s' \<and> holds s' (ms @ [m]) \<and> Suc (room s') = room s"
    and get_holds: "holds s (m # ms) \<Longrightarrow> \<exists>s'. get s = Some (m, s') \<and> holds s' ms \<and> room s \<le> room s'"
begin

lemma put_many:
  assumes "holds s ks" and "length ms \<le> room s"
  shows "\<exists>s'. for_each ms put s = Some s' \<and> holds s' (ks @ ms)"
  using assms
proof (induction ms arbitrary: s ks)
  case (Cons m ms)
  then obtain s1 where s1: "put m s = Some s1" "holds s1 (ks @ [m])" "Suc (room s1) = room s"
    using put_holds [of s ks m] by auto
  then have "length ms \<le> room s1" using Cons.prems(2) by simp
  from Cons.IH [OF s1(2) this] s1(1) show ?case by auto
qed auto

lemma get_many_holds:
  assumes "holds s (ms @ ks)"
  shows "\<exists>s'. get_many get (length ms) s = Some (ms, s') \<and> holds s' ks"
  using assms
proof (induction ms arbitrary: s)
  case (Cons m ms)
  then obtain s1 where s1: "get s = Some (m, s1)" "holds s1 (ms @ ks)" using get_holds [of s m "ms @ ks"] by auto
  from Cons.IH [OF s1(2)] s1(1) show ?case by auto
qed auto

lemma fifo:
  assumes "holds s []" and "length ms \<le> room s"
  shows "\<exists>s' s''. for_each ms put s = Some s' \<and> get_many get (length ms) s' = Some (ms, s'') \<and> holds s'' []"
  using put_many [OF assms] get_many_holds [of _ ms "[]"] by fastforce

end

type_synonym body = "ipcport_t \<times> u32 \<times> u32 list \<times> bool"

definition box_holds :: "thread_uid \<Rightarrow> kstate \<Rightarrow> body list \<Rightarrow> bool" where
  "box_holds u s ms \<longleftrightarrow> live_uid s u \<and> page0_mapped s \<and> (\<exists>Q. ipc_inv s Q \<and> inbox s u (Q u) = ms)"

definition box_room :: "thread_uid \<Rightarrow> kstate \<Rightarrow> nat" where
  "box_room u s = 160 - card (msg_used s (uid_pid u))"

definition box_put :: "thread_uid \<Rightarrow> body \<Rightarrow> kstate \<Rightarrow> kstate option" where
  "box_put u = (\<lambda>(from, code, args, payload). message_add u from
     \<lparr>um_port = 0, um_code = code, um_args = args, um_buf = 0, um_size = of_bool payload\<rparr> False)"

definition box_get :: "thread_uid \<Rightarrow> kstate \<Rightarrow> (body \<times> kstate) option" where
  "box_get u s = do { (m, s) \<leftarrow> message_remove u s; Some (msg_body m, s) }"

lemma card_msg_used_insert:
  "table_ok s \<Longrightarrow> i \<notin> msg_used s p \<Longrightarrow> card (insert i (msg_used s p)) = Suc (card (msg_used s p))"
  using msg_used_bound [of s p] finite_subset by (metis card_insert_disjoint finite_lessThan)

interpretation queue_box: mailbox "box_holds u" "box_room u" "box_put u" "box_get u" for u
proof
  fix s ms and m :: body
  assume h: "box_holds u s ms" and r: "0 < box_room u s"
  obtain f c a p where m: "m = (f, c, a, p)" by (cases m)
  let ?i = "\<lparr>um_port = 0, um_code = c, um_args = a, um_buf = 0, um_size = of_bool p\<rparr>"
  from h obtain Q where I: "ipc_inv s Q" and q: "inbox s u (Q u) = ms" and l: "live_uid s u" "page0_mapped s"
    by (auto simp: box_holds_def)
  have "card (msg_used s (uid_pid u)) < 160" using r by (simp add: box_room_def)
  from message_add_queued [OF I l(2,1) this, of f ?i False] obtain s' i
    where s': "message_add u f ?i False s = Some s'" "message_added u f ?i False (Q u) i s s'"
      "i \<notin> msg_used s (uid_pid u)" "page0_mapped s'" "ipc_inv s' (Q(u := Q u @ [i]))"
      "inbox s' u (Q u @ [i]) = inbox s u (Q u) @ [(f, c, a, (of_bool p :: u32) > 0)]"
    by (auto simp: queued_def dangles_def Let_def)
  have lu: "live_uid s' u" "msg_used s' (uid_pid u) = insert i (msg_used s (uid_pid u))"
    using s'(2) l by (auto simp: message_added_def)
  have "Suc (box_room u s') = box_room u s"
    using r lu(2) card_msg_used_insert [OF ipc_invD(1) [OF I] s'(3)] by (simp add: box_room_def)
  moreover have "inbox s' u ((Q(u := Q u @ [i])) u) = ms @ [m]" using s'(6) m q by simp
  then have "box_holds u s' (ms @ [m])" using lu(1) s'(4,5) unfolding box_holds_def by blast
  moreover have "box_put u m s = Some s'" using s'(1) by (simp add: box_put_def m)
  ultimately show "\<exists>s'. box_put u m s = Some s' \<and> box_holds u s' (ms @ [m]) \<and> Suc (box_room u s') = box_room u s" by blast
next
  fix s ms and m :: body
  assume h: "box_holds u s (m # ms)"
  from h obtain Q where I: "ipc_inv s Q" and q: "inbox s u (Q u) = m # ms" and l: "live_uid s u" "page0_mapped s"
    by (auto simp: box_holds_def)
  from q obtain i "is" where qu: "Q u = i # is" "msg_body (message_at s (uid_pid u) i) = m" "inbox s u is = ms"
    by (auto simp: inbox_def)
  from message_remove_ipc [OF I l(1) qu(1)] obtain s' where s': "message_remove u s = Some (message_at s (uid_pid u) i, s')"
    "ipc_inv s' (Q(u := is))" "inbox s' u is = tl (inbox s u (Q u))" "msg_used s' (uid_pid u) = msg_used s (uid_pid u) - {i}"
    "page0_mapped s'" "live_uid s' u" using l by auto
  have "inbox s' u ((Q(u := is)) u) = ms" using s'(3) q by simp
  then have "box_holds u s' ms" using s'(2,5,6) unfolding box_holds_def by blast
  moreover have "box_room u s \<le> box_room u s'"
    using s'(4) card_Diff1_le [of "msg_used s (uid_pid u)" i] by (simp add: box_room_def)
  ultimately show "\<exists>s'. box_get u s = Some (m, s') \<and> box_holds u s' ms \<and> box_room u s \<le> box_room u s'"
    using s'(1) qu(2) by (auto simp: box_get_def)
qed

text \<open>
  C9. The message queue of a thread behaves as a first-in first-out mailbox: any sequence of
  messages added to an empty queue for which there is room is taken out again by message_remove in
  the same order and with the same contents.
\<close>

theorem message_fifo:
  assumes "box_holds u s []" and "length ms \<le> box_room u s"
  shows "\<exists>s' s''. for_each ms (box_put u) s = Some s' \<and> get_many (box_get u) (length ms) s' = Some (ms, s'') \<and> box_holds u s'' []"
  by (rule queue_box.fifo [OF assms])

subsection \<open>A message in front of an empty queue\<close>

text \<open>A search that meets a message linked to itself never returns.\<close>

lemma message_find_loop_self:
  assumes "message_mapped s (uid_pid u) (unat c)" and "msg_next (message_at s (uid_pid u) (unat c)) = c" and "c \<noteq> -1"
    and "\<not> port_compare search (msg_from (message_at s (uid_pid u) (unat c)))"
  shows "message_find_loop u search prev c s = None"
proof -
  have "message_find_loop u' search' prev c' s' = Some r \<Longrightarrow> \<not> (u' = u \<and> search' = search \<and> c' = c \<and> s' = s)" for u' search' prev c' s' r
  proof (erule message_find_loop.raw_induct [rotated])
    fix w u' search' prev c' s' r
    assume IH: "\<And>u' search' prev c' s' r. w u' search' prev c' s' = Some r \<Longrightarrow> \<not> (u' = u \<and> search' = search \<and> c' = c \<and> s' = s)"
      and run: "(if c' = -1 then Some (False, s')
      else do {
        msg \<leftarrow> message_get s' (uid_pid u') c';
        if port_compare search' (msg_from msg) then
          if prev = -1 then Some (True, s')
          else do {
            t \<leftarrow> the_thread s' u';
            s \<leftarrow> message_set (uid_pid u') prev (\<lambda>m. m\<lparr>msg_next := msg_next msg\<rparr>) s';
            let s = (if th_msg_tail t = c' then upd_thread u' (\<lambda>t. t\<lparr>th_msg_tail := prev\<rparr>) s else s);
            s \<leftarrow> message_set (uid_pid u') c' (\<lambda>m. m\<lparr>msg_next := th_msg_head t\<rparr>) s;
            Some (True, upd_thread u' (\<lambda>t. t\<lparr>th_msg_head := c'\<rparr>) s)
          }
        else w u' search' c' (msg_next msg) s'
      }) = Some r"
    show "\<not> (u' = u \<and> search' = search \<and> c' = c \<and> s' = s)"
    proof
      assume "u' = u \<and> search' = search \<and> c' = c \<and> s' = s"
      then have "w u search c c s = Some r" using run assms by (simp add: message_get_def)
      then show False using IH by blast
    qed
  qed
  then show ?thesis by (cases "message_find_loop u search prev c s") blast+
qed

text \<open>
  C40. A message added at the head for a thread that never had one links to slot 0, whatever slot it
  got. If slot 0 was free, it is the message itself, and message_find for a port it does not come
  from never returns.
\<close>

theorem message_find_diverges:
  assumes I: "ipc_inv s Q" and m: "page0_mapped s" and u: "live_uid s u" and c: "card (msg_used s (uid_pid u)) < 160"
    and fresh: "Q u = []" "th_msg_head (thread_at s u) = 0" and no: "\<not> port_compare search from"
  shows "\<exists>s' i. message_add u from info True s = Some s' \<and> i = (LEAST i. i \<notin> msg_used s (uid_pid u)) \<and>
    th_msg_count (thread_at s' u) = 1 \<and> th_msg_head (thread_at s' u) = of_nat i \<and>
    msg_next (message_at s' (uid_pid u) i) = 0 \<and>
    (0 \<notin> msg_used s (uid_pid u) \<longrightarrow> i = 0 \<and> message_find u search s' = None)"
proof -
  have lp: "live_pid s (uid_pid u)" using u by (simp add: live_uid_def)
  obtain s' i where s': "message_add u from info True s = Some s'" "message_added u from info True (Q u) i s s'"
      "i = (LEAST i. i \<notin> msg_used s (uid_pid u))"
      "queued u (from, um_code info, um_args info, um_size info > 0) True Q i s s'"
    using message_add_queued [OF I m u c, of "from" info True] by blast
  have d: "dangles s u (Q u) True" using fresh by (simp add: dangles_def)
  have f: "th_msg_count (thread_at s' u) = 1" "th_msg_head (thread_at s' u) = of_nat i" "msg_next (message_at s' (uid_pid u) i) = 0"
      "msg_from (message_at s' (uid_pid u) i) = from"
    using s'(4) d fresh by (simp_all add: queued_def msg_body_def)
  have t: "table_ok s'" "live_uid s' u" "live_pid s' (uid_pid u)" "message_mapped s' = message_mapped s"
    using s'(2) u lp by (simp_all add: message_added_def)
  have "i = 0 \<and> message_find u search s' = None" if "0 \<notin> msg_used s (uid_pid u)"
  proof -
    have i0: "i = 0" unfolding s'(3) using that by simp
    have "message_mapped s (uid_pid u) 0" using m lp by (simp add: page0_mapped_def)
    then have "message_find_loop u search (-1) 0 s' = None"
      by (intro message_find_loop_self) (use f t no i0 in simp_all)
    then show ?thesis using f t i0 by (simp add: message_find_def the_process_ok the_thread_ok)
  qed
  with s'(1,3) f show ?thesis by blast
qed

end
