(* ===== verification/User_Memory.thy ===== *)
theory User_Memory
  imports Ipc_Message
begin

text \<open>
  Memory of the running process, as the kernel reads and writes it through the pointers the
  system calls pass: addresses are translated by the page directory in \<open>cr3\<close>, and an access to
  a page that is not present is a fault in the kernel.  The kernel's own records are not part of
  this byte memory.
\<close>

definition vtrans :: "kmem \<Rightarrow> u32 \<Rightarrow> u32 option" where
  "vtrans k va = (case walk (mem k) (page_align (cr3 k)) va of
     None \<Rightarrow> None | Some e \<Rightarrow> Some (ENTRY_ADDR (ent_frame e) + (va AND 0xFFF)))"

definition vld8 :: "kmem \<Rightarrow> u32 \<Rightarrow> u8 option" where
  "vld8 k va = do { p \<leftarrow> vtrans k va; Some (mem k p) }"

definition vst8 :: "u32 \<Rightarrow> u8 \<Rightarrow> kmem \<Rightarrow> kmem option" where
  "vst8 va v k = do { p \<leftarrow> vtrans k va; Some (k\<lparr>mem := (mem k)(p := v)\<rparr>) }"

definition vld32 :: "kmem \<Rightarrow> u32 \<Rightarrow> u32 option" where
  "vld32 k va = do {
     a \<leftarrow> vld8 k va;
     b \<leftarrow> vld8 k (va + 1);
     c \<leftarrow> vld8 k (va + 2);
     d \<leftarrow> vld8 k (va + 3);
     Some (ucast a OR push_bit 8 (ucast b) OR push_bit 16 (ucast c) OR push_bit 24 (ucast d))
   }"

definition vst32 :: "u32 \<Rightarrow> u32 \<Rightarrow> kmem \<Rightarrow> kmem option" where
  "vst32 va w k = do {
     k \<leftarrow> vst8 va (ucast w) k;
     k \<leftarrow> vst8 (va + 1) (ucast (drop_bit 8 w)) k;
     k \<leftarrow> vst8 (va + 2) (ucast (drop_bit 16 w)) k;
     vst8 (va + 3) (ucast (drop_bit 24 w)) k
   }"

text \<open>\<open>struct msg\<close>: 28 bytes; \<open>struct shm\<close>: 16 bytes.\<close>

abbreviation (input) MSG_SIZE :: u32 where "MSG_SIZE \<equiv> 28"
abbreviation (input) SHM_SIZE :: u32 where "SHM_SIZE \<equiv> 16"

definition msg_load :: "kmem \<Rightarrow> u32 \<Rightarrow> umsg option" where
  "msg_load k va = do {
     port \<leftarrow> vld32 k va;
     code \<leftarrow> vld32 k (va + 4);
     a0 \<leftarrow> vld32 k (va + 8);
     a1 \<leftarrow> vld32 k (va + 12);
     a2 \<leftarrow> vld32 k (va + 16);
     buf \<leftarrow> vld32 k (va + 20);
     sz \<leftarrow> vld32 k (va + 24);
     Some \<lparr>um_port = port, um_code = code, um_args = [a0, a1, a2], um_buf = buf, um_size = sz\<rparr>
   }"

text \<open>The part of \<open>message_remove\<close> that fills the destination.\<close>

definition msg_store :: "u32 \<Rightarrow> message \<Rightarrow> kmem \<Rightarrow> kmem option" where
  "msg_store va m k = do {
     k \<leftarrow> vst32 va (msg_from m) k;
     k \<leftarrow> vst32 (va + 4) (msg_code m) k;
     for_each [0..<MSG_ARGC] (\<lambda>i k. do { a \<leftarrow> arr_get (msg_args m) i; vst32 (va + 8 + 4 * of_nat i) a k }) k
   }"

definition shm_load :: "kmem \<Rightarrow> u32 \<Rightarrow> shm option" where
  "shm_load k va = do {
     to \<leftarrow> vld32 k va;
     addr \<leftarrow> vld32 k (va + 4);
     sz \<leftarrow> vld32 k (va + 8);
     prot \<leftarrow> vld8 k (va + 12);
     Some \<lparr>shm_to = to, shm_addr = addr, shm_size = sz, shm_prot = prot\<rparr>
   }"

text \<open>
  The copy of a message payload from the sender's pages (through the temporary mapping) to the
  receiver's buffer.
\<close>

definition copy_to_user :: "u32 \<Rightarrow> u32 \<Rightarrow> nat \<Rightarrow> kmem \<Rightarrow> kmem option" where
  "copy_to_user dst src n k = for_each [0..<n] (\<lambda>i k. do {
     p \<leftarrow> temp_phys k (src + of_nat i);
     vst8 (dst + of_nat i) (mem k p) k
   }) k"

partial_function (option) payload_copy :: "u32 \<Rightarrow> u32 \<Rightarrow> u32 \<Rightarrow> u32 \<Rightarrow> kmem \<Rightarrow> kmem option" where
  "payload_copy dir addr_from addr_to e k =
     (if addr_to < e then do {
        aligned \<leftarrow> addr_align addr_from ARCH_PGSIZE;
        (phys, k) \<leftarrow> paging_mapping_get k dir aligned;
        let diff = addr_from - aligned;
        (va, k) \<leftarrow> paging_map_temp k phys;
        let to_copy = min_size (ARCH_PGSIZE - diff) (e - addr_to);
        k \<leftarrow> copy_to_user addr_to (va + diff) (unat to_copy) k;
        payload_copy dir (addr_from + to_copy) (addr_to + to_copy) e k
      }
      else Some k)"

end
