(* ===== verification/Ipc_Service.thy ===== *)
theory Ipc_Service
  imports User_Memory
begin

text \<open>
  \<open>kernel/core/ipc/service.c\<close>: the table of threads that serve the interrupts and the system
  services, and \<open>internal_ksend\<close> of \<open>kernel/core/system/message/internal_kmsg.c\<close>, the message
  the kernel sends to them.
\<close>

abbreviation (input) SVC_IMAX :: nat where "SVC_IMAX \<equiv> 16"
abbreviation (input) SVC_PROCMGR :: nat where "SVC_PROCMGR \<equiv> 17"
abbreviation (input) SVCMAX :: nat where "SVCMAX \<equiv> 20"

definition service_get :: "nat \<Rightarrow> kstate \<Rightarrow> (ipcport_t \<times> kstate) option" where
  "service_get svc s = do {
     dassert (svc < SVCMAX);
     let port = service_ids s svc;
     uid \<leftarrow> port_to_uid s port 0;
     if uid \<noteq> 0 then Some (port, s)
     else if svc < SVC_IMAX then do {
       s \<leftarrow> with_io (pic_irq_disable (of_nat svc)) s;
       isr \<leftarrow> irq_to_isr (of_nat svc) s;
       Some (0, int_callback_set isr False None s)
     }
     else Some (0, s)
   }"

definition service_register :: "nat \<Rightarrow> thread_uid \<Rightarrow> kstate \<Rightarrow> kstate option" where
  "service_register svc uid s = do {
     dassert (svc < SVCMAX);
     (port, s) \<leftarrow> service_get svc s;
     dassert (port = 0);
     t \<leftarrow> the_thread s uid;
     port \<leftarrow> port_from_uid s uid;
     let s = s\<lparr>service_ids := (service_ids s)(svc := port)\<rparr>;
     if svc < SVC_IMAX then do {
       isr \<leftarrow> irq_to_isr (of_nat svc) s;
       let s = int_callback_set isr False (Some irq_callback_h) s;
       with_io (pic_irq_enable (of_nat svc)) s
     }
     else Some s
   }"

definition internal_ksend :: "ipcport_t \<Rightarrow> u32 \<Rightarrow> u32 list \<Rightarrow> kstate \<Rightarrow> kstate option" where
  "internal_ksend port code args s = do {
     uid \<leftarrow> port_to_uid s port 0;
     dassert (uid \<noteq> 0);
     p \<leftarrow> the_process s (uid_pid uid);
     dassert (unat (pr_msg_count p) < PROCESS_MESSAGE_MAX);
     target \<leftarrow> the_thread s uid;
     let woken = (th_state target = THREAD_STATE_WAITING \<and> port_compare (wait_for target) IPORT_KERNEL);
     let info = \<lparr>um_port = port, um_code = code, um_args = args, um_buf = 0, um_size = 0\<rparr>;
     s \<leftarrow> message_add uid IPORT_KERNEL info woken s;
     if woken then scheduler_add uid s else Some s
   }"

text \<open>\<open>irq\<close> is signed and becomes the \<open>size_t\<close> argument of \<open>service_get\<close>.\<close>

definition irq_callback :: "u8 \<Rightarrow> kstate \<Rightarrow> kstate option" where
  "irq_callback irq s = do {
     dassert (sint irq \<ge> 0);
     (port, s) \<leftarrow> service_get (unat irq) s;
     if port = 0 then Some s
     else internal_ksend port (ucast irq) [0, 0, 0] s
   }"


subsection \<open>Delivery and the run queue\<close>

text \<open>The fields of a thread that belong to its message queue, and those of the scheduler.\<close>

definition th_queue :: "thread \<Rightarrow> u32 \<times> u16 \<times> u16" where
  "th_queue t = (th_msg_count t, th_msg_head t, th_msg_tail t)"

definition th_sched :: "thread \<Rightarrow> thread_state \<times> thread_uid \<times> thread_uid \<times> pid_t" where
  "th_sched t = (th_state t, sched_next t, sched_prev t, th_owner t)"

lemma th_queue_upd:
  "(\<And>t. th_queue (g t) = th_queue t) \<Longrightarrow> th_queue (thread_at (upd_thread a g s) v) = th_queue (thread_at s v)"
  by simp

lemma th_queue_sched [simp]:
  "th_queue (t\<lparr>th_state := a\<rparr>) = th_queue t" "th_queue (t\<lparr>timeslice := b\<rparr>) = th_queue t"
  "th_queue (t\<lparr>sched_next := c\<rparr>) = th_queue t" "th_queue (t\<lparr>sched_prev := d\<rparr>) = th_queue t"
  by (simp_all add: th_queue_def)

lemma scheduler_add_frame:
  assumes "scheduler_add u s = Some s'"
  shows "th_queue (thread_at s' v) = th_queue (thread_at s v)" "process_at s' = process_at s" "message_at s' = message_at s"
    "live_uid s' = live_uid s" "live_pid s' = live_pid s" "table_ok s' = table_ok s" "km s' = km s"
    "locked s' = locked s" "curr_frame s' = curr_frame s" "message_mapped s' = message_mapped s"
proof -
  show "th_queue (thread_at s' v) = th_queue (thread_at s v)"
    using assms by (auto simp: scheduler_add_def bind_eq_Some_conv Let_def th_queue_upd simp del: upd_thread_simps(1) split: if_splits)
qed (use assms in \<open>auto simp: scheduler_add_def bind_eq_Some_conv Let_def fun_eq_iff
    message_mapped_def kernel_mapped_def message_address_def block_address_def split: if_splits\<close>)

text \<open>The fields of a thread that its own system calls set.\<close>

definition th_call :: "thread \<Rightarrow> thread_state \<times> ipcport_t \<times> u32 \<times> u32 \<times> task_info" where
  "th_call t = (th_state t, wait_for t, payload_addr t, payload_size t, th_task t)"

lemma th_call_upd:
  "v \<noteq> a \<Longrightarrow> th_call (thread_at (upd_thread a g s) v) = th_call (thread_at s v)"
  "(\<And>t. th_call (g t) = th_call t) \<Longrightarrow> th_call (thread_at (upd_thread a g s) v) = th_call (thread_at s v)"
  by simp_all

lemma th_call_sched [simp]:
  "th_call (t\<lparr>sched_next := c\<rparr>) = th_call t" "th_call (t\<lparr>sched_prev := d\<rparr>) = th_call t"
  by (simp_all add: th_call_def)

lemma scheduler_add_other:
  "scheduler_add u s = Some s' \<Longrightarrow> v \<noteq> u \<Longrightarrow> th_call (thread_at s' v) = th_call (thread_at s v)"
  by (auto simp: scheduler_add_def bind_eq_Some_conv Let_def th_call_upd simp del: upd_thread_simps(1) split: if_splits)

lemma ipc_inv_cong:
  assumes I: "ipc_inv s Q" and "\<And>v. th_queue (thread_at s' v) = th_queue (thread_at s v)" "process_at s' = process_at s"
    "message_at s' = message_at s" "live_uid s' = live_uid s" "live_pid s' = live_pid s" "table_ok s' = table_ok s"
    "message_mapped s' = message_mapped s"
  shows "ipc_inv s' Q"
proof -
  have mq: "msg_queue s' v is = msg_queue s v is" for v "is"
    using assms(2) [of v] assms(3,4,8) by (simp add: msg_queue_def msg_used_def msg_nexts_def [abs_def] th_queue_def)
  show ?thesis using I assms(3-7) by (simp add: ipc_inv_def mq msg_used_def)
qed

text \<open>The effect of a delivery depends only on the queues and the messages, before and after.\<close>

lemma queued_cong:
  assumes K: "queued u b head Q i s s'" and "\<And>v. th_queue (thread_at t' v) = th_queue (thread_at s' v)" "process_at t' = process_at s'"
    "message_at t' = message_at s'" "live_uid t' = live_uid s'" "live_pid t' = live_pid s'" "table_ok t' = table_ok s'"
    "message_mapped t' = message_mapped s'"
    and pre: "th_msg_head (thread_at t u) = th_msg_head (thread_at s u)" "live_uid t = live_uid s" "message_at t = message_at s"
  shows "queued u b head Q i t t'"
proof -
  have mq: "msg_queue t' v is = msg_queue s' v is" for v "is"
    using assms(2) [of v] assms(3,4,8) by (simp add: msg_queue_def msg_used_def msg_nexts_def [abs_def] th_queue_def)
  have ib: "inbox t' = inbox s'" "inbox t = inbox s" "dangles t u = dangles s u"
    using assms(4) pre by (simp_all add: inbox_def fun_eq_iff dangles_def)
  have I: "ipc_inv t' R" if "ipc_inv s' R" for R by (rule ipc_inv_cong [OF that assms(2-8)])
  show ?thesis using K I assms(2) [of u] assms(4) pre by (auto simp: queued_def mq ib Let_def th_queue_def)
qed

lemma sched_cong:
  assumes "\<And>v. th_sched (thread_at s' v) = th_sched (thread_at s v)" "live_uid s' = live_uid s" "table_ok s' = table_ok s"
    "active_thread s' = active_thread s"
  shows "sched_queue s' xs = sched_queue s xs" "sched_ok s' = sched_ok s"
proof -
  have "running s' = running s" "sched_link s' = sched_link s"
    using assms(1,2) by (auto simp: running_def sched_link_def th_sched_def fun_eq_iff)
  then show "sched_queue s' xs = sched_queue s xs" using assms(4) by (simp add: sched_queue_def)
  show "sched_ok s' = sched_ok s" using assms(1-3) by (simp add: sched_ok_def th_sched_def)
qed

text \<open>
  A message is delivered to a thread: at the end of its queue, or, for a thread that waits for it,
  at the head, and the thread becomes runnable.  Threads other than a receiver that is woken keep
  their state, port, payload and registers.
\<close>

definition delivered ::
    "thread_uid \<Rightarrow> body \<Rightarrow> bool \<Rightarrow> (thread_uid \<Rightarrow> nat list) \<Rightarrow> thread_uid list \<Rightarrow> kstate \<Rightarrow> kstate \<Rightarrow> bool" where
  "delivered u b woken Q xs s s' \<longleftrightarrow> (\<exists>i. i \<notin> msg_used s (uid_pid u) \<and> queued u b woken Q i s s') \<and>
     sched_ok s' \<and> sched_queue s' (if woken then xs @ [u] else xs) \<and>
     (\<forall>v. v \<noteq> u \<or> \<not> woken \<longrightarrow> th_call (thread_at s' v) = th_call (thread_at s v)) \<and>
     live_uid s' = live_uid s \<and> km s' = km s \<and> curr_frame s' = curr_frame s \<and> locked s' = locked s"

lemma deliver:
  assumes I: "ipc_inv s Q" and m: "page0_mapped s" and u: "live_uid s u" and c: "card (msg_used s (uid_pid u)) < 160"
    and w: "woken \<longrightarrow> \<not> running s u"
    and S: "sched_ok s" "sched_queue s xs"
  shows "\<exists>s'. do { s \<leftarrow> message_add u from info woken s; if woken then scheduler_add u s else Some s } = Some s' \<and>
    delivered u (from, um_code info, um_args info, um_size info > 0) woken Q xs s s'"
proof -
  let ?b = "(from, um_code info, um_args info, um_size info > 0)"
  obtain s1 i where s1: "message_add u from info woken s = Some s1" "message_added u from info woken (Q u) i s s1"
      "i \<notin> msg_used s (uid_pid u)" "queued u ?b woken Q i s s1"
    using message_add_queued [OF I m u c, of "from" info woken] by blast
  have fr: "live_uid s1 = live_uid s" "table_ok s1 = table_ok s" "active_thread s1 = active_thread s" "km s1 = km s"
      "curr_frame s1 = curr_frame s" "locked s1 = locked s" "\<And>v. th_sched (thread_at s1 v) = th_sched (thread_at s v)"
    using s1(2) S(1) by (auto simp: message_added_def th_sched_def sched_ok_def)
  have ot: "th_call (thread_at s1 v) = th_call (thread_at s v)" for v
    using s1(2) by (simp add: message_added_def th_call_def)
  have S1: "sched_ok s1" "sched_queue s1 xs" using sched_cong [OF fr(7) fr(1-3)] S by simp_all
  show ?thesis
  proof (cases woken)
    case False
    then show ?thesis using s1 S1 fr ot unfolding delivered_def by auto
  next
    case True
    then have "\<not> running s1 u" using w fr(1) fr(7) [of u] by (auto simp: running_def th_sched_def)
    then obtain s2 where s2: "scheduler_add u s1 = Some s2" "sched_ok s2" "sched_queue s2 (xs @ [u])"
      using scheduler_add_queue [OF S1] u fr(1) by auto
    note F = scheduler_add_frame [OF s2(1)]
    have "queued u ?b woken Q i s s2" by (rule queued_cong [OF s1(4) F(1-6,10)]) simp_all
    then show ?thesis using True s1 s2 fr F ot scheduler_add_other [OF s2(1)] unfolding delivered_def by auto
  qed
qed

text \<open>The kernel's message to the thread that serves an interrupt or a service.\<close>

lemma internal_ksend_delivers:
  assumes I: "ipc_inv s Q" "page0_mapped s" "sched_ok s" "sched_queue s xs"
    and u: "port_to_uid s port 0 = Some u" "u \<noteq> 0" "live_uid s u" "card (msg_used s (uid_pid u)) < 160"
    and w: "woken \<longleftrightarrow> th_state (thread_at s u) = THREAD_STATE_WAITING \<and> port_compare (wait_for (thread_at s u)) IPORT_KERNEL"
  shows "\<exists>s'. internal_ksend port code args s = Some s' \<and>
    delivered u (IPORT_KERNEL, code, args, False) woken Q xs s s'"
proof -
  have lp: "live_pid s (uid_pid u)" "table_ok s" using u(3) I(3) by (auto simp: live_uid_def sched_ok_def)
  have "unat (pr_msg_count (process_at s (uid_pid u))) < 1024" using ipc_invD(5) [OF I(1) lp(1)] u(4) by simp
  moreover have "woken \<longrightarrow> \<not> running s u" using w by (simp add: running_def)
  ultimately show ?thesis
    using deliver [OF I(1,2) u(3,4) _ I(3,4), of woken IPORT_KERNEL "\<lparr>um_port = port, um_code = code, um_args = args, um_buf = 0, um_size = 0\<rparr>"]
      u lp w by (simp add: internal_ksend_def Let_def the_process_ok the_thread_ok)
qed

end
