(* ===== verification/Sys_Process.thy ===== *)
theory Sys_Process
  imports Ipc_Service
begin

text \<open>
  The system calls and exceptions on processes, threads, the scheduler and the services
  (\<open>kernel/core/system/process\<close>, \<open>control\<close> and \<open>service\<close>).  Every handler leaves its result in
  the register \<open>EAX\<close> of the current interrupt frame.
\<close>

abbreviation (input) PID_SELF :: pid_t where "PID_SELF \<equiv> 0"
abbreviation (input) TID_SELF :: tid_t where "TID_SELF \<equiv> 0"

definition syscall_return_set :: "u32 \<Rightarrow> kstate \<Rightarrow> kstate option" where
  "syscall_return_set val s = do {
     f \<leftarrow> int_callback_frame_get s;
     Some (s\<lparr>curr_frame := Some (f\<lparr>EAX := val\<rparr>)\<rparr>)
   }"

text \<open>The ending that several handlers share: resume another thread if the caller is gone.\<close>

definition unlock_if_locked :: "kstate \<Rightarrow> kstate option" where
  "unlock_if_locked s = (if uid_pid (scheduler_curr s) = 0 then scheduler_unlock s else Some s)"

subsection \<open>Killing\<close>

definition internal_tkill :: "thread_uid \<Rightarrow> kstate \<Rightarrow> kstate option" where
  "internal_tkill uid s = do {
     let caller_uid = scheduler_curr s;
     s \<leftarrow> (if uid_pid caller_uid = uid_pid uid then scheduler_lock s else Some s);
     s \<leftarrow> (if uid_tid uid = 0 then do {
             s \<leftarrow> scheduler_purge (uid_pid uid) s;
             process_kill (uid_pid uid) s
           }
           else do {
             s \<leftarrow> scheduler_remove uid s;
             thread_kill uid s
           });
     unlock_if_locked s
   }"

text \<open>The message to the process manager about the death of \<open>pid\<close>.\<close>

definition report_death :: "pid_t \<Rightarrow> kstate \<Rightarrow> kstate option" where
  "report_death pid s = do {
     (svc_port, s) \<leftarrow> service_get SVC_PROCMGR s;
     if svc_port \<noteq> 0 then internal_ksend svc_port (of_nat SVC_PROCMGR) [ucast pid, 0, 0] s
     else Some s
   }"

definition exception_userfault :: "kstate \<Rightarrow> kstate option" where
  "exception_userfault s = do {
     let target_uid = scheduler_curr s;
     s \<leftarrow> internal_tkill target_uid s;
     if uid_tid target_uid \<noteq> 0 then Some s
     else report_death (uid_pid target_uid) s
   }"

definition exception_pagefault :: "kstate \<Rightarrow> kstate option" where
  "exception_pagefault s = do {
     let target_uid = scheduler_curr s;
     s \<leftarrow> internal_tkill target_uid s;
     if uid_tid target_uid \<noteq> 0 then Some s
     else report_death (uid_pid target_uid) s
   }"

definition exception_debug :: "kstate \<Rightarrow> kstate option" where
  "exception_debug s = Some s"

definition syscall_kill :: "pid_t \<Rightarrow> kstate \<Rightarrow> kstate option" where
  "syscall_kill pid s = do {
     owner \<leftarrow> the_process s (uid_pid (scheduler_curr s));
     let pid = (if pid = PID_SELF then pr_pid owner else pid);
     target \<leftarrow> process_get s pid;
     case target of
       None \<Rightarrow> syscall_return_set ENOTAVAIL s
     | Some target \<Rightarrow>
         if priv owner < priv target then syscall_return_set EPRIV s
         else do {
           s \<leftarrow> (if pr_pid target = pr_pid owner then scheduler_lock s else Some s);
           s \<leftarrow> scheduler_purge (pr_pid target) s;
           s \<leftarrow> process_kill (pr_pid target) s;
           s \<leftarrow> (if uid_pid (scheduler_curr s) = 0 then scheduler_unlock s else syscall_return_set ENONE s);
           report_death pid s
         }
   }"

definition syscall_release :: "tid_t \<Rightarrow> kstate \<Rightarrow> kstate option" where
  "syscall_release tid s = do {
     let caller_uid = scheduler_curr s;
     let tid = (if tid = TID_SELF then uid_tid caller_uid else tid);
     if tid = 0 then syscall_return_set EINVALID s
     else do {
       let target_uid = mk_uid (uid_pid caller_uid) tid;
       target \<leftarrow> thread_get s target_uid;
       case target of
         None \<Rightarrow> syscall_return_set ENOTAVAIL s
       | Some target \<Rightarrow> do {
           s \<leftarrow> (if uid_tid target_uid = uid_tid caller_uid then scheduler_lock s else Some s);
           s \<leftarrow> thread_kill caller_uid s;
           if uid_pid (scheduler_curr s) = 0 then scheduler_unlock s else syscall_return_set ENONE s
         }
     }
   }"

subsection \<open>Creating\<close>

definition syscall_spawn :: "kstate \<Rightarrow> kstate option" where
  "syscall_spawn s = do {
     (pid, s) \<leftarrow> process_new (uid_pid (scheduler_curr s)) 0 s;
     syscall_return_set (ucast pid) s
   }"

definition syscall_launch :: "pid_t \<Rightarrow> u32 \<Rightarrow> kstate \<Rightarrow> kstate option" where
  "syscall_launch pid start s = do {
     owner \<leftarrow> the_process s (uid_pid (scheduler_curr s));
     target \<leftarrow> process_get s pid;
     case target of
       None \<Rightarrow> syscall_return_set ENOTAVAIL s
     | Some target \<Rightarrow>
         if pr_thread_count target > 0 then syscall_return_set EINVALID s
         else if \<not> (pr_parent target = pr_pid owner \<or> priv owner > PRIV_NONE) then syscall_return_set EPRIV s
         else do {
           let s = upd_process pid (\<lambda>p. p\<lparr>pr_entry := start\<rparr>) s;
           (uid, s) \<leftarrow> thread_new pid 0 s;
           s \<leftarrow> scheduler_add uid s;
           syscall_return_set ENONE s
         }
   }"

definition syscall_dispatch :: "u32 \<Rightarrow> u32 \<Rightarrow> kstate \<Rightarrow> kstate option" where
  "syscall_dispatch start stk s = do {
     (uid, s) \<leftarrow> thread_new (uid_pid (scheduler_curr s)) start s;
     t \<leftarrow> the_thread s uid;
     let s = upd_thread uid (\<lambda>t. t\<lparr>th_task := (th_task t)\<lparr>stack := stk\<rparr>\<rparr>) s;
     s \<leftarrow> scheduler_add uid s;
     syscall_return_set (ucast (uid_tid uid)) s
   }"

subsection \<open>Control\<close>

definition syscall_yield :: "kstate \<Rightarrow> kstate option" where
  "syscall_yield s = do {
     s \<leftarrow> syscall_return_set ENONE s;
     scheduler_next s
   }"

text \<open>Whether the sender that \<open>syscall_wait\<close> names exists.\<close>

definition wait_target_exists :: "pid_t \<Rightarrow> thread_uid \<Rightarrow> kstate \<Rightarrow> bool option" where
  "wait_target_exists caller_pid target_uid s =
     (if uid_pid target_uid = 0 then do {
        target \<leftarrow> thread_get s (mk_uid caller_pid (uid_tid target_uid));
        Some (target \<noteq> None)
      }
      else if uid_pid target_uid > 1 then do {
        target \<leftarrow> thread_get s target_uid;
        Some (target \<noteq> None)
      }
      else Some True)"

definition syscall_wait :: "ipcport_t \<Rightarrow> kstate \<Rightarrow> kstate option" where
  "syscall_wait sender s = do {
     let caller_uid = scheduler_curr s;
     (found, s) \<leftarrow> message_find caller_uid sender s;
     if found then syscall_return_set ENONE s
     else do {
       target_uid \<leftarrow> port_to_uid s sender (uid_pid caller_uid);
       if target_uid = 0 then syscall_return_set EINVALID s
       else do {
         ex \<leftarrow> wait_target_exists (uid_pid caller_uid) target_uid s;
         if \<not> ex then syscall_return_set ENOTAVAIL s
         else do {
           s \<leftarrow> syscall_return_set ENONE s;
           s \<leftarrow> scheduler_lock s;
           s \<leftarrow> scheduler_remove caller_uid s;
           caller \<leftarrow> the_thread s caller_uid;
           let s = upd_thread caller_uid (\<lambda>t. t\<lparr>th_state := THREAD_STATE_WAITING, wait_for := sender\<rparr>) s;
           scheduler_unlock s
         }
       }
     }
   }"

subsection \<open>Services\<close>

definition syscall_svcid :: "u32 \<Rightarrow> kstate \<Rightarrow> kstate option" where
  "syscall_svcid svc s =
     (if unat svc \<ge> SVCMAX then syscall_return_set 0 s
      else do {
        (port, s) \<leftarrow> service_get (unat svc) s;
        syscall_return_set port s
      })"

definition syscall_svcown :: "u32 \<Rightarrow> kstate \<Rightarrow> kstate option" where
  "syscall_svcown svc s =
     (if unat svc \<ge> SVCMAX then syscall_return_set EPARAM s
      else do {
        (port, s) \<leftarrow> service_get (unat svc) s;
        if port \<noteq> 0 then syscall_return_set ENOTAVAIL s
        else do {
          let caller_uid = scheduler_curr s;
          owner \<leftarrow> the_process s (uid_pid caller_uid);
          if priv owner < PRIV_SERVER then syscall_return_set EPRIV s
          else do {
            s \<leftarrow> service_register (unat svc) caller_uid s;
            syscall_return_set ENONE s
          }
        }
      })"

definition syscall_sysio :: "u32 \<Rightarrow> u32 \<Rightarrow> u32 \<Rightarrow> kstate \<Rightarrow> kstate option" where
  "syscall_sysio action arg data s =
     (let (res, i) = arch_sysio action arg data (io_st s)
      in syscall_return_set res (s\<lparr>io_st := i\<rparr>))"


subsection \<open>A caller\<close>

text \<open>
  The kernel during a system call: \<open>xs\<close> is the run queue, \<open>f\<close> the frame of the interrupt, and the
  running thread is the head of the queue.
\<close>

definition in_call :: "kstate \<Rightarrow> thread_uid list \<Rightarrow> int_frame \<Rightarrow> bool" where
  "in_call s xs f \<longleftrightarrow> sched_ok s \<and> sched_queue s xs \<and> xs \<noteq> [] \<and> \<not> locked s \<and> curr_frame s = Some f"

lemma return_set_frame [simp]:
  "curr_frame s = Some f \<Longrightarrow> syscall_return_set v s = Some (s\<lparr>curr_frame := Some (f\<lparr>EAX := v\<rparr>)\<rparr>)"
  by (simp add: syscall_return_set_def int_callback_frame_get_def)

lemma in_call_curr:
  assumes "in_call s xs f"
  shows "scheduler_curr s = hd xs" "active_thread s = hd xs" "live_uid s (hd xs)" "live_pid s (uid_pid (hd xs))"
    "table_ok s" "curr_frame s = Some f" "th_state (thread_at s (hd xs)) = THREAD_STATE_ACTIVE"
    "uid_pid (hd xs) \<noteq> 0"
  using assms sched_queue_nonempty [of s xs] live_uid_not_zero [of s "hd xs"]
  by (auto simp: in_call_def scheduler_curr_def sched_queue_def sched_ok_def running_def live_uid_def)

lemma sched_frame_upd [simp]:
  "sched_ok (s\<lparr>curr_frame := x\<rparr>) = sched_ok s" "sched_queue (s\<lparr>curr_frame := x\<rparr>) xs = sched_queue s xs"
  "sched_ok (s\<lparr>km := k\<rparr>) = sched_ok s" "sched_queue (s\<lparr>km := k\<rparr>) xs = sched_queue s xs"
  by (simp_all add: sched_ok_def sched_queue_def running_def sched_link_def [abs_def])

text \<open>\<open>yield\<close> moves the caller to the end of the queue and lets the next thread run.\<close>

lemma syscall_yield_queue:
  assumes "in_call s xs f"
  shows "\<exists>s'. syscall_yield s = Some s' \<and> sched_queue s' (rotate1 xs) \<and>
    (if length xs = 1 then curr_frame s' = Some (f\<lparr>EAX := ENONE\<rparr>)
     else switched (s\<lparr>curr_frame := Some (f\<lparr>EAX := ENONE\<rparr>)\<rparr>) (hd xs) (hd (tl xs)) (f\<lparr>EAX := ENONE\<rparr>) s')"
  using assms scheduler_next_queue [of "s\<lparr>curr_frame := Some (f\<lparr>EAX := ENONE\<rparr>)\<rparr>" xs "f\<lparr>EAX := ENONE\<rparr>"]
  by (auto simp: in_call_def syscall_yield_def)

text \<open>
  A release that gets past its checks stops in an assertion: the kernel kills the caller instead
  of the thread named, and the caller is running.
\<close>

text \<open>
  C38. Releasing any live thread of the caller's process, other than through TID_SELF, stops in an
  assertion: the kernel kills the running caller instead of the thread named.
\<close>

lemma syscall_release_stuck:
  assumes "in_call s xs f" and "tid \<noteq> TID_SELF" and "live_uid s (mk_uid (uid_pid (hd xs)) tid)"
  shows "syscall_release tid s = None"
proof -
  note C = in_call_curr [OF assms(1)]
  have k: "thread_kill (hd xs) t = None"
    if "table_ok t" "live_uid t (hd xs)" "th_state (thread_at t (hd xs)) = THREAD_STATE_ACTIVE" for t
    using that by (simp add: thread_kill_def the_thread_ok)
  obtain s1 where s1: "scheduler_lock s = Some s1" "sched_ok s1" "sched_queue s1 xs"
    using scheduler_lock_queue [of s xs f] assms(1) by (auto simp: in_call_def)
  then have "running s1 (hd xs)" using assms(1) by (auto simp: sched_queue_def in_call_def)
  then have "thread_kill (hd xs) s1 = None" using k s1(2) by (auto simp: sched_ok_def running_def)
  then show ?thesis
    using C k [OF C(5,3,7)] s1 assms(2,3) thread_get_ok [OF C(5)] by (simp add: syscall_release_def Let_def)
qed


subsection \<open>Waiting\<close>

text \<open>Threads outside the run queue may change everything but their idleness.\<close>

lemma sched_queue_upd_idle:
  assumes "sched_queue s xs" and "u \<notin> set xs" and "th_state (g (thread_at s u)) \<noteq> THREAD_STATE_ACTIVE"
  shows "sched_queue (upd_thread u g s) xs"
proof -
  have r: "running (upd_thread u g s) = running s"
    using assms by (auto simp: fun_eq_iff running_def sched_queue_def)
  have "cyclic (sched_link (upd_thread u g s)) xs"
  proof (cases xs)
    case (Cons y ys)
    have "successively (sched_link s) (xs @ [hd xs])" using assms(1) Cons by (simp add: sched_queue_def cyclic_def)
    then have "successively (sched_link (upd_thread u g s)) (xs @ [hd xs])"
      by (rule successively_mono) (use assms(2) Cons in \<open>auto simp: sched_link_def\<close>)
    then show ?thesis by (simp add: cyclic_def)
  qed (simp add: cyclic_def)
  then show ?thesis using assms(1) r by (simp add: sched_queue_def)
qed

lemma sched_ok_upd: "sched_ok s \<Longrightarrow> th_owner (g (thread_at s u)) = th_owner (thread_at s u) \<Longrightarrow> sched_ok (upd_thread u g s)"
  by (auto simp: sched_ok_def)

lemma th_task_upd:
  "(\<And>t. th_task (g t) = th_task t) \<Longrightarrow> th_task (thread_at (upd_thread a g s) v) = th_task (thread_at s v)"
  by simp

lemma scheduler_remove_task:
  "scheduler_remove u s = Some s' \<Longrightarrow> th_task (thread_at s' v) = th_task (thread_at s v)"
  by (auto simp: scheduler_remove_def bind_eq_Some_conv Let_def th_task_upd simp del: upd_thread_simps split: if_splits)

text \<open>The caller gives up the processor until it is added again.\<close>

definition blocked :: "kstate \<Rightarrow> thread_uid \<Rightarrow> thread_uid list \<Rightarrow> int_frame \<Rightarrow> kstate \<Rightarrow> bool" where
  "blocked s u xs f s' \<longleftrightarrow> sched_ok s' \<and> sched_queue s' xs \<and> \<not> locked s' \<and>
     frame (th_task (thread_at s' u)) = f \<and>
     curr_frame s' = Some (task_load (th_task (thread_at s (hd xs))) f) \<and>
     cr3 (km s') = addr_space (process_at s (uid_pid (hd xs)))"

lemma block_caller:
  assumes C: "in_call s (u # xs) f" and g: "\<And>t. th_state (g t) \<noteq> THREAD_STATE_ACTIVE \<and> th_owner (g t) = th_owner t \<and> th_task (g t) = th_task t"
  shows "\<exists>s1 s2. scheduler_lock s = Some s1 \<and> scheduler_remove u s1 = Some s2 \<and> sched_ok s2 \<and> sched_queue s2 xs \<and>
    the_thread s2 u \<noteq> None \<and> locked s2 \<and> live_uid s2 = live_uid s \<and> km s2 = km s \<and>
    frame (th_task (thread_at s2 u)) = f \<and> (xs = [] \<longrightarrow> scheduler_unlock (upd_thread u g s2) = None) \<and>
    (xs \<noteq> [] \<longrightarrow> (\<exists>s'. scheduler_unlock (upd_thread u g s2) = Some s' \<and> blocked s u xs f s' \<and>
       thread_at s' u = g (thread_at s2 u)))"
proof -
  have nu: "u \<notin> set xs" using C by (auto simp: in_call_def sched_queue_def)
  obtain s1 where s1: "scheduler_lock s = Some s1" "locked s1" "sched_ok s1" "sched_queue s1 (u # xs)"
      "frame (th_task (thread_at s1 u)) = f" "curr_frame s1 = Some f" "km s1 = km s"
    using scheduler_lock_queue [of s "u # xs" f] C by (auto simp: in_call_def)
  have fr1: "th_task (thread_at s1 v) = th_task (thread_at s v)" if "v \<noteq> u" for v
    using s1(1) that in_call_curr(2) [OF C] by (auto simp: scheduler_lock_def task_preserve_def bind_eq_Some_conv Let_def)
  have fr1': "process_at s1 = process_at s" "live_uid s1 = live_uid s"
    using s1(1) by (auto simp: scheduler_lock_def task_preserve_def bind_eq_Some_conv Let_def fun_eq_iff)
  obtain s2 where s2: "scheduler_remove u s1 = Some s2" "sched_ok s2" "sched_queue s2 xs"
    using scheduler_remove_queue [OF s1(3,4), of u] s1(2) nu by auto
  note F = scheduler_remove_frame [OF s2(1)] and T = scheduler_remove_task [OF s2(1)]
  have lu: "live_uid s2 u" using in_call_curr(3) [OF C] F fr1' by simp
  then have t2: "the_thread s2 u \<noteq> None" using s2(2) by (simp add: sched_ok_def the_thread_ok)
  let ?s3 = "upd_thread u g s2"
  have q3: "sched_ok ?s3" "sched_queue ?s3 xs" "curr_frame ?s3 = Some f"
    using sched_ok_upd [OF s2(2)] sched_queue_upd_idle [OF s2(3) nu] g F s1(6) by auto
  show ?thesis
  proof (cases "xs = []")
    case True
    then have "active_thread ?s3 = 0" using q3(2) by (simp add: sched_queue_def)
    then show ?thesis using True s1 s2 t2 F fr1' T [of u] by (simp add: scheduler_unlock_def)
  next
    case False
    obtain s' where "scheduler_unlock ?s3 = Some s'" "\<not> locked s'" "sched_ok s'" "sched_queue s' xs"
      "curr_frame s' = Some (task_load (th_task (thread_at ?s3 (hd xs))) f)"
      "km s' = paging_dir_load (km ?s3) (addr_space (process_at ?s3 (uid_pid (hd xs))))" "thread_at s' = thread_at ?s3"
      using scheduler_unlock_queue [OF q3(1,2) False q3(3)] by blast
    moreover have "hd xs \<noteq> u" using nu False by auto
    ultimately have "blocked s u xs f s'" "thread_at s' u = g (thread_at s2 u)"
      using T fr1 fr1' F s1(5) g by (auto simp: blocked_def paging_dir_load_def)
    then show ?thesis using False s1 s2 t2 F fr1' T [of u] \<open>scheduler_unlock ?s3 = Some s'\<close> by auto
  qed
qed

text \<open>
  \<open>wait\<close> for a sender that exists and has no message in the queue: the caller leaves the run
  queue, and the next thread runs.  When the caller is the only runnable thread, the kernel stops.
\<close>

text \<open>
  C3. Waiting for a port from which no message is queued and whose target exists takes the caller
  off the run queue in state WAITING for that port, saves its registers with result ENONE and
  resumes the next thread of the queue in its own address space; if the caller was the only runnable
  thread the kernel stops in an assertion.
\<close>

lemma syscall_wait_blocks:
  assumes C: "in_call s (u # xs) f" and I: "ipc_inv s Q" and none: "\<forall>i \<in> set (Q u). \<not> matches s u sender i"
    and to: "port_to_uid s sender (uid_pid u) = Some v" "v \<noteq> 0" "wait_target_exists (uid_pid u) v s = Some True"
  shows "if xs = [] then syscall_wait sender s = None
    else \<exists>s'. syscall_wait sender s = Some s' \<and> blocked s u xs (f\<lparr>EAX := ENONE\<rparr>) s' \<and>
      th_state (thread_at s' u) = THREAD_STATE_WAITING \<and> wait_for (thread_at s' u) = sender"
proof -
  let ?f = "f\<lparr>EAX := ENONE\<rparr>" and ?s = "s\<lparr>curr_frame := Some (f\<lparr>EAX := ENONE\<rparr>)\<rparr>"
  let ?g = "\<lambda>t. t\<lparr>th_state := THREAD_STATE_WAITING, wait_for := sender\<rparr>"
  note cur = in_call_curr [OF C, simplified]
  have C': "in_call ?s (u # xs) ?f" using C by (simp add: in_call_def)
  have q: "msg_queue s u (Q u)" by (rule ipc_invD(2) [OF I cur(3)])
  have "message_find u sender s = Some (False, s)"
  proof (cases "Q u = []")
    case True
    then show ?thesis using q cur by (simp add: message_find_def the_process_ok the_thread_ok msg_queue_def unat_eq_zero)
  next
    case False
    then have c: "chain (msg_nexts s (uid_pid u)) (Some (unat (th_msg_head (thread_at s u)))) (Q u)"
      "th_msg_count (thread_at s u) \<noteq> 0" "\<forall>i \<in> set (Q u). message_mapped s (uid_pid u) i"
      using q by (auto simp: msg_queue_def)
    moreover have "th_msg_head (thread_at s u) \<noteq> -1"
      using c(1) False msg_queue_length [OF cur(5) q] by (cases "Q u") auto
    ultimately show ?thesis
      using message_find_loop_none [of s u "th_msg_head (thread_at s u)" "Q u" sender "-1"] none cur
      by (simp add: message_find_def the_process_ok the_thread_ok index_opt_def)
  qed
  then show ?thesis
    using block_caller [OF C', of ?g] to cur
    by (auto simp: syscall_wait_def Let_def blocked_def)
qed


subsection \<open>Privileges\<close>

text \<open>A process is killed by itself or by a process of the same or a higher privilege.\<close>

lemma syscall_kill_privilege:
  assumes C: "in_call s (u # xs) f" and p: "live_pid s pid" "priv (process_at s (uid_pid u)) < priv (process_at s pid)"
  shows "syscall_kill pid s = Some (s\<lparr>curr_frame := Some (f\<lparr>EAX := EPRIV\<rparr>)\<rparr>)"
proof -
  have "pid \<noteq> 0" using p(1) by (auto simp: live_pid_def)
  then show ?thesis using in_call_curr [OF C, simplified] p by (simp add: syscall_kill_def the_process_ok process_get_ok)
qed

lemma service_get_ids: "service_get svc s = Some (p, s') \<Longrightarrow> service_ids s' = service_ids s"
  by (auto simp: service_get_def bind_eq_Some_conv with_io_def int_callback_set_def Let_def split: if_splits)

lemma port_to_uid_returns: "table_ok s \<Longrightarrow> \<exists>u. port_to_uid s port parent = Some u"
  by (auto simp: port_to_uid_def thread_get_ok the_process_ok live_uid_def Let_def)

lemma service_get_returns:
  assumes "table_ok s" and "svc < SVCMAX"
  shows "\<exists>p s'. service_get svc s = Some (p, s')"
proof (cases "svc < SVC_IMAX")
  case True
  then have "of_nat svc < (16 :: u8)" by (simp add: word_less_nat_alt unat_of_nat)
  moreover have "sint (of_nat svc :: u8) = int svc"
    using True by (simp add: sint_uint uint_nat unat_of_nat signed_take_bit_int_eq_self)
  ultimately show ?thesis
    using port_to_uid_returns [OF assms(1), of "service_ids s svc" 0] assms(2)
    by (auto simp: service_get_def with_io_def pic_irq_disable_def irq_to_isr_def split: prod.split)
next
  case False
  then show ?thesis using port_to_uid_returns [OF assms(1), of "service_ids s svc" 0] assms(2) by (auto simp: service_get_def)
qed

text \<open>An unprivileged process cannot become the owner of a service or an interrupt.\<close>

lemma syscall_svcown_privilege:
  assumes C: "in_call s (u # xs) f" and p: "priv (process_at s (uid_pid u)) = PRIV_NONE"
  shows "\<exists>s'. syscall_svcown svc s = Some s' \<and> service_ids s' = service_ids s \<and>
    (\<exists>code \<in> {EPARAM, ENOTAVAIL, EPRIV}. curr_frame s' = Some (f\<lparr>EAX := code\<rparr>))"
proof (cases "unat svc \<ge> SVCMAX")
  case True
  then show ?thesis using in_call_curr(6) [OF C] by (simp add: syscall_svcown_def)
next
  case False
  have ok: "table_ok s" using in_call_curr [OF C] by simp
  obtain q s1 where s1: "service_get (unat svc) s = Some (q, s1)"
    using service_get_returns [OF ok, of "unat svc"] False by auto
  have fr: "scheduler_curr s1 = scheduler_curr s \<and> table_ok s1 = table_ok s \<and> live_pid s1 = live_pid s \<and> process_at s1 = process_at s \<and> curr_frame s1 = curr_frame s"
    using s1 by (auto simp: service_get_def bind_eq_Some_conv with_io_def int_callback_set_def Let_def scheduler_curr_def fun_eq_iff split: if_splits)
  then have "syscall_svcown svc s = Some (s1\<lparr>curr_frame := Some (f\<lparr>EAX := (if q \<noteq> 0 then ENOTAVAIL else EPRIV)\<rparr>)\<rparr>)"
    using s1 False in_call_curr [OF C, simplified] p by (auto simp: syscall_svcown_def Let_def the_process_ok split: if_splits)
  then show ?thesis using service_get_ids [OF s1] by auto
qed

end
