(* ===== verification/Sys_Memory.thy ===== *)
theory Sys_Memory
  imports Sys_Process
begin

text \<open>
  The system calls on memory (\<open>kernel/core/system/memory\<close>): mapping, unmapping, granting and
  sharing pages.
\<close>

definition syscall_vmap :: "u32 \<Rightarrow> u32 \<Rightarrow> kstate \<Rightarrow> kstate option" where
  "syscall_vmap dest sz s =
     (if dest + sz > KERNEL_VIRT_BASE then syscall_return_set EADDR s
      else if sz = 0 then syscall_return_set ESIZE s
      else do {
        a \<leftarrow> addr_align dest ARCH_PGSIZE;
        if a \<noteq> dest then syscall_return_set EALIGN s
        else if sz mod ARCH_PGSIZE \<noteq> 0 then syscall_return_set ESIZE s
        else do {
          owner \<leftarrow> the_process s (uid_pid (scheduler_curr s));
          (m, s) \<leftarrow> virtual_is_mapped s (pr_pid owner) dest sz;
          if m \<noteq> 0 then syscall_return_set ENOTAVAIL s
          else do {
            s \<leftarrow> virtual_alloc s (pr_pid owner) dest sz;
            syscall_return_set dest s
          }
        }
      })"

definition syscall_pmap :: "u32 \<Rightarrow> u32 \<Rightarrow> u32 \<Rightarrow> kstate \<Rightarrow> kstate option" where
  "syscall_pmap dest src sz s =
     (if dest + sz > KERNEL_VIRT_BASE then syscall_return_set EADDR s
      else if sz = 0 then syscall_return_set ESIZE s
      else do {
        a \<leftarrow> addr_align dest ARCH_PGSIZE;
        b \<leftarrow> addr_align src ARCH_PGSIZE;
        if a \<noteq> dest then syscall_return_set EALIGN s
        else if b \<noteq> src then syscall_return_set EALIGN s
        else if sz mod ARCH_PGSIZE \<noteq> 0 then syscall_return_set ESIZE s
        else do {
          owner \<leftarrow> the_process s (uid_pid (scheduler_curr s));
          if priv owner \<noteq> PRIV_DRIVER then syscall_return_set EPRIV s
          else do {
            (m, s) \<leftarrow> virtual_is_mapped s (pr_pid owner) dest sz;
            if m \<noteq> 0 then syscall_return_set ENOTAVAIL s
            else do {
              s \<leftarrow> virtual_map s (pr_pid owner) dest src sz;
              syscall_return_set dest s
            }
          }
        }
      })"

definition syscall_unmap :: "u32 \<Rightarrow> u32 \<Rightarrow> kstate \<Rightarrow> kstate option" where
  "syscall_unmap addr sz s =
     (if addr + sz > KERNEL_VIRT_BASE then syscall_return_set EADDR s
      else if sz = 0 then syscall_return_set ESIZE s
      else do {
        a \<leftarrow> addr_align addr ARCH_PGSIZE;
        if a \<noteq> addr then syscall_return_set EALIGN s
        else if sz mod ARCH_PGSIZE \<noteq> 0 then syscall_return_set ESIZE s
        else do {
          owner \<leftarrow> the_process s (uid_pid (scheduler_curr s));
          (m, s) \<leftarrow> virtual_is_mapped s (pr_pid owner) addr sz;
          if m \<noteq> 1 then syscall_return_set ENOTAVAIL s
          else do {
            s \<leftarrow> virtual_unmap s (pr_pid owner) addr sz;
            syscall_return_set ENONE s
          }
        }
      })"

definition syscall_grant :: "u32 \<Rightarrow> u32 \<Rightarrow> kstate \<Rightarrow> kstate option" where
  "syscall_grant info_ptr dest s = do {
     let caller_uid = scheduler_curr s;
     (m, s) \<leftarrow> virtual_is_mapped s (uid_pid caller_uid) info_ptr SHM_SIZE;
     if m \<noteq> 1 then syscall_return_set EPARAM s
     else do {
       info \<leftarrow> shm_load (km s) info_ptr;
       if shm_size info = 0 then syscall_return_set ESIZE s
       else do {
         target_uid \<leftarrow> port_to_uid s (shm_to info) (uid_pid caller_uid);
         if target_uid = 0 then syscall_return_set EINVALID s
         else do {
           target \<leftarrow> process_get s (uid_pid target_uid);
           case target of
             None \<Rightarrow> syscall_return_set ENOTAVAIL s
           | Some target \<Rightarrow> do {
               owner \<leftarrow> the_process s (uid_pid caller_uid);
               if \<not> (priv owner > priv target \<or> pr_parent target = pr_pid owner) then syscall_return_set EPRIV s
               else do {
                 let src = shm_addr info;
                 a \<leftarrow> addr_align src ARCH_PGSIZE;
                 b \<leftarrow> addr_align dest ARCH_PGSIZE;
                 if a \<noteq> src then syscall_return_set EALIGN s
                 else if b \<noteq> dest then syscall_return_set EALIGN s
                 else if shm_size info mod ARCH_PGSIZE \<noteq> 0 then syscall_return_set ESIZE s
                 else do {
                   (m1, s) \<leftarrow> virtual_is_mapped s (pr_pid owner) src (shm_size info);
                   if m1 \<noteq> 1 then syscall_return_set EADDR s
                   else do {
                     (m2, s) \<leftarrow> virtual_is_mapped s (pr_pid target) dest (shm_size info);
                     if m2 \<noteq> 0 then syscall_return_set ENORES s
                     else do {
                       s \<leftarrow> virtual_share s (pr_pid target) (pr_pid owner) dest src (shm_size info) (shm_prot info);
                       s \<leftarrow> virtual_unmap s (pr_pid owner) src (shm_size info);
                       syscall_return_set ENONE s
                     }
                   }
                 }
               }
             }
         }
       }
     }
   }"

text \<open>
  \<open>syscall_share\<close> compares the thread id of the target with \<open>IPORT_ANY\<close>, a port, and tests the
  alignment of the source twice where the second test is meant for the size.
\<close>

definition syscall_share :: "u32 \<Rightarrow> kstate \<Rightarrow> kstate option" where
  "syscall_share info_ptr s = do {
     let caller_uid = scheduler_curr s;
     (m, s) \<leftarrow> virtual_is_mapped s (uid_pid caller_uid) info_ptr SHM_SIZE;
     if m \<noteq> 1 then syscall_return_set EPARAM s
     else do {
       info \<leftarrow> shm_load (km s) info_ptr;
       if shm_size info = 0 then syscall_return_set ESIZE s
       else do {
         target_uid \<leftarrow> port_to_uid s (shm_to info) (uid_pid caller_uid);
         if target_uid = 0 then syscall_return_set EINVALID s
         else do {
           target \<leftarrow> process_get s (uid_pid target_uid);
           if \<not> (target \<noteq> None \<or> (uid_pid target_uid = 1 \<and> ucast (uid_tid target_uid) = IPORT_ANY))
           then syscall_return_set ENOTAVAIL s
           else do {
             let src = shm_addr info;
             a \<leftarrow> addr_align src ARCH_PGSIZE;
             if a \<noteq> src then syscall_return_set EALIGN s
             else if src mod ARCH_PGSIZE \<noteq> 0 then syscall_return_set ESIZE s
             else do {
               caller \<leftarrow> the_thread s caller_uid;
               let s = upd_thread caller_uid (\<lambda>t. t\<lparr>shm_offer := info\<rparr>) s;
               syscall_return_set (ucast caller_uid) s
             }
           }
         }
       }
     }
   }"

definition syscall_accept :: "u32 \<Rightarrow> u32 \<Rightarrow> u32 \<Rightarrow> kstate \<Rightarrow> kstate option" where
  "syscall_accept sid dest sz s =
     (if sz = 0 then syscall_return_set ESIZE s
      else do {
        let caller_uid = scheduler_curr s;
        let target_uid = (ucast sid :: thread_uid);
        target \<leftarrow> thread_get s target_uid;
        case target of
          None \<Rightarrow> syscall_return_set ENOTAVAIL s
        | Some target \<Rightarrow> do {
            let info = shm_offer target;
            caller_port \<leftarrow> port_from_uid s caller_uid;
            if \<not> port_compare (shm_to info) caller_port then syscall_return_set EPRIV s
            else do {
              a \<leftarrow> addr_align dest ARCH_PGSIZE;
              if a \<noteq> dest then syscall_return_set EALIGN s
              else if sz mod ARCH_PGSIZE \<noteq> 0 then syscall_return_set ESIZE s
              else do {
                (m, s) \<leftarrow> virtual_is_mapped s (uid_pid caller_uid) dest sz;
                if m \<noteq> 0 then syscall_return_set EADDR s
                else do {
                  s \<leftarrow> virtual_share s (uid_pid caller_uid) (uid_pid target_uid) dest (shm_addr info)
                        (shm_size info) (shm_prot info);
                  syscall_return_set (shm_size info) s
                }
              }
            }
          }
      })"


subsection \<open>Mapping new memory\<close>

text \<open>
  \<open>vmap\<close> on a proper range: if no page of it is mapped, the caller gets new zeroed pages there
  and its other mappings stay; otherwise nothing changes and the call reports it.  There must be
  two free frames for every page, one for the page and one for a table.
\<close>

lemma syscall_vmap_alloc:
  assumes C: "in_call s (u # xs) f" and P: "P = process_at s (uid_pid u)" "pr_pid P = uid_pid u"
    and k: "kmem_ok (km s)" "pas_inv (km s) (addr_space P)" "phys_ready (phys_st (km s))"
    and r: "page_aligned dest" "sz \<noteq> 0" "sz mod ARCH_PGSIZE = 0" "unat dest + unat sz \<le> 0xC0000000"
    and fr: "2 * length (range_pages dest sz) \<le> free_frames (phys_st (km s))"
  shows "\<exists>s'. syscall_vmap dest sz s = Some s' \<and> s' = s\<lparr>km := km s', curr_frame := curr_frame s'\<rparr> \<and>
    (if \<forall>v \<in> set (range_pages dest sz). walk (mem (km s)) (addr_space P) v = None
     then allocated (km s) (addr_space P) 3 (range_pages dest sz) (km s') \<and> curr_frame s' = Some (f\<lparr>EAX := dest\<rparr>)
     else mem (km s') = mem (km s) \<and> phys_st (km s') = phys_st (km s) \<and> curr_frame s' = Some (f\<lparr>EAX := ENOTAVAIL\<rparr>))"
proof -
  note cur = in_call_curr [OF C, simplified]
  have d: "\<not> dest + sz > KERNEL_VIRT_BASE" using r(4) range_no_wrap [of dest sz] by (simp add: word_less_nat_alt)
  have a: "addr_align dest ARCH_PGSIZE = Some dest" using r(1) by (simp add: page_align_fixed)
  have t: "tempmap_addr (km s) \<noteq> 0" "page_aligned (addr_space P)" "addr_space P \<noteq> 0"
    using k by (simp_all add: kmem_ok_def pas_inv_def)
  have e: "unat dest + unat sz \<le> 0xFFFFF000" using r(4) by simp
  obtain m q where m: "virtual_is_mapped s (uid_pid u) dest sz = Some (m, s\<lparr>km := window (km s) q\<rparr>)"
      "m = 0 \<longleftrightarrow> (\<forall>v \<in> set (range_pages dest sz). walk (mem (km s)) (addr_space P) v = None)"
    using virtual_is_mapped_spec [OF cur(5,4) P(1) [THEN arg_cong] t r(2) e] by (elim exE conjE) (rule that)
  let ?s = "s\<lparr>km := window (km s) q\<rparr>"
  have run: "syscall_vmap dest sz s = (if m \<noteq> 0 then syscall_return_set ENOTAVAIL ?s
      else do { s \<leftarrow> virtual_alloc ?s (uid_pid u) dest sz; syscall_return_set dest s })"
    using d a r(2,3) m(1) cur P by (simp add: syscall_vmap_def the_process_ok)
  have k': "kmem_ok (km ?s)" "pas_inv (km ?s) (addr_space P)" "phys_ready (phys_st (km ?s))"
    using k by (simp_all add: kmem_ok_def pas_inv_def)
  show ?thesis
  proof (cases "m = 0")
    case False
    then show ?thesis using run cur(6) by (simp add: m(2) [symmetric])
  next
    case True
    then have none: "\<forall>v \<in> set (range_pages dest sz). walk (mem (km ?s)) (addr_space P) v = None" using m(2) by simp
    have ok: "table_ok ?s" "live_pid ?s (uid_pid u)" "addr_space P = addr_space (process_at ?s (uid_pid u))"
      using cur P by simp_all
    obtain s2 where s2: "virtual_alloc ?s (uid_pid u) dest sz = Some s2"
      using virtual_alloc_returns [OF ok k'(1,2) r(1,2,4) none k'(3)] fr by auto
    have al: "allocated (km ?s) (addr_space P) 3 (range_pages dest sz) (km s2) \<and> s2 = ?s\<lparr>km := km s2\<rparr>"
      by (rule virtual_alloc_fresh [OF ok k'(1,2) r(1,4) none s2])
    then have "curr_frame s2 = curr_frame (?s\<lparr>km := km s2\<rparr>)" by metis
    then have "syscall_vmap dest sz s = Some (s2\<lparr>curr_frame := Some (f\<lparr>EAX := dest\<rparr>)\<rparr>)"
      using run True s2 cur(6) by simp
    moreover have "allocated (km s) (addr_space P) 3 (range_pages dest sz) (km s2)"
      using al by (simp add: allocated_def)
    moreover have "s2\<lparr>curr_frame := Some (f\<lparr>EAX := dest\<rparr>)\<rparr> = s\<lparr>km := km s2, curr_frame := Some (f\<lparr>EAX := dest\<rparr>)\<rparr>"
    proof -
      have "s2 = s\<lparr>km := km s2\<rparr>" using al by simp
      then show ?thesis by (metis kstate.update_convs(1) kstate.surjective)
    qed
    ultimately show ?thesis using True by (simp add: m(2) [symmetric])
  qed
qed

text \<open>
  A range that wraps around the address space passes the test against \<open>KERNEL_VIRT_BASE\<close>; the
  loops over it are empty, and the call reports success without mapping anything.
\<close>

text \<open>
  C39. A range whose end wraps around passes the test against the kernel base: vmap of an unmapped
  first page then maps nothing and reports success.
\<close>

lemma syscall_vmap_wraps:
  assumes C: "in_call s (u # xs) f" and P: "P = process_at s (uid_pid u)" "pr_pid P = uid_pid u"
    and k: "kmem_ok (km s)" "pas_inv (km s) (addr_space P)"
    and r: "page_aligned dest" "unat dest < 0xFFFFF000" "sz mod ARCH_PGSIZE = 0" "2 ^ 32 \<le> unat dest + unat sz"
      "dest + sz \<le> KERNEL_VIRT_BASE"
    and n: "walk (mem (km s)) (addr_space P) dest = None"
  shows "\<exists>q. syscall_vmap dest sz s = Some (s\<lparr>km := window (km s) q, curr_frame := Some (f\<lparr>EAX := dest\<rparr>)\<rparr>)"
proof -
  note cur = in_call_curr [OF C, simplified]
  have t: "page_aligned (addr_space P)" "addr_space P \<noteq> 0" "tempmap_addr (km s) \<noteq> 0"
    using k by (simp_all add: kmem_ok_def pas_inv_def)
  have sz: "sz \<noteq> 0" using r(2,4) unat32_less [of dest] by auto
  have "unat (dest + sz) = unat dest + unat sz - 2 ^ 32" using r(4) by (simp add: unat_plus_if')
  then have e: "unat (dest + sz) < unat dest" using r(4) unat32_less [of sz] by simp
  have e2: "unat (dest + 4096) = unat dest + 4096" using r(2) by (simp add: unat_plus_if')
  have e': "\<not> dest < dest + sz" "\<not> dest + 4096 < dest + sz" using e e2 by (simp_all only: word_less_nat_alt)
  have a: "page_align dest = dest" using r(1) by (simp add: page_align_fixed)
  obtain q where "paging_is_mapped (km s) (addr_space P) dest = Some (False, window (km s) q)"
    using paging_is_mapped_walk [OF t r(1)] n by auto
  then have "virtual_is_mapped s (uid_pid u) dest sz = Some (0, s\<lparr>km := window (km s) q\<rparr>)"
    using get_dir_user [OF cur(5,4)] P(1) sz e'(2) a
    by (simp add: virtual_is_mapped_def virtual_is_mapped_pages_def) (subst is_mapped_loop.simps, simp)
  moreover have "virtual_alloc (s\<lparr>km := window (km s) q\<rparr>) (uid_pid u) dest sz = Some (s\<lparr>km := window (km s) q\<rparr>)"
    using get_dir_user [of "s\<lparr>km := window (km s) q\<rparr>" "uid_pid u"] cur(4,5) sz e'(1) a
    by (simp add: virtual_alloc_def) (subst page_loop.simps, simp)
  ultimately show ?thesis
    using r(3,5) sz a cur P by (auto simp: syscall_vmap_def the_process_ok not_less)
qed

subsection \<open>Privileges\<close>

text \<open>Physical memory is for drivers: for any other caller nothing but the result changes.\<close>

lemma syscall_pmap_driver:
  assumes C: "in_call s (u # xs) f" and p: "priv (process_at s (uid_pid u)) \<noteq> PRIV_DRIVER"
  shows "\<exists>code \<in> {EADDR, ESIZE, EALIGN, EPRIV}.
    syscall_pmap dest src sz s = Some (s\<lparr>curr_frame := Some (f\<lparr>EAX := code\<rparr>)\<rparr>)"
  using in_call_curr [OF C, simplified] p by (auto simp: syscall_pmap_def the_process_ok)

text \<open>Shared memory is for the port it is offered to.\<close>

lemma syscall_accept_offered:
  assumes C: "in_call s (u # xs) f" and I: "ids_ok s"
    and o: "live_uid s (ucast sid) \<longrightarrow> \<not> port_compare (shm_to (shm_offer (thread_at s (ucast sid)))) (port_of s u)"
  shows "\<exists>code \<in> {ESIZE, ENOTAVAIL, EPRIV}.
    syscall_accept sid dest sz s = Some (s\<lparr>curr_frame := Some (f\<lparr>EAX := code\<rparr>)\<rparr>)"
  using in_call_curr [OF C, simplified] port_from_uid_live [of s u] I o
  by (auto simp: syscall_accept_def thread_get_ok Let_def)

end
