(* ===== verification/Sys_Message.thy ===== *)
theory Sys_Message
  imports Sys_Process
begin

text \<open>The system calls on messages (\<open>kernel/core/system/message\<close>).\<close>

definition with_km :: "(kmem \<Rightarrow> kmem option) \<Rightarrow> kstate \<Rightarrow> kstate option" where
  "with_km f s = do { k \<leftarrow> f (km s); Some (s\<lparr>km := k\<rparr>) }"

subsection \<open>Sending\<close>

text \<open>
  What \<open>syscall_send\<close> does with a payload: the sender is taken from the run queue, and the code
  that ends the call instead when the payload is refused.
\<close>

definition send_block :: "thread_uid \<Rightarrow> u32 \<Rightarrow> u32 \<Rightarrow> kstate \<Rightarrow> (u32 option \<times> kstate) option" where
  "send_block caller_uid addr sz s =
     (if sz = 0 then Some (Some ESIZE, s)
      else do {
        (m, s) \<leftarrow> virtual_is_mapped s (uid_pid caller_uid) addr sz;
        if m \<noteq> 1 then Some (Some EADDR, s)
        else do {
          s \<leftarrow> scheduler_lock s;
          s \<leftarrow> scheduler_remove caller_uid s;
          caller \<leftarrow> the_thread s caller_uid;
          Some (None, upd_thread caller_uid
            (\<lambda>t. t\<lparr>th_state := THREAD_STATE_SENDING, payload_addr := addr, payload_size := sz\<rparr>) s)
        }
      })"

text \<open>The delivery of the message, which wakes a receiver that waits for it.\<close>

definition send_deliver :: "thread_uid \<Rightarrow> ipcport_t \<Rightarrow> umsg \<Rightarrow> kstate \<Rightarrow> kstate option" where
  "send_deliver target_uid caller_port src s = do {
     target \<leftarrow> the_thread s target_uid;
     let woken = (th_state target = THREAD_STATE_WAITING \<and> port_compare (wait_for target) caller_port);
     s \<leftarrow> message_add target_uid caller_port src woken s;
     if woken then scheduler_add target_uid s else Some s
   }"

definition syscall_send :: "u32 \<Rightarrow> kstate \<Rightarrow> kstate option" where
  "syscall_send src_ptr s = do {
     let caller_uid = scheduler_curr s;
     caller_port \<leftarrow> port_from_uid s caller_uid;
     (m, s) \<leftarrow> virtual_is_mapped s (uid_pid caller_uid) src_ptr MSG_SIZE;
     if m \<noteq> 1 then syscall_return_set EPARAM s
     else do {
       src \<leftarrow> msg_load (km s) src_ptr;
       if port_compare (um_port src) caller_port then syscall_return_set EPARAM s
       else do {
         target_uid \<leftarrow> port_to_uid s (um_port src) (uid_pid caller_uid);
         if uid_pid target_uid = 0 then syscall_return_set EINVALID s
         else do {
           target \<leftarrow> thread_get s target_uid;
           if target = None then syscall_return_set ENOTAVAIL s
           else do {
             target_proc \<leftarrow> the_process s (uid_pid target_uid);
             if unat (pr_msg_count target_proc) \<ge> PROCESS_MESSAGE_MAX then syscall_return_set ENORES s
             else do {
               s \<leftarrow> syscall_return_set ENONE s;
               (refused, s) \<leftarrow> (if um_buf src \<noteq> 0 then send_block caller_uid (um_buf src) (um_size src) s
                                else Some (None, s));
               case refused of
                 Some code \<Rightarrow> syscall_return_set code s
               | None \<Rightarrow> do {
                   s \<leftarrow> send_deliver target_uid caller_port src s;
                   unlock_if_locked s
                 }
             }
           }
         }
       }
     }
   }"

subsection \<open>Receiving\<close>

text \<open>
  The first part of \<open>syscall_recv\<close>: the payload of the message at the head of the queue, if its
  sender still exists, is copied and the sender resumes.  The result is the size received, or the
  code of the error that ends the call.
\<close>

definition recv_payload :: "thread_uid \<Rightarrow> thread_uid \<Rightarrow> u32 \<Rightarrow> kstate \<Rightarrow> ((u32 + u32) \<times> kstate) option" where
  "recv_payload caller_uid sender_uid dest s = do {
     sender \<leftarrow> the_thread s sender_uid;
     let addr_from = payload_addr sender;
     addr_to \<leftarrow> vld32 (km s) (dest + 20);
     let size_from = payload_size sender;
     size_to \<leftarrow> vld32 (km s) (dest + 24);
     if size_to = 0 \<or> size_to < size_from then Some (Inl ESIZE, s)
     else do {
       (m, s) \<leftarrow> virtual_is_mapped s (uid_pid caller_uid) addr_to size_from;
       if m \<noteq> 1 then Some (Inl EADDR, s)
       else do {
         sender_proc \<leftarrow> the_process s (th_owner sender);
         s \<leftarrow> with_km (payload_copy (addr_space sender_proc) addr_from addr_to (addr_to + size_from)) s;
         s \<leftarrow> scheduler_add sender_uid s;
         Some (Inr size_from, s)
       }
     }
   }"

definition syscall_recv :: "u32 \<Rightarrow> kstate \<Rightarrow> kstate option" where
  "syscall_recv dest s = do {
     let caller_uid = scheduler_curr s;
     (m, s) \<leftarrow> virtual_is_mapped s (uid_pid caller_uid) dest MSG_SIZE;
     if m \<noteq> 1 then syscall_return_set EPARAM s
     else do {
       caller \<leftarrow> the_thread s caller_uid;
       if th_msg_count caller = 0 then syscall_return_set ENOTAVAIL s
       else do {
         (has_payload, port) \<leftarrow> message_peek caller_uid s;
         sender_uid \<leftarrow> port_to_uid s port 0;
         (r, s) \<leftarrow> (if has_payload \<and> sender_uid \<noteq> 0 then recv_payload caller_uid sender_uid dest s
                    else Some (Inr 0, s));
         case r of
           Inl code \<Rightarrow> syscall_return_set code s
         | Inr recv_size \<Rightarrow> do {
             (msg, s) \<leftarrow> message_remove caller_uid s;
             s \<leftarrow> with_km (msg_store dest msg) s;
             syscall_return_set recv_size s
           }
       }
     }
   }"

definition syscall_peek :: "kstate \<Rightarrow> kstate option" where
  "syscall_peek s = do {
     let caller_uid = scheduler_curr s;
     caller \<leftarrow> the_thread s caller_uid;
     if th_msg_count caller = 0 then syscall_return_set ENOTAVAIL s
     else do {
       (has_payload, port) \<leftarrow> message_peek caller_uid s;
       sender_uid \<leftarrow> port_to_uid s port 0;
       if \<not> (has_payload \<and> sender_uid \<noteq> 0) then syscall_return_set 0 s
       else do {
         sender \<leftarrow> the_thread s sender_uid;
         syscall_return_set (payload_size sender) s
       }
     }
   }"

text \<open>The sender is read back from the destination, also when that is the null pointer.\<close>

definition syscall_drop :: "u32 \<Rightarrow> kstate \<Rightarrow> kstate option" where
  "syscall_drop info s = do {
     let caller_uid = scheduler_curr s;
     (m, s) \<leftarrow> virtual_is_mapped s (uid_pid caller_uid) info MSG_SIZE;
     if info \<noteq> 0 \<and> m \<noteq> 1 then syscall_return_set EPARAM s
     else do {
       caller \<leftarrow> the_thread s caller_uid;
       if th_msg_count caller = 0 then syscall_return_set ENOTAVAIL s
       else do {
         (msg, s) \<leftarrow> message_remove caller_uid s;
         s \<leftarrow> (if info \<noteq> 0 then with_km (msg_store info msg) s else Some s);
         from \<leftarrow> vld32 (km s) info;
         sender_uid \<leftarrow> port_to_uid s from (uid_pid caller_uid);
         s \<leftarrow> (if msg_payload msg \<and> sender_uid \<noteq> 0 then scheduler_add sender_uid s else Some s);
         syscall_return_set ENONE s
       }
     }
   }"


subsection \<open>A message reaches its receiver\<close>

text \<open>The message system does not look at the temporary mapping or at the interrupt frame.\<close>

lemma message_mapped_km:
  "mem k = mem (km s) \<Longrightarrow> kernel_dir k = kernel_dir (km s) \<Longrightarrow> message_mapped (s\<lparr>km := k\<rparr>) p i = message_mapped s p i"
  by (simp add: message_mapped_def kernel_mapped_def message_address_def block_address_def)

lemma ipc_km [simp]:
  "mem k = mem (km s) \<Longrightarrow> kernel_dir k = kernel_dir (km s) \<Longrightarrow> ipc_inv (s\<lparr>km := k\<rparr>) Q = ipc_inv s Q"
  "mem k = mem (km s) \<Longrightarrow> kernel_dir k = kernel_dir (km s) \<Longrightarrow> page0_mapped (s\<lparr>km := k\<rparr>) = page0_mapped s"
  "msg_used (s\<lparr>km := x\<rparr>) p = msg_used s p" "inbox (s\<lparr>km := x\<rparr>) u is = inbox s u is"
  by (simp_all add: ipc_inv_def msg_queue_def msg_used_def msg_nexts_def [abs_def] page0_mapped_def inbox_def message_mapped_km)

lemma message_mapped_frame: "message_mapped (s\<lparr>curr_frame := x\<rparr>) p i = message_mapped s p i"
  by (simp add: message_mapped_def kernel_mapped_def message_address_def block_address_def)

lemma ipc_frame [simp]:
  "ipc_inv (s\<lparr>curr_frame := x\<rparr>) Q = ipc_inv s Q" "page0_mapped (s\<lparr>curr_frame := x\<rparr>) = page0_mapped s"
  "msg_used (s\<lparr>curr_frame := x\<rparr>) p = msg_used s p" "inbox (s\<lparr>curr_frame := x\<rparr>) u is = inbox s u is"
proof -
  have m: "message_mapped (s\<lparr>curr_frame := x\<rparr>) = message_mapped s"
    by (simp add: fun_eq_iff message_mapped_def kernel_mapped_def message_address_def block_address_def)
  show "ipc_inv (s\<lparr>curr_frame := x\<rparr>) Q = ipc_inv s Q"
    by (simp add: ipc_inv_def msg_queue_def msg_used_def msg_nexts_def [abs_def] m)
  show "page0_mapped (s\<lparr>curr_frame := x\<rparr>) = page0_mapped s" by (simp add: page0_mapped_def m)
qed (simp_all add: msg_used_def inbox_def)

lemma get_fields [simp]:
  "process_get (s\<lparr>km := k\<rparr>) p = process_get s p" "process_get (s\<lparr>curr_frame := x\<rparr>) p = process_get s p"
  by (simp_all add: process_get_def cong: if_cong)

lemma thread_get_fields [simp]:
  "thread_get (s\<lparr>km := k\<rparr>) u = thread_get s u" "thread_get (s\<lparr>curr_frame := x\<rparr>) u = thread_get s u"
  by (simp_all add: thread_get_def cong: if_cong option.case_cong)

lemma port_to_uid_fields [simp]:
  "port_to_uid (s\<lparr>km := k\<rparr>) p q = port_to_uid s p q" "port_to_uid (s\<lparr>curr_frame := x\<rparr>) p q = port_to_uid s p q"
  by (simp_all add: port_to_uid_def the_process_def the_thread_def Let_def cong: if_cong option.case_cong)

text \<open>The request of a caller that passes the checks of \<open>send\<close>.\<close>

definition send_request :: "kstate \<Rightarrow> thread_uid \<Rightarrow> u32 \<Rightarrow> umsg \<Rightarrow> ipcport_t \<Rightarrow> thread_uid \<Rightarrow> bool" where
  "send_request s c ptr src port u \<longleftrightarrow>
     (let dir = addr_space (process_at s (uid_pid c)) in
      tempmap_addr (km s) \<noteq> 0 \<and> page_aligned dir \<and> dir \<noteq> 0 \<and> unat ptr + 28 \<le> 0xFFFFF000 \<and>
      (\<forall>v \<in> set (range_pages ptr MSG_SIZE). walk (mem (km s)) dir v \<noteq> None) \<and>
      (\<forall>q. msg_load (window (km s) q) ptr = Some src) \<and> port_from_uid s c = Some port \<and>
      \<not> port_compare (um_port src) port \<and> port_to_uid s (um_port src) (uid_pid c) = Some u \<and> live_uid s u)"

definition wakes :: "kstate \<Rightarrow> thread_uid \<Rightarrow> ipcport_t \<Rightarrow> bool" where
  "wakes s u port \<longleftrightarrow> th_state (thread_at s u) = THREAD_STATE_WAITING \<and> port_compare (wait_for (thread_at s u)) port"

lemma send_checked:
  assumes C: "in_call s (c # xs) f" and I: "ipc_inv s Q" and R: "send_request s c ptr src port u"
    and n: "card (msg_used s (uid_pid u)) < 160"
  shows "\<exists>q. syscall_send ptr s = do {
      (refused, s) \<leftarrow> (if um_buf src \<noteq> 0 then send_block c (um_buf src) (um_size src)
                         (s\<lparr>km := window (km s) q, curr_frame := Some (f\<lparr>EAX := ENONE\<rparr>)\<rparr>)
                       else Some (None, s\<lparr>km := window (km s) q, curr_frame := Some (f\<lparr>EAX := ENONE\<rparr>)\<rparr>));
      case refused of
        Some code \<Rightarrow> syscall_return_set code s
      | None \<Rightarrow> do { s \<leftarrow> send_deliver u port src s; unlock_if_locked s }
    }"
proof -
  note cur = in_call_curr [OF C, simplified]
  have lp: "live_pid s (uid_pid u)" "uid_pid u \<noteq> 0"
    using R live_uid_not_zero [of s u] by (auto simp: send_request_def Let_def live_uid_def)
  have cnt: "unat (pr_msg_count (process_at s (uid_pid u))) < 1024" using ipc_invD(5) [OF I lp(1)] n by simp
  obtain q where q: "virtual_is_mapped s (uid_pid c) ptr MSG_SIZE = Some (1, s\<lparr>km := window (km s) q\<rparr>)"
    using virtual_is_mapped_spec [OF cur(5,4) refl, of MSG_SIZE ptr] R by (auto simp: send_request_def Let_def)
  show ?thesis
    by (rule exI [of _ q])
      (use R lp cnt q cur in \<open>simp add: syscall_send_def send_request_def Let_def the_process_ok thread_get_ok\<close>)
qed


lemma send_deliver_delivers:
  assumes I: "ipc_inv s Q" "page0_mapped s" "sched_ok s" "sched_queue s xs" and u: "live_uid s u" "card (msg_used s (uid_pid u)) < 160"
  shows "\<exists>s'. send_deliver u port src s = Some s' \<and>
    delivered u (port, um_code src, um_args src, um_size src > 0) (wakes s u port) Q xs s s'"
proof -
  have "wakes s u port \<longrightarrow> \<not> running s u" by (simp add: wakes_def running_def)
  moreover have "table_ok s" using I(3) by (simp add: sched_ok_def)
  ultimately show ?thesis
    using deliver [OF I(1,2) u _ I(3,4), of "wakes s u port" port src] u(1)
    by (simp add: send_deliver_def Let_def the_thread_ok wakes_def)
qed

text \<open>
  A message without payload: it is in the receiver's queue when the call returns, a receiver that
  waits for it is runnable again, and the caller goes on with the result \<open>ENONE\<close>.
\<close>

text \<open>
  C1. A send without a payload returns, made by the running thread from a mapped message to a live
  thread other than itself whose process holds fewer than 160 messages (the slots on the page that
  is mapped): exactly one message with the sender's port, the code and the arguments is added to the
  receiver's queue in a free slot, at the head and together with waking the receiver when it waits
  for this sender, at the tail otherwise. All other queues, the run queue and all other threads are
  kept, and the caller gets ENONE. When the woken receiver has an empty queue with a stale head, as
  a thread has that never had a message, the message is its only one and links to the slot of that
  stale head; in every other case the queue invariant holds again.
\<close>

lemma syscall_send_delivers:
  assumes C: "in_call s (c # xs) f" and I: "ipc_inv s Q" "page0_mapped s" and R: "send_request s c ptr src port u"
    and n: "card (msg_used s (uid_pid u)) < 160" and p: "um_buf src = 0"
  shows "\<exists>q s'. syscall_send ptr s = Some s' \<and>
    delivered u (port, um_code src, um_args src, um_size src > 0) (wakes s u port) Q (c # xs)
      (s\<lparr>km := window (km s) q, curr_frame := Some (f\<lparr>EAX := ENONE\<rparr>)\<rparr>) s'"
proof -
  obtain q where q: "syscall_send ptr s = do {
      s \<leftarrow> send_deliver u port src (s\<lparr>km := window (km s) q, curr_frame := Some (f\<lparr>EAX := ENONE\<rparr>)\<rparr>);
      unlock_if_locked s }"
    using send_checked [OF C I(1) R n] p by auto
  let ?s = "s\<lparr>km := window (km s) q, curr_frame := Some (f\<lparr>EAX := ENONE\<rparr>)\<rparr>"
  have u: "live_uid s u" using R by (simp add: send_request_def Let_def)
  have w: "wakes ?s u port = wakes s u port" by (simp add: wakes_def)
  obtain s' where s': "send_deliver u port src ?s = Some s'"
      "delivered u (port, um_code src, um_args src, um_size src > 0) (wakes s u port) Q (c # xs) ?s s'"
    using send_deliver_delivers [of ?s Q "c # xs" u port src] I C u n w by (auto simp: in_call_def)
  then have "sched_queue s' (if wakes s u port then (c # xs) @ [u] else c # xs)" "locked s' = locked s"
    by (auto simp: delivered_def)
  then have "uid_pid (scheduler_curr s') \<noteq> 0"
    using sched_queue_nonempty [of s' "if wakes s u port then (c # xs) @ [u] else c # xs"] C
    by (simp add: scheduler_curr_def in_call_def)
  then show ?thesis using q s' by (auto simp: unlock_if_locked_def)
qed

subsection \<open>A sender with a payload waits\<close>

lemma message_mapped_active [simp]: "message_mapped (s\<lparr>active_thread := x\<rparr>) p i = message_mapped s p i"
  by (simp add: message_mapped_def kernel_mapped_def message_address_def block_address_def)

lemma scheduler_remove_cases:
  assumes "scheduler_remove u s = Some s'"
  obtains "s' = upd_thread u (\<lambda>t. t\<lparr>th_state := THREAD_STATE_OLD\<rparr>) (s\<lparr>active_thread := 0\<rparr>)"
  | a n p where "s' = upd_thread u (\<lambda>t. t\<lparr>th_state := THREAD_STATE_OLD\<rparr>)
      (upd_thread p (\<lambda>t. t\<lparr>sched_next := n\<rparr>) (upd_thread n (\<lambda>t. t\<lparr>sched_prev := p\<rparr>) (s\<lparr>active_thread := a\<rparr>)))"
proof -
  obtain t where t: "the_thread s u = Some t" using assms by (auto simp: scheduler_remove_def bind_eq_Some_conv)
  show thesis
  proof (cases "sched_next t = u")
    case True
    then show ?thesis using assms t that(1) by (auto simp: scheduler_remove_def bind_eq_Some_conv split: if_splits)
  next
    case False
    let ?s = "if active_thread s = u then s\<lparr>active_thread := sched_next t\<rparr> else s"
    have s': "s' = upd_thread u (\<lambda>t. t\<lparr>th_state := THREAD_STATE_OLD\<rparr>) (upd_thread (sched_prev t)
        (\<lambda>x. x\<lparr>sched_next := sched_next t\<rparr>) (upd_thread (sched_next t) (\<lambda>x. x\<lparr>sched_prev := sched_prev t\<rparr>) ?s))"
      using assms t False by (simp add: scheduler_remove_def bind_eq_Some_conv Let_def del: upd_thread_simps)
    show ?thesis
    proof (cases "active_thread s = u")
      case True
      then show ?thesis by (intro that(2) [of "sched_prev t" "sched_next t" "sched_next t"]) (simp add: s')
    next
      case False
      then show ?thesis by (intro that(2) [of "sched_prev t" "sched_next t" "active_thread s"]) (simp add: s')
    qed
  qed
qed

lemma lock_remove_frame:
  assumes "scheduler_lock s = Some s1" and "scheduler_remove u s1 = Some s2"
  shows "th_queue (thread_at s2 v) = th_queue (thread_at s v)" "process_at s2 = process_at s" "message_at s2 = message_at s"
    "live_uid s2 = live_uid s" "live_pid s2 = live_pid s" "table_ok s2 = table_ok s" "message_mapped s2 = message_mapped s"
    "km s2 = km s" "curr_frame s2 = curr_frame s"
proof -
  have "th_queue (thread_at s1 v) = th_queue (thread_at s v) \<and> process_at s1 = process_at s \<and> message_at s1 = message_at s \<and>
    live_uid s1 = live_uid s \<and> live_pid s1 = live_pid s \<and> table_ok s1 = table_ok s \<and> message_mapped s1 = message_mapped s \<and>
    km s1 = km s \<and> curr_frame s1 = curr_frame s"
    using assms(1) by (auto simp: scheduler_lock_def task_preserve_def bind_eq_Some_conv Let_def fun_eq_iff th_queue_def
        message_mapped_def kernel_mapped_def message_address_def block_address_def)
  moreover have "th_queue (thread_at s2 v) = th_queue (thread_at s1 v)"
    using assms(2) by (auto simp: scheduler_remove_def bind_eq_Some_conv Let_def th_queue_upd simp del: upd_thread_simps(1) split: if_splits)
  moreover have "message_at s2 p i = message_at s1 p i \<and> message_mapped s2 p i = message_mapped s1 p i \<and> table_ok s2 = table_ok s1" for p i
    using assms(2) by (elim scheduler_remove_cases) simp_all
  ultimately show "th_queue (thread_at s2 v) = th_queue (thread_at s v)" "process_at s2 = process_at s" "message_at s2 = message_at s"
    "live_uid s2 = live_uid s" "live_pid s2 = live_pid s" "table_ok s2 = table_ok s" "message_mapped s2 = message_mapped s"
    "km s2 = km s" "curr_frame s2 = curr_frame s"
    using scheduler_remove_frame [OF assms(2)] by (simp_all add: fun_eq_iff)
qed


lemma scheduler_unlock_frame:
  assumes "scheduler_unlock s = Some s'"
  shows "message_at s' = message_at s" "live_uid s' = live_uid s" "live_pid s' = live_pid s" "table_ok s' = table_ok s"
    "message_mapped s' = message_mapped s"
  using assms by (auto simp: scheduler_unlock_def task_switch_def bind_eq_Some_conv Let_def fun_eq_iff paging_dir_load_def
      message_mapped_def kernel_mapped_def message_address_def block_address_def)

lemma lock_remove_other:
  assumes "scheduler_lock s = Some s1" and "scheduler_remove (active_thread s) s1 = Some s2" and "v \<noteq> active_thread s"
  shows "th_call (thread_at s2 v) = th_call (thread_at s v)"
proof -
  have "th_call (thread_at s1 v) = th_call (thread_at s v)"
    using assms(1,3) by (auto simp: scheduler_lock_def task_preserve_def bind_eq_Some_conv Let_def)
  moreover from assms(2) have "th_call (thread_at s2 v) = th_call (thread_at s1 v)"
    by (elim scheduler_remove_cases) (simp_all add: assms(3) th_call_upd del: upd_thread_simps(1))
  ultimately show ?thesis by simp
qed

text \<open>
  A message with a payload: it is delivered, and the sender leaves the run queue until the payload
  is taken.  If nothing else can run, the kernel stops.
\<close>

definition payload_ok :: "kstate \<Rightarrow> thread_uid \<Rightarrow> umsg \<Rightarrow> bool" where
  "payload_ok s c src \<longleftrightarrow> um_buf src \<noteq> 0 \<and> um_size src \<noteq> 0 \<and> unat (um_buf src) + unat (um_size src) \<le> 0xFFFFF000 \<and>
     (\<forall>v \<in> set (range_pages (um_buf src) (um_size src)). walk (mem (km s)) (addr_space (process_at s (uid_pid c))) v \<noteq> None)"

text \<open>
  C2. A send with a payload in mapped memory blocks the caller, under the conditions on message and
  receiver of a plain send: the caller leaves the run queue in state SENDING with the address and
  size of the payload recorded and its registers saved with result ENONE, the message is put in a
  free slot and queued as for a plain send, and the receiver is woken if it waits for the caller.
  When no thread is left to run the call does not return.
\<close>

lemma syscall_send_blocks:
  assumes C: "in_call s (c # xs) f" and I: "ipc_inv s Q" "page0_mapped s" and R: "send_request s c ptr src port u"
    and n: "card (msg_used s (uid_pid u)) < 160" and p: "payload_ok s c src"
  shows "let ys = (if wakes s u port then xs @ [u] else xs) in
    if ys = [] then syscall_send ptr s = None
    else \<exists>s' i. syscall_send ptr s = Some s' \<and> sched_queue s' ys \<and>
      th_state (thread_at s' c) = THREAD_STATE_SENDING \<and>
      payload_addr (thread_at s' c) = um_buf src \<and> payload_size (thread_at s' c) = um_size src \<and>
      frame (th_task (thread_at s' c)) = f\<lparr>EAX := ENONE\<rparr> \<and>
      i \<notin> msg_used s (uid_pid u) \<and>
      queued u (port, um_code src, um_args src, um_size src > 0) (wakes s u port) Q i s s'"
proof -
  let ?ys = "if wakes s u port then xs @ [u] else xs" and ?f = "f\<lparr>EAX := ENONE\<rparr>"
  let ?g = "\<lambda>t. t\<lparr>th_state := THREAD_STATE_SENDING, payload_addr := um_buf src, payload_size := um_size src\<rparr>"
  let ?b = "(port, um_code src, um_args src, um_size src > 0)"
  note cur = in_call_curr [OF C, simplified]
  have u: "live_uid s u" using R by (simp add: send_request_def Let_def)
  obtain q where q: "syscall_send ptr s = do {
      (refused, s) \<leftarrow> send_block c (um_buf src) (um_size src) (s\<lparr>km := window (km s) q, curr_frame := Some ?f\<rparr>);
      case refused of
        Some code \<Rightarrow> syscall_return_set code s
      | None \<Rightarrow> do { s \<leftarrow> send_deliver u port src s; unlock_if_locked s }
    }"
    using send_checked [OF C I(1) R n] p by (auto simp: payload_ok_def)
  let ?s = "s\<lparr>km := window (km s) q, curr_frame := Some ?f\<rparr>"
  obtain r where r: "virtual_is_mapped ?s (uid_pid c) (um_buf src) (um_size src) = Some (1, ?s\<lparr>km := window (km ?s) r\<rparr>)"
    using virtual_is_mapped_spec [of ?s "uid_pid c" _ "um_size src" "um_buf src"] cur(4,5) R p
    by (auto simp: send_request_def payload_ok_def Let_def)
  let ?t = "?s\<lparr>km := window (km ?s) r\<rparr>"
  have C': "in_call ?t (c # xs) ?f" using C by (simp add: in_call_def)
  obtain s1 s2 where b: "scheduler_lock ?t = Some s1" "scheduler_remove c s1 = Some s2" "sched_ok s2" "sched_queue s2 xs"
      "the_thread s2 c \<noteq> None" "locked s2" "live_uid s2 = live_uid ?t" "frame (th_task (thread_at s2 c)) = ?f"
    using block_caller [OF C', of ?g] by auto
  note F = lock_remove_frame [OF b(1,2)]
  have O: "th_call (thread_at s2 v) = th_call (thread_at s v)" if "v \<noteq> c" for v
    using lock_remove_other [of ?t s1 s2 v] b(1,2) cur(2) that by simp
  let ?s3 = "upd_thread c ?g s2"
  have blk: "send_block c (um_buf src) (um_size src) ?s = Some (None, ?s3)"
    using r b p by (auto simp: send_block_def payload_ok_def)
  have c0: "c \<notin> set xs" using C by (auto simp: in_call_def sched_queue_def)
  have S3: "sched_ok ?s3" "sched_queue ?s3 xs" "locked ?s3"
    using sched_ok_upd [OF b(3)] sched_queue_upd_idle [OF b(4) c0] b(6) by auto
  have q3: "th_queue (thread_at ?s3 v) = th_queue (thread_at ?t v)" for v
    using F(1) [of v] by (cases "v = c") (simp_all add: th_queue_def)
  have I3: "ipc_inv ?s3 Q" by (rule ipc_inv_cong [OF _ q3]) (use I(1) F in \<open>simp_all add: fun_eq_iff\<close>)
  have M3: "page0_mapped ?s3" "msg_used ?s3 = msg_used s" "inbox ?s3 = inbox s" "live_uid ?s3 = live_uid s"
    using I(2) F by (simp_all add: page0_mapped_def msg_used_def [abs_def] inbox_def [abs_def] fun_eq_iff message_mapped_km
        message_mapped_frame)
  have ms: "message_at ?s3 = message_at s" using F(3) by (simp add: fun_eq_iff)
  have w: "wakes ?s3 u port = wakes s u port"
    using O [of u] cur(7) by (cases "u = c") (simp_all add: wakes_def th_call_def)
  have wc: "wakes s u port \<longrightarrow> u \<noteq> c" using cur(7) by (auto simp: wakes_def)
  obtain s4 where s4: "send_deliver u port src ?s3 = Some s4" "delivered u ?b (wakes s u port) Q xs ?s3 s4"
    using send_deliver_delivers [OF I3 M3(1) S3(1,2), of u port src] u n M3 w by auto
  then obtain i where D: "i \<notin> msg_used s (uid_pid u)" "queued u ?b (wakes s u port) Q i ?s3 s4"
      "sched_ok s4" "sched_queue s4 ?ys" "locked s4" "th_call (thread_at s4 c) = th_call (thread_at ?s3 c)" "curr_frame s4 = Some ?f"
    using S3(3) M3(2) wc F(9) unfolding delivered_def by auto
  have run: "syscall_send ptr s = scheduler_unlock s4"
    using q blk s4(1) D(5) by (simp add: unlock_if_locked_def scheduler_curr_def)
  show ?thesis
  proof (cases "?ys = []")
    case True
    then have "active_thread s4 = 0" using D(4) by (simp add: sched_queue_def)
    then show ?thesis using True run by (simp add: scheduler_unlock_def)
  next
    case False
    obtain s' where s': "scheduler_unlock s4 = Some s'" "sched_queue s' ?ys" "thread_at s' = thread_at s4" "process_at s' = process_at s4"
      using scheduler_unlock_queue [OF D(3,4) False D(7)] by blast
    note U = scheduler_unlock_frame [OF s'(1)]
    have i': "queued u ?b (wakes s u port) Q i s s'"
      by (rule queued_cong [OF D(2)]) (use s' U q3 [of u] M3(4) ms in \<open>simp_all add: th_queue_def\<close>)
    have c': "th_state (thread_at s' c) = THREAD_STATE_SENDING" "payload_addr (thread_at s' c) = um_buf src"
      "payload_size (thread_at s' c) = um_size src" "frame (th_task (thread_at s' c)) = ?f"
      using D(6) s'(3) b(8) by (simp_all add: th_call_def)
    show ?thesis
      unfolding Let_def if_not_P [OF False] using run s'(1,2) c' i' D(1) by (intro exI [of _ s'] exI [of _ i]) simp
  qed
qed

end
