(* ===== verification/Dispatch.thy ===== *)
theory Dispatch
  imports Sys_Memory Sys_Message
begin

text \<open>
  The way into the kernel: the table of system calls (\<open>kernel/core/system/syscalls.h\<close>), its
  dispatcher (\<open>sw/int/syscall.c\<close>), the exceptions (\<open>sw/int/exception.c\<close>) and the common entry of
  all interrupts (\<open>sw/int/callback.c\<close>).
\<close>

datatype syscall_fn =
    arg0 "kstate \<Rightarrow> kstate option"
  | arg1 "u32 \<Rightarrow> kstate \<Rightarrow> kstate option"
  | arg2 "u32 \<Rightarrow> u32 \<Rightarrow> kstate \<Rightarrow> kstate option"
  | arg3 "u32 \<Rightarrow> u32 \<Rightarrow> u32 \<Rightarrow> kstate \<Rightarrow> kstate option"

text \<open>Arguments of a narrower type are truncated by the callee.\<close>

definition syscall_table :: "syscall_fn list" where
  "syscall_table =
    [arg0 syscall_spawn,
     arg2 (\<lambda>a. syscall_launch (ucast a)),
     arg2 syscall_dispatch,
     arg1 (\<lambda>a. syscall_release (ucast a)),
     arg1 (\<lambda>a. syscall_kill (ucast a)),
     arg0 syscall_yield,
     arg1 syscall_wait,
     arg2 syscall_vmap,
     arg3 syscall_pmap,
     arg2 syscall_unmap,
     arg2 syscall_grant,
     arg1 syscall_share,
     arg3 syscall_accept,
     arg1 syscall_send,
     arg1 syscall_recv,
     arg0 syscall_peek,
     arg1 syscall_drop,
     arg1 syscall_svcown,
     arg1 syscall_svcid,
     arg3 syscall_sysio]"

abbreviation (input) SYSCALL_ISR :: u8 where "SYSCALL_ISR \<equiv> 0x95"

definition syscall_init :: "kstate \<Rightarrow> kstate option" where
  "syscall_init s = do {
     s \<leftarrow> isr_reserve SYSCALL_ISR s;
     s \<leftarrow> idt_entry_priv_set (unat SYSCALL_ISR) 3 s;
     let s = int_callback_set SYSCALL_ISR False (Some dispatch_call_h) s;
     Some (s\<lparr>table_size := table_size s + length (drop (table_size s) syscall_table)\<rparr>)
   }"

definition dispatch_call :: "kstate \<Rightarrow> kstate option" where
  "dispatch_call s = do {
     f \<leftarrow> int_callback_frame_get s;
     let index = unat (EAX f);
     if index \<ge> table_size s then Some s
     else do {
       call \<leftarrow> arr_get syscall_table index;
       case call of
         arg0 g \<Rightarrow> g s
       | arg1 g \<Rightarrow> g (EBX f) s
       | arg2 g \<Rightarrow> g (EBX f) (ECX f) s
       | arg3 g \<Rightarrow> g (EBX f) (ECX f) (EDX f) s
     }
   }"

subsection \<open>Exceptions\<close>

definition exception_callback :: "u8 \<Rightarrow> kstate \<Rightarrow> kstate option" where
  "exception_callback isr s =
     (if isr \<in> {0, 4, 5, 13} then exception_userfault s
      else if isr = 14 then exception_pagefault s
      else if isr \<in> {1, 3} then exception_debug s
      else if isr \<in> {6, 7, 16, 19, 17} then Some s
      else None)"

abbreviation (input) REP_THRESHOLD :: int where "REP_THRESHOLD \<equiv> 1"

text \<open>
  The only labels of the outer \<open>switch\<close> of \<open>exception_info\<close> are the non-maskable interrupt, the
  page fault and \<open>default\<close>; the inner ones cannot be reached from it.
\<close>

definition exception_info :: "u8 \<Rightarrow> kstate \<Rightarrow> kstate option" where
  "exception_info isr s = do {
     f \<leftarrow> int_callback_frame_get s;
     dassert (isr = 2 \<or> isr = 14);
     if rep_last s = uint isr then do {
       let s = s\<lparr>rep_count := rep_count s + 1\<rparr>;
       dassert (rep_count s \<le> REP_THRESHOLD);
       Some s
     }
     else Some (s\<lparr>rep_last := uint isr, rep_count := 0\<rparr>)
   }"

subsection \<open>Interrupts\<close>

definition run_handler :: "handler \<Rightarrow> u8 \<Rightarrow> u8 \<Rightarrow> kstate \<Rightarrow> kstate option" where
  "run_handler h isr irq s = (case h of
     exception_callback_h \<Rightarrow> exception_callback isr s
   | exception_info_h \<Rightarrow> exception_info isr s
   | pic_eoi_h \<Rightarrow> with_io (\<lambda>i. Some (pic_eoi irq i)) s
   | irq_callback_h \<Rightarrow> irq_callback irq s
   | timer_tick_h \<Rightarrow> timer_tick s
   | dispatch_call_h \<Rightarrow> dispatch_call s)"

text \<open>The frame is on the stack of the stub, which restores the registers from it.\<close>

definition int_callback_common :: "int_frame \<Rightarrow> kstate \<Rightarrow> (int_frame \<times> kstate) option" where
  "int_callback_common f s = do {
     let isr = (ucast (int_num f) :: u8);
     let s = s\<lparr>curr_frame := Some f\<rparr>;
     s \<leftarrow> (case cb_handle s isr of None \<Rightarrow> Some s | Some h \<Rightarrow> run_handler h isr (irq_from_isr isr s) s);
     s \<leftarrow> (case cb_eoi s isr of None \<Rightarrow> Some s | Some h \<Rightarrow> run_handler h isr (irq_from_isr isr s) s);
     f \<leftarrow> curr_frame s;
     Some (f, s\<lparr>curr_frame := None\<rparr>)
   }"


subsection \<open>Interrupts at work\<close>

text \<open>The table has 20 calls; a number beyond it changes nothing.\<close>

lemma dispatch_unknown:
  assumes "table_size s = length syscall_table" and "curr_frame s = Some f" and "EAX f \<ge> 20"
  shows "dispatch_call s = Some s"
  using assms by (simp add: dispatch_call_def int_callback_frame_get_def syscall_table_def word_le_nat_alt)

lemma timer_tick_cb: "timer_tick s = Some s' \<Longrightarrow> cb_eoi s' = cb_eoi s \<and> irq_map s' = irq_map s \<and> io_st s' = io_st s"
  by (auto simp: timer_tick_def scheduler_next_def task_switch_def task_preserve_def bind_eq_Some_conv Let_def split: if_splits)

lemma timer_tick_switch:
  assumes I: "clock_inv s" and q: "sched_queue s xs" and ne: "xs \<noteq> []" and f: "curr_frame s = Some f"
  shows "\<exists>s'. timer_tick s = Some s' \<and> clock_inv s' \<and> sched_queue s' (if active_slice s = 1 then rotate1 xs else xs) \<and>
    curr_frame s' = Some (if active_slice s = 1 \<and> length xs \<noteq> 1 then task_load (th_task (thread_at s (hd (tl xs)))) f else f) \<and>
    (active_slice s = 1 \<and> length xs \<noteq> 1 \<longrightarrow> frame (th_task (thread_at s' (hd xs))) = f)"
proof -
  have th: "the_thread s (active_thread s) = Some (thread_at s (active_thread s))"
    using I sched_queue_nonempty [OF q ne] by (simp add: the_thread_ok clock_inv_def sched_ok_def running_def)
  show ?thesis
  proof (cases "active_slice s = 1")
  case False
  then have "1 < active_slice s" using clock.slice_pos [OF I q ne] by simp
  then obtain s' where s': "timer_tick s = Some s'" "clock_inv s'" "sched_queue s' xs" using timer_tick_running [OF I q ne] by blast
  moreover have "timeslice (thread_at s (active_thread s)) - 1 \<noteq> 0"
    using False by (auto simp: active_slice_def)
  then have "curr_frame s' = curr_frame s" using s'(1) th by (auto simp: timer_tick_def Let_def)
  ultimately show ?thesis using False f by auto
next
  case True
  obtain s' where s': "timer_tick s = Some s'" "clock_inv s'" "sched_queue s' (rotate1 xs)" using timer_tick_expired [OF I q ne True] by blast
  define s1 where "s1 = upd_thread (active_thread s) (\<lambda>t. t\<lparr>timeslice := timeslice t - 1\<rparr>) s"
  have "timeslice (thread_at s (active_thread s)) = 1" using True by (simp add: active_slice_def word_unat_eq_iff)
  then have tick: "timer_tick s = scheduler_next s1" using th by (simp add: timer_tick_def s1_def Let_def)
  have r1: "running s1 = running s" "sched_link s1 = sched_link s"
    by (auto simp: running_def sched_link_def s1_def fun_eq_iff)
  then have q1: "sched_queue s1 xs" and ok1: "sched_ok s1" and f1: "curr_frame s1 = Some f"
    using q I f by (auto simp: sched_queue_def s1_def sched_ok_def clock_inv_def)
  have "if length xs = 1 then curr_frame s' = Some f else switched s1 (hd xs) (hd (tl xs)) f s'"
    using scheduler_next_queue [OF ok1 q1 ne f1] s'(1) tick by auto
  then show ?thesis using s' True by (auto simp: switched_def s1_def split: if_splits)
  qed
qed

text \<open>
  The timer interrupt: the interrupted thread goes on until its slice has run out; then its context
  is saved, and the interrupt returns into the next thread of the queue.
\<close>

text \<open>
  C7. A timer interrupt on IRQ 0 returns, and the only access to a device is the end-of-interrupt
  command 0x20 to port 0x20 of the master controller: while the slice of the active thread is not
  used up the queue and the registers are unchanged; when it is, the run queue rotates by one, the
  interrupted registers are saved in the thread that ran and the registers returned to are those of
  the next thread.
\<close>

lemma timer_interrupt:
  assumes q: "sched_ok s" "slices_ok s" "sched_queue s xs" "xs \<noteq> []"
    and cb: "cb_handle s 32 = Some timer_tick_h" "cb_eoi s 32 = Some pic_eoi_h" "irq_map s 32 = 0" and f: "int_num f = 32"
  shows "\<exists>f' s'. int_callback_common f s = Some (f', s') \<and> sched_ok s' \<and> slices_ok s' \<and>
    io_trace (io_st s') = io_trace (io_st s) @ [IoOut 8 0x20 0x20] \<and>
    (if 1 < active_slice s then sched_queue s' xs \<and> f' = f
     else sched_queue s' (rotate1 xs) \<and>
       (if length xs = 1 then f' = f
        else f' = task_load (th_task (thread_at s (hd (tl xs)))) f \<and> frame (th_task (thread_at s' (hd xs))) = f))"
proof -
  let ?s = "s\<lparr>curr_frame := Some f\<rparr>"
  have I: "clock_inv ?s" "sched_queue ?s xs" "active_slice ?s = active_slice s"
    using q by (auto simp: clock_inv_def slices_ok_def running_def active_slice_def)
  obtain s1 where s1: "timer_tick ?s = Some s1" "clock_inv s1" "sched_queue s1 (if active_slice s = 1 then rotate1 xs else xs)"
    "curr_frame s1 = Some (if active_slice s = 1 \<and> length xs \<noteq> 1 then task_load (th_task (thread_at s (hd (tl xs)))) f else f)"
    "active_slice s = 1 \<and> length xs \<noteq> 1 \<longrightarrow> frame (th_task (thread_at s1 (hd xs))) = f"
    using timer_tick_switch [OF I(1,2) q(4), of f] unfolding I(3) by (elim exE conjE meta_impE) (simp, rule that, simp_all)
  let ?s' = "s1\<lparr>io_st := pic_eoi (irq_from_isr 32 s1) (io_st s1), curr_frame := None\<rparr>"
  have "int_callback_common f s = Some (the (curr_frame s1), ?s')"
    using cb f s1(1,4) timer_tick_cb [OF s1(1)]
    by (simp add: int_callback_common_def run_handler_def with_io_def)
  moreover have "io_trace (io_st ?s') = io_trace (io_st s) @ [IoOut 8 0x20 0x20]"
    using timer_tick_cb [OF s1(1)] cb(3) by (simp add: irq_from_isr_def pic_eoi_def pic_reset_def outb_def Let_def)
  moreover have "sched_ok ?s' = sched_ok s1" "slices_ok ?s' = slices_ok s1" "sched_queue ?s' = sched_queue s1"
    by (simp_all add: sched_ok_def slices_ok_def sched_queue_def running_def sched_link_def [abs_def] fun_eq_iff)
  moreover have "0 < active_slice s" using clock.slice_pos [OF I(1,2) q(4)] I(3) by simp
  ultimately show ?thesis using s1 by (cases "active_slice s = 1") (auto simp: clock_inv_def)
qed

subsection \<open>Exceptions at work\<close>

text \<open>
  With the handler that prints an exception installed, every exception but the page fault and the
  non-maskable interrupt stops the kernel, also when it comes from a user process.
\<close>

lemma upd_process_eoi [simp]: "cb_eoi (upd_process p g s) = cb_eoi s"
  by (simp add: upd_process_def upd_block_def)

lemma lock_eoi:
  "scheduler_lock s = Some s' \<Longrightarrow> cb_eoi s' = cb_eoi s" "scheduler_unlock s = Some s' \<Longrightarrow> cb_eoi s' = cb_eoi s"
  "scheduler_add u s = Some s' \<Longrightarrow> cb_eoi s' = cb_eoi s" "scheduler_remove u s = Some s' \<Longrightarrow> cb_eoi s' = cb_eoi s"
  by (auto simp: scheduler_lock_def scheduler_unlock_def scheduler_add_def task_preserve_def task_switch_def bind_eq_Some_conv Let_def
      elim!: scheduler_remove_cases split: if_splits)

lemma purge_eoi: "scheduler_purge pid s = Some s' \<Longrightarrow> cb_eoi s' = cb_eoi s"
  unfolding scheduler_purge_def bind_eq_Some_conv
  by (elim exE conjE, erule for_each_inv [where I = "\<lambda>t. cb_eoi t = cb_eoi s"])
    (auto simp: bind_eq_Some_conv Let_def split: if_splits dest!: lock_eoi(4))

lemma thread_kill_eoi: "thread_kill u s = Some s' \<Longrightarrow> cb_eoi s' = cb_eoi s"
  by (auto simp: thread_kill_def bind_eq_Some_conv)

lemma process_kill_eoi:
  assumes "process_kill pid s = Some s'"
  shows "cb_eoi s' = cb_eoi s"
proof -
  obtain s1 bm k where k: "kill_threads pid [0..<64] s = Some s1" and
      "virtual_unmap (s1\<lparr>block_map := bm, km := k\<rparr>) 0 (block_address (s1\<lparr>block_map := bm, km := k\<rparr>) (unat pid)) 0x9000 = Some s'"
    using assms unfolding process_kill_def kill_threads_def [symmetric] by (auto simp: bind_eq_Some_conv Let_def)
  then have "cb_eoi s' = cb_eoi s1" using virtual_unmap_km by fastforce
  moreover have "cb_eoi s1 = cb_eoi s"
    by (rule for_each_inv [where I = "\<lambda>t. cb_eoi t = cb_eoi s", OF k [unfolded kill_threads_def]])
      (auto simp: bind_eq_Some_conv split: if_splits dest: thread_kill_eoi)
  ultimately show ?thesis by simp
qed

lemma internal_tkill_eoi: "internal_tkill u s = Some s' \<Longrightarrow> cb_eoi s' = cb_eoi s"
  by (auto simp: internal_tkill_def unlock_if_locked_def bind_eq_Some_conv Let_def split: if_splits
      dest!: lock_eoi purge_eoi process_kill_eoi thread_kill_eoi)

lemma upd_message_eoi [simp]: "cb_eoi (upd_message p i g s) = cb_eoi s"
  by (simp add: upd_message_def upd_block_def)

lemma message_add_eoi: "message_add u p m h s = Some s' \<Longrightarrow> cb_eoi s' = cb_eoi s"
  by (auto simp: message_add_def message_link_def message_set_def bind_eq_Some_conv Let_def split: if_splits)

lemma report_death_eoi: "report_death pid s = Some s' \<Longrightarrow> cb_eoi s' = cb_eoi s"
  by (auto simp: report_death_def service_get_def internal_ksend_def bind_eq_Some_conv Let_def split: if_splits
      dest!: message_add_eoi lock_eoi)

lemma exception_callback_eoi: "exception_callback isr s = Some s' \<Longrightarrow> cb_eoi s' = cb_eoi s"
  by (auto simp: exception_callback_def exception_userfault_def exception_pagefault_def exception_debug_def Let_def
      bind_eq_Some_conv split: if_splits dest!: internal_tkill_eoi report_death_eoi)

text \<open>
  C37. Any processor exception other than NMI and page fault stops the kernel: the nested switch of
  exception_info reaches its panic for them.
\<close>

lemma exception_stops:
  assumes "int_num f < 32" and "int_num f \<noteq> 2" and "int_num f \<noteq> 14"
    and "cb_handle s (ucast (int_num f)) = Some exception_callback_h" and "cb_eoi s (ucast (int_num f)) = Some exception_info_h"
  shows "int_callback_common f s = None"
proof -
  have "exception_info (ucast (int_num f)) t = None" for t
  proof -
    have "unat (ucast (int_num f) :: u8) = unat (int_num f)" using assms(1) by (simp add: unsigned_ucast_eq take_bit_eq_mod word_less_nat_alt)
    then have "(ucast (int_num f) :: u8) \<noteq> 2" "(ucast (int_num f) :: u8) \<noteq> 14" using assms(2,3) by (auto simp: word_unat_eq_iff)
    then show ?thesis by (cases "curr_frame t") (auto simp: exception_info_def int_callback_frame_get_def)
  qed
  then show ?thesis
    using assms(4,5) exception_callback_eoi [of "ucast (int_num f)" "s\<lparr>curr_frame := Some f\<rparr>"]
    by (cases "exception_callback (ucast (int_num f)) (s\<lparr>curr_frame := Some f\<rparr>)")
      (auto simp: int_callback_common_def run_handler_def Let_def)
qed

end
