(* ===== verification/Sample_State.thy ===== *)
theory Sample_State
  imports Dispatch
begin

text \<open>
  A small state of the kernel on which the hypotheses of the properties hold: two processes, 2 and
  257, each with one thread, in the middle of a system call of the first one.  All of memory is
  mapped: every byte is 1, so that every page table entry is present.
\<close>

definition sample_map :: bmstack where
  "sample_map = \<lparr>bms_base = Some (\<lparr>bme_next = None, bme_bitmap = 7\<rparr> # replicate 7 \<lparr>bme_next = None, bme_bitmap = 0\<rparr> @
     \<lparr>bme_next = None, bme_bitmap = 2\<rparr> # replicate 23 \<lparr>bme_next = None, bme_bitmap = 0\<rparr>), bms_head = None\<rparr>"

definition sample_process :: "nat \<Rightarrow> process" where
  "sample_process n = zero_process\<lparr>pr_pid := of_nat n, pr_version := 0x40, priv := (if n = 257 then PRIV_SERVER else PRIV_NONE), addr_space := 0x1000000,
     pr_thread_count := 1, pr_thread_bitmap := [1, 0]\<rparr>"

definition sample_thread :: "nat \<Rightarrow> thread" where
  "sample_thread n = zero_thread\<lparr>th_version := 1, th_owner := of_nat n, th_msg_head := - 1, th_msg_tail := - 1\<rparr>"

definition sample_kmem :: "memory \<Rightarrow> kmem" where
  "sample_kmem m = \<lparr>region_st = region_boot, phys_st = phys_boot, mem = m, cr3 = 0x1000000, cr4 = 0,
     kernel_dir = 0x1000000, tempmap_addr = 0xE0000000, temp_low = 0, temp_high = 0\<rparr>"

definition sample :: "(nat \<Rightarrow> thread) \<Rightarrow> kmem \<Rightarrow> kstate" where
  "sample T k = \<lparr>km = k, block_map = sample_map, blocks_addr = 0xD0000000, block_versions = (\<lambda>_. 0x40),
     blocks = (\<lambda>n. \<lparr>bd_process = sample_process n, bd_messages = (\<lambda>_. zero_message), bd_threads = (\<lambda>i. if i = 0 then T n else sample_thread n)\<rparr>),
     active_thread = 2, locked = False, service_ids = (\<lambda>_. 0),
     cb_handle = (\<lambda>_. Some timer_tick_h), cb_eoi = (\<lambda>_. Some pic_eoi_h), curr_frame = Some zero_frame,
     isr_levels = replicate 16 0, irq_map = (\<lambda>_. 0), isr_map = (\<lambda>_. 0), table_size = 20, rep_last = - 1, rep_count = 0,
     io_st = \<lparr>io_trace = [], io_dev = (\<lambda>_ _. 0)\<rparr>, cr2 = 0, gdt_entries = [], idt_entries = [], gdtr = None, idtr = None,
     kernel_task = tss_init 0, task_reg = 0, user_start = None\<rparr>"

lemma sample_words: "bms_words sample_map = 7 # replicate 7 0 @ 2 # replicate 23 0"
  by (simp add: bms_words_def sample_map_def)

lemma bit_7: "bit (7 :: int) n \<longleftrightarrow> n < 3" and bit_2: "bit (2 :: int) n \<longleftrightarrow> n = 1"
proof -
  have "(7 :: int) = mask 3" by (simp add: mask_eq_exp_minus_1)
  then show "bit (7 :: int) n \<longleftrightarrow> n < 3" by (simp only: bit_mask_iff) simp
  show "bit (2 :: int) n \<longleftrightarrow> n = 1" using bit_exp_iff [of 1 n, where 'a = int] by simp
qed

lemma sample_used: "i \<in> bmstack_used sample_map \<longleftrightarrow> i \<in> {0, 1, 2, 257}"
proof -
  have d: "i = 32 * (i div 32) + i mod 32" "i mod 32 < 32" by simp_all
  have "i \<in> bmstack_used sample_map \<longleftrightarrow> i < 1024 \<and> (i div 32 = 0 \<and> i mod 32 < 3 \<or> i div 32 = 8 \<and> i mod 32 = 1)"
    by (auto simp: bmstack_used_def bitmap_bits_def sample_words nth_Cons' nth_append bit_simps bit_7 bit_2 div_less_length_iff
        split: if_splits)
  also have "\<dots> \<longleftrightarrow> i \<in> {0, 1, 2, 257}"
    by (auto; presburger)
  finally show ?thesis .
qed

lemma sample_cap: "bmstack_cap sample_map = 1024"
  by (simp add: bmstack_cap_def sample_words)

lemma sample_winv: "bmstack_winv sample_map"
  by (auto simp: bmstack_winv_def linked_def sample_map_def intro!: exI [of _ "[]"])

lemma sample_table [simp]: "table_ok (sample T m)"
  by (simp add: table_ok_def sample_def sample_winv sample_cap sample_process_def zero_process_def)

lemma sample_live_pid [simp]: "live_pid (sample T m) p \<longleftrightarrow> p \<in> {2, 257}"
  by (auto simp: live_pid_def sample_def sample_used word_unat_eq_iff)

lemma sample_bits: "bitmap_bits [1, 0] = {0}"
  by (auto simp: bitmap_bits_def nth_Cons' bit_simps split: if_splits) presburger?

lemma sample_live_uid [simp]: "live_uid (sample T m) u \<longleftrightarrow> u \<in> {2, 257}"
proof -
  have "live_uid (sample T m) u \<longleftrightarrow> uid_pid u \<in> {2, 257} \<and> uid_tid u = 0"
    by (simp add: live_uid_def) (simp add: sample_def sample_process_def sample_bits unat_eq_zero)
  moreover have "uid_pid 2 = 2" "uid_tid 2 = 0" "uid_pid 257 = 257" "uid_tid 257 = 0"
    "mk_uid 2 0 = 2" "mk_uid 257 0 = 257"
    by (simp_all add: uid_pid_def uid_tid_def mk_uid_def)
  ultimately show ?thesis by (metis insert_iff mk_uid_pid_tid singletonD)
qed

lemma sample_fields [simp]:
  "thread_at (sample T m) u = (if uid_tid u = 0 then T (unat (uid_pid u)) else sample_thread (unat (uid_pid u)))" "process_at (sample T m) p = sample_process (unat p)"
  "message_at (sample T m) p i = zero_message"
  "active_thread (sample T m) = 2" "locked (sample T m) = False" "curr_frame (sample T m) = Some zero_frame"
  "km (sample T m) = m" "cb_handle (sample T m) a = Some timer_tick_h" "cb_eoi (sample T m) a = Some pic_eoi_h"
  "uid_pid 2 = 2" "uid_tid 2 = 0" "uid_pid 257 = 257" "uid_tid 257 = 0"
  by (simp_all add: sample_def thread_at_def process_at_def message_at_def uid_pid_def uid_tid_def unat_eq_zero)


subsection \<open>Memory\<close>

text \<open>Memory of ones, except possibly for one word, the pointer to a payload.\<close>

definition sample_mem :: "u8 \<Rightarrow> memory" where
  "sample_mem b a = (if 0x01010FF4 \<le> a \<and> a < 0x01010FF8 then b else 1)"

abbreviation sample_km :: "u8 \<Rightarrow> kmem" where
  "sample_km b \<equiv> sample_kmem (sample_mem b)"

lemma ld32_ones: "(\<And>k. k < 4 \<Longrightarrow> m (a + of_nat k) = 1) \<Longrightarrow> ld32 m a = 0x01010101"
proof -
  assume m: "\<And>k. k < 4 \<Longrightarrow> m (a + of_nat k) = 1"
  have "m a = 1" "m (a + 1) = 1" "m (a + 2) = 1" "m (a + 3) = 1"
    using m [of 0] m [of 1] m [of 2] m [of 3] by simp_all
  then show ?thesis by (simp add: ld32_def)
qed

lemma sample_ent:
  assumes "page_aligned d" and "i < 1024" and "d \<noteq> 0x01010000 \<or> i \<noteq> 1021"
  shows "ent (sample_mem b) d i = 0x01010101"
  unfolding ent_def
proof (rule ld32_ones)
  fix k :: nat
  assume k: "k < 4"
  have "4096 dvd unat d" using assms(1) by (simp add: page_aligned_iff mod_eq_0_iff_dvd)
  then obtain n where n: "unat d = 4096 * n" by (rule dvdE)
  then have n': "n < 1048576" using unat32_less [of d] by simp
  have u: "unat (ent_addr d i + of_nat k) = 4096 * n + 4 * i + k"
    using assms(2) k n n' by (simp add: ent_addr_def unat_word_ariths unat_of_nat)
  have "\<not> (0x01010FF4 \<le> 4096 * n + 4 * i + k \<and> 4096 * n + 4 * i + k < 0x01010FF8)"
  proof
    assume a: "0x01010FF4 \<le> 4096 * n + 4 * i + k \<and> 4096 * n + 4 * i + k < 0x01010FF8"
    then have "n = 4112" using assms(2) k by linarith
    moreover from this have "i = 1021" using a k by linarith
    ultimately show False using assms(3) n by (simp add: word_unat_eq_iff)
  qed
  then show "sample_mem b (ent_addr d i + of_nat k) = 1"
    unfolding sample_mem_def word_le_nat_alt word_less_nat_alt u by auto
qed

lemma sample_walk: "tbl_index v \<noteq> 1021 \<Longrightarrow> walk (sample_mem b) 0x1000000 v = Some 0x01010101"
proof -
  assume t: "tbl_index v \<noteq> 1021"
  have "page_aligned (0x1000000 :: u32)" "page_aligned (0x01010000 :: u32)" by (simp_all add: page_aligned_def)
  then have "ent (sample_mem b) 0x1000000 (dir_index v) = 0x01010101" "ent (sample_mem b) 0x01010000 (tbl_index v) = 0x01010101"
    using sample_ent [of "0x1000000" "dir_index v" b] sample_ent [of "0x01010000" "tbl_index v" b] t
      dir_index_less [of v] tbl_index_less [of v] by simp_all
  moreover have "ent_present 0x01010101" "ENTRY_ADDR (ent_frame 0x01010101) = 0x01010000"
    by (simp_all add: ent_present_def ENTRY_ADDR_def ent_frame_def)
  ultimately show ?thesis by (simp add: walk_def table_of_def Let_def)
qed

lemma tbl_index_page: "unat v = 4096 * n + x \<Longrightarrow> x < 4096 \<Longrightarrow> tbl_index v = n mod 1024"
  by (simp add: tbl_index_nat)

lemma sample_message_mapped:
  assumes "p \<in> {2, 257}" and "i < 160"
  shows "message_mapped (sample T (sample_km b)) p i"
proof -
  have o: "message_offset i = 236 + 24 * i" by (simp add: message_offset_def)
  have b: "block_address (sample T (sample_km b)) (unat p) = 0xD0000000 + 0x9000 * of_nat (unat p)"
    by (simp add: block_address_def sample_def index_to_addr_def)
  have u: "unat (message_address (sample T (sample_km b)) p i + of_nat k) = 4096 * (0xD0000 + 9 * unat p) + (236 + 24 * i + k)"
    if "k < 24" for k
    using assms that by (auto simp: message_address_def b o unat_word_ariths unat_of_nat)
  have "kernel_mapped (sample T (sample_km b)) (message_address (sample T (sample_km b)) p i + of_nat k)" if "k < 24" for k
  proof -
    have "tbl_index (message_address (sample T (sample_km b)) p i + of_nat k) = (0xD0000 + 9 * unat p) mod 1024"
      by (rule tbl_index_page [OF u [OF that]]) (use assms that in simp)
    then show ?thesis
      using assms(1) sample_walk [of "message_address (sample T (sample_km b)) p i + of_nat k" b]
      by (auto simp: kernel_mapped_def sample_kmem_def)
  qed
  from this [of 0] this [of 23] show ?thesis using assms(2) by (simp add: message_mapped_def)
qed

lemma sample_page0 [simp]: "page0_mapped (sample T (sample_km b))"
  using sample_message_mapped by (auto simp: page0_mapped_def)


subsection \<open>Queues\<close>

text \<open>Thread 257 waits for any message, or both threads are runnable; the slice of the first runs out.\<close>

definition T_wait :: "nat \<Rightarrow> thread" where
  "T_wait n = (if n = 2 then (sample_thread 2)\<lparr>th_state := THREAD_STATE_ACTIVE, timeslice := 5, sched_next := 2, sched_prev := 2\<rparr>
     else (sample_thread n)\<lparr>th_state := THREAD_STATE_WAITING, wait_for := IPORT_ANY\<rparr>)"

definition T_run :: "nat \<Rightarrow> thread" where
  "T_run n = (let other = (if n = 2 then 257 else 2) in
     (sample_thread n)\<lparr>th_state := THREAD_STATE_ACTIVE, timeslice := (if n = 2 then 1 else 5), sched_next := other, sched_prev := other\<rparr>)"

lemma sample_no_messages: "msg_used (sample T m) p = {}"
  by (auto simp: msg_used_def bitmap_bits_def sample_process_def zero_process_def)

lemma sample_ipc [simp]: "(\<And>n. th_msg_count (T n) = 0) \<Longrightarrow> ipc_inv (sample T m) (\<lambda>_. [])"
  by (auto simp: ipc_inv_def msg_queue_def sample_no_messages) (auto simp: sample_process_def zero_process_def)

lemma T_wait_ipc [simp]: "th_msg_count (T_wait n) = 0" and T_run_ipc [simp]: "th_msg_count (T_run n) = 0"
  by (simp_all add: T_wait_def T_run_def sample_thread_def zero_thread_def Let_def)

lemma T_wait_in_call: "in_call (sample T_wait m) [2] zero_frame"
proof -
  have "sched_ok (sample T_wait m)"
    by (auto simp: sched_ok_def T_wait_def sample_thread_def zero_thread_def)
  moreover have "sched_queue (sample T_wait m) [2]"
    by (auto simp: sched_queue_def running_def cyclic_def sched_link_def T_wait_def split: if_splits)
  ultimately show ?thesis by (simp add: in_call_def)
qed

lemma T_run_in_call: "in_call (sample T_run m) [2, 257] zero_frame"
proof -
  have "sched_ok (sample T_run m)"
    by (auto simp: sched_ok_def T_run_def sample_thread_def zero_thread_def Let_def)
  moreover have "sched_queue (sample T_run m) [2, 257]"
    by (auto simp: sched_queue_def running_def cyclic_def sched_link_def T_run_def Let_def split: if_splits)
  ultimately show ?thesis by (simp add: in_call_def)
qed

lemma T_run_slices: "slices_ok (sample T_run m)" "active_slice (sample T_run m) = 1"
  by (auto simp: slices_ok_def running_def active_slice_def T_run_def Let_def)

lemma sample_ids: "(\<And>n. th_tid (T n) = 0) \<Longrightarrow> ids_ok (sample T m)"
  by (auto simp: ids_ok_def sample_process_def)

subsection \<open>Frames\<close>

text \<open>A small allocator with 32 frames, two of them in use as page directories, over empty memory.\<close>

definition sample_phys :: phys where
  "sample_phys = \<lparr>alloc_map = \<lparr>bms_base = Some [\<lparr>bme_next = None, bme_bitmap = 3\<rparr>], bms_head = Some 0\<rparr>,
     ref_counts = Some (1 # 1 # replicate 30 0)\<rparr>"

definition empty_kmem :: kmem where
  "empty_kmem = (sample_kmem (\<lambda>_. 0))\<lparr>phys_st := sample_phys, kernel_dir := 0x1001000\<rparr>"

lemma bit_three: "bit (3 :: int) n \<longleftrightarrow> n < 2"
proof -
  have "(3 :: int) = mask 2" by (simp add: mask_eq_exp_minus_1)
  then show ?thesis by (simp only: bit_mask_iff) simp
qed

lemma sample_phys_used: "bmstack_used (alloc_map sample_phys) = {0, 1}"
proof -
  have "n \<in> bmstack_used (alloc_map sample_phys) \<longleftrightarrow> n < 2" for n
    by (cases "n < 32") (simp_all add: sample_phys_def bmstack_used_def bitmap_bits_def bms_words_def bit_three)
  then have "bmstack_used (alloc_map sample_phys) = {n. n < 2}" by blast
  also have "{n. n < (2 :: nat)} = {0, 1}" by auto
  finally show ?thesis .
qed

lemma sample_phys_ready [simp]: "phys_ready sample_phys" "free_frames sample_phys = 30"
proof -
  have cap: "bmstack_cap (alloc_map sample_phys) = 32" by (simp add: sample_phys_def bmstack_cap_def bms_words_def)
  have l: "linked (alloc_map sample_phys) [\<lparr>bme_next = None, bme_bitmap = 3\<rparr>] [0]"
    by (auto simp: linked_def sample_phys_def nonfull_def next_of_def)
  have r: "refs sample_phys i \<noteq> 0 \<Longrightarrow> i \<in> {0, 1}" for i
    by (auto simp: refs_def sample_phys_def nth_Cons' split: if_splits)
  have "phys_inv sample_phys"
    using cap l r by (auto simp: phys_inv_def bmstack_winv_def sample_phys_used) (auto simp: sample_phys_def frames_def)
  moreover have "bmstack_inv (alloc_map sample_phys)"
    unfolding bmstack_inv_def using l by (intro exI [of _ "[\<lparr>bme_next = None, bme_bitmap = 3\<rparr>]"] exI [of _ "[0]"]) (auto simp: nonfull_def)
  ultimately show "phys_ready sample_phys" by (simp add: phys_ready_def)
  show "free_frames sample_phys = 30" by (simp add: free_frames_def cap sample_phys_used)
qed

lemma empty_ent [simp]: "ent (\<lambda>_. 0) d i = 0" and empty_walk [simp]: "walk (\<lambda>_. 0) d v = None"
  by (simp_all add: ent_def ld32_def walk_def)

lemma empty_fields [simp]: "mem empty_kmem = (\<lambda>_. 0)" "phys_st empty_kmem = sample_phys" "kernel_dir empty_kmem = 0x1001000" "tempmap_addr empty_kmem = 0xE0000000"
  by (simp_all add: empty_kmem_def sample_kmem_def)

lemma empty_kmem_ok [simp]: "kmem_ok empty_kmem"
  using sample_phys_ready(1) by (simp add: kmem_ok_def empty_kmem_def sample_kmem_def phys_ready_def)

lemma sample_counts: "frame_count sample_phys 0x1000000 = 1" "frame_count sample_phys 0x1001000 = 1"
  by (simp_all add: frame_count_def page_aligned_def refs_def sample_phys_def frame_index_nat)

lemma empty_pas [simp]: "pas_inv empty_kmem 0x1000000" "pas_inv empty_kmem 0x1001000"
  by (simp_all add: pas_inv_def page_aligned_def sample_counts)

end
