(* ===== verification/Console.thy ===== *)
theory Console
  imports Devices
begin

text \<open>
  The debug console (\<open>kernel/debug/ctl.c\<close>, \<open>kernel/arch/i586/hw/console.h\<close>): characters go to
  the serial port and, while enabled, to the text buffer of the display.
\<close>

abbreviation (input) CONSOLE_WIDTH :: u32 where "CONSOLE_WIDTH \<equiv> 80"
abbreviation (input) CONSOLE_HEIGHT :: u32 where "CONSOLE_HEIGHT \<equiv> 25"
abbreviation (input) SERIAL_PORT_PRIMARY :: u16 where "SERIAL_PORT_PRIMARY \<equiv> 0x3F8"

record console =
  debug_enabled :: bool
  cursor_x :: u32
  cursor_y :: u32
  buffer :: "u16 list"

text \<open>Characters are signed: the bytes from 128 on are negative.\<close>

definition console_format :: "u8 \<Rightarrow> u16" where
  "console_format c = ucast ((scast c :: u32) OR push_bit 8 7)"

definition debug_init :: "console \<Rightarrow> io \<Rightarrow> (console \<times> io) option" where
  "debug_init c i = do {
     let c = c\<lparr>debug_enabled := True\<rparr>;
     let i = serial_init SERIAL_PORT_PRIMARY i;
     c \<leftarrow> for_each [0..<unat (CONSOLE_WIDTH * CONSOLE_HEIGHT)] (\<lambda>n c. do {
            b \<leftarrow> arr_set (buffer c) n (console_format 0x20);
            Some (c\<lparr>buffer := b\<rparr>)
          }) c;
     Some (c, i)
   }"

definition debug_disable :: "console \<Rightarrow> console" where
  "debug_disable c = c\<lparr>debug_enabled := False\<rparr>"

definition scroll :: "console \<Rightarrow> console option" where
  "scroll c = do {
     let last_row = unat (CONSOLE_WIDTH * (CONSOLE_HEIGHT - 1));
     let last_index = unat (CONSOLE_WIDTH * CONSOLE_HEIGHT);
     b \<leftarrow> for_each [0..<last_row] (\<lambda>i b. do {
            v \<leftarrow> arr_get b (i + unat CONSOLE_WIDTH);
            arr_set b i v
          }) (buffer c);
     b \<leftarrow> for_each [last_row..<last_index] (\<lambda>i b. arr_set b i (console_format 0x20)) b;
     Some (c\<lparr>buffer := b, cursor_y := cursor_y c - 1\<rparr>)
   }"

text \<open>The part of \<open>putchar\<close> that moves the cursor for a control character.\<close>

definition cursor_control :: "u8 \<Rightarrow> console \<Rightarrow> console" where
  "cursor_control ch c =
     (if ch = 8 then (if cursor_x c \<noteq> 0 then c\<lparr>cursor_x := cursor_x c - 1\<rparr> else c)
      else if ch = 9 then c\<lparr>cursor_x := (cursor_x c + 4) AND - 4\<rparr>
      else if ch = 13 then c\<lparr>cursor_x := 0\<rparr>
      else if ch = 10 then c\<lparr>cursor_x := 0, cursor_y := cursor_y c + 1\<rparr>
      else c)"

definition putchar :: "u8 \<Rightarrow> console \<Rightarrow> io \<Rightarrow> (console \<times> io) option" where
  "putchar ch c i = do {
     i \<leftarrow> serial_write SERIAL_PORT_PRIMARY ch i;
     if \<not> debug_enabled c then Some (c, i)
     else do {
       let c = cursor_control ch c;
       c \<leftarrow> (if sint ch \<ge> 0x20 then do {
               b \<leftarrow> arr_set (buffer c) (unat (cursor_y c * CONSOLE_WIDTH + cursor_x c)) (console_format ch);
               Some (c\<lparr>buffer := b, cursor_x := cursor_x c + 1\<rparr>)
             }
             else Some c);
       let c = (if cursor_x c \<ge> CONSOLE_WIDTH then c\<lparr>cursor_x := 0, cursor_y := cursor_y c + 1\<rparr> else c);
       c \<leftarrow> (if cursor_y c \<ge> CONSOLE_HEIGHT then scroll c else Some c);
       Some (c, i)
     }
   }"

subsection \<open>The cursor stays on the screen\<close>

definition console_inv :: "console \<Rightarrow> bool" where
  "console_inv c \<longleftrightarrow> cursor_x c < CONSOLE_WIDTH \<and> cursor_y c < CONSOLE_HEIGHT \<and> length (buffer c) = 2000"


lemma scroll_shift:
  assumes "length b = 2000" and "n \<le> 1920"
  shows "for_each [0..<n] (\<lambda>i b. do { v \<leftarrow> arr_get b (i + 80); arr_set b i v }) b
    = Some (take n (drop 80 b) @ drop n b)"
  using assms(2)
proof (induction n)
  case (Suc n)
  have l: "length (take n (drop 80 b) @ drop n b) = 2000" using Suc.prems assms(1) by simp
  have v: "(take n (drop 80 b) @ drop n b) ! (n + 80) = b ! (n + 80)" using Suc.prems assms(1) by (simp add: nth_append)
  have "(take n (drop 80 b) @ drop n b)[n := b ! (n + 80)] = take (Suc n) (drop 80 b) @ drop (Suc n) b"
    using Suc.prems assms(1)
    by (auto simp: list_eq_iff_nth_eq nth_list_update nth_append less_Suc_eq add.commute)
  then show ?case using Suc l v by (simp add: for_each_append arr_get_def arr_set_def)
qed simp

lemma scroll_blank:
  assumes "length b = 2000" and "n \<le> 80"
  shows "for_each [1920..<1920 + n] (\<lambda>i b. arr_set b i v) b = Some (take 1920 b @ replicate n v @ drop (1920 + n) b)"
  using assms(2)
proof (induction n)
  case (Suc n)
  have "(take 1920 b @ replicate n v @ drop (1920 + n) b)[1920 + n := v] = take 1920 b @ replicate (Suc n) v @ drop (1920 + Suc n) b"
    using Suc.prems assms(1)
    by (auto simp: list_eq_iff_nth_eq nth_list_update nth_append less_Suc_eq nth_Cons' nth_append)
  moreover have "[1920..<1920 + Suc n] = [1920..<1920 + n] @ [1920 + n]"
    by (simp only: add_Suc_right) (rule upt_Suc_append, simp)
  ultimately show ?case using Suc assms(1) by (simp only: for_each_append) simp
qed simp

lemma scroll_buffer:
  assumes "length (buffer c) = 2000"
  shows "scroll c = Some (c\<lparr>buffer := drop 80 (buffer c) @ replicate 80 (console_format 0x20), cursor_y := cursor_y c - 1\<rparr>)"
  using assms scroll_shift [OF assms, of 1920] scroll_blank [of "drop 80 (buffer c) @ drop 1920 (buffer c)" 80 "console_format 0x20"]
  by (simp add: scroll_def Let_def del: upt_rec_numeral)


subsection \<open>A terminal\<close>

text \<open>
  What the console promises: a screen of 25 rows of 80 cells with a cursor, whose lines move up
  when the cursor leaves the last row.
\<close>

record terminal =
  t_cell :: "nat \<Rightarrow> nat \<Rightarrow> u16"
  t_x :: nat
  t_y :: nat

definition term_newline :: "terminal \<Rightarrow> terminal" where
  "term_newline t =
     (if t_y t + 1 < 25 then t\<lparr>t_x := 0, t_y := t_y t + 1\<rparr>
      else t\<lparr>t_cell := (\<lambda>r. if r = 24 then (\<lambda>_. console_format 0x20) else t_cell t (r + 1)), t_x := 0\<rparr>)"

definition term_advance :: "nat \<Rightarrow> terminal \<Rightarrow> terminal" where
  "term_advance x t = (if x < 80 then t\<lparr>t_x := x\<rparr> else term_newline t)"

definition term_put :: "u8 \<Rightarrow> terminal \<Rightarrow> terminal" where
  "term_put ch t =
     (if ch = 8 then t\<lparr>t_x := t_x t - 1\<rparr>
      else if ch = 9 then term_advance ((t_x t div 4 + 1) * 4) t
      else if ch = 13 then t\<lparr>t_x := 0\<rparr>
      else if ch = 10 then term_newline t
      else if sint ch < 0x20 then t
      else term_advance (t_x t + 1)
             (t\<lparr>t_cell := (t_cell t)(t_y t := (t_cell t (t_y t))(t_x t := console_format ch))\<rparr>))"

definition displays :: "console \<Rightarrow> terminal \<Rightarrow> bool" where
  "displays c t \<longleftrightarrow> console_inv c \<and> unat (cursor_x c) = t_x t \<and> unat (cursor_y c) = t_y t \<and>
     (\<forall>r<25. \<forall>k<80. buffer c ! (80 * r + k) = t_cell t r k)"

text \<open>The end of \<open>putchar\<close>: wrapping at the last column and scrolling at the last row.\<close>

definition wrap_scroll :: "console \<Rightarrow> console option" where
  "wrap_scroll c = (
     let c = (if cursor_x c \<ge> CONSOLE_WIDTH then c\<lparr>cursor_x := 0, cursor_y := cursor_y c + 1\<rparr> else c)
     in if cursor_y c \<ge> CONSOLE_HEIGHT then scroll c else Some c)"

lemma wrap_scroll_newline:
  assumes d: "displays c t" and c': "cursor_x c' = 0" "unat (cursor_y c') = t_y t + 1" "buffer c' = buffer c"
    "debug_enabled c' = debug_enabled c"
  shows "\<exists>c2. wrap_scroll c' = Some c2 \<and> displays c2 (term_newline t) \<and> debug_enabled c2 = debug_enabled c"
proof (cases "t_y t + 1 < 25")
  case True
  then have "\<not> cursor_y c' \<ge> CONSOLE_HEIGHT" using c'(2) by (simp add: word_le_nat_alt)
  then show ?thesis using True d c'
    by (auto simp: wrap_scroll_def Let_def displays_def console_inv_def term_newline_def word_less_nat_alt word_le_nat_alt)
next
  case False
  have y: "t_y t = 24" "length (buffer c) = 2000" using d False by (auto simp: displays_def console_inv_def word_less_nat_alt)
  then have "cursor_y c' = 25" using c'(2) by (simp add: word_unat_eq_iff)
  moreover have "\<forall>r<24. \<forall>k<80. buffer c ! (80 + (80 * r + k)) = t_cell t (Suc r) k"
  proof (intro allI impI)
    fix r k :: nat
    assume "r < 24" "k < 80"
    then have "buffer c ! (80 * Suc r + k) = t_cell t (Suc r) k" using d by (simp only: displays_def)
    then show "buffer c ! (80 + (80 * r + k)) = t_cell t (Suc r) k" by (simp add: algebra_simps)
  qed
  ultimately show ?thesis
    using d c' y scroll_buffer [of c']
    by (auto simp: wrap_scroll_def Let_def displays_def console_inv_def term_newline_def nth_append)
qed

lemma wrap_scroll_advance:
  assumes d: "displays c t" and c': "unat (cursor_x c') = x" "x \<le> 80" "cursor_y c' = cursor_y c" "buffer c' = buffer c"
    "debug_enabled c' = debug_enabled c"
  shows "\<exists>c2. wrap_scroll c' = Some c2 \<and> displays c2 (term_advance x t) \<and> debug_enabled c2 = debug_enabled c"
proof (cases "x < 80")
  case True
  then show ?thesis using d c'
    by (auto simp: wrap_scroll_def Let_def displays_def console_inv_def term_advance_def word_less_nat_alt word_le_nat_alt)
next
  case False
  then have "cursor_x c' \<ge> CONSOLE_WIDTH" using c'(1) by (simp add: word_le_nat_alt)
  then have "wrap_scroll c' = wrap_scroll (c'\<lparr>cursor_x := 0, cursor_y := cursor_y c' + 1\<rparr>)"
    by (simp add: wrap_scroll_def)
  moreover have "unat (cursor_y c + 1) = t_y t + 1"
    using d by (auto simp: displays_def console_inv_def word_less_nat_alt unat_word_ariths)
  ultimately show ?thesis
    using wrap_scroll_newline [OF d, of "c'\<lparr>cursor_x := 0, cursor_y := cursor_y c' + 1\<rparr>"] c' False
    by (simp add: term_advance_def)
qed

lemma displays_put:
  assumes d: "displays c t"
  shows "arr_set (buffer c) (unat (cursor_y c * CONSOLE_WIDTH + cursor_x c)) v = Some ((buffer c)[80 * t_y t + t_x t := v])"
    and "displays (c\<lparr>buffer := (buffer c)[80 * t_y t + t_x t := v]\<rparr>)
           (t\<lparr>t_cell := (t_cell t)(t_y t := (t_cell t (t_y t))(t_x t := v))\<rparr>)"
proof -
  have b: "t_x t < 80" "t_y t < 25" "length (buffer c) = 2000"
    using d by (auto simp: displays_def console_inv_def word_less_nat_alt)
  have "unat (cursor_y c * CONSOLE_WIDTH) = t_y t * 80" "t_y t * 80 + t_x t < 2 ^ 32"
    using d b by (auto simp: displays_def unat_word_ariths)
  then have "unat (cursor_y c * CONSOLE_WIDTH + cursor_x c) = 80 * t_y t + t_x t"
    using d by (simp add: displays_def unat_word_ariths)
  then show "arr_set (buffer c) (unat (cursor_y c * CONSOLE_WIDTH + cursor_x c)) v = Some ((buffer c)[80 * t_y t + t_x t := v])"
    using b by simp
  have "80 * r + k = 80 * t_y t + t_x t \<longleftrightarrow> r = t_y t \<and> k = t_x t" if "k < 80" for r k
  proof -
    have "(80 * r + k) div 80 = r" "(80 * r + k) mod 80 = k" "(80 * t_y t + t_x t) div 80 = t_y t"
      "(80 * t_y t + t_x t) mod 80 = t_x t" using that b(1) by simp_all
    then show ?thesis by metis
  qed
  then show "displays (c\<lparr>buffer := (buffer c)[80 * t_y t + t_x t := v]\<rparr>)
           (t\<lparr>t_cell := (t_cell t)(t_y t := (t_cell t (t_y t))(t_x t := v))\<rparr>)"
    using d b by (auto simp: displays_def console_inv_def nth_list_update)
qed


lemma tab_stop: "unat x < 80 \<Longrightarrow> unat ((x + 4) AND (- 4) :: u32) = (unat x div 4 + 1) * 4"
proof -
  assume x: "unat x < 80"
  have m: "(- 4 :: u32) = NOT (mask 2)" by (simp add: not_eq_complement mask_eq_exp_minus_1)
  have "(x + 4) AND (- 4) = push_bit 2 (drop_bit 2 (x + 4))"
    unfolding m
  proof (rule bit_word_eqI)
    fix n
    assume "n < LENGTH(32)"
    then show "bit ((x + 4) AND NOT (mask 2)) n = bit (push_bit 2 (drop_bit 2 (x + 4))) n"
      by (cases "n < 2") (auto simp: bit_simps dest!: le_Suc_ex simp: not_less)
  qed
  moreover have "unat (x + 4) = unat x + 4" using x by (simp add: unat_word_ariths)
  moreover have "(unat x + 4) div 4 = unat x div 4 + 1" by simp
  ultimately show ?thesis using x by (simp add: push_bit_eq_mult drop_bit_eq_div unat_word_ariths unat_div)
qed

lemma putchar_wrap:
  "serial_write SERIAL_PORT_PRIMARY ch i = Some i' \<Longrightarrow> debug_enabled c \<Longrightarrow> putchar ch c i = do {
     c \<leftarrow> (if sint ch \<ge> 0x20 then do {
             let c = cursor_control ch c;
             b \<leftarrow> arr_set (buffer c) (unat (cursor_y c * CONSOLE_WIDTH + cursor_x c)) (console_format ch);
             Some (c\<lparr>buffer := b, cursor_x := cursor_x c + 1\<rparr>)
           }
           else Some (cursor_control ch c));
     c \<leftarrow> wrap_scroll c;
     Some (c, i')
   }"
  by (simp add: putchar_def wrap_scroll_def Let_def)

lemma sint_control [simp]: "sint (8 :: u8) = 8" "sint (9 :: u8) = 9" "sint (10 :: u8) = 10" "sint (13 :: u8) = 13"
  by simp_all

text \<open>
  The console implements the terminal: as long as the serial port takes the character, \<open>putchar\<close>
  returns, writes inside the buffer, and moves to the next state of the terminal.
\<close>

lemma putchar_terminal:
  assumes d: "displays c t" and en: "debug_enabled c" and io: "serial_write SERIAL_PORT_PRIMARY ch i = Some i'"
  shows "\<exists>c'. putchar ch c i = Some (c', i') \<and> displays c' (term_put ch t) \<and> debug_enabled c'"
proof -
  have x: "unat (cursor_x c) = t_x t" "t_x t < 80" "unat (cursor_y c) = t_y t" "t_y t < 25"
    using d by (auto simp: displays_def console_inv_def word_less_nat_alt)
  consider (bs) "ch = 8" | (tab) "ch = 9" | (nl) "ch = 10" | (cr) "ch = 13"
    | (ctl) "ch \<notin> {8, 9, 10, 13}" "sint ch < 0x20" | (print) "ch \<notin> {8, 9, 10, 13}" "sint ch \<ge> 0x20" by force
  then show ?thesis
  proof cases
    case bs
    have "unat (if cursor_x c \<noteq> 0 then cursor_x c - 1 else 0) = t_x t - 1"
      by (cases "cursor_x c = 0") (use x(1) in \<open>auto simp: unat_minus_one\<close>)
    moreover have lt: "t_x t - 1 < 80" using x(2) by linarith
    ultimately obtain c2 where "wrap_scroll (cursor_control ch c) = Some c2" "displays c2 (term_advance (t_x t - 1) t)" "debug_enabled c2"
      using wrap_scroll_advance [OF d, of "cursor_control ch c" "t_x t - 1"] x en bs
      by (auto simp: cursor_control_def split: if_splits)
    then show ?thesis unfolding putchar_wrap [OF io en] using bs lt by (simp add: term_put_def term_advance_def)
  next
    case tab
    have "(t_x t div 4 + 1) * 4 \<le> 80" using x(2) div_less_iff_less_mult [of 4 "t_x t" 20] by simp
    with tab obtain c2 where "wrap_scroll (cursor_control ch c) = Some c2" "displays c2 (term_advance ((t_x t div 4 + 1) * 4) t)" "debug_enabled c2"
      using wrap_scroll_advance [OF d, of "cursor_control ch c" "(t_x t div 4 + 1) * 4"] x en tab_stop [of "cursor_x c"]
      by (auto simp: cursor_control_def)
    then show ?thesis unfolding putchar_wrap [OF io en] using tab by (simp add: term_put_def)
  next
    case nl
    have "unat (cursor_y c + 1) = t_y t + 1" using x(3,4) by (simp add: unat_word_ariths)
    then obtain c2 where "wrap_scroll (cursor_control ch c) = Some c2" "displays c2 (term_newline t)" "debug_enabled c2"
      using wrap_scroll_newline [OF d, of "cursor_control ch c"] en nl by (auto simp: cursor_control_def)
    then show ?thesis unfolding putchar_wrap [OF io en] using nl by (simp add: term_put_def)
  next
    case cr
    then obtain c2 where "wrap_scroll (cursor_control ch c) = Some c2" "displays c2 (term_advance 0 t)" "debug_enabled c2"
      using wrap_scroll_advance [OF d, of "cursor_control ch c" 0] en by (auto simp: cursor_control_def)
    then show ?thesis unfolding putchar_wrap [OF io en] using cr by (simp add: term_put_def term_advance_def)
  next
    case ctl
    then obtain c2 where "wrap_scroll (cursor_control ch c) = Some c2" "displays c2 (term_advance (t_x t) t)" "debug_enabled c2"
      using wrap_scroll_advance [OF d, of "cursor_control ch c" "t_x t"] en x by (auto simp: cursor_control_def)
    then show ?thesis unfolding putchar_wrap [OF io en] using ctl x by (simp add: term_put_def term_advance_def)
  next
    case print
    let ?c = "c\<lparr>buffer := (buffer c)[80 * t_y t + t_x t := console_format ch]\<rparr>"
    have "unat (cursor_x c + 1) = t_x t + 1" using x(1,2) by (simp add: unat_word_ariths)
    then obtain c2 where "wrap_scroll (?c\<lparr>cursor_x := cursor_x c + 1\<rparr>) = Some c2"
        "displays c2 (term_advance (t_x t + 1) (t\<lparr>t_cell := (t_cell t)(t_y t := (t_cell t (t_y t))(t_x t := console_format ch))\<rparr>))"
        "debug_enabled c2"
      using wrap_scroll_advance [OF displays_put(2) [OF d, of "console_format ch"], of "?c\<lparr>cursor_x := cursor_x c + 1\<rparr>" "t_x t + 1"] en x(2)
      by auto
    then show ?thesis unfolding putchar_wrap [OF io en] using print displays_put(1) [OF d]
      by (simp add: term_put_def cursor_control_def Let_def)
  qed
qed

end
