(* ===== verification/Elf.thy ===== *)
theory Elf
  imports Bootinfo Dispatch Console
begin

text \<open>
  Start of the system: recognition and parsing of the executables the boot loader left in memory
  (\<open>kernel/spec/elf/module.c\<close>), and the entry point of the kernel (\<open>kernel/core/main.c\<close>).  The
  files are read through the temporary mapping.
\<close>

abbreviation (input) ELF_SECTION_MAX :: nat where "ELF_SECTION_MAX \<equiv> 8"
abbreviation (input) ELF_CLASS_32 :: u8 where "ELF_CLASS_32 \<equiv> 1"
abbreviation (input) ELF_ARCH_386 :: u16 where "ELF_ARCH_386 \<equiv> 3"
abbreviation (input) ELF_PTYPE_LOAD :: u32 where "ELF_PTYPE_LOAD \<equiv> 1"
abbreviation (input) ELF_PROGRAM_HEADER_SIZE :: u32 where "ELF_PROGRAM_HEADER_SIZE \<equiv> 32"

record elf_section =
  sect_phys :: u32
  sect_virt :: u32
  sect_size :: u32
  sect_reserve :: u32
  sect_flags :: u32

record elf_binary =
  sections :: "elf_section list"
  bin_entry :: u32

definition zero_section :: elf_section where
  "zero_section = \<lparr>sect_phys = 0, sect_virt = 0, sect_size = 0, sect_reserve = 0, sect_flags = 0\<rparr>"

definition temp_ld8 :: "kmem \<Rightarrow> u32 \<Rightarrow> u8 option" where
  "temp_ld8 k va = do { p \<leftarrow> temp_phys k va; Some (mem k p) }"

definition temp_ld16 :: "kmem \<Rightarrow> u32 \<Rightarrow> u16 option" where
  "temp_ld16 k va = do {
     a \<leftarrow> temp_ld8 k va;
     b \<leftarrow> temp_ld8 k (va + 1);
     Some (ucast a OR push_bit 8 (ucast b))
   }"

definition temp_ld32 :: "kmem \<Rightarrow> u32 \<Rightarrow> u32 option" where
  "temp_ld32 k va = do {
     a \<leftarrow> temp_ld16 k va;
     b \<leftarrow> temp_ld16 k (va + 2);
     Some (ucast a OR push_bit 16 (ucast b))
   }"

text \<open>
  Offsets in \<open>elf_file_header_t\<close>: class 4, architecture 18, entry 24, program header offset 28,
  program header count 44.  Words are 32 bits, so the class must be \<open>ELF_CLASS_32\<close>.
\<close>

definition elf_module_validate :: "module_info \<Rightarrow> kmem \<Rightarrow> (bool \<times> kmem) option" where
  "elf_module_validate m k = do {
     (fheader, k) \<leftarrow> paging_map_temp k (module_start m);
     m0 \<leftarrow> temp_ld8 k fheader;
     m1 \<leftarrow> temp_ld8 k (fheader + 1);
     m2 \<leftarrow> temp_ld8 k (fheader + 2);
     m3 \<leftarrow> temp_ld8 k (fheader + 3);
     if [m0, m1, m2, m3] \<noteq> [0x7F, 0x45, 0x4C, 0x46] then Some (False, k)
     else do {
       cls \<leftarrow> temp_ld8 k (fheader + 4);
       if cls \<noteq> ELF_CLASS_32 then Some (False, k)
       else do {
         arch \<leftarrow> temp_ld16 k (fheader + 18);
         Some (arch = ELF_ARCH_386, k)
       }
     }
   }"

text \<open>
  The loop over the program headers.  The bound is read through \<open>fheader\<close> in every round, after
  the temporary mapping has moved to a program header.
\<close>

definition elf_section_parse :: "u32 \<Rightarrow> u32 \<Rightarrow> kmem \<Rightarrow> elf_section option" where
  "elf_section_parse fheader_phys pheader k = do {
     offset \<leftarrow> temp_ld32 k (pheader + 4);
     vaddr \<leftarrow> temp_ld32 k (pheader + 8);
     file_size \<leftarrow> temp_ld32 k (pheader + 16);
     mem_size \<leftarrow> temp_ld32 k (pheader + 20);
     flags \<leftarrow> temp_ld32 k (pheader + 24);
     Some \<lparr>sect_phys = fheader_phys + offset, sect_virt = vaddr, sect_size = file_size,
       sect_reserve = mem_size, sect_flags = flags\<rparr>
   }"

partial_function (option) elf_parse_loop ::
    "u32 \<Rightarrow> u32 \<Rightarrow> u32 \<Rightarrow> u32 \<Rightarrow> elf_section list \<Rightarrow> kmem \<Rightarrow> (elf_section list \<times> kmem) option" where
  "elf_parse_loop fheader_phys fheader pheader_start i sects k = do {
     cnt \<leftarrow> temp_ld16 k (fheader + 44);
     if i = ucast cnt then Some (sects, k)
     else do {
       (pheader, k) \<leftarrow> paging_map_temp k (index_to_addr pheader_start ELF_PROGRAM_HEADER_SIZE i);
       type \<leftarrow> temp_ld32 k pheader;
       sects \<leftarrow> (if type \<noteq> ELF_PTYPE_LOAD then Some sects
                 else do {
                   sect \<leftarrow> elf_section_parse fheader_phys pheader k;
                   arr_set sects (unat i) sect
                 });
       elf_parse_loop fheader_phys fheader pheader_start (i + 1) sects k
     }
   }"

definition elf_module_parse :: "module_info \<Rightarrow> kmem \<Rightarrow> (elf_binary \<times> kmem) option" where
  "elf_module_parse m k = do {
     (valid, k) \<leftarrow> elf_module_validate m k;
     dassert valid;
     let fheader_phys = module_start m;
     (fheader, k) \<leftarrow> paging_map_temp k fheader_phys;
     start \<leftarrow> temp_ld32 k (fheader + 24);
     pheader_offset \<leftarrow> temp_ld32 k (fheader + 28);
     dassert (pheader_offset \<noteq> 0);
     (sects, k) \<leftarrow> elf_parse_loop fheader_phys fheader (fheader_phys + pheader_offset) 0
                    (replicate ELF_SECTION_MAX zero_section) k;
     Some (\<lparr>sections = sects, bin_entry = start\<rparr>, k)
   }"

subsection \<open>The entry point\<close>

text \<open>The mapping of one section of a startup process.\<close>

definition startp_section :: "pid_t \<Rightarrow> elf_section \<Rightarrow> kstate \<Rightarrow> kstate option" where
  "startp_section pid sect s =
     (if sect_phys sect = 0 then Some s
      else do {
        phys \<leftarrow> addr_align (sect_phys sect) ARCH_PGSIZE;
        virt \<leftarrow> addr_align (sect_virt sect) ARCH_PGSIZE;
        dassert (virt + sect_reserve sect \<le> KERNEL_VIRT_BASE);
        s \<leftarrow> virtual_map s pid virt phys (sect_size sect);
        let rem_size = sect_reserve sect - sect_size sect;
        if rem_size \<noteq> 0 then virtual_alloc s pid (virt + sect_size sect) rem_size else Some s
      })"

definition startp_load :: "module_info \<Rightarrow> kstate \<Rightarrow> (pid_t \<times> kstate) option" where
  "startp_load m s = do {
     (valid, k) \<leftarrow> elf_module_validate m (km s);
     let s = s\<lparr>km := k\<rparr>;
     if \<not> valid then Some (0, s)
     else do {
       (binary, k) \<leftarrow> elf_module_parse m (km s);
       (pid, s) \<leftarrow> process_new 0 (bin_entry binary) (s\<lparr>km := k\<rparr>);
       s \<leftarrow> for_each [0..<ELF_SECTION_MAX] (\<lambda>i s. do {
              sect \<leftarrow> arr_get (sections binary) i;
              startp_section pid sect s
            }) s;
       Some (pid, s)
     }
   }"

definition load_modules :: "modules \<Rightarrow> kstate \<Rightarrow> kstate option" where
  "load_modules ms s = for_each [0..<module_count_get ms] (\<lambda>i s. do {
     m \<leftarrow> module_get ms i;
     (pid, s) \<leftarrow> startp_load m s;
     if pid = 0 then Some s
     else do {
       (uid, s) \<leftarrow> thread_new pid 0 s;
       scheduler_add uid s
     }
   }) s"

text \<open>
  What the hardware, the linker and the boot loader supply to \<open>kmain\<close>: the end of the kernel
  image, the presence of global pages, the flags register, the memory map and the modules.
\<close>

record boot_env =
  be_link :: link_env
  be_ekernel :: u32
  be_pge :: bool
  be_eflags :: u32
  be_mbi :: multiboot_info
  be_mmap :: "u32 \<Rightarrow> multiboot_mmap"
  be_module :: "u32 \<Rightarrow> nat \<Rightarrow> multiboot_module"

abbreviation (input) BOOTLOADER_MAGIC :: u32 where "BOOTLOADER_MAGIC \<equiv> 0x2BADB002"

definition kmain :: "boot_env \<Rightarrow> u32 \<Rightarrow> u32 \<Rightarrow> console \<Rightarrow> kstate \<Rightarrow> (console \<times> kstate) option" where
  "kmain B magic vmem c s = do {
     (c, i) \<leftarrow> debug_init c (io_st s);
     let s = s\<lparr>io_st := i\<rparr>;
     dassert (magic = BOOTLOADER_MAGIC);
     s \<leftarrow> arch_init (be_link B) s;
     r \<leftarrow> region_init (be_ekernel B) vmem (region_st (km s));
     m \<leftarrow> meminfo_init (be_mbi B) (be_mmap B) meminfo_boot;
     ms \<leftarrow> module_init (be_mbi B) (be_module B) modules_boot;
     k \<leftarrow> paging_tempmap_init ((km s)\<lparr>region_st := r\<rparr>);
     (r, p) \<leftarrow> physical_init m (region_st k) (phys_st k);
     r \<leftarrow> region_idmap_invalidate r;
     k \<leftarrow> paging_init (be_pge B) (k\<lparr>region_st := r, phys_st := p\<rparr>);
     s \<leftarrow> int_init (s\<lparr>km := k\<rparr>);
     s \<leftarrow> process_init s;
     s \<leftarrow> syscall_init s;
     s \<leftarrow> load_modules ms s;
     let c = debug_disable c;
     s \<leftarrow> scheduler_start (be_link B) (be_eflags B) s;
     Some (c, s)
   }"

end
