(* ===== verification/Witnesses.thy ===== *)
theory Witnesses
  imports Sample_State Elf
begin

text \<open>Instances of the properties at concrete states: their hypotheses can hold.\<close>

lemma sample_vld32:
  assumes "tbl_index va \<noteq> 1021" "tbl_index (va + 1) \<noteq> 1021" "tbl_index (va + 2) \<noteq> 1021" "tbl_index (va + 3) \<noteq> 1021"
  shows "vld32 (window (sample_kmem (sample_mem b)) q) va =
    Some (ucast (sample_mem b (0x01010000 + (va AND 0xFFF))) OR push_bit 8 (ucast (sample_mem b (0x01010000 + (va + 1 AND 0xFFF)))) OR
      push_bit 16 (ucast (sample_mem b (0x01010000 + (va + 2 AND 0xFFF)))) OR push_bit 24 (ucast (sample_mem b (0x01010000 + (va + 3 AND 0xFFF)))))"
proof -
  have "vtrans (window (sample_kmem (sample_mem b)) q) v = Some (0x01010000 + (v AND 0xFFF))" if "tbl_index v \<noteq> 1021" for v
  proof -
    have "page_align (0x1000000 :: u32) = 0x1000000" by (simp add: page_align_def)
    then show ?thesis using sample_walk [OF that, of b]
      by (simp add: vtrans_def sample_kmem_def ENTRY_ADDR_def ent_frame_def)
  qed
  with assms show ?thesis by (simp add: vld32_def vld8_def) (simp add: sample_kmem_def)
qed

definition sample_src :: "u8 \<Rightarrow> umsg" where
  "sample_src b = \<lparr>um_port = 0x01010101, um_code = 0x01010101, um_args = [0x01010101, 0x01010101, 0x01010101],
     um_buf = 0x01010101 * ucast b, um_size = 0x01010101\<rparr>"

lemma sample_msg_load: "b \<in> {0, 1} \<Longrightarrow> msg_load (window (sample_kmem (sample_mem b)) q) 0x40000FE0 = Some (sample_src b)"
  by (auto simp: msg_load_def sample_vld32 tbl_index_def TBL_INDEX_def sample_mem_def sample_src_def)

lemma sample_tids [simp]: "th_tid (T_wait n) = 0" "th_tid (T_run n) = 0" "th_version (T_wait n) = 1" "th_version (T_run n) = 1"
  by (simp_all add: T_wait_def T_run_def sample_thread_def zero_thread_def Let_def)

lemma sample_versions [simp]: "pr_version (sample_process n) = 0x40" "pr_pid (sample_process n) = of_nat n"
  "addr_space (sample_process n) = 0x1000000" "priv (sample_process 2) = PRIV_NONE" "priv (sample_process 257) = PRIV_SERVER"
  by (simp_all add: sample_process_def zero_process_def)

lemma sample_ports:
  assumes "\<And>n. th_tid (T n) = 0" and "\<And>n. th_version (T n) = 1"
  shows "port_from_uid (sample T m) 2 = Some 0x01010002" "port_to_uid (sample T m) 0x01010101 p = Some 257"
    "port_of (sample T m) 2 = 0x01010002" "port_of (sample T m) 257 = 0x01010101"
proof -
  show *: "port_of (sample T m) 2 = 0x01010002" "port_of (sample T m) 257 = 0x01010101"
    using assms by (simp_all add: port_of_def mk_port_def)
  show "port_from_uid (sample T m) 2 = Some 0x01010002"
    using port_from_uid_live [OF sample_ids, of T m 2] assms * by simp
  show "port_to_uid (sample T m) 0x01010101 p = Some 257"
    using assms by (simp add: port_to_uid_def port_pid_def port_pvn_def port_tid_def port_tvn_def mk_uid_def
        thread_get_ok the_process_ok)
qed

lemma sample_request:
  assumes "b \<in> {0, 1}" and "\<And>n. th_tid (T n) = 0" and "\<And>n. th_version (T n) = 1"
  shows "send_request (sample T (sample_km b)) 2 0x40000FE0 (sample_src b) 0x01010002 257"
proof -
  have "range_pages 0x40000FE0 28 = [0x40000000]"
    by (simp add: range_pages_def page_align_def page_seq_def page_count_def)
  moreover have "walk (sample_mem b) 0x1000000 0x40000000 \<noteq> None"
    by (simp add: sample_walk tbl_index_def TBL_INDEX_def)
  ultimately show ?thesis
    using assms sample_msg_load [OF assms(1)] sample_ports [of T]
    by (simp add: send_request_def sample_kmem_def page_aligned_def sample_src_def port_compare_def
        port_pvn_def port_tvn_def port_pid_def port_tid_def)
qed

lemma sample_walk_ones: "walk (sample_mem 1) 0x1000000 v = Some 0x01010101"
proof -
  have "ent (sample_mem 1) d i = 0x01010101" for d i
    unfolding ent_def by (rule ld32_ones) (simp add: sample_mem_def)
  moreover have "ent_present 0x01010101" by (simp add: ent_present_def)
  ultimately show ?thesis by (simp add: walk_def Let_def)
qed

lemma T_wait_wakes: "wakes (sample T_wait m) 257 p" and T_run_wakes: "\<not> wakes (sample T_run m) 257 p"
  by (simp_all add: wakes_def T_wait_def T_run_def port_compare_def Let_def)

lemmas T_wait_ports = sample_ports [of T_wait, simplified]
lemmas T_run_ports = sample_ports [of T_run, simplified]

lemma T_wait_257: "th_state (T_wait 257) = THREAD_STATE_WAITING" "wait_for (T_wait 257) = IPORT_ANY"
  by (simp_all add: T_wait_def)

lemma T_heads [simp]: "th_msg_head (T_wait n) = - 1" "th_msg_head (T_run n) = - 1"
  by (simp_all add: T_wait_def T_run_def sample_thread_def Let_def)

subsection \<open>Messages and system calls\<close>

theorem syscall_send_delivers_witness:
  "\<exists>q s'. syscall_send 0x40000FE0 (sample T_wait (sample_km 0)) = Some s' \<and>
    delivered 257 (0x01010002, um_code (sample_src 0), um_args (sample_src 0), um_size (sample_src 0) > 0) True (\<lambda>_. []) [2]
      ((sample T_wait (sample_km 0))\<lparr>km := window (km (sample T_wait (sample_km 0))) q, curr_frame := Some (zero_frame\<lparr>EAX := ENONE\<rparr>)\<rparr>) s'"
  using syscall_send_delivers [OF T_wait_in_call _ _ sample_request [of 0 T_wait], where Q = "\<lambda>_. []"]
  by (simp add: sample_no_messages T_wait_wakes sample_src_def)

theorem syscall_send_blocks_witness:
  "\<exists>s'. syscall_send 0x40000FE0 (sample T_run (sample_km 1)) = Some s' \<and> sched_queue s' [257] \<and>
    th_state (thread_at s' 2) = THREAD_STATE_SENDING"
proof -
  have "payload_ok (sample T_run (sample_km 1)) 2 (sample_src 1)"
    by (simp add: payload_ok_def sample_src_def sample_kmem_def sample_walk_ones)
  then show ?thesis
    using syscall_send_blocks [OF T_run_in_call _ _ sample_request [of 1 T_run], where Q = "\<lambda>_. []"]
    by (auto simp: sample_no_messages T_run_wakes Let_def)
qed

theorem syscall_wait_blocks_witness:
  "\<exists>s'. syscall_wait 0x01010101 (sample T_run (sample_km 0)) = Some s' \<and> blocked (sample T_run (sample_km 0)) 2 [257] (zero_frame\<lparr>EAX := ENONE\<rparr>) s'"
proof -
  have "wait_target_exists 2 257 (sample T_run (sample_km 0)) = Some True"
    by (simp add: wait_target_exists_def thread_get_ok)
  then show ?thesis
    using syscall_wait_blocks [OF T_run_in_call, of "sample_km 0" "\<lambda>_. []" "0x01010101" 257] T_run_ports by auto
qed

lemma sample_irq_map: "irq_map (sample T m) a = 0"
  by (simp add: sample_def)

theorem timer_interrupt_witness:
  "\<exists>f' s'. int_callback_common (zero_frame\<lparr>int_num := 32\<rparr>) (sample T_run (sample_km 0)) = Some (f', s') \<and> sched_queue s' [257, 2] \<and>
    frame (th_task (thread_at s' 2)) = zero_frame\<lparr>int_num := 32\<rparr>"
  using timer_interrupt [of "sample T_run (sample_km 0)" "[2, 257]" "zero_frame\<lparr>int_num := 32\<rparr>"]
    T_run_in_call [of "sample_km 0"] T_run_slices sample_irq_map by (auto simp: in_call_def)

theorem timer_serves_all_witness:
  "\<exists>s'. repeat 1 timer_tick (sample T_run (sample_km 0)) = Some s' \<and> active_thread s' = 257 \<and> active_slice s' = 5"
  using timer_serves_all [of "sample T_run (sample_km 0)" "[2, 257]" 1] T_run_in_call [of "sample_km 0"] T_run_slices
  by (auto simp: in_call_def clock_inv_def)

theorem message_fifo_witness:
  "\<exists>s' s''. for_each [(7, 1, [], False), (8, 2, [], False)] (box_put 257) (sample T_wait (sample_km 0)) = Some s' \<and>
    get_many (box_get 257) 2 s' = Some ([(7, 1, [], False), (8, 2, [], False)], s'')"
proof -
  have "box_holds 257 (sample T_wait (sample_km 0)) []"
    unfolding box_holds_def by (auto intro!: exI [of _ "\<lambda>_. []"] simp: inbox_def)
  then show ?thesis
    using message_fifo [of 257 "sample T_wait (sample_km 0)" "[(7, 1, [], False), (8, 2, [], False)]"]
    by (auto simp: box_room_def sample_no_messages eval_nat_numeral)
qed

theorem message_find_ipc_witness:
  "\<exists>s'. message_find 257 IPORT_ANY (sample T_wait (sample_km 0)) = Some (False, s') \<and> page0_mapped s'"
  using message_find_ipc [of "sample T_wait (sample_km 0)" "\<lambda>_. []" 257 IPORT_ANY] by auto

theorem stale_port_witness:
  "port_to_uid (sample (\<lambda>n. (T_run n)\<lparr>th_version := 2\<rparr>) (sample_km 0)) 0x01010101 2 = Some 0"
  using stale_port [of "sample (\<lambda>n. (T_run n)\<lparr>th_version := 2\<rparr>) (sample_km 0)" "sample T_run (sample_km 0)" 257 "0x01010101" 2]
    sample_ports [of T_run "sample_km 0"]
  by (simp add: port_pvn_def port_of_def mk_port_def)

theorem port_roundtrip_witness:
  "\<exists>port. port_from_uid (sample T_run (sample_km 0)) 257 = Some port \<and> port_to_uid (sample T_run (sample_km 0)) port 0 = Some 257"
  using port_roundtrip [OF sample_ids, of T_run "sample_km 0" 257 0] by simp

theorem internal_ksend_delivers_witness:
  "\<exists>s'. internal_ksend 0x01010101 4 [14, 0, 0] (sample T_wait (sample_km 0)) = Some s' \<and>
    delivered 257 (IPORT_KERNEL, 4, [14, 0, 0], False) True (\<lambda>_. []) [2] (sample T_wait (sample_km 0)) s'"
  using internal_ksend_delivers [of "sample T_wait (sample_km 0)" "\<lambda>_. []" "[2]" "0x01010101" 257 True 4 "[14, 0, 0]"]
    T_wait_in_call [of "sample_km 0"] T_wait_ports
  by (simp add: in_call_def sample_no_messages T_wait_257 port_compare_def)

theorem syscall_yield_queue_witness:
  "\<exists>s'. syscall_yield (sample T_run (sample_km 0)) = Some s' \<and> sched_queue s' [257, 2]"
  using syscall_yield_queue [OF T_run_in_call, of "sample_km 0"] by auto

theorem scheduler_purge_queue_witness:
  "\<exists>s'. scheduler_purge 257 (sample T_run (sample_km 0)) = Some s' \<and> sched_ok s' \<and> sched_queue s' [2]"
  using scheduler_purge_queue [of "sample T_run (sample_km 0)" "[2, 257]" 257] T_run_in_call [of "sample_km 0"]
  by (simp add: in_call_def)

subsection \<open>Memory\<close>

lemma sample_page_range: "range_pages 0x40000000 0x2000 = [0x40000000, 0x40001000]"
  by (simp add: range_pages_def page_align_def page_seq_def page_count_def upt_rec)

theorem syscall_vmap_wraps_witness:
  "\<exists>q. syscall_vmap 0x40000000 0xC0001000 (sample T_run empty_kmem) =
    Some ((sample T_run empty_kmem)\<lparr>km := window empty_kmem q, curr_frame := Some (zero_frame\<lparr>EAX := 0x40000000\<rparr>)\<rparr>)"
  using syscall_vmap_wraps [OF T_run_in_call refl, of empty_kmem "0x40000000" "0xC0001000"]
  by (simp add: page_aligned_def)

theorem paging_map_correct_witness:
  "\<exists>k'. paging_map empty_kmem 0x1000000 0x40000000 0x100B000 3 = Some (True, k') \<and>
    walk (mem k') 0x1000000 0x40000000 = Some (ent_make (flag 3 1) (flag 3 2) 0x100B000)"
  using paging_map_correct [of empty_kmem "0x1000000" "0x40000000" "0x100B000" 3]
  by (auto simp: page_aligned_def dir_index_nat)

theorem paging_map_isolation_witness:
  "walk (mem (snd (the (paging_map empty_kmem 0x1000000 0x40000000 0x100B000 3)))) 0x1001000 0x40000000 = None"
proof -
  obtain b k' where r: "paging_map empty_kmem 0x1000000 0x40000000 0x100B000 3 = Some (b, k')"
    using paging_map_returns [of empty_kmem "0x1000000" "0x40000000" "0x100B000" 3]
    by (auto simp: page_aligned_def dir_index_nat)
  show ?thesis
    using paging_map_isolation [OF _ _ _ _ _ r, of "0x1001000" "0x40000000"] r
    by (simp add: page_aligned_def dir_index_nat)
qed

theorem paging_dir_create_correct_witness:
  "\<exists>dir k'. paging_dir_create empty_kmem = Some (dir, k') \<and> pas_inv k' dir \<and> walk (mem k') dir 0x40000000 = None"
proof -
  have "unat (0x40000000 :: u32) < 0xC0000000" by simp
  then show ?thesis using paging_dir_create_correct [of empty_kmem] by auto
qed

lemma empty_unmappable:
  assumes "\<And>v. v \<in> V \<Longrightarrow> page_aligned v \<and> dir_index v < 1023"
  shows "unmappable empty_kmem V"
proof -
  have e: "ent (\<lambda>_. 0) d i = 0" for d i by (simp add: ent_def ld32_def)
  have "\<not> ent_present 0" by (simp add: ent_present_def)
  then have "walk (\<lambda>_. 0) d v = None" for d v by (simp add: walk_def Let_def e)
  with \<open>\<not> ent_present 0\<close> show ?thesis using assms
    by (simp add: unmappable_def dir_shape_def page_frame_at_def e empty_kmem_def sample_kmem_def page_aligned_def)
qed

lemma sample_block: "block_address (sample T_wait empty_kmem) 257 = 0xD0909000"
  by (simp add: block_address_def index_to_addr_def sample_def)

lemma sample_block_pages: "v \<in> set (range_pages 0xD0909000 0x9000) \<Longrightarrow> page_aligned v \<and> dir_index v < 1023"
  using page_seq_props(2) [of "0xD0909000" "0xD0909000 + 0x9000" v]
  by (auto simp: range_pages_def page_align_def page_aligned_def dir_index_nat)

theorem process_kill_removes_witness:
  "\<exists>s'. process_kill 257 (sample T_wait empty_kmem) = Some s' \<and> table_ok s' \<and> \<not> live_pid s' 257 \<and> live_pid s' 2"
proof -
  have "killable (sample T_wait empty_kmem) 257"
    unfolding killable_def using sample_block empty_unmappable sample_block_pages
    by (auto simp: T_wait_257 destroyable_def page_aligned_def managed_def frame_index_nat
        frames_def) (simp_all add: sample_def sample_phys_def)
  moreover have "(2 :: pid_t) \<noteq> 257" by simp
  ultimately show ?thesis using process_kill_removes [of "sample T_wait empty_kmem" 257] by fastforce
qed


theorem syscall_pmap_driver_witness:
  "\<exists>code \<in> {EADDR, ESIZE, EALIGN, EPRIV}. syscall_pmap 0x40000000 0xB8000 0x1000 (sample T_run empty_kmem) =
    Some ((sample T_run empty_kmem)\<lparr>curr_frame := Some (zero_frame\<lparr>EAX := code\<rparr>)\<rparr>)"
  by (rule syscall_pmap_driver [OF T_run_in_call]) simp

theorem syscall_accept_offered_witness:
  "\<exists>code \<in> {ESIZE, ENOTAVAIL, EPRIV}. syscall_accept 5 0x40000000 0x1000 (sample T_run empty_kmem) =
    Some ((sample T_run empty_kmem)\<lparr>curr_frame := Some (zero_frame\<lparr>EAX := code\<rparr>)\<rparr>)"
  by (rule syscall_accept_offered [OF T_run_in_call sample_ids]) simp_all

subsection \<open>Privileges and faults\<close>


theorem syscall_kill_privilege_witness:
  "syscall_kill 257 (sample T_run empty_kmem) = Some ((sample T_run empty_kmem)\<lparr>curr_frame := Some (zero_frame\<lparr>EAX := EPRIV\<rparr>)\<rparr>)"
  by (rule syscall_kill_privilege [OF T_run_in_call]) simp_all

theorem syscall_svcown_privilege_witness:
  "\<exists>s'. syscall_svcown 1 (sample T_run empty_kmem) = Some s' \<and> service_ids s' = service_ids (sample T_run empty_kmem)"
  using syscall_svcown_privilege [OF T_run_in_call, of empty_kmem 1] by auto

theorem exception_stops_witness:
  "int_callback_common (zero_frame\<lparr>int_num := 13\<rparr>)
     ((sample T_run empty_kmem)\<lparr>cb_handle := (\<lambda>_. Some exception_callback_h), cb_eoi := (\<lambda>_. Some exception_info_h)\<rparr>) = None"
  by (rule exception_stops) simp_all

definition two_threads :: kstate where
  "two_threads = upd_process 2 (\<lambda>p. p\<lparr>pr_thread_bitmap := [3, 0]\<rparr>) (sample T_run empty_kmem)"

lemma two_threads_bits: "n \<in> bitmap_bits [3, 0] \<longleftrightarrow> n < 2"
proof (cases "n < 32")
  case True
  then show ?thesis by (simp add: bitmap_bits_def bit_three)
next
  case False
  then have "n < 64 \<Longrightarrow> n div 32 = 1" by linarith
  then show ?thesis using False by (auto simp: bitmap_bits_def)
qed

lemma two_threads_live: "live_uid two_threads u \<longleftrightarrow> u \<in> {2, 257} \<or> u = mk_uid 2 1"
proof -
  have "unat (uid_tid u) < 2 \<longleftrightarrow> uid_tid u = 0 \<or> uid_tid u = 1" by (simp add: less_2_cases_iff word_unat_eq_iff)
  then have "live_uid two_threads u \<longleftrightarrow> uid_pid u = 2 \<and> (uid_tid u = 0 \<or> uid_tid u = 1) \<or> uid_pid u = 257 \<and> uid_tid u = 0"
    by (cases "uid_pid u = 2") (auto simp: two_threads_def live_uid_process two_threads_bits sample_process_def sample_bits unat_eq_zero)
  moreover have "u = 2 \<longleftrightarrow> uid_pid u = 2 \<and> uid_tid u = 0" "u = 257 \<longleftrightarrow> uid_pid u = 257 \<and> uid_tid u = 0"
    "u = mk_uid 2 1 \<longleftrightarrow> uid_pid u = 2 \<and> uid_tid u = 1"
    using uid_eq_iff [of u 2] uid_eq_iff [of u 257] uid_eq_iff [of u "mk_uid 2 1"] by (simp_all add: word_unat_eq_iff)
  ultimately show ?thesis by blast
qed

lemma two_threads_in_call: "in_call two_threads [2, 257] zero_frame"
proof -
  have t: "thread_at two_threads u = thread_at (sample T_run empty_kmem) u" for u by (simp add: two_threads_def)
  have r: "running two_threads u = running (sample T_run empty_kmem) u" for u
    by (cases "u = mk_uid 2 1") (simp_all add: running_def two_threads_live t sample_thread_def zero_thread_def)
  have "table_ok two_threads" unfolding two_threads_def
    by (rule table_ok_upd_process) (simp_all add: sample_process_def zero_process_def)
  then have "sched_ok two_threads" using T_run_in_call [of empty_kmem]
    by (auto simp: in_call_def sched_ok_def two_threads_live t sample_thread_def)
  moreover have "sched_queue two_threads [2, 257]" using T_run_in_call [of empty_kmem]
    by (simp add: in_call_def sched_queue_def r cyclic_def sched_link_def t) (simp add: two_threads_def)
  ultimately show ?thesis by (simp add: in_call_def) (simp add: two_threads_def)
qed

theorem syscall_release_stuck_witness: "syscall_release 1 two_threads = None"
  by (rule syscall_release_stuck [OF two_threads_in_call]) (simp_all add: two_threads_live)

theorem message_find_diverges_witness:
  "\<exists>s'. message_add 257 0x01010101 (sample_src 0) True (sample (\<lambda>n. (T_wait n)\<lparr>th_msg_head := 0\<rparr>) (sample_km 0)) = Some s' \<and>
    message_find 257 0x01010002 s' = None"
proof -
  let ?s = "sample (\<lambda>n. (T_wait n)\<lparr>th_msg_head := 0\<rparr>) (sample_km 0)"
  have "\<not> port_compare 0x01010002 0x01010101"
    by (simp add: port_compare_def port_pvn_def port_tvn_def port_pid_def port_tid_def)
  then show ?thesis
    using message_find_diverges [of ?s "\<lambda>_. []" 257 "0x01010002" "0x01010101" "sample_src 0"] by (auto simp: sample_no_messages)
qed

subsection \<open>Boot and devices\<close>

theorem bitmap_find_and_set_correct_witness:
  "\<exists>i bm'. bitmap_find_and_set [1, 0] 64 = Some (int i, bm') \<and> i \<notin> {0} \<and> bitmap_bits bm' = insert i {0}"
proof -
  have "0 \<in> {..<64 :: nat}" "1 \<in> {..<64 :: nat}" by simp_all
  then have "{0} \<noteq> {..<64 :: nat}" by (metis singletonD zero_neq_one)
  then show ?thesis
    using bitmap_find_and_set_correct [of "[1, 0]" 64] by (auto simp: sample_bits BITMAP_LENGTH_def)
qed

definition full_map :: bmstack where
  "full_map = \<lparr>bms_base = Some [\<lparr>bme_next = None, bme_bitmap = - 1\<rparr>], bms_head = None\<rparr>"

theorem bmstack_exhausted_stuck_witness:
  "\<exists>bms'. bmstack_clear full_map 3 = Some bms' \<and> bmstack_used bms' = {..<32} - {3} \<and> bmstack_find_and_set bms' = None"
proof -
  have c: "bmstack_cap full_map = 32" by (simp add: full_map_def bmstack_cap_def bms_words_def)
  have u: "bmstack_used full_map = {..<32}"
    by (auto simp: full_map_def bmstack_used_def bms_words_def bitmap_bits_def bit_simps)
  have "bmstack_inv full_map"
    by (auto simp: bmstack_inv_def linked_def full_map_def nonfull_def intro!: exI [of _ "[]"])
  from bmstack_exhausted_stuck [OF this, of 3] show ?thesis by (simp add: c u)
qed

definition sample_meminfo :: meminfo where
  "sample_meminfo = \<lparr>mem_total = 0x1020000, mem_usable = 0x20000, mem_limit = 0x1020000, mmap_count = 1,
     mmaps = [\<lparr>mmap_start = 0x1001000, mmap_end = 0x1020000\<rparr>]\<rparr>"

definition sample_region :: region where
  "sample_region = \<lparr>max_mapped = 0xD0000000, next_free = 0xC0200000, idmap_valid = True\<rparr>"

theorem physical_init_ready_witness:
  "\<exists>r' p'. physical_init sample_meminfo sample_region phys_boot = Some (r', p') \<and> phys_ready p' \<and>
     bmstack_used (alloc_map p') = {..<32} - range_frames 0x1001000 0x1020000"
proof -
  have b: "frame_index (meminfo_limit_get sample_meminfo) = 32" "unat (meminfo_limit_get sample_meminfo) = 0x1020000"
    by (simp_all add: sample_meminfo_def meminfo_limit_get_def frame_index_nat)
  obtain a1 r1 where r1: "region_reserve sample_region (of_nat (BMSTACK_SIZE 32)) = Some (a1, r1)" "r1 = sample_region\<lparr>next_free := 0xC0200008\<rparr>"
    by (simp add: region_reserve_def sample_region_def addr_align_next_def addr_align_def page_align_def BITMAP_LENGTH_def BMSTACK_SIZE_def)
  obtain a2 r2 where r2: "region_reserve r1 32 = Some (a2, r2)"
    by (simp add: r1(2) region_reserve_def sample_region_def addr_align_next_def addr_align_def page_align_def)
  have m: "mmap_count sample_meminfo = 1" "length (mmaps sample_meminfo) = 1"
    "mmap_start (mmaps sample_meminfo ! 0) = 0x1001000" "mmap_end (mmaps sample_meminfo ! 0) = 0x1020000"
    by (simp_all add: sample_meminfo_def)
  have "range_ok 0x1001000 0x1020000" "fits 1 0x1001000 0x1020000" by (simp_all add: range_ok_def fits_def page_aligned_def)
  then show ?thesis
    using physical_init_ready [of sample_meminfo sample_region phys_boot, unfolded b m] r1(1) r2 by (auto simp: m)
qed

theorem region_reserve_all_above_witness:
  "sorted_wrt (\<lambda>(a, b) (c, d). b \<le> c) (fst (the (region_reserve_all sample_region [0x123, 0x4000])))"
proof -
  obtain rs r' where r: "region_reserve_all sample_region [0x123, 0x4000] = Some (rs, r')"
    by (simp add: region_reserve_def sample_region_def addr_align_next_def addr_align_def page_align_def)
  show ?thesis using region_reserve_all_above [OF r] r by (simp add: sample_region_def)
qed

definition sample_mbi :: multiboot_info where
  "sample_mbi = \<lparr>mbi_flags = 0x41, mbi_mem_upper = 0x10000, mbi_mods_count = 0, mbi_mods_addr = 0, mbi_mmap_length = 24, mbi_mmap_addr = 0x9000\<rparr>"

definition sample_mmap :: multiboot_mmap where
  "sample_mmap = \<lparr>mm_size = 20, mm_addr = 0x1000000, mm_length = 0x20000, mm_type = 1\<rparr>"

theorem meminfo_init_map_witness:
  "\<exists>m. meminfo_init sample_mbi (\<lambda>_. sample_mmap) meminfo_boot = Some m \<and>
    take (mmap_count m) (mmaps m) = [\<lparr>mmap_start = 0x1000000, mmap_end = 0x1020000\<rparr>] \<and> mem_usable m = 0x20000"
proof -
  have "mmap_layout sample_mbi (\<lambda>_. sample_mmap) (multiboot_mmap_get sample_mbi (\<lambda>_. sample_mmap) 0) [sample_mmap]"
    by (simp add: multiboot_mmap_get_def sample_mbi_def sample_mmap_def MULTIBOOT_INFO_MEM_MAP_def)
  moreover have "mmap_usable sample_mmap" "multiboot_mem_size_get sample_mbi \<noteq> 0"
    by (simp_all add: mmap_usable_def sample_mmap_def MULTIBOOT_MEMORY_AVAILABLE_def multiboot_mem_size_get_def sample_mbi_def
        MULTIBOOT_INFO_MEMORY_def)
  ultimately show ?thesis
    using meminfo_init_map [of sample_mbi "\<lambda>_. sample_mmap" "[sample_mmap]"] by (auto simp: mmap_range_def sample_mmap_def)
qed

theorem pic_irq_enable_enabled_witness:
  "\<exists>i'. pic_irq_enable 1 \<lparr>io_trace = [], io_dev = last_out\<rparr> = Some i' \<and> pic_enabled (io_trace i') = insert 1 (pic_enabled [])"
  using pic_irq_enable_enabled [of "\<lparr>io_trace = [], io_dev = last_out\<rparr>" 1] by (auto simp: pic_masks_kept_def)

definition ready_io :: io where
  "ready_io = \<lparr>io_trace = [], io_dev = (\<lambda>_ _. 0x21)\<rparr>"

lemma ready_uart: "uart_ready p 5 0 ready_io"
  by (simp add: uart_ready_0 uart_read_def inb_def ready_io_def)

definition blank_console :: console where
  "blank_console = \<lparr>debug_enabled = True, cursor_x = 3, cursor_y = 24, buffer = replicate 2000 0\<rparr>"

lemma blank_displays: "displays blank_console \<lparr>t_cell = (\<lambda>_ _. 0), t_x = 3, t_y = 24\<rparr>"
  by (auto simp: displays_def blank_console_def console_inv_def)

end
