(* ===== verification/Libh_String.thy ===== *)
theory Libh_String
  imports Memory
begin

text \<open>
  \<open>lib/libh/src/string\<close> and \<open>lib/libh/include/ctype.h\<close>: the C library that the kernel and the
  user programs link.  The functions work on the bytes of one address space; pointers are
  32-bit words and wrap.  A scan for a terminating zero that the memory does not hold runs
  forever, which is \<^term>\<open>None\<close>.  \<open>char\<close> is signed and \<open>long\<close> has 32 bits, as on the i586.
\<close>

subsection \<open>Blocks of bytes\<close>

fun memset_loop :: "nat \<Rightarrow> u32 \<Rightarrow> u32 \<Rightarrow> memory \<Rightarrow> memory" where
  "memset_loop 0 s ch m = m"
| "memset_loop (Suc len) s ch m = memset_loop len (s + 1) ch (m(s := ucast ch))"

definition memset :: "u32 \<Rightarrow> u32 \<Rightarrow> u32 \<Rightarrow> memory \<Rightarrow> u32 \<times> memory" where
  "memset ptr ch len m = (ptr, memset_loop (unat len) ptr ch m)"

fun copy_words :: "nat \<Rightarrow> nat \<Rightarrow> u32 \<Rightarrow> u32 \<Rightarrow> memory \<Rightarrow> memory" where
  "copy_words i 0 d s m = m"
| "copy_words i (Suc n) d s m =
     copy_words (Suc i) n d s (st32 m (d + 4 * of_nat i) (ld32 m (s + 4 * of_nat i)))"

fun copy_bytes :: "nat \<Rightarrow> nat \<Rightarrow> u32 \<Rightarrow> u32 \<Rightarrow> memory \<Rightarrow> memory" where
  "copy_bytes i 0 d s m = m"
| "copy_bytes i (Suc n) d s m = copy_bytes (Suc i) n d s (m(d + of_nat i := m (s + of_nat i)))"

definition memcpy :: "u32 \<Rightarrow> u32 \<Rightarrow> u32 \<Rightarrow> memory \<Rightarrow> u32 \<times> memory" where
  "memcpy dst src len m =
     (if dst mod 4 = 0 \<and> src mod 4 = 0 \<and> len mod 4 = 0
      then (dst, copy_words 0 (unat (len div 4)) dst src m)
      else (dst, copy_bytes 0 (unat len) dst src m))"

fun move_down :: "nat \<Rightarrow> u32 \<Rightarrow> u32 \<Rightarrow> memory \<Rightarrow> memory" where
  "move_down 0 pd ps m = m"
| "move_down (Suc len) pd ps m = move_down len (pd - 1) (ps - 1) (m(pd - 1 := m (ps - 1)))"

fun move_up :: "nat \<Rightarrow> u32 \<Rightarrow> u32 \<Rightarrow> memory \<Rightarrow> memory" where
  "move_up 0 pd ps m = m"
| "move_up (Suc len) pd ps m = move_up len (pd + 1) (ps + 1) (m(pd := m ps))"

definition memmove :: "u32 \<Rightarrow> u32 \<Rightarrow> u32 \<Rightarrow> memory \<Rightarrow> u32 \<times> memory" where
  "memmove dst src len m =
     (if src < dst then (dst, move_down (unat len) (dst + len) (src + len) m)
      else (dst, move_up (unat len) dst src m))"

fun memcmp_loop :: "nat \<Rightarrow> u32 \<Rightarrow> u32 \<Rightarrow> memory \<Rightarrow> int" where
  "memcmp_loop 0 a b m = 0"
| "memcmp_loop (Suc len) a b m =
     (if m a \<noteq> m b then uint (m a) - uint (m b) else memcmp_loop len (a + 1) (b + 1) m)"

definition memcmp :: "u32 \<Rightarrow> u32 \<Rightarrow> u32 \<Rightarrow> memory \<Rightarrow> int" where
  "memcmp a b len m = memcmp_loop (unat len) a b m"

subsection \<open>Strings\<close>

partial_function (option) strlen_loop :: "u32 \<Rightarrow> u32 \<Rightarrow> memory \<Rightarrow> u32 option" where
  "strlen_loop s ret m = (if m (s + ret) = 0 then Some ret else strlen_loop s (ret + 1) m)"

definition strlen :: "u32 \<Rightarrow> memory \<Rightarrow> u32 option" where
  "strlen s m = strlen_loop s 0 m"

partial_function (option) strcmp_loop :: "u32 \<Rightarrow> u32 \<Rightarrow> u32 \<Rightarrow> memory \<Rightarrow> u32 option" where
  "strcmp_loop a b i m =
     (if m (a + i) \<noteq> 0 \<and> m (a + i) = m (b + i) then strcmp_loop a b (i + 1) m else Some i)"

definition strcmp :: "u32 \<Rightarrow> u32 \<Rightarrow> memory \<Rightarrow> int option" where
  "strcmp a b m = do {
     i \<leftarrow> strcmp_loop a b 0 m;
     Some (if sint (m (a + i)) > sint (m (b + i)) then 1
           else if m (a + i) = m (b + i) then 0 else - 1)
   }"

partial_function (option) strcpy_loop :: "u32 \<Rightarrow> u32 \<Rightarrow> u32 \<Rightarrow> memory \<Rightarrow> (u32 \<times> memory) option" where
  "strcpy_loop dst src i m =
     (if m (src + i) = 0 then Some (i, m)
      else strcpy_loop dst src (i + 1) (m(dst + i := m (src + i))))"

definition strcpy :: "u32 \<Rightarrow> u32 \<Rightarrow> memory \<Rightarrow> (u32 \<times> memory) option" where
  "strcpy dst src m = do {
     (i, m) \<leftarrow> strcpy_loop dst src 0 m;
     Some (dst, m(dst + i := 0))
   }"

text \<open>The loop of \<open>strncpy\<close> tests the pointer \<open>src\<close>, not the character it points to.\<close>

fun strncpy_loop :: "nat \<Rightarrow> u32 \<Rightarrow> u32 \<Rightarrow> memory \<Rightarrow> nat \<times> u32 \<times> memory" where
  "strncpy_loop 0 s src m = (0, s, m)"
| "strncpy_loop (Suc n) s src m =
     (if src = 0 then (Suc n, s, m) else strncpy_loop n (s + 1) (src + 1) (m(s := m src)))"

definition strncpy :: "u32 \<Rightarrow> u32 \<Rightarrow> u32 \<Rightarrow> memory \<Rightarrow> u32 \<times> memory" where
  "strncpy dst src n m =
     (let (n, s, m) = strncpy_loop (unat n) dst src m in
      (dst, if n \<noteq> 0 then m(s := 0) else m))"

partial_function (option) strchr_loop :: "u32 \<Rightarrow> u32 \<Rightarrow> memory \<Rightarrow> u32 option" where
  "strchr_loop s ch m = (if m s \<noteq> 0 \<and> scast (m s) \<noteq> ch then strchr_loop (s + 1) ch m else Some s)"

definition strchr :: "u32 \<Rightarrow> u32 \<Rightarrow> memory \<Rightarrow> u32 option" where
  "strchr s ch m = do {
     s \<leftarrow> strchr_loop s ch m;
     Some (if scast (m s) = ch then s else 0)
   }"

fun strrchr_loop :: "nat \<Rightarrow> u32 \<Rightarrow> u32 \<Rightarrow> memory \<Rightarrow> nat" where
  "strrchr_loop 0 s ch m = 0"
| "strrchr_loop (Suc i) s ch m =
     (if scast (m (s + of_nat (Suc i))) \<noteq> ch then strrchr_loop i s ch m else Suc i)"

definition strrchr :: "u32 \<Rightarrow> u32 \<Rightarrow> memory \<Rightarrow> u32 option" where
  "strrchr s ch m = do {
     i \<leftarrow> strlen s m;
     let i = of_nat (strrchr_loop (unat i) s ch m);
     Some (if scast (m (s + i)) = ch then s + i else 0)
   }"

subsection \<open>Character classes\<close>

definition isalpha :: "u32 \<Rightarrow> bool" where
  "isalpha a \<longleftrightarrow> (a OR 0x20) - 0x61 < 26"

definition isdigit :: "u32 \<Rightarrow> bool" where
  "isdigit a \<longleftrightarrow> a - 0x30 < 10"

definition islower :: "u32 \<Rightarrow> bool" where
  "islower a \<longleftrightarrow> a - 0x61 < 26"

definition isupper :: "u32 \<Rightarrow> bool" where
  "isupper a \<longleftrightarrow> a - 0x41 < 26"

definition toupper :: "u32 \<Rightarrow> u32" where
  "toupper a = a OR 0x20"

definition tolower :: "u32 \<Rightarrow> u32" where
  "tolower a = a AND 0x5F"


subsection \<open>Filling and copying\<close>

lemma unat_minus_1: "unat (y - 1 :: u32) = (if y = 0 then 4294967295 else unat y - 1)"
proof (cases "y = 0")
  case True
  then have "y - 1 = (- 1 :: u32)" by simp
  then show ?thesis using True by (simp only: unsigned_minus_1_eq_mask) (simp add: mask_eq_exp_minus_1)
qed (simp add: unat_minus_one)

lemma u8_no_bit: "8 \<le> n \<Longrightarrow> \<not> bit (b :: u8) n"
  by (auto dest: bit_imp_le_length)

lemma memset_loop_mem:
  "n \<le> 4294967296 \<Longrightarrow> memset_loop n s ch m = memset_mem m s (ucast ch) n"
proof (induction n arbitrary: s m)
  case 0
  then show ?case by (simp add: memset_mem_def)
next
  case (Suc n)
  show ?case
  proof (rule ext)
    fix x
    have x: "x - (s + 1) = (x - s) - 1" by simp
    have IH: "memset_loop (Suc n) s ch m x = memset_mem (m(s := ucast ch)) (s + 1) (ucast ch) n x"
      using Suc by simp
    show "memset_loop (Suc n) s ch m x = memset_mem m s (ucast ch) (Suc n) x"
      unfolding IH memset_mem_def x using Suc.prems unat_minus_1 [of "x - s"] by (auto simp: unat_eq_0 split: if_splits)
  qed
qed

lemma memset_fills: "memset p ch len m = (p, memset_mem m p (ucast ch) (unat len))"
  using unat32_less [of len] by (simp add: memset_def memset_loop_mem)

lemma move_up_mem:
  "\<lbrakk>n \<le> 4294967296; pd = ps \<or> n \<le> unat (pd - ps)\<rbrakk> \<Longrightarrow> move_up n pd ps m = memcpy_mem m pd ps n"
proof (induction n arbitrary: pd ps m)
  case 0
  then show ?case by (simp add: memcpy_mem_def)
next
  case (Suc n)
  show ?case
  proof (rule ext)
    fix x
    have x: "x - (pd + 1) = (x - pd) - 1" "ps + 1 + (x - (pd + 1)) = ps + (x - pd)" by simp_all
    have IH: "move_up (Suc n) pd ps m x = memcpy_mem (m(pd := m ps)) (pd + 1) (ps + 1) n x"
      using Suc by (auto simp: Suc_le_eq)
    have "ps + (x - pd) \<noteq> pd \<or> pd = ps" if "unat (x - pd) < Suc n" "x \<noteq> pd"
    proof (rule ccontr)
      assume "\<not> (ps + (x - pd) \<noteq> pd \<or> pd = ps)"
      then have "x - pd = pd - ps" "pd \<noteq> ps" by (auto simp: algebra_simps)
      with that Suc.prems show False by simp
    qed
    then show "move_up (Suc n) pd ps m x = memcpy_mem m pd ps (Suc n) x"
      unfolding IH memcpy_mem_def x using Suc.prems(1) unat_minus_1 [of "x - pd"]
      by (auto simp: unat_eq_0 split: if_splits)
  qed
qed

lemma copy_bytes_move_up: "copy_bytes i n d s m = move_up n (d + of_nat i) (s + of_nat i) m"
  by (induction n arbitrary: i m) (simp_all add: algebra_simps)

lemma move_up_add: "move_up (a + n) pd ps m = move_up n (pd + of_nat a) (ps + of_nat a) (move_up a pd ps m)"
  by (induction a arbitrary: pd ps m) (simp_all add: algebra_simps)

lemma st32_bytes: "st32 m pd (ld32 m ps) =
  m(pd := m ps, pd + 1 := m (ps + 1), pd + 2 := m (ps + 2), pd + 3 := m (ps + 3))"
proof -
  have "ucast (ld32 m ps) = m ps" "ucast (drop_bit 8 (ld32 m ps)) = m (ps + 1)"
    "ucast (drop_bit 16 (ld32 m ps)) = m (ps + 2)" "ucast (drop_bit 24 (ld32 m ps)) = m (ps + 3)"
    by (auto intro!: bit_word_eqI simp: ld32_def bit_simps u8_no_bit)
  then show ?thesis by (simp add: st32_def)
qed

lemma move_up_4:
  assumes "word_aligned pd" and "word_aligned ps"
  shows "move_up 4 pd ps m = st32 m pd (ld32 m ps)"
proof -
  have ne: "pd + of_nat i \<noteq> ps + of_nat j" if "i < j" "j < 4" for i j
  proof (cases "pd = ps")
    case True
    moreover have "(of_nat i :: u32) \<noteq> of_nat j" using that by (simp add: word_unat_eq_iff unat_of_nat)
    ultimately show ?thesis by simp
  next
    case False
    then show ?thesis using word_aligned_bytes [OF assms] that by auto
  qed
  show ?thesis
    using ne [of 0 1] ne [of 0 2] ne [of 0 3] ne [of 1 2] ne [of 1 3] ne [of 2 3]
    by (simp add: st32_bytes eval_nat_numeral add.assoc)
qed

lemma word_aligned_add4: "word_aligned a \<Longrightarrow> word_aligned (a + 4)"
  unfolding word_aligned_def by (simp add: unat_word_ariths mod_mod_cancel mod_add_left_eq)

lemma copy_words_move_up:
  "\<lbrakk>word_aligned (d + 4 * of_nat i); word_aligned (s + 4 * of_nat i)\<rbrakk> \<Longrightarrow>
   copy_words i n d s m = move_up (4 * n) (d + 4 * of_nat i) (s + 4 * of_nat i) m"
proof (induction n arbitrary: i m)
  case 0
  then show ?case by simp
next
  case (Suc n)
  have "move_up (4 * Suc n) (d + 4 * of_nat i) (s + 4 * of_nat i) m =
    move_up (4 * n) (d + 4 * of_nat (Suc i)) (s + 4 * of_nat (Suc i))
      (move_up 4 (d + 4 * of_nat i) (s + 4 * of_nat i) m)"
    using move_up_add [of 4 "4 * n"] by (simp add: algebra_simps)
  moreover have "word_aligned (d + 4 * of_nat (Suc i))" "word_aligned (s + 4 * of_nat (Suc i))"
    using word_aligned_add4 [OF Suc.prems(1)] word_aligned_add4 [OF Suc.prems(2)]
    by (simp_all add: algebra_simps)
  ultimately show ?case using Suc by (simp add: move_up_4)
qed

lemma unat_mod_4: "a mod 4 = 0 \<longleftrightarrow> word_aligned (a :: u32)"
  by (simp add: word_aligned_def word_unat_eq_iff unat_mod)

lemma memcpy_bytes_eq: "memcpy dst src len m = (dst, copy_bytes 0 (unat len) dst src m)"
proof (cases "dst mod 4 = 0 \<and> src mod 4 = 0 \<and> len mod 4 = 0")
  case True
  then have "unat len mod 4 = 0" by (simp add: unat_mod_4 word_aligned_def)
  then have "4 * unat (len div 4) = unat len" by (simp add: unat_div mult.commute [of 4] dvd_div_mult_self mod_eq_0_iff_dvd)
  then show ?thesis using True copy_words_move_up [of dst 0 src "unat (len div 4)" m]
    by (simp add: memcpy_def unat_mod_4 copy_bytes_move_up)
qed (simp only: memcpy_def if_False)

lemma memcpy_copies:
  assumes "dst = src \<or> unat len \<le> unat (dst - src)"
  shows "memcpy dst src len m = (dst, memcpy_mem m dst src (unat len))"
  using unat32_less [of len] assms by (simp add: memcpy_bytes_eq copy_bytes_move_up move_up_mem)

lemma move_down_mem:
  "\<lbrakk>n \<le> 4294967296; d = s \<or> n \<le> unat (s - d)\<rbrakk> \<Longrightarrow>
   move_down n (d + of_nat n) (s + of_nat n) m = memcpy_mem m d s n"
proof (induction n arbitrary: m)
  case 0
  then show ?case by (simp add: memcpy_mem_def)
next
  case (Suc n)
  have n: "unat (of_nat n :: u32) = n" using Suc.prems(1) by (simp add: unat_of_nat)
  have step: "move_down (Suc n) (d + of_nat (Suc n)) (s + of_nat (Suc n)) m =
    memcpy_mem (m(d + of_nat n := m (s + of_nat n))) d s n"
    using Suc by (simp add: algebra_simps) (metis Suc_leD)
  show ?case
  proof (rule ext)
    fix x
    define y where "y = x - d"
    have x: "x = d + y" "x - d = y" by (simp_all add: y_def)
    have last: "y = of_nat n \<longleftrightarrow> unat y = n" by (metis n word_unat_eq_iff)
    have sep: "s + y \<noteq> d + of_nat n \<or> d = s" if "unat y < n"
    proof (rule ccontr)
      assume "\<not> (s + y \<noteq> d + of_nat n \<or> d = s)"
      then have eq: "s - d = of_nat n - y" and "d \<noteq> s" by (auto simp: algebra_simps)
      moreover have "unat (of_nat n - y) \<le> n"
        using that n by (subst unat_sub) (auto simp: word_le_nat_alt)
      ultimately show False using Suc.prems(2) by auto
    qed
    show "move_down (Suc n) (d + of_nat (Suc n)) (s + of_nat (Suc n)) m x = memcpy_mem m d s (Suc n) x"
    proof (cases "unat y < n")
      case True
      then show ?thesis using sep unfolding step memcpy_mem_def x(2) by auto
    next
      case False
      then show ?thesis unfolding step memcpy_mem_def x(2) less_Suc_eq last [symmetric] by (auto simp: x(1))
    qed
  qed
qed

lemma memmove_moves:
  assumes "unat dst + unat len \<le> 2 ^ 32" and "unat src + unat len \<le> 2 ^ 32"
  shows "memmove dst src len m = (dst, memcpy_mem m dst src (unat len))"
proof (cases "src < dst")
  case True
  have "unat (src - dst) = 2 ^ 32 - (unat dst - unat src)"
    using True by (simp add: word_less_nat_alt unat_sub_if')
  then have "unat len \<le> unat (src - dst)" using assms by simp
  then show ?thesis using True unat32_less [of len] move_down_mem [of "unat len" dst src m]
    by (simp add: memmove_def)
next
  case False
  show ?thesis
  proof (cases "dst = src")
    case False
    then have "unat (dst - src) = 2 ^ 32 - (unat src - unat dst)"
      using \<open>\<not> src < dst\<close> by (simp add: word_less_nat_alt unat_sub_if' word_unat_eq_iff)
    then have "unat len \<le> unat (dst - src)" using assms by simp
    then show ?thesis using \<open>\<not> src < dst\<close> unat32_less [of len] by (simp add: memmove_def move_up_mem)
  qed (use unat32_less [of len] in \<open>simp add: memmove_def move_up_mem\<close>)
qed

lemma memcmp_zero_iff:
  "memcmp a b len m = 0 \<longleftrightarrow> (\<forall>i<unat len. m (a + of_nat i) = m (b + of_nat i))"
proof -
  have "memcmp_loop n a b m = 0 \<longleftrightarrow> (\<forall>i<n. m (a + of_nat i) = m (b + of_nat i))" for n
  proof (induction n arbitrary: a b)
    case (Suc n)
    have "(\<forall>i<Suc n. m (a + of_nat i) = m (b + of_nat i)) \<longleftrightarrow>
      m a = m b \<and> (\<forall>i<n. m (a + 1 + of_nat i) = m (b + 1 + of_nat i))"
      unfolding All_less_Suc2 by (simp add: add.assoc)
    then show ?case using Suc.IH [of "a + 1" "b + 1"] by (simp add: word_uint_eq_iff)
  qed simp
  then show ?thesis by (simp add: memcmp_def)
qed

subsection \<open>Strings in memory\<close>

text \<open>\<^term>\<open>cstr m s bs\<close>: the bytes \<open>bs\<close>, none of them zero, lie at \<open>s\<close> and a zero follows.\<close>

fun cstr :: "memory \<Rightarrow> u32 \<Rightarrow> u8 list \<Rightarrow> bool" where
  "cstr m s [] \<longleftrightarrow> m s = 0"
| "cstr m s (b # bs) \<longleftrightarrow> m s = b \<and> b \<noteq> 0 \<and> cstr m (s + 1) bs"

lemma cstr_unique: "cstr m s as \<Longrightarrow> cstr m s bs \<Longrightarrow> as = bs"
proof (induction as arbitrary: s bs)
  case Nil
  then show ?case by (cases bs) auto
next
  case (Cons a as)
  then show ?case by (cases bs) auto
qed

lemma cstr_nth: "cstr m s bs \<Longrightarrow> i < length bs \<Longrightarrow> m (s + of_nat i) = bs ! i \<and> bs ! i \<noteq> 0"
proof (induction bs arbitrary: s i)
  case (Cons b bs)
  then show ?case by (cases i) (auto simp flip: add.assoc)
qed simp

lemma cstr_end: "cstr m s bs \<Longrightarrow> m (s + of_nat (length bs)) = 0"
  by (induction bs arbitrary: s) (auto simp flip: add.assoc)

lemma cstr_append: "cstr m s (as @ bs) \<Longrightarrow> cstr m (s + of_nat (length as)) bs"
  by (induction as arbitrary: s) (auto simp flip: add.assoc)

lemma cstr_length: "cstr m s bs \<Longrightarrow> length bs < 4294967296"
proof (rule ccontr)
  assume c: "cstr m s bs" and "\<not> length bs < 4294967296"
  then have "4294967296 \<le> length bs" by simp
  define r where "r = length bs - 4294967296"
  then have r: "r < length bs" and l: "length bs = r + 4294967296" using \<open>4294967296 \<le> length bs\<close> by simp_all
  have "(of_nat (length bs) :: u32) = of_nat r"
    unfolding word_unat_eq_iff unat_of_nat using l by simp
  with cstr_end [OF c] cstr_nth [OF c r] show False by simp
qed

lemma strlen_loop_cstr:
  "cstr m (s + i) bs \<Longrightarrow> strlen_loop s i m = Some (i + of_nat (length bs))"
proof (induction bs arbitrary: i)
  case Nil
  then show ?case by (subst strlen_loop.simps) simp
next
  case (Cons b bs)
  then show ?case by (subst strlen_loop.simps) (simp add: add.assoc)
qed

lemma strlen_cstr: "cstr m s bs \<Longrightarrow> strlen s m = Some (of_nat (length bs))"
  using strlen_loop_cstr [of m s 0 bs] by (simp add: strlen_def)

lemma strlen_terminated: "strlen s m = Some n \<Longrightarrow> \<exists>x. m x = 0"
  unfolding strlen_def
  by (rule strlen_loop.raw_induct [where P = "\<lambda>_ _ m _. \<exists>x. m x = 0"]) (auto split: if_splits)

text \<open>The order of \<open>strcmp\<close>: the first byte that differs decides, as a signed character.\<close>

fun str_order :: "u8 list \<Rightarrow> u8 list \<Rightarrow> int" where
  "str_order [] [] = 0"
| "str_order [] (b # bs) = (if sint b < 0 then 1 else - 1)"
| "str_order (a # as) [] = (if sint a < 0 then - 1 else 1)"
| "str_order (a # as) (b # bs) =
     (if a = b then str_order as bs else if sint b < sint a then 1 else - 1)"

lemma sint_nonzero: "b \<noteq> 0 \<Longrightarrow> sint (b :: u8) \<noteq> 0"
  by (metis sint_0 signed_word_eqI)

lemma strcmp_loop_cstr:
  "\<lbrakk>cstr m (a + i) as; cstr m (b + i) bs\<rbrakk> \<Longrightarrow>
   \<exists>j. strcmp_loop a b i m = Some j \<and>
       (if sint (m (a + j)) > sint (m (b + j)) then 1
        else if m (a + j) = m (b + j) then 0 else - 1) = str_order as bs"
proof (induction as bs arbitrary: i rule: str_order.induct)
  case 1
  then show ?case by (subst strcmp_loop.simps) simp
next
  case (2 b bs)
  then show ?case using sint_nonzero [of b] by (subst strcmp_loop.simps) auto
next
  case (3 a as)
  then show ?case using sint_nonzero [of a] by (subst strcmp_loop.simps) auto
next
  case (4 x xs y ys)
  show ?case
  proof (cases "x = y")
    case True
    then show ?thesis using 4 by (subst strcmp_loop.simps) (auto simp: add.assoc)
  next
    case False
    then show ?thesis using 4 by (subst strcmp_loop.simps) auto
  qed
qed

lemma strcmp_cstr:
  assumes "cstr m a as" and "cstr m b bs"
  shows "strcmp a b m = Some (str_order as bs)"
  using strcmp_loop_cstr [of m a 0 as b bs] assms by (auto simp: strcmp_def)

lemma str_order_zero_iff: "str_order as bs = 0 \<longleftrightarrow> as = bs"
  by (induction as bs rule: str_order.induct) auto

text \<open>
  \<open>strcpy\<close> copies the string and its terminator, provided no byte is written before it is read.
\<close>

lemma cstr_upd:
  "\<lbrakk>cstr m s bs; length bs < unat (x - s)\<rbrakk> \<Longrightarrow> cstr (m(x := v)) s bs"
proof (induction bs arbitrary: s)
  case (Cons b bs)
  have x: "x - (s + 1) = (x - s) - 1" by simp
  have "length bs < unat (x - (s + 1))"
    unfolding x using Cons.prems(2) unat_minus_1 [of "x - s"] by (auto split: if_splits)
  moreover have "x \<noteq> s" using Cons.prems(2) by auto
  ultimately show ?case using Cons by simp
qed auto

lemma strcpy_loop_cstr:
  "\<lbrakk>cstr m (src + i) bs; length bs < unat (dst - src)\<rbrakk> \<Longrightarrow>
   strcpy_loop dst src i m =
     Some (i + of_nat (length bs), move_up (length bs) (dst + i) (src + i) m)"
proof (induction bs arbitrary: i m)
  case Nil
  then show ?case by (subst strcpy_loop.simps) simp
next
  case (Cons b bs)
  have d: "dst + i - (src + (i + 1)) = (dst - src) - 1" by simp
  have "length bs < unat (dst + i - (src + (i + 1)))"
    unfolding d using Cons.prems(2) unat_minus_1 [of "dst - src"] by (auto split: if_splits)
  moreover have "cstr m (src + (i + 1)) bs" using Cons.prems(1) by (simp add: add.assoc)
  ultimately have "cstr (m(dst + i := m (src + i))) (src + (i + 1)) bs" by (intro cstr_upd)
  then have "strcpy_loop dst src (i + 1) (m(dst + i := m (src + i))) =
      Some (i + 1 + of_nat (length bs),
            move_up (length bs) (dst + (i + 1)) (src + (i + 1)) (m(dst + i := m (src + i))))"
    using Cons.IH Cons.prems(2) by simp
  then show ?case using Cons.prems(1) by (subst strcpy_loop.simps) (simp add: add.assoc)
qed

lemma cstrI:
  "\<lbrakk>\<And>i. i < length bs \<Longrightarrow> m (s + of_nat i) = bs ! i \<and> bs ! i \<noteq> 0; m (s + of_nat (length bs)) = 0\<rbrakk> \<Longrightarrow>
   cstr m s bs"
proof (induction bs arbitrary: s)
  case (Cons b bs)
  have "cstr m (s + 1) bs"
  proof (rule Cons.IH)
    show "m (s + 1 + of_nat i) = bs ! i \<and> bs ! i \<noteq> 0" if "i < length bs" for i
      using Cons.prems(1) [of "Suc i"] that by (simp add: add.assoc)
  qed (use Cons.prems(2) in \<open>simp add: add.assoc\<close>)
  then show ?case using Cons.prems(1) [of 0] by simp
qed simp

lemma strcpy_cstr:
  assumes "cstr m src bs" and "length bs < unat (dst - src)"
  shows "\<exists>m'. strcpy dst src m = Some (dst, m') \<and> cstr m' dst bs \<and>
              (\<forall>x. length bs < unat (x - dst) \<longrightarrow> m' x = m x)"
proof -
  have len: "length bs < 4294967296" using assms(1) by (rule cstr_length)
  let ?m = "memcpy_mem m dst src (length bs)"
  have copy: "strcpy dst src m = Some (dst, ?m(dst + of_nat (length bs) := 0))"
    using strcpy_loop_cstr [of m src 0 bs dst] assms len by (simp add: strcpy_def move_up_mem)
  have idx: "unat (of_nat i :: u32) = i" if "i \<le> length bs" for i
    using that len by (simp add: unat_of_nat)
  have "cstr (?m(dst + of_nat (length bs) := 0)) dst bs"
  proof (rule cstrI)
    fix i assume i: "i < length bs"
    then have "(of_nat i :: u32) \<noteq> of_nat (length bs)" using idx by (metis less_imp_le nat_neq_iff order_refl)
    with i show "(?m(dst + of_nat (length bs) := 0)) (dst + of_nat i) = bs ! i \<and> bs ! i \<noteq> 0"
      using cstr_nth [OF assms(1) i] idx [of i] by (simp add: memcpy_mem_def)
  qed simp
  moreover have "(?m(dst + of_nat (length bs) := 0)) x = m x" if "length bs < unat (x - dst)" for x
    using that idx [of "length bs"] by (auto simp: memcpy_mem_def)
  ultimately show ?thesis using copy by blast
qed

text \<open>
  \<open>strncpy\<close> moves exactly \<open>n\<close> bytes whatever they are: the terminator neither stops the copy nor
  pads the destination.
\<close>

lemma strncpy_loop_move:
  "unat src + n \<le> 4294967296 \<Longrightarrow> src \<noteq> 0 \<Longrightarrow>
   strncpy_loop n s src m = (0, s + of_nat n, move_up n s src m)"
proof (induction n arbitrary: s src m)
  case (Suc n)
  show ?case
  proof (cases "n = 0")
    case False
    then have "unat (src + 1) = unat src + 1" using Suc.prems(1)
      by (simp add: unat_word_ariths)
    then have "src + 1 \<noteq> 0" "unat (src + 1) + n \<le> 4294967296" using Suc.prems(1) by (auto simp: unat_eq_0)
    then show ?thesis using Suc by (simp add: add.assoc fun_upd_def)
  qed (use Suc in \<open>simp add: fun_upd_def\<close>)
qed simp

lemma strncpy_moves:
  assumes "unat src + unat n \<le> 4294967296" and "src \<noteq> 0"
    and "dst = src \<or> unat n \<le> unat (dst - src)"
  shows "strncpy dst src n m = (dst, memcpy_mem m dst src (unat n))"
  using strncpy_loop_move [OF assms(1,2)] assms(3) unat32_less [of n]
  by (simp add: strncpy_def move_up_mem)

subsection \<open>Searching\<close>

lemma takeWhile_shorter: "x \<in> set bs \<Longrightarrow> \<not> P x \<Longrightarrow> length (takeWhile P bs) < length bs"
  by (induction bs) auto

lemma strchr_loop_cstr:
  "cstr m s bs \<Longrightarrow>
   strchr_loop s ch m = Some (s + of_nat (length (takeWhile (\<lambda>b. scast b \<noteq> ch) bs)))"
proof (induction bs arbitrary: s)
  case Nil
  then show ?case by (subst strchr_loop.simps) simp
next
  case (Cons b bs)
  then show ?case by (subst strchr_loop.simps) (auto simp: add.assoc)
qed

text \<open>The first position of \<open>ch\<close>, the terminator included; \<open>NULL\<close> when there is none.\<close>

lemma scast_eq_char: "(scast (b :: u8) :: u32) = scast c \<longleftrightarrow> b = c"
proof -
  have "ucast (scast x :: u32) = x" for x :: u8
    by (rule bit_word_eqI) (simp add: bit_simps)
  then show ?thesis by metis
qed

lemma strchr_cstr:
  assumes "cstr m s bs"
  shows "strchr s ch m = Some
    (if ch = 0 then s + of_nat (length (takeWhile (\<lambda>b. scast b \<noteq> ch) bs))
     else if ch \<in> scast ` set bs then s + of_nat (length (takeWhile (\<lambda>b. scast b \<noteq> ch) bs)) else 0)"
proof -
  let ?k = "length (takeWhile (\<lambda>b. scast b \<noteq> ch) bs)"
  have run: "strchr s ch m = Some (if scast (m (s + of_nat ?k)) = ch then s + of_nat ?k else 0)"
    using strchr_loop_cstr [OF assms] by (simp add: strchr_def)
  show ?thesis
  proof (cases "ch \<in> scast ` set bs")
    case True
    then have k: "?k < length bs"
      by (auto intro: takeWhile_shorter)
    then have "scast (bs ! ?k) = ch" using nth_length_takeWhile by blast
    then show ?thesis using run cstr_nth [OF assms k] True by simp
  next
    case False
    then have all: "takeWhile (\<lambda>b. scast b \<noteq> ch) bs = bs" by (subst takeWhile_eq_all_conv) auto
    have "scast (m (s + of_nat ?k)) = (0 :: u32)" unfolding all cstr_end [OF assms] by simp
    then show ?thesis unfolding run using False by (simp only: if_False) auto
  qed
qed

lemma strrchr_loop_last:
  "\<lbrakk>strrchr_loop n s ch m = i\<rbrakk> \<Longrightarrow>
   i \<le> n \<and> (i = 0 \<or> scast (m (s + of_nat i)) = ch) \<and> (\<forall>j. i < j \<and> j \<le> n \<longrightarrow> scast (m (s + of_nat j)) \<noteq> ch)"
proof (induction n)
  case (Suc n)
  then show ?case by (auto split: if_splits simp: le_Suc_eq)
qed simp

subsection \<open>Character classes\<close>

text \<open>\<open>_toupper\<close> makes lower-case letters and \<open>_tolower\<close> upper-case ones.\<close>

lemma toupper_lowers:
  assumes "isupper a"
  shows "islower (toupper a)"
proof -
  define k where "k = unat (a - 0x41)"
  have k: "k < 26" "a = 0x41 + of_nat k"
    using assms by (simp_all add: k_def isupper_def word_less_nat_alt)
  have "list_all (\<lambda>k. islower (toupper (0x41 + of_nat k))) [0..<26]" by code_simp
  with k show ?thesis by (simp add: list_all_iff)
qed
text \<open>
  C29. The word-wise path of memcpy for aligned operands has the same effect as copying byte by byte
  from the lowest address, whatever the operands, overlapping or wrapping ranges included.
\<close>

theorem memcpy_equals_bytes: "memcpy dst src len m = (dst, copy_bytes 0 (unat len) dst src m)"
  by (rule memcpy_bytes_eq)

end
