(* ===== verification/Libh_Printf.thy ===== *)
theory Libh_Printf
  imports Libh_String
begin

text \<open>
  \<open>lib/libh/src/stdio\<close>: formatted output, as the kernel's log and the user programs use it.
  The characters go to \<open>putchar\<close>, which the program that links the library provides: it is a
  parameter, an operation on a state \<open>'s\<close>.  The format and the strings lie in memory, the
  digits in the local array \<open>buf\<close> of 32 characters, in which a pointer is an index; moving it
  below the array, taking an argument that was not passed and overflow of a \<open>long\<close> are
  \<^term>\<open>None\<close>.
\<close>

type_synonym 's sink = "u8 \<Rightarrow> 's \<Rightarrow> 's option"

text \<open>The library's own \<open>putchar\<close>, a weak symbol that discards the character.\<close>

definition putchar_weak :: "u8 \<Rightarrow> 's \<Rightarrow> (int \<times> 's) option" where
  "putchar_weak c s = Some (0, s)"

subsection \<open>Numbers\<close>

text \<open>\<open>*--s = v\<close> in the array.\<close>

definition poke :: "nat \<Rightarrow> u8 \<Rightarrow> u8 list \<Rightarrow> (nat \<times> u8 list) option" where
  "poke s v buf = (case s of 0 \<Rightarrow> None | Suc s \<Rightarrow> do { buf \<leftarrow> arr_set buf s v; Some (s, buf) })"

text \<open>The macro \<open>FMT\<close>: run the loop, and write a single zero if it wrote nothing.\<close>

definition FMT :: "nat \<Rightarrow> (nat \<times> u8 list) option \<Rightarrow> (nat \<times> u8 list) option" where
  "FMT prev x = do { (s, buf) \<leftarrow> x; if s = prev then poke s 0x30 buf else Some (s, buf) }"

definition xdigits :: "u8 list" where
  "xdigits = [0x30, 0x31, 0x32, 0x33, 0x34, 0x35, 0x36, 0x37, 0x38, 0x39, 0x41, 0x42, 0x43, 0x44, 0x45, 0x46]"

lemma unat_drop_bit_less:
  "x \<noteq> 0 \<Longrightarrow> unat (drop_bit 4 x) < unat (x :: u32)" "x \<noteq> 0 \<Longrightarrow> unat (drop_bit 3 x) < unat (x :: u32)"
  by (simp_all add: drop_bit_eq_div unat_div unat_gt_0)

lemma unat_div_less: "x \<noteq> 0 \<Longrightarrow> unat (x div 10) < unat (x :: u32)"
  by (simp add: unat_div unat_gt_0)

function fmt_x_loop :: "u8 \<Rightarrow> u32 \<Rightarrow> nat \<Rightarrow> u8 list \<Rightarrow> (nat \<times> u8 list) option" where
  "fmt_x_loop lower x s buf =
     (if x = 0 then Some (s, buf)
      else do {
        (s, buf) \<leftarrow> poke s ((xdigits ! unat (x AND 0xF)) OR (lower AND 0x20)) buf;
        fmt_x_loop lower (drop_bit 4 x) s buf
      })"
  by auto
termination
  by (relation "measure (\<lambda>(_, x, _, _). unat x)") (auto simp: unat_drop_bit_less)

definition fmt_x :: "u32 \<Rightarrow> nat \<Rightarrow> u8 \<Rightarrow> u8 list \<Rightarrow> (nat \<times> u8 list) option" where
  "fmt_x x s lower buf = FMT s (fmt_x_loop lower x s buf)"

function fmt_o_loop :: "u32 \<Rightarrow> nat \<Rightarrow> u8 list \<Rightarrow> (nat \<times> u8 list) option" where
  "fmt_o_loop x s buf =
     (if x = 0 then Some (s, buf)
      else do {
        (s, buf) \<leftarrow> poke s (0x30 + ucast (x AND 0x7)) buf;
        fmt_o_loop (drop_bit 3 x) s buf
      })"
  by auto
termination
  by (relation "measure (\<lambda>(x, _, _). unat x)") (auto simp: unat_drop_bit_less)

definition fmt_o :: "u32 \<Rightarrow> nat \<Rightarrow> u8 list \<Rightarrow> (nat \<times> u8 list) option" where
  "fmt_o x s buf = FMT s (fmt_o_loop x s buf)"

function fmt_u_loop :: "u32 \<Rightarrow> nat \<Rightarrow> u8 list \<Rightarrow> (nat \<times> u8 list) option" where
  "fmt_u_loop u s buf =
     (if u = 0 then Some (s, buf)
      else do {
        (s, buf) \<leftarrow> poke s (0x30 + ucast (u mod 10)) buf;
        fmt_u_loop (u div 10) s buf
      })"
  by auto
termination
  by (relation "measure (\<lambda>(x, _, _). unat x)") (auto simp: unat_div_less)

definition fmt_u :: "u32 \<Rightarrow> nat \<Rightarrow> u8 list \<Rightarrow> (nat \<times> u8 list) option" where
  "fmt_u u s buf = FMT s (fmt_u_loop u s buf)"

declare fmt_x_loop.simps [simp del] fmt_o_loop.simps [simp del] fmt_u_loop.simps [simp del]

subsection \<open>Widths\<close>

partial_function (option) get_n_scan :: "memory \<Rightarrow> u32 \<Rightarrow> u32 option" where
  "get_n_scan m cur =
     (if m cur \<noteq> 0 \<and> isdigit (scast (m cur)) then get_n_scan m (cur + 1) else Some cur)"

function get_n_sum :: "memory \<Rightarrow> u32 \<Rightarrow> u32 \<Rightarrow> u32 \<Rightarrow> u32 \<Rightarrow> u32" where
  "get_n_sum m str cur n i =
     (if cur = str then n
      else get_n_sum m str (cur - 1) (n + (scast (m (cur - 1)) - 0x30) * i) (i * 10))"
  by auto
termination
proof (relation "measure (\<lambda>(_, str, cur, _, _). unat (cur - str))")
  show "((m, str, cur - 1, n', i'), m, str, cur, n, i) \<in> measure (\<lambda>(_, str, cur, _, _). unat (cur - str))"
    if "cur \<noteq> str" for m and str cur n i n' i' :: u32
  proof -
    have e: "cur - 1 - str = (cur - str) - 1" by simp
    have "unat ((cur - str) - 1) < unat (cur - str)"
      using that unat_minus_1 [of "cur - str"] by (simp add: unat_gt_0)
    then show ?thesis unfolding in_measure prod.case e .
  qed
qed simp

declare get_n_sum.simps [simp del]

definition get_n :: "memory \<Rightarrow> u32 \<Rightarrow> (u32 \<times> u32) option" where
  "get_n m str = do {
     cur \<leftarrow> get_n_scan m str;
     Some (cur, get_n_sum m str cur 0 1)
   }"

subsection \<open>Formats\<close>

text \<open>\<open>out\<close> reads through a pointer, into memory or into the array of digits.\<close>

partial_function (option) out :: "'s sink \<Rightarrow> (u32 \<Rightarrow> u8 option) \<Rightarrow> u32 \<Rightarrow> 's \<Rightarrow> 's option" where
  "out put rd str s = do {
     c \<leftarrow> rd str;
     if c = 0 then Some s else do { s \<leftarrow> put c s; out put rd (str + 1) s }
   }"

partial_function (option) vprintf_text :: "'s sink \<Rightarrow> memory \<Rightarrow> u32 \<Rightarrow> 's \<Rightarrow> (u32 \<times> 's) option" where
  "vprintf_text put m cur s =
     (if m cur \<noteq> 0 \<and> m cur \<noteq> 0x25
      then do { s \<leftarrow> put (m cur) s; vprintf_text put m (cur + 1) s }
      else Some (cur, s))"

partial_function (option) vprintf_flags ::
    "memory \<Rightarrow> u32 \<Rightarrow> bool \<Rightarrow> bool \<Rightarrow> u32 \<Rightarrow> (u32 \<times> bool \<times> bool \<times> u32) option" where
  "vprintf_flags m cur alt zext pad =
     (if m cur \<noteq> 0 \<and> \<not> isalpha (scast (m cur)) then
        (if m cur = 0x23 then vprintf_flags m (cur + 1) True zext pad
         else if m cur = 0x30 then vprintf_flags m (cur + 1) alt True pad
         else if isdigit (scast (m cur)) then
           do { (e, pad) \<leftarrow> get_n m cur; vprintf_flags m (e - 1 + 1) alt zext pad }
         else vprintf_flags m (cur + 1) alt zext pad)
      else Some (cur, alt, zext, pad))"

text \<open>What the \<open>switch\<close> leaves: the digits and where they begin, output already made, or \<open>return -1\<close>.\<close>

datatype 's conv = Digits nat "u8 list" | Written 's | Unknown

definition vprintf_switch :: "'s sink \<Rightarrow> memory \<Rightarrow> u8 \<Rightarrow> bool \<Rightarrow> u32 \<Rightarrow> 's \<Rightarrow> 's conv option" where
  "vprintf_switch put m c alt popped s = do {
     let buf = replicate 32 0;
     let putend = 31;
     if c = 0x64 \<or> c = 0x69 then do {
       (d, neg) \<leftarrow> (if sint popped < 0
                    then (if popped = 0x80000000 then None else Some (- popped, True))
                    else Some (popped, False));
       (putn, buf) \<leftarrow> fmt_u d putend buf;
       (putn, buf) \<leftarrow> (if neg then poke putn 0x2D buf else Some (putn, buf));
       Some (Digits putn buf)
     }
     else if c = 0x75 then do {
       (putn, buf) \<leftarrow> fmt_u popped putend buf;
       Some (Digits putn buf)
     }
     else if c = 0x78 \<or> c = 0x58 \<or> c = 0x70 then do {
       (putn, buf) \<leftarrow> fmt_x popped putend c buf;
       (putn, buf) \<leftarrow> (if alt \<or> c = 0x70
                       then do { (putn, buf) \<leftarrow> poke putn 0x78 buf; poke putn 0x30 buf }
                       else Some (putn, buf));
       Some (Digits putn buf)
     }
     else if c = 0x6F then do {
       (putn, buf) \<leftarrow> fmt_o popped putend buf;
       (putn, buf) \<leftarrow> (if alt then poke putn 0x4F buf else Some (putn, buf));
       Some (Digits putn buf)
     }
     else if c = 0x73 then do {
       s \<leftarrow> out put (\<lambda>p. Some (m p)) popped s;
       Some (Written s)
     }
     else if c = 0x63 then do {
       s \<leftarrow> put (ucast popped) s;
       Some (Written s)
     }
     else Some Unknown
   }"

function vprintf_pad :: "'s sink \<Rightarrow> u8 \<Rightarrow> u32 \<Rightarrow> u32 \<Rightarrow> 's \<Rightarrow> 's option" where
  "vprintf_pad put c pad diff s =
     (if diff < pad then do { s \<leftarrow> put c s; vprintf_pad put c (pad - 1) diff s } else Some s)"
  by auto
termination
proof (relation "measure (\<lambda>(_, _, pad, _, _). unat pad)")
  show "((put, c, pad - 1, diff, s'), put, c, pad, diff, s) \<in> measure (\<lambda>(_, _, pad, _, _). unat pad)"
    if "diff < pad" for put c and pad diff :: u32 and s s' :: 's
  proof -
    have "pad \<noteq> 0" using that by auto
    then show ?thesis by (simp add: unat_minus_1 unat_gt_0)
  qed
qed simp

declare vprintf_pad.simps [simp del]

partial_function (option) vprintf_loop ::
    "'s sink \<Rightarrow> memory \<Rightarrow> u32 \<Rightarrow> u32 list \<Rightarrow> 's \<Rightarrow> (int \<times> 's) option" where
  "vprintf_loop put m cur arg s = do {
     (cur, s) \<leftarrow> vprintf_text put m cur s;
     if m cur = 0 then Some (0, s)
     else if m (cur + 1) = 0x25 then do {
       s \<leftarrow> put (m (cur + 1)) s;
       vprintf_loop put m (cur + 2) arg s
     }
     else do {
       (cur, alt, zext, pad) \<leftarrow> vprintf_flags m (cur + 1) False False 0;
       if m cur = 0 then Some (0, s)
       else do {
         popped \<leftarrow> arr_get arg 0;
         r \<leftarrow> vprintf_switch put m (m cur) alt popped s;
         case r of
           Unknown \<Rightarrow> Some (- 1, s)
         | Written s \<Rightarrow> vprintf_loop put m (cur + 1) (tl arg) s
         | Digits putn buf \<Rightarrow> do {
             s \<leftarrow> vprintf_pad put (if zext then 0x30 else 0x20) pad (of_nat (31 - putn)) s;
             s \<leftarrow> out put (\<lambda>p. arr_get buf (unat p)) (of_nat putn) s;
             vprintf_loop put m (cur + 1) (tl arg) s
           }
       }
     }
   }"

definition vprintf :: "'s sink \<Rightarrow> memory \<Rightarrow> u32 \<Rightarrow> u32 list \<Rightarrow> 's \<Rightarrow> (int \<times> 's) option" where
  "vprintf put m format arg s = (if format = 0 then Some (0, s) else vprintf_loop put m format arg s)"

definition printf :: "'s sink \<Rightarrow> memory \<Rightarrow> u32 \<Rightarrow> u32 list \<Rightarrow> 's \<Rightarrow> (int \<times> 's) option" where
  "printf put m format arg s = do {
     (done, s) \<leftarrow> vprintf put m format arg s;
     Some (done, s)
   }"

subsection \<open>Digits\<close>

text \<open>The digits of a number in base \<open>b\<close>, the most significant first; none for zero.\<close>

fun radix :: "nat \<Rightarrow> nat \<Rightarrow> nat list" where
  "radix b n = (if b < 2 \<or> n = 0 then [] else radix b (n div b) @ [n mod b])"

declare radix.simps [simp del]

lemma radix_0 [simp]: "radix b 0 = []"
  by (simp add: radix.simps)

lemma radix_rec: "2 \<le> b \<Longrightarrow> n \<noteq> 0 \<Longrightarrow> radix b n = radix b (n div b) @ [n mod b]"
  by (subst radix.simps) simp

definition numeral_digits :: "nat \<Rightarrow> nat \<Rightarrow> nat list" where
  "numeral_digits b n = (if n = 0 then [0] else radix b n)"

definition digits_value :: "nat \<Rightarrow> nat list \<Rightarrow> nat" where
  "digits_value b ds = foldl (\<lambda>a d. b * a + d) 0 ds"

lemma digits_value_snoc [simp]: "digits_value b (ds @ [d]) = b * digits_value b ds + d"
  by (simp add: digits_value_def)

lemma radix_value: "2 \<le> b \<Longrightarrow> digits_value b (radix b n) = n"
proof (induction b n rule: radix.induct)
  case (1 b n)
  then show ?case by (cases "n = 0") (simp_all add: radix_rec digits_value_def)
qed

lemma radix_less: "2 \<le> b \<Longrightarrow> d \<in> set (radix b n) \<Longrightarrow> d < b"
proof (induction b n rule: radix.induct)
  case (1 b n)
  then show ?case by (cases "n = 0") (auto simp: radix_rec)
qed

lemma radix_length: "2 \<le> b \<Longrightarrow> n < b ^ k \<Longrightarrow> length (radix b n) \<le> k"
proof (induction k arbitrary: n)
  case (Suc k)
  show ?case
  proof (cases "n = 0")
    case False
    have "n div b < b ^ k" using Suc.prems by (auto intro: less_mult_imp_div_less simp: mult.commute)
    then show ?thesis using False Suc by (simp add: radix_rec)
  qed simp
qed simp

lemma radix_nonempty [simp]: "2 \<le> b \<Longrightarrow> n \<noteq> 0 \<Longrightarrow> radix b n \<noteq> []"
  by (simp add: radix_rec)

lemma radix_hd: "2 \<le> b \<Longrightarrow> n \<noteq> 0 \<Longrightarrow> hd (radix b n) \<noteq> 0"
proof (induction b n rule: radix.induct)
  case (1 b n)
  then show ?case by (cases "n div b = 0") (auto simp: radix_rec hd_append div_eq_0_iff)
qed

text \<open>
  The array of digits with the characters \<open>t\<close> at its end: the loops fill it backwards from the
  terminating zero.
\<close>

definition held :: "u8 list \<Rightarrow> u8 list" where
  "held t = replicate (31 - length t) 0 @ t @ [0]"

lemma poke_held:
  assumes "length t < 31"
  shows "poke (31 - length t) v (held t) = Some (31 - length (v # t), held (v # t))"
proof -
  obtain k where k: "31 - length t = Suc k" using assms by (metis Suc_diff_Suc)
  then have "replicate (31 - length t) 0 = replicate k (0::u8) @ [0]"
    by (simp add: replicate_append_same)
  then have "(held t)[k := v] = held (v # t)" "k < length (held t)"
    using k by (simp_all add: held_def list_update_append)
  then show ?thesis using k by (simp add: poke_def)
qed

lemma poke_held_at:
  "\<lbrakk>p = 31 - length t; length t < 31\<rbrakk> \<Longrightarrow> poke p v (held t) = Some (30 - length t, held (v # t))"
  using poke_held [of t v] by simp

locale digit_loop =
  fixes f :: "u32 \<Rightarrow> nat \<Rightarrow> u8 list \<Rightarrow> (nat \<times> u8 list) option" and b :: nat and dig :: "nat \<Rightarrow> u8"
  assumes base: "2 \<le> b" "b < 4294967296"
    and zero: "dig 0 = 0x30"
    and loop: "f x s buf = (if x = 0 then Some (s, buf)
      else do { (s, buf) \<leftarrow> poke s (dig (unat x mod b)) buf; f (x div of_nat b) s buf })"
begin

lemma loop_digits:
  "length (radix b (unat x)) + length t \<le> 31 \<Longrightarrow>
   f x (31 - length t) (held t) =
     (let t' = map dig (radix b (unat x)) @ t in Some (31 - length t', held t'))"
proof (induction "unat x" arbitrary: x t rule: less_induct)
  case less
  show ?case
  proof (cases "x = 0")
    case True
    then show ?thesis by (subst loop) simp
  next
    case False
    have d: "unat (x div of_nat b) = unat x div b" using base by (simp add: unat_div unat_of_nat)
    have r: "radix b (unat x) = radix b (unat x div b) @ [unat x mod b]"
      using base False by (intro radix_rec) (auto simp: unat_eq_0)
    have "unat x div b < unat x" using base False by (intro div_less_dividend) (auto simp: unat_gt_0)
    then show ?thesis using False less.prems less.hyps [of "x div of_nat b" "dig (unat x mod b) # t"]
      by (subst loop) (simp add: poke_held d r Let_def)
  qed
qed

lemma FMT_digits:
  assumes "unat x < b ^ k" and "k \<le> 31" and "0 < k"
  shows "FMT 31 (f x 31 (held [])) =
    (let t = map dig (numeral_digits b (unat x)) in Some (31 - length t, held t))"
proof -
  have l: "length (radix b (unat x)) \<le> 31" using radix_length [OF base(1) assms(1)] assms(2) by simp
  have "FMT 31 (f x 31 (held [])) = FMT 31 (Some (31 - length (radix b (unat x)), held (map dig (radix b (unat x)))))"
    using loop_digits [of x "[]"] l by (simp add: Let_def)
  also have "\<dots> = (let t = map dig (numeral_digits b (unat x)) in Some (31 - length t, held t))"
  proof (cases "x = 0")
    case True
    then show ?thesis using poke_held [of "[]"] by (simp add: FMT_def numeral_digits_def zero)
  next
    case False
    then have "length (radix b (unat x)) \<noteq> 0" using base by (simp add: unat_eq_0)
    then have "31 - length (radix b (unat x)) \<noteq> 31" using l by linarith
    then show ?thesis using False by (simp add: FMT_def numeral_digits_def Let_def unat_eq_0)
  qed
  finally show ?thesis .
qed

end

definition dec_char :: "nat \<Rightarrow> u8" where
  "dec_char d = 0x30 + of_nat d"

definition hex_char :: "u8 \<Rightarrow> nat \<Rightarrow> u8" where
  "hex_char c d = (if d < 10 then 0x30 + of_nat d else (if bit c 5 then 0x57 else 0x37) + of_nat d)"

interpretation dec: digit_loop fmt_u_loop 10 dec_char
proof
  fix x :: u32 and s buf
  have "(ucast (x mod 10) :: u8) = of_nat (unat x mod 10)"
    by (simp add: unat_mod word_unat_eq_iff unat_of_nat unsigned_ucast_eq take_bit_eq_mod)
  then show "fmt_u_loop x s buf = (if x = 0 then Some (s, buf)
      else do { (s, buf) \<leftarrow> poke s (dec_char (unat x mod 10)) buf; fmt_u_loop (x div of_nat 10) s buf })"
    by (subst fmt_u_loop.simps) (simp add: dec_char_def)
qed (simp_all add: dec_char_def)

interpretation oct: digit_loop fmt_o_loop 8 dec_char
proof
  fix x :: u32 and s buf
  have "x AND 7 = take_bit 3 x" by (simp add: take_bit_eq_mask mask_eq_exp_minus_1)
  then have "x AND 7 = x mod 8" by (simp add: take_bit_eq_mod)
  then have "(ucast (x AND 7) :: u8) = of_nat (unat x mod 8)"
    by (simp add: unat_mod word_unat_eq_iff unat_of_nat unsigned_ucast_eq take_bit_eq_mod)
  then show "fmt_o_loop x s buf = (if x = 0 then Some (s, buf)
      else do { (s, buf) \<leftarrow> poke s (dec_char (unat x mod 8)) buf; fmt_o_loop (x div of_nat 8) s buf })"
    by (subst fmt_o_loop.simps) (simp add: dec_char_def drop_bit_eq_div)
qed (simp_all add: dec_char_def)

lemma xdigits_hex: "d < 16 \<Longrightarrow> (xdigits ! d) OR (c AND 0x20) = hex_char c d"
proof -
  assume d: "d < 16"
  have "c AND 0x20 = (if bit c 5 then 0x20 else 0)"
  proof (rule bit_word_eqI)
    fix n assume "n < LENGTH(8)"
    have "(0x20 :: u8) = 2 ^ 5" by simp
    then have "bit (0x20 :: u8) n \<longleftrightarrow> n = 5" by (simp only: bit_exp_iff) auto
    then show "bit (c AND 0x20) n = bit (if bit c 5 then 0x20 else 0 :: u8) n"
      by (auto simp: bit_and_iff)
  qed
  moreover have "list_all (\<lambda>d. (xdigits ! d) OR 0x20 = (if d < 10 then 0x30 + of_nat d else 0x57 + of_nat d)) [0..<16]"
    "list_all (\<lambda>d. xdigits ! d = (if d < 10 then 0x30 + of_nat d else 0x37 + of_nat d)) [0..<16]"
    by code_simp+
  ultimately show ?thesis using d by (cases "bit c 5") (auto simp: list_all_iff hex_char_def)
qed

interpretation hex: digit_loop "fmt_x_loop c" 16 "hex_char c" for c
proof
  fix x :: u32 and s buf
  have "x AND 15 = take_bit 4 x" by (simp add: take_bit_eq_mask mask_eq_exp_minus_1)
  then have "unat (x AND 15) = unat x mod 16" by (simp add: take_bit_eq_mod unat_mod)
  then show "fmt_x_loop c x s buf = (if x = 0 then Some (s, buf)
      else do { (s, buf) \<leftarrow> poke s (hex_char c (unat x mod 16)) buf; fmt_x_loop c (x div of_nat 16) s buf })"
    by (subst fmt_x_loop.simps) (simp add: xdigits_hex drop_bit_eq_div)
qed (simp_all add: hex_char_def)

lemma held_Nil: "replicate 32 0 = held []"
proof -
  have "replicate (Suc 31) (0::u8) = replicate 31 0 @ [0]" by (simp only: replicate_append_same [symmetric] replicate_Suc)
  then show ?thesis by (simp add: held_def)
qed

lemma fmt_u_held: "fmt_u u 31 (held []) =
   (let t = map dec_char (numeral_digits 10 (unat u)) in Some (31 - length t, held t))"
  unfolding fmt_u_def by (rule dec.FMT_digits [of _ 10]) (use unat32_less [of u] in simp_all)

lemma fmt_o_held: "fmt_o u 31 (held []) =
   (let t = map dec_char (numeral_digits 8 (unat u)) in Some (31 - length t, held t))"
  unfolding fmt_o_def by (rule oct.FMT_digits [of _ 11]) (use unat32_less [of u] in simp_all)

lemma fmt_x_held: "fmt_x u 31 c (held []) =
   (let t = map (hex_char c) (numeral_digits 16 (unat u)) in Some (31 - length t, held t))"
  unfolding fmt_x_def by (rule hex.FMT_digits [of _ 8]) (use unat32_less [of u] in simp_all)

lemma numeral_length:
  "length (numeral_digits 10 (unat (u :: u32))) \<le> 10" "length (numeral_digits 8 (unat u)) \<le> 11"
  "length (numeral_digits 16 (unat u)) \<le> 8"
  using radix_length [of 10 "unat u" 10] radix_length [of 8 "unat u" 11] radix_length [of 16 "unat u" 8]
    unat32_less [of u]
  by (simp_all add: numeral_digits_def)

text \<open>The characters of a numeric conversion.\<close>

definition num_text :: "u8 \<Rightarrow> bool \<Rightarrow> u32 \<Rightarrow> u8 list" where
  "num_text c alt a =
     (if c = 0x64 \<or> c = 0x69 then
        (if sint a < 0 then 0x2D # map dec_char (numeral_digits 10 (unat (- a)))
         else map dec_char (numeral_digits 10 (unat a)))
      else if c = 0x75 then map dec_char (numeral_digits 10 (unat a))
      else if c = 0x6F then (if alt then [0x4F] else []) @ map dec_char (numeral_digits 8 (unat a))
      else (if alt \<or> c = 0x70 then [0x30, 0x78] else []) @ map (hex_char c) (numeral_digits 16 (unat a)))"

definition num_conv :: "u8 \<Rightarrow> bool" where
  "num_conv c \<longleftrightarrow> c \<in> {0x64, 0x69, 0x75, 0x78, 0x58, 0x70, 0x6F}"

lemma num_text_length: "length (num_text c alt a) \<le> 12"
  using numeral_length [of a] numeral_length [of "- a"] by (auto simp: num_text_def)

lemma vprintf_switch_num:
  assumes "num_conv c" and "c \<in> {0x64, 0x69} \<longrightarrow> a \<noteq> 0x80000000"
  shows "vprintf_switch put m c alt a s =
    Some (Digits (31 - length (num_text c alt a)) (held (num_text c alt a)))"
proof -
  note held = held_Nil fmt_u_held fmt_o_held fmt_x_held
  consider "c = 0x64" | "c = 0x69" | "c = 0x75" | "c = 0x78" | "c = 0x58" | "c = 0x70" | "c = 0x6F"
    using assms(1) by (auto simp: num_conv_def)
  then show ?thesis
    using numeral_length [of a] numeral_length [of "- a"] assms(2)
    by cases (simp_all add: vprintf_switch_def num_text_def held Let_def poke_held_at)
qed

subsection \<open>Widths are read back\<close>

lemma get_n_scan_digits:
  "\<lbrakk>cstr m s (map dec_char ds @ c # r); \<forall>d\<in>set ds. d < 10; \<not> isdigit (scast c)\<rbrakk> \<Longrightarrow>
   get_n_scan m s = Some (s + of_nat (length ds))"
proof (induction ds arbitrary: s)
  case Nil
  then show ?case by (subst get_n_scan.simps) simp
next
  case (Cons d ds)
  have "list_all (\<lambda>d. isdigit (scast (dec_char d))) [0..<10]" by code_simp
  with Cons.prems(2) have "isdigit (scast (dec_char d))" by (simp add: list_all_iff)
  with Cons show ?case by (subst get_n_scan.simps) (simp add: add.assoc)
qed

lemma scast_dec_char: "d < 10 \<Longrightarrow> scast (dec_char d) - 0x30 = (of_nat d :: u32)"
proof -
  assume "d < 10"
  moreover have "list_all (\<lambda>d. scast (dec_char d) - 0x30 = (of_nat d :: u32)) [0..<10]" by code_simp
  ultimately show ?thesis by (simp add: list_all_iff)
qed

lemma get_n_sum_digits:
  "\<lbrakk>\<forall>j<length ds. m (s + of_nat j) = dec_char (ds ! j); \<forall>d\<in>set ds. d < 10; length ds < 4294967296\<rbrakk> \<Longrightarrow>
   get_n_sum m s (s + of_nat (length ds)) n i = n + i * of_nat (digits_value 10 ds)"
proof (induction ds arbitrary: n i rule: rev_induct)
  case Nil
  then show ?case by (subst get_n_sum.simps) (simp add: digits_value_def)
next
  case (snoc d ds)
  have "unat (of_nat (length (ds @ [d])) :: u32) \<noteq> 0" using snoc.prems(3) by (simp only: unat_of_nat) simp
  then have ne: "s + of_nat (length (ds @ [d])) \<noteq> s" by auto
  have p: "s + of_nat (length (ds @ [d])) - 1 = s + of_nat (length ds)" by (simp add: algebra_simps)
  have at: "m (s + of_nat (length ds)) = dec_char d" using snoc.prems(1) by simp
  have "\<forall>j<length ds. m (s + of_nat j) = dec_char (ds ! j)"
    using snoc.prems(1) by (metis less_SucI length_append_singleton nth_append)
  then show ?case using snoc
    by (subst get_n_sum.simps) (simp only: ne p at, simp add: scast_dec_char algebra_simps)
qed

lemma get_n_digits:
  assumes "cstr m s (map dec_char ds @ c # r)" and "\<forall>d\<in>set ds. d < 10" and "\<not> isdigit (scast c)"
  shows "get_n m s = Some (s + of_nat (length ds), of_nat (digits_value 10 ds))"
proof -
  have "\<forall>j<length ds. m (s + of_nat j) = dec_char (ds ! j)"
    using cstr_nth [OF assms(1)] by (auto simp: nth_append)
  moreover have "length ds < 4294967296" using cstr_length [OF assms(1)] by simp
  ultimately show ?thesis
    using get_n_scan_digits [OF assms] get_n_sum_digits [of ds m s 0 1] assms(2)
    by (simp add: get_n_def)
qed

subsection \<open>What a format prints\<close>

text \<open>
  A format is a sequence of pieces; \<open>piece_bytes\<close> is how a piece is written in the format string
  and \<open>render\<close> what the whole prints, given the string at each address.
\<close>

datatype piece = Lit u8 | Percent | Conv bool bool u32 u8

definition conv_flags :: "bool \<Rightarrow> bool \<Rightarrow> u32 \<Rightarrow> u8 list" where
  "conv_flags alt zext pad =
     (if alt then [0x23] else []) @ (if zext then [0x30] else []) @ map dec_char (radix 10 (unat pad))"

fun piece_bytes :: "piece \<Rightarrow> u8 list" where
  "piece_bytes (Lit c) = [c]"
| "piece_bytes Percent = [0x25, 0x25]"
| "piece_bytes (Conv alt zext pad c) = 0x25 # conv_flags alt zext pad @ [c]"

definition conv_text :: "(u32 \<Rightarrow> u8 list) \<Rightarrow> bool \<Rightarrow> bool \<Rightarrow> u32 \<Rightarrow> u8 \<Rightarrow> u32 \<Rightarrow> u8 list" where
  "conv_text str alt zext pad c a =
     (if c = 0x73 then str a
      else if c = 0x63 then [ucast a]
      else replicate (unat pad - length (num_text c alt a)) (if zext then 0x30 else 0x20) @ num_text c alt a)"

fun render :: "(u32 \<Rightarrow> u8 list) \<Rightarrow> piece list \<Rightarrow> u32 list \<Rightarrow> u8 list" where
  "render str [] args = []"
| "render str (Lit c # ps) args = c # render str ps args"
| "render str (Percent # ps) args = 0x25 # render str ps args"
| "render str (Conv alt zext pad c # ps) args =
     conv_text str alt zext pad c (hd args) @ render str ps (tl args)"

text \<open>
  The formats and arguments in question: literal characters, known conversions, an argument for
  each of them, strings where strings are asked for, and no \<open>LONG_MIN\<close> for a signed conversion.
\<close>

fun format_ok :: "memory \<Rightarrow> (u32 \<Rightarrow> u8 list) \<Rightarrow> piece list \<Rightarrow> u32 list \<Rightarrow> bool" where
  "format_ok m str [] args \<longleftrightarrow> True"
| "format_ok m str (Lit c # ps) args \<longleftrightarrow> c \<noteq> 0 \<and> c \<noteq> 0x25 \<and> format_ok m str ps args"
| "format_ok m str (Percent # ps) args \<longleftrightarrow> format_ok m str ps args"
| "format_ok m str (Conv alt zext pad c # ps) args \<longleftrightarrow> args \<noteq> [] \<and>
     (num_conv c \<and> (c = 0x64 \<or> c = 0x69 \<longrightarrow> hd args \<noteq> 0x80000000) \<or> c = 0x63 \<or>
      c = 0x73 \<and> cstr m (hd args) (str (hd args))) \<and> format_ok m str ps (tl args)"

lemma out_for_each:
  "\<lbrakk>\<forall>i<length t. rd (p + of_nat i) = Some (t ! i) \<and> t ! i \<noteq> 0; rd (p + of_nat (length t)) = Some 0\<rbrakk> \<Longrightarrow>
   out put rd p s = for_each t put s"
proof (induction t arbitrary: p s)
  case Nil
  then show ?case by (subst out.simps) simp
next
  case (Cons c t)
  have "rd p = Some c" "c \<noteq> 0" using Cons.prems(1) by (auto dest: spec [of _ 0])
  moreover have "\<forall>i<length t. rd (p + 1 + of_nat i) = Some (t ! i) \<and> t ! i \<noteq> 0"
    using Cons.prems(1) by (auto simp: add.assoc dest: spec [of _ "Suc _"])
  moreover have "rd (p + 1 + of_nat (length t)) = Some 0" using Cons.prems(2) by (simp add: add.assoc)
  ultimately have "out put rd (p + 1) = for_each t put" using Cons.IH by (intro ext) blast
  with \<open>rd p = Some c\<close> \<open>c \<noteq> 0\<close> show ?case by (subst out.simps) simp
qed

lemma out_cstr: "cstr m p t \<Longrightarrow> out put (\<lambda>p. Some (m p)) p s = for_each t put s"
  by (rule out_for_each) (auto simp: cstr_nth cstr_end)

lemma out_held:
  assumes "length t \<le> 31" and "0 \<notin> set t"
  shows "out put (\<lambda>p. arr_get (held t) (unat p)) (of_nat (31 - length t)) s = for_each t put s"
proof (rule out_for_each)
  have u: "unat (of_nat (31 - length t) + of_nat i :: u32) = 31 - length t + i" if "i \<le> length t" for i
  proof -
    have "of_nat (31 - length t) + of_nat i = (of_nat (31 - length t + i) :: u32)" by simp
    then show ?thesis using that assms(1) by (simp only: unat_of_nat) simp
  qed
  have h: "arr_get (held t) (31 - length t + i) = Some ((t @ [0]) ! i)" if "i \<le> length t" for i
  proof -
    have "held t ! (31 - length t + i) = (t @ [0]) ! i"
      unfolding held_def using nth_append_length_plus [of "replicate (31 - length t) 0" "t @ [0]" i] by simp
    then show ?thesis using that assms(1) by (simp add: arr_get_def) (simp add: held_def)
  qed
  show "\<forall>i<length t. arr_get (held t) (unat (of_nat (31 - length t) + of_nat i :: u32)) = Some (t ! i) \<and> t ! i \<noteq> 0"
    using u h assms(2) by (simp add: nth_append del: arr_get_eq_Some) (metis nth_mem)
  show "arr_get (held t) (unat (of_nat (31 - length t) + of_nat (length t) :: u32)) = Some 0"
    using u [of "length t"] h [of "length t"] by (simp add: nth_append del: arr_get_eq_Some)
qed

lemma vprintf_pad_for_each:
  "vprintf_pad put c pad diff s = for_each (replicate (unat pad - unat diff) c) put s"
proof (induction put c pad diff s rule: vprintf_pad.induct)
  case (1 put c pad diff s)
  show ?case
  proof (cases "diff < pad")
    case True
    then have "unat (pad - 1) = unat pad - 1" by (subst unat_minus_1) auto
    moreover have "unat pad - unat diff = Suc (unat pad - 1 - unat diff)"
      using True by (simp add: word_less_nat_alt)
    ultimately show ?thesis using True 1 by (subst vprintf_pad.simps) (simp cong: Option.bind_cong)
  next
    case False
    then show ?thesis by (subst vprintf_pad.simps) (simp add: word_less_nat_alt)
  qed
qed

lemma dec_char_nonzero: "d < 10 \<Longrightarrow> dec_char d \<noteq> 0"
proof -
  have "list_all (\<lambda>d. dec_char d \<noteq> 0) [0..<10]" by code_simp
  then show "d < 10 \<Longrightarrow> dec_char d \<noteq> 0" by (simp add: list_all_iff)
qed

lemma hex_char_nonzero: "d < 16 \<Longrightarrow> hex_char c d \<noteq> 0"
proof -
  have "list_all (\<lambda>d. d < 10 \<or> 0x57 + of_nat d \<noteq> (0 :: u8) \<and> 0x37 + of_nat d \<noteq> (0 :: u8)) [0..<16]" by code_simp
  then show "d < 16 \<Longrightarrow> hex_char c d \<noteq> 0"
    using dec_char_nonzero [of d] by (auto simp: list_all_iff hex_char_def dec_char_def)
qed

lemma numeral_less: "2 \<le> b \<Longrightarrow> d \<in> set (numeral_digits b n) \<Longrightarrow> d < b"
  by (auto simp: numeral_digits_def dest: radix_less split: if_splits)

lemma num_text_nonzero: "0 \<notin> set (num_text c alt a)"
proof -
  have "dec_char d \<noteq> 0" if "d \<in> set (numeral_digits 10 n)" for d n
    using numeral_less [OF _ that] dec_char_nonzero by simp
  moreover have "dec_char d \<noteq> 0" if "d \<in> set (numeral_digits 8 n)" for d n
    using numeral_less [OF _ that] dec_char_nonzero by simp
  moreover have "hex_char c d \<noteq> 0" if "d \<in> set (numeral_digits 16 n)" for d n
    using numeral_less [OF _ that] hex_char_nonzero by simp
  ultimately show ?thesis by (auto simp: num_text_def image_iff)
qed

text \<open>The conversions are letters, which end the flags; the digits are not.\<close>

definition conv_char :: "u8 \<Rightarrow> bool" where
  "conv_char c \<longleftrightarrow> num_conv c \<or> c = 0x63 \<or> c = 0x73"

lemma conv_char_class: "conv_char c \<Longrightarrow> isalpha (scast c) \<and> \<not> isdigit (scast c) \<and> c \<noteq> 0 \<and> c \<noteq> 0x25"
proof -
  have "list_all (\<lambda>c. isalpha (scast c) \<and> \<not> isdigit (scast c) \<and> c \<noteq> 0 \<and> c \<noteq> 0x25)
      [0x64 :: u8, 0x69, 0x75, 0x78, 0x58, 0x70, 0x6F, 0x63, 0x73]"
    by code_simp
  then show "conv_char c \<Longrightarrow> isalpha (scast c) \<and> \<not> isdigit (scast c) \<and> c \<noteq> 0 \<and> c \<noteq> 0x25"
    by (auto simp: conv_char_def num_conv_def)
qed

lemma dec_char_class:
  "d < 10 \<Longrightarrow> \<not> isalpha (scast (dec_char d)) \<and> isdigit (scast (dec_char d)) \<and> dec_char d \<noteq> 0x23 \<and>
     dec_char d \<noteq> 0x25 \<and> (dec_char d = 0x30 \<longleftrightarrow> d = 0)"
proof -
  have "list_all (\<lambda>d. \<not> isalpha (scast (dec_char d)) \<and> isdigit (scast (dec_char d)) \<and> dec_char d \<noteq> 0x23 \<and>
     dec_char d \<noteq> 0x25 \<and> (dec_char d = 0x30 \<longleftrightarrow> d = 0)) [0..<10]"
    by code_simp
  then show "d < 10 \<Longrightarrow> \<not> isalpha (scast (dec_char d)) \<and> isdigit (scast (dec_char d)) \<and> dec_char d \<noteq> 0x23 \<and>
     dec_char d \<noteq> 0x25 \<and> (dec_char d = 0x30 \<longleftrightarrow> d = 0)"
    by (simp add: list_all_iff)
qed

lemma vprintf_flags_stop: "conv_char (m s) \<Longrightarrow> vprintf_flags m s alt zext pad = Some (s, alt, zext, pad)"
  using conv_char_class by (subst vprintf_flags.simps) auto

lemma flag_class: "\<not> isalpha (scast (0x23 :: u8))" "\<not> isalpha (scast (0x30 :: u8))"
  by code_simp+

lemma vprintf_flags_width:
  assumes "cstr m s (map dec_char (radix 10 (unat pad)) @ c # r)" and "conv_char c"
  shows "vprintf_flags m s alt zext 0 = Some (s + of_nat (length (radix 10 (unat pad))), alt, zext, pad)"
proof (cases "pad = 0")
  case True
  then show ?thesis using assms by (simp add: vprintf_flags_stop)
next
  case False
  then have "radix 10 (unat pad) \<noteq> []" by (simp add: unat_eq_0)
  then obtain d ds where dd: "radix 10 (unat pad) = d # ds" by (cases "radix 10 (unat pad)") auto
  have d: "d < 10" "d \<noteq> 0"
    using radix_less [of 10 d "unat pad"] radix_hd [of 10 "unat pad"] dd False by (auto simp: unat_eq_0)
  have at: "m s = dec_char d" using assms(1) dd by simp
  have n: "get_n m s = Some (s + of_nat (length (radix 10 (unat pad))), pad)"
    using get_n_digits [OF assms(1)] conv_char_class [OF assms(2)] radix_less [of 10 _ "unat pad"]
    by (simp add: radix_value)
  have "conv_char (m (s + of_nat (length (radix 10 (unat pad)))))"
    using cstr_nth [OF assms(1), of "length (radix 10 (unat pad))"] assms(2) by (simp add: nth_append)
  then show ?thesis
    using d dec_char_class [OF d(1)] dec_char_nonzero [OF d(1)] at n
    by (subst vprintf_flags.simps) (simp add: vprintf_flags_stop)
qed

lemma vprintf_flags_read:
  assumes "cstr m s (conv_flags alt zext pad @ c # r)" and "conv_char c"
  shows "vprintf_flags m s False False 0 =
    Some (s + of_nat (length (conv_flags alt zext pad)), alt, zext, pad)"
proof -
  have z: "vprintf_flags m s alt False 0 =
      Some (s + of_nat (length ((if zext then [0x30 :: u8] else []) @ map dec_char (radix 10 (unat pad)))), alt, zext, pad)"
    if "cstr m s ((if zext then [0x30] else []) @ map dec_char (radix 10 (unat pad)) @ c # r)" for s
  proof (cases zext)
    case True
    then show ?thesis using that vprintf_flags_width [of m "s + 1" pad c r alt True] assms(2) flag_class
      by (subst vprintf_flags.simps) (simp add: add.assoc)
  next
    case False
    then show ?thesis using that vprintf_flags_width [of m s pad c r alt False] assms(2) by simp
  qed
  show ?thesis
  proof (cases alt)
    case True
    then show ?thesis using assms(1) z [of "s + 1"] flag_class
      by (subst vprintf_flags.simps) (simp add: conv_flags_def add.assoc)
  next
    case False
    then show ?thesis using assms(1) z [of s] by (simp add: conv_flags_def)
  qed
qed

lemma vprintf_loop_text: "\<exists>K. \<forall>cur s. vprintf_loop put m cur arg s = vprintf_text put m cur s \<bind> K"
  by (rule exI, intro allI, rule vprintf_loop.simps)

lemma vprintf_loop_lit:
  assumes "m cur = c" and "c \<noteq> 0" and "c \<noteq> 0x25"
  shows "vprintf_loop put m cur arg s = do { s \<leftarrow> put c s; vprintf_loop put m (cur + 1) arg s }"
proof -
  obtain K where K: "\<And>cur s. vprintf_loop put m cur arg s = vprintf_text put m cur s \<bind> K"
    using vprintf_loop_text [of put m arg] by blast
  show ?thesis unfolding K using assms by (subst vprintf_text.simps) simp
qed

lemma vprintf_text_stop: "m cur = 0 \<or> m cur = 0x25 \<Longrightarrow> vprintf_text put m cur s = Some (cur, s)"
  by (subst vprintf_text.simps) auto

lemma vprintf_loop_percent:
  assumes "m cur = 0x25" and "m (cur + 1) = 0x25"
  shows "vprintf_loop put m cur arg s = do { s \<leftarrow> put 0x25 s; vprintf_loop put m (cur + 2) arg s }"
  using assms by (subst vprintf_loop.simps) (simp add: vprintf_text_stop)

lemma conv_flags_hd:
  assumes "conv_char c"
  shows "hd (conv_flags alt zext pad @ [c]) \<noteq> 0x25"
proof (cases "alt \<or> zext \<or> pad = 0")
  case True
  then show ?thesis using conv_char_class [OF assms] by (auto simp: conv_flags_def)
next
  case False
  then have "radix 10 (unat pad) \<noteq> []" by (simp add: unat_eq_0)
  then obtain d ds where "radix 10 (unat pad) = d # ds" by (cases "radix 10 (unat pad)") auto
  moreover from this have "d < 10" using radix_less [of 10 d "unat pad"] by simp
  ultimately show ?thesis using False dec_char_class by (auto simp: conv_flags_def)
qed

lemma vprintf_loop_conv:
  assumes "cstr m cur (piece_bytes (Conv alt zext pad c) @ r)"
    and "format_ok m str (Conv alt zext pad c # ps) (a # arg)"
  shows "vprintf_loop put m cur (a # arg) s = do {
     s \<leftarrow> for_each (conv_text str alt zext pad c a) put s;
     vprintf_loop put m (cur + of_nat (length (piece_bytes (Conv alt zext pad c)))) arg s
   }"
proof -
  define f where "f = conv_flags alt zext pad"
  define e where "e = cur + 1 + of_nat (length f)"
  have c: "conv_char c" using assms(2) by (auto simp: conv_char_def)
  have e1: "cur + of_nat (length (piece_bytes (Conv alt zext pad c))) = e + 1"
    by (simp add: e_def f_def algebra_simps)
  have f: "cstr m (cur + 1) (f @ c # r)" and p: "m cur = 0x25" using assms(1) by (simp_all add: f_def)
  have flags: "vprintf_flags m (cur + 1) False False 0 = Some (e, alt, zext, pad)"
    using vprintf_flags_read [of m "cur + 1" alt zext pad c r] f c by (simp add: e_def f_def)
  have me: "m e = c" using cstr_nth [OF f, of "length f"] by (simp add: e_def)
  have ne: "m (cur + 1) \<noteq> 0x25"
    using f conv_flags_hd [OF c, of alt zext pad] unfolding f_def by (cases "conv_flags alt zext pad") auto
  have run: "vprintf_loop put m cur (a # arg) s =
    (vprintf_switch put m c alt a s \<bind> (\<lambda>r. case r of
           Unknown \<Rightarrow> Some (- 1, s)
         | Written s \<Rightarrow> vprintf_loop put m (e + 1) arg s
         | Digits putn buf \<Rightarrow> do {
             s \<leftarrow> vprintf_pad put (if zext then 0x30 else 0x20) pad (of_nat (31 - putn)) s;
             s \<leftarrow> out put (\<lambda>p. arr_get buf (unat p)) (of_nat putn) s;
             vprintf_loop put m (e + 1) arg s
           }))"
    using p ne flags me conv_char_class [OF c]
    by (subst vprintf_loop.simps) (simp add: vprintf_text_stop)
  consider (num) "num_conv c" "c \<in> {0x64, 0x69} \<longrightarrow> a \<noteq> 0x80000000" | (str) "c = 0x73" "cstr m a (str a)" | (chr) "c = 0x63"
    using assms(2) by auto
  then show ?thesis
  proof cases
    case num
    have nt: "c \<noteq> 0x73" "c \<noteq> 0x63" using num(1) by (auto simp: num_conv_def)
    let ?t = "num_text c alt a"
    have l: "length ?t \<le> 12" by (rule num_text_length)
    then have "31 - (31 - length ?t) = length ?t" "unat (of_nat (length ?t) :: u32) = length ?t"
      by (simp_all add: unat_of_nat)
    then show ?thesis
      unfolding run e1 vprintf_switch_num [OF num] using l nt
      by (simp add: vprintf_pad_for_each out_held num_text_nonzero conv_text_def for_each_append del: of_nat_diff)
  next
    case str
    then show ?thesis unfolding run e1 by (simp add: vprintf_switch_def out_cstr conv_text_def)
  next
    case chr
    then show ?thesis unfolding run e1 by (simp add: vprintf_switch_def conv_text_def)
  qed
qed

lemma vprintf_loop_renders:
  "\<lbrakk>cstr m cur (concat (map piece_bytes ps)); format_ok m str ps args\<rbrakk> \<Longrightarrow>
   vprintf_loop put m cur args s = do { s \<leftarrow> for_each (render str ps args) put s; Some (0, s) }"
proof (induction str ps args arbitrary: cur s rule: render.induct)
  case (1 str args)
  then show ?case by (subst vprintf_loop.simps) (simp add: vprintf_text_stop)
next
  case (2 str c ps args)
  then have "vprintf_loop put m cur args s = do { s \<leftarrow> put c s; vprintf_loop put m (cur + 1) args s }"
    by (intro vprintf_loop_lit) auto
  with 2 show ?case by simp
next
  case (3 str ps args)
  then have "vprintf_loop put m cur args s = do { s \<leftarrow> put 0x25 s; vprintf_loop put m (cur + 2) args s }"
    by (intro vprintf_loop_percent) auto
  with 3 show ?case by (simp add: add.assoc)
next
  case (4 str alt zext pad c ps args)
  then obtain a arg where args: "args = a # arg" by (cases args) auto
  have "cstr m (cur + of_nat (length (piece_bytes (Conv alt zext pad c)))) (concat (map piece_bytes ps))"
    using "4.prems"(1) by (intro cstr_append) simp
  with 4 show ?case using vprintf_loop_conv [of m cur alt zext pad c "concat (map piece_bytes ps)" str ps a arg put s]
    by (simp add: args for_each_append)
qed

text \<open>What \<open>vprintf\<close> prints.\<close>

lemma vprintf_renders:
  assumes "format \<noteq> 0" and "cstr m format (concat (map piece_bytes ps))" and "format_ok m str ps args"
  shows "vprintf put m format args s = do { s \<leftarrow> for_each (render str ps args) put s; Some (0, s) }"
  using vprintf_loop_renders [OF assms(2,3)] assms(1) by (simp add: vprintf_def)
text \<open>
  C31. Every number printf converts, in any base and with sign or prefix, is written inside the 32
  byte buffer, ends right before its terminating zero and is the numeral of the argument; the least
  negative number is excepted, since its negation overflows.
\<close>

theorem vprintf_digits_fit:
  assumes "num_conv c" and "c \<in> {0x64, 0x69} \<longrightarrow> a \<noteq> 0x80000000"
  shows "\<exists>pos buf. vprintf_switch put m c alt a s = Some (Digits pos buf) \<and> 19 \<le> pos \<and> pos < 31 \<and> length buf = 32 \<and>
     take (31 - pos) (drop pos buf) = num_text c alt a \<and> buf ! 31 = 0"
proof -
  let ?t = "num_text c alt a"
  have "numeral_digits b n \<noteq> []" if "2 \<le> b" for b n
    using radix_value [OF that, of n] by (auto simp: numeral_digits_def digits_value_def)
  then have "0 < length ?t" by (simp add: num_text_def)
  moreover have "length ?t \<le> 12" by (rule num_text_length)
  ultimately have "19 \<le> 31 - length ?t" "31 - length ?t < 31" "31 - (31 - length ?t) = length ?t" "length (held ?t) = 32"
    by (simp_all add: held_def)
  then show ?thesis using vprintf_switch_num [OF assms, of put m alt s]
    by (simp add: held_def nth_append)
qed

end
