(* ===== verification/Debug_Log.thy ===== *)
theory Debug_Log
  imports Console Libh_Printf
begin

text \<open>
  The kernel's log (\<open>kernel/debug/log.c\<close>, \<open>log.h\<close>, \<open>arch/i586/sw/int/frame.c\<close>): lines of text
  tagged with the name of the source file, formatted by the C library and shown on the debug
  console.  \<open>lit\<close> is the address at which the linker puts a string literal of the kernel.
\<close>

fun trace_name :: "'s sink \<Rightarrow> (u8 list \<Rightarrow> u32) \<Rightarrow> memory \<Rightarrow> nat \<Rightarrow> u32 \<Rightarrow> 's \<Rightarrow> 's option" where
  "trace_name put lit m 0 p s = Some s"
| "trace_name put lit m (Suc slen) p s = do {
     (_, s) \<leftarrow> printf put m (lit [0x25, 0x63]) [scast (m p)] s;
     trace_name put lit m slen (p + 1) s
   }"

definition debug_trace ::
    "'s sink \<Rightarrow> (u8 list \<Rightarrow> u32) \<Rightarrow> memory \<Rightarrow> u32 \<Rightarrow> u32 \<Rightarrow> u32 list \<Rightarrow> 's \<Rightarrow> 's option" where
  "debug_trace put lit m file format arg s = do {
     p \<leftarrow> strrchr file 0x2F m;
     let p = (if p \<noteq> 0 then p + 1 else p);
     e \<leftarrow> strchr file 0x2E m;
     let slen = e - p;
     (_, s) \<leftarrow> printf put m (lit [0x5B]) [] s;
     s \<leftarrow> trace_name put lit m (unat slen) p s;
     (_, s) \<leftarrow> printf put m (lit [0x5D, 0x20]) [] s;
     (_, s) \<leftarrow> vprintf put m format arg s;
     (_, s) \<leftarrow> printf put m (lit [0x0A]) [] s;
     Some s
   }"

definition ascii :: "string \<Rightarrow> u8 list" where
  "ascii = map of_char"

text \<open>The dump of the registers; \<open>file\<close> is \<open>__FILE__\<close>.\<close>

definition int_frame_debug ::
    "'s sink \<Rightarrow> (u8 list \<Rightarrow> u32) \<Rightarrow> memory \<Rightarrow> u32 \<Rightarrow> int_frame \<Rightarrow> 's \<Rightarrow> 's option" where
  "int_frame_debug put lit m file f s = do {
     s \<leftarrow> debug_trace put lit m file (lit (ascii ''Register Dump:'')) [] s;
     (_, s) \<leftarrow> printf put m (lit (9 # ascii ''EBP:0x%08X EIP:0x%08X ESP:0x%08X'' @ [10])) [EBP f, EIP f, ESP f] s;
     (_, s) \<leftarrow> printf put m (lit (9 # ascii ''EAX:0x%08X EBX:0x%08X'' @ [10])) [EAX f, EBX f] s;
     (_, s) \<leftarrow> printf put m (lit (9 # ascii ''ECX:0x%08X EDX:0x%08X'' @ [10])) [ECX f, EDX f] s;
     (_, s) \<leftarrow> printf put m (lit (9 # ascii ''EFLAGS:0x%08X'' @ [10])) [EFLAGS f] s;
     s \<leftarrow> debug_trace put lit m file (lit (ascii ''Segment Dump:'')) [] s;
     (_, s) \<leftarrow> printf put m (lit (9 # ascii ''CS:0x%08X, DS:0x%08X, SS:0x%08X'' @ [10])) [CS f, DS f, SS f] s;
     Some s
   }"

text \<open>\<open>putchar\<close> of the console, as the C library calls it.\<close>

definition console_sink :: "(console \<times> io) sink" where
  "console_sink ch s = (case s of (c, i) \<Rightarrow> putchar ch c i)"

subsection \<open>The name of the file\<close>

definition source_path :: "u8 list \<Rightarrow> u8 list \<Rightarrow> u8 list \<Rightarrow> u8 list" where
  "source_path dir name ext = dir @ [0x2F] @ name @ [0x2E] @ ext"

definition path_ok :: "u8 list \<Rightarrow> u8 list \<Rightarrow> u8 list \<Rightarrow> bool" where
  "path_ok dir name ext \<longleftrightarrow> 0x2E \<notin> set dir \<and> 0x2E \<notin> set name \<and> 0x2F \<notin> set name \<and> 0x2F \<notin> set ext"

lemma strchr_dot:
  assumes "cstr m file (source_path dir name ext)" and "path_ok dir name ext"
  shows "strchr file 0x2E m = Some (file + of_nat (length dir) + 1 + of_nat (length name))"
proof -
  have dot: "(scast b = (0x2E :: u32)) \<longleftrightarrow> b = (0x2E :: u8)" for b
    using scast_eq_char [of b "0x2E"] by simp
  have "takeWhile (\<lambda>b. scast b \<noteq> (0x2E :: u32)) (source_path dir name ext) = dir @ [0x2F] @ name"
    unfolding dot source_path_def using assms(2)
    by (auto simp: path_ok_def takeWhile_append)
  moreover have "(0x2E :: u32) \<in> scast ` set (source_path dir name ext)"
    unfolding image_iff by (rule bexI [of _ "0x2E"]) (simp_all add: source_path_def)
  ultimately show ?thesis using strchr_cstr [OF assms(1), of "0x2E"] by (simp add: add.assoc)
qed

lemma strrchr_slash:
  assumes "cstr m file (source_path dir name ext)" and "0x2F \<notin> set name" and "0x2F \<notin> set ext"
  shows "strrchr file 0x2F m = Some (file + of_nat (length dir))"
proof -
  have slash: "(scast b = (0x2F :: u32)) \<longleftrightarrow> b = (0x2F :: u8)" for b
    using scast_eq_char [of b "0x2F"] by simp
  let ?p = "source_path dir name ext"
  have at: "m (file + of_nat j) = (if j < length ?p then ?p ! j else 0)" if "j \<le> length ?p" for j
    using that cstr_nth [OF assms(1), of j] cstr_end [OF assms(1)] by auto
  have d: "?p ! length dir = 0x2F" "length dir < length ?p" by (simp_all add: source_path_def)
  have after: "?p ! j \<noteq> 0x2F" if "length dir < j" "j < length ?p" for j
  proof -
    have "?p ! j = (name @ [0x2E] @ ext) ! (j - length dir - 1)"
      using that by (simp add: source_path_def nth_append nth_Cons')
    moreover have "(name @ [0x2E] @ ext) ! (j - length dir - 1) \<in> set (name @ [0x2E] @ ext)"
      using that by (intro nth_mem) (simp add: source_path_def)
    ultimately show ?thesis using assms(2,3) by auto
  qed
  let ?i = "strrchr_loop (length ?p) file 0x2F m"
  have i: "?i \<le> length ?p" "?i = 0 \<or> m (file + of_nat ?i) = 0x2F"
    "\<forall>j. ?i < j \<and> j \<le> length ?p \<longrightarrow> m (file + of_nat j) \<noteq> 0x2F"
    using strrchr_loop_last [of "length ?p" "file" "0x2F" m, OF refl] by (simp_all add: slash)
  have "length dir \<le> ?i" using i(3) at [of "length dir"] d by (metis less_imp_le not_le)
  moreover have "?i \<le> length dir"
  proof (rule ccontr)
    assume n: "\<not> ?i \<le> length dir"
    then have "m (file + of_nat ?i) = 0x2F" using i(2) by linarith
    then show False using at [OF i(1)] after [of ?i] n by (auto split: if_splits)
  qed
  ultimately have "?i = length dir" by simp
  moreover have "unat (of_nat (length ?p) :: u32) = length ?p"
    using cstr_length [OF assms(1)] by (simp add: unat_of_nat)
  moreover have "m (file + of_nat (length dir)) = 0x2F" using at [of "length dir"] d by simp
  ultimately show ?thesis
    using strlen_cstr [OF assms(1)] by (simp add: strrchr_def Let_def slash)
qed

text \<open>
  Assertions in headers come from paths such as \<open>./util/addr.h\<close>.  Their first dot is not that of
  the extension: it lies before the name, whose length wraps to almost the whole address space.
\<close>

lemma trace_name_of_header:
  assumes "cstr m file (source_path (0x2E # dir) name ext)" and "0x2F \<notin> set name" and "0x2F \<notin> set ext"
  shows "\<exists>p e. strrchr file 0x2F m = Some p \<and> strchr file 0x2E m = Some e \<and>
     unat (e - (p + 1)) = 2 ^ 32 - (length dir + 2)"
proof (intro exI conjI)
  show "strrchr file 0x2F m = Some (file + of_nat (length (0x2E # dir)))"
    by (rule strrchr_slash [OF assms])
  have "scast (0x2E :: u8) = (0x2E :: u32)" by simp
  then show "strchr file 0x2E m = Some file"
    using strchr_cstr [OF assms(1), of "0x2E"] by (simp add: source_path_def)
  have l: "length dir + 2 < 2 ^ 32" using cstr_length [OF assms(1)] by (simp add: source_path_def)
  define w :: u32 where "w = of_nat (length dir + 2)"
  have w: "unat w = length dir + 2" unfolding w_def unat_of_nat using l by simp
  have "file - (file + of_nat (length (0x2E # dir)) + 1) = 0 - w" by (simp add: w_def)
  moreover have "unat (0 - w) = 2 ^ 32 - (length dir + 2)"
    unfolding unat_sub_if' w by simp
  ultimately show "unat (file - (file + of_nat (length (0x2E # dir)) + 1)) = 2 ^ 32 - (length dir + 2)"
    by (simp only:)
qed

subsection \<open>A line of the log\<close>

definition literals :: "(u8 list \<Rightarrow> u32) \<Rightarrow> memory \<Rightarrow> bool" where
  "literals lit m \<longleftrightarrow> list_all (\<lambda>bs. lit bs \<noteq> 0 \<and> cstr m (lit bs) bs) [[0x5B], [0x25, 0x63], [0x5D, 0x20], [0x0A]]"

lemma printf_lit:
  assumes "lit [c] \<noteq> 0" and "cstr m (lit [c]) [c]" and "c \<noteq> 0x25"
  shows "printf put m (lit [c]) [] s = do { s \<leftarrow> put c s; Some (0, s) }"
  using vprintf_renders [of "lit [c]" m "[Lit c]" "\<lambda>_. []" "[]" put s] assms
  by (auto simp: printf_def)

lemma printf_lit2:
  assumes "lit [c, d] \<noteq> 0" and "cstr m (lit [c, d]) [c, d]" and "c \<noteq> 0x25" and "d \<noteq> 0x25"
  shows "printf put m (lit [c, d]) [] s = do { s \<leftarrow> put c s; s \<leftarrow> put d s; Some (0, s) }"
  using vprintf_renders [of "lit [c, d]" m "[Lit c, Lit d]" "\<lambda>_. []" "[]" put s] assms
  by (auto simp: printf_def)

lemma printf_char:
  assumes "lit [0x25, 0x63] \<noteq> 0" and "cstr m (lit [0x25, 0x63]) [0x25, 0x63]"
  shows "printf put m (lit [0x25, 0x63]) [a] s = do { s \<leftarrow> put (ucast a) s; Some (0, s) }"
  using vprintf_renders [of "lit [0x25, 0x63]" m "[Conv False False 0 0x63]" "\<lambda>_. []" "[a]" put s] assms
  by (auto simp: printf_def conv_flags_def conv_text_def)

lemma trace_name_prints:
  assumes "literals lit m"
  shows "\<forall>i<length t. m (p + of_nat i) = t ! i \<Longrightarrow> trace_name put lit m (length t) p s = for_each t put s"
proof (induction t arbitrary: p s)
  case (Cons c t)
  have "m p = c" using Cons.prems by (auto dest: spec [of _ 0])
  moreover have "\<forall>i<length t. m (p + 1 + of_nat i) = t ! i"
    using Cons.prems by (auto simp: add.assoc dest: spec [of _ "Suc _"])
  moreover have "ucast (scast c :: u32) = c" by (rule bit_word_eqI) (simp add: bit_simps)
  ultimately show ?case using Cons.IH assms
    by (simp add: printf_char literals_def)
qed simp

lemma for_each_fun:
  "for_each (xs @ ys) f = (\<lambda>s. for_each xs f s \<bind> for_each ys f)"
  "for_each (x # xs) f = (\<lambda>s. f x s \<bind> for_each xs f)"
  by (rule ext, simp add: for_each_append)+

lemma debug_trace_prints:
  assumes lit: "literals lit m"
    and path: "cstr m file (source_path dir name ext)" "path_ok dir name ext"
    and nowrap: "unat file + length (source_path dir name ext) < 2 ^ 32" and "file \<noteq> 0"
    and fmt: "format \<noteq> 0" "cstr m format (concat (map piece_bytes ps))" "format_ok m str ps args"
  shows "debug_trace put lit m file format args s =
    for_each ([0x5B] @ name @ [0x5D, 0x20] @ render str ps args @ [0x0A]) put s"
proof -
  have nsl: "0x2F \<notin> set name" "0x2F \<notin> set ext" using path(2) by (simp_all add: path_ok_def)
  have d: "unat (file + of_nat (length dir)) = unat file + length dir"
    using nowrap by (simp add: source_path_def unat_word_ariths unat_of_nat)
  then have nz: "file + of_nat (length dir) \<noteq> 0"
    using \<open>file \<noteq> 0\<close> by (metis add_is_0 unat_eq_0)
  have n: "unat (of_nat (length name) :: u32) = length name"
    using nowrap by (simp add: source_path_def unat_of_nat)
  have nm: "\<forall>i<length name. m (file + of_nat (length dir) + 1 + of_nat i) = name ! i"
  proof (intro allI impI)
    fix i assume i: "i < length name"
    then have "m (file + of_nat (length dir + 1 + i)) = source_path dir name ext ! (length dir + 1 + i)"
      using cstr_nth [OF path(1), of "length dir + 1 + i"] by (simp add: source_path_def)
    also have "\<dots> = name ! i" using i by (simp add: source_path_def nth_append)
    finally show "m (file + of_nat (length dir) + 1 + of_nat i) = name ! i" by (simp add: algebra_simps)
  qed
  show ?thesis
    using lit vprintf_renders [OF fmt, of put] trace_name_prints [OF lit nm, of put]
    by (simp add: debug_trace_def strrchr_slash [OF path(1) nsl] strchr_dot [OF path] nz n literals_def printf_lit
        printf_lit2 for_each_fun)
qed

subsection \<open>The line on the screen\<close>

text \<open>The serial port always becomes ready to take a character.\<close>

definition serial_takes :: "io \<Rightarrow> bool" where
  "serial_takes i \<longleftrightarrow> (\<forall>tr. \<exists>n. uart_ready SERIAL_PORT_PRIMARY 5 n (i\<lparr>io_trace := tr\<rparr>))"

text \<open>What has been written to the ports, in order.\<close>

definition port_writes :: "io \<Rightarrow> (u16 \<times> u32) list" where
  "port_writes i = concat (map (\<lambda>e. case e of IoOut w p v \<Rightarrow> [(p, v)] | IoIn w p v \<Rightarrow> []) (io_trace i))"

lemma serial_write_takes:
  assumes "serial_takes i"
  shows "\<exists>i'. serial_write SERIAL_PORT_PRIMARY ch i = Some i' \<and> serial_takes i' \<and>
    port_writes i' = port_writes i @ [(SERIAL_PORT_PRIMARY, ucast ch)]"
proof -
  have trace: "\<exists>tr. uart_polls p n i = i\<lparr>io_trace := tr\<rparr> \<and> port_writes (i\<lparr>io_trace := tr\<rparr>) = port_writes i" for p n
  proof (induction n)
    case 0
    show ?case by (rule exI [of _ "io_trace i"]) (simp add: uart_polls_def)
  next
    case (Suc n)
    then show ?case by (auto simp: uart_polls_def uart_read_def inb_def Let_def port_writes_def)
  qed
  have "\<exists>n. uart_ready SERIAL_PORT_PRIMARY 5 n (i\<lparr>io_trace := io_trace i\<rparr>)"
    using assms unfolding serial_takes_def by blast
  then have ready: "\<exists>n. uart_ready SERIAL_PORT_PRIMARY 5 n i" by simp
  define n where "n = (LEAST n. uart_ready SERIAL_PORT_PRIMARY 5 n i)"
  have "uart_ready SERIAL_PORT_PRIMARY 5 n i" "\<forall>k<n. \<not> uart_ready SERIAL_PORT_PRIMARY 5 k i"
    using ready unfolding n_def by (auto intro: LeastI dest: not_less_Least)
  then have "uart_wait SERIAL_PORT_PRIMARY 5 i = Some (uart_polls SERIAL_PORT_PRIMARY (Suc n) i)"
    by (rule uart_wait_ready)
  moreover obtain tr where "uart_polls SERIAL_PORT_PRIMARY (Suc n) i = i\<lparr>io_trace := tr\<rparr>"
      "port_writes (i\<lparr>io_trace := tr\<rparr>) = port_writes i"
    using trace by blast
  ultimately show ?thesis
    using assms by (simp add: serial_write_def uart_write_def outb_def serial_takes_def port_writes_def)
qed

lemma console_sink_shows:
  assumes "displays (fst s) t" and "debug_enabled (fst s)" and "serial_takes (snd s)"
  shows "\<exists>s'. for_each cs console_sink s = Some s' \<and> displays (fst s') (fold term_put cs t) \<and>
     debug_enabled (fst s') \<and> serial_takes (snd s') \<and>
     port_writes (snd s') = port_writes (snd s) @ map (\<lambda>ch. (SERIAL_PORT_PRIMARY, ucast ch)) cs"
  using assms
proof (induction cs arbitrary: s t)
  case (Cons ch cs)
  obtain i' where i': "serial_write SERIAL_PORT_PRIMARY ch (snd s) = Some i'" "serial_takes i'"
      "port_writes i' = port_writes (snd s) @ [(SERIAL_PORT_PRIMARY, ucast ch)]"
    using serial_write_takes Cons.prems(3) by blast
  obtain c' where "putchar ch (fst s) (snd s) = Some (c', i')" "displays c' (term_put ch t)" "debug_enabled c'"
    using putchar_terminal [OF Cons.prems(1,2) i'(1)] by blast
  moreover obtain s' where "for_each cs console_sink (c', i') = Some s'" "displays (fst s') (fold term_put cs (term_put ch t))"
      "debug_enabled (fst s')" "serial_takes (snd s')"
      "port_writes (snd s') = port_writes i' @ map (\<lambda>ch. (SERIAL_PORT_PRIMARY, ucast ch)) cs"
    using Cons.IH [of "(c', i')" "term_put ch t"] calculation i'(2) by auto
  moreover have "console_sink ch s = putchar ch (fst s) (snd s)" by (simp add: console_sink_def split_beta)
  ultimately show ?case using i'(3) by simp
qed simp

text \<open>
  C12. A trace line of the kernel, for a source path with a directory whose only dot is that of the
  extension, a format with arguments that fit it, output enabled and a serial port that becomes
  ready, shows, on an ideal 80 by 25 terminal with tabs, line breaks and scrolling, the name of the
  source file without directory and extension in brackets and the formatted message, and writes
  exactly the same characters in order to the primary serial port: formatting, console buffer,
  cursor and serial port together.
\<close>

lemma debug_trace_displays:
  assumes "literals lit m"
    and "cstr m file (source_path dir name ext)" and "path_ok dir name ext"
    and "unat file + length (source_path dir name ext) < 2 ^ 32" and "file \<noteq> 0"
    and "format \<noteq> 0" and "cstr m format (concat (map piece_bytes ps))" and "format_ok m str ps args"
    and "displays c t" and "debug_enabled c" and "serial_takes i"
  shows "\<exists>c' i'. debug_trace console_sink lit m file format args (c, i) = Some (c', i') \<and>
     (let line = [0x5B] @ name @ [0x5D, 0x20] @ render str ps args @ [0x0A] in
      displays c' (fold term_put line t) \<and>
      port_writes i' = port_writes i @ map (\<lambda>ch. (SERIAL_PORT_PRIMARY, ucast ch)) line)"
proof -
  let ?cs = "[0x5B] @ name @ [0x5D, 0x20] @ render str ps args @ [0x0A]"
  obtain s' where "for_each ?cs console_sink (c, i) = Some s'" "displays (fst s') (fold term_put ?cs t)"
      "port_writes (snd s') = port_writes i @ map (\<lambda>ch. (SERIAL_PORT_PRIMARY, ucast ch)) ?cs"
    using console_sink_shows [of "(c, i)" t ?cs] assms(9-11) by auto
  then show ?thesis unfolding debug_trace_prints [OF assms(1-8)] Let_def by (intro exI [of _ "fst s'"] exI [of _ "snd s'"]) simp
qed

end
