(* ===== verification/Libh_Syscall.thy ===== *)
theory Libh_Syscall
  imports Kernel_State
begin

text \<open>
  The system calls as the C library offers them (\<open>lib/libh/src\<close>: \<open>io\<close>, \<open>mman\<close>, \<open>msg\<close>, \<open>proc\<close>,
  \<open>sched\<close>, \<open>shm\<close>, \<open>svc\<close>; \<open>arch/i586/syscall_arch.h\<close>; \<open>internal/errno.h\<close>).  The trap into the
  kernel, \<open>int $0x95\<close>, is a parameter: it is given the number of the call in \<open>eax\<close> and the
  arguments in \<open>ebx\<close>, \<open>ecx\<close> and \<open>edx\<close> and answers in \<open>eax\<close>; a trap that does not come back is
  \<^term>\<open>None\<close>.  The state behind the trap is \<open>'s\<close>.
\<close>

type_synonym 's trap = "u32 \<Rightarrow> u32 list \<Rightarrow> 's \<Rightarrow> (u32 \<times> 's) option"

record 's libh =
  errno :: u32
  sys :: 's

abbreviation (input) SYS_spawn :: u32 where "SYS_spawn \<equiv> 0"
abbreviation (input) SYS_launch :: u32 where "SYS_launch \<equiv> 1"
abbreviation (input) SYS_dispatch :: u32 where "SYS_dispatch \<equiv> 2"
abbreviation (input) SYS_release :: u32 where "SYS_release \<equiv> 3"
abbreviation (input) SYS_kill :: u32 where "SYS_kill \<equiv> 4"
abbreviation (input) SYS_yield :: u32 where "SYS_yield \<equiv> 5"
abbreviation (input) SYS_wait :: u32 where "SYS_wait \<equiv> 6"
abbreviation (input) SYS_vmap :: u32 where "SYS_vmap \<equiv> 7"
abbreviation (input) SYS_pmap :: u32 where "SYS_pmap \<equiv> 8"
abbreviation (input) SYS_unmap :: u32 where "SYS_unmap \<equiv> 9"
abbreviation (input) SYS_grant :: u32 where "SYS_grant \<equiv> 10"
abbreviation (input) SYS_share :: u32 where "SYS_share \<equiv> 11"
abbreviation (input) SYS_accept :: u32 where "SYS_accept \<equiv> 12"
abbreviation (input) SYS_send :: u32 where "SYS_send \<equiv> 13"
abbreviation (input) SYS_recv :: u32 where "SYS_recv \<equiv> 14"
abbreviation (input) SYS_peek :: u32 where "SYS_peek \<equiv> 15"
abbreviation (input) SYS_drop :: u32 where "SYS_drop \<equiv> 16"
abbreviation (input) SYS_svcown :: u32 where "SYS_svcown \<equiv> 17"
abbreviation (input) SYS_svcid :: u32 where "SYS_svcid \<equiv> 18"
abbreviation (input) SYS_sysio :: u32 where "SYS_sysio \<equiv> 19"

text \<open>\<open>__syscall0\<close> to \<open>__syscall3\<close>.\<close>

definition syscall0 :: "'s trap \<Rightarrow> u32 \<Rightarrow> ('s, 'z) libh_scheme \<Rightarrow> (u32 \<times> ('s, 'z) libh_scheme) option" where
  "syscall0 trap n s = do { (r, w) \<leftarrow> trap n [] (sys s); Some (r, s\<lparr>sys := w\<rparr>) }"

definition syscall1 :: "'s trap \<Rightarrow> u32 \<Rightarrow> u32 \<Rightarrow> ('s, 'z) libh_scheme \<Rightarrow> (u32 \<times> ('s, 'z) libh_scheme) option" where
  "syscall1 trap n a1 s = do { (r, w) \<leftarrow> trap n [a1] (sys s); Some (r, s\<lparr>sys := w\<rparr>) }"

definition syscall2 ::
    "'s trap \<Rightarrow> u32 \<Rightarrow> u32 \<Rightarrow> u32 \<Rightarrow> ('s, 'z) libh_scheme \<Rightarrow> (u32 \<times> ('s, 'z) libh_scheme) option" where
  "syscall2 trap n a1 a2 s = do { (r, w) \<leftarrow> trap n [a1, a2] (sys s); Some (r, s\<lparr>sys := w\<rparr>) }"

definition syscall3 ::
    "'s trap \<Rightarrow> u32 \<Rightarrow> u32 \<Rightarrow> u32 \<Rightarrow> u32 \<Rightarrow> ('s, 'z) libh_scheme \<Rightarrow> (u32 \<times> ('s, 'z) libh_scheme) option" where
  "syscall3 trap n a1 a2 a3 s = do { (r, w) \<leftarrow> trap n [a1, a2, a3] (sys s); Some (r, s\<lparr>sys := w\<rparr>) }"

definition iserr :: "u32 \<Rightarrow> bool" where
  "iserr x \<longleftrightarrow> sint x < 0 \<and> sint x \<ge> sint ENORES"

definition spawn :: "'s trap \<Rightarrow> ('s, 'z) libh_scheme \<Rightarrow> (u16 \<times> ('s, 'z) libh_scheme) option" where
  "spawn trap s = do {
     (res, s) \<leftarrow> syscall0 trap SYS_spawn s;
     if iserr res then Some (0, s\<lparr>errno := res\<rparr>) else Some (ucast res, s)
   }"

definition launch :: "'s trap \<Rightarrow> u16 \<Rightarrow> u32 \<Rightarrow> ('s, 'z) libh_scheme \<Rightarrow> (u32 \<times> ('s, 'z) libh_scheme) option" where
  "launch trap pid ep s = do {
     (res, s) \<leftarrow> syscall2 trap SYS_launch (ucast pid) ep s;
     if iserr res then Some (- 1, s\<lparr>errno := res\<rparr>) else Some (res, s)
   }"

definition dispatch :: "'s trap \<Rightarrow> u32 \<Rightarrow> u32 \<Rightarrow> ('s, 'z) libh_scheme \<Rightarrow> (u8 \<times> ('s, 'z) libh_scheme) option" where
  "dispatch trap ep sp s = do {
     (res, s) \<leftarrow> syscall2 trap SYS_dispatch ep sp s;
     if iserr res then Some (0, s\<lparr>errno := res\<rparr>) else Some (ucast res, s)
   }"

definition release :: "'s trap \<Rightarrow> u8 \<Rightarrow> ('s, 'z) libh_scheme \<Rightarrow> (u32 \<times> ('s, 'z) libh_scheme) option" where
  "release trap tid s = do {
     (res, s) \<leftarrow> syscall1 trap SYS_release (ucast tid) s;
     if iserr res then Some (- 1, s\<lparr>errno := res\<rparr>) else Some (res, s)
   }"

definition kill :: "'s trap \<Rightarrow> u16 \<Rightarrow> ('s, 'z) libh_scheme \<Rightarrow> (u32 \<times> ('s, 'z) libh_scheme) option" where
  "kill trap pid s = do {
     (res, s) \<leftarrow> syscall1 trap SYS_kill (ucast pid) s;
     if iserr res then Some (- 1, s\<lparr>errno := res\<rparr>) else Some (res, s)
   }"

definition yield :: "'s trap \<Rightarrow> ('s, 'z) libh_scheme \<Rightarrow> (u32 \<times> ('s, 'z) libh_scheme) option" where
  "yield trap s = do {
     (res, s) \<leftarrow> syscall0 trap SYS_yield s;
     if iserr res then Some (- 1, s\<lparr>errno := res\<rparr>) else Some (res, s)
   }"

definition wait :: "'s trap \<Rightarrow> u32 \<Rightarrow> ('s, 'z) libh_scheme \<Rightarrow> (u32 \<times> ('s, 'z) libh_scheme) option" where
  "wait trap sender s = do {
     (res, s) \<leftarrow> syscall1 trap SYS_wait sender s;
     if iserr res then Some (- 1, s\<lparr>errno := res\<rparr>) else Some (res, s)
   }"

definition vmap :: "'s trap \<Rightarrow> u32 \<Rightarrow> u32 \<Rightarrow> ('s, 'z) libh_scheme \<Rightarrow> (u32 \<times> ('s, 'z) libh_scheme) option" where
  "vmap trap dest sz s = do {
     (res, s) \<leftarrow> syscall2 trap SYS_vmap dest sz s;
     if iserr res then Some (0, s\<lparr>errno := res\<rparr>) else Some (res, s)
   }"

definition pmap :: "'s trap \<Rightarrow> u32 \<Rightarrow> u32 \<Rightarrow> u32 \<Rightarrow> ('s, 'z) libh_scheme \<Rightarrow> (u32 \<times> ('s, 'z) libh_scheme) option" where
  "pmap trap dest src sz s = do {
     (res, s) \<leftarrow> syscall3 trap SYS_pmap dest src sz s;
     if iserr res then Some (0, s\<lparr>errno := res\<rparr>) else Some (res, s)
   }"

definition unmap :: "'s trap \<Rightarrow> u32 \<Rightarrow> u32 \<Rightarrow> ('s, 'z) libh_scheme \<Rightarrow> (u32 \<times> ('s, 'z) libh_scheme) option" where
  "unmap trap addr sz s = do {
     (res, s) \<leftarrow> syscall2 trap SYS_unmap addr sz s;
     if iserr res then Some (- 1, s\<lparr>errno := res\<rparr>) else Some (res, s)
   }"

definition grant :: "'s trap \<Rightarrow> u32 \<Rightarrow> u32 \<Rightarrow> ('s, 'z) libh_scheme \<Rightarrow> (u32 \<times> ('s, 'z) libh_scheme) option" where
  "grant trap info dest s = do {
     (res, s) \<leftarrow> syscall2 trap SYS_grant info dest s;
     if iserr res then Some (- 1, s\<lparr>errno := res\<rparr>) else Some (res, s)
   }"

definition share :: "'s trap \<Rightarrow> u32 \<Rightarrow> ('s, 'z) libh_scheme \<Rightarrow> (u32 \<times> ('s, 'z) libh_scheme) option" where
  "share trap info s = do {
     (res, s) \<leftarrow> syscall1 trap SYS_share info s;
     if iserr res then Some (0, s\<lparr>errno := res\<rparr>) else Some (res, s)
   }"

definition accept :: "'s trap \<Rightarrow> u32 \<Rightarrow> u32 \<Rightarrow> u32 \<Rightarrow> ('s, 'z) libh_scheme \<Rightarrow> (u32 \<times> ('s, 'z) libh_scheme) option" where
  "accept trap sid dest sz s = do {
     (res, s) \<leftarrow> syscall3 trap SYS_accept sid dest sz s;
     if iserr res then Some (- 1, s\<lparr>errno := res\<rparr>) else Some (res, s)
   }"

definition send :: "'s trap \<Rightarrow> u32 \<Rightarrow> ('s, 'z) libh_scheme \<Rightarrow> (u32 \<times> ('s, 'z) libh_scheme) option" where
  "send trap info s = do {
     (res, s) \<leftarrow> syscall1 trap SYS_send info s;
     if iserr res then Some (- 1, s\<lparr>errno := res\<rparr>) else Some (res, s)
   }"

definition recv :: "'s trap \<Rightarrow> u32 \<Rightarrow> ('s, 'z) libh_scheme \<Rightarrow> (u32 \<times> ('s, 'z) libh_scheme) option" where
  "recv trap info s = do {
     (res, s) \<leftarrow> syscall1 trap SYS_recv info s;
     if iserr res then Some (- 1, s\<lparr>errno := res\<rparr>) else Some (res, s)
   }"

definition peek :: "'s trap \<Rightarrow> ('s, 'z) libh_scheme \<Rightarrow> (u32 \<times> ('s, 'z) libh_scheme) option" where
  "peek trap s = do {
     (res, s) \<leftarrow> syscall0 trap SYS_peek s;
     if iserr res then Some (- 1, s\<lparr>errno := res\<rparr>) else Some (res, s)
   }"

definition drop_msg :: "'s trap \<Rightarrow> u32 \<Rightarrow> ('s, 'z) libh_scheme \<Rightarrow> (u32 \<times> ('s, 'z) libh_scheme) option" where
  "drop_msg trap info s = do {
     (res, s) \<leftarrow> syscall1 trap SYS_drop info s;
     if iserr res then Some (- 1, s\<lparr>errno := res\<rparr>) else Some (res, s)
   }"

definition svcown :: "'s trap \<Rightarrow> u32 \<Rightarrow> ('s, 'z) libh_scheme \<Rightarrow> (u32 \<times> ('s, 'z) libh_scheme) option" where
  "svcown trap sid s = do {
     (res, s) \<leftarrow> syscall1 trap SYS_svcown sid s;
     if iserr res then Some (- 1, s\<lparr>errno := res\<rparr>) else Some (res, s)
   }"

definition svcid :: "'s trap \<Rightarrow> u32 \<Rightarrow> ('s, 'z) libh_scheme \<Rightarrow> (u32 \<times> ('s, 'z) libh_scheme) option" where
  "svcid trap sid s = do {
     (res, s) \<leftarrow> syscall1 trap SYS_svcid sid s;
     if res = 0 then Some (0, s\<lparr>errno := ENOTAVAIL\<rparr>) else Some (res, s)
   }"

definition sysio :: "'s trap \<Rightarrow> u32 \<Rightarrow> u32 \<Rightarrow> u32 \<Rightarrow> ('s, 'z) libh_scheme \<Rightarrow> (u32 \<times> ('s, 'z) libh_scheme) option" where
  "sysio trap action arg param s = do {
     (res, s) \<leftarrow> syscall3 trap SYS_sysio action arg param s;
     if iserr res then Some (- 1, s\<lparr>errno := res\<rparr>) else Some (res, s)
   }"

subsection \<open>Errors and results\<close>

text \<open>The error values are the eight words from \<open>ENORES\<close> to \<open>EPARAM\<close>.\<close>

lemma iserr_iff: "iserr x \<longleftrightarrow> x \<in> {EPARAM, EPRIV, EADDR, ESIZE, EALIGN, ENOTAVAIL, EINVALID, ENORES}"
proof
  assume "iserr x"
  then have "sint x \<in> {- 8, - 7, - 6, - 5, - 4, - 3, - 2, - 1}" by (auto simp: iserr_def)
  moreover have "x = word_of_int (sint x)" by simp
  ultimately show "x \<in> {EPARAM, EPRIV, EADDR, ESIZE, EALIGN, ENOTAVAIL, EINVALID, ENORES}"
    by (auto simp del: of_int_sint)
next
  assume "x \<in> {EPARAM, EPRIV, EADDR, ESIZE, EALIGN, ENOTAVAIL, EINVALID, ENORES}"
  then show "iserr x" by (auto simp: iserr_def)
qed

text \<open>An address a process may own is not an error.\<close>

lemma not_iserr_low: "x < 0xFFFFFFF8 \<Longrightarrow> \<not> iserr x"
  by (auto simp: iserr_iff)

end
