(* ===== verification/Libh_Kernel.thy ===== *)
theory Libh_Kernel
  imports Dispatch Libh_Syscall
begin

text \<open>
  The C library on top of the kernel: the parameter \<open>trap\<close> of the library is the kernel's own
  interrupt entry, reached through the vector of the system calls with the registers the inline
  assembly of \<open>lib/libh/arch/i586/syscall_arch.h\<close> loads.
\<close>

text \<open>The frame the processor and the stub push: the registers of the caller, some of them loaded.\<close>

definition trap_frame :: "u32 \<Rightarrow> u32 list \<Rightarrow> int_frame \<Rightarrow> int_frame" where
  "trap_frame n args f = (
     let f = f\<lparr>int_num := ucast SYSCALL_ISR, EAX := n\<rparr> in
     case args of
       [] \<Rightarrow> f
     | [a1] \<Rightarrow> f\<lparr>EBX := a1\<rparr>
     | [a1, a2] \<Rightarrow> f\<lparr>EBX := a1, ECX := a2\<rparr>
     | a1 # a2 # a3 # _ \<Rightarrow> f\<lparr>EBX := a1, ECX := a2, EDX := a3\<rparr>)"

text \<open>
  A call the kernel answers at once: the thread that trapped is the one it returns to.  A call
  that blocks or ends the caller has no answer here.
\<close>

definition kernel_trap :: "(int_frame \<times> kstate) trap" where
  "kernel_trap n args w = (case w of (f, s) \<Rightarrow> do {
     (f', s') \<leftarrow> int_callback_common (trap_frame n args f) s;
     if active_thread s' = active_thread s then Some (EAX f', f', s') else None
   })"

definition syscalls_ready :: "kstate \<Rightarrow> bool" where
  "syscalls_ready s \<longleftrightarrow> cb_handle s SYSCALL_ISR = Some dispatch_call_h \<and> cb_eoi s SYSCALL_ISR = None \<and>
     table_size s = length syscall_table"

lemma syscalls_ready_init:
  assumes "syscall_init s = Some s'" and "table_size s \<le> length syscall_table" and "cb_eoi s SYSCALL_ISR = None"
  shows "syscalls_ready s'"
  using assms
  by (auto simp: syscall_init_def isr_reserve_def idt_entry_priv_set_def int_callback_set_def syscalls_ready_def
      bind_eq_Some_conv Let_def split: if_splits)

text \<open>The numbers of the library select the kernel's functions, each with the arguments it takes.\<close>

definition run_call :: "syscall_fn \<Rightarrow> u32 list \<Rightarrow> kstate \<Rightarrow> kstate option" where
  "run_call g args s = (case (g, args) of
     (arg0 g, []) \<Rightarrow> g s
   | (arg1 g, [a]) \<Rightarrow> g a s
   | (arg2 g, [a, b]) \<Rightarrow> g a b s
   | (arg3 g, [a, b, c]) \<Rightarrow> g a b c s
   | _ \<Rightarrow> None)"

fun call_arity :: "syscall_fn \<Rightarrow> nat" where
  "call_arity (arg0 g) = 0"
| "call_arity (arg1 g) = 1"
| "call_arity (arg2 g) = 2"
| "call_arity (arg3 g) = 3"

lemma kernel_trap_call:
  assumes "syscalls_ready s" and "unat n < 20" and "length args = call_arity (syscall_table ! unat n)"
  shows "kernel_trap n args (f, s) = do {
     s' \<leftarrow> run_call (syscall_table ! unat n) args (s\<lparr>curr_frame := Some (trap_frame n args f)\<rparr>);
     s' \<leftarrow> (case cb_eoi s' SYSCALL_ISR of None \<Rightarrow> Some s'
           | Some h \<Rightarrow> run_handler h SYSCALL_ISR (irq_from_isr SYSCALL_ISR s') s');
     f' \<leftarrow> curr_frame s';
     if active_thread s' = active_thread s then Some (EAX f', f', s'\<lparr>curr_frame := None\<rparr>) else None
   }"
proof -
  let ?f = "trap_frame n args f" and ?s = "s\<lparr>curr_frame := Some (trap_frame n args f)\<rparr>"
  have len: "length syscall_table = 20" by (simp add: syscall_table_def)
  have f: "EAX ?f = n" "(ucast (int_num ?f) :: u8) = SYSCALL_ISR"
    by (auto simp: trap_frame_def Let_def split: list.splits)
  have "dispatch_call ?s = run_call (syscall_table ! unat n) args ?s"
  proof (cases "syscall_table ! unat n")
    case (arg0 g)
    then show ?thesis using assms len f(1)
      by (simp add: dispatch_call_def int_callback_frame_get_def syscalls_ready_def run_call_def)
  next
    case (arg1 g)
    then obtain a where "args = [a]" using assms(3) by (auto simp: length_Suc_conv)
    then show ?thesis using assms len f(1) arg1
      by (simp add: dispatch_call_def int_callback_frame_get_def syscalls_ready_def run_call_def trap_frame_def)
  next
    case (arg2 g)
    then obtain a b where "args = [a, b]" using assms(3) by (auto simp: length_Suc_conv numeral_2_eq_2)
    then show ?thesis using assms len f(1) arg2
      by (simp add: dispatch_call_def int_callback_frame_get_def syscalls_ready_def run_call_def trap_frame_def)
  next
    case (arg3 g)
    then obtain a b c where "args = [a, b, c]" using assms(3) by (auto simp: length_Suc_conv numeral_3_eq_3)
    then show ?thesis using assms len f(1) arg3
      by (simp add: dispatch_call_def int_callback_frame_get_def syscalls_ready_def run_call_def trap_frame_def)
  qed
  then show ?thesis using assms(1)
    unfolding kernel_trap_def int_callback_common_def Let_def f(2) prod.case
    by (simp add: syscalls_ready_def run_handler_def cong: if_cong)
qed

subsection \<open>The two sides of the interface\<close>

text \<open>
  What the interface promises of a call with number \<open>n\<close>: the handler \<open>h\<close> runs on the trapped
  registers, and its result reaches the program, as the value \<open>bad\<close> and an error number if it is an
  error.  A handler that switches to another thread has no answer, as for \<^const>\<open>kernel_trap\<close>.
\<close>

definition kernel_call :: "u32 \<Rightarrow> u32 list \<Rightarrow> (kstate \<Rightarrow> kstate option) \<Rightarrow> int_frame \<times> kstate \<Rightarrow> (u32 \<times> int_frame \<times> kstate) option" where
  "kernel_call n args h = (\<lambda>(f, s). do {
     s' \<leftarrow> h (s\<lparr>curr_frame := Some (trap_frame n args f)\<rparr>);
     s' \<leftarrow> (case cb_eoi s' SYSCALL_ISR of None \<Rightarrow> Some s'
           | Some e \<Rightarrow> run_handler e SYSCALL_ISR (irq_from_isr SYSCALL_ISR s') s');
     f' \<leftarrow> curr_frame s';
     if active_thread s' = active_thread s then Some (EAX f', f', s'\<lparr>curr_frame := None\<rparr>) else None
   })"

definition served :: "(u32 \<Rightarrow> bool) \<Rightarrow> (u32 \<Rightarrow> u32) \<Rightarrow> u32 \<Rightarrow> u32 list \<Rightarrow> (kstate \<Rightarrow> kstate option) \<Rightarrow> 'r \<Rightarrow> (u32 \<Rightarrow> 'r) \<Rightarrow>
    (int_frame \<times> kstate) libh \<Rightarrow> ('r \<times> (int_frame \<times> kstate) libh) option" where
  "served failed code n args h bad conv l = do {
     (r, w) \<leftarrow> kernel_call n args h (sys l);
     if failed r then Some (bad, l\<lparr>sys := w, errno := code r\<rparr>) else Some (conv r, l\<lparr>sys := w\<rparr>)
   }"

lemma kernel_trap_served:
  assumes "syscalls_ready s" and "unat n < 20" and "length args = call_arity (syscall_table ! unat n)"
  shows "kernel_trap n args (f, s) = kernel_call n args (run_call (syscall_table ! unat n) args) (f, s)"
  using kernel_trap_call [OF assms, of f] by (simp add: kernel_call_def)

lemma syscall_table_nth:
  "run_call (syscall_table ! 0) [] = syscall_spawn"
  "run_call (syscall_table ! Suc 0) [a, b] = syscall_launch (ucast a) b"
  "run_call (syscall_table ! 2) [a, b] = syscall_dispatch a b"
  "run_call (syscall_table ! 3) [a] = syscall_release (ucast a)"
  "run_call (syscall_table ! 4) [a] = syscall_kill (ucast a)"
  "run_call (syscall_table ! 5) [] = syscall_yield"
  "run_call (syscall_table ! 6) [a] = syscall_wait a"
  "run_call (syscall_table ! 7) [a, b] = syscall_vmap a b"
  "run_call (syscall_table ! 8) [a, b, c] = syscall_pmap a b c"
  "run_call (syscall_table ! 9) [a, b] = syscall_unmap a b"
  "run_call (syscall_table ! 10) [a, b] = syscall_grant a b"
  "run_call (syscall_table ! 11) [a] = syscall_share a"
  "run_call (syscall_table ! 12) [a, b, c] = syscall_accept a b c"
  "run_call (syscall_table ! 13) [a] = syscall_send a"
  "run_call (syscall_table ! 14) [a] = syscall_recv a"
  "run_call (syscall_table ! 15) [] = syscall_peek"
  "run_call (syscall_table ! 16) [a] = syscall_drop a"
  "run_call (syscall_table ! 17) [a] = syscall_svcown a"
  "run_call (syscall_table ! 18) [a] = syscall_svcid a"
  "run_call (syscall_table ! 19) [a, b, c] = syscall_sysio a b c"
  by (simp_all add: syscall_table_def run_call_def fun_eq_iff)

lemma syscall_table_arity:
  "map call_arity syscall_table = [0, 2, 2, 1, 1, 0, 1, 2, 3, 2, 2, 1, 3, 1, 1, 0, 1, 1, 1, 3]"
  by (simp add: syscall_table_def)

lemma call_arity_nth: "i < 20 \<Longrightarrow> call_arity (syscall_table ! i) = [0, 2, 2, 1, 1, 0, 1, 2, 3, 2, 2, 1, 3, 1, 1, 0, 1, 1, 1, 3] ! i"
  using syscall_table_arity nth_map [of i syscall_table call_arity] by (simp add: syscall_table_def)

lemma bind_served:
  "do { (r, s) \<leftarrow> do { (r, w) \<leftarrow> k; Some (r, (l :: 'a libh)\<lparr>sys := w\<rparr>) }; F r s } = do { (r, w) \<leftarrow> k; F r (l\<lparr>sys := w\<rparr>) }"
  by (cases k) (auto split: prod.splits)

lemma ucast_up_down [simp]: "(ucast (ucast (x :: u16) :: u32) :: u16) = x" "(ucast (ucast (y :: u8) :: u32) :: u8) = y"
  by (simp_all add: unsigned_ucast_eq take_bit_word_eq_self)

text \<open>
  C28. The system call interface: once the kernel has set up the system call interrupt, each of the
  twenty functions of the C library runs, in its process, the kernel function of the same name with
  the same arguments and returns the word that function leaves in EAX; an error becomes the
  function's error value and errno, for svcid a result of 0 and ENOTAVAIL. A call that switches to
  another thread has no result on either side.
\<close>

theorem libh_abi:
  assumes R: "syscalls_ready s" and l: "sys l = (f, s)"
  shows
    "spawn kernel_trap l = served iserr id 0 [] syscall_spawn 0 ucast l \<and>
     launch kernel_trap pid ep l = served iserr id 1 [ucast pid, ep] (syscall_launch pid ep) (- 1) id l \<and>
     dispatch kernel_trap ep sp l = served iserr id 2 [ep, sp] (syscall_dispatch ep sp) 0 ucast l \<and>
     release kernel_trap tid l = served iserr id 3 [ucast tid] (syscall_release tid) (- 1) id l \<and>
     kill kernel_trap pid l = served iserr id 4 [ucast pid] (syscall_kill pid) (- 1) id l \<and>
     yield kernel_trap l = served iserr id 5 [] syscall_yield (- 1) id l \<and>
     wait kernel_trap sender l = served iserr id 6 [sender] (syscall_wait sender) (- 1) id l \<and>
     vmap kernel_trap dest sz l = served iserr id 7 [dest, sz] (syscall_vmap dest sz) 0 id l \<and>
     pmap kernel_trap dest src sz l = served iserr id 8 [dest, src, sz] (syscall_pmap dest src sz) 0 id l \<and>
     unmap kernel_trap dest sz l = served iserr id 9 [dest, sz] (syscall_unmap dest sz) (- 1) id l \<and>
     grant kernel_trap info dest l = served iserr id 10 [info, dest] (syscall_grant info dest) (- 1) id l \<and>
     share kernel_trap info l = served iserr id 11 [info] (syscall_share info) 0 id l \<and>
     accept kernel_trap sid dest sz l = served iserr id 12 [sid, dest, sz] (syscall_accept sid dest sz) (- 1) id l \<and>
     send kernel_trap info l = served iserr id 13 [info] (syscall_send info) (- 1) id l \<and>
     recv kernel_trap info l = served iserr id 14 [info] (syscall_recv info) (- 1) id l \<and>
     peek kernel_trap l = served iserr id 15 [] syscall_peek (- 1) id l \<and>
     drop_msg kernel_trap info l = served iserr id 16 [info] (syscall_drop info) (- 1) id l \<and>
     svcown kernel_trap sid l = served iserr id 17 [sid] (syscall_svcown sid) (- 1) id l \<and>
     sysio kernel_trap action arg param l = served iserr id 19 [action, arg, param] (syscall_sysio action arg param) (- 1) id l \<and>
     svcid kernel_trap sid l = served (\<lambda>r. r = 0) (\<lambda>_. ENOTAVAIL) 18 [sid] (syscall_svcid sid) 0 id l"
proof -
  note K = kernel_trap_served [OF R, of _ _ f, folded l]
  show ?thesis
    unfolding spawn_def launch_def dispatch_def release_def kill_def yield_def wait_def vmap_def pmap_def unmap_def
      grant_def share_def accept_def send_def recv_def peek_def drop_msg_def svcown_def svcid_def sysio_def
      syscall0_def syscall1_def syscall2_def syscall3_def served_def bind_served
    by (intro conjI; simp add: K call_arity_nth syscall_table_nth cong: if_cong)
qed

subsection \<open>Mapping memory from a program\<close>

text \<open>
  \<open>vmap\<close> of the library, through the trap and the kernel: fresh zeroed pages at the address asked
  for, or \<open>NULL\<close> and \<open>errno\<close> when a page of the range is taken.
\<close>

text \<open>
  C4. A program that calls vmap of the C library for an aligned, nonempty range below the kernel,
  when two free frames for each page are left (one for the page, one for a page table), gets,
  through the trap, the system call table and the handler, either its address back, with each page
  of the range translated, over directory and table, to a distinct, previously free, zeroed frame
  with write and user access and every other translation kept, or, when a page was mapped already,
  NULL and errno ENOTAVAIL with memory and frames unchanged.
\<close>

lemma vmap_maps:
  assumes C: "in_call (s\<lparr>curr_frame := Some (trap_frame SYS_vmap [dest, sz] f)\<rparr>) (u # xs) (trap_frame SYS_vmap [dest, sz] f)"
    and S: "syscalls_ready s"
    and P: "P = process_at s (uid_pid u)" "pr_pid P = uid_pid u"
    and k: "kmem_ok (km s)" "pas_inv (km s) (addr_space P)" "phys_ready (phys_st (km s))"
    and r: "page_aligned dest" "sz \<noteq> 0" "sz mod ARCH_PGSIZE = 0" "unat dest + unat sz \<le> 0xC0000000"
    and fr: "2 * length (range_pages dest sz) \<le> free_frames (phys_st (km s))"
  shows "\<exists>f' s'. vmap kernel_trap dest sz \<lparr>errno = e, sys = (f, s)\<rparr> =
      (if \<forall>v \<in> set (range_pages dest sz). walk (mem (km s)) (addr_space P) v = None
       then Some (dest, \<lparr>errno = e, sys = (f', s')\<rparr>) else Some (0, \<lparr>errno = ENOTAVAIL, sys = (f', s')\<rparr>)) \<and>
    (if \<forall>v \<in> set (range_pages dest sz). walk (mem (km s)) (addr_space P) v = None
     then allocated (km s) (addr_space P) 3 (range_pages dest sz) (km s')
     else mem (km s') = mem (km s) \<and> phys_st (km s') = phys_st (km s))"
proof -
  let ?f = "trap_frame SYS_vmap [dest, sz] f"
  let ?free = "\<forall>v \<in> set (range_pages dest sz). walk (mem (km s)) (addr_space P) v = None"
  have "\<exists>s'. syscall_vmap dest sz (s\<lparr>curr_frame := Some ?f\<rparr>) = Some s' \<and>
      s' = s\<lparr>curr_frame := Some ?f, km := km s', curr_frame := curr_frame s'\<rparr> \<and>
      (if ?free then allocated (km s) (addr_space P) 3 (range_pages dest sz) (km s') \<and> curr_frame s' = Some (?f\<lparr>EAX := dest\<rparr>)
       else mem (km s') = mem (km s) \<and> phys_st (km s') = phys_st (km s) \<and> curr_frame s' = Some (?f\<lparr>EAX := ENOTAVAIL\<rparr>))"
    using syscall_vmap_alloc [OF C, of P dest sz] P k r fr by (simp cong: if_cong)
  then obtain s' where s': "syscall_vmap dest sz (s\<lparr>curr_frame := Some ?f\<rparr>) = Some s'"
      "s' = s\<lparr>curr_frame := Some ?f, km := km s', curr_frame := curr_frame s'\<rparr>"
      "if ?free then allocated (km s) (addr_space P) 3 (range_pages dest sz) (km s') \<and> curr_frame s' = Some (?f\<lparr>EAX := dest\<rparr>)
       else mem (km s') = mem (km s) \<and> phys_st (km s') = phys_st (km s) \<and> curr_frame s' = Some (?f\<lparr>EAX := ENOTAVAIL\<rparr>)"
    by (elim exE conjE) (rule that)
  have "active_thread s' = active_thread s" "cb_eoi s' = cb_eoi s"
    by (subst s'(2), simp)+
  moreover have "syscall_table ! 7 = arg2 syscall_vmap" by (simp add: syscall_table_def)
  ultimately have run: "kernel_trap SYS_vmap [dest, sz] (f, s) =
      do { f' \<leftarrow> curr_frame s'; Some (EAX f', f', s'\<lparr>curr_frame := None\<rparr>) }"
    using kernel_trap_call [OF S, of SYS_vmap "[dest, sz]" f] S s'(1)
    by (simp add: run_call_def syscalls_ready_def)
  have "0 < unat sz" using r(2) by (simp add: unat_gt_0)
  then have "unat dest < 0xC0000000" using r(4) by linarith
  then have ne: "\<not> iserr dest" by (intro not_iserr_low) (simp add: word_less_nat_alt)
  show ?thesis
  proof (cases ?free)
    case True
    then show ?thesis using run s'(3) ne by (auto simp: vmap_def syscall2_def)
  next
    case False
    moreover have "iserr ENOTAVAIL" by (simp add: iserr_iff)
    ultimately show ?thesis using run s'(3) by (auto simp: vmap_def syscall2_def)
  qed
qed

end
