(* ===== verification/Libh_Malloc.thy ===== *)
theory Libh_Malloc
  imports Libh_String Libh_Syscall
begin

text \<open>
  \<open>lib/libh/src/malloc\<close>: the heap of a program.  Blocks lie one after the other from
  \<open>heap_base\<close> to \<open>heap_top\<close>; the first word of a block is its size in bytes, with the lowest bit
  set while it is in use.  The state behind the trap has the memory of the program as its first
  component; a walk over the blocks that does not end is \<^term>\<open>None\<close>, as is a copy to \<open>NULL\<close>.
\<close>

abbreviation (input) MALLOC_USED :: u32 where "MALLOC_USED \<equiv> 1"
abbreviation (input) MALLOC_ALIGNMENT :: u32 where "MALLOC_ALIGNMENT \<equiv> 8"
abbreviation (input) PAGE_SIZE :: u32 where "PAGE_SIZE \<equiv> 4096"
abbreviation (input) HEADER_SIZE :: u32 where "HEADER_SIZE \<equiv> 8"

record 'w alloc = "(memory \<times> 'w) libh" +
  heap_base :: u32
  heap_top :: u32

definition umem :: "'w alloc \<Rightarrow> memory" where
  "umem s = fst (sys s)"

definition set_umem :: "memory \<Rightarrow> 'w alloc \<Rightarrow> 'w alloc" where
  "set_umem m s = s\<lparr>sys := (m, snd (sys s))\<rparr>"

definition malloc_align :: "u32 \<Rightarrow> u32" where
  "malloc_align x = (x + MALLOC_ALIGNMENT - 1) AND NOT (MALLOC_ALIGNMENT - 1)"

definition malloc_initialize :: "u32 \<Rightarrow> 'w alloc \<Rightarrow> 'w alloc" where
  "malloc_initialize base s = s\<lparr>heap_base := base, heap_top := base\<rparr>"

definition malloc_heap_start :: "'w alloc \<Rightarrow> u32" where
  "malloc_heap_start s = heap_base s"

definition malloc_heap_end :: "'w alloc \<Rightarrow> u32" where
  "malloc_heap_end s = heap_top s"

definition malloc_heap_expand :: "(memory \<times> 'w) trap \<Rightarrow> u32 \<Rightarrow> 'w alloc \<Rightarrow> (u32 \<times> 'w alloc) option" where
  "malloc_heap_expand trap min_sz s = do {
     let sz = (min_sz + PAGE_SIZE - 1) AND NOT (PAGE_SIZE - 1);
     (res, s) \<leftarrow> vmap trap (heap_top s) sz s;
     if res = 0 then Some (0, s)
     else do {
       let next = heap_top s;
       let s = set_umem (st32 (umem s) next sz) s;
       Some (next, s\<lparr>heap_top := heap_top s + sz\<rparr>)
     }
   }"

partial_function (option) find_fit_loop :: "memory \<Rightarrow> u32 \<Rightarrow> u32 \<Rightarrow> u32 \<Rightarrow> u32 option" where
  "find_fit_loop m e header sz =
     (if header < e then
        (if ld32 m header \<ge> sz \<and> ld32 m header AND MALLOC_USED = 0 then Some header
         else find_fit_loop m e (header + (ld32 m header AND NOT MALLOC_USED)) sz)
      else Some 0)"

definition find_fit :: "u32 \<Rightarrow> 'w alloc \<Rightarrow> u32 option" where
  "find_fit sz s = find_fit_loop (umem s) (malloc_heap_end s) (malloc_heap_start s) sz"

text \<open>The end of \<open>malloc\<close>: the rest of the block is split off if it can hold one, and the block is marked.\<close>

definition malloc_claim :: "u32 \<Rightarrow> u32 \<Rightarrow> 'w alloc \<Rightarrow> 'w alloc" where
  "malloc_claim header block_size s = (
     let remaining = ld32 (umem s) header - block_size;
         s = (if remaining \<ge> MALLOC_ALIGNMENT * 2
              then set_umem (st32 (st32 (umem s) (header + block_size) remaining) header block_size) s
              else s)
     in set_umem (st32 (umem s) header (ld32 (umem s) header OR MALLOC_USED)) s)"

definition malloc :: "(memory \<times> 'w) trap \<Rightarrow> u32 \<Rightarrow> 'w alloc \<Rightarrow> (u32 \<times> 'w alloc) option" where
  "malloc trap sz s = do {
     let block_size = malloc_align (sz + HEADER_SIZE);
     header \<leftarrow> find_fit block_size s;
     (header, s) \<leftarrow> (if header = 0 then malloc_heap_expand trap block_size s else Some (header, s));
     if header = 0 then Some (0, s)
     else Some (header + HEADER_SIZE, malloc_claim header block_size s)
   }"

definition free :: "u32 \<Rightarrow> 'w alloc \<Rightarrow> 'w alloc" where
  "free ptr s = (
     let header = ptr - HEADER_SIZE;
         s = set_umem (st32 (umem s) header (ld32 (umem s) header AND NOT MALLOC_USED)) s;
         next = header + ld32 (umem s) header
     in if next < malloc_heap_end s \<and> ld32 (umem s) next AND MALLOC_USED = 0
        then set_umem (st32 (umem s) header (ld32 (umem s) header + ld32 (umem s) next)) s
        else s)"

definition realloc :: "(memory \<times> 'w) trap \<Rightarrow> u32 \<Rightarrow> u32 \<Rightarrow> 'w alloc \<Rightarrow> (u32 \<times> 'w alloc) option" where
  "realloc trap ptr sz s = do {
     let header = ptr - HEADER_SIZE;
     let old_size = ld32 (umem s) header AND NOT MALLOC_USED;
     let new_size = malloc_align (sz + HEADER_SIZE);
     if new_size \<le> old_size then Some (ptr, s)
     else do {
       (new_ptr, s) \<leftarrow> malloc trap sz s;
       dassert (new_ptr \<noteq> 0);
       let s = set_umem (snd (memcpy new_ptr ptr (old_size - HEADER_SIZE) (umem s))) s;
       Some (new_ptr, free ptr s)
     }
   }"

subsection \<open>The heap as a list of blocks\<close>

text \<open>Blocks are given by their size and whether they are in use; addresses are natural numbers.\<close>

type_synonym blocks = "(nat \<times> bool) list"

fun heap_at :: "memory \<Rightarrow> nat \<Rightarrow> blocks \<Rightarrow> bool" where
  "heap_at m h [] \<longleftrightarrow> True"
| "heap_at m h ((n, u) # bs) \<longleftrightarrow> ld32 m (of_nat h) = of_nat n + (if u then 1 else 0) \<and>
     8 dvd n \<and> 8 \<le> n \<and> heap_at m (h + n) bs"

definition heap_len :: "blocks \<Rightarrow> nat" where
  "heap_len bs = sum_list (map fst bs)"

fun used :: "nat \<Rightarrow> blocks \<Rightarrow> (nat \<times> nat) set" where
  "used h [] = {}"
| "used h ((n, u) # bs) = (if u then {(h, n)} else {}) \<union> used (h + n) bs"

definition heap_inv :: "'w alloc \<Rightarrow> blocks \<Rightarrow> bool" where
  "heap_inv s bs \<longleftrightarrow> 0 < unat (heap_base s) \<and> 8 dvd unat (heap_base s) \<and>
     unat (heap_base s) + heap_len bs = unat (heap_top s) \<and> heap_at (umem s) (unat (heap_base s)) bs"

text \<open>First fit.\<close>

fun fit :: "nat \<Rightarrow> nat \<Rightarrow> blocks \<Rightarrow> nat option" where
  "fit k h [] = None"
| "fit k h ((n, u) # bs) = (if k \<le> n \<and> \<not> u then Some h else fit k (h + n) bs)"

lemma heap_len_simps [simp]:
  "heap_len [] = 0" "heap_len ((n, u) # bs) = n + heap_len bs" "heap_len (as @ bs) = heap_len as + heap_len bs"
  by (simp_all add: heap_len_def)

lemma heap_at_append: "heap_at m h (as @ bs) \<longleftrightarrow> heap_at m h as \<and> heap_at m (h + heap_len as) bs"
  by (induction m h as rule: heap_at.induct) (auto simp: add.assoc)

lemma used_append: "used h (as @ bs) = used h as \<union> used (h + heap_len as) bs"
  by (induction h as rule: used.induct) (auto simp: add.assoc)

lemma used_range: "(a, n) \<in> used h bs \<Longrightarrow> h \<le> a \<and> a + n \<le> h + heap_len bs"
  by (induction h bs rule: used.induct) (auto split: if_splits)

lemma used_block: "(a, n) \<in> used h bs \<Longrightarrow> \<exists>as cs. bs = as @ (n, True) # cs \<and> a = h + heap_len as"
proof (induction h bs rule: used.induct)
  case (2 h n' u bs)
  show ?case
  proof (cases "u \<and> a = h \<and> n = n'")
    case True
    then show ?thesis by (intro exI [of _ "[]"] exI [of _ bs]) simp
  next
    case False
    then obtain as cs where "bs = as @ (n, True) # cs" "a = h + n' + heap_len as" using 2 by (auto split: if_splits)
    then show ?thesis by (intro exI [of _ "(n', u) # as"] exI [of _ cs]) simp
  qed
qed simp

lemma fit_block:
  "fit k h bs = Some a \<Longrightarrow> \<exists>as n cs. bs = as @ (n, False) # cs \<and> a = h + heap_len as \<and> k \<le> n \<and> fit k h as = None"
proof (induction k h bs rule: fit.induct)
  case (2 k h n u bs)
  show ?case
  proof (cases "k \<le> n \<and> \<not> u")
    case True
    then show ?thesis using 2 by (intro exI [of _ "[]"]) auto
  next
    case False
    then obtain as n' cs where "bs = as @ (n', False) # cs" "a = h + n + heap_len as" "k \<le> n'" "fit k (h + n) as = None"
      using 2 by auto
    then show ?thesis using False by (intro exI [of _ "(n, u) # as"] exI [of _ n'] exI [of _ cs]) auto
  qed
qed simp

subsection \<open>Headers in memory\<close>

lemma umem_set [simp]: "umem (set_umem m s) = m" "heap_base (set_umem m s) = heap_base s"
  "heap_top (set_umem m s) = heap_top s" "set_umem m' (set_umem m s) = set_umem m' s"
  "umem (s\<lparr>heap_top := t\<rparr>) = umem s"
  by (simp_all add: umem_def set_umem_def)

lemma unat_nat: "n < 4294967296 \<Longrightarrow> unat (of_nat n :: u32) = n"
  by (simp add: unat_of_nat)

lemma of_nat_eq: "\<lbrakk>a < 4294967296; b < 4294967296\<rbrakk> \<Longrightarrow> (of_nat a :: u32) = of_nat b \<longleftrightarrow> a = b"
  by (metis unat_nat)

lemma aligned_nat: "8 dvd a \<Longrightarrow> a < 4294967296 \<Longrightarrow> word_aligned (of_nat a)"
proof -
  assume "8 dvd a" "a < 4294967296"
  moreover have "4 dvd a" using \<open>8 dvd a\<close> by (rule dvd_trans [rotated]) simp
  ultimately show ?thesis by (simp add: word_aligned_def unat_nat)
qed

lemma header_flag:
  assumes "8 dvd n" and "n < 4294967296"
  shows "(of_nat n + (if u then 1 else 0) :: u32) AND MALLOC_USED = (if u then 1 else 0)"
    and "(of_nat n + (if u then 1 else 0) :: u32) AND NOT MALLOC_USED = of_nat n"
    and "(of_nat n :: u32) OR MALLOC_USED = of_nat n + 1"
proof -
  obtain k where k: "n = 8 * k" using assms(1) by auto
  have low: "\<not> bit (of_nat n :: u32) 0"
    using k by (simp add: bit_0 even_of_nat)
  have or: "(of_nat n :: u32) OR 1 = of_nat n + 1"
    by (rule disjunctive_add_eq_or [symmetric]) (rule bit_word_eqI, use low in \<open>auto simp: bit_simps bit_1_iff intro!: gr0I\<close>)
  show "(of_nat n :: u32) OR MALLOC_USED = of_nat n + 1" by (rule or)
  show "(of_nat n + (if u then 1 else 0) :: u32) AND MALLOC_USED = (if u then 1 else 0)"
    by (rule bit_word_eqI) (use low in \<open>auto simp: or [symmetric] bit_simps bit_1_iff intro!: gr0I\<close>)
  show "(of_nat n + (if u then 1 else 0) :: u32) AND NOT MALLOC_USED = of_nat n"
    by (rule bit_word_eqI) (use low in \<open>auto simp: or [symmetric] bit_simps bit_1_iff intro!: gr0I\<close>)
qed

lemma heap_at_cong:
  "\<lbrakk>heap_at m h bs; 8 dvd h; h + heap_len bs < 4294967296; 8 dvd a; a < 4294967296; a < h \<or> h + heap_len bs \<le> a\<rbrakk> \<Longrightarrow>
   heap_at (st32 m (of_nat a) w) h bs"
proof (induction m h bs rule: heap_at.induct)
  case (2 m h n u bs)
  have "(of_nat a :: u32) \<noteq> of_nat h" using 2 by (subst of_nat_eq) auto
  then have "ld32 (st32 m (of_nat a) w) (of_nat h) = ld32 m (of_nat h)"
    using 2 by (intro ld32_st32_other aligned_nat) auto
  with 2 show ?case by (auto intro: dvd_add)
qed simp

lemma heap_at_outside:
  "\<lbrakk>heap_at m h bs; h + heap_len bs < 4294967296; \<And>x. h \<le> unat x \<Longrightarrow> unat x < h + heap_len bs \<Longrightarrow> m' x = m x\<rbrakk> \<Longrightarrow>
   heap_at m' h bs"
proof (induction m h bs rule: heap_at.induct)
  case (2 m h n u bs)
  have "m' (of_nat h + of_nat i) = m (of_nat h + of_nat i)" if "i < 8" for i
  proof -
    have "of_nat h + of_nat i = (of_nat (h + i) :: u32)" by simp
    moreover have "h + i < 4294967296" using 2(2,3) that by simp
    ultimately have "unat (of_nat h + of_nat i :: u32) = h + i" by (simp only: unat_nat)
    then show ?thesis using 2 that by auto
  qed
  from this [of 0] this [of 1] this [of 2] this [of 3] have "ld32 m' (of_nat h) = ld32 m (of_nat h)"
    by (simp add: ld32_def)
  moreover have "heap_at m' (h + n) bs" using 2 by auto
  ultimately show ?case using 2 by simp
qed simp

lemma heap_at_len: "heap_at m h bs \<Longrightarrow> 8 dvd heap_len bs"
  by (induction m h bs rule: heap_at.induct) auto

text \<open>The walk ends, and finds the first free block that is large enough.\<close>

lemma find_fit_loop_fit:
  "\<lbrakk>heap_at m h bs; h + heap_len bs = unat e\<rbrakk> \<Longrightarrow>
   find_fit_loop m e (of_nat h) k = Some (case fit (unat k) h bs of None \<Rightarrow> 0 | Some a \<Rightarrow> of_nat a)"
proof (induction m h bs rule: heap_at.induct)
  case (1 m h)
  then show ?case by (subst find_fit_loop.simps) simp
next
  case (2 m h n u bs)
  have lim: "h + n + heap_len bs < 4294967296" using 2(3) unat32_less [of e] by simp
  have here: "of_nat h < e" using 2 lim by (simp add: word_less_nat_alt unat_nat)
  have hd: "ld32 m (of_nat h) = of_nat n + (if u then 1 else 0)" and n: "8 dvd n" "n < 4294967296" "8 \<le> n"
    using 2(2) lim by simp_all
  have fits: "ld32 m (of_nat h) \<ge> k \<and> ld32 m (of_nat h) AND MALLOC_USED = 0 \<longleftrightarrow> unat k \<le> n \<and> \<not> u"
    unfolding hd header_flag(1) [OF n(1,2)] using n by (auto simp: word_le_nat_alt unat_nat)
  show ?case
  proof (cases "unat k \<le> n \<and> \<not> u")
    case True
    then show ?thesis using here fits by (subst find_fit_loop.simps) simp
  next
    case False
    then have "find_fit_loop m e (of_nat h) k = find_fit_loop m e (of_nat (h + n)) k"
      using here fits header_flag(2) [OF n(1,2), of u] hd by (subst find_fit_loop.simps) auto
    then show ?thesis using 2 False by auto
  qed
qed

lemma find_fit_fit:
  assumes "heap_inv s bs"
  shows "find_fit k s = Some (case fit (unat k) (unat (heap_base s)) bs of None \<Rightarrow> 0 | Some a \<Rightarrow> of_nat a)"
  using find_fit_loop_fit [of "umem s" "unat (heap_base s)" bs "heap_top s" k] assms
  by (simp add: heap_inv_def find_fit_def malloc_heap_start_def malloc_heap_end_def)

subsection \<open>Allocation\<close>

lemma st32_frame:
  assumes "a + 4 \<le> 4294967296" and "\<not> (a \<le> unat x \<and> unat x < a + 4)"
  shows "st32 m (of_nat a) w x = m x"
proof -
  have "x \<noteq> of_nat a + of_nat i" if "i < 4" for i
  proof -
    have "of_nat a + of_nat i = (of_nat (a + i) :: u32)" by simp
    moreover have "unat (of_nat (a + i) :: u32) = a + i" using that assms(1) by (intro unat_nat) simp
    ultimately show ?thesis using that assms(2) by (metis add_less_cancel_left le_add1)
  qed
  from this [of 0] this [of 1] this [of 2] this [of 3] show ?thesis by (simp add: st32_def)
qed

lemma malloc_claim_block:
  fixes a k n :: nat
  assumes m: "ld32 (umem s) (of_nat a) = of_nat n" and a: "8 dvd a" "a + n < 4294967296"
    and k: "8 dvd k" "8 \<le> k" "k \<le> n" and n: "8 dvd n"
  shows "heap_at (umem (malloc_claim (of_nat a) (of_nat k) s)) a
      (if 16 \<le> n - k then [(k, True), (n - k, False)] else [(n, True)])"
    and "\<not> (a \<le> unat x \<and> unat x < a + n) \<Longrightarrow> umem (malloc_claim (of_nat a) (of_nat k) s) x = umem s x"
proof -
  let ?r = "of_nat n - of_nat k :: u32"
  have r: "?r = of_nat (n - k)" using k by (simp add: of_nat_diff)
  have rem: "?r \<ge> 16 \<longleftrightarrow> 16 \<le> n - k" unfolding r using a by (simp add: word_le_nat_alt unat_nat)
  have or: "(of_nat k :: u32) OR 1 = of_nat k + 1" "(of_nat n :: u32) OR 1 = of_nat n + 1"
    using header_flag(3) k n a by simp_all
  have al: "word_aligned (of_nat a)" "word_aligned (of_nat (a + k))" using a k by (auto intro!: aligned_nat simp del: of_nat_add)
  have ne: "(of_nat a :: u32) \<noteq> of_nat (a + k)" using a k by (subst of_nat_eq) auto
  have um: "umem (malloc_claim (of_nat a) (of_nat k) s) =
      (if 16 \<le> n - k then st32 (st32 (st32 (umem s) (of_nat (a + k)) ?r) (of_nat a) (of_nat k)) (of_nat a) (of_nat k + 1)
       else st32 (umem s) (of_nat a) (of_nat n + 1))"
    using m rem or by (simp add: malloc_claim_def Let_def)
  show "heap_at (umem (malloc_claim (of_nat a) (of_nat k) s)) a
      (if 16 \<le> n - k then [(k, True), (n - k, False)] else [(n, True)])"
    unfolding um using k n al ne r by (auto simp: ld32_st32_other dvd_diff_nat simp del: of_nat_add)
  show "umem (malloc_claim (of_nat a) (of_nat k) s) x = umem s x" if "\<not> (a \<le> unat x \<and> unat x < a + n)"
    unfolding um using that a k n by (auto simp: st32_frame simp del: of_nat_add)
qed

lemma malloc_claim_base [simp]:
  "heap_base (malloc_claim h k s) = heap_base s" "heap_top (malloc_claim h k s) = heap_top s"
  by (simp_all add: malloc_claim_def Let_def)

lemma malloc_claim_inv:
  assumes inv: "heap_inv s (as @ (n, False) # cs)" and k: "8 dvd k" "8 \<le> k" "k \<le> n"
  defines "a \<equiv> unat (heap_base s) + heap_len as"
  defines "s' \<equiv> malloc_claim (of_nat a) (of_nat k) s"
  defines "l \<equiv> (if 16 \<le> n - k then k else n)"
  shows "\<exists>bs'. heap_inv s' bs' \<and> used (unat (heap_base s)) bs' =
      insert (a, l) (used (unat (heap_base s)) (as @ (n, False) # cs))"
    and "\<And>x. \<not> (a \<le> unat x \<and> unat x < a + n) \<Longrightarrow> umem s' x = umem s x"
proof -
  let ?b = "unat (heap_base s)" and ?mid = "if 16 \<le> n - k then [(k, True), (n - k, False)] else [(n, True)]"
  have h: "0 < ?b" "8 dvd ?b" "?b + (heap_len as + (n + heap_len cs)) = unat (heap_top s)"
      "heap_at (umem s) ?b as" "ld32 (umem s) (of_nat a) = of_nat n" "8 dvd n" "heap_at (umem s) (a + n) cs"
    using inv by (simp_all add: heap_inv_def heap_at_append a_def)
  have top: "?b + (heap_len as + (n + heap_len cs)) < 4294967296" unfolding h(3) by (rule unat32_less)
  have a8: "8 dvd a" using h(2) heap_at_len [OF h(4)] by (simp add: a_def)
  note blk = malloc_claim_block [OF h(5) a8 _ k h(6), folded s'_def]
  have mid: "heap_at (umem s') a ?mid" using blk(1) top by (simp add: a_def)
  show frame: "\<And>x. \<not> (a \<le> unat x \<and> unat x < a + n) \<Longrightarrow> umem s' x = umem s x"
    using blk(2) top by (simp add: a_def)
  have "heap_at (umem s') ?b as"
    by (rule heap_at_outside [OF h(4)]) (use top frame in \<open>auto simp: a_def\<close>)
  moreover have "heap_at (umem s') (a + n) cs"
    by (rule heap_at_outside [OF h(7)]) (use top frame in \<open>auto simp: a_def\<close>)
  moreover have len: "heap_len ?mid = n" using k by simp
  ultimately have "heap_inv s' (as @ ?mid @ cs)"
    using mid h(1-3) unfolding heap_inv_def heap_at_append heap_len_simps len by (simp add: s'_def a_def)
  moreover have "used ?b (as @ ?mid @ cs) = insert (a, l) (used ?b (as @ (n, False) # cs))"
    unfolding used_append len using k by (auto simp: a_def l_def)
  ultimately show "\<exists>bs'. heap_inv s' bs' \<and> used ?b bs' = insert (a, l) (used ?b (as @ (n, False) # cs))" by blast
qed

text \<open>
  What the library relies on the kernel for: \<open>vmap\<close> comes back with the address or an error, and
  it leaves the memory outside the range alone.
\<close>

definition vmap_ok :: "(memory \<times> 'w) trap \<Rightarrow> bool" where
  "vmap_ok trap \<longleftrightarrow> (\<forall>dest sz m w. \<exists>r m' w'. trap SYS_vmap [dest, sz] (m, w) = Some (r, m', w') \<and>
     (r = dest \<or> iserr r) \<and> (\<forall>x. \<not> (unat dest \<le> unat x \<and> unat x < unat dest + unat sz) \<longrightarrow> m' x = m x))"

text \<open>A kernel with memory to spare refuses no request.\<close>

definition vmap_grants :: "(memory \<times> 'w) trap \<Rightarrow> bool" where
  "vmap_grants trap \<longleftrightarrow> (\<forall>dest sz m w. \<not> iserr dest \<longrightarrow> (\<exists>w'. trap SYS_vmap [dest, sz] (m, w) = Some (dest, w')))"

definition block_bytes :: "u32 \<Rightarrow> nat" where
  "block_bytes sz = (unat sz + 15) div 8 * 8"

definition page_bytes :: "nat \<Rightarrow> nat" where
  "page_bytes k = (k + 4095) div 4096 * 4096"

lemma malloc_align_bytes:
  assumes "unat sz + 15 < 4294967296"
  shows "malloc_align (sz + HEADER_SIZE) = of_nat (block_bytes sz)"
proof -
  have "unat (sz + 8 + 8 - 1 :: u32) = unat sz + 15"
  proof -
    have "sz + 8 + 8 - 1 = sz + 15" by simp
    then show ?thesis using assms by (simp add: unat_word_ariths)
  qed
  moreover have "malloc_align (sz + HEADER_SIZE) = (sz + 8 + 8 - 1) AND NOT (2 ^ 3 - 1)" by (simp add: malloc_align_def)
  ultimately have "unat (malloc_align (sz + HEADER_SIZE)) = block_bytes sz"
    using unat_and_not_exp [of 3 "sz + 8 + 8 - 1"] by (simp only: block_bytes_def) simp
  then show ?thesis by (metis unat_of_nat word_unat_eq_iff unat32_less unat_nat)
qed

lemma block_bytes_bounds: "8 dvd block_bytes sz" "8 \<le> block_bytes sz" "unat sz + 8 \<le> block_bytes sz"
  "block_bytes sz \<le> unat sz + 15"
  unfolding block_bytes_def by simp_all

lemma page_bytes_bounds: "8 dvd page_bytes k" "k \<le> page_bytes k" "page_bytes k \<le> k + 4095"
proof -
  have "8 dvd (k + 4095) div 4096 * (4096 :: nat)" by (rule dvd_trans [of 8 4096]) simp_all
  then show "8 dvd page_bytes k" by (simp add: page_bytes_def)
  show "k \<le> page_bytes k" "page_bytes k \<le> k + 4095" unfolding page_bytes_def by simp_all
qed

lemma malloc_heap_expand_block:
  assumes inv: "heap_inv s bs" and v: "vmap_ok trap" and k: "8 \<le> k" "unat (heap_top s) + page_bytes k < 4294967296"
  shows "\<exists>h s'. malloc_heap_expand trap (of_nat k) s = Some (h, s') \<and> heap_base s' = heap_base s \<and>
     (if h = 0 then heap_inv s' bs else h = heap_top s \<and> heap_inv s' (bs @ [(page_bytes k, False)])) \<and>
     (\<forall>x. \<not> (unat (heap_top s) \<le> unat x \<and> unat x < unat (heap_top s) + page_bytes k) \<longrightarrow> umem s' x = umem s x) \<and>
     unat (heap_top s') \<le> unat (heap_top s) + page_bytes k \<and> (vmap_grants trap \<longrightarrow> h \<noteq> 0)"
proof -
  let ?T = "heap_top s" and ?P = "page_bytes k"
  have b: "unat (heap_base s) + heap_len bs = unat ?T" "heap_at (umem s) (unat (heap_base s)) bs"
    and pos: "0 < unat (heap_base s)" using inv by (simp_all add: heap_inv_def)
  have T32: "unat ?T < 4294967296" by (rule unat32_less)
  have k32: "k + 4095 < 4294967296"
  proof -
    define q where "q = (k + 4095) div 4096"
    have "q * 4096 < 4294967296" using k(2) by (simp add: page_bytes_def q_def)
    then have "q < 1048576" by linarith
    moreover have "k + 4095 = q * 4096 + (k + 4095) mod 4096" "(k + 4095) mod 4096 < 4096" by (simp_all add: q_def)
    ultimately show ?thesis by linarith
  qed
  have "unat ((of_nat k + 4096 - 1) AND NOT (2 ^ 12 - 1) :: u32) = ?P"
  proof -
    have "of_nat k + 4096 - 1 = (of_nat (k + 4095) :: u32)" by simp
    then have "unat (of_nat k + 4096 - 1 :: u32) = k + 4095" using k32 by (simp only: unat_nat)
    then show ?thesis using unat_and_not_exp [of 12 "of_nat k + 4096 - 1"] by (simp add: page_bytes_def)
  qed
  then have size: "(of_nat k + PAGE_SIZE - 1) AND NOT (PAGE_SIZE - 1) = (of_nat ?P :: u32)"
    using k(2) by (simp add: word_unat_eq_iff unat_nat)
  have P: "unat (of_nat ?P :: u32) = ?P" using k(2) by (intro unat_nat) simp
  obtain r m' w' where t: "trap SYS_vmap [?T, of_nat ?P] (sys s) = Some (r, m', w')" "r = ?T \<or> iserr r"
      "\<And>x. \<not> (unat ?T \<le> unat x \<and> unat x < unat ?T + ?P) \<Longrightarrow> m' x = umem s x"
    using v [unfolded vmap_ok_def, rule_format, of ?T "of_nat ?P" "umem s" "snd (sys s)"]
    by (auto simp: umem_def P)
  have keep: "heap_at m' (unat (heap_base s)) bs"
    using b t(3) T32 by (intro heap_at_outside [OF b(2)]) auto
  show ?thesis
  proof (cases "iserr r")
    case True
    then have "malloc_heap_expand trap (of_nat k) s = Some (0, s\<lparr>sys := (m', w'), errno := r\<rparr>)"
      unfolding malloc_heap_expand_def Let_def size using t(1) by (simp add: vmap_def syscall2_def)
    moreover have "\<not> vmap_grants trap"
    proof
      assume "vmap_grants trap"
      moreover have "4096 \<le> ?P" using k(1) by (simp add: page_bytes_def)
      then have "\<not> iserr ?T" using k(2) by (intro not_iserr_low) (simp add: word_less_nat_alt)
      ultimately obtain w' where "trap SYS_vmap [?T, of_nat ?P] (sys s) = Some (?T, w')"
        unfolding vmap_grants_def by (metis surj_pair)
      then show False using t(1) True \<open>\<not> iserr ?T\<close> by simp
    qed
    ultimately show ?thesis using inv keep t(3) by (auto simp: heap_inv_def umem_def)
  next
    case False
    then have r: "r = ?T" using t(2) by simp
    have "?T \<noteq> 0" using b(1) pos by auto
    then have "malloc_heap_expand trap (of_nat k) s =
        Some (?T, (set_umem (st32 m' ?T (of_nat ?P)) (s\<lparr>sys := (m', w')\<rparr>))\<lparr>heap_top := ?T + of_nat ?P\<rparr>)"
      unfolding malloc_heap_expand_def Let_def size using t(1) r False by (simp add: vmap_def syscall2_def umem_def)
    moreover have "8 dvd unat ?T" using inv b(1) heap_at_len [OF b(2)] by (metis dvd_add heap_inv_def)
    then have "heap_at (st32 m' ?T (of_nat ?P)) (unat (heap_base s)) bs"
      using heap_at_cong [OF keep, of "unat ?T"] inv b(1) T32 by (simp add: heap_inv_def)
    ultimately show ?thesis
      using inv \<open>?T \<noteq> 0\<close> b(1) k P t(3) page_bytes_bounds [of k] st32_frame [of "unat ?T" _ m' "of_nat ?P"]
      by (auto simp: heap_inv_def heap_at_append unat_word_ariths)
  qed
qed

lemma claim_fresh:
  assumes inv: "heap_inv s (as @ (n, False) # cs)" and k: "8 dvd k" "8 \<le> k" "k \<le> n"
    and b: "b = unat (heap_base s)" and a: "a = b + heap_len as" and U: "U = used b (as @ (n, False) # cs)"
    and s': "s' = malloc_claim (of_nat a) (of_nat k) s"
  shows "\<exists>bs' l. heap_inv s' bs' \<and> used b bs' = insert (a, l) U \<and> k \<le> l \<and>
      (\<forall>(a', n') \<in> U. a' + n' \<le> a \<or> a + l \<le> a')"
    and "\<forall>(a', n') \<in> U. \<forall>x. a' \<le> unat x \<and> unat x < a' + n' \<longrightarrow> umem s' x = umem s x"
    and "of_nat a \<noteq> (0 :: u32)" "unat (of_nat a + HEADER_SIZE :: u32) = a + 8" "8 dvd a"
proof -
  have sep: "a' + n' \<le> a \<or> a + n \<le> a'" if "(a', n') \<in> U" for a' n'
    using that used_range [of a' n' b as] used_range [of a' n' "b + heap_len as + n" cs]
    by (auto simp: U used_append a)
  let ?l = "if 16 \<le> n - k then k else n"
  obtain bs' where "heap_inv s' bs'" "used b bs' = insert (a, ?l) U"
    using malloc_claim_inv(1) [OF inv k] unfolding b a U s' by blast
  moreover have "\<forall>(a', n') \<in> U. a' + n' \<le> a \<or> a + ?l \<le> a'"
    using sep k(3) by (auto simp: case_prod_beta dest!: sep)
  ultimately show "\<exists>bs' l. heap_inv s' bs' \<and> used b bs' = insert (a, l) U \<and> k \<le> l \<and>
      (\<forall>(a', n') \<in> U. a' + n' \<le> a \<or> a + l \<le> a')"
    using k by (intro exI [of _ bs'] exI [of _ ?l]) simp
  show "\<forall>(a', n') \<in> U. \<forall>x. a' \<le> unat x \<and> unat x < a' + n' \<longrightarrow> umem s' x = umem s x"
    using malloc_claim_inv(2) [OF inv k] sep unfolding b a s' by fastforce
  have h: "0 < b" "8 dvd b" "b + (heap_len as + (n + heap_len cs)) = unat (heap_top s)" "heap_at (umem s) b as"
    using inv by (simp_all add: heap_inv_def heap_at_append b)
  have top: "a + 8 < 4294967296" using unat32_less [of "heap_top s"] h(3) k unfolding a by linarith
  show "8 dvd a" using h heap_at_len [OF h(4)] by (simp add: a)
  have "unat (of_nat (a + 8) :: u32) = a + 8" "unat (of_nat a :: u32) = a" using top by (simp_all only: unat_nat)
  then show "unat (of_nat a + HEADER_SIZE :: u32) = a + 8" "of_nat a \<noteq> (0 :: u32)"
    using h(1) by (auto simp: a)
qed

lemma malloc_start:
  assumes inv: "heap_inv s bs" and sz: "unat sz + 15 < 4294967296"
  shows "malloc trap sz s = do {
      (header, s) \<leftarrow> (case fit (block_bytes sz) (unat (heap_base s)) bs of
           None \<Rightarrow> malloc_heap_expand trap (of_nat (block_bytes sz)) s
         | Some a \<Rightarrow> if of_nat a = (0 :: u32) then malloc_heap_expand trap (of_nat (block_bytes sz)) s else Some (of_nat a, s));
      if header = 0 then Some (0, s) else Some (header + HEADER_SIZE, malloc_claim header (of_nat (block_bytes sz)) s) }"
proof -
  have "unat (of_nat (block_bytes sz) :: u32) = block_bytes sz"
    using block_bytes_bounds [of sz] sz by (intro unat_nat) linarith
  then show ?thesis
    by (simp add: malloc_def malloc_align_bytes [OF sz] find_fit_fit [OF inv] Let_def split: option.split)
qed

text \<open>Allocation returns a block that no earlier one meets, or \<open>NULL\<close>.\<close>

lemma malloc_block:
  assumes inv: "heap_inv s bs" and v: "vmap_ok trap" and sz: "unat sz + 15 < 4294967296"
    and top: "unat (heap_top s) + page_bytes (block_bytes sz) < 4294967296"
  shows "\<exists>p s' bs'. malloc trap sz s = Some (p, s') \<and> heap_inv s' bs' \<and> heap_base s' = heap_base s \<and>
     unat (heap_top s') \<le> unat (heap_top s) + page_bytes (block_bytes sz) \<and> (vmap_grants trap \<longrightarrow> p \<noteq> 0) \<and>
     (\<forall>(a, l) \<in> used (unat (heap_base s)) bs. \<forall>x. a \<le> unat x \<and> unat x < a + l \<longrightarrow> umem s' x = umem s x) \<and>
     (if p = 0 then used (unat (heap_base s)) bs' = used (unat (heap_base s)) bs
      else \<exists>l. used (unat (heap_base s)) bs' = insert (unat p - 8, l) (used (unat (heap_base s)) bs) \<and>
        8 dvd unat p \<and> unat sz + 8 \<le> l \<and>
        (\<forall>(a, n) \<in> used (unat (heap_base s)) bs. a + n \<le> unat p - 8 \<or> unat p - 8 + l \<le> a))"
proof -
  let ?b = "unat (heap_base s)" and ?k = "block_bytes sz"
  note k = block_bytes_bounds [of sz]
  note start = malloc_start [OF inv sz]
  show ?thesis
  proof (cases "fit ?k ?b bs")
    case (Some a)
    then obtain as n cs where bs: "bs = as @ (n, False) # cs" "a = ?b + heap_len as" "?k \<le> n"
      using fit_block by blast
    note c = claim_fresh [OF inv [unfolded bs(1)] k(1,2) bs(3) refl bs(2) refl refl, folded bs(1)]
    have "malloc trap sz s = Some (of_nat a + HEADER_SIZE, malloc_claim (of_nat a) (of_nat ?k) s)"
      using start Some c(3) by simp
    moreover have "of_nat a + HEADER_SIZE \<noteq> (0 :: u32)" using c(4) by (metis unat_0 add_is_0 numeral_neq_zero)
    moreover obtain bs' l where "heap_inv (malloc_claim (of_nat a) (of_nat ?k) s) bs'" "used ?b bs' = insert (a, l) (used ?b bs)"
        "?k \<le> l" "\<forall>(a', n') \<in> used ?b bs. a' + n' \<le> a \<or> a + l \<le> a'"
      using c(1) by blast
    ultimately show ?thesis using c(2,4,5) k(3) by (auto intro!: exI [of _ bs'] exI [of _ l])
  next
    case None
    obtain h s1 where e: "malloc_heap_expand trap (of_nat ?k) s = Some (h, s1)" "heap_base s1 = heap_base s"
       "if h = 0 then heap_inv s1 bs else h = heap_top s \<and> heap_inv s1 (bs @ [(page_bytes ?k, False)])"
       "\<forall>x. \<not> (unat (heap_top s) \<le> unat x \<and> unat x < unat (heap_top s) + page_bytes ?k) \<longrightarrow> umem s1 x = umem s x"
       "unat (heap_top s1) \<le> unat (heap_top s) + page_bytes ?k" "vmap_grants trap \<longrightarrow> h \<noteq> 0"
      using malloc_heap_expand_block [OF inv v k(2) top] by blast
    have keep: "\<forall>(a, l) \<in> used ?b bs. \<forall>x. a \<le> unat x \<and> unat x < a + l \<longrightarrow> umem s1 x = umem s x"
      using e(4) used_range [of _ _ ?b bs] inv by (fastforce simp: heap_inv_def)
    show ?thesis
    proof (cases "h = 0")
      case True
      then show ?thesis using start None e keep by auto
    next
      case False
      then have inv1: "heap_inv s1 (bs @ [(page_bytes ?k, False)])" using e(3) by simp
      have a: "unat (heap_top s) = ?b + heap_len bs" using inv by (simp add: heap_inv_def)
      have U: "used ?b (bs @ [(page_bytes ?k, False)]) = used ?b bs" by (simp add: used_append)
      note c = claim_fresh [OF inv1 k(1,2) page_bytes_bounds(2), of ?b "unat (heap_top s)", OF _ a refl refl, unfolded U e(2)]
      have "malloc trap sz s = Some (heap_top s + HEADER_SIZE, malloc_claim (heap_top s) (of_nat ?k) s1)"
        using start None e False by simp
      moreover have "heap_top s + HEADER_SIZE \<noteq> 0"
      proof
        assume "heap_top s + HEADER_SIZE = 0"
        with c(4) show False by simp
      qed
      moreover obtain bs' l where "heap_inv (malloc_claim (heap_top s) (of_nat ?k) s1) bs'"
          "used ?b bs' = insert (unat (heap_top s), l) (used ?b bs)" "?k \<le> l"
          "\<forall>(a', n') \<in> used ?b bs. a' + n' \<le> unat (heap_top s) \<or> unat (heap_top s) + l \<le> a'"
        using c(1) by auto
      moreover have "\<forall>(a, l) \<in> used ?b bs. \<forall>x. a \<le> unat x \<and> unat x < a + l \<longrightarrow>
          umem (malloc_claim (heap_top s) (of_nat ?k) s1) x = umem s x"
        using c(2) keep by fastforce
      ultimately show ?thesis using c(4,5) k(3) e(2,5) by (auto intro!: exI [of _ bs'] exI [of _ l])
    qed
  qed
qed

subsection \<open>Release\<close>

text \<open>Memory below the heap is not touched.\<close>

lemma malloc_below:
  assumes inv: "heap_inv s bs" and v: "vmap_ok trap" and sz: "unat sz + 15 < 4294967296"
    and top: "unat (heap_top s) + page_bytes (block_bytes sz) < 4294967296"
    and run: "malloc trap sz s = Some (p, s')" and x: "unat x < unat (heap_base s)"
  shows "umem s' x = umem s x"
proof -
  note k = block_bytes_bounds [of sz]
  have claim: "umem (malloc_claim (of_nat (unat (heap_base t) + heap_len as)) (of_nat (block_bytes sz)) t) x = umem t x"
    if "heap_inv t (as @ (n, False) # cs)" "block_bytes sz \<le> n" "heap_base t = heap_base s" for t as n cs
    using malloc_claim_inv(2) [OF that(1) k(1,2) that(2), of x] x that(3) by simp
  have expand: "umem s' x = umem s x"
    if "(do { (header, s) \<leftarrow> malloc_heap_expand trap (of_nat (block_bytes sz)) s;
        if header = 0 then Some (0, s) else Some (header + HEADER_SIZE, malloc_claim header (of_nat (block_bytes sz)) s) }) = Some (p, s')"
  proof -
    obtain h s1 where e: "malloc_heap_expand trap (of_nat (block_bytes sz)) s = Some (h, s1)" "heap_base s1 = heap_base s"
       "if h = 0 then heap_inv s1 bs else h = heap_top s \<and> heap_inv s1 (bs @ [(page_bytes (block_bytes sz), False)])"
       "\<forall>x. \<not> (unat (heap_top s) \<le> unat x \<and> unat x < unat (heap_top s) + page_bytes (block_bytes sz)) \<longrightarrow> umem s1 x = umem s x"
      using malloc_heap_expand_block [OF inv v k(2) top] by blast
    have T: "unat (heap_top s) = unat (heap_base s1) + heap_len bs" using inv e(2) by (simp add: heap_inv_def)
    have "of_nat (unat (heap_base s1) + heap_len bs) = heap_top s" by (simp flip: T)
    then show ?thesis using that e T x claim [of s1 bs "page_bytes (block_bytes sz)" "[]"] page_bytes_bounds(2) [of "block_bytes sz"]
      by (auto split: if_splits)
  qed
  show ?thesis
  proof (cases "fit (block_bytes sz) (unat (heap_base s)) bs")
    case None
    then show ?thesis using run expand unfolding malloc_start [OF inv sz] by simp
  next
    case (Some a)
    then obtain as n cs where bs: "bs = as @ (n, False) # cs" "a = unat (heap_base s) + heap_len as" "block_bytes sz \<le> n"
      using fit_block by blast
    then show ?thesis using run expand claim [of s as n cs] inv Some unfolding malloc_start [OF inv sz]
      by (auto split: if_splits)
  qed
qed

lemma st32_st32 [simp]: "st32 (st32 m a v) a w = st32 m a w"
  by (simp add: st32_def fun_eq_iff)

text \<open>The free block that \<open>free\<close> leaves, with the block after it when that one is free too.\<close>

fun merge_next :: "nat \<Rightarrow> blocks \<Rightarrow> nat \<times> blocks" where
  "merge_next n ((n2, False) # ds) = (n + n2, ds)"
| "merge_next n cs = (n, cs)"

lemma merge_next_props:
  assumes "merge_next n cs = (n', cs')" and "heap_at m (a + n) cs" and "8 dvd n"
  shows "n' + heap_len cs' = n + heap_len cs" "8 dvd n'" "n \<le> n'" "heap_at m (a + n') cs'"
    "used (a + n') cs' = used (a + n) cs"
  using assms by (cases "(n, cs)" rule: merge_next.cases; auto simp: add.assoc)+

lemma free_umem:
  assumes inv: "heap_inv s (as @ (n, True) # cs)" and a: "a = unat (heap_base s) + heap_len as"
  shows "umem (free (of_nat a + HEADER_SIZE) s) = st32 (umem s) (of_nat a) (of_nat (fst (merge_next n cs)))"
proof -
  have h: "8 dvd unat (heap_base s)" "a + (n + heap_len cs) = unat (heap_top s)" "heap_at (umem s) (unat (heap_base s)) as"
      "ld32 (umem s) (of_nat a) = of_nat n + 1" "8 dvd n" "8 \<le> n" "heap_at (umem s) (a + n) cs"
    using inv by (simp_all add: heap_inv_def heap_at_append a)
  have lim: "a + (n + heap_len cs) < 4294967296" unfolding h(2) by (rule unat32_less)
  have a8: "8 dvd a" using h(1) heap_at_len [OF h(3)] by (simp add: a)
  have clr: "(of_nat n + 1 :: u32) AND NOT MALLOC_USED = of_nat n"
    using header_flag(2) [OF h(5), of True] lim by simp
  let ?m = "st32 (umem s) (of_nat a) (of_nat n)" and ?next = "of_nat (a + n) :: u32"
  have run: "umem (free (of_nat a + HEADER_SIZE) s) =
      (if ?next < heap_top s \<and> ld32 ?m ?next AND MALLOC_USED = 0 then st32 ?m (of_nat a) (of_nat n + ld32 ?m ?next) else ?m)"
    by (simp add: free_def Let_def h(4) clr [simplified] malloc_heap_end_def)
  have nx: "unat ?next = a + n" using lim by (intro unat_nat) simp
  show ?thesis
  proof (cases cs)
    case Nil
    then show ?thesis unfolding run using nx h(2) by (simp add: word_less_nat_alt)
  next
    case (Cons c ds)
    obtain n2 u where c: "c = (n2, u)" by (cases c)
    have n2: "8 dvd n2" "8 \<le> n2" "ld32 (umem s) ?next = of_nat n2 + (if u then 1 else 0)"
      using h(7) by (simp_all add: Cons c)
    have "ld32 ?m ?next = ld32 (umem s) ?next"
      using a8 h(5,6) lim by (intro ld32_st32_other aligned_nat) (auto simp: of_nat_eq simp del: of_nat_add)
    moreover have "?next < heap_top s" using nx h(2) n2(2) by (simp add: word_less_nat_alt Cons c)
    ultimately show ?thesis unfolding run using header_flag(1) [OF n2(1), of u] lim n2(3)
      by (cases u) (simp_all add: Cons c)
  qed
qed

text \<open>Release takes the block out of use and changes nothing but its header.\<close>

lemma free_releases:
  assumes inv: "heap_inv s bs" and u: "(a, n) \<in> used (unat (heap_base s)) bs"
  shows "\<exists>bs'. heap_inv (free (of_nat a + HEADER_SIZE) s) bs' \<and>
     heap_base (free (of_nat a + HEADER_SIZE) s) = heap_base s \<and>
     heap_top (free (of_nat a + HEADER_SIZE) s) = heap_top s \<and>
     used (unat (heap_base s)) bs' = used (unat (heap_base s)) bs - {(a, n)} \<and>
     (\<forall>x. \<not> (a \<le> unat x \<and> unat x < a + 4) \<longrightarrow> umem (free (of_nat a + HEADER_SIZE) s) x = umem s x)"
proof -
  let ?b = "unat (heap_base s)" and ?s = "free (of_nat a + HEADER_SIZE) s"
  obtain as cs where bs: "bs = as @ (n, True) # cs" "a = ?b + heap_len as" using used_block [OF u] by blast
  obtain n' cs' where m: "merge_next n cs = (n', cs')" by (cases "merge_next n cs")
  have h: "0 < ?b" "8 dvd ?b" "a + (n + heap_len cs) = unat (heap_top s)" "heap_at (umem s) ?b as"
      "8 dvd n" "8 \<le> n" "heap_at (umem s) (a + n) cs"
    using inv by (simp_all add: heap_inv_def heap_at_append bs)
  note mp = merge_next_props [OF m h(7,5)]
  have lim: "a + (n + heap_len cs) < 4294967296" unfolding h(3) by (rule unat32_less)
  have um: "umem ?s = st32 (umem s) (of_nat a) (of_nat n')" using free_umem [OF inv [unfolded bs(1)] bs(2)] m by simp
  have frame: "umem ?s x = umem s x" if "\<not> (a \<le> unat x \<and> unat x < a + 4)" for x
    unfolding um using that lim h(6) by (intro st32_frame) auto
  have st: "heap_base ?s = heap_base s" "heap_top ?s = heap_top s" by (simp_all add: free_def Let_def)
  have "heap_at (umem ?s) ?b as"
    by (rule heap_at_outside [OF h(4)]) (use lim frame bs(2) in auto)
  moreover have "heap_at (umem ?s) (a + n') cs'"
    by (rule heap_at_outside [OF mp(4)]) (use lim frame mp(1,3) h(6) in auto)
  moreover have "ld32 (umem ?s) (of_nat a) = of_nat n'" by (simp add: um)
  moreover have "?b + (heap_len as + (n' + heap_len cs')) = unat (heap_top s)"
    using h(3) mp(1) unfolding bs(2) by linarith
  ultimately have "heap_inv ?s (as @ (n', False) # cs')"
    using h(1,2,6) mp(2,3) by (simp add: heap_inv_def heap_at_append st bs(2) [symmetric])
  moreover have "used ?b (as @ (n', False) # cs') = used ?b bs - {(a, n)}"
    using used_range [of a n ?b as] used_range [of a n "a + n" cs] h(6)
    by (auto simp: used_append bs(1) bs(2) [symmetric] mp(5))
  ultimately show ?thesis using frame st by blast
qed

subsection \<open>Use and resizing\<close>

text \<open>A program that writes only into the payload of a block it holds keeps the heap intact.\<close>

lemma heap_payload:
  assumes inv: "heap_inv s bs" and u: "(a, l) \<in> used (unat (heap_base s)) bs"
    and m: "\<And>x. \<not> (a + 8 \<le> unat x \<and> unat x < a + l) \<Longrightarrow> m' x = umem s x"
  shows "heap_inv (set_umem m' s) bs"
proof -
  let ?b = "unat (heap_base s)"
  obtain as cs where bs: "bs = as @ (l, True) # cs" "a = ?b + heap_len as" using used_block [OF u] by blast
  have h: "a + (l + heap_len cs) = unat (heap_top s)" "heap_at (umem s) ?b as"
      "ld32 (umem s) (of_nat a) = of_nat l + 1" "8 \<le> l" "heap_at (umem s) (a + l) cs"
    using inv by (simp_all add: heap_inv_def heap_at_append bs)
  have lim: "a + (l + heap_len cs) < 4294967296" unfolding h(1) by (rule unat32_less)
  have "heap_at m' ?b as" by (rule heap_at_outside [OF h(2)]) (use lim m bs(2) in auto)
  moreover have "heap_at m' (a + l) cs" by (rule heap_at_outside [OF h(5)]) (use lim m in auto)
  moreover have "m' (of_nat a + of_nat i) = umem s (of_nat a + of_nat i)" if "i < 4" for i
  proof -
    have "unat (of_nat (a + i) :: u32) = a + i" using that lim h(4) by (intro unat_nat) simp
    then show ?thesis using that by (intro m) simp
  qed
  from this [of 0] this [of 1] this [of 2] this [of 3] have "ld32 m' (of_nat a) = of_nat l + 1"
    using h(3) by (simp add: ld32_def)
  ultimately show ?thesis using inv by (simp add: heap_inv_def heap_at_append bs(1) bs(2) [symmetric])
qed

lemma used_header:
  assumes "heap_inv s bs" and "(a, n) \<in> used (unat (heap_base s)) bs"
  shows "ld32 (umem s) (of_nat a) AND NOT MALLOC_USED = of_nat n" "8 \<le> n" "a + n < 4294967296" "0 < a" "8 dvd n"
proof -
  obtain as cs where bs: "bs = as @ (n, True) # cs" "a = unat (heap_base s) + heap_len as"
    using used_block [OF assms(2)] by blast
  have h: "a + (n + heap_len cs) = unat (heap_top s)" "ld32 (umem s) (of_nat a) = of_nat n + 1" "8 dvd n" "8 \<le> n" "0 < a"
    using assms(1) by (simp_all add: heap_inv_def heap_at_append bs)
  have "a + (n + heap_len cs) < 4294967296" unfolding h(1) by (rule unat32_less)
  then show "a + n < 4294967296" by simp
  then show "ld32 (umem s) (of_nat a) AND NOT MALLOC_USED = of_nat n"
    using header_flag(2) [OF h(3), of True] h(2) by simp
  show "8 \<le> n" "0 < a" "8 dvd n" using h by simp_all
qed

text \<open>
  \<open>realloc\<close> of a block that is too small moves it: the new block holds the old contents and the
  old one is released.
\<close>

lemma realloc_moves:
  assumes inv: "heap_inv s bs" and u: "(a, n) \<in> used (unat (heap_base s)) bs"
    and v: "vmap_ok trap" and sz: "unat sz + 15 < 4294967296"
    and top: "unat (heap_top s) + page_bytes (block_bytes sz) < 4294967296"
    and grow: "n < block_bytes sz" and ok: "malloc trap sz s = Some (p, s1)" "p \<noteq> 0"
  shows "\<exists>s' bs' l. realloc trap (of_nat a + HEADER_SIZE) sz s = Some (p, s') \<and> heap_inv s' bs' \<and>
     used (unat (heap_base s)) bs' = insert (unat p - 8, l) (used (unat (heap_base s)) bs - {(a, n)}) \<and> unat sz + 8 \<le> l \<and>
     (\<forall>i < n - 8. umem s' (p + of_nat i) = umem s (of_nat a + HEADER_SIZE + of_nat i))"
proof -
  let ?b = "unat (heap_base s)" and ?q = "of_nat a + HEADER_SIZE :: u32"
  note h = used_header [OF inv u]
  obtain bs1 l where f: "heap_inv s1 bs1" "heap_base s1 = heap_base s"
      "\<forall>(a, l) \<in> used ?b bs. \<forall>x. a \<le> unat x \<and> unat x < a + l \<longrightarrow> umem s1 x = umem s x"
      "used ?b bs1 = insert (unat p - 8, l) (used ?b bs)" "unat sz + 8 \<le> l"
      "\<forall>(a, n) \<in> used ?b bs. a + n \<le> unat p - 8 \<or> unat p - 8 + l \<le> a"
    using malloc_block [OF inv v sz top] ok by auto
  have "8 dvd block_bytes sz - n" using h(5) block_bytes_bounds(1) [of sz] by (rule dvd_diff_nat [rotated])
  then have "8 \<le> block_bytes sz - n" using grow by (intro dvd_imp_le) simp_all
  then have nl: "n < l" using f(5) block_bytes_bounds(4) [of sz] by linarith
  have new: "(unat p - 8, l) \<in> used (unat (heap_base s1)) bs1" unfolding f(2,4) by simp
  note hp = used_header [OF f(1) new]
  have p8: "8 < unat p" using hp(4) by simp
  have sep: "a + n \<le> unat p - 8 \<or> unat p - 8 + l \<le> a" using f(6) u by auto
  have q: "unat (of_nat (a + 8) :: u32) = a + 8" using h(2,3) by (intro unat_nat) simp
  have len: "unat (of_nat n - HEADER_SIZE :: u32) = n - 8"
    using h(2,3) by (subst unat_sub) (simp_all add: word_le_nat_alt unat_nat)
  have "n - 8 \<le> unat (p - of_nat (a + 8))"
    unfolding unat_sub_if' q using sep h(2,3) p8 nl by auto
  then have copy: "snd (memcpy p ?q (of_nat n - HEADER_SIZE) (umem s1)) = memcpy_mem (umem s1) p ?q (n - 8)"
    using memcpy_copies [of p ?q "of_nat n - HEADER_SIZE" "umem s1"] len by simp
  define s2 where "s2 = set_umem (memcpy_mem (umem s1) p ?q (n - 8)) s1"
  have "\<not> (unat p - 8 + 8 \<le> unat x \<and> unat x < unat p - 8 + l) \<Longrightarrow> \<not> unat (x - p) < n - 8" for x
    unfolding unat_sub_if' using p8 nl hp(3) by (auto split: if_splits)
  then have inv2: "heap_inv s2 bs1" unfolding s2_def
    by (intro heap_payload [OF f(1) new]) (simp add: memcpy_mem_def)
  have u2: "(a, n) \<in> used (unat (heap_base s2)) bs1" using u by (simp add: s2_def f(2,4))
  obtain bs' where r: "heap_inv (free ?q s2) bs'" "used ?b bs' = used ?b bs1 - {(a, n)}"
      "\<forall>x. \<not> (a \<le> unat x \<and> unat x < a + 4) \<longrightarrow> umem (free ?q s2) x = umem s2 x"
    using free_releases [OF inv2 u2] by (auto simp: s2_def f(2))
  have "block_bytes sz < 4294967296" using block_bytes_bounds(4) [of sz] sz by linarith
  then have "\<not> (of_nat (block_bytes sz) :: u32) \<le> of_nat n"
    using grow h(3) by (simp add: word_le_nat_alt unat_nat)
  then have "realloc trap ?q sz s = Some (p, free ?q s2)"
    using ok h(1) by (simp add: realloc_def malloc_align_bytes [OF sz] Let_def copy s2_def)
  moreover have "used ?b bs' = insert (unat p - 8, l) (used ?b bs - {(a, n)})"
    unfolding r(2) f(4) using sep h(2) nl by auto
  moreover have "umem (free ?q s2) (p + of_nat i) = umem s (?q + of_nat i)" if "i < n - 8" for i
  proof -
    have i: "unat (of_nat i :: u32) = i" using that h(3) by (intro unat_nat) simp
    have pi: "unat (p + of_nat i) = unat p + i" using that i nl hp(3) p8 by (subst unat_add_lem [THEN iffD1]) auto
    have qi: "unat (?q + of_nat i) = a + 8 + i" using that i q h(3) by (subst unat_add_lem [THEN iffD1]) auto
    have "umem (free ?q s2) (p + of_nat i) = umem s2 (p + of_nat i)"
    proof -
      have "\<not> (a \<le> unat p + i \<and> unat p + i < a + 4)" using sep that h(2) nl p8 by linarith
      then show ?thesis using r(3) pi by simp
    qed
    also have "\<dots> = umem s1 (?q + of_nat i)" using that i by (simp add: s2_def memcpy_mem_def)
    also have "\<dots> = umem s (?q + of_nat i)" using f(3) u qi that by fastforce
    finally show ?thesis .
  qed
  ultimately show ?thesis using r(1) f(5) by blast
qed

subsection \<open>Programs that allocate and release\<close>

lemma used_disjoint:
  "\<lbrakk>(a, l) \<in> used h bs; (a', l') \<in> used h bs; (a, l) \<noteq> (a', l')\<rbrakk> \<Longrightarrow> a + l \<le> a' \<or> a' + l' \<le> a"
proof (induction h bs rule: used.induct)
  case (2 h n u bs)
  then show ?case using used_range [of a l "h + n" bs] used_range [of a' l' "h + n" bs] by (auto split: if_splits)
qed simp

text \<open>
  A run of a program: it asks for blocks and gives back blocks it holds, the one at position \<open>i\<close>
  of the list of pointers and sizes it has received so far.
\<close>

datatype heap_op = Malloc u32 | Free nat

fun run_heap :: "(memory \<times> 'w) trap \<Rightarrow> heap_op list \<Rightarrow> (u32 \<times> u32) list \<Rightarrow> 'w alloc \<Rightarrow>
    ((u32 \<times> u32) list \<times> 'w alloc) option" where
  "run_heap trap [] live s = Some (live, s)"
| "run_heap trap (Malloc sz # ops) live s = do {
     (p, s) \<leftarrow> malloc trap sz s;
     run_heap trap ops (if p = 0 then live else (p, sz) # live) s
   }"
| "run_heap trap (Free i # ops) live s =
     (if i < length live then run_heap trap ops (take i live @ drop (Suc i) live) (free (fst (live ! i)) s)
      else run_heap trap ops live s)"

fun op_bytes :: "heap_op \<Rightarrow> nat" where
  "op_bytes (Malloc sz) = unat sz + 4110"
| "op_bytes (Free i) = 0"

text \<open>How many blocks are held after the operations if none is refused.\<close>

fun held_blocks :: "heap_op list \<Rightarrow> nat \<Rightarrow> nat" where
  "held_blocks [] n = n"
| "held_blocks (Malloc sz # ops) n = held_blocks ops (n + 1)"
| "held_blocks (Free i # ops) n = held_blocks ops (if i < n then n - 1 else n)"

definition live_ok :: "(u32 \<times> u32) list \<Rightarrow> (nat \<times> nat) list \<Rightarrow> bool" where
  "live_ok live us \<longleftrightarrow> list_all2 (\<lambda>(p, sz) (a, l). unat p = a + 8 \<and> 8 dvd a \<and> unat sz + 8 \<le> l) live us \<and> distinct us"

lemma live_ok_remove:
  assumes "live_ok live us" and "i < length live"
  shows "live_ok (take i live @ drop (Suc i) live) (take i us @ drop (Suc i) us)"
    "set (take i us @ drop (Suc i) us) = set us - {us ! i}"
proof -
  have i: "i < length us" and d: "distinct us" using assms by (auto simp: live_ok_def dest: list_all2_lengthD)
  have split: "us = take i us @ us ! i # drop (Suc i) us" using i by (rule id_take_nth_drop)
  from d have "distinct (take i us @ us ! i # drop (Suc i) us)" using split by metis
  then have dist: "distinct (take i us @ drop (Suc i) us)" "us ! i \<notin> set (take i us @ drop (Suc i) us)" by auto
  have "set us = insert (us ! i) (set (take i us @ drop (Suc i) us))" by (subst split) auto
  then show "set (take i us @ drop (Suc i) us) = set us - {us ! i}" using dist(2) by auto
  show "live_ok (take i live @ drop (Suc i) live) (take i us @ drop (Suc i) us)"
    using assms(1) dist(1) unfolding live_ok_def by (auto intro!: list_all2_appendI list_all2_takeI list_all2_dropI)
qed

lemma live_ok_add:
  assumes "live_ok live us" and "set us = U" and "heap_inv s bs" and "used (unat (heap_base s)) bs = insert (unat p - 8, l) U"
    and "8 dvd unat p" and "unat sz + 8 \<le> l" and "\<forall>(a, n) \<in> U. a + n \<le> unat p - 8 \<or> unat p - 8 + l \<le> a"
  shows "live_ok ((p, sz) # live) ((unat p - 8, l) # us)"
proof -
  have "0 < unat p - 8" using used_header(4) [OF assms(3), of "unat p - 8" l] assms(4) by simp
  moreover have "(unat p - 8, l) \<notin> U" using assms(6,7) by auto
  ultimately show ?thesis using assms by (auto simp: live_ok_def intro: dvd_diff_nat)
qed

lemma run_heap_inv:
  "\<lbrakk>vmap_ok trap; heap_inv s bs; live_ok live us; set us = used (unat (heap_base s)) bs;
    unat (heap_top s) + sum_list (map op_bytes ops) < 4294967296\<rbrakk> \<Longrightarrow>
   \<exists>live' s' bs' us'. run_heap trap ops live s = Some (live', s') \<and> heap_inv s' bs' \<and> heap_base s' = heap_base s \<and>
     live_ok live' us' \<and> set us' = used (unat (heap_base s)) bs' \<and>
     (vmap_grants trap \<longrightarrow> length live' = held_blocks ops (length live))"
proof (induction trap ops live s arbitrary: bs us rule: run_heap.induct)
  case (1 trap live s)
  then show ?case by auto
next
  case (2 trap sz ops live s)
  have pg: "page_bytes (block_bytes sz) \<le> unat sz + 4110"
    using page_bytes_bounds(3) [of "block_bytes sz"] block_bytes_bounds(4) [of sz] by linarith
  have lim: "unat sz + 15 < 4294967296" "unat (heap_top s) + page_bytes (block_bytes sz) < 4294967296"
    using "2.prems"(5) pg by simp_all
  obtain p s1 bs1 where m: "malloc trap sz s = Some (p, s1)" "heap_inv s1 bs1" "heap_base s1 = heap_base s"
     "unat (heap_top s1) \<le> unat (heap_top s) + page_bytes (block_bytes sz)" "vmap_grants trap \<longrightarrow> p \<noteq> 0"
     "if p = 0 then used (unat (heap_base s)) bs1 = used (unat (heap_base s)) bs
      else \<exists>l. used (unat (heap_base s)) bs1 = insert (unat p - 8, l) (used (unat (heap_base s)) bs) \<and>
        8 dvd unat p \<and> unat sz + 8 \<le> l \<and>
        (\<forall>(a, n) \<in> used (unat (heap_base s)) bs. a + n \<le> unat p - 8 \<or> unat p - 8 + l \<le> a)"
    using malloc_block [OF "2.prems"(2,1) lim] by blast
  have "\<exists>us1. live_ok (if p = 0 then live else (p, sz) # live) us1 \<and> set us1 = used (unat (heap_base s1)) bs1"
  proof (cases "p = 0")
    case True
    then show ?thesis using m "2.prems"(3,4) by auto
  next
    case False
    then obtain l where l: "used (unat (heap_base s1)) bs1 = insert (unat p - 8, l) (used (unat (heap_base s)) bs)"
        "8 dvd unat p" "unat sz + 8 \<le> l"
        "\<forall>(a, n) \<in> used (unat (heap_base s)) bs. a + n \<le> unat p - 8 \<or> unat p - 8 + l \<le> a"
      using m(3,6) by auto
    show ?thesis using live_ok_add [OF "2.prems"(3,4) m(2) l] False l(1) "2.prems"(4)
      by (intro exI [of _ "(unat p - 8, l) # us"]) simp
  qed
  then obtain us1 where us1: "live_ok (if p = 0 then live else (p, sz) # live) us1" "set us1 = used (unat (heap_base s1)) bs1"
    by blast
  show ?case using "2.IH" [OF m(1) refl "2.prems"(1) m(2) us1] m(1,3,4,5) pg "2.prems"(5) by simp
next
  case (3 trap i ops live s)
  show ?case
  proof (cases "i < length live")
    case True
    obtain a l where ui: "us ! i = (a, l)" by (cases "us ! i")
    have i: "i < length us" using True "3.prems"(3) by (auto simp: live_ok_def dest: list_all2_lengthD)
    have p: "unat (fst (live ! i)) = a + 8"
      using "3.prems"(3) True ui by (auto simp: live_ok_def dest!: list_all2_nthD [of _ live us i] split: prod.splits)
    have u: "(a, l) \<in> used (unat (heap_base s)) bs" using "3.prems"(4) i ui by (metis nth_mem)
    have ptr: "fst (live ! i) = of_nat a + HEADER_SIZE"
    proof -
      have "fst (live ! i) = of_nat (unat (fst (live ! i)))" by simp
      also have "\<dots> = of_nat (a + 8)" by (simp only: p)
      finally show ?thesis by simp
    qed
    obtain bs1 where f: "heap_inv (free (fst (live ! i)) s) bs1" "heap_base (free (fst (live ! i)) s) = heap_base s"
        "heap_top (free (fst (live ! i)) s) = heap_top s"
        "used (unat (heap_base s)) bs1 = used (unat (heap_base s)) bs - {(a, l)}"
      using free_releases [OF "3.prems"(2) u] unfolding ptr by blast
    show ?thesis using "3.IH"(1) [OF True "3.prems"(1) f(1) live_ok_remove(1) [OF "3.prems"(3) True]]
        live_ok_remove(2) [OF "3.prems"(3) True] f(2-4) "3.prems"(4,5) True ui by simp
  next
    case False
    then show ?thesis using "3.IH"(2) [OF False "3.prems"(1-4)] "3.prems"(5) by simp
  qed
qed

text \<open>
  However a program allocates and releases, every call comes back, and the blocks it holds lie in
  the heap, are as large as it asked, and do not overlap.
\<close>

text \<open>
  C11. Any sequence of malloc and free on a fresh heap, for as long as the requests fit the address
  space, returns: the blocks held are aligned, lie inside the heap behind their headers and do not
  overlap; if the kernel refuses no memory, every request is served, so that all blocks not freed
  are held.
\<close>

lemma run_heap_disjoint:
  assumes "vmap_ok trap" and "base \<noteq> 0" and "base mod 8 = 0"
    and "unat base + sum_list (map op_bytes ops) < 2 ^ 32"
  shows "\<exists>live s. run_heap trap ops [] (malloc_initialize base s0) = Some (live, s) \<and>
     (\<forall>(p, sz) \<in> set live. 8 dvd unat p \<and> unat base + 8 \<le> unat p \<and> unat p + unat sz \<le> unat (heap_top s)) \<and>
     (\<forall>i j. i < j \<and> j < length live \<longrightarrow>
        unat (fst (live ! i)) + unat (snd (live ! i)) \<le> unat (fst (live ! j)) \<or>
        unat (fst (live ! j)) + unat (snd (live ! j)) \<le> unat (fst (live ! i))) \<and>
     (vmap_grants trap \<longrightarrow> length live = held_blocks ops 0)"
proof -
  let ?s = "malloc_initialize base s0"
  have "8 dvd unat base"
    using assms(3) by (simp add: word_unat_eq_iff unat_mod mod_eq_0_iff_dvd)
  then have "heap_inv ?s []"
    using assms(2) by (simp add: heap_inv_def malloc_initialize_def unat_gt_0)
  then obtain live s bs us where run: "run_heap trap ops [] ?s = Some (live, s)" and inv: "heap_inv s bs"
      and base: "heap_base s = base" and ok: "live_ok live us" and us: "set us = used (unat base) bs"
      and held: "vmap_grants trap \<longrightarrow> length live = held_blocks ops 0"
    using run_heap_inv [OF assms(1), of ?s "[]" "[]" "[]" ops] assms(4)
    by (auto simp: live_ok_def malloc_initialize_def)
  have len: "length live = length us" using ok by (auto simp: live_ok_def dest: list_all2_lengthD)
  have blk: "unat (fst (live ! i)) = fst (us ! i) + 8" "8 dvd fst (us ! i)" "unat (snd (live ! i)) + 8 \<le> snd (us ! i)"
      "us ! i \<in> used (unat base) bs" if "i < length live" for i
  proof -
    note all = list_all2_nthD [OF ok [unfolded live_ok_def, THEN conjunct1] that]
    show "unat (fst (live ! i)) = fst (us ! i) + 8" "8 dvd fst (us ! i)" "unat (snd (live ! i)) + 8 \<le> snd (us ! i)"
      using all by (simp_all add: case_prod_beta)
    show "us ! i \<in> used (unat base) bs" using that unfolding us [symmetric] len by simp
  qed
  have top: "unat base + heap_len bs = unat (heap_top s)" using inv by (simp add: heap_inv_def base)
  have "8 dvd unat (fst (live ! i)) \<and> unat base + 8 \<le> unat (fst (live ! i)) \<and>
      unat (fst (live ! i)) + unat (snd (live ! i)) \<le> unat (heap_top s)" if "i < length live" for i
    using blk [OF that] used_range [of "fst (us ! i)" "snd (us ! i)" "unat base" bs] top by simp
  then have "\<forall>(p, sz) \<in> set live. 8 dvd unat p \<and> unat base + 8 \<le> unat p \<and> unat p + unat sz \<le> unat (heap_top s)"
    by (fastforce simp: in_set_conv_nth)
  moreover have "unat (fst (live ! i)) + unat (snd (live ! i)) \<le> unat (fst (live ! j)) \<or>
        unat (fst (live ! j)) + unat (snd (live ! j)) \<le> unat (fst (live ! i))" if "i < j" "j < length live" for i j
  proof -
    have "us ! i \<noteq> us ! j" using ok that len by (simp add: live_ok_def nth_eq_iff_index_eq)
    then show ?thesis
      using used_disjoint [of "fst (us ! i)" "snd (us ! i)" "unat base" bs "fst (us ! j)" "snd (us ! j)"]
        blk [of i] blk [of j] that by (simp add: prod_eq_iff) linarith
  qed
  ultimately show ?thesis using run held by blast
qed

lemma fit_None_iff: "fit k h bs = None \<longleftrightarrow> (\<forall>(n, u) \<in> set bs. u \<or> n < k)"
  by (induction k h bs rule: fit.induct) auto

text \<open>The walk over a well-formed heap always ends, and \<open>NULL\<close> means that no free block is large enough.\<close>

text \<open>
  C30. The first-fit search over a well-formed heap ends, and returns NULL exactly when no free
  block is large enough.
\<close>

lemma find_fit_ends:
  assumes "heap_inv s bs"
  shows "\<exists>h. find_fit k s = Some h \<and> (h = 0 \<longleftrightarrow> (\<forall>(n, u) \<in> set bs. u \<or> n < unat k))"
proof (cases "fit (unat k) (unat (heap_base s)) bs")
  case None
  then have "\<forall>(n, u) \<in> set bs. u \<or> n < unat k" by (simp add: fit_None_iff)
  then show ?thesis using find_fit_fit [OF assms, of k] None by simp
next
  case (Some a)
  then obtain as n cs where bs: "bs = as @ (n, False) # cs" "a = unat (heap_base s) + heap_len as"
    using fit_block by blast
  have "a + (n + heap_len cs) = unat (heap_top s)" "0 < a" using assms by (simp_all add: heap_inv_def bs)
  then have "unat (of_nat a :: u32) = a" using unat32_less [of "heap_top s"] by (intro unat_nat) linarith
  then have "of_nat a \<noteq> (0 :: u32)" using \<open>0 < a\<close> by auto
  moreover have "\<not> (\<forall>(n, u) \<in> set bs. u \<or> n < unat k)"
    using Some fit_None_iff [of "unat k" "unat (heap_base s)" bs] by simp
  ultimately show ?thesis using find_fit_fit [OF assms, of k] Some by simp
qed

text \<open>
  A request close to the size of the address space wraps: it is answered with a block of no bytes,
  or of size 0, over which the next walk does not advance.
\<close>

lemma malloc_align_wraps: "malloc_align (0xFFFFFFFC + HEADER_SIZE) = 8" "malloc_align (0xFFFFFFF8 + HEADER_SIZE) = 0"
  by (simp_all add: malloc_align_def)

lemma find_fit_loop_stuck:
  assumes "h < e" and "ld32 m h AND NOT MALLOC_USED = 0" and "ld32 m h AND MALLOC_USED \<noteq> 0"
  shows "find_fit_loop m e h k = None"
proof -
  have "m' \<noteq> m \<or> e' \<noteq> e \<or> h' \<noteq> h" if "find_fit_loop m' e' h' k' = Some r" for m' e' h' k' r
    by (rule find_fit_loop.raw_induct [where P = "\<lambda>m' e' h' k' r. m' \<noteq> m \<or> e' \<noteq> e \<or> h' \<noteq> h", OF _ that])
      (use assms in \<open>fastforce split: if_splits\<close>)
  then show ?thesis by (metis not_Some_eq)
qed

end
