(* ===== verification/User_Msg.thy ===== *)
theory User_Msg
  imports Libh_Malloc
begin

text \<open>
  \<open>user/util-i586\<close>: what the user programs share to talk to each other and to the serial port.
  A program runs in its own memory, with the C library and a trap into the kernel; objects on its
  stack are addresses in that memory.  A \<open>struct msg\<close> has 28 bytes: the port, the code, three
  arguments, and the address and size of the payload.
\<close>

subsection \<open>Memory of a program\<close>

definition lb :: "u32 \<Rightarrow> 'w alloc \<Rightarrow> u8" where
  "lb a s = umem s a"

definition sb :: "u32 \<Rightarrow> u8 \<Rightarrow> 'w alloc \<Rightarrow> 'w alloc" where
  "sb a v s = set_umem ((umem s)(a := v)) s"

definition lh :: "u32 \<Rightarrow> 'w alloc \<Rightarrow> u16" where
  "lh a s = ucast (umem s a) OR push_bit 8 (ucast (umem s (a + 1)))"

definition sh :: "u32 \<Rightarrow> u16 \<Rightarrow> 'w alloc \<Rightarrow> 'w alloc" where
  "sh a v s = set_umem ((umem s)(a := ucast v, a + 1 := ucast (drop_bit 8 v))) s"

definition lw :: "u32 \<Rightarrow> 'w alloc \<Rightarrow> u32" where
  "lw a s = ld32 (umem s) a"

definition sw :: "u32 \<Rightarrow> u32 \<Rightarrow> 'w alloc \<Rightarrow> 'w alloc" where
  "sw a v s = set_umem (st32 (umem s) a v) s"

subsection \<open>Messages\<close>

abbreviation (input) IO_INB :: u32 where "IO_INB \<equiv> 0"
abbreviation (input) IO_INW :: u32 where "IO_INW \<equiv> 1"
abbreviation (input) IO_OUTB :: u32 where "IO_OUTB \<equiv> 2"
abbreviation (input) IO_OUTW :: u32 where "IO_OUTW \<equiv> 3"

abbreviation (input) MSG_STRUCT :: u32 where "MSG_STRUCT \<equiv> 28"
abbreviation (input) msg_code_off :: u32 where "msg_code_off \<equiv> 4"
abbreviation (input) msg_args_off :: u32 where "msg_args_off \<equiv> 8"
abbreviation (input) msg_buf_off :: u32 where "msg_buf_off \<equiv> 20"
abbreviation (input) msg_size_off :: u32 where "msg_size_off \<equiv> 24"

definition msg_create :: "u32 \<Rightarrow> u32 \<Rightarrow> u32 \<Rightarrow> 'w alloc \<Rightarrow> 'w alloc" where
  "msg_create m to code s = (
     let s = set_umem (snd (memset m 0 MSG_STRUCT (umem s))) s;
         s = sw m to s
     in sw (m + msg_code_off) code s)"

fun msg_args_from :: "u32 \<Rightarrow> u32 \<Rightarrow> u32 list \<Rightarrow> 'w alloc \<Rightarrow> 'w alloc" where
  "msg_args_from m i [] s = s"
| "msg_args_from m i (v # vs) s = msg_args_from m (i + 1) vs (sw (m + msg_args_off + 4 * i) v s)"

definition msg_set_args :: "u32 \<Rightarrow> u32 list \<Rightarrow> 'w alloc \<Rightarrow> 'w alloc" where
  "msg_set_args m vs s = msg_args_from m 0 vs s"

definition msg_attach_payload :: "u32 \<Rightarrow> u32 \<Rightarrow> u32 \<Rightarrow> 'w alloc \<Rightarrow> 'w alloc" where
  "msg_attach_payload m ptr sz s = sw (m + msg_size_off) sz (sw (m + msg_buf_off) ptr s)"

definition msg_get_waiting :: "(memory \<times> 'w) trap \<Rightarrow> u32 \<Rightarrow> 'w alloc \<Rightarrow> (int \<times> 'w alloc) option" where
  "msg_get_waiting trap m s = do {
     (_, s) \<leftarrow> wait trap IPORT_ANY s;
     (sz, s) \<leftarrow> peek trap s;
     if sint sz < 0 then Some (- 1, s)
     else do {
       s \<leftarrow> (if sint sz > 0 then do {
               (buf, s) \<leftarrow> malloc trap sz s;
               Some (msg_attach_payload m buf sz s)
             }
             else Some s);
       (bytes, s) \<leftarrow> recv trap m s;
       if sint bytes < 0 then Some (- 1, s) else Some (sint bytes, s)
     }
   }"

text \<open>
  A request whose answer is awaited: \<open>dev_register\<close> and \<open>fs_mount\<close>; \<open>fp\<close> is the address of the
  two messages on the stack.
\<close>

definition dev_register :: "(memory \<times> 'w) trap \<Rightarrow> u32 \<Rightarrow> u32 \<Rightarrow> u32 \<Rightarrow> 'w alloc \<Rightarrow> (int \<times> 'w alloc) option" where
  "dev_register trap fp dm name s = do {
     let req = fp;
     let res = fp + MSG_STRUCT;
     let s = msg_create req dm 100 s;
     n \<leftarrow> strlen name (umem s);
     let s = msg_attach_payload req name (n + 1) s;
     (_, s) \<leftarrow> send trap req s;
     (_, s) \<leftarrow> wait trap (lw req s) s;
     (_, s) \<leftarrow> recv trap res s;
     Some (sint (lw (res + msg_code_off) s), s)
   }"

abbreviation (input) VFS_MOUNT :: u32 where "VFS_MOUNT \<equiv> 0"

definition fs_mount :: "(memory \<times> 'w) trap \<Rightarrow> u32 \<Rightarrow> u32 \<Rightarrow> u32 \<Rightarrow> 'w alloc \<Rightarrow> (int \<times> 'w alloc) option" where
  "fs_mount trap fp fs path s = do {
     let req = fp;
     let res = fp + MSG_STRUCT;
     let s = msg_create req fs VFS_MOUNT s;
     n \<leftarrow> strlen path (umem s);
     let s = msg_attach_payload req path (n + 1) s;
     (_, s) \<leftarrow> send trap req s;
     (_, s) \<leftarrow> wait trap (lw req s) s;
     (_, s) \<leftarrow> recv trap res s;
     Some (sint (lw (res + msg_code_off) s), s)
   }"

text \<open>The serial port, a character at a time.\<close>

partial_function (option) serial_puts :: "(memory \<times> 'w) trap \<Rightarrow> u32 \<Rightarrow> 'w alloc \<Rightarrow> 'w alloc option" where
  "serial_puts trap str s =
     (if lb str s = 0 then Some s
      else do {
        (_, s) \<leftarrow> sysio trap IO_OUTB 0x3F8 (scast (lb str s)) s;
        serial_puts trap (str + 1) s
      })"

text \<open>A service is awaited by asking for its port again and again.\<close>

partial_function (option) svcid_wait :: "(memory \<times> 'w) trap \<Rightarrow> u32 \<Rightarrow> 'w alloc \<Rightarrow> (u32 \<times> 'w alloc) option" where
  "svcid_wait trap sid s = do {
     (port, s) \<leftarrow> svcid trap sid s;
     if port = 0 then svcid_wait trap sid s else Some (port, s)
   }"

abbreviation (input) SVC_PROCMGR :: u32 where "SVC_PROCMGR \<equiv> 17"
abbreviation (input) SVC_DEVMGR :: u32 where "SVC_DEVMGR \<equiv> 18"
abbreviation (input) SVC_VFS :: u32 where "SVC_VFS \<equiv> 19"

end
