(* ===== verification/Vgatty.thy ===== *)
theory Vgatty
  imports User_Msg Console
begin

text \<open>
  \<open>user/vgatty-i586/main.c\<close>: the terminal driver.  It maps the text buffer of the display and
  prints the strings that other programs send it.  The buffer is part of the memory of the
  program; the cursor is its pair of static variables.
\<close>

abbreviation (input) video_mem :: u32 where "video_mem \<equiv> 0x10000000"

type_synonym cursor = "u32 \<times> u32"

definition vm_get :: "u32 \<Rightarrow> 'w alloc \<Rightarrow> u16" where
  "vm_get i s = lh (video_mem + 2 * i) s"

definition vm_set :: "u32 \<Rightarrow> u16 \<Rightarrow> 'w alloc \<Rightarrow> 'w alloc" where
  "vm_set i v s = sh (video_mem + 2 * i) v s"

definition vga_scroll :: "'w alloc \<Rightarrow> 'w alloc" where
  "vga_scroll s = (
     let s = fold (\<lambda>i s. vm_set (of_nat i) (vm_get (of_nat i + 80) s) s) [0..<80 * 24] s
     in fold (\<lambda>i s. vm_set (of_nat i) (0x20 OR push_bit 8 7) s) [80 * 24..<80 * 25] s)"

text \<open>The end of \<open>putc\<close>: wrapping at the last column and scrolling at the last row.\<close>

definition vga_wrap :: "cursor \<Rightarrow> 'w alloc \<Rightarrow> cursor \<times> 'w alloc" where
  "vga_wrap cur s = (
     let (x, y) = cur;
         (x, y) = (if x \<ge> 80 then (0, y + 1) else (x, y))
     in if y \<ge> 25 then ((x, y - 1), vga_scroll s) else ((x, y), s))"

definition putc :: "u8 \<Rightarrow> cursor \<Rightarrow> 'w alloc \<Rightarrow> cursor \<times> 'w alloc" where
  "putc c cur s = (
     let (x, y) = cur;
         (c, forward, x, y) =
           (if c = 8 then (0x20, 0, if x \<noteq> 0 then x - 1 else x, y)
            else if c = 9 then
              (let new_x = (x + 4) AND NOT (4 - 1) in if new_x < 80 then (c, 1, new_x, y) else (c, 1, 0, y + 1))
            else if c = 13 then (c, 1, 0, y)
            else if c = 10 then (c, 1, 0, y + 1)
            else (c, 1, x, y));
         (x, s) =
           (if sint c \<ge> 0x20 then (x + forward, vm_set (y * 80 + x) (ucast ((scast c :: u32) OR push_bit 8 7)) s)
            else (x, s))
     in vga_wrap (x, y) s)"

partial_function (option) puts_loop :: "u32 \<Rightarrow> cursor \<Rightarrow> 'w alloc \<Rightarrow> (cursor \<times> 'w alloc) option" where
  "puts_loop p cur s =
     (if lb p s = 0 then Some (cur, s)
      else (case putc (lb p s) cur s of (cur, s) \<Rightarrow> puts_loop (p + 1) cur s))"

text \<open>\<open>clear\<close> is the address of the literal \<open>"[2J"\<close>.\<close>

definition puts :: "u32 \<Rightarrow> u32 \<Rightarrow> cursor \<Rightarrow> 'w alloc \<Rightarrow> (cursor \<times> 'w alloc) option" where
  "puts clear p cur s =
     (if lb p s = 0x1B then do {
        r \<leftarrow> strcmp (p + 1) clear (umem s);
        if r = 0 then Some ((0, 0), set_umem (snd (memset video_mem 0 (80 * 25 * 2) (umem s))) s)
        else Some (cur, s)
      }
      else puts_loop p cur s)"

text \<open>
  The beginning of \<open>main\<close>: \<open>Inl r\<close> is a return from it.  The literals lie at \<open>t1\<close>, \<open>t2\<close>, \<open>ok\<close>
  and \<open>name\<close>; the messages are on the stack from \<open>fp\<close> on.
\<close>

definition vgatty_start :: "(memory \<times> 'w) trap \<Rightarrow> u32 \<Rightarrow> u32 \<Rightarrow> u32 \<Rightarrow> u32 \<Rightarrow> u32 \<Rightarrow> u32 \<Rightarrow> 'w alloc \<Rightarrow>
    ((int + cursor) \<times> 'w alloc) option" where
  "vgatty_start trap clear t1 t2 ok name fp s = do {
     (p, s) \<leftarrow> pmap trap video_mem 0xB8000 4096 s;
     if p = 0 then Some (Inl 1, s)
     else do {
       let s = set_umem (snd (memset video_mem 0 (80 * 25 * 2) (umem s))) s;
       (cur, s) \<leftarrow> puts clear t1 (0, 0) s;
       (devmgr, s) \<leftarrow> svcid_wait trap SVC_DEVMGR s;
       (cur, s) \<leftarrow> puts clear t2 cur s;
       (r, s) \<leftarrow> dev_register trap fp devmgr name s;
       if r < 0 then Some (Inl 1, s)
       else do {
         (cur, s) \<leftarrow> puts clear ok cur s;
         Some (Inr cur, s)
       }
     }
   }"

text \<open>One round of the loop of \<open>main\<close>.\<close>

definition vgatty_serve :: "(memory \<times> 'w) trap \<Rightarrow> u32 \<Rightarrow> u32 \<Rightarrow> cursor \<Rightarrow> 'w alloc \<Rightarrow> (cursor \<times> 'w alloc) option" where
  "vgatty_serve trap clear fp cur s = do {
     let req = fp;
     let res = fp + MSG_STRUCT;
     (r, s) \<leftarrow> msg_get_waiting trap req s;
     if r < 0 then Some (cur, s)
     else do {
       let s = msg_create res (lw req s) (- 1) s;
       (cur, s) \<leftarrow> (if lw (req + msg_code_off) s = 1 then do {
           (cur, s) \<leftarrow> puts clear (lw (req + msg_buf_off) s) cur s;
           (_, s) \<leftarrow> send trap res (sw (res + msg_code_off) 0 s);
           Some (cur, s)
         }
         else do { (_, s) \<leftarrow> send trap res s; Some (cur, s) });
       Some (cur, if lw (req + msg_size_off) s \<noteq> 0 then free (lw (req + msg_buf_off) s) s else s)
     }
   }"

subsection \<open>The buffer as a screen\<close>

definition view :: "cursor \<Rightarrow> 'w alloc \<Rightarrow> console" where
  "view cur s = \<lparr>debug_enabled = True, cursor_x = fst cur, cursor_y = snd cur,
     buffer = map (\<lambda>i. vm_get (of_nat i) s) [0..<2000]\<rparr>"

lemma lh_sh: "lh a (sh a v s) = v"
proof -
  have "a + 1 \<noteq> a" by simp
  then have "lh a (sh a v s) = ucast (ucast v :: u8) OR push_bit 8 (ucast (ucast (drop_bit 8 v) :: u8))"
    by (simp add: lh_def sh_def)
  also have "\<dots> = v"
  proof (rule bit_word_eqI)
    fix n assume "n < LENGTH(16)"
    then show "bit (ucast (ucast v :: u8) OR push_bit 8 (ucast (ucast (drop_bit 8 v) :: u8)) :: u16) n = bit v n"
      by (cases "n < 8") (auto simp: bit_simps)
  qed
  finally show ?thesis .
qed

lemma vm_addr: "i < 2000 \<Longrightarrow> unat (video_mem + 2 * of_nat i :: u32) = 0x10000000 + 2 * i"
  by (simp add: unat_word_ariths unat_of_nat)

lemma vm_get_set:
  assumes "i < 2000" and "j < 2000"
  shows "vm_get (of_nat i) (vm_set (of_nat j) v s) = (if i = j then v else vm_get (of_nat i) s)"
proof (cases "i = j")
  case True
  then show ?thesis by (simp add: vm_get_def vm_set_def lh_sh)
next
  case False
  have "video_mem + 2 * of_nat i + of_nat p \<noteq> video_mem + 2 * of_nat j + (of_nat q :: u32)" if "p < 2" "q < 2" for p q
  proof
    assume eq: "video_mem + 2 * of_nat i + of_nat p = video_mem + 2 * of_nat j + (of_nat q :: u32)"
    have u: "unat (video_mem + 2 * of_nat i + of_nat p :: u32) = 0x10000000 + 2 * i + p"
      "unat (video_mem + 2 * of_nat j + of_nat q :: u32) = 0x10000000 + 2 * j + q"
      using assms that by (simp_all add: unat_word_ariths unat_of_nat)
    have "2 * i + p = 2 * j + q" using arg_cong [OF eq, of unat] unfolding u by simp
    with False that show False by linarith
  qed
  from this [of 0 0] this [of 0 1] this [of 1 0] this [of 1 1] False show ?thesis
    by (simp add: vm_get_def vm_set_def lh_def sh_def)
qed

lemma vm_set_frame:
  assumes "j < 2000" and "\<not> (0x10000000 \<le> unat x \<and> unat x < 0x10000000 + 4000)"
  shows "umem (vm_set (of_nat j) v s) x = umem s x"
proof -
  have "unat (video_mem + 2 * of_nat j :: u32) = 0x10000000 + 2 * j" "unat (video_mem + 2 * of_nat j + 1 :: u32) = 0x10000000 + 2 * j + 1"
    using assms(1) by (simp_all add: unat_word_ariths unat_of_nat)
  then have "x \<noteq> video_mem + 2 * of_nat j" "x \<noteq> video_mem + 2 * of_nat j + 1" using assms by auto
  then show ?thesis by (simp add: vm_set_def sh_def)
qed

text \<open>Memory outside the 2000 cells of the screen.\<close>

definition same_outside_screen :: "'w alloc \<Rightarrow> 'w alloc \<Rightarrow> bool" where
  "same_outside_screen s s' \<longleftrightarrow>
     (\<forall>x. \<not> (0x10000000 \<le> unat x \<and> unat x < 0x10000000 + 4000) \<longrightarrow> umem s' x = umem s x)"

lemma screen_outside_refl [simp]: "same_outside_screen s s"
  by (simp add: same_outside_screen_def)

lemma screen_outside_trans: "same_outside_screen s s1 \<Longrightarrow> same_outside_screen s1 s2 \<Longrightarrow> same_outside_screen s s2"
  by (simp add: same_outside_screen_def)

lemma same_outside_vm_set: "j < 2000 \<Longrightarrow> same_outside_screen s (vm_set (of_nat j) v s)"
  by (simp add: same_outside_screen_def vm_set_frame)

lemma scroll_up:
  "n \<le> 1920 \<Longrightarrow> i < 2000 \<Longrightarrow>
   vm_get (of_nat i) (fold (\<lambda>i s. vm_set (of_nat i) (vm_get (of_nat i + 80) s) s) [0..<n] s) =
     (if i < n then vm_get (of_nat (i + 80)) s else vm_get (of_nat i) s)"
proof (induction n arbitrary: i)
  case (Suc n)
  let ?s = "fold (\<lambda>i s. vm_set (of_nat i) (vm_get (of_nat i + 80) s) s) [0..<n] s"
  have "of_nat n + 80 = (of_nat (n + 80) :: u32)" by simp
  then have "vm_get (of_nat n + 80) ?s = vm_get (of_nat (n + 80)) s"
    using Suc.IH [of "n + 80"] Suc.prems(1) by (simp only:) simp
  then show ?case using Suc by (simp add: vm_get_set less_Suc_eq del: of_nat_add)
qed simp

lemma scroll_fill:
  "n \<le> 80 \<Longrightarrow> i < 2000 \<Longrightarrow>
   vm_get (of_nat i) (fold (\<lambda>i s. vm_set (of_nat i) v s) [1920..<1920 + n] s) =
     (if 1920 \<le> i \<and> i < 1920 + n then v else vm_get (of_nat i) s)"
proof (induction n)
  case (Suc n)
  have "[1920..<1920 + Suc n] = [1920..<1920 + n] @ [1920 + n]"
    by (simp only: add_Suc_right) (rule upt_Suc_append, simp)
  with Suc show ?case by (simp only: fold_append o_apply fold_simps) (auto simp: vm_get_set simp del: of_nat_add)
qed auto

lemma fold_frame:
  "(\<And>i s. i \<in> set xs \<Longrightarrow> same_outside_screen s (f i s)) \<Longrightarrow> same_outside_screen s (fold f xs s)"
  by (induction xs arbitrary: s) (auto intro: screen_outside_trans)

lemma vga_scroll_view:
  "view cur (vga_scroll s) = (view cur s)\<lparr>buffer := drop 80 (buffer (view cur s)) @ replicate 80 (console_format 0x20)\<rparr>"
  "same_outside_screen s (vga_scroll s)"
proof -
  let ?f = "\<lambda>s. fold (\<lambda>i s. vm_set (of_nat i) (vm_get (of_nat i + 80) s) s) [0..<80 * 24] (s :: 'a alloc)"
  have blank: "console_format 0x20 = (0x20 OR push_bit 8 7)" by (simp add: console_format_def)
  have get: "vm_get (of_nat i) (vga_scroll s) = (if i < 1920 then vm_get (of_nat (i + 80)) s else console_format 0x20)"
    if "i < 2000" for i
    using that scroll_fill [of 80 i "0x20 OR push_bit 8 7" "?f s"] scroll_up [of 1920 i s] blank
    by (simp add: vga_scroll_def Let_def del: upt_rec_numeral)
  have "map (\<lambda>i. vm_get (of_nat i) (vga_scroll s)) [0..<2000] =
      drop 80 (map (\<lambda>i. vm_get (of_nat i) s) [0..<2000]) @ replicate 80 (console_format 0x20)"
  proof (rule nth_equalityI)
    fix i
    assume "i < length (map (\<lambda>i. vm_get (of_nat i) (vga_scroll s)) [0..<2000])"
    then have i: "i < 2000" by (simp del: upt_rec_numeral)
    show "map (\<lambda>i. vm_get (of_nat i) (vga_scroll s)) [0..<2000] ! i =
        (drop 80 (map (\<lambda>i. vm_get (of_nat i) s) [0..<2000]) @ replicate 80 (console_format 0x20)) ! i"
      using i get [OF i] by (cases "i < 1920") (simp_all add: nth_append add.commute del: upt_rec_numeral of_nat_add)
  qed (simp del: upt_rec_numeral)
  then show "view cur (vga_scroll s) = (view cur s)\<lparr>buffer := drop 80 (buffer (view cur s)) @ replicate 80 (console_format 0x20)\<rparr>"
    by (simp add: view_def del: upt_rec_numeral)
  show "same_outside_screen s (vga_scroll s)"
    unfolding vga_scroll_def Let_def
  proof (rule screen_outside_trans)
    show "same_outside_screen s (?f s)" by (rule fold_frame, rule same_outside_vm_set) (simp del: upt_rec_numeral)
  qed (rule fold_frame, rule same_outside_vm_set, simp del: upt_rec_numeral)
qed

subsection \<open>Characters on the screen\<close>

lemma view_buffer [simp]: "length (buffer (view cur s)) = 2000"
  by (simp add: view_def)

lemma view_cursor [simp]: "cursor_x (view cur s) = fst cur" "cursor_y (view cur s) = snd cur" "debug_enabled (view cur s)"
  by (simp_all add: view_def)

lemma buffer_cursor: "buffer (view cur s) = buffer (view cur' s)"
  by (simp add: view_def)

lemma view_vm_set:
  assumes "j < 2000"
  shows "view cur (vm_set (of_nat j) v s) = (view cur s)\<lparr>buffer := (buffer (view cur s))[j := v]\<rparr>"
proof -
  have "map (\<lambda>i. vm_get (of_nat i) (vm_set (of_nat j) v s)) [0..<2000] = (map (\<lambda>i. vm_get (of_nat i) s) [0..<2000])[j := v]"
  proof (rule nth_equalityI)
    fix i
    assume "i < length (map (\<lambda>i. vm_get (of_nat i) (vm_set (of_nat j) v s)) [0..<2000])"
    then have i: "i < 2000" by (simp del: upt_rec_numeral)
    then show "map (\<lambda>i. vm_get (of_nat i) (vm_set (of_nat j) v s)) [0..<2000] ! i =
        (map (\<lambda>i. vm_get (of_nat i) s) [0..<2000])[j := v] ! i"
      using assms by (simp add: vm_get_set nth_list_update del: upt_rec_numeral)
  qed (simp del: upt_rec_numeral)
  then show ?thesis by (simp add: view_def del: upt_rec_numeral)
qed

lemma vga_wrap_view:
  assumes "vga_wrap cur s = (cur', s')"
  shows "wrap_scroll (view cur s) = Some (view cur' s')" "same_outside_screen s s'"
proof -
  obtain x y where cur: "cur = (x, y)" by (cases cur)
  define x1 y1 where "x1 = (if x \<ge> 80 then 0 else x)" "y1 = (if x \<ge> 80 then y + 1 else y)"
  have r: "cur' = (x1, if y1 \<ge> 25 then y1 - 1 else y1)" "s' = (if y1 \<ge> 25 then vga_scroll s else s)"
    using assms by (auto simp: vga_wrap_def cur x1_y1_def split: if_splits)
  have v: "(view cur s)\<lparr>cursor_x := a, cursor_y := b\<rparr> = view (a, b) s" for a b by (simp add: view_def)
  have "wrap_scroll (view cur s) = (if y1 \<ge> 25 then scroll (view (x1, y1) s) else Some (view (x1, y1) s))"
    using v by (simp add: wrap_scroll_def Let_def cur x1_y1_def)
  also have "\<dots> = Some (view cur' s')"
    unfolding r using scroll_buffer [of "view (x1, y1) s"] vga_scroll_view(1) [of "(x1, y1 - 1)" s]
    by (auto simp: view_def simp del: upt_rec_numeral)
  finally show "wrap_scroll (view cur s) = Some (view cur' s')" .
  show "same_outside_screen s s'" unfolding r by (simp add: vga_scroll_view(2))
qed

text \<open>The terminal of the driver: as that of the console, but a backspace erases.\<close>

definition vt_put :: "u8 \<Rightarrow> terminal \<Rightarrow> terminal" where
  "vt_put c t = (if c = 8 then
      (let x = t_x t - 1 in t\<lparr>t_cell := (t_cell t)(t_y t := (t_cell t (t_y t))(x := console_format 0x20)), t_x := x\<rparr>)
    else term_put c t)"

lemma vm_set_displays:
  assumes "displays (view (x, y) s) t"
  shows "displays (view (x, y) (vm_set (y * 80 + x) v s)) (t\<lparr>t_cell := (t_cell t)(t_y t := (t_cell t (t_y t))(t_x t := v))\<rparr>)"
    and "same_outside_screen s (vm_set (y * 80 + x) v s)"
proof -
  have b: "unat x = t_x t" "unat y = t_y t" "t_x t < 80" "t_y t < 25"
    using assms by (auto simp: displays_def console_inv_def word_less_nat_alt)
  then have j: "80 * t_y t + t_x t < 2000" by simp
  have "unat (y * 80 + x) = 80 * t_y t + t_x t" using b by (simp add: unat_word_ariths)
  then have i: "y * 80 + x = of_nat (80 * t_y t + t_x t)" using j by (simp add: word_unat_eq_iff unat_of_nat del: of_nat_add of_nat_mult)
  show "displays (view (x, y) (vm_set (y * 80 + x) v s)) (t\<lparr>t_cell := (t_cell t)(t_y t := (t_cell t (t_y t))(t_x t := v))\<rparr>)"
    unfolding i view_vm_set [OF j] by (rule displays_put(2) [OF assms])
  show "same_outside_screen s (vm_set (y * 80 + x) v s)" unfolding i by (rule same_outside_vm_set [OF j])
qed

lemma vga_wrap_advance:
  assumes "displays (view (x, y) s) t" and "unat x' = k" and "k \<le> 80" and "vga_wrap (x', y) s = (cur', s')"
  shows "displays (view cur' s') (term_advance k t)" "same_outside_screen s s'"
  using wrap_scroll_advance [OF assms(1), of "view (x', y) s" k] vga_wrap_view [OF assms(4)] assms(2,3) buffer_cursor [of "(x', y)" s "(x, y)"]
  by auto

lemma vga_wrap_newline:
  assumes "displays (view (x, y) s) t" and "vga_wrap (0, y + 1) s = (cur', s')"
  shows "displays (view cur' s') (term_newline t)" "same_outside_screen s s'"
proof -
  have "unat (y + 1) = t_y t + 1"
    using assms(1) by (auto simp: displays_def console_inv_def word_less_nat_alt unat_word_ariths)
  then show "displays (view cur' s') (term_newline t)" "same_outside_screen s s'"
    using wrap_scroll_newline [OF assms(1), of "view (0, y + 1) s"] vga_wrap_view [OF assms(2)] buffer_cursor [of "(0, y + 1)" s "(x, y)"]
    by auto
qed

text \<open>
  A character printed by the driver changes the screen as the terminal prescribes and nothing
  else in memory.
\<close>

lemma putc_terminal:
  assumes d: "displays (view cur s) t" and p: "putc c cur s = (cur', s')"
  shows "displays (view cur' s') (vt_put c t) \<and> same_outside_screen s s'"
proof -
  obtain x y where cur: "cur = (x, y)" by (cases cur)
  have b: "unat x = t_x t" "unat y = t_y t" "t_x t < 80" "t_y t < 25"
    using d by (auto simp: cur displays_def console_inv_def word_less_nat_alt)
  note d' = d [unfolded cur]
  consider (bs) "c = 8" | (tab) "c = 9" | (nl) "c = 10" | (cr) "c = 13"
    | (ctl) "c \<notin> {8, 9, 10, 13}" "sint c < 0x20" | (print) "c \<notin> {8, 9, 10, 13}" "sint c \<ge> 0x20" by force
  then show ?thesis
  proof cases
    case bs
    define x' where "x' = (if x \<noteq> 0 then x - 1 else x)"
    have x': "unat x' = t_x t - 1" using b(1) by (auto simp: x'_def unat_minus_1)
    have "displays (view (x', y) s) (t\<lparr>t_x := t_x t - 1\<rparr>)"
      using d' x' b buffer_cursor [of "(x', y)" s "(x, y)"]
      by (simp add: displays_def console_inv_def word_less_nat_alt)
    note v = vm_set_displays [OF this, of "console_format 0x20"]
    have "vga_wrap (x', y) (vm_set (y * 80 + x') (console_format 0x20) s) = (cur', s')"
      using p bs by (simp add: putc_def cur x'_def console_format_def)
    note w = vga_wrap_advance [OF v(1) x' _ this]
    have lt: "t_x t - 1 < 80" using b(3) by linarith
    then show ?thesis using w lt v(2) bs by (auto simp: vt_put_def term_advance_def Let_def intro: screen_outside_trans)
  next
    case tab
    have nx: "unat ((x + 4) AND NOT (4 - 1)) = (t_x t div 4 + 1) * 4"
      using tab_stop [of x] b(1,3) by simp
    have le: "(t_x t div 4 + 1) * 4 \<le> 80" using b(3) div_less_iff_less_mult [of 4 "t_x t" 20] by simp
    have "vga_wrap ((x + 4) AND NOT (4 - 1), y) s = (cur', s')"
    proof (cases "(x + 4) AND NOT (4 - 1) < 80")
      case True
      then show ?thesis using p tab by (simp add: putc_def cur Let_def)
    next
      case False
      then have "80 \<le> (x + 4) AND NOT (4 - 1)" by simp
      then have "vga_wrap ((x + 4) AND NOT (4 - 1), y) s = vga_wrap (0, y + 1) s" by (simp add: vga_wrap_def)
      moreover have F: "((x + 4) AND - 4 < (80 :: u32)) = False" using False by simp
      ultimately show ?thesis using p tab unfolding putc_def cur Let_def by (simp add: F)
    qed
    from vga_wrap_advance [OF d' nx le this] show ?thesis using tab by (simp add: vt_put_def term_put_def)
  next
    case nl
    then have "vga_wrap (0, y + 1) s = (cur', s')" using p by (simp add: putc_def cur)
    from vga_wrap_newline [OF d' this] show ?thesis using nl by (simp add: vt_put_def term_put_def)
  next
    case cr
    then have "vga_wrap (0, y) s = (cur', s')" using p by (simp add: putc_def cur)
    from vga_wrap_advance [OF d' _ _ this, of 0] show ?thesis using cr by (simp add: vt_put_def term_put_def term_advance_def)
  next
    case ctl
    then have "vga_wrap (x, y) s = (cur', s')" using p by (simp add: putc_def cur)
    from vga_wrap_advance [OF d' b(1) _ this] show ?thesis using ctl b(3) by (simp add: vt_put_def term_put_def term_advance_def)
  next
    case print
    note v = vm_set_displays [OF d', of "console_format c"]
    have "unat (x + 1) = t_x t + 1" using b(1,3) by (simp add: unat_word_ariths)
    moreover have "vga_wrap (x + 1, y) (vm_set (y * 80 + x) (console_format c) s) = (cur', s')"
      using p print by (simp add: putc_def cur console_format_def)
    ultimately show ?thesis using vga_wrap_advance [OF v(1), of "x + 1" "t_x t + 1" cur' s'] v(2) b(3) print
      by (auto simp: vt_put_def term_put_def intro: screen_outside_trans)
  qed
qed

subsection \<open>Strings on the screen\<close>

definition off_screen :: "u32 \<Rightarrow> nat \<Rightarrow> bool" where
  "off_screen p n \<longleftrightarrow> (\<forall>i\<le>n. \<not> (0x10000000 \<le> unat (p + of_nat i) \<and> unat (p + of_nat i) < 0x10000000 + 4000))"

lemma off_screen_Suc: "off_screen p (Suc n) \<Longrightarrow> off_screen (p + 1) n"
  by (auto simp: off_screen_def add.assoc dest: spec [of _ "Suc _"])

lemma cstr_same_outside:
  "\<lbrakk>cstr (umem s) p bs; off_screen p (length bs); same_outside_screen s s'\<rbrakk> \<Longrightarrow> cstr (umem s') p bs"
proof (induction bs arbitrary: p)
  case Nil
  then show ?case by (auto simp: off_screen_def same_outside_screen_def)
next
  case (Cons b bs)
  have "umem s' p = umem s p" using Cons.prems(2,3) by (auto simp: off_screen_def same_outside_screen_def dest: spec [of _ 0])
  then show ?case using Cons off_screen_Suc by auto
qed

lemma puts_loop_displays:
  "\<lbrakk>displays (view cur s) t; cstr (umem s) p bs; off_screen p (length bs)\<rbrakk> \<Longrightarrow>
   \<exists>cur' s'. puts_loop p cur s = Some (cur', s') \<and> displays (view cur' s') (fold vt_put bs t) \<and> same_outside_screen s s'"
proof (induction bs arbitrary: p cur s t)
  case Nil
  then show ?case by (subst puts_loop.simps) (simp add: lb_def)
next
  case (Cons b bs)
  obtain cur1 s1 where put: "putc b cur s = (cur1, s1)" by (cases "putc b cur s")
  note t = putc_terminal [OF Cons.prems(1) put]
  have "cstr (umem s) (p + 1) bs" "off_screen (p + 1) (length bs)"
    using Cons.prems(2,3) off_screen_Suc by auto
  moreover from this have "cstr (umem s1) (p + 1) bs" using t cstr_same_outside by blast
  ultimately obtain cur' s' where "puts_loop (p + 1) cur1 s1 = Some (cur', s')" "displays (view cur' s') (fold vt_put bs (vt_put b t))"
      "same_outside_screen s1 s'"
    using Cons.IH [of cur1 s1 "vt_put b t" "p + 1"] t by blast
  then show ?case using Cons.prems(2) put t by (subst puts_loop.simps) (auto simp: lb_def intro: screen_outside_trans)
qed

text \<open>
  C32. The terminal driver shows a text that does not start with an escape as an ideal terminal with
  backspace would, and writes nowhere outside the 4000 bytes of the screen.
\<close>

lemma puts_displays:
  assumes "displays (view cur s) t" and "cstr (umem s) p bs" and "off_screen p (length bs)" and "bs = [] \<or> hd bs \<noteq> 0x1B"
  shows "\<exists>cur' s'. puts clear p cur s = Some (cur', s') \<and> displays (view cur' s') (fold vt_put bs t) \<and>
     same_outside_screen s s'"
proof -
  have "lb p s \<noteq> 0x1B" using assms(2,4) by (cases bs) (auto simp: lb_def)
  then show ?thesis using puts_loop_displays [OF assms(1-3)] by (simp add: puts_def)
qed

end
