(* ===== verification/Ps2kbd.thy ===== *)
theory Ps2kbd
  imports User_Msg
begin

text \<open>
  \<open>user/ps2kbd-i586\<close>: the keyboard driver.  \<open>ps2ctl.c\<close> sets up the controller and \<open>ps2kbd.c\<close> the
  keyboard, both through port accesses the kernel makes for the driver; \<open>ps2kbd_read\<close> turns scan
  codes into keys, and \<open>main.c\<close> keeps the last keys for the programs that ask for them.  Polling a
  device that never answers does not end, which is \<^term>\<open>None\<close>.
\<close>

subsection \<open>The controller\<close>

abbreviation (input) PS2CTL_PORT_CMD :: u32 where "PS2CTL_PORT_CMD \<equiv> 0x64"
abbreviation (input) PS2CTL_PORT_DAT :: u32 where "PS2CTL_PORT_DAT \<equiv> 0x60"

definition ps2ctl_has_data :: "'s trap \<Rightarrow> ('s, 'z) libh_scheme \<Rightarrow> (bool \<times> ('s, 'z) libh_scheme) option" where
  "ps2ctl_has_data trap s = do {
     (byte, s) \<leftarrow> sysio trap IO_INB PS2CTL_PORT_CMD 0 s;
     Some (bit (ucast byte :: u8) 0, s)
   }"

partial_function (option) ps2ctl_poll :: "'s trap \<Rightarrow> ('s, 'z) libh_scheme \<Rightarrow> ('s, 'z) libh_scheme option" where
  "ps2ctl_poll trap s = do {
     (ready, s) \<leftarrow> ps2ctl_has_data trap s;
     if ready then Some s else ps2ctl_poll trap s
   }"

definition wait_result :: "'s trap \<Rightarrow> ('s, 'z) libh_scheme \<Rightarrow> (u8 \<times> ('s, 'z) libh_scheme) option" where
  "wait_result trap s = do {
     s \<leftarrow> ps2ctl_poll trap s;
     (byte, s) \<leftarrow> sysio trap IO_INB PS2CTL_PORT_DAT 0 s;
     Some (ucast byte, s)
   }"

text \<open>\<open>byte\<close> is the address of the local variable passed along while the buffer is flushed.\<close>

partial_function (option) ps2ctl_flush :: "'s trap \<Rightarrow> u32 \<Rightarrow> ('s, 'z) libh_scheme \<Rightarrow> ('s, 'z) libh_scheme option" where
  "ps2ctl_flush trap byte s = do {
     (more, s) \<leftarrow> ps2ctl_has_data trap s;
     if more then do {
       (_, s) \<leftarrow> sysio trap IO_INB PS2CTL_PORT_DAT byte s;
       ps2ctl_flush trap byte s
     }
     else Some s
   }"

text \<open>Reading, changing and writing the configuration byte.\<close>

definition ps2ctl_config :: "'s trap \<Rightarrow> (u8 \<Rightarrow> u8) \<Rightarrow> ('s, 'z) libh_scheme \<Rightarrow> ('s, 'z) libh_scheme option" where
  "ps2ctl_config trap change s = do {
     (_, s) \<leftarrow> sysio trap IO_OUTB PS2CTL_PORT_CMD 0x20 s;
     (byte, s) \<leftarrow> sysio trap IO_INB PS2CTL_PORT_DAT 0 s;
     let cfg = change (ucast byte);
     (_, s) \<leftarrow> sysio trap IO_OUTB PS2CTL_PORT_CMD 0x60 s;
     (_, s) \<leftarrow> sysio trap IO_OUTB PS2CTL_PORT_DAT (ucast cfg) s;
     Some s
   }"

definition ps2ctl_init :: "'s trap \<Rightarrow> u32 \<Rightarrow> ('s, 'z) libh_scheme \<Rightarrow> (int \<times> ('s, 'z) libh_scheme) option" where
  "ps2ctl_init trap byte s = do {
     (_, s) \<leftarrow> sysio trap IO_OUTB PS2CTL_PORT_CMD 0xAD s;
     (_, s) \<leftarrow> sysio trap IO_OUTB PS2CTL_PORT_CMD 0xA7 s;
     s \<leftarrow> ps2ctl_flush trap byte s;
     s \<leftarrow> ps2ctl_config trap (\<lambda>cfg. unset_bit 6 (unset_bit 1 (unset_bit 0 cfg))) s;
     (_, s) \<leftarrow> sysio trap IO_OUTB PS2CTL_PORT_CMD 0xAA s;
     (r, s) \<leftarrow> wait_result trap s;
     if r \<noteq> 0x55 then Some (- 1, s)
     else do {
       (_, s) \<leftarrow> sysio trap IO_OUTB PS2CTL_PORT_CMD 0xAB s;
       (r, s) \<leftarrow> wait_result trap s;
       if r \<noteq> 0 then Some (- 2, s)
       else do {
         (_, s) \<leftarrow> sysio trap IO_OUTB PS2CTL_PORT_CMD 0xAE s;
         s \<leftarrow> ps2ctl_config trap (set_bit 0) s;
         Some (0, s)
       }
     }
   }"

subsection \<open>The keyboard\<close>

abbreviation (input) PS2KBD_STAT_PASS :: u8 where "PS2KBD_STAT_PASS \<equiv> 0xAA"
abbreviation (input) PS2KBD_STAT_ECHO :: u8 where "PS2KBD_STAT_ECHO \<equiv> 0xEE"
abbreviation (input) PS2KBD_STAT_ACK :: u8 where "PS2KBD_STAT_ACK \<equiv> 0xFA"
abbreviation (input) PS2KBD_STAT_REDO :: u8 where "PS2KBD_STAT_REDO \<equiv> 0xFE"

text \<open>
  The two labels of \<open>stat_wait\<close>: \<open>retry\<close> sends the command again, \<open>poll\<close> reads once more.  The
  test \<open>dat != -1\<close> compares an \<open>unsigned char\<close> and always holds.
\<close>

partial_function (option) stat_poll :: "'s trap \<Rightarrow> u8 \<Rightarrow> ('s, 'z) libh_scheme \<Rightarrow> (bool \<times> ('s, 'z) libh_scheme) option" where
  "stat_poll trap ret s = do {
     (v, s) \<leftarrow> sysio trap IO_INB 0x60 0 s;
     let result = (ucast v :: u8);
     if result = ret then Some (False, s)
     else if result = PS2KBD_STAT_REDO then Some (True, s)
     else if result = PS2KBD_STAT_ACK then stat_poll trap ret s
     else Some (False, s)
   }"

partial_function (option) stat_wait ::
    "'s trap \<Rightarrow> u8 \<Rightarrow> u8 \<Rightarrow> u8 \<Rightarrow> ('s, 'z) libh_scheme \<Rightarrow> (int \<times> ('s, 'z) libh_scheme) option" where
  "stat_wait trap cmd dat ret s = do {
     (_, s) \<leftarrow> sysio trap IO_OUTB 0x60 (ucast cmd) s;
     (_, s) \<leftarrow> sysio trap IO_OUTB 0x60 (ucast dat) s;
     s \<leftarrow> ps2ctl_poll trap s;
     (again, s) \<leftarrow> stat_poll trap ret s;
     if again then stat_wait trap cmd dat ret s else Some (0, s)
   }"

definition ps2kbd_init :: "'s trap \<Rightarrow> ('s, 'z) libh_scheme \<Rightarrow> (int \<times> ('s, 'z) libh_scheme) option" where
  "ps2kbd_init trap s = do {
     (r, s) \<leftarrow> stat_wait trap 0xEE (- 1) PS2KBD_STAT_ECHO s;
     if r \<noteq> 0 then Some (- 1, s)
     else do {
       (r, s) \<leftarrow> stat_wait trap 0xFF (- 1) PS2KBD_STAT_PASS s;
       if r \<noteq> 0 then Some (- 2, s) else Some (0, s)
     }
   }"

datatype kbd_state = STATE_NONE | STATE_SKIP | STATE_RELEASE

text \<open>The static variables: the table in use (\<open>None\<close> for \<open>NULL\<close>), the prefix seen, the keys held.\<close>

record kbd =
  active_map :: "u8 list option"
  active_state :: kbd_state
  key_states :: "bool list"

definition kbd_boot :: kbd where
  "kbd_boot = \<lparr>active_map = None, active_state = STATE_NONE, key_states = replicate 256 False\<rparr>"

definition ps2kbd_mode_set ::
    "'s trap \<Rightarrow> u8 \<Rightarrow> u8 list \<Rightarrow> kbd \<Rightarrow> ('s, 'z) libh_scheme \<Rightarrow> (int \<times> kbd \<times> ('s, 'z) libh_scheme) option" where
  "ps2kbd_mode_set trap mode mp k s =
     (if mode = 0 \<or> sint mode > 3 then Some (- 1, k, s)
      else do {
        (r, s) \<leftarrow> stat_wait trap 0xF0 mode PS2KBD_STAT_ACK s;
        if r \<noteq> 0 then Some (- 2, k, s) else Some (0, k\<lparr>active_map := Some mp\<rparr>, s)
      })"

abbreviation (input) LSHF :: u8 where "LSHF \<equiv> 141"
abbreviation (input) RSHF :: u8 where "RSHF \<equiv> 144"
abbreviation (input) CAPL :: u8 where "CAPL \<equiv> 147"

definition IS_ASCII :: "u8 \<Rightarrow> bool" where "IS_ASCII x \<longleftrightarrow> 0 < x \<and> x < 128"

definition IS_CHAR :: "u8 \<Rightarrow> bool" where "IS_CHAR x \<longleftrightarrow> 32 < x \<and> x < 128"

definition IS_LETTER :: "u8 \<Rightarrow> bool" where "IS_LETTER x \<longleftrightarrow> 96 < x \<and> x < 123"

definition scanmode2_qwerty :: "u8 list" where
  "scanmode2_qwerty =
    [0, 137, 0, 133, 131, 129, 130, 140, 0, 138, 136, 134, 132, 9, 96, 0,
     0, 143, 141, 0, 142, 113, 49, 0, 0, 0, 122, 115, 97, 119, 50, 0,
     0, 99, 120, 100, 101, 52, 51, 0, 0, 32, 118, 102, 116, 114, 53, 0,
     0, 110, 98, 104, 103, 121, 54, 0, 0, 0, 109, 106, 117, 55, 56, 0,
     0, 44, 107, 105, 111, 48, 57, 0, 0, 46, 47, 108, 59, 112, 45, 0,
     0, 0, 39, 0, 91, 61, 0, 0, 147, 144, 10, 93, 0, 92, 0, 0,
     0, 0, 0, 0, 0, 0, 8, 0, 0, 49, 0, 52, 55, 0, 0, 0,
     48, 46, 50, 53, 54, 56, 128, 148, 139, 43, 51, 45, 42, 57, 149, 0,
     0, 0, 0, 0, 0, 0, 0, 135, 0, 0, 0, 0, 0, 0, 0, 0,
     0, 0, 0, 0, 0, 0, 0, 0, 0, 0, 0, 0, 0, 0, 126, 0,
     0, 0, 0, 0, 0, 81, 33, 0, 0, 0, 90, 83, 65, 87, 64, 0,
     0, 67, 88, 68, 69, 36, 35, 0, 0, 32, 86, 70, 84, 82, 37, 0,
     0, 78, 66, 72, 71, 89, 94, 0, 0, 0, 77, 74, 85, 38, 42, 0,
     0, 60, 75, 73, 79, 41, 40, 0, 0, 62, 63, 76, 58, 80, 95, 0,
     0, 0, 39, 0, 123, 43, 0, 0, 0, 0, 10, 125, 0, 124, 0, 0,
     0, 0, 0, 0, 0, 0, 8, 0, 0, 49, 0, 52, 55, 0, 0, 0,
     48, 46, 50, 53, 54, 56, 0, 0, 0, 43, 51, 45, 42, 57, 0, 0,
     0, 0, 0, 0, 0, 0, 0, 0, 0, 0, 0, 0, 0, 0, 0, 0]"

definition held_key :: "u8 \<Rightarrow> kbd \<Rightarrow> bool" where
  "held_key key k = key_states k ! unat key"

definition set_key :: "u8 \<Rightarrow> bool \<Rightarrow> kbd \<Rightarrow> kbd" where
  "set_key key v k = k\<lparr>key_states := (key_states k)[unat key := v]\<rparr>"

definition map_key :: "kbd \<Rightarrow> nat \<Rightarrow> u8 option" where
  "map_key k i = do { m \<leftarrow> active_map k; arr_get m i }"

text \<open>The scan code \<open>val\<close> the keyboard has sent.\<close>

definition kbd_decode :: "u8 \<Rightarrow> kbd \<Rightarrow> (u8 \<times> kbd) option" where
  "kbd_decode val k =
     (if active_state k = STATE_SKIP then Some (0, k\<lparr>active_state := STATE_NONE\<rparr>)
      else if val = 0xE0 \<or> val = 0xE1 then Some (0, k\<lparr>active_state := STATE_SKIP\<rparr>)
      else if val = 0xF0 then Some (0, k\<lparr>active_state := STATE_RELEASE\<rparr>)
      else do {
        key \<leftarrow> (if val < 0x90 then map_key k (unat val) else Some 0);
        if active_state k = STATE_RELEASE then
          Some (0, (if key < CAPL then set_key key False k else k)\<lparr>active_state := STATE_NONE\<rparr>)
        else do {
          let k = (if key < CAPL then set_key key True k else set_key key (\<not> held_key key k) k);
          let upper = (held_key LSHF k \<or> held_key RSHF k);
          let upper = (if held_key CAPL k \<and> IS_LETTER key then \<not> upper else upper);
          key \<leftarrow> (if upper \<and> IS_CHAR key then map_key k (unat val + 0x90) else Some key);
          Some (key, k)
        }
      })"

definition ps2kbd_read :: "'s trap \<Rightarrow> kbd \<Rightarrow> ('s, 'z) libh_scheme \<Rightarrow> (u8 \<times> kbd \<times> ('s, 'z) libh_scheme) option" where
  "ps2kbd_read trap k s = do {
     (v, s) \<leftarrow> sysio trap IO_INB 0x60 0 s;
     (key, k) \<leftarrow> kbd_decode (ucast v) k;
     Some (key, k, s)
   }"

subsection \<open>The keys kept for the readers\<close>

abbreviation (input) BUFFER_SIZE :: nat where "BUFFER_SIZE \<equiv> 16"

record keybuf =
  key_buffer :: "u8 list"
  buffer_pos :: nat
  buffer_count :: nat

definition keybuf_boot :: keybuf where
  "keybuf_boot = \<lparr>key_buffer = replicate BUFFER_SIZE 0, buffer_pos = 0, buffer_count = 0\<rparr>"

definition key_push :: "u8 \<Rightarrow> keybuf \<Rightarrow> keybuf option" where
  "key_push key b = do {
     kb \<leftarrow> arr_set (key_buffer b) (buffer_pos b) key;
     let b = b\<lparr>key_buffer := kb, buffer_pos := (buffer_pos b + 1) mod BUFFER_SIZE, buffer_count := buffer_count b + 1\<rparr>;
     Some (if buffer_count b \<ge> BUFFER_SIZE then b\<lparr>buffer_count := BUFFER_SIZE - 1\<rparr> else b)
   }"

fun key_drain :: "nat \<Rightarrow> u32 \<Rightarrow> u32 \<Rightarrow> keybuf \<Rightarrow> 'w alloc \<Rightarrow> (u32 \<times> keybuf \<times> 'w alloc) option" where
  "key_drain 0 buf i b s = Some (i, b, s)"
| "key_drain (Suc count) buf i b s =
     (if buffer_count b = 0 then Some (i, b, s)
      else do {
        let pos = (if buffer_pos b \<noteq> 0 then buffer_pos b - 1 else BUFFER_SIZE - 1);
        dassert (buf \<noteq> 0);
        key \<leftarrow> arr_get (key_buffer b) pos;
        key_drain count buf (i + 1) (b\<lparr>buffer_pos := pos, buffer_count := buffer_count b - 1\<rparr>) (sb (buf + i) key s)
      })"

text \<open>The beginning of \<open>main\<close>, and one round of its loop.  A \<open>free\<close> of \<open>NULL\<close> faults.\<close>

definition ps2kbd_start :: "(memory \<times> 'w) trap \<Rightarrow> u32 \<Rightarrow> u32 \<Rightarrow> u32 \<Rightarrow> 'w alloc \<Rightarrow> ((int + kbd) \<times> 'w alloc) option" where
  "ps2kbd_start trap byte name fp s = do {
     (r, s) \<leftarrow> ps2ctl_init trap byte s;
     if r < 0 then Some (Inl 1, s) else do {
       (r, s) \<leftarrow> ps2kbd_init trap s;
       if r < 0 then Some (Inl 1, s) else do {
         (r, k, s) \<leftarrow> ps2kbd_mode_set trap 2 scanmode2_qwerty kbd_boot s;
         if r < 0 then Some (Inl 1, s) else do {
           (devmgr, s) \<leftarrow> svcid_wait trap SVC_DEVMGR s;
           (r, s) \<leftarrow> svcown trap 1 s;
           if sint r < 0 then Some (Inl 1, s) else do {
             (r, s) \<leftarrow> dev_register trap fp devmgr name s;
             if r < 0 then Some (Inl 1, s) else Some (Inr k, s)
           }
         }
       }
     }
   }"

definition ps2kbd_serve :: "(memory \<times> 'w) trap \<Rightarrow> u32 \<Rightarrow> kbd \<Rightarrow> keybuf \<Rightarrow> 'w alloc \<Rightarrow> (kbd \<times> keybuf \<times> 'w alloc) option" where
  "ps2kbd_serve trap fp k b s = do {
     let req = fp;
     let res = fp + MSG_STRUCT;
     (r, s) \<leftarrow> msg_get_waiting trap req s;
     if r < 0 then Some (k, b, s)
     else if lw req s = IPORT_KERNEL then do {
       (key, k, s) \<leftarrow> ps2kbd_read trap k s;
       b \<leftarrow> (if IS_ASCII key then key_push key b else Some b);
       Some (k, b, s)
     }
     else do {
       let s = msg_create res (lw req s) (- 1) s;
       if lw (req + msg_code_off) s = 0 then do {
         let count = lw (req + msg_args_off) s;
         (buf, s) \<leftarrow> malloc trap count s;
         (i, b, s) \<leftarrow> key_drain (unat count) buf 0 b s;
         let s = sw (res + msg_code_off) i s;
         let s = (if i \<noteq> 0 then msg_attach_payload res buf i s else s);
         (_, s) \<leftarrow> send trap res s;
         dassert (buf \<noteq> 0);
         Some (k, b, free buf s)
       }
       else do {
         (_, s) \<leftarrow> send trap res s;
         Some (k, b, s)
       }
     }
   }"

subsection \<open>What a key press gives\<close>

definition kbd_inv :: "kbd \<Rightarrow> bool" where
  "kbd_inv k \<longleftrightarrow> active_map k = Some scanmode2_qwerty \<and> length (key_states k) = 256"

lemma scanmode_length: "length scanmode2_qwerty = 288"
  by code_simp

lemma unat_u8: "unat (x :: u8) < 256"
proof -
  have "unat x < 2 ^ LENGTH(8)" by (rule unsigned_less)
  then show ?thesis by simp
qed

lemma set_key_inv [simp]: "kbd_inv (set_key key v k) = kbd_inv k" "active_state (set_key key v k) = active_state k"
  "active_map (set_key key v k) = active_map k"
  by (simp_all add: kbd_inv_def set_key_def)

lemma held_set_key: "length (key_states k) = 256 \<Longrightarrow> held_key a (set_key b v k) = (if a = b then v else held_key a k)"
  using unat_u8 [of b] by (auto simp: held_key_def set_key_def nth_list_update word_unat_eq_iff)

lemma map_key_code: "kbd_inv k \<Longrightarrow> i < 288 \<Longrightarrow> map_key k i = Some (scanmode2_qwerty ! i)"
  by (simp add: map_key_def kbd_inv_def scanmode_length)

text \<open>No scan code makes the driver leave its tables.\<close>

lemma kbd_decode_total:
  assumes "kbd_inv k"
  shows "\<exists>key k'. kbd_decode val k = Some (key, k') \<and> kbd_inv k'"
proof -
  have code: "map_key k' (unat val) = Some (scanmode2_qwerty ! unat val)"
      "map_key k' (unat val + 0x90) = Some (scanmode2_qwerty ! (unat val + 0x90))" if "kbd_inv k'" "val < 0x90" for k'
    using that by (auto intro!: map_key_code simp: word_less_nat_alt)
  have upd: "kbd_inv (k'\<lparr>active_state := st\<rparr>) = kbd_inv k'" for k' st by (simp add: kbd_inv_def)
  have char0: "\<not> IS_CHAR 0" by (simp add: IS_CHAR_def)
  show ?thesis using assms code char0 by (cases "val < 0x90") (simp_all add: kbd_decode_def upd Let_def)
qed

definition shifted :: "kbd \<Rightarrow> bool" where
  "shifted k \<longleftrightarrow> held_key LSHF k \<or> held_key RSHF k"

lemma letters_upper:
  fixes val :: u8
  assumes "val < 0x90" and "IS_LETTER (scanmode2_qwerty ! unat val)"
  shows "scanmode2_qwerty ! (unat val + 0x90) = scanmode2_qwerty ! unat val - 32"
proof -
  let ?z = "zip (take 144 scanmode2_qwerty) (drop 144 scanmode2_qwerty)"
  have all: "list_all (\<lambda>(a, b). IS_LETTER a \<longrightarrow> b = a - 32) ?z" by code_simp
  have v: "unat val < 144" using assms(1) by (simp add: word_less_nat_alt)
  then have "?z ! unat val = (scanmode2_qwerty ! unat val, scanmode2_qwerty ! (unat val + 144))"
    by (simp add: scanmode_length add.commute)
  moreover have "unat val < length ?z" using v by (simp add: scanmode_length)
  ultimately show ?thesis using all assms(2) unfolding list_all_length by force
qed

text \<open>
  A letter comes out in upper case when exactly one of shift and caps lock is on, and neither of
  these changes.
\<close>

lemma kbd_letters:
  assumes inv: "kbd_inv k" and st: "active_state k = STATE_NONE"
    and val: "val < 0x90" and key: "key = scanmode2_qwerty ! unat val" "IS_LETTER key"
  shows "\<exists>k'. kbd_decode val k = Some (if shifted k \<noteq> held_key CAPL k then key - 32 else key, k') \<and>
     kbd_inv k' \<and> active_state k' = STATE_NONE \<and> shifted k' = shifted k \<and> held_key CAPL k' = held_key CAPL k"
proof -
  have pref: "val \<noteq> 0xE0" "val \<noteq> 0xE1" "val \<noteq> 0xF0" using val by auto
  have k: "key < CAPL" "key \<noteq> LSHF" "key \<noteq> RSHF" "key \<noteq> CAPL" "IS_CHAR key"
    using key(2) by (auto simp: IS_LETTER_def IS_CHAR_def word_less_nat_alt)
  let ?k = "set_key key True k"
  have held: "held_key LSHF ?k = held_key LSHF k" "held_key RSHF ?k = held_key RSHF k" "held_key CAPL ?k = held_key CAPL k"
    using inv k by (simp_all add: kbd_inv_def held_set_key)
  have code: "map_key k (unat val) = Some key" "map_key ?k (unat val + 0x90) = Some (key - 32)"
    using inv val key letters_upper [OF val] map_key_code [of k "unat val"] map_key_code [of ?k "unat val + 0x90"]
    by (simp_all add: word_less_nat_alt)
  have "kbd_decode val k = Some (if shifted k \<noteq> held_key CAPL k then key - 32 else key, ?k)"
    using st pref val k key(2) held code
    by (cases "held_key CAPL k") (simp_all add: kbd_decode_def Let_def shifted_def)
  then show ?thesis using inv st held by (simp add: shifted_def)
qed

subsection \<open>What a reader gets\<close>

text \<open>The keys the buffer holds, the newest first.\<close>

definition keys_of :: "keybuf \<Rightarrow> u8 list" where
  "keys_of b = map (\<lambda>j. key_buffer b ! ((buffer_pos b + 15 - j) mod 16)) [0..<buffer_count b]"

definition keybuf_inv :: "keybuf \<Rightarrow> bool" where
  "keybuf_inv b \<longleftrightarrow> length (key_buffer b) = 16 \<and> buffer_pos b < 16 \<and> buffer_count b < 16"

lemma keys_of_Cons:
  assumes "keybuf_inv b" and "buffer_count b \<noteq> 0"
  defines "pos \<equiv> (if buffer_pos b \<noteq> 0 then buffer_pos b - 1 else 15)"
  shows "keys_of b = key_buffer b ! pos # keys_of (b\<lparr>buffer_pos := pos, buffer_count := buffer_count b - 1\<rparr>)"
    and "pos < 16"
proof -
  obtain c where c: "buffer_count b = Suc c" using assms(2) by (cases "buffer_count b") auto
  have p: "(buffer_pos b + 15) mod 16 = pos"
    using assms(1) by (cases "buffer_pos b") (auto simp: pos_def keybuf_inv_def)
  have "(pos + 15 - j) mod 16 = (buffer_pos b + 15 - Suc j) mod 16" if "j < c" for j
    using assms(1) that c by (cases "buffer_pos b") (auto simp: pos_def keybuf_inv_def mod_if)
  then have "map (\<lambda>j. key_buffer b ! ((buffer_pos b + 15 - Suc j) mod 16)) [0..<c] =
      map (\<lambda>j. key_buffer b ! ((pos + 15 - j) mod 16)) [0..<c]" by simp
  then show "keys_of b = key_buffer b ! pos # keys_of (b\<lparr>buffer_pos := pos, buffer_count := buffer_count b - 1\<rparr>)"
    using p c by (simp add: keys_of_def upt_conv_Cons map_Suc_upt [symmetric] del: upt_Suc)
  show "pos < 16" using assms(1) by (auto simp: pos_def keybuf_inv_def)
qed

lemma key_push_keys:
  assumes "keybuf_inv b"
  shows "\<exists>b'. key_push key b = Some b' \<and> keybuf_inv b' \<and> keys_of b' = take 15 (key # keys_of b)"
proof -
  let ?p = "buffer_pos b" and ?n = "min (buffer_count b + 1) 15"
  define b' where "b' = b\<lparr>key_buffer := (key_buffer b)[?p := key], buffer_pos := (?p + 1) mod 16, buffer_count := ?n\<rparr>"
  have inv: "length (key_buffer b) = 16" "?p < 16" "buffer_count b < 16" using assms by (simp_all add: keybuf_inv_def)
  have run: "key_push key b = Some b'" using inv by (simp add: key_push_def b'_def min_def)
  have inv': "keybuf_inv b'" using inv by (simp add: keybuf_inv_def b'_def)
  let ?q = "if buffer_pos b' \<noteq> 0 then buffer_pos b' - 1 else 15"
  have q: "?q = ?p" using inv(2) by (auto simp: b'_def mod_if)
  have "?p \<noteq> (?p + 15 - j) mod 16" if "j < 14" for j
    using inv(2) that by (auto simp: mod_if)
  then have ne: "(key_buffer b)[?p := key] ! ((?p + 15 - j) mod 16) = key_buffer b ! ((?p + 15 - j) mod 16)"
    if "j < 14" for j
    using that by (metis nth_list_update_neq)
  have old: "keys_of (b'\<lparr>buffer_pos := ?p, buffer_count := ?n - 1\<rparr>) = take 14 (keys_of b)"
    using ne inv by (auto simp: keys_of_def b'_def take_map min_def intro!: nth_equalityI)
  have "keys_of b' = key # take 14 (keys_of b)"
    using keys_of_Cons [OF inv'] unfolding q using old inv by (simp add: b'_def)
  then show ?thesis using run inv' by simp
qed

lemma keys_of_length [simp]: "length (keys_of b) = buffer_count b"
  by (simp add: keys_of_def)

lemma key_drain_keys:
  "\<lbrakk>keybuf_inv b; buf \<noteq> 0\<rbrakk> \<Longrightarrow>
   \<exists>b' s'. key_drain n buf i b s = Some (i + of_nat (min n (buffer_count b)), b', s') \<and> keybuf_inv b' \<and>
     keys_of b' = drop n (keys_of b) \<and>
     (\<forall>x. umem s' x = (if unat (x - (buf + i)) < min n (buffer_count b) then keys_of b ! unat (x - (buf + i)) else umem s x))"
proof (induction n arbitrary: i b s)
  case 0
  then show ?case by simp
next
  case (Suc n)
  show ?case
  proof (cases "buffer_count b = 0")
    case True
    then show ?thesis using Suc.prems by (simp add: keys_of_def)
  next
    case False
    define pos where "pos = (if buffer_pos b \<noteq> 0 then buffer_pos b - 1 else BUFFER_SIZE - 1)"
    define b1 where "b1 = b\<lparr>buffer_pos := pos, buffer_count := buffer_count b - 1\<rparr>"
    define key where "key = key_buffer b ! pos"
    have k: "keys_of b = key # keys_of b1" "pos < 16"
      using keys_of_Cons [OF Suc.prems(1) False] by (simp_all add: pos_def b1_def key_def cong: if_cong)
    have inv1: "keybuf_inv b1" using Suc.prems(1) k(2) by (auto simp: keybuf_inv_def b1_def)
    have cnt: "buffer_count b = Suc (buffer_count b1)" "buffer_count b < 16"
      using False Suc.prems(1) by (simp_all add: b1_def keybuf_inv_def)
    obtain b' s' where r: "key_drain n buf (i + 1) b1 (sb (buf + i) key s) = Some (i + 1 + of_nat (min n (buffer_count b1)), b', s')"
        "keybuf_inv b'" "keys_of b' = drop n (keys_of b1)"
        "\<forall>x. umem s' x = (if unat (x - (buf + (i + 1))) < min n (buffer_count b1) then keys_of b1 ! unat (x - (buf + (i + 1)))
           else umem (sb (buf + i) key s) x)"
      using Suc.IH [OF inv1 Suc.prems(2)] by blast
    have "key_drain (Suc n) buf i b s = Some (i + of_nat (min (Suc n) (buffer_count b)), b', s')"
    proof -
      have "arr_get (key_buffer b) pos = Some key" using Suc.prems(1) k(2) by (simp add: keybuf_inv_def key_def)
      then have "key_drain (Suc n) buf i b s = key_drain n buf (i + 1) b1 (sb (buf + i) key s)"
        unfolding key_drain.simps(2) Let_def pos_def [symmetric] b1_def [symmetric] using False Suc.prems(2)
        by (simp del: arr_get_eq_Some)
      then show ?thesis using r(1) cnt by (simp add: algebra_simps)
    qed
    moreover have "umem s' x = (if unat (x - (buf + i)) < min (Suc n) (buffer_count b)
        then keys_of b ! unat (x - (buf + i)) else umem s x)" for x
    proof -
      have y: "x - (buf + (i + 1)) = (x - (buf + i)) - 1" by simp
      show ?thesis unfolding r(4) [rule_format] y using unat_minus_1 [of "x - (buf + i)"] cnt k(1)
        by (cases "unat (x - (buf + i))") (auto simp: sb_def unat_eq_0 split: if_splits)
    qed
    ultimately show ?thesis using r(2,3) k(1) by simp
  qed
qed

text \<open>Keys typed since the buffer was empty.\<close>

fun key_pushes :: "u8 list \<Rightarrow> keybuf \<Rightarrow> keybuf option" where
  "key_pushes [] b = Some b"
| "key_pushes (k # ks) b = do { b \<leftarrow> key_push k b; key_pushes ks b }"

lemma key_pushes_keys:
  "keybuf_inv b \<Longrightarrow> \<exists>b'. key_pushes ks b = Some b' \<and> keybuf_inv b' \<and> keys_of b' = take 15 (rev ks @ keys_of b)"
proof (induction ks arbitrary: b)
  case Nil
  then show ?case by (simp add: keybuf_inv_def)
next
  case (Cons k ks)
  then obtain b1 where b1: "key_push k b = Some b1" "keybuf_inv b1" "keys_of b1 = take 15 (k # keys_of b)"
    using key_push_keys by blast
  then obtain b' where "key_pushes ks b1 = Some b'" "keybuf_inv b'" "keys_of b' = take 15 (rev ks @ keys_of b1)"
    using Cons.IH by blast
  then show ?case using b1 by (auto simp: take_Cons' min_def)
qed

text \<open>
  A reader gets at most as many keys as it asks for, out of the last fifteen, and the newest key
  comes first: the buffer works as a stack.
\<close>

text \<open>
  C35. The keyboard driver keeps the last fifteen keys typed and hands them out newest first: a
  program that reads n keys gets the last n in reverse order.
\<close>

lemma keys_read_back:
  assumes "buf \<noteq> 0"
  shows "\<exists>b b' s'. key_pushes ks keybuf_boot = Some b \<and>
     key_drain n buf 0 b s = Some (of_nat (min n (min 15 (length ks))), b', s') \<and>
     (\<forall>j < min n (min 15 (length ks)). umem s' (buf + of_nat j) = rev ks ! j)"
proof -
  have "keybuf_inv keybuf_boot" "keys_of keybuf_boot = []" by (simp_all add: keybuf_inv_def keybuf_boot_def keys_of_def)
  then obtain b where b: "key_pushes ks keybuf_boot = Some b" "keybuf_inv b" "keys_of b = take 15 (rev ks)"
    using key_pushes_keys [of keybuf_boot ks] by auto
  then have c: "buffer_count b = min 15 (length ks)" using keys_of_length [of b] by simp
  obtain b' s' where d: "key_drain n buf 0 b s = Some (of_nat (min n (buffer_count b)), b', s')"
     "\<forall>x. umem s' x = (if unat (x - (buf + 0)) < min n (buffer_count b) then keys_of b ! unat (x - (buf + 0)) else umem s x)"
    using key_drain_keys [OF b(2) assms, of n 0 s] by auto
  have "umem s' (buf + of_nat j) = rev ks ! j" if j: "j < min n (min 15 (length ks))" for j
  proof -
    have "unat (of_nat j :: u32) = j" using j by (simp add: unat_of_nat)
    then show ?thesis using d(2) [rule_format, of "buf + of_nat j"] j c b(3) by simp
  qed
  then show ?thesis using b(1) d(1) c by auto
qed

end
