(* ===== verification/Idehdd.thy ===== *)
theory Idehdd
  imports User_Msg
begin

text \<open>
  \<open>user/idehdd-i586\<close>: the disk driver.  \<open>idectl.c\<close> drives the registers of the controller through
  port accesses the kernel makes for it, \<open>idedev.c\<close> keeps what the drive reports of itself and
  computes the address of a sector, and \<open>main.c\<close> serves reads of whole sectors.  A division by
  zero is \<^term>\<open>None\<close>.
\<close>

subsection \<open>The drive\<close>

record ide_device =
  present :: bool
  atapi :: bool
  lba :: bool
  dma :: bool
  model :: "u8 list"
  serial :: "u8 list"
  firmware :: "u8 list"
  cylinders :: u32
  heads :: u32
  sectors :: u32
  capacity :: u32

record ata_geometry =
  g_sector :: u8
  g_head :: u8
  g_low :: u8
  g_high :: u8

definition ide_device_zero :: ide_device where
  "ide_device_zero = \<lparr>present = False, atapi = False, lba = False, dma = False, model = replicate 41 0,
     serial = replicate 21 0, firmware = replicate 9 0, cylinders = 0, heads = 0, sectors = 0, capacity = 0\<rparr>"

definition idedev_init :: "u16 \<Rightarrow> u8 \<Rightarrow> ide_device" where
  "idedev_init cyl status = (
     let dev = ide_device_zero in
     if cyl = 0xEB14 then dev\<lparr>present := True, atapi := True\<rparr>
     else if cyl = 0 \<and> status \<noteq> 0 then dev\<lparr>present := True\<rparr>
     else dev)"

text \<open>
  The strings come with the two characters of each word swapped; a character that cannot be
  printed ends them.  \<open>src\<close> is an index into the bytes of the answer.
\<close>

fun read_string :: "u8 list \<Rightarrow> nat \<Rightarrow> nat \<Rightarrow> nat \<Rightarrow> u8 list \<Rightarrow> u8 list option" where
  "read_string bytes src i 0 dest = Some dest"
| "read_string bytes src i (Suc len) dest = do {
     c \<leftarrow> (if i mod 2 \<noteq> 0 then arr_get bytes (src - 1) else arr_get bytes (src + 1));
     if sint c < 32 \<or> sint c > 126 then arr_set dest i 0
     else do {
       dest \<leftarrow> arr_set dest i c;
       read_string bytes (Suc src) (Suc i) len dest
     }
   }"

definition info_bytes :: "u16 list \<Rightarrow> u8 list" where
  "info_bytes info = concat (map (\<lambda>w. [ucast w, ucast (drop_bit 8 w)]) info)"

definition idedev_parse_info :: "ide_device \<Rightarrow> u16 list \<Rightarrow> ide_device option" where
  "idedev_parse_info dev info = do {
     w1 \<leftarrow> arr_get info 1;
     w3 \<leftarrow> arr_get info 3;
     w6 \<leftarrow> arr_get info 6;
     w49 \<leftarrow> arr_get info 49;
     w60 \<leftarrow> arr_get info 60;
     let dev = dev\<lparr>cylinders := ucast w1, heads := ucast w3, sectors := ucast w6,
                   dma := bit w49 8, lba := bit w49 9\<rparr>;
     let dev = dev\<lparr>capacity := (if lba dev then ucast w60 else heads dev * sectors dev * cylinders dev)\<rparr>;
     md \<leftarrow> read_string (info_bytes info) (2 * 27) 0 40 (model dev);
     sn \<leftarrow> read_string (info_bytes info) (2 * 10) 0 20 (serial dev);
     fw \<leftarrow> read_string (info_bytes info) (2 * 23) 0 8 (firmware dev);
     Some (dev\<lparr>model := md, serial := sn, firmware := fw\<rparr>)
   }"

definition idedev_get_geometry :: "ide_device \<Rightarrow> bool \<Rightarrow> u32 \<Rightarrow> ata_geometry option" where
  "idedev_get_geometry dev pos start = do {
     geom \<leftarrow>
       (if lba dev then
          Some \<lparr>g_sector = ucast (start AND 0xFF), g_head = ucast (drop_bit 24 start AND 0xF),
                g_low = ucast (drop_bit 8 start AND 0xFF), g_high = ucast (drop_bit 16 start AND 0xFF)\<rparr>
        else do {
          dassert (heads dev * sectors dev \<noteq> 0 \<and> sectors dev \<noteq> 0);
          let cylinder = start div (heads dev * sectors dev);
          let off = start mod (heads dev * sectors dev);
          Some \<lparr>g_sector = ucast (off mod sectors dev + 1), g_head = ucast (off div sectors dev),
                g_low = ucast (cylinder AND 0xFF), g_high = ucast (drop_bit 8 cylinder AND 0xFF)\<rparr>
        });
     Some (geom\<lparr>g_head := g_head geom OR push_bit 4 (of_bool pos) OR push_bit 6 (of_bool (lba dev))\<rparr>)
   }"

subsection \<open>The controller\<close>

abbreviation (input) ATA_REG_DATA :: u32 where "ATA_REG_DATA \<equiv> 0"
abbreviation (input) ATA_REG_COUNT :: u32 where "ATA_REG_COUNT \<equiv> 2"
abbreviation (input) ATA_REG_SECTOR :: u32 where "ATA_REG_SECTOR \<equiv> 3"
abbreviation (input) ATA_REG_LCYL :: u32 where "ATA_REG_LCYL \<equiv> 4"
abbreviation (input) ATA_REG_HCYL :: u32 where "ATA_REG_HCYL \<equiv> 5"
abbreviation (input) ATA_REG_HEAD :: u32 where "ATA_REG_HEAD \<equiv> 6"
abbreviation (input) ATA_REG_STATUS :: u32 where "ATA_REG_STATUS \<equiv> 7"
abbreviation (input) ATA_REG_COMMAND :: u32 where "ATA_REG_COMMAND \<equiv> 7"
abbreviation (input) ATA_REG_DEVCTL :: u32 where "ATA_REG_DEVCTL \<equiv> 0x206"
abbreviation (input) ATA_BSY :: u8 where "ATA_BSY \<equiv> 0x80"
abbreviation (input) ATA_DRQ :: u8 where "ATA_DRQ \<equiv> 0x08"

record ide_controller =
  ide_base :: u16
  devices :: "ide_device list"

definition idectl_read :: "'s trap \<Rightarrow> ide_controller \<Rightarrow> u32 \<Rightarrow> ('s, 'z) libh_scheme \<Rightarrow> (u8 \<times> ('s, 'z) libh_scheme) option" where
  "idectl_read trap ctl reg s = do {
     (v, s) \<leftarrow> sysio trap IO_INB (ucast (ide_base ctl) + reg) 0 s;
     Some (ucast v, s)
   }"

definition idectl_read_word :: "'s trap \<Rightarrow> ide_controller \<Rightarrow> u32 \<Rightarrow> ('s, 'z) libh_scheme \<Rightarrow> (u16 \<times> ('s, 'z) libh_scheme) option" where
  "idectl_read_word trap ctl reg s = do {
     (v, s) \<leftarrow> sysio trap IO_INW (ucast (ide_base ctl) + reg) 0 s;
     Some (ucast v, s)
   }"

definition idectl_write :: "'s trap \<Rightarrow> ide_controller \<Rightarrow> u32 \<Rightarrow> u8 \<Rightarrow> ('s, 'z) libh_scheme \<Rightarrow> ('s, 'z) libh_scheme option" where
  "idectl_write trap ctl reg val s = do {
     (_, s) \<leftarrow> sysio trap IO_OUTB (ucast (ide_base ctl) + reg) (ucast val) s;
     Some s
   }"

definition idectl_write_word :: "'s trap \<Rightarrow> ide_controller \<Rightarrow> u32 \<Rightarrow> u16 \<Rightarrow> ('s, 'z) libh_scheme \<Rightarrow> ('s, 'z) libh_scheme option" where
  "idectl_write_word trap ctl reg val s = do {
     (_, s) \<leftarrow> sysio trap IO_OUTW (ucast (ide_base ctl) + reg) (ucast val) s;
     Some s
   }"

text \<open>The loop \<open>while (--elapsed)\<close>: \<open>elapsed\<close> polls are left.\<close>

fun idectl_poll :: "'s trap \<Rightarrow> ide_controller \<Rightarrow> u8 \<Rightarrow> u8 \<Rightarrow> nat \<Rightarrow> ('s, 'z) libh_scheme \<Rightarrow>
    (bool \<times> ('s, 'z) libh_scheme) option" where
  "idectl_poll trap ctl maskb valb 0 s = Some (False, s)"
| "idectl_poll trap ctl maskb valb (Suc elapsed) s = do {
     (v, s) \<leftarrow> sysio trap IO_INB (ucast (ide_base ctl) + ATA_REG_STATUS) 0 s;
     if (ucast v :: u8) AND maskb = valb then Some (True, s)
     else idectl_poll trap ctl maskb valb elapsed s
   }"

definition idectl_wait :: "'s trap \<Rightarrow> ide_controller \<Rightarrow> u8 \<Rightarrow> u8 \<Rightarrow> ('s, 'z) libh_scheme \<Rightarrow>
    (bool \<times> ('s, 'z) libh_scheme) option" where
  "idectl_wait trap ctl maskb valb s = idectl_poll trap ctl maskb valb (10000 - 1) s"

definition idectl_reset :: "'s trap \<Rightarrow> ide_controller \<Rightarrow> ('s, 'z) libh_scheme \<Rightarrow> ('s, 'z) libh_scheme option" where
  "idectl_reset trap ctl s = do {
     s \<leftarrow> idectl_write trap ctl ATA_REG_DEVCTL 0x04 s;
     (_, s) \<leftarrow> yield trap s;
     (_, s) \<leftarrow> idectl_wait trap ctl ATA_BSY ATA_BSY s;
     s \<leftarrow> idectl_write trap ctl ATA_REG_DEVCTL 0 s;
     (_, s) \<leftarrow> idectl_wait trap ctl ATA_BSY 0 s;
     Some s
   }"

definition idectl_select :: "'s trap \<Rightarrow> ide_controller \<Rightarrow> bool \<Rightarrow> ('s, 'z) libh_scheme \<Rightarrow>
    (bool \<times> ('s, 'z) libh_scheme) option" where
  "idectl_select trap ctl pos s = do {
     (status, s) \<leftarrow> idectl_read trap ctl ATA_REG_STATUS s;
     if bit status 7 \<or> bit status 3 then Some (False, s)
     else do {
       s \<leftarrow> idectl_write trap ctl ATA_REG_HEAD (0xA0 OR push_bit 4 (of_bool pos)) s;
       (status, s) \<leftarrow> idectl_read trap ctl ATA_REG_STATUS s;
       Some (\<not> (bit status 7 \<or> bit status 3), s)
     }
   }"

fun idectl_info :: "'s trap \<Rightarrow> ide_controller \<Rightarrow> nat \<Rightarrow> ('s, 'z) libh_scheme \<Rightarrow> (u16 list \<times> ('s, 'z) libh_scheme) option" where
  "idectl_info trap ctl 0 s = Some ([], s)"
| "idectl_info trap ctl (Suc n) s = do {
     (w, s) \<leftarrow> idectl_read_word trap ctl ATA_REG_DATA s;
     (ws, s) \<leftarrow> idectl_info trap ctl n s;
     Some (w # ws, s)
   }"

definition idectl_identify :: "'s trap \<Rightarrow> ide_controller \<Rightarrow> bool \<Rightarrow> ('s, 'z) libh_scheme \<Rightarrow>
    (ide_controller \<times> ('s, 'z) libh_scheme) option" where
  "idectl_identify trap ctl pos s = do {
     s \<leftarrow> idectl_write trap ctl ATA_REG_COUNT 0x95 s;
     (c, s) \<leftarrow> idectl_read trap ctl ATA_REG_COUNT s;
     if c \<noteq> 0x95 then Some (ctl, s)
     else do {
       s \<leftarrow> idectl_reset trap ctl s;
       (ok, s) \<leftarrow> idectl_select trap ctl pos s;
       if \<not> ok then Some (ctl, s)
       else do {
         (cl, s) \<leftarrow> idectl_read trap ctl ATA_REG_LCYL s;
         (ch, s) \<leftarrow> idectl_read trap ctl ATA_REG_HCYL s;
         (st, s) \<leftarrow> idectl_read trap ctl ATA_REG_STATUS s;
         let dev = idedev_init (ucast cl OR push_bit 8 (ucast ch)) st;
         devs \<leftarrow> arr_set (devices ctl) (of_bool pos) dev;
         let ctl = ctl\<lparr>devices := devs\<rparr>;
         if \<not> present dev then Some (ctl, s)
         else do {
           s \<leftarrow> idectl_write trap ctl ATA_REG_COMMAND (if atapi dev then 0xA1 else 0xEC) s;
           (_, s) \<leftarrow> idectl_wait trap ctl (ATA_BSY OR ATA_DRQ) ATA_DRQ s;
           (info, s) \<leftarrow> idectl_info trap ctl 256 s;
           dev \<leftarrow> idedev_parse_info dev info;
           devs \<leftarrow> arr_set (devices ctl) (of_bool pos) dev;
           Some (ctl\<lparr>devices := devs\<rparr>, s)
         }
       }
     }
   }"

fun idectl_fetch :: "(memory \<times> 'w) trap \<Rightarrow> ide_controller \<Rightarrow> nat \<Rightarrow> u32 \<Rightarrow> 'w alloc \<Rightarrow> 'w alloc option" where
  "idectl_fetch trap ctl 0 dest s = Some s"
| "idectl_fetch trap ctl (Suc n) dest s = do {
     (w, s) \<leftarrow> idectl_read_word trap ctl ATA_REG_DATA s;
     idectl_fetch trap ctl n (dest + 2) (sh dest w s)
   }"

fun idectl_store :: "(memory \<times> 'w) trap \<Rightarrow> ide_controller \<Rightarrow> nat \<Rightarrow> u32 \<Rightarrow> 'w alloc \<Rightarrow> 'w alloc option" where
  "idectl_store trap ctl 0 src s = Some s"
| "idectl_store trap ctl (Suc n) src s = do {
     s \<leftarrow> idectl_write_word trap ctl ATA_REG_DATA (lh src s) s;
     idectl_store trap ctl n (src + 2) s
   }"

text \<open>\<open>write\<close> is \<open>mode == IDE_WRITE\<close>; the callers pass no other mode than the two.\<close>

definition idectl_block_io :: "(memory \<times> 'w) trap \<Rightarrow> ide_controller \<Rightarrow> bool \<Rightarrow> bool \<Rightarrow> u32 \<Rightarrow> u32 \<Rightarrow> u32 \<Rightarrow>
    'w alloc \<Rightarrow> 'w alloc option" where
  "idectl_block_io trap ctl pos write start count buf s = do {
     dev \<leftarrow> arr_get (devices ctl) (of_bool pos);
     if \<not> present dev then Some s
     else do {
       (ok, s) \<leftarrow> idectl_select trap ctl pos s;
       if \<not> ok then Some s
       else do {
         geom \<leftarrow> idedev_get_geometry dev pos start;
         s \<leftarrow> idectl_write trap ctl ATA_REG_COUNT (ucast count) s;
         s \<leftarrow> idectl_write trap ctl ATA_REG_SECTOR (g_sector geom) s;
         s \<leftarrow> idectl_write trap ctl ATA_REG_LCYL (g_low geom) s;
         s \<leftarrow> idectl_write trap ctl ATA_REG_HCYL (g_high geom) s;
         s \<leftarrow> idectl_write trap ctl ATA_REG_HEAD (g_head geom) s;
         s \<leftarrow> idectl_write trap ctl ATA_REG_COMMAND (if write then 0x30 else 0x20) s;
         (_, s) \<leftarrow> idectl_wait trap ctl (ATA_BSY OR ATA_DRQ) ATA_DRQ s;
         if write then idectl_store trap ctl (unat (count * 256)) buf s
         else idectl_fetch trap ctl (unat (count * 256)) buf s
       }
     }
   }"

text \<open>The beginning of \<open>main\<close>, and one round of its loop; storing to or freeing \<open>NULL\<close> faults.\<close>

definition idehdd_start :: "(memory \<times> 'w) trap \<Rightarrow> u32 \<Rightarrow> u32 \<Rightarrow> 'w alloc \<Rightarrow> ((int + ide_controller) \<times> 'w alloc) option" where
  "idehdd_start trap name fp s = do {
     (ctl, s) \<leftarrow> idectl_identify trap \<lparr>ide_base = 0x1F0, devices = replicate 2 ide_device_zero\<rparr> False s;
     (devmgr, s) \<leftarrow> svcid_wait trap SVC_DEVMGR s;
     dev \<leftarrow> arr_get (devices ctl) 0;
     if \<not> present dev then Some (Inl 1, s)
     else do {
       (r, s) \<leftarrow> dev_register trap fp devmgr name s;
       if r < 0 then Some (Inl 1, s) else Some (Inr ctl, s)
     }
   }"

definition idehdd_serve :: "(memory \<times> 'w) trap \<Rightarrow> u32 \<Rightarrow> ide_controller \<Rightarrow> 'w alloc \<Rightarrow> 'w alloc option" where
  "idehdd_serve trap fp ctl s = do {
     let req = fp;
     let res = fp + MSG_STRUCT;
     (r, s) \<leftarrow> msg_get_waiting trap req s;
     if r < 0 then Some s
     else do {
       let s = msg_create res (lw req s) (- 1) s;
       s \<leftarrow> (if lw (req + msg_code_off) s = 0 then do {
           let len = lw (req + msg_args_off) s div 512;
           let off = lw (req + msg_args_off + 4) s div 512;
           (buf, s) \<leftarrow> malloc trap (len * 512) s;
           dassert (buf \<noteq> 0);
           s \<leftarrow> idectl_block_io trap ctl False False off len buf s;
           let s = sw (res + msg_code_off) (len * 512) s;
           let s = msg_attach_payload res buf (len * 512) s;
           (_, s) \<leftarrow> send trap res s;
           Some (free buf s)
         }
         else do { (_, s) \<leftarrow> send trap res s; Some s });
       Some (if lw (req + msg_size_off) s \<noteq> 0 then free (lw (req + msg_buf_off) s) s else s)
     }
   }"

subsection \<open>The address of a sector\<close>

text \<open>The sector that a drive takes the registers to mean.\<close>

definition geometry_sector :: "ide_device \<Rightarrow> ata_geometry \<Rightarrow> nat" where
  "geometry_sector dev g = (
     let head = unat (g_head g AND 0xF); cyl = unat (g_low g) + 256 * unat (g_high g) in
     if bit (g_head g) 6 then unat (g_sector g) + 256 * cyl + 2 ^ 24 * head
     else (cyl * unat (heads dev) + head) * unat (sectors dev) + unat (g_sector g) - 1)"
lemma low_nibble:
  fixes x :: u8
  assumes "x < 16"
  shows "(x OR push_bit 4 (of_bool pos) OR push_bit 6 (of_bool l)) AND 0xF = x"
    and "bit (x OR push_bit 4 (of_bool pos) OR push_bit 6 (of_bool l)) 4 = pos"
    and "bit (x OR push_bit 4 (of_bool pos) OR push_bit 6 (of_bool l)) 6 = l"
proof -
  have x: "x = take_bit 4 x" using assms by (simp add: word_unat_eq_iff unsigned_take_bit_eq take_bit_eq_mod word_less_nat_alt unat_mod)
  have m: "(0xF :: u8) = mask 4" by (simp add: mask_eq_exp_minus_1)
  have hi: "\<not> bit x 4" "\<not> bit x 6" by (subst x, simp add: bit_take_bit_iff)+
  show "(x OR push_bit 4 (of_bool pos) OR push_bit 6 (of_bool l)) AND 0xF = x"
    by (subst (2) x, subst m) (auto simp: bit_eq_iff bit_simps)
  show "bit (x OR push_bit 4 (of_bool pos) OR push_bit 6 (of_bool l)) 4 = pos"
    using hi by (auto simp: bit_simps)
  show "bit (x OR push_bit 4 (of_bool pos) OR push_bit 6 (of_bool l)) 6 = l"
    using hi by (auto simp: bit_simps)
qed

lemma unat_and_low:
  fixes w :: u32
  shows "unat (w AND 0xFF) = unat w mod 256" and "unat (w AND 0xF) = unat w mod 16"
proof -
  have "(0xFF :: u32) = mask 8" and "(0xF :: u32) = mask 4" by (simp_all add: mask_eq_exp_minus_1)
  then show "unat (w AND 0xFF) = unat w mod 256" and "unat (w AND 0xF) = unat w mod 16"
    by (simp_all only: flip: take_bit_eq_mask) (simp_all add: take_bit_eq_mod unat_mod)
qed

lemma unat_ucast8:
  fixes w :: u32
  shows "unat (ucast w :: u8) = unat w mod 256"
  by (simp add: unsigned_ucast_eq take_bit_eq_mod)

lemma unat_drop_bytes:
  fixes w :: u32
  shows "unat (drop_bit 8 w) = unat w div 256" and "unat (drop_bit 16 w) = unat w div 65536"
    and "unat (drop_bit 24 w) = unat w div 16777216"
  by (simp_all add: drop_bit_eq_div unat_div)

lemmas unat_bytes = unat_ucast8 unat_and_low unat_drop_bytes

lemma radix_sum:
  "n = 256 * a + r \<Longrightarrow> a = 256 * b + r' \<Longrightarrow> b = 256 * c + r'' \<Longrightarrow> r + 256 * (r' + 256 * r'') + 16777216 * c = (n :: nat)"
  by simp

lemma nat_bytes:
  fixes n :: nat
  assumes "n < 2 ^ 28"
  shows "n mod 256 + 256 * (n div 256 mod 256 + 256 * (n div 65536 mod 256)) + 16777216 * (n div 16777216 mod 16) = n"
proof -
  have d: "n div 65536 = n div 256 div 256" "n div 16777216 = n div 256 div 256 div 256"
    by (simp_all flip: div_mult2_eq)
  have "n div 16777216 < 16" using assms by simp
  then have m: "n div 16777216 mod 16 = n div 16777216" by simp
  show ?thesis unfolding m unfolding d by (rule radix_sum) simp_all
qed

lemma geometry_lba:
  assumes "lba dev" and "unat start < 2 ^ 28"
  shows "\<exists>g. idedev_get_geometry dev pos start = Some g \<and> geometry_sector dev g = unat start
           \<and> bit (g_head g) 4 = pos \<and> bit (g_head g) 6"
proof -
  let ?h = "ucast (drop_bit 24 start AND 0xF) :: u8"
  have "unat ?h = unat start div 16777216 mod 16" by (simp add: unat_bytes)
  then have "?h < 16" by (simp add: word_less_nat_alt)
  note nib = low_nibble [OF this, where pos = pos and l = True]
  let ?g = "\<lparr>g_sector = ucast (start AND 0xFF), g_head = ?h OR push_bit 4 (of_bool pos) OR push_bit 6 (of_bool True),
      g_low = ucast (drop_bit 8 start AND 0xFF), g_high = ucast (drop_bit 16 start AND 0xFF)\<rparr>"
  have "idedev_get_geometry dev pos start = Some ?g"
    using assms(1) by (simp add: idedev_get_geometry_def)
  moreover have "geometry_sector dev ?g = unat start"
    unfolding geometry_sector_def Let_def ata_geometry.simps nib
    using nat_bytes [OF assms(2)] assms(2) by (simp only: unat_bytes if_True mod_mod_trivial) simp
  ultimately show ?thesis using nib by (intro exI [of _ ?g]) (simp only: ata_geometry.simps simp_thms)
qed

lemma chs_sum:
  fixes n h s :: nat
  shows "(n div (h * s) * h + n mod (h * s) div s) * s + n mod (h * s) mod s = n"
  by (metis add.assoc add_mult_distrib div_mult_mod_eq mult.assoc)

lemma geometry_chs:
  assumes "\<not> lba dev" and "0 < heads dev" and "heads dev \<le> 16" and "0 < sectors dev" and "sectors dev \<le> 255"
    and "unat start < unat (heads dev) * unat (sectors dev) * 65536"
  shows "\<exists>g. idedev_get_geometry dev pos start = Some g \<and> geometry_sector dev g = unat start
           \<and> bit (g_head g) 4 = pos \<and> \<not> bit (g_head g) 6
           \<and> 1 \<le> unat (g_sector g) \<and> unat (g_sector g) \<le> unat (sectors dev)"
proof -
  define h s n where "h = unat (heads dev)" and "s = unat (sectors dev)" and "n = unat start"
  let ?c = "start div (heads dev * sectors dev)" and ?o = "start mod (heads dev * sectors dev)"
  let ?h = "ucast (?o div sectors dev) :: u8"
  have hs: "0 < h" "h \<le> 16" "0 < s" "s \<le> 255" "n < h * s * 65536"
    using assms by (simp_all add: h_def s_def n_def word_less_nat_alt word_le_nat_alt)
  have prod: "unat (heads dev * sectors dev) = h * s"
    using hs mult_le_mono [of h 16 s 255] by (simp add: unat_word_ariths h_def s_def)
  have nz: "heads dev * sectors dev \<noteq> 0" "sectors dev \<noteq> 0"
    using prod hs s_def by auto
  have o: "unat ?o = n mod (h * s)" and c: "unat ?c = n div (h * s)"
    by (simp_all add: unat_mod unat_div prod n_def)
  have off: "n mod (h * s) div s < h" "n mod (h * s) mod s < s"
    using hs by (simp_all add: less_mult_imp_div_less)
  have cyl: "n div (h * s) < 65536" using hs by (simp add: less_mult_imp_div_less mult.commute)
  have head: "unat ?h = n mod (h * s) div s"
    using off hs by (simp add: unat_ucast8 unat_div o flip: s_def)
  have sec: "unat (ucast (?o mod sectors dev + 1) :: u8) = n mod (h * s) mod s + 1"
  proof -
    have m: "unat (?o mod sectors dev) = n mod (h * s) mod s" by (simp only: unat_mod prod flip: s_def n_def)
    have "unat (?o mod sectors dev + 1) = n mod (h * s) mod s + 1"
      using off(2) hs(4) by (subst unat_add_lem [THEN iffD1]) (simp_all only: m unat_1, simp)
    then show ?thesis using off(2) hs(4) by (simp only: unat_ucast8) simp
  qed
  have "?h < 16" using head off hs by (simp add: word_less_nat_alt)
  note nib = low_nibble [OF this, where pos = pos and l = False]
  let ?g = "\<lparr>g_sector = ucast (?o mod sectors dev + 1), g_head = ?h OR push_bit 4 (of_bool pos) OR push_bit 6 (of_bool False),
      g_low = ucast (?c AND 0xFF), g_high = ucast (drop_bit 8 ?c AND 0xFF)\<rparr>"
  have g: "idedev_get_geometry dev pos start = Some ?g"
    using assms(1) nz by (simp add: idedev_get_geometry_def dassert_def Let_def)
  have "geometry_sector dev ?g = (n div (h * s) * h + n mod (h * s) div s) * s + (n mod (h * s) mod s + 1) - 1"
    unfolding geometry_sector_def Let_def ata_geometry.simps nib head sec
    using cyl by (simp add: unat_bytes c flip: h_def s_def)
  also have "\<dots> = n" by (simp add: chs_sum)
  finally show ?thesis using g nib sec off
    by (intro exI [of _ ?g]) (simp add: n_def flip: s_def)
qed

text \<open>
  C33. The registers the disk driver programs for a sector, decoded as the drive does, give that
  sector again, by linear address below 2^28 or by cylinder, head and sector for a drive of at most
  16 heads and 255 sectors per track; the bits for the drive and for the addressing mode are the
  ones asked for.
\<close>

theorem geometry_addresses:
  assumes "if lba dev then unat start < 2 ^ 28
           else 0 < heads dev \<and> heads dev \<le> 16 \<and> 0 < sectors dev \<and> sectors dev \<le> 255 \<and>
             unat start < unat (heads dev) * unat (sectors dev) * 65536"
  shows "\<exists>g. idedev_get_geometry dev pos start = Some g \<and> geometry_sector dev g = unat start
           \<and> bit (g_head g) 4 = pos \<and> bit (g_head g) 6 = lba dev"
  using assms geometry_lba [of dev start pos] geometry_chs [of dev start pos]
  by (cases "lba dev") auto

end
