(* ===== verification/User_Witnesses.thy ===== *)
theory User_Witnesses
  imports Witnesses Debug_Log Libh_Kernel Vgatty Ps2kbd Idehdd
begin

text \<open>Instances of the properties of the C library and of the user programs.\<close>

subsection \<open>Text in memory\<close>

text \<open>Strings laid out at addresses, over memory full of zeros.\<close>

fun lay :: "(u32 \<times> u8 list) list \<Rightarrow> memory" where
  "lay [] x = 0"
| "lay ((a, bs) # r) x = (if unat (x - a) < length bs then bs ! unat (x - a) else lay r x)"

definition trace_text :: memory where
  "trace_text = lay [(0x100, [0x5B]), (0x110, [0x25, 0x63]), (0x120, [0x5D, 0x20]), (0x130, [0x0A]),
     (0x200, ascii ''src/a.c''), (0x300, ascii ''n=%4d'')]"

definition trace_lit :: "u8 list \<Rightarrow> u32" where
  "trace_lit bs = (if bs = [0x5B] then 0x100 else if bs = [0x25, 0x63] then 0x110 else if bs = [0x5D, 0x20] then 0x120 else 0x130)"

lemma trace_file: "cstr trace_text 0x200 (source_path (ascii ''src'') (ascii ''a'') (ascii ''c''))"
  by (simp add: trace_text_def source_path_def ascii_def)

lemma trace_format: "cstr trace_text 0x300 (concat (map piece_bytes [Lit 0x6E, Lit 0x3D, Conv False False 4 0x64]))"
  by code_simp

lemma trace_literals: "literals trace_lit trace_text"
  by (simp add: literals_def trace_lit_def trace_text_def ascii_def)

lemma trace_rendered: "render (\<lambda>_. []) [Lit 0x6E, Lit 0x3D, Conv False False 4 0x64] [- 7] = ascii ''n=  -7''"
  by code_simp

lemma ready_takes: "serial_takes ready_io"
  by (auto simp: serial_takes_def uart_ready_0 uart_read_def inb_def ready_io_def intro!: exI [of _ 0])

theorem debug_trace_displays_witness:
  "\<exists>c' i'. debug_trace console_sink trace_lit trace_text 0x200 0x300 [- 7] (blank_console, ready_io) = Some (c', i') \<and>
     displays c' (fold term_put (ascii ''[a] n=  -7'' @ [0x0A]) \<lparr>t_cell = (\<lambda>_ _. 0), t_x = 3, t_y = 24\<rparr>)"
proof -
  have ok: "path_ok (ascii ''src'') (ascii ''a'') (ascii ''c'')" "debug_enabled blank_console"
    "unat (0x200 :: u32) + length (source_path (ascii ''src'') (ascii ''a'') (ascii ''c'')) < 2 ^ 32"
    "format_ok trace_text (\<lambda>_. []) [Lit 0x6E, Lit 0x3D, Conv False False 4 0x64] [- 7]"
    by (simp_all add: path_ok_def ascii_def blank_console_def source_path_def num_conv_def)
  have "[0x5B] @ ascii ''a'' @ [0x5D, 0x20] @ ascii ''n=  -7'' @ [0x0A] = ascii ''[a] n=  -7'' @ [0x0A]"
    by (simp add: ascii_def)
  moreover have "(0x200 :: u32) \<noteq> 0" "(0x300 :: u32) \<noteq> 0" by simp_all
  ultimately show ?thesis
    using debug_trace_displays [OF trace_literals trace_file ok(1,3) _ _ trace_format ok(4) blank_displays ok(2) ready_takes]
    unfolding trace_rendered by metis
qed

theorem vprintf_digits_fit_witness:
  "\<exists>pos buf. vprintf_switch (\<lambda>c out. Some (c # out)) trace_text 0x64 False (- 42) [] = Some (Digits pos buf) \<and> 19 \<le> pos \<and> pos < 31 \<and>
     length buf = 32 \<and> take (31 - pos) (drop pos buf) = ascii ''-42'' \<and> buf ! 31 = 0"
proof -
  have "num_text 0x64 False (- 42) = ascii ''-42''" by code_simp
  then show ?thesis
    using vprintf_digits_fit [of "0x64" "- 42" "\<lambda>c out. Some (c # out)" trace_text False "[]"] by (simp add: num_conv_def)
qed

subsection \<open>System calls\<close>

definition calling_state :: kstate where
  "calling_state = (sample T_run empty_kmem)\<lparr>cb_handle := (\<lambda>_. Some dispatch_call_h), cb_eoi := (\<lambda>_. None)\<rparr>"

lemma in_call_callbacks:
  "in_call s xs f' \<Longrightarrow> in_call (s\<lparr>cb_handle := h, cb_eoi := e, curr_frame := Some f\<rparr>) xs f"
proof -
  have "sched_link (s\<lparr>cb_handle := h, cb_eoi := e, curr_frame := Some f\<rparr>) = sched_link s"
    by (simp add: sched_link_def fun_eq_iff thread_at_def)
  then show "in_call s xs f' \<Longrightarrow> ?thesis"
    by (simp add: in_call_def sched_ok_def sched_queue_def table_ok_def live_uid_def running_def thread_at_def)
qed

lemma calling_in_call: "in_call (calling_state\<lparr>curr_frame := Some f\<rparr>) [2, 257] f"
  unfolding calling_state_def by (rule in_call_callbacks) (rule T_run_in_call)

lemma calling_ready: "syscalls_ready calling_state"
  by (simp add: syscalls_ready_def calling_state_def sample_def syscall_table_def)

text \<open>Asking for a service with a number that does not exist.\<close>

theorem libh_abi_witness:
  "\<exists>w. svcid kernel_trap 100 \<lparr>errno = 0, sys = (zero_frame, calling_state)\<rparr> = Some (0, \<lparr>errno = ENOTAVAIL, sys = w\<rparr>)"
proof -
  have "svcid kernel_trap 100 \<lparr>errno = 0, sys = (zero_frame, calling_state)\<rparr> =
      served (\<lambda>r. r = 0) (\<lambda>_. ENOTAVAIL) 18 [100] (syscall_svcid 100) 0 id \<lparr>errno = 0, sys = (zero_frame, calling_state)\<rparr>"
    using libh_abi [OF calling_ready, of "\<lparr>errno = 0, sys = (zero_frame, calling_state)\<rparr>" zero_frame] by simp
  then show ?thesis
    by (simp add: served_def kernel_call_def syscall_svcid_def syscall_return_set_def int_callback_frame_get_def calling_state_def sample_def)
qed

theorem vmap_maps_witness:
  "\<exists>f' s'. vmap kernel_trap 0x40000000 0x2000 \<lparr>errno = 0, sys = (zero_frame, calling_state)\<rparr> =
      Some (0x40000000, \<lparr>errno = 0, sys = (f', s')\<rparr>) \<and> allocated empty_kmem 0x1000000 3 [0x40000000, 0x40001000] (km s')"
proof -
  have s: "km calling_state = empty_kmem"
     "process_at calling_state (uid_pid 2) = process_at (sample T_run empty_kmem) (uid_pid 2)"
    by (simp_all add: calling_state_def sample_def process_at_def)
  show ?thesis
    using vmap_maps [where dest = "0x40000000" and sz = "0x2000" and f = zero_frame and e = 0, OF calling_in_call calling_ready refl]
    by (simp add: s [simplified] sample_page_range page_aligned_def)
qed

subsection \<open>The heap\<close>

text \<open>A kernel that maps whatever is asked for.\<close>

definition granting :: "(memory \<times> unit) trap" where
  "granting n args w = Some (hd args, w)"

definition start_alloc :: "unit alloc" where
  "start_alloc = \<lparr>errno = 0, sys = (\<lambda>_. 0, ()), heap_base = 0, heap_top = 0\<rparr>"

lemma granting_ok: "vmap_ok granting" "vmap_grants granting"
  by (auto simp: vmap_ok_def vmap_grants_def granting_def)

theorem run_heap_disjoint_witness:
  "\<exists>live s. run_heap granting [Malloc 100, Malloc 3000, Free 1, Malloc 8] [] (malloc_initialize 0x8000000 start_alloc) = Some (live, s) \<and>
     (\<forall>(p, sz) \<in> set live. 8 dvd unat p \<and> 0x8000008 \<le> unat p \<and> unat p + unat sz \<le> unat (heap_top s)) \<and>
     (\<forall>i j. i < j \<and> j < length live \<longrightarrow>
        unat (fst (live ! i)) + unat (snd (live ! i)) \<le> unat (fst (live ! j)) \<or>
        unat (fst (live ! j)) + unat (snd (live ! j)) \<le> unat (fst (live ! i))) \<and> length live = 2"
  using run_heap_disjoint [OF granting_ok(1), of "0x8000000" "[Malloc 100, Malloc 3000, Free 1, Malloc 8]" start_alloc]
  by (simp add: granting_ok(2) flip: numeral_2_eq_2 del: run_heap.simps)

theorem find_fit_ends_witness:
  "find_fit 16 (malloc_initialize 8 start_alloc) = Some 0"
proof -
  have "heap_inv (malloc_initialize 8 start_alloc) []" by (simp add: heap_inv_def malloc_initialize_def)
  from find_fit_ends [OF this, of 16] show ?thesis by simp
qed

subsection \<open>Drivers\<close>

definition screen_alloc :: "unit alloc" where
  "screen_alloc = start_alloc\<lparr>sys := (trace_text, ())\<rparr>"

lemma trace_text_high: "0x1000 \<le> unat x \<Longrightarrow> trace_text x = 0"
  by (auto simp: trace_text_def ascii_def unat_sub_if')

lemma screen_view: "displays (view (0, 0) screen_alloc) \<lparr>t_cell = (\<lambda>_ _. 0), t_x = 0, t_y = 0\<rparr>"
proof -
  have "vm_get (of_nat i) screen_alloc = 0" if "i < 2000" for i
  proof -
    have "unat (of_nat i :: u32) = i" using that by (intro unat_nat) simp
    then have "unat (0x10000000 + 2 * of_nat i :: u32) = 0x10000000 + 2 * i"
        "unat (0x10000000 + 2 * of_nat i + 1 :: u32) = 0x10000000 + 2 * i + 1"
      using that by (simp_all add: unat_word_ariths)
    then show ?thesis
      by (simp add: vm_get_def lh_def screen_alloc_def umem_def trace_text_high)
  qed
  then show ?thesis by (simp add: displays_def console_inv_def view_def del: of_nat_add of_nat_mult)
qed

theorem puts_displays_witness:
  "\<exists>cur' s'. puts 0 0x200 (0, 0) screen_alloc = Some (cur', s') \<and>
     displays (view cur' s') (fold vt_put (source_path (ascii ''src'') (ascii ''a'') (ascii ''c'')) \<lparr>t_cell = (\<lambda>_ _. 0), t_x = 0, t_y = 0\<rparr>) \<and>
     same_outside_screen screen_alloc s'"
proof (rule puts_displays [OF screen_view])
  show "cstr (umem screen_alloc) 0x200 (source_path (ascii ''src'') (ascii ''a'') (ascii ''c''))"
    using trace_file by (simp add: screen_alloc_def umem_def)
  show "off_screen 0x200 (length (source_path (ascii ''src'') (ascii ''a'') (ascii ''c'')))"
    by (auto simp: off_screen_def source_path_def ascii_def unat_word_ariths unat_of_nat)
  show "source_path (ascii ''src'') (ascii ''a'') (ascii ''c'') = [] \<or> hd (source_path (ascii ''src'') (ascii ''a'') (ascii ''c'')) \<noteq> 0x1B"
    by (simp add: source_path_def ascii_def)
qed

definition typing :: kbd where
  "typing = \<lparr>active_map = Some scanmode2_qwerty, active_state = STATE_NONE, key_states = (replicate 256 False)[141 := True]\<rparr>"

theorem kbd_letters_witness:
  "\<exists>k'. kbd_decode 0x1C typing = Some (0x41, k') \<and> kbd_inv k' \<and> active_state k' = STATE_NONE \<and> shifted k' \<and> \<not> held_key CAPL k'"
proof -
  have "scanmode2_qwerty ! 28 = 0x61" by code_simp
  then show ?thesis using kbd_letters [of typing "0x1C" "0x61"]
    by (simp add: kbd_inv_def typing_def shifted_def held_key_def IS_LETTER_def)
qed

theorem keys_read_back_witness:
  "\<exists>b b' s'. key_pushes [0x61, 0x62, 0x63] keybuf_boot = Some b \<and> key_drain 2 0x1000 0 b start_alloc = Some (2, b', s') \<and>
     umem s' 0x1000 = 0x63 \<and> umem s' 0x1001 = 0x62"
proof -
  obtain b b' s' where "key_pushes [0x61, 0x62, 0x63] keybuf_boot = Some b" "key_drain 2 0x1000 0 b start_alloc = Some (2, b', s')"
      and m: "\<forall>j<2. umem s' (0x1000 + of_nat j) = rev [0x61, 0x62, 0x63] ! j"
    using keys_read_back [of "0x1000" "[0x61, 0x62, 0x63]" 2 start_alloc] by auto
  moreover have "umem s' 0x1000 = 0x63" "umem s' 0x1001 = 0x62"
    using m [rule_format, of 0] m [rule_format, of 1] by simp_all
  ultimately show ?thesis by blast
qed

theorem geometry_addresses_witness:
  "\<exists>g. idedev_get_geometry (ide_device_zero\<lparr>heads := 16, sectors := 63, cylinders := 1024\<rparr>) True 100000 = Some g \<and>
     geometry_sector (ide_device_zero\<lparr>heads := 16, sectors := 63, cylinders := 1024\<rparr>) g = 100000 \<and> bit (g_head g) 4 \<and> \<not> bit (g_head g) 6"
  using geometry_addresses [of "ide_device_zero\<lparr>heads := 16, sectors := 63, cylinders := 1024\<rparr>" "100000" True]
  by (simp add: ide_device_zero_def)

end
