(* ===== verification/Heap_Client.thy ===== *)
theory Heap_Client
  imports User_Msg
begin

text \<open>
  What a program may rely on of its heap: the memory it \<^emph>\<open>keeps\<close>, which is everything below the heap and
  the blocks handed out to it, is its own to write, and is not changed by later allocations.
\<close>

subsection \<open>Strings and fields\<close>

lemma cstr_agree:
  "\<lbrakk>cstr m p bs; \<And>i. i \<le> length bs \<Longrightarrow> m' (p + of_nat i) = m (p + of_nat i)\<rbrakk> \<Longrightarrow> cstr m' p bs"
proof (induction bs arbitrary: p)
  case Nil
  then show ?case using Nil.prems(2) [of 0] by simp
next
  case (Cons b bs)
  have "cstr m' (p + 1) bs"
    using Cons.prems(1) Cons.prems(2) [of "Suc _"] by (intro Cons.IH) (simp_all add: add.assoc)
  then show ?case using Cons.prems(1) Cons.prems(2) [of 0] by simp
qed

text \<open>Copying a string to memory that is apart from it.\<close>

lemma strcpy_fresh:
  assumes "cstr m src n" and "\<And>i. i \<le> length n \<Longrightarrow> K \<le> unat (src + of_nat i - p)" and "0 < K"
  shows "\<exists>m'. strcpy p src m = Some (p, m') \<and> cstr m' p n \<and> (\<forall>x. length n < unat (x - p) \<longrightarrow> m' x = m x)"
proof (rule strcpy_cstr [OF assms(1)], rule ccontr)
  assume "\<not> length n < unat (p - src)"
  then show False using assms(2) [of "unat (p - src)"] assms(3) by simp
qed

text \<open>A field of a structure at \<open>p\<close>: bytes outside of it are not changed by storing to it.\<close>

lemma st32_field:
  fixes x p :: u32
  assumes "unat (x - p) < k \<or> k + 4 \<le> unat (x - p)" and "k + 4 \<le> 4294967296"
  shows "st32 m (p + of_nat k) w x = m x"
proof -
  define y where "y = x - p"
  have "unat (of_nat k :: u32) = k" using assms(2) by (intro unat_nat) simp
  then have "4 \<le> unat (y - of_nat k)"
    using assms unat32_less [of y] by (auto simp: unat_sub_if' simp flip: y_def)
  then show ?thesis by (intro st32_byte_other) (simp add: y_def diff_diff_eq)
qed

lemma field_aligned:
  assumes "8 dvd unat p" and "unat p + k < 4294967296" and "4 dvd k"
  shows "word_aligned (p + of_nat k)"
proof -
  have "unat (p + of_nat k) = unat p + k" using assms(2) by (simp add: unat_word_ariths unat_nat)
  moreover have "4 dvd unat p" using assms(1) by (rule dvd_trans [of 4 8, rotated]) simp
  ultimately show ?thesis using assms(3) by (simp add: word_aligned_def mod_eq_0_iff_dvd)
qed

subsection \<open>Memory that is kept\<close>

definition kept :: "'w alloc \<Rightarrow> blocks \<Rightarrow> u32 \<Rightarrow> bool" where
  "kept s bs x \<longleftrightarrow> unat x < unat (heap_base s) \<or>
     (\<exists>(a, l) \<in> used (unat (heap_base s)) bs. a + 8 \<le> unat x \<and> unat x < a + l)"

lemma kept_set_umem [simp]: "kept (set_umem m s) bs x = kept s bs x"
  by (simp add: kept_def)

lemma heap_at_payload:
  "\<lbrakk>heap_at m h bs; h + heap_len bs < 4294967296;
    \<And>x. m' x \<noteq> m x \<Longrightarrow> unat x < h \<or> (\<exists>(a, l) \<in> used h bs. a + 8 \<le> unat x \<and> unat x < a + l)\<rbrakk> \<Longrightarrow>
   heap_at m' h bs"
proof (induction m h bs rule: heap_at.induct)
  case (2 m h n u bs)
  have n: "8 \<le> n" "h + n + heap_len bs < 4294967296" using "2.prems"(1,2) by simp_all
  have above: "h + n \<le> a" if "(a, l) \<in> used (h + n) bs" for a l using used_range [OF that] by simp
  have "heap_at m' (h + n) bs"
  proof (rule "2.IH")
    fix x assume "m' x \<noteq> m x"
    then show "unat x < h + n \<or> (\<exists>(a, l) \<in> used (h + n) bs. a + 8 \<le> unat x \<and> unat x < a + l)"
      using "2.prems"(3) [of x] by (auto split: if_splits)
  qed (use "2.prems"(1) n in simp_all)
  moreover have "m' (of_nat h + of_nat i) = m (of_nat h + of_nat i)" if "i < 4" for i
  proof -
    have x: "unat (of_nat h + of_nat i :: u32) = h + i"
      using unat_nat [of "h + i"] that n by simp
    have no: "\<not> a + 8 \<le> h + i" if "(a, l) \<in> used h ((n, u) # bs)" for a l
      using that above \<open>i < 4\<close> n(1) by (fastforce split: if_splits)
    show ?thesis
    proof (rule ccontr)
      assume "\<not> ?thesis"
      from "2.prems"(3) [OF this] obtain a l where "(a, l) \<in> used h ((n, u) # bs)" "a + 8 \<le> h + i"
        unfolding x by (auto simp del: used.simps)
      with no show False by blast
    qed
  qed
  then have "ld32 m' (of_nat h) = ld32 m (of_nat h)" by (rule ld32_agree)
  ultimately show ?case using "2.prems"(1) by simp
qed simp

lemma kept_write:
  assumes "heap_inv s bs" and "\<And>x. m' x \<noteq> umem s x \<Longrightarrow> kept s bs x"
  shows "heap_inv (set_umem m' s) bs"
proof -
  have "heap_at m' (unat (heap_base s)) bs"
  proof (rule heap_at_payload)
    show "heap_at (umem s) (unat (heap_base s)) bs" "unat (heap_base s) + heap_len bs < 4294967296"
      using assms(1) unat32_less [of "heap_top s"] by (simp_all add: heap_inv_def)
    show "unat x < unat (heap_base s) \<or> (\<exists>(a, l) \<in> used (unat (heap_base s)) bs. a + 8 \<le> unat x \<and> unat x < a + l)"
      if "m' x \<noteq> umem s x" for x
      using assms(2) [OF that] by (simp only: kept_def)
  qed
  then show ?thesis using assms(1) by (simp add: heap_inv_def)
qed

lemma malloc_fresh:
  assumes inv: "heap_inv s bs" and v: "vmap_ok trap" "vmap_grants trap" and sz: "unat sz + 15 < 4294967296"
    and top: "unat (heap_top s) + page_bytes (block_bytes sz) < 4294967296"
  shows "\<exists>p s' bs'. malloc trap sz s = Some (p, s') \<and> heap_inv s' bs' \<and> heap_base s' = heap_base s \<and> p \<noteq> 0 \<and> 8 dvd unat p \<and>
     unat p + unat sz < 4294967296 \<and> unat (heap_top s') \<le> unat (heap_top s) + page_bytes (block_bytes sz) \<and>
     (\<forall>x. kept s bs x \<longrightarrow> umem s' x = umem s x \<and> unat sz \<le> unat (x - p) \<and> kept s' bs' x) \<and>
     (\<forall>x. unat (x - p) < unat sz \<longrightarrow> kept s' bs' x)"
proof -
  let ?b = "unat (heap_base s)"
  obtain p s' bs' l where m: "malloc trap sz s = Some (p, s')" "heap_inv s' bs'" "heap_base s' = heap_base s"
     "unat (heap_top s') \<le> unat (heap_top s) + page_bytes (block_bytes sz)" "p \<noteq> 0"
     "\<forall>(a, l) \<in> used ?b bs. \<forall>x. a \<le> unat x \<and> unat x < a + l \<longrightarrow> umem s' x = umem s x"
     "used ?b bs' = insert (unat p - 8, l) (used ?b bs)" "8 dvd unat p" "unat sz + 8 \<le> l"
     "\<forall>(a, n) \<in> used ?b bs. a + n \<le> unat p - 8 \<or> unat p - 8 + l \<le> a"
    using malloc_block [OF inv v(1) sz top] v(2) by auto
  have new: "(unat p - 8, l) \<in> used ?b bs'" using m(7) by simp
  have p8: "8 \<le> unat p" using m(5,8) by (metis dvd_imp_le unat_gt_0 word_neq_0_conv)
  have lim: "unat p - 8 + l < 4294967296" "?b \<le> unat p - 8"
    using used_header(3) [OF m(2)] used_range [OF new] new m(3) by simp_all
  have below: "umem s' x = umem s x" if "unat x < ?b" for x
    using malloc_below [OF inv v(1) sz top m(1) that] .
  have "umem s' x = umem s x \<and> unat sz \<le> unat (x - p) \<and> kept s' bs' x" if x: "kept s bs x" for x
  proof (cases "unat x < ?b")
    case True
    then show ?thesis using below lim m(3,9) p8 unat32_less [of x] by (auto simp: kept_def unat_sub_if')
  next
    case False
    then obtain a n where "(a, n) \<in> used ?b bs" "a + 8 \<le> unat x" "unat x < a + n" using x by (auto simp: kept_def)
    then show ?thesis using m(3,6,7,9,10) lim p8 unat32_less [of x] by (fastforce simp: kept_def unat_sub_if')
  qed
  moreover have "kept s' bs' x" if "unat (x - p) < unat sz" for x
    using that new m(3,9) lim p8 by (auto simp: kept_def unat_sub_if' split: if_splits intro!: bexI [of _ "(unat p - 8, l)"])
  ultimately show ?thesis using m lim p8 by (intro exI [of _ p] exI [of _ s'] exI [of _ bs']) simp
qed

end
