(* ===== verification/Devd.thy ===== *)
theory Devd
  imports Heap_Client
begin

text \<open>
  \<open>user/devd-all\<close>: the device manager.  \<open>device.c\<close> keeps the devices in a list on the heap, newest
  first, and \<open>main.c\<close> registers them and forwards reads and writes to their drivers.  A device
  takes 44 bytes: \<open>name\<close> at 0, \<open>uid\<close> at 32, \<open>port\<close> at 36 and \<open>next\<close> at 40.
\<close>

subsection \<open>The list of devices\<close>

abbreviation (input) DEVICE_SIZE :: u32 where "DEVICE_SIZE \<equiv> 44"
abbreviation (input) dev_uid :: u32 where "dev_uid \<equiv> 32"
abbreviation (input) dev_port :: u32 where "dev_port \<equiv> 36"
abbreviation (input) dev_next :: u32 where "dev_next \<equiv> 40"

record devd =
  device_head :: u32
  last_id :: u32

definition devd_boot :: devd where
  "devd_boot = \<lparr>device_head = 0, last_id = 1\<rparr>"

text \<open>The result of \<open>malloc\<close> is not tested; storing through \<open>NULL\<close> faults.\<close>

definition device_add :: "(memory \<times> 'w) trap \<Rightarrow> u32 \<Rightarrow> u32 \<Rightarrow> devd \<Rightarrow> 'w alloc \<Rightarrow> (devd \<times> 'w alloc) option" where
  "device_add trap name port d s = do {
     (dev, s) \<leftarrow> malloc trap DEVICE_SIZE s;
     dassert (dev \<noteq> 0);
     (_, m) \<leftarrow> strcpy dev name (umem s);
     let s = set_umem m s;
     let s = sw (dev + dev_uid) (last_id d) s;
     let s = sw (dev + dev_port) port s;
     let s = sw (dev + dev_next) (device_head d) s;
     Some (d\<lparr>last_id := last_id d + 1, device_head := dev\<rparr>, s)
   }"

partial_function (option) device_get_loop :: "u32 \<Rightarrow> memory \<Rightarrow> u32 \<Rightarrow> u32 option" where
  "device_get_loop uid m dev =
     (if dev = 0 then Some 0
      else if ld32 m (dev + dev_uid) = uid then Some dev
      else device_get_loop uid m (ld32 m (dev + dev_next)))"

definition device_get :: "u32 \<Rightarrow> devd \<Rightarrow> 'w alloc \<Rightarrow> u32 option" where
  "device_get uid d s = device_get_loop uid (umem s) (device_head d)"

partial_function (option) device_find_loop :: "u32 \<Rightarrow> memory \<Rightarrow> u32 \<Rightarrow> u32 option" where
  "device_find_loop name m dev =
     (if dev = 0 then Some 0
      else do {
        r \<leftarrow> strcmp dev name m;
        if r = 0 then Some dev else device_find_loop name m (ld32 m (dev + dev_next))
      })"

definition device_find :: "u32 \<Rightarrow> devd \<Rightarrow> 'w alloc \<Rightarrow> u32 option" where
  "device_find name d s = device_find_loop name (umem s) (device_head d)"

subsection \<open>Requests\<close>

text \<open>\<open>fp\<close> is the address of the two messages; the answer is only given its payload before it is received.\<close>

definition request_read :: "(memory \<times> 'w) trap \<Rightarrow> u32 \<Rightarrow> u32 \<Rightarrow> u32 \<Rightarrow> u32 \<Rightarrow> u32 \<Rightarrow> 'w alloc \<Rightarrow> (u32 \<times> 'w alloc) option" where
  "request_read trap fp dev off sz buffer s = do {
     let req = fp;
     let res = fp + MSG_STRUCT;
     let s = msg_create req (lw (dev + dev_port) s) 0 s;
     let s = msg_set_args req [sz, off] s;
     (_, s) \<leftarrow> send trap req s;
     (_, s) \<leftarrow> wait trap (lw req s) s;
     let s = msg_attach_payload res buffer sz s;
     (_, s) \<leftarrow> recv trap res s;
     Some (lw (res + msg_code_off) s, s)
   }"

definition request_write :: "(memory \<times> 'w) trap \<Rightarrow> u32 \<Rightarrow> u32 \<Rightarrow> u32 \<Rightarrow> u32 \<Rightarrow> u32 \<Rightarrow> 'w alloc \<Rightarrow> (u32 \<times> 'w alloc) option" where
  "request_write trap fp dev off sz buffer s = do {
     let req = fp;
     let res = fp + MSG_STRUCT;
     let s = msg_create req (lw (dev + dev_port) s) 1 s;
     let s = msg_set_args req [sz, off] s;
     let s = msg_attach_payload req buffer sz s;
     (_, s) \<leftarrow> send trap req s;
     (_, s) \<leftarrow> wait trap (lw req s) s;
     (_, s) \<leftarrow> recv trap res s;
     Some (lw (res + msg_code_off) s, s)
   }"

abbreviation (input) VFS_FSFIND :: u32 where "VFS_FSFIND \<equiv> 0"
abbreviation (input) VFS_FSREAD :: u32 where "VFS_FSREAD \<equiv> 1"
abbreviation (input) VFS_FSWRITE :: u32 where "VFS_FSWRITE \<equiv> 2"

definition devd_start :: "(memory \<times> 'w) trap \<Rightarrow> u32 \<Rightarrow> u32 \<Rightarrow> 'w alloc \<Rightarrow> ((int + devd) \<times> 'w alloc) option" where
  "devd_start trap path fp s = do {
     (filesystem, s) \<leftarrow> svcid_wait trap SVC_VFS s;
     (r, s) \<leftarrow> fs_mount trap fp filesystem path s;
     if r < 0 then Some (Inl 1, s)
     else do {
       (r, s) \<leftarrow> svcown trap SVC_DEVMGR s;
       if sint r < 0 then Some (Inl 1, s) else Some (Inr devd_boot, s)
     }
   }"

text \<open>The cases of the \<open>switch\<close> of \<open>main\<close>; \<open>req\<close> and \<open>res\<close> are on its stack, \<open>fp\<close> is the stack below.\<close>

definition devd_request :: "(memory \<times> 'w) trap \<Rightarrow> u32 \<Rightarrow> u32 \<Rightarrow> u32 \<Rightarrow> devd \<Rightarrow> 'w alloc \<Rightarrow> (devd \<times> 'w alloc) option" where
  "devd_request trap req res fp d s = do {
     let code = lw (req + msg_code_off) s;
     if code = 100 then do {
       (d, s) \<leftarrow> device_add trap (lw (req + msg_buf_off) s) (lw req s) d s;
       (_, s) \<leftarrow> send trap res (sw (res + msg_code_off) 0 s);
       Some (d, s)
     }
     else if code = VFS_FSFIND then do {
       dev \<leftarrow> device_find (lw (req + msg_buf_off) s) d s;
       let s = (if dev = 0 then s else msg_set_args res [0] (sw (res + msg_code_off) (lw (dev + dev_uid) s) s));
       (_, s) \<leftarrow> send trap res s;
       Some (d, s)
     }
     else if code = VFS_FSREAD then do {
       dev \<leftarrow> device_get (lw (req + msg_args_off) s) d s;
       if dev = 0 then do { (_, s) \<leftarrow> send trap res s; Some (d, s) }
       else do {
         let sz = lw (req + msg_args_off + 4) s;
         let off = lw (req + msg_args_off + 8) s;
         (buffer, s) \<leftarrow> malloc trap sz s;
         (bytes, s) \<leftarrow> request_read trap fp dev off sz buffer s;
         let s = sw (res + msg_code_off) bytes s;
         let s = (if sint bytes > 0 then msg_attach_payload res buffer bytes s else s);
         (_, s) \<leftarrow> send trap res s;
         dassert (buffer \<noteq> 0);
         Some (d, free buffer s)
       }
     }
     else if code = VFS_FSWRITE then do {
       dev \<leftarrow> device_get (lw (req + msg_args_off) s) d s;
       if dev = 0 then do { (_, s) \<leftarrow> send trap res s; Some (d, s) }
       else do {
         let sz = lw (req + msg_args_off + 4) s;
         let off = lw (req + msg_args_off + 8) s;
         (bytes, s) \<leftarrow> request_write trap fp dev off sz (lw (req + msg_buf_off) s) s;
         (_, s) \<leftarrow> send trap res (sw (res + msg_code_off) bytes s);
         Some (d, s)
       }
     }
     else do { (_, s) \<leftarrow> send trap res s; Some (d, s) }
   }"

text \<open>One round of the loop; the buffer is freed whenever the pointer is set, whether or not this request brought one.\<close>

definition devd_serve :: "(memory \<times> 'w) trap \<Rightarrow> u32 \<Rightarrow> devd \<Rightarrow> 'w alloc \<Rightarrow> (devd \<times> 'w alloc) option" where
  "devd_serve trap fp d s = do {
     let req = fp;
     let res = fp + MSG_STRUCT;
     (r, s) \<leftarrow> msg_get_waiting trap req s;
     if r < 0 then Some (d, s)
     else do {
       let s = msg_create res (lw req s) (- 1) s;
       (d, s) \<leftarrow> devd_request trap req res (fp - 2 * MSG_STRUCT) d s;
       Some (d, if lw (req + msg_buf_off) s \<noteq> 0 then free (lw (req + msg_buf_off) s) s else s)
     }
   }"

subsection \<open>The registry\<close>

text \<open>A device as its name, identifier, port and address, and the list in memory.\<close>

record device =
  d_name :: "u8 list"
  d_uid :: u32
  d_port :: u32
  d_addr :: u32

fun dev_chain :: "memory \<Rightarrow> u32 \<Rightarrow> device list \<Rightarrow> bool" where
  "dev_chain m a [] \<longleftrightarrow> a = 0"
| "dev_chain m a (d # ds) \<longleftrightarrow> a = d_addr d \<and> a \<noteq> 0 \<and> length (d_name d) < 32 \<and> cstr m a (d_name d) \<and>
     ld32 m (a + dev_uid) = d_uid d \<and> ld32 m (a + dev_port) = d_port d \<and> dev_chain m (ld32 m (a + dev_next)) ds"

definition address_of :: "device option \<Rightarrow> u32" where
  "address_of x = (case x of None \<Rightarrow> 0 | Some d \<Rightarrow> d_addr d)"

lemma device_get_chain:
  "dev_chain m a ds \<Longrightarrow> device_get_loop uid m a = Some (address_of (find (\<lambda>d. d_uid d = uid) ds))"
proof (induction ds arbitrary: a)
  case Nil
  then show ?case by (subst device_get_loop.simps) (simp add: address_of_def)
next
  case (Cons d ds)
  then show ?case by (subst device_get_loop.simps) (auto simp: address_of_def)
qed

lemma device_find_chain:
  "\<lbrakk>dev_chain m a ds; cstr m name n\<rbrakk> \<Longrightarrow>
   device_find_loop name m a = Some (address_of (find (\<lambda>d. d_name d = n) ds))"
proof (induction ds arbitrary: a)
  case Nil
  then show ?case by (subst device_find_loop.simps) (simp add: address_of_def)
next
  case (Cons d ds)
  then show ?case
    by (subst device_find_loop.simps) (auto simp: strcmp_cstr str_order_zero_iff address_of_def)
qed

lemma dev_chain_agree:
  "\<lbrakk>dev_chain m a ds; \<And>d i. d \<in> set ds \<Longrightarrow> i < 44 \<Longrightarrow> m' (d_addr d + of_nat i) = m (d_addr d + of_nat i)\<rbrakk> \<Longrightarrow>
   dev_chain m' a ds"
proof (induction ds arbitrary: a)
  case (Cons d ds)
  have a: "a = d_addr d" using Cons.prems(1) by simp
  have b: "m' (a + of_nat i) = m (a + of_nat i)" if "i < 44" for i using Cons.prems(2) [of d i] that a by simp
  have w: "ld32 m' (a + of_nat k) = ld32 m (a + of_nat k)" if "k \<le> 40" for k
    by (rule ld32_agree) (use b [of "k + _"] that in \<open>simp add: add.assoc\<close>)
  have "cstr m' a (d_name d)" by (rule cstr_agree [of m]) (use Cons.prems(1) b in auto)
  moreover have "dev_chain m' (ld32 m (a + dev_next)) ds" using Cons.prems by (intro Cons.IH) auto
  ultimately show ?case using Cons.prems(1) w [of 32] w [of 36] w [of 40] by auto
qed simp

lemma device_fields:
  fixes u q nx :: u32
  assumes p: "8 dvd unat p" "unat p + 44 < 4294967296" and n: "cstr m p n" "length n < 32"
  defines "m' \<equiv> st32 (st32 (st32 m (p + dev_uid) u) (p + dev_port) q) (p + dev_next) nx"
  shows "cstr m' p n" and "ld32 m' (p + dev_uid) = u" and "ld32 m' (p + dev_port) = q" and "ld32 m' (p + dev_next) = nx"
    and "\<And>x. 44 \<le> unat (x - p) \<Longrightarrow> m' x = m x"
proof -
  have al: "word_aligned (p + 32)" "word_aligned (p + 36)" "word_aligned (p + 40)"
    using field_aligned [OF p(1), of 32] field_aligned [OF p(1), of 36] field_aligned [OF p(1), of 40] p(2) by simp_all
  show "ld32 m' (p + dev_uid) = u" "ld32 m' (p + dev_port) = q" "ld32 m' (p + dev_next) = nx"
    unfolding m'_def using al by (simp_all add: ld32_st32_other)
  have far: "m' x = m x" if "unat (x - p) < 32 \<or> 44 \<le> unat (x - p)" for x
    unfolding m'_def using that st32_field [of x p 32] st32_field [of x p 36] st32_field [of x p 40] by auto
  then show "44 \<le> unat (x - p) \<Longrightarrow> m' x = m x" for x by simp
  show "cstr m' p n" by (rule cstr_agree [OF n(1)]) (use far n(2) in \<open>simp add: unat_nat\<close>)
qed

text \<open>The devices registered, newest first, in memory the server keeps; their identifiers count down from the counter to 1.\<close>

definition numbered :: "u32 \<Rightarrow> device list \<Rightarrow> bool" where
  "numbered k ds \<longleftrightarrow> 1 \<le> unat k \<and> map (unat \<circ> d_uid) ds = rev [1..<unat k]"

lemma numbered_add:
  assumes "numbered k ds" and "unat k + 1 < 2 ^ 32" and "d_uid v = k"
  shows "numbered (k + 1) (v # ds)" and "k \<notin> d_uid ` set ds"
proof -
  have "unat (k + 1) = unat k + 1" using assms(2) by (simp add: unat_word_ariths)
  then show "numbered (k + 1) (v # ds)" using assms(1,3) by (simp add: numbered_def)
  have "set (map (unat \<circ> d_uid) ds) = {1..<unat k}" using assms(1) by (simp only: numbered_def set_rev set_upt)
  then have "unat x < unat k" if "x \<in> d_uid ` set ds" for x using that by (auto simp: image_image [symmetric] simp flip: image_comp)
  then show "k \<notin> d_uid ` set ds" by blast
qed

definition registry :: "devd \<Rightarrow> 'w alloc \<Rightarrow> blocks \<Rightarrow> device list \<Rightarrow> bool" where
  "registry d s bs ds \<longleftrightarrow> heap_inv s bs \<and> dev_chain (umem s) (device_head d) ds \<and> numbered (last_id d) ds \<and>
     (\<forall>v \<in> set ds. \<forall>i<44. kept s bs (d_addr v + of_nat i))"

lemma device_add_registry:
  assumes reg: "registry d s bs ds" and v: "vmap_ok trap" "vmap_grants trap"
    and n: "cstr (umem s) name n" "length n < 32" "\<And>i. i \<le> length n \<Longrightarrow> kept s bs (name + of_nat i)"
    and top: "unat (heap_top s) + 4096 < 2 ^ 32" and ids: "unat (last_id d) + 1 < 2 ^ 32"
  shows "\<exists>p d' s' bs'. device_add trap name port d s = Some (d', s') \<and> last_id d' = last_id d + 1 \<and>
     registry d' s' bs' (\<lparr>d_name = n, d_uid = last_id d, d_port = port, d_addr = p\<rparr> # ds) \<and>
     (\<forall>x. kept s bs x \<longrightarrow> umem s' x = umem s x \<and> kept s' bs' x)"
proof -
  have pg: "page_bytes (block_bytes DEVICE_SIZE) = 4096" by (simp add: page_bytes_def block_bytes_def)
  obtain p s1 bs1 where m: "malloc trap DEVICE_SIZE s = Some (p, s1)" "heap_inv s1 bs1" "p \<noteq> 0" "8 dvd unat p"
      "unat p + 44 < 4294967296" "\<And>x. kept s bs x \<Longrightarrow> umem s1 x = umem s x \<and> 44 \<le> unat (x - p) \<and> kept s1 bs1 x"
      "\<And>x. unat (x - p) < 44 \<Longrightarrow> kept s1 bs1 x"
    using malloc_fresh [of s bs trap DEVICE_SIZE] reg v top unfolding pg by (auto simp: registry_def)
  have "cstr (umem s1) name n" by (rule cstr_agree [OF n(1)]) (use m(6) n(3) in blast)
  then obtain m1 where c: "strcpy p name (umem s1) = Some (p, m1)" "cstr m1 p n"
      "\<And>x. length n < unat (x - p) \<Longrightarrow> m1 x = umem s1 x"
    using strcpy_fresh [of "umem s1" name n 44 p] m(6) [OF n(3)] by auto
  define m2 where "m2 = st32 (st32 (st32 m1 (p + dev_uid) (last_id d)) (p + dev_port) port) (p + dev_next) (device_head d)"
  note f = device_fields [where u = "last_id d" and q = port and nx = "device_head d", OF m(4,5) c(2) n(2), folded m2_def]
  have out: "m2 x = umem s1 x" if "44 \<le> unat (x - p)" for x using f(5) [OF that] c(3) [of x] that n(2) by simp
  have "heap_inv (set_umem m2 s1) bs1" by (rule kept_write [OF m(2)]) (use m(7) out not_le in blast)
  moreover have "dev_chain m2 (device_head d) ds"
    by (rule dev_chain_agree [of "umem s"]) (use reg m(6) out in \<open>auto simp: registry_def\<close>)
  ultimately have "registry (d\<lparr>last_id := last_id d + 1, device_head := p\<rparr>) (set_umem m2 s1) bs1
      (\<lparr>d_name = n, d_uid = last_id d, d_port = port, d_addr = p\<rparr> # ds)"
    using reg f(1-4) n(2) m(3,6,7) numbered_add(1) [OF _ ids] by (simp add: registry_def unat_nat)
  moreover have "device_add trap name port d s = Some (d\<lparr>last_id := last_id d + 1, device_head := p\<rparr>, set_umem m2 s1)"
    using m(1,3) c(1) by (simp add: device_add_def dassert_def sw_def m2_def)
  ultimately show ?thesis using m(6) out by (intro exI [of _ p] exI [of _ "set_umem m2 s1"]) auto
qed

text \<open>
  C14. The list of devices in memory represents a table of names, with the identifiers 1, 2, ... in
  the order of registration: registering a device with a name of less than 32 characters, when the
  kernel refuses no memory and neither the heap nor the counter reaches 2^32, returns, adds an entry
  on the heap whose identifier is the counter, different from all others, counts up, and does not
  touch the other entries; then the name and the identifier find the new entry, while every other
  name and identifier finds what it found before.
\<close>

theorem device_add_lookup:
  assumes "registry d s bs ds" and "vmap_ok trap" "vmap_grants trap"
    and "cstr (umem s) name n" "length n < 32" "\<And>i. i \<le> length n \<Longrightarrow> kept s bs (name + of_nat i)"
    and "unat (heap_top s) + 4096 < 2 ^ 32" "unat (last_id d) + 1 < 2 ^ 32"
  shows "\<exists>p d' s' bs'. device_add trap name port d s = Some (d', s') \<and> p \<noteq> 0 \<and>
     last_id d' = last_id d + 1 \<and> last_id d \<notin> d_uid ` set ds \<and>
     registry d' s' bs' (\<lparr>d_name = n, d_uid = last_id d, d_port = port, d_addr = p\<rparr> # ds) \<and>
     device_find name d' s' = Some p \<and>
     (\<forall>uid. device_get uid d' s' = Some (if uid = last_id d then p else address_of (find (\<lambda>v. d_uid v = uid) ds))) \<and>
     (\<forall>q k. cstr (umem s') q k \<and> k \<noteq> n \<longrightarrow> device_find q d' s' = Some (address_of (find (\<lambda>v. d_name v = k) ds)))"
proof -
  obtain p d' s' bs' where r: "device_add trap name port d s = Some (d', s')" "last_id d' = last_id d + 1"
      "registry d' s' bs' (\<lparr>d_name = n, d_uid = last_id d, d_port = port, d_addr = p\<rparr> # ds)"
      "\<forall>x. kept s bs x \<longrightarrow> umem s' x = umem s x \<and> kept s' bs' x"
    using device_add_registry [OF assms, of port] by blast
  have c: "dev_chain (umem s') (device_head d') (\<lparr>d_name = n, d_uid = last_id d, d_port = port, d_addr = p\<rparr> # ds)"
    using r(3) by (simp only: registry_def)
  have "cstr (umem s') name n" by (rule cstr_agree [OF assms(4)]) (use r(4) assms(6) in blast)
  then have "device_find name d' s' = Some p"
    using device_find_chain [OF c] by (simp add: device_find_def address_of_def)
  moreover have "device_get uid d' s' = Some (if uid = last_id d then p else address_of (find (\<lambda>v. d_uid v = uid) ds))" for uid
    using device_get_chain [OF c, of uid] by (auto simp: device_get_def address_of_def)
  moreover have "cstr (umem s') q k \<and> k \<noteq> n \<longrightarrow> device_find q d' s' = Some (address_of (find (\<lambda>v. d_name v = k) ds))" for q k
    using device_find_chain [OF c, of q k] by (auto simp: device_find_def)
  moreover have "p \<noteq> 0" using c by auto
  moreover have "last_id d \<notin> d_uid ` set ds"
    using numbered_add(2) [OF _ assms(8), of ds "\<lparr>d_name = n, d_uid = last_id d, d_port = port, d_addr = p\<rparr>"] assms(1) by (simp add: registry_def)
  ultimately show ?thesis using r(1-3) by blast
qed

end
