(* ===== verification/Vfsd.thy ===== *)
theory Vfsd
  imports Devd
begin

text \<open>
  \<open>user/vfsd-all\<close>: the file system server.  \<open>node.c\<close> keeps a tree of names on the heap that is filled in
  by asking the servers mounted in it, and \<open>main.c\<close> holds the open files of each process and passes
  reads and writes on.  A node takes 52 bytes: \<open>name\<close> at 0, \<open>owner\<close> at 32, \<open>uid\<close> at 36, \<open>type\<close> at
  40, \<open>next\<close> at 44 and \<open>children\<close> at 48.
\<close>

subsection \<open>Nodes\<close>

abbreviation (input) NODE_SIZE :: u32 where "NODE_SIZE \<equiv> 52"
abbreviation (input) node_owner :: u32 where "node_owner \<equiv> 32"
abbreviation (input) node_uid :: u32 where "node_uid \<equiv> 36"
abbreviation (input) node_type :: u32 where "node_type \<equiv> 40"
abbreviation (input) node_next :: u32 where "node_next \<equiv> 44"
abbreviation (input) node_children :: u32 where "node_children \<equiv> 48"

abbreviation (input) NODE_FILE :: u32 where "NODE_FILE \<equiv> 0"
abbreviation (input) NODE_DIR :: u32 where "NODE_DIR \<equiv> 1"
abbreviation (input) NODE_VIRT :: u32 where "NODE_VIRT \<equiv> 2"
abbreviation (input) NODE_MOUNT :: u32 where "NODE_MOUNT \<equiv> 3"

abbreviation (input) VFS_OPEN :: u32 where "VFS_OPEN \<equiv> 1"
abbreviation (input) VFS_DIRECT :: u32 where "VFS_DIRECT \<equiv> 2"
abbreviation (input) VFS_READ :: u32 where "VFS_READ \<equiv> 3"
abbreviation (input) VFS_WRITE :: u32 where "VFS_WRITE \<equiv> 4"

definition node_add :: "(memory \<times> 'w) trap \<Rightarrow> u32 \<Rightarrow> u32 \<Rightarrow> 'w alloc \<Rightarrow> (u32 \<times> 'w alloc) option" where
  "node_add trap parent name s = do {
     (node, s) \<leftarrow> malloc trap NODE_SIZE s;
     dassert (node \<noteq> 0);
     let s = set_umem (snd (memset node 0 NODE_SIZE (umem s))) s;
     (_, m) \<leftarrow> strcpy node name (umem s);
     let s = set_umem m s;
     let s = sw (node + node_owner) (lw (parent + node_owner) s) s;
     let s = sw (node + node_next) (lw (parent + node_children) s) s;
     let s = sw (parent + node_children) node s;
     Some (node, s)
   }"

text \<open>\<open>fp\<close> is the address of the two messages.\<close>

definition node_request :: "(memory \<times> 'w) trap \<Rightarrow> u32 \<Rightarrow> u32 \<Rightarrow> u32 \<Rightarrow> bool \<Rightarrow> 'w alloc \<Rightarrow> (u32 \<times> 'w alloc) option" where
  "node_request trap fp parent name virt s =
     (if virt \<and> lw (parent + node_type) s = NODE_VIRT then do {
        (node, s) \<leftarrow> node_add trap parent name s;
        Some (node, sw (node + node_type) NODE_VIRT s)
      }
      else if lw (parent + node_owner) s = 0 then Some (0, s)
      else do {
        let req = fp;
        let res = fp + MSG_STRUCT;
        let s = msg_create req (lw (parent + node_owner) s) VFS_FSFIND s;
        let s = msg_set_args req [lw (parent + node_uid) s] s;
        n \<leftarrow> strlen name (umem s);
        let s = msg_attach_payload req name (n + 1) s;
        (_, s) \<leftarrow> send trap req s;
        (_, s) \<leftarrow> wait trap (lw req s) s;
        (_, s) \<leftarrow> recv trap res s;
        if lw (res + msg_code_off) s = - 1 then Some (0, s)
        else do {
          (node, s) \<leftarrow> node_add trap parent name s;
          let s = sw (node + node_uid) (lw (res + msg_code_off) s) s;
          Some (node, sw (node + node_type) (if lw (res + msg_args_off) s = 0 then NODE_FILE else NODE_DIR) s)
        }
      })"

text \<open>The inner loop of \<open>node_find\<close>: only the first \<open>complen\<close> bytes of a name are compared.\<close>

partial_function (option) node_child :: "memory \<Rightarrow> u32 \<Rightarrow> u32 \<Rightarrow> u32 \<Rightarrow> u32 option" where
  "node_child m path complen child =
     (if child = 0 then Some 0
      else if memcmp child path complen m = 0 then Some child
      else node_child m path complen (ld32 m (child + node_next)))"

text \<open>The array \<open>name\<close> is at \<open>fp\<close>; copying more than its 32 bytes is undefined.\<close>

partial_function (option) node_find_loop ::
    "(memory \<times> 'w) trap \<Rightarrow> u32 \<Rightarrow> u32 \<Rightarrow> bool \<Rightarrow> u32 \<Rightarrow> u32 \<Rightarrow> 'w alloc \<Rightarrow> (u32 \<times> 'w alloc) option" where
  "node_find_loop trap fp path_end virt parent path s =
     (if parent \<noteq> 0 \<and> path \<noteq> path_end + 1 then do {
        c \<leftarrow> strchr path 0x2F (umem s);
        let component = (if c \<noteq> 0 then c else path_end);
        let complen = component - path;
        child \<leftarrow> node_child (umem s) path complen (lw (parent + node_children) s);
        (child, s) \<leftarrow> (if child = 0 then do {
            dassert (complen \<le> 32);
            let s = set_umem (snd (memset fp 0 32 (umem s))) s;
            let s = set_umem (snd (memcpy fp path complen (umem s))) s;
            node_request trap (fp - 2 * MSG_STRUCT) parent fp virt s
          }
          else Some (child, s));
        node_find_loop trap fp path_end virt child (component + 1) s
      }
      else Some (parent, s))"

definition node_find :: "(memory \<times> 'w) trap \<Rightarrow> u32 \<Rightarrow> u32 \<Rightarrow> u32 \<Rightarrow> bool \<Rightarrow> 'w alloc \<Rightarrow> (u32 \<times> 'w alloc) option" where
  "node_find trap fp parent path virt s =
     (if lb path s = 0 then Some (parent, s)
      else do {
        path_end \<leftarrow> strchr path 0 (umem s);
        node_find_loop trap fp path_end virt parent path s
      })"

subsection \<open>Open files\<close>

record file_table =
  ft_count :: u32
  ft_nodes :: "u32 list"

type_synonym vfs = "file_table list"

definition vfs_boot :: vfs where
  "vfs_boot = replicate 1024 \<lparr>ft_count = 0, ft_nodes = replicate 8 0\<rparr>"

text \<open>\<open>root\<close> is the address of \<open>root_node\<close>.\<close>

definition mount_add :: "(memory \<times> 'w) trap \<Rightarrow> u32 \<Rightarrow> u32 \<Rightarrow> u32 \<Rightarrow> u32 \<Rightarrow> u32 \<Rightarrow> 'w alloc \<Rightarrow> (u32 \<times> 'w alloc) option" where
  "mount_add trap root fp path name owner s = do {
     (parent, s) \<leftarrow> node_find trap fp root (path + 1) True s;
     if parent = 0 \<or> lw (parent + node_type) s \<noteq> NODE_VIRT then Some (0, s)
     else do {
       (node, s) \<leftarrow> node_add trap parent name s;
       let s = sw (node + node_type) NODE_MOUNT s;
       Some (node, sw (node + node_owner) owner s)
     }
   }"

text \<open>The slot of the first unused entry; \<open>None\<close> is the \<open>-1\<close> that the code then uses as an index.\<close>

fun file_slot :: "u32 list \<Rightarrow> nat \<Rightarrow> nat option" where
  "file_slot [] i = None"
| "file_slot (n # ns) i = (if n \<noteq> 0 then file_slot ns (Suc i) else Some i)"

definition file_open :: "u32 \<Rightarrow> nat \<Rightarrow> vfs \<Rightarrow> (int \<times> vfs) option" where
  "file_open node target v = do {
     table \<leftarrow> arr_get v target;
     if ft_count table \<ge> 8 then Some (- 1, v)
     else do {
       slot \<leftarrow> file_slot (ft_nodes table) 0;
       ns \<leftarrow> arr_set (ft_nodes table) slot node;
       v \<leftarrow> arr_set v target (table\<lparr>ft_nodes := ns, ft_count := ft_count table + 1\<rparr>);
       Some (int slot, v)
     }
   }"

definition file_read :: "(memory \<times> 'w) trap \<Rightarrow> u32 \<Rightarrow> u32 \<Rightarrow> u32 \<Rightarrow> u32 \<Rightarrow> u32 \<Rightarrow> 'w alloc \<Rightarrow> (u32 \<times> 'w alloc) option" where
  "file_read trap fp node data sz off s = do {
     let req = fp;
     let res = fp + MSG_STRUCT;
     let s = msg_create req (lw (node + node_owner) s) VFS_FSREAD s;
     let s = msg_set_args req [lw (node + node_uid) s, sz, off] s;
     (_, s) \<leftarrow> send trap req s;
     (_, s) \<leftarrow> wait trap (lw req s) s;
     let s = msg_attach_payload res data sz s;
     (_, s) \<leftarrow> recv trap res s;
     Some (lw (res + msg_code_off) s, s)
   }"

definition file_write :: "(memory \<times> 'w) trap \<Rightarrow> u32 \<Rightarrow> u32 \<Rightarrow> u32 \<Rightarrow> u32 \<Rightarrow> u32 \<Rightarrow> 'w alloc \<Rightarrow> (u32 \<times> 'w alloc) option" where
  "file_write trap fp node data sz off s = do {
     let req = fp;
     let res = fp + MSG_STRUCT;
     let s = msg_create req (lw (node + node_owner) s) VFS_FSWRITE s;
     let s = msg_set_args req [lw (node + node_uid) s, sz, off] s;
     let s = msg_attach_payload req data sz s;
     (_, s) \<leftarrow> send trap req s;
     (_, s) \<leftarrow> wait trap (lw req s) s;
     (_, s) \<leftarrow> recv trap res s;
     Some (lw (res + msg_code_off) s, s)
   }"

subsection \<open>Requests\<close>

definition IPORTPROC :: "u32 \<Rightarrow> nat" where
  "IPORTPROC port = unat (port AND 0x3FF)"

text \<open>
  An open file of the caller.  The code does not test the descriptor it was sent; an index outside of the table is
  undefined in C and \<open>None\<close> here.
\<close>

definition open_node :: "vfs \<Rightarrow> u32 \<Rightarrow> u32 \<Rightarrow> u32 option" where
  "open_node v target fd = do {
     table \<leftarrow> arr_get v (IPORTPROC target);
     arr_get (ft_nodes table) (unat fd)
   }"

text \<open>
  \<open>file_tables\<close> is a static array; it is kept as a list beside the memory of the program, so a write of the code through
  a pointer into that array is not represented.  \<open>slash\<close> is the address of the literal \<open>"/"\<close>; a \<open>return\<close> of the code
  leaves the answer as it is.
\<close>

definition handle_request ::
    "(memory \<times> 'w) trap \<Rightarrow> u32 \<Rightarrow> u32 \<Rightarrow> u32 \<Rightarrow> u32 \<Rightarrow> u32 \<Rightarrow> vfs \<Rightarrow> 'w alloc \<Rightarrow> (vfs \<times> 'w alloc) option" where
  "handle_request trap root slash fp req res v s = do {
     let target = lw req s;
     let buffer = lw (req + msg_buf_off) s;
     let s = msg_create res target (- 1) s;
     let code = lw (req + msg_code_off) s;
     if code = VFS_MOUNT then do {
       path_end \<leftarrow> strrchr buffer 0x2F (umem s);
       dassert (path_end \<noteq> 0);
       let s = sb path_end 0 s;
       let path = (if path_end = buffer then slash else buffer);
       (node, s) \<leftarrow> mount_add trap root fp path (path_end + 1) target s;
       dassert (node \<noteq> 0);
       let s = sw (node + node_uid) 0 s;
       Some (v, sw (res + msg_code_off) 0 s)
     }
     else if code = VFS_OPEN then do {
       (node, s) \<leftarrow> node_find trap fp root (buffer + 1) False s;
       if node = 0 \<or> lw (node + node_type) s \<noteq> NODE_FILE then Some (v, s)
       else do {
         (fd, v) \<leftarrow> file_open node (IPORTPROC target) v;
         Some (v, sw (res + msg_code_off) (word_of_int fd) s)
       }
     }
     else if code = VFS_DIRECT then do {
       (node, s) \<leftarrow> node_find trap fp root (buffer + 1) False s;
       if node = 0 \<or> lw (node + node_type) s \<noteq> NODE_FILE then Some (v, s)
       else do {
         let s = msg_set_args res [lw (node + node_uid) s] s;
         Some (v, sw (res + msg_code_off) (lw (node + node_owner) s) s)
       }
     }
     else if code = VFS_READ then do {
       let fd = lw (req + msg_args_off) s;
       let sz = lw (req + msg_args_off + 4) s;
       let off = lw (req + msg_args_off + 8) s;
       node \<leftarrow> open_node v target fd;
       if node = 0 then Some (v, s)
       else do {
         (data, s) \<leftarrow> malloc trap sz s;
         (bytes, s) \<leftarrow> file_read trap (fp - 2 * MSG_STRUCT) node data sz off s;
         if sint bytes \<le> 0 then do { dassert (data \<noteq> 0); Some (v, free data s) }
         else do {
           let s = msg_attach_payload res data bytes s;
           Some (v, sw (res + msg_code_off) bytes s)
         }
       }
     }
     else if code = VFS_WRITE then do {
       let fd = lw (req + msg_args_off) s;
       let sz = lw (req + msg_args_off + 4) s;
       let off = lw (req + msg_args_off + 8) s;
       node \<leftarrow> open_node v target fd;
       if node = 0 then Some (v, s)
       else do {
         (bytes, s) \<leftarrow> file_write trap (fp - 2 * MSG_STRUCT) node buffer sz off s;
         Some (v, sw (res + msg_code_off) bytes s)
       }
     }
     else Some (v, s)
   }"

text \<open>\<open>name\<close> is the address of the literal \<open>"ROOT"\<close>.\<close>

definition vfsd_start :: "(memory \<times> 'w) trap \<Rightarrow> u32 \<Rightarrow> u32 \<Rightarrow> 'w alloc \<Rightarrow> ((int + vfs) \<times> 'w alloc) option" where
  "vfsd_start trap root name s = do {
     (r, s) \<leftarrow> svcown trap SVC_VFS s;
     if sint r < 0 then Some (Inl 1, s)
     else do {
       (_, m) \<leftarrow> strcpy root name (umem s);
       Some (Inr vfs_boot, sw (root + node_type) NODE_VIRT (set_umem m s))
     }
   }"

definition vfsd_serve :: "(memory \<times> 'w) trap \<Rightarrow> u32 \<Rightarrow> u32 \<Rightarrow> u32 \<Rightarrow> vfs \<Rightarrow> 'w alloc \<Rightarrow> (vfs \<times> 'w alloc) option" where
  "vfsd_serve trap root slash fp v s = do {
     let req = fp;
     let res = fp + MSG_STRUCT;
     (r, s) \<leftarrow> msg_get_waiting trap req s;
     if r < 0 then Some (v, s)
     else do {
       (v, s) \<leftarrow> handle_request trap root slash (fp - 32) req res v s;
       (_, s) \<leftarrow> send trap res s;
       let s = (if lw (res + msg_size_off) s \<noteq> 0 then free (lw (res + msg_buf_off) s) s else s);
       Some (v, if lw (req + msg_size_off) s \<noteq> 0 then free (lw (req + msg_buf_off) s) s else s)
     }
   }"

subsection \<open>The table of open files\<close>

definition table_inv :: "file_table \<Rightarrow> bool" where
  "table_inv t \<longleftrightarrow> length (ft_nodes t) = 8 \<and> unat (ft_count t) = length (filter (\<lambda>n. n \<noteq> 0) (ft_nodes t))"

lemma file_slot_first:
  "file_slot ns i = (if 0 \<in> set ns then Some (i + length (takeWhile (\<lambda>n. n \<noteq> 0) ns)) else None)"
  by (induction ns i rule: file_slot.induct) auto

lemma filter_update:
  "\<lbrakk>k < length ns; ns ! k = 0; n \<noteq> 0\<rbrakk> \<Longrightarrow>
   length (filter (\<lambda>n. n \<noteq> 0) (ns[k := n])) = Suc (length (filter (\<lambda>n. n \<noteq> (0 :: u32)) ns))"
proof (induction ns arbitrary: k)
  case (Cons a ns)
  then show ?case by (cases k) auto
qed simp

lemma first_zero:
  assumes "0 \<in> set ns"
  defines "k \<equiv> length (takeWhile (\<lambda>n. n \<noteq> 0) ns)"
  shows "k < length ns" and "ns ! k = 0" and "\<forall>j<k. ns ! j \<noteq> 0"
  using assms(1) unfolding k_def
  by (induction ns) (auto simp: nth_Cons split: nat.split)

lemma file_open_first:
  assumes "target < length v" and "list_all table_inv v" and "node \<noteq> 0"
  defines "ns \<equiv> ft_nodes (v ! target)"
  shows "if 0 \<in> set ns
    then \<exists>fd v'. file_open node target v = Some (int fd, v') \<and> fd < 8 \<and> ns ! fd = 0 \<and> (\<forall>j<fd. ns ! j \<noteq> 0) \<and>
      list_all table_inv v' \<and> length v' = length v \<and> ft_nodes (v' ! target) = ns[fd := node] \<and>
      (\<forall>i. i \<noteq> target \<longrightarrow> v' ! i = v ! i)
    else file_open node target v = Some (- 1, v)"
proof -
  have t: "length ns = 8" "unat (ft_count (v ! target)) = length (filter (\<lambda>n. n \<noteq> 0) ns)"
    using assms(1,2) by (simp_all add: list_all_length table_inv_def ns_def)
  have full: "8 \<le> ft_count (v ! target) \<longleftrightarrow> 0 \<notin> set ns"
  proof -
    have "8 \<le> length (filter (\<lambda>n. n \<noteq> 0) ns) \<longleftrightarrow> 0 \<notin> set ns"
    proof (cases "0 \<in> set ns")
      case True
      then show ?thesis using t(1) length_filter_less [of 0 ns "\<lambda>n. n \<noteq> 0"] by auto
    next
      case False
      then have "filter (\<lambda>n. n \<noteq> 0) ns = ns" by (intro filter_True) auto
      then show ?thesis using False t(1) by simp
    qed
    then show ?thesis using t(2) by (simp add: word_le_nat_alt)
  qed
  show ?thesis
  proof (cases "0 \<in> set ns")
    case True
    define fd where "fd = length (takeWhile (\<lambda>n. n \<noteq> 0) ns)"
    let ?t = "(v ! target)\<lparr>ft_nodes := ns[fd := node], ft_count := ft_count (v ! target) + 1\<rparr>"
    have fd: "fd < length ns" using first_zero(1) [OF True] by (simp add: fd_def)
    have z: "ns ! fd = 0" "\<forall>j<fd. ns ! j \<noteq> 0" using first_zero(2,3) [OF True] by (simp_all add: fd_def)
    have "unat (ft_count (v ! target) + 1) = Suc (unat (ft_count (v ! target)))"
      using full True by (simp add: word_le_nat_alt unat_word_ariths)
    then have "table_inv ?t" using t fd z(1) assms(3) by (simp add: table_inv_def filter_update)
    moreover have "file_open node target v = Some (int fd, v[target := ?t])"
      using assms(1) full True fd t(1) by (simp add: file_open_def file_slot_first ns_def [symmetric] fd_def)
    ultimately show ?thesis using True fd z t(1) assms(1,2)
      by (auto intro!: exI [of _ fd] exI [of _ "v[target := ?t]"] simp: list_all_length nth_list_update)
  next
    case False
    then show ?thesis using full assms(1) by (simp add: file_open_def)
  qed
qed

text \<open>
  C16. Opening a file takes the first free of the eight descriptors of the process, keeps the count
  of each table equal to the descriptors in use and leaves the tables of all other processes alone;
  when none is free the answer is -1 and nothing changes.
\<close>

theorem file_open_slot:
  assumes "target < length v" and "list_all table_inv v" and "node \<noteq> 0"
  defines "ns \<equiv> ft_nodes (v ! target)"
  shows "if 0 \<in> set ns
    then \<exists>fd v'. file_open node target v = Some (int fd, v') \<and> fd < 8 \<and> ns ! fd = 0 \<and> (\<forall>j<fd. ns ! j \<noteq> 0) \<and>
      list_all table_inv v' \<and> length v' = length v \<and> ft_nodes (v' ! target) = ns[fd := node] \<and>
      (\<forall>i. i \<noteq> target \<longrightarrow> v' ! i = v ! i)
    else file_open node target v = Some (- 1, v)"
  unfolding ns_def by (rule file_open_first [OF assms(1-3)])

subsection \<open>Mounting\<close>

lemma node_fields:
  fixes u c :: u32
  assumes p: "8 dvd unat p" "unat p + 52 < 4294967296" and n: "cstr m p n" "length n < 32"
    and z: "\<And>x. length n < unat (x - p) \<Longrightarrow> unat (x - p) < 52 \<Longrightarrow> m x = 0"
  defines "m' \<equiv> st32 (st32 m (p + node_owner) u) (p + node_next) c"
  shows "cstr m' p n" and "ld32 m' (p + node_owner) = u" and "ld32 m' (p + node_uid) = 0" and "ld32 m' (p + node_type) = 0"
    and "ld32 m' (p + node_next) = c" and "ld32 m' (p + node_children) = 0"
    and "\<And>x. 52 \<le> unat (x - p) \<Longrightarrow> m' x = m x"
proof -
  have al: "word_aligned (p + 32)" "word_aligned (p + 36)" "word_aligned (p + 40)" "word_aligned (p + 44)" "word_aligned (p + 48)"
    using field_aligned [OF p(1), of 32] field_aligned [OF p(1), of 36] field_aligned [OF p(1), of 40]
      field_aligned [OF p(1), of 44] field_aligned [OF p(1), of 48] p(2) by simp_all
  have zero: "ld32 m (p + of_nat k) = 0" if "length n < k" "k \<le> 48" for k
  proof -
    have "m (p + of_nat k + of_nat i) = 0" if "i < 4" for i
    proof -
      have "unat (p + of_nat k + of_nat i - p) = k + i"
        using \<open>k \<le> 48\<close> that unat_nat [of "k + i"] by (simp add: add.assoc)
      then show ?thesis using z that \<open>length n < k\<close> \<open>k \<le> 48\<close> by simp
    qed
    from this [of 0] this [of 1] this [of 2] this [of 3] show ?thesis by (simp add: ld32_def)
  qed
  show "ld32 m' (p + node_owner) = u" "ld32 m' (p + node_uid) = 0" "ld32 m' (p + node_type) = 0"
    "ld32 m' (p + node_next) = c" "ld32 m' (p + node_children) = 0"
    unfolding m'_def using al zero [of 36] zero [of 40] zero [of 48] n(2) by (simp_all add: ld32_st32_other)
  have far: "m' x = m x" if "unat (x - p) < 32 \<or> 52 \<le> unat (x - p)" for x
    unfolding m'_def using that st32_field [of x p 32] st32_field [of x p 44] by auto
  then show "52 \<le> unat (x - p) \<Longrightarrow> m' x = m x" for x by simp
  show "cstr m' p n" by (rule cstr_agree [OF n(1)]) (use far n(2) in \<open>simp add: unat_nat\<close>)
qed

lemma store_apart:
  assumes "\<And>i. i < 4 \<Longrightarrow> 52 \<le> unat (a + of_nat i - p)" and "unat (x - p) < 52"
  shows "st32 m a w x = m x"
proof (rule st32_byte_other, rule ccontr)
  assume "\<not> 4 \<le> unat (x - a)"
  then show False using assms(1) [of "unat (x - a)"] assms(2) by simp
qed

lemma node_alloc:
  assumes inv: "heap_inv s bs" and v: "vmap_ok trap" "vmap_grants trap"
    and n: "cstr (umem s) name n" "length n < 32" "\<And>i. i \<le> length n \<Longrightarrow> kept s bs (name + of_nat i)"
    and top: "unat (heap_top s) + 4096 < 2 ^ 32"
  shows "\<exists>p s1 bs1 m. malloc trap NODE_SIZE s = Some (p, s1) \<and> heap_inv s1 bs1 \<and> p \<noteq> 0 \<and> 8 dvd unat p \<and>
     unat p + 52 < 4294967296 \<and> strcpy p name (memset_mem (umem s1) p 0 52) = Some (p, m) \<and> cstr m p n \<and>
     (\<forall>x. length n < unat (x - p) \<and> unat (x - p) < 52 \<longrightarrow> m x = 0) \<and> (\<forall>x. 52 \<le> unat (x - p) \<longrightarrow> m x = umem s1 x) \<and>
     (\<forall>x. kept s bs x \<longrightarrow> m x = umem s x \<and> 52 \<le> unat (x - p) \<and> kept s1 bs1 x) \<and>
     (\<forall>x. unat (x - p) < 52 \<longrightarrow> kept s1 bs1 x)"
proof -
  have pg: "page_bytes (block_bytes NODE_SIZE) = 4096" by (simp add: page_bytes_def block_bytes_def)
  obtain p s1 bs1 where m: "malloc trap NODE_SIZE s = Some (p, s1)" "heap_inv s1 bs1" "p \<noteq> 0" "8 dvd unat p"
      "unat p + 52 < 4294967296" "\<And>x. kept s bs x \<Longrightarrow> umem s1 x = umem s x \<and> 52 \<le> unat (x - p) \<and> kept s1 bs1 x"
      "\<And>x. unat (x - p) < 52 \<Longrightarrow> kept s1 bs1 x"
    using malloc_fresh [of s bs trap NODE_SIZE] inv v top unfolding pg by auto
  define m1 where "m1 = memset_mem (umem s1) p 0 52"
  have m1: "m1 x = (if unat (x - p) < 52 then 0 else umem s1 x)" for x by (simp add: m1_def memset_mem_def)
  have "cstr m1 name n" by (rule cstr_agree [OF n(1)]) (use m(6) [OF n(3)] in \<open>auto simp: m1 not_less [symmetric]\<close>)
  then obtain m2 where c: "strcpy p name m1 = Some (p, m2)" "cstr m2 p n" "\<And>x. length n < unat (x - p) \<Longrightarrow> m2 x = m1 x"
    using strcpy_fresh [of m1 name n 52 p] m(6) [OF n(3)] by auto
  have "m2 x = umem s x" if "kept s bs x" for x using m(6) [OF that] c(3) [of x] n(2) by (simp add: m1)
  then show ?thesis using m c n(2)
    by (intro exI [of _ p] exI [of _ s1] exI [of _ bs1] exI [of _ m2]) (simp add: m1_def [symmetric] m1)
qed

text \<open>A new node comes first among the children of its parent and takes over its owner.\<close>

lemma node_add_new:
  assumes a: "heap_inv s bs" "vmap_ok trap" "vmap_grants trap"
     "cstr (umem s) name n" "length n < 32" "\<And>i. i \<le> length n \<Longrightarrow> kept s bs (name + of_nat i)"
     "unat (heap_top s) + 4096 < 2 ^ 32"
    and par: "\<And>i. i < 52 \<Longrightarrow> kept s bs (parent + of_nat i)"
  shows "\<exists>p s' bs'. node_add trap parent name s = Some (p, s') \<and> heap_inv s' bs' \<and> p \<noteq> 0 \<and>
     (\<forall>i<52. kept s' bs' (p + of_nat i)) \<and> 8 dvd unat p \<and> unat p + 52 < 4294967296 \<and> cstr (umem s') p n \<and>
     lw (p + node_owner) s' = lw (parent + node_owner) s \<and> lw (p + node_next) s' = lw (parent + node_children) s \<and>
     lw (p + node_children) s' = 0 \<and> lw (parent + node_children) s' = p \<and>
     (\<forall>x. kept s bs x \<longrightarrow> kept s' bs' x \<and> 52 \<le> unat (x - p)) \<and>
     (\<forall>x. kept s bs x \<and> 4 \<le> unat (x - (parent + node_children)) \<longrightarrow> umem s' x = umem s x)"
proof -
  obtain p s1 bs1 m2 where m: "malloc trap NODE_SIZE s = Some (p, s1)" "heap_inv s1 bs1" "p \<noteq> 0" "8 dvd unat p"
      "unat p + 52 < 4294967296" "strcpy p name (memset_mem (umem s1) p 0 52) = Some (p, m2)" "cstr m2 p n"
      "\<And>x. length n < unat (x - p) \<Longrightarrow> unat (x - p) < 52 \<Longrightarrow> m2 x = 0" "\<And>x. 52 \<le> unat (x - p) \<Longrightarrow> m2 x = umem s1 x"
      "\<And>x. kept s bs x \<Longrightarrow> m2 x = umem s x \<and> 52 \<le> unat (x - p) \<and> kept s1 bs1 x" "\<And>x. unat (x - p) < 52 \<Longrightarrow> kept s1 bs1 x"
    using node_alloc [OF a] by blast
  have word: "ld32 m2 (parent + of_nat k) = lw (parent + of_nat k) s" if "k \<le> 48" for k
    unfolding lw_def by (rule ld32_agree) (use m(10) par [of "k + _"] that in \<open>simp add: add.assoc\<close>)
  have pc: "kept s bs (parent + node_children + of_nat i)" if "i < 4" for i
    using par [of "48 + i"] that by (simp add: add.assoc)
  define m3 where "m3 = st32 (st32 m2 (p + node_owner) (lw (parent + node_owner) s)) (p + node_next) (lw (parent + node_children) s)"
  note f = node_fields [where u = "lw (parent + node_owner) s" and c = "lw (parent + node_children) s",
      OF m(4,5,7) a(5) m(8), folded m3_def]
  define m4 where "m4 = st32 m3 (parent + node_children) p"
  have own: "m4 x = m3 x" if "unat (x - p) < 52" for x
    unfolding m4_def by (rule store_apart [OF _ that]) (use m(10) [OF pc] in blast)
  have fld: "ld32 m4 (p + of_nat k) = ld32 m3 (p + of_nat k)" if "k \<le> 48" for k
    by (rule ld32_agree) (use own that unat_nat [of "k + _"] in \<open>simp add: add.assoc flip: of_nat_add\<close>)
  have keep: "m4 x = umem s x" if "kept s bs x" "4 \<le> unat (x - (parent + node_children))" for x
    using st32_byte_other [OF that(2)] f(7) m(10) [OF that(1)] by (simp add: m4_def)
  have "heap_inv (set_umem m4 s1) bs1"
  proof (rule kept_write [OF m(2)], rule ccontr)
    fix x assume "m4 x \<noteq> umem s1 x" "\<not> kept s1 bs1 x"
    moreover from this have "\<not> unat (x - (parent + node_children)) < 4"
      using m(10) [OF pc, of "unat (x - (parent + node_children))"] by auto
    ultimately show False using f(7) [of x] m(9,11) [of x] by (cases "unat (x - p) < 52") (simp_all add: m4_def st32_byte_other not_less)
  qed
  moreover have "cstr m4 p n" by (rule cstr_agree [OF f(1)]) (use a(5) in \<open>auto intro!: own simp: unat_nat\<close>)
  moreover have "ld32 (st32 m2 (p + 32) u) (parent + 48) = ld32 m2 (parent + 48)" for u
    by (rule ld32_agree) (use m(10) [OF pc] st32_field [of _ p 32 m2 u] in fastforce)
  then have "node_add trap parent name s = Some (p, set_umem m4 s1)" using m(1,3,6) word [of 32] word [of 48]
    by (simp add: node_add_def dassert_def memset_fills sw_def lw_def m3_def m4_def)
  ultimately show ?thesis
    using m(3-5,10,11) f fld [of 32] fld [of 44] fld [of 48] keep
    by (intro exI [of _ p] exI [of _ "set_umem m4 s1"] exI [of _ bs1]) (simp add: lw_def m4_def unat_nat)
qed

text \<open>
  A path of one component is looked up among the children: the first whose name starts with it is
  taken.
\<close>

lemma node_find_first:
  assumes k: "cstr (umem s) q k" "k \<noteq> []" "0x2F \<notin> set k" "length k < 32" and root: "root \<noteq> 0"
    and p: "lw (root + node_children) s = p" "p \<noteq> 0" "cstr (umem s) p (k @ r)"
  shows "node_find trap fp root q virt s = Some (p, s)"
proof -
  let ?e = "q + of_nat (length k)"
  have ne: "q \<noteq> ?e + 1"
  proof
    assume "q = ?e + 1"
    then have "of_nat (Suc (length k)) = (0 :: u32)" by (simp add: add.assoc add.commute)
    then show False using k(4) of_nat_eq [of "Suc (length k)" 0] by simp
  qed
  have slash: "strchr q 0x2F (umem s) = Some 0"
  proof -
    have "(0x2F :: u32) \<notin> scast ` set k" using scast_eq_char [of _ "0x2F"] k(3) by (auto simp: image_iff)
    then show ?thesis using strchr_cstr [OF k(1), of "0x2F"] by simp
  qed
  have "takeWhile (\<lambda>b. (scast b :: u32) \<noteq> 0) k = k"
    using cstr_nth [OF k(1)] scast_eq_char [of _ 0] by (intro takeWhile_eq_all_conv [THEN iffD2]) (auto simp: in_set_conv_nth)
  then have fin: "strchr q 0 (umem s) = Some ?e" using strchr_cstr [OF k(1), of 0] by (simp only: if_True simp_thms)
  have cmp: "memcmp p q (of_nat (length k)) (umem s) = 0"
    using cstr_nth [OF k(1)] cstr_nth [OF p(3)] k(4) by (simp add: memcmp_zero_iff unat_nat nth_append)
  have child: "node_child (umem s) q (?e - q) p = Some p"
    using cmp p(2) by (subst node_child.simps) simp
  have stop: "node_find_loop trap fp ?e virt p (?e + 1) s = Some (p, s)"
    by (subst node_find_loop.simps) simp
  have "lb q s \<noteq> 0" using k(1,2) by (cases k) (auto simp: lb_def)
  then show ?thesis
    unfolding node_find_def fin using root ne slash child stop p(1,2)
    by (simp, subst node_find_loop.simps) (simp add: Let_def)
qed

text \<open>
  C15. Mounting a file system below the root, with a name of less than 32 characters and when the
  kernel refuses no memory and the heap does not reach 2^32, returns a node of type MOUNT with the
  name and the owner given, linked in front of the other children; node_find then finds it under its
  name, and under every nonempty prefix of it as well, since only the length of the component asked
  for is compared.
\<close>

theorem mount_found:
  assumes a: "heap_inv s bs" "vmap_ok trap" "vmap_grants trap"
     "cstr (umem s) name n" "length n < 32" "\<And>i. i \<le> length n \<Longrightarrow> kept s bs (name + of_nat i)"
     "unat (heap_top s) + 4096 < 2 ^ 32"
    and root: "root \<noteq> 0" "\<And>i. i < 52 \<Longrightarrow> kept s bs (root + of_nat i)" "lw (root + node_type) s = NODE_VIRT"
    and path: "lb (slash + 1) s = 0"
  shows "\<exists>p s'. mount_add trap root fp slash name owner s = Some (p, s') \<and> p \<noteq> 0 \<and> cstr (umem s') p n \<and>
     lw (p + node_owner) s' = owner \<and> lw (p + node_type) s' = NODE_MOUNT \<and>
     lw (p + node_next) s' = lw (root + node_children) s \<and> lw (root + node_children) s' = p \<and>
     (\<forall>q k r virt. cstr (umem s') q k \<and> n = k @ r \<and> k \<noteq> [] \<and> 0x2F \<notin> set k \<longrightarrow>
        node_find trap fp root q virt s' = Some (p, s'))"
proof -
  obtain p s1 bs1 where m: "node_add trap root name s = Some (p, s1)" "p \<noteq> 0" "8 dvd unat p" "unat p + 52 < 4294967296"
      "cstr (umem s1) p n" "lw (p + node_next) s1 = lw (root + node_children) s" "lw (root + node_children) s1 = p"
      "\<And>x. kept s bs x \<Longrightarrow> 52 \<le> unat (x - p)"
    using node_add_new [OF a root(2)] by blast
  define s2 where "s2 = sw (p + node_owner) owner (sw (p + node_type) NODE_MOUNT s1)"
  have al: "word_aligned (p + 32)" "word_aligned (p + 40)" "word_aligned (p + 44)"
    using field_aligned [OF m(3), of 32] field_aligned [OF m(3), of 40] field_aligned [OF m(3), of 44] m(4) by simp_all
  have far: "umem s2 x = umem s1 x" if "unat (x - p) < 32 \<or> 52 \<le> unat (x - p)" for x
    using that st32_field [of x p 32] st32_field [of x p 40] by (auto simp: s2_def sw_def)
  have "cstr (umem s2) p n" by (rule cstr_agree [OF m(5)]) (use far a(5) in \<open>simp add: unat_nat\<close>)
  moreover have "ld32 (umem s2) (root + of_nat 48) = ld32 (umem s1) (root + of_nat 48)"
    by (rule ld32_agree) (use far m(8) root(2) [of "48 + _"] in \<open>simp add: add.assoc\<close>)
  then have ch: "lw (root + node_children) s2 = p" using m(7) by (simp add: lw_def)
  moreover have "lw (p + node_owner) s2 = owner" "lw (p + node_type) s2 = NODE_MOUNT"
      "lw (p + node_next) s2 = lw (root + node_children) s"
    using al m(6) by (simp_all add: s2_def sw_def lw_def ld32_st32_other)
  moreover have "mount_add trap root fp slash name owner s = Some (p, s2)"
    using root(1,3) path m(1) by (simp add: mount_add_def node_find_def s2_def)
  ultimately show ?thesis using m(2) a(5) node_find_first [OF _ _ _ _ root(1) ch m(2)]
    by (intro exI [of _ p] exI [of _ s2]) auto
qed

end
