(* ===== verification/Fatfs.thy ===== *)
theory Fatfs
  imports Vfsd
begin

text \<open>
  \<open>user/fatfs-all\<close>: the FAT16 file system.  \<open>fat.c\<close> follows the chains of clusters and reads
  directories and files through the disk server, and \<open>main.c\<close> serves lookups and reads.  A file is
  a structure of 44 bytes on the heap: \<open>name\<close> at 0, \<open>type\<close> at 32, \<open>cluster\<close> at 36, \<open>size\<close> at 40.
\<close>

subsection \<open>Volumes\<close>

abbreviation (input) FILE_SIZE :: u32 where "FILE_SIZE \<equiv> 44"
abbreviation (input) file_type :: u32 where "file_type \<equiv> 32"
abbreviation (input) file_cluster :: u32 where "file_cluster \<equiv> 36"
abbreviation (input) file_size :: u32 where "file_size \<equiv> 40"

text \<open>The fields of the packed boot record that the code uses, at their offsets in the first sector.\<close>

record fat_boot_record =
  sector_bytes :: u16
  cluster_sectors :: u8
  reserved_sectors :: u16
  fat_count :: u8
  dirent_count :: u16
  fat_sectors :: u16

definition boot_record_at :: "u32 \<Rightarrow> 'w alloc \<Rightarrow> fat_boot_record" where
  "boot_record_at b s = \<lparr>sector_bytes = lh (b + 11) s, cluster_sectors = lb (b + 13) s, reserved_sectors = lh (b + 14) s,
     fat_count = lb (b + 16) s, dirent_count = lh (b + 17) s, fat_sectors = lh (b + 22) s\<rparr>"

record fat_volume =
  vol_device :: u32
  vol_disk :: u32
  vol_format :: u32
  boot_record :: fat_boot_record

text \<open>The static arrays named \<open>buffer\<close>, by their addresses, and the static variables \<open>last_sector\<close> beside them.\<close>

record fat_bufs =
  read_buf :: u32
  next_buf :: u32
  dirent_buf :: u32

record fat_cache =
  read_last :: u16
  next_last :: u16
  dirent_last :: u16

definition fat_cache_boot :: fat_cache where
  "fat_cache_boot = \<lparr>read_last = - 1, next_last = - 1, dirent_last = - 1\<rparr>"

definition read_sector :: "(memory \<times> 'w) trap \<Rightarrow> u32 \<Rightarrow> fat_volume \<Rightarrow> u32 \<Rightarrow> u32 \<Rightarrow> 'w alloc \<Rightarrow> (u32 \<times> 'w alloc) option" where
  "read_sector trap fp vol sector buffer s = do {
     let req = fp;
     let res = fp + MSG_STRUCT;
     let s = msg_create req (vol_device vol) VFS_FSREAD s;
     let s = msg_set_args req [vol_disk vol, 512, sector * 512] s;
     (_, s) \<leftarrow> send trap req s;
     (_, s) \<leftarrow> wait trap (lw req s) s;
     let s = msg_attach_payload res buffer 512 s;
     (_, s) \<leftarrow> recv trap res s;
     Some (lw (res + msg_code_off) s, s)
   }"

text \<open>The array \<open>buffer\<close> of \<open>fat_init\<close> is at \<open>buf\<close>.\<close>

definition fat_init :: "(memory \<times> 'w) trap \<Rightarrow> u32 \<Rightarrow> u32 \<Rightarrow> u32 \<Rightarrow> u32 \<Rightarrow> fat_volume \<Rightarrow> 'w alloc \<Rightarrow> (fat_volume \<times> 'w alloc) option" where
  "fat_init trap fp buf device disk vol s = do {
     let vol = vol\<lparr>vol_device := device, vol_disk := disk\<rparr>;
     (_, s) \<leftarrow> read_sector trap fp vol 0 buf s;
     Some (vol\<lparr>vol_format := 1, boot_record := boot_record_at buf s\<rparr>, s)
   }"

subsection \<open>Clusters\<close>

definition next_cluster :: "(memory \<times> 'w) trap \<Rightarrow> u32 \<Rightarrow> fat_bufs \<Rightarrow> fat_volume \<Rightarrow> u16 \<Rightarrow> fat_cache \<Rightarrow> 'w alloc \<Rightarrow>
    (u16 \<times> fat_cache \<times> 'w alloc) option" where
  "next_cluster trap fp bf vol current_cluster c s = do {
     let offset = ucast current_cluster * 2;
     let sector = ucast (reserved_sectors (boot_record vol)) + offset div 512;
     (c, s) \<leftarrow> (if sector \<noteq> ucast (next_last c) then do {
         (_, s) \<leftarrow> read_sector trap fp vol sector (next_buf bf) s;
         Some (c\<lparr>next_last := ucast sector\<rparr>, s)
       }
       else Some (c, s));
     let value = lh (next_buf bf + offset mod 512) s;
     Some (if value \<ge> 0xFFF8 then - 1 else value, c, s)
   }"

text \<open>The test \<open>cluster == -1\<close> compares an unsigned 16-bit value with \<open>-1\<close> and never holds.\<close>

definition cluster_bytes :: "fat_volume \<Rightarrow> u32" where
  "cluster_bytes vol = 512 * ucast (cluster_sectors (boot_record vol))"

partial_function (option) find_cluster ::
    "(memory \<times> 'w) trap \<Rightarrow> u32 \<Rightarrow> fat_bufs \<Rightarrow> fat_volume \<Rightarrow> u16 \<Rightarrow> u32 \<Rightarrow> fat_cache \<Rightarrow> 'w alloc \<Rightarrow>
     (u16 \<times> u32 \<times> fat_cache \<times> 'w alloc) option" where
  "find_cluster trap fp bf vol cluster offset c s =
     (if offset \<ge> cluster_bytes vol then do {
        (cluster, c, s) \<leftarrow> next_cluster trap fp bf vol cluster c s;
        if (ucast cluster :: u32) = - 1 then Some (0, offset, c, s)
        else find_cluster trap fp bf vol cluster (offset - cluster_bytes vol) c s
      }
      else Some (cluster, offset, c, s))"

definition get_cluster_sector :: "fat_volume \<Rightarrow> u16 \<Rightarrow> u32 option" where
  "get_cluster_sector vol cluster = do {
     let br = boot_record vol;
     let first_sector = ucast (reserved_sectors br) + ucast (fat_count br) * ucast (fat_sectors br);
     if cluster = 0 then Some first_sector
     else do {
       dassert (sector_bytes br \<noteq> 0);
       let root_sectors = (ucast (dirent_count br) * 32 + ucast (sector_bytes br) - 1) div ucast (sector_bytes br);
       let cluster_start = (ucast cluster - 2) * ucast (cluster_sectors br);
       Some (first_sector + root_sectors + cluster_start)
     }
   }"

subsection \<open>Files\<close>

partial_function (option) fat_read_loop ::
    "(memory \<times> 'w) trap \<Rightarrow> u32 \<Rightarrow> fat_bufs \<Rightarrow> fat_volume \<Rightarrow> u32 \<Rightarrow> u32 \<Rightarrow> u32 \<Rightarrow> u32 \<Rightarrow> u32 \<Rightarrow> fat_cache \<Rightarrow> 'w alloc \<Rightarrow>
     (fat_cache \<times> 'w alloc) option" where
  "fat_read_loop trap fp bf vol ret_buffer len curr_pos cluster offset c s =
     (if curr_pos < len then do {
        (cl, offset, c, s) \<leftarrow> find_cluster trap fp bf vol (ucast cluster) offset c s;
        cluster_sector \<leftarrow> get_cluster_sector vol cl;
        let target_sector = cluster_sector + offset div 512;
        (c, s) \<leftarrow> (if target_sector \<noteq> ucast (read_last c) then do {
            (_, s) \<leftarrow> read_sector trap fp vol target_sector (read_buf bf) s;
            Some (c\<lparr>read_last := ucast target_sector\<rparr>, s)
          }
          else Some (c, s));
        let sector_offset = offset mod 512;
        let sector_length = 512 - sector_offset;
        let to_read = len - curr_pos;
        let to_read = (if to_read > sector_length then sector_length else to_read);
        let s = set_umem (snd (memcpy (ret_buffer + curr_pos) (read_buf bf + sector_offset) to_read (umem s))) s;
        fat_read_loop trap fp bf vol ret_buffer len (curr_pos + to_read) (ucast cl) (offset + to_read) c s
      }
      else Some (c, s))"

definition fat_read :: "(memory \<times> 'w) trap \<Rightarrow> u32 \<Rightarrow> fat_bufs \<Rightarrow> fat_volume \<Rightarrow> u32 \<Rightarrow> u32 \<Rightarrow> u32 \<Rightarrow> u32 \<Rightarrow> fat_cache \<Rightarrow> 'w alloc \<Rightarrow>
    (u32 \<times> fat_cache \<times> 'w alloc) option" where
  "fat_read trap fp bf vol fl offset len ret_buffer c s =
     (if offset \<ge> lw (fl + file_size) s then Some (0, c, s)
      else do {
        let len = (if offset + len > lw (fl + file_size) s then lw (fl + file_size) s - offset else len);
        (c, s) \<leftarrow> fat_read_loop trap fp bf vol ret_buffer len 0 (lw (fl + file_cluster) s) offset c s;
        Some (len, c, s)
      })"

subsection \<open>Directories\<close>

text \<open>The characters of a part of a long name; each is cut to its low byte.\<close>

fun long_name_part :: "u32 \<Rightarrow> nat \<Rightarrow> u32 \<Rightarrow> 'w alloc \<Rightarrow> 'w alloc" where
  "long_name_part src 0 dest s = s"
| "long_name_part src (Suc n) dest s = long_name_part (src + 2) n (dest + 1) (sb dest (ucast (lh src s)) s)"

text \<open>\<open>lfn\<close> is the address of \<open>long_filename\<close>; a position outside of its 256 bytes is undefined.\<close>

definition read_dirent_long :: "u32 \<Rightarrow> u32 \<Rightarrow> 'w alloc \<Rightarrow> 'w alloc option" where
  "read_dirent_long lfn dirent s = do {
     let pos = unat (lb dirent s AND 0x3F);
     dassert (1 \<le> pos \<and> pos * 13 \<le> 256);
     let name_buf = lfn + of_nat ((pos - 1) * 13);
     let s = long_name_part (dirent + 1) 5 name_buf s;
     let s = long_name_part (dirent + 14) 6 (name_buf + 5) s;
     Some (long_name_part (dirent + 28) 2 (name_buf + 11) s)
   }"

fun short_name :: "u32 \<Rightarrow> nat \<Rightarrow> u32 \<Rightarrow> 'w alloc \<Rightarrow> u32 \<times> 'w alloc" where
  "short_name src 0 dest s = (dest, s)"
| "short_name src (Suc n) dest s =
     (if lb src s = 0x20 then (dest, s)
      else short_name (src + 1) n (dest + 1) (sb dest (ucast (toupper (ucast (lb src s)))) s))"

fun short_ext :: "u32 \<Rightarrow> nat \<Rightarrow> u32 \<Rightarrow> 'w alloc \<Rightarrow> u32 \<times> 'w alloc" where
  "short_ext src 0 dest s = (dest, s)"
| "short_ext src (Suc n) dest s = short_ext (src + 1) n (dest + 1) (sb dest (ucast (toupper (ucast (lb src s)))) s)"

definition dirent_name :: "u32 \<Rightarrow> u32 \<Rightarrow> u32 \<Rightarrow> 'w alloc \<Rightarrow> 'w alloc" where
  "dirent_name lfn dirent ret_file s =
     (if lb lfn s \<noteq> 0 then sb (ret_file + 31) 0 (set_umem (snd (strncpy ret_file lfn 32 (umem s))) s)
      else
        let (curr_char, s) = short_name dirent 8 ret_file s;
            (curr_char, s) = (if bit (lb (dirent + 11) s) 4 then (curr_char, s)
                              else short_ext (dirent + 8) 3 (curr_char + 1) (sb curr_char 0x2E s))
        in sb curr_char 0 s)"

partial_function (option) read_dirent_loop ::
    "(memory \<times> 'w) trap \<Rightarrow> u32 \<Rightarrow> u32 \<Rightarrow> fat_bufs \<Rightarrow> fat_volume \<Rightarrow> u16 \<Rightarrow> u32 \<Rightarrow> u32 \<Rightarrow> u32 \<Rightarrow> fat_cache \<Rightarrow> 'w alloc \<Rightarrow>
     (u32 \<times> fat_cache \<times> 'w alloc) option" where
  "read_dirent_loop trap fp lfn bf vol cluster offset total_off ret_file c s = do {
     (cluster, offset, c, s) \<leftarrow> find_cluster trap fp bf vol cluster offset c s;
     cluster_sector \<leftarrow> get_cluster_sector vol cluster;
     let target_sector = cluster_sector + offset div 512;
     (c, s) \<leftarrow> (if target_sector \<noteq> ucast (dirent_last c) then do {
         (_, s) \<leftarrow> read_sector trap fp vol target_sector (dirent_buf bf) s;
         Some (c\<lparr>dirent_last := ucast target_sector\<rparr>, s)
       }
       else Some (c, s));
     let dirent = dirent_buf bf + offset mod 512;
     let offset = offset + 32;
     let total_off = total_off + 32;
     if lb dirent s = 0 then Some (- 1, c, s)
     else if lb dirent s = 0xE5 then read_dirent_loop trap fp lfn bf vol cluster offset total_off ret_file c s
     else if lb (dirent + 11) s AND 0xF = 0xF then do {
       s \<leftarrow> read_dirent_long lfn dirent s;
       read_dirent_loop trap fp lfn bf vol cluster offset total_off ret_file c s
     }
     else if bit (lb (dirent + 11) s) 3 then read_dirent_loop trap fp lfn bf vol cluster offset total_off ret_file c s
     else do {
       let s = dirent_name lfn dirent ret_file s;
       let s = sw (ret_file + file_type) (if bit (lb (dirent + 11) s) 4 then 1 else 0) s;
       let s = sw (ret_file + file_cluster) (ucast (lh (dirent + 26) s)) s;
       let s = sw (ret_file + file_size) (lw (dirent + 28) s) s;
       Some (total_off, c, s)
     }
   }"

definition read_dirent :: "(memory \<times> 'w) trap \<Rightarrow> u32 \<Rightarrow> u32 \<Rightarrow> fat_bufs \<Rightarrow> fat_volume \<Rightarrow> u16 \<Rightarrow> u32 \<Rightarrow> u32 \<Rightarrow> fat_cache \<Rightarrow> 'w alloc \<Rightarrow>
    (u32 \<times> fat_cache \<times> 'w alloc) option" where
  "read_dirent trap fp lfn bf vol cluster offset ret_file c s =
     read_dirent_loop trap fp lfn bf vol cluster offset 0 ret_file c (set_umem (snd (memset lfn 0 256 (umem s))) s)"

definition fat_enumerate :: "(memory \<times> 'w) trap \<Rightarrow> u32 \<Rightarrow> u32 \<Rightarrow> fat_bufs \<Rightarrow> fat_volume \<Rightarrow> u32 \<Rightarrow> u32 \<Rightarrow> u32 \<Rightarrow> fat_cache \<Rightarrow> 'w alloc \<Rightarrow>
    (u32 \<times> fat_cache \<times> 'w alloc) option" where
  "fat_enumerate trap fp lfn bf vol parent index ret_file c s = do {
     let cluster = (if parent = 0 then 0 else lw (parent + file_cluster) s);
     (cluster, offset, c, s) \<leftarrow> find_cluster trap fp bf vol (ucast cluster) index c s;
     (increment, c, s) \<leftarrow> read_dirent trap fp lfn bf vol cluster offset ret_file c s;
     Some (if increment = - 1 then - 1 else index + increment, c, s)
   }"

subsection \<open>Requests\<close>

definition get_dev_addr :: "(memory \<times> 'w) trap \<Rightarrow> u32 \<Rightarrow> u32 \<Rightarrow> u32 \<Rightarrow> 'w alloc \<Rightarrow> (u32 \<times> u32 \<times> 'w alloc) option" where
  "get_dev_addr trap fp filesystem path s = do {
     let req = fp;
     let res = fp + MSG_STRUCT;
     let s = msg_create req filesystem VFS_DIRECT s;
     n \<leftarrow> strlen path (umem s);
     let s = msg_attach_payload req path (n + 1) s;
     (_, s) \<leftarrow> send trap req s;
     (_, s) \<leftarrow> wait trap (lw req s) s;
     (_, s) \<leftarrow> recv trap res s;
     Some (lw (res + msg_code_off) s, lw (res + msg_args_off) s, s)
   }"

partial_function (option) get_dev_wait :: "(memory \<times> 'w) trap \<Rightarrow> u32 \<Rightarrow> u32 \<Rightarrow> u32 \<Rightarrow> 'w alloc \<Rightarrow> (u32 \<times> u32 \<times> 'w alloc) option" where
  "get_dev_wait trap fp filesystem path s = do {
     (device, disk, s) \<leftarrow> get_dev_addr trap fp filesystem path s;
     if device = - 1 then get_dev_wait trap fp filesystem path s else Some (device, disk, s)
   }"

text \<open>The search of a lookup: entries are read until the name is found or the directory ends.\<close>

partial_function (option) fat_lookup ::
    "(memory \<times> 'w) trap \<Rightarrow> u32 \<Rightarrow> u32 \<Rightarrow> fat_bufs \<Rightarrow> fat_volume \<Rightarrow> u32 \<Rightarrow> u32 \<Rightarrow> u32 \<Rightarrow> u32 \<Rightarrow> fat_cache \<Rightarrow> 'w alloc \<Rightarrow>
     (u32 \<times> fat_cache \<times> 'w alloc) option" where
  "fat_lookup trap fp lfn bf vol parent name fl iter c s = do {
     (iter, c, s) \<leftarrow> fat_enumerate trap fp lfn bf vol parent iter fl c s;
     if iter = - 1 then Some (iter, c, s)
     else do {
       r \<leftarrow> strcmp fl name (umem s);
       if r = 0 then Some (iter, c, s) else fat_lookup trap fp lfn bf vol parent name fl iter c s
     }
   }"

definition fatfs_start :: "(memory \<times> 'w) trap \<Rightarrow> u32 \<Rightarrow> u32 \<Rightarrow> u32 \<Rightarrow> u32 \<Rightarrow> fat_volume \<Rightarrow> 'w alloc \<Rightarrow>
    ((int + fat_volume) \<times> 'w alloc) option" where
  "fatfs_start trap fp buf dev_path mount_path vol s = do {
     (filesystem, s) \<leftarrow> svcid_wait trap SVC_VFS s;
     (device, disk, s) \<leftarrow> get_dev_wait trap fp filesystem dev_path s;
     (vol, s) \<leftarrow> fat_init trap fp buf device disk vol s;
     (r, s) \<leftarrow> fs_mount trap fp filesystem mount_path s;
     if r < 0 then Some (Inl 1, s) else Some (Inr vol, s)
   }"

text \<open>The comparison \<open>iter >= 0\<close> of an unsigned value always holds, so that a lookup never fails.\<close>

definition fatfs_request :: "(memory \<times> 'w) trap \<Rightarrow> u32 \<Rightarrow> u32 \<Rightarrow> fat_bufs \<Rightarrow> fat_volume \<Rightarrow> u32 \<Rightarrow> u32 \<Rightarrow> fat_cache \<Rightarrow> 'w alloc \<Rightarrow>
    (fat_cache \<times> 'w alloc) option" where
  "fatfs_request trap fp lfn bf vol req res c s = do {
     let code = lw (req + msg_code_off) s;
     if code = VFS_FSFIND then do {
       let parent = lw (req + msg_args_off) s;
       (fl, s) \<leftarrow> malloc trap FILE_SIZE s;
       dassert (fl \<noteq> 0);
       (iter, c, s) \<leftarrow> fat_lookup trap fp lfn bf vol parent (lw (req + msg_buf_off) s) fl 0 c s;
       let s = (if iter \<ge> 0 then sw (res + msg_args_off) (lw (fl + file_type) s) (sw (res + msg_code_off) fl s) else free fl s);
       (_, s) \<leftarrow> send trap res s;
       Some (c, s)
     }
     else if code = VFS_FSREAD then do {
       let fl = lw (req + msg_args_off) s;
       let len = lw (req + msg_args_off + 4) s;
       let off = lw (req + msg_args_off + 8) s;
       (buffer, s) \<leftarrow> malloc trap len s;
       dassert (buffer \<noteq> 0);
       (bytes, c, s) \<leftarrow> fat_read trap fp bf vol fl off len buffer c s;
       let s = sw (res + msg_code_off) bytes s;
       let s = (if sint bytes > 0 then msg_attach_payload res buffer bytes s else s);
       (_, s) \<leftarrow> send trap res s;
       Some (c, free buffer s)
     }
     else do { (_, s) \<leftarrow> send trap res s; Some (c, s) }
   }"

text \<open>One round of the loop; \<open>lfn\<close> and the frame of the callees are below the two messages.\<close>

definition fatfs_serve :: "(memory \<times> 'w) trap \<Rightarrow> u32 \<Rightarrow> fat_bufs \<Rightarrow> fat_volume \<Rightarrow> fat_cache \<Rightarrow> 'w alloc \<Rightarrow> (fat_cache \<times> 'w alloc) option" where
  "fatfs_serve trap fp bf vol c s = do {
     let req = fp;
     let res = fp + MSG_STRUCT;
     (r, s) \<leftarrow> msg_get_waiting trap req s;
     if r < 0 then Some (c, s)
     else do {
       let s = msg_create res (lw req s) (- 1) s;
       (c, s) \<leftarrow> fatfs_request trap (fp - 256 - 2 * MSG_STRUCT) (fp - 256) bf vol req res c s;
       Some (c, if lw (req + msg_size_off) s \<noteq> 0 then free (lw (req + msg_buf_off) s) s else s)
     }
   }"
subsection \<open>A disk behind the server\<close>

text \<open>
  A server at port \<open>dev\<close> that answers a read of 512 bytes of its device \<open>disk\<close> with the bytes of the disk \<open>D\<close>; the offset
  asked for is remembered when the request is sent.  No other request, and no answer into a shorter buffer, is served.
  It stands for the kernel, the device manager and the disk driver together and is what the file system is assumed to talk to.
\<close>

definition disk_trap :: "u32 \<Rightarrow> u32 \<Rightarrow> (u32 \<Rightarrow> u8) \<Rightarrow> (memory \<times> u32) trap" where
  "disk_trap dev disk D n args w = (case w of (m, off) \<Rightarrow>
     let a = hd args in
     if n = SYS_send then
       (if ld32 m a = dev \<and> ld32 m (a + msg_code_off) = VFS_FSREAD \<and> ld32 m (a + msg_args_off) = disk \<and> ld32 m (a + msg_args_off + 4) = 512
        then Some (0, m, ld32 m (a + msg_args_off + 8)) else None)
     else if n = SYS_wait then (if a = dev then Some (0, m, off) else None)
     else if n = SYS_recv \<and> ld32 m (a + msg_size_off) = 512 then
       (let buf = ld32 m (a + msg_buf_off) in
        Some (512, \<lambda>x. if unat (x - buf) < 512 then D (off + (x - buf)) else st32 m (a + msg_code_off) 512 x, off))
     else None)"

definition apart :: "u32 \<Rightarrow> nat \<Rightarrow> u32 \<Rightarrow> nat \<Rightarrow> bool" where
  "apart a n b k \<longleftrightarrow> (\<forall>i<k. n \<le> unat (b + of_nat i - a))"

lemma apartD: "apart a n b k \<Longrightarrow> unat (x - b) < k \<Longrightarrow> n \<le> unat (x - a)"
  unfolding apart_def by (drule spec [of _ "unat (x - b)"]) simp

lemma read_sector_disk:
  assumes buf: "apart fp 56 buf 512"
  shows "\<exists>s'. read_sector (disk_trap (vol_device vol) (vol_disk vol) D) fp vol sector buf s = Some (512, s') \<and>
     (\<forall>x. 56 \<le> unat (x - fp) \<longrightarrow> umem s' x = (if unat (x - buf) < 512 then D (sector * 512 + (x - buf)) else umem s x))"
proof -
  let ?m1 = "st32 (st32 (st32 (st32 (st32 (memset_mem (umem s) fp 0 28) fp (vol_device vol)) (fp + 4) 1)
      (fp + 8) (vol_disk vol)) (fp + 12) 512) (fp + 16) (sector * 512)"
  let ?m2 = "st32 (st32 ?m1 (fp + 48) buf) (fp + 52) 512"
  let ?m3 = "\<lambda>x. if unat (x - buf) < 512 then D (sector * 512 + (x - buf)) else st32 ?m2 (fp + 32) 512 x"
  have ptr: "ld32 ?m2 (fp + 48) = buf" "ld32 ?m2 (fp + 52) = 512" "ld32 ?m1 fp = vol_device vol" "ld32 ?m1 (fp + 4) = 1"
    "ld32 ?m1 (fp + 8) = vol_disk vol" "ld32 ?m1 (fp + 12) = 512" by (simp_all add: ld32_st32_near)
  have "ld32 ?m3 (fp + 32) = ld32 (st32 ?m2 (fp + 32) 512) (fp + 32)"
  proof (rule ld32_agree)
    fix i :: nat assume "i < 4"
    then have "unat (fp + 32 + of_nat i - fp) = 32 + i" using unat_nat [of "32 + i"] by (simp add: add.assoc)
    then have "\<not> unat (fp + 32 + of_nat i - buf) < 512" using apartD [OF buf, of "fp + 32 + of_nat i"] \<open>i < 4\<close> by auto
    then show "?m3 (fp + 32 + of_nat i) = st32 ?m2 (fp + 32) 512 (fp + 32 + of_nat i)" by simp
  qed
  then have code: "ld32 ?m3 (fp + 32) = 512" by simp
  have "read_sector (disk_trap (vol_device vol) (vol_disk vol) D) fp vol sector buf s = Some (512, s\<lparr>sys := (?m3, sector * 512)\<rparr>)"
    using ptr code
    by (simp add: read_sector_def msg_create_def msg_set_args_def msg_attach_payload_def memset_fills sw_def lw_def umem_def set_umem_def
        send_def wait_def recv_def syscall1_def disk_trap_def not_iserr_low Let_def add.assoc cong: if_cong)
  moreover have "?m3 x = (if unat (x - buf) < 512 then D (sector * 512 + (x - buf)) else umem s x)" if "56 \<le> unat (x - fp)" for x
    using that st32_field [of x fp 0] st32_field [of x fp 4] st32_field [of x fp 8] st32_field [of x fp 12] st32_field [of x fp 16]
      st32_field [of x fp 48] st32_field [of x fp 52] st32_field [of x fp 32] by (simp add: memset_mem_def)
  ultimately show ?thesis by (auto simp: umem_def)
qed
subsection \<open>Following a chain\<close>

text \<open>A buffer holds the sector it is said to hold; 0xFFFF stands for none.\<close>

definition cached :: "(u32 \<Rightarrow> u8) \<Rightarrow> u16 \<Rightarrow> u32 \<Rightarrow> memory \<Rightarrow> bool" where
  "cached D lst buf m \<longleftrightarrow> (lst \<noteq> - 1 \<longrightarrow> (\<forall>x. unat (x - buf) < 512 \<longrightarrow> m x = D (ucast lst * 512 + (x - buf))))"

lemma unat_ucast16: "unat (ucast (w :: u16) :: u32) = unat w" and unat16_less: "unat (w :: u16) < 65536"
proof -
  have "unat w < 2 ^ LENGTH(16)" by (rule unsigned_less)
  then show "unat w < 65536" by simp
  then show "unat (ucast w :: u32) = unat w" by (simp add: unsigned_ucast_eq take_bit_nat_eq_self)
qed

lemma ucast_sector:
  fixes sector :: u32
  assumes "unat sector < 65535"
  shows "ucast (ucast sector :: u16) = sector" and "(ucast sector :: u16) \<noteq> - 1"
proof -
  have "unat (ucast sector :: u16) = unat sector" using assms by (simp add: unsigned_ucast_eq take_bit_nat_eq_self)
  then show "ucast (ucast sector :: u16) = sector"
    by (simp add: word_unat_eq_iff unat_ucast16)
  have "unat (- 1 :: u16) = 65535" by (simp add: unsigned_minus_1_eq_mask mask_eq_exp_minus_1)
  then show "(ucast sector :: u16) \<noteq> - 1" using assms \<open>unat (ucast sector :: u16) = unat sector\<close> by auto
qed

text \<open>The pattern of all three functions with a buffer: the sector is read unless it is there.\<close>

lemma cached_read:
  assumes buf: "apart fp 56 buf 512" and c: "cached D lst buf (umem s)" and sec: "unat sector < 65535"
  shows "\<exists>s'. (if sector \<noteq> ucast lst
      then do { (_, s) \<leftarrow> read_sector (disk_trap (vol_device vol) (vol_disk vol) D) fp vol sector buf s; Some (g (ucast sector :: u16), s) }
      else Some (g lst, s)) = Some (g (ucast sector), s') \<and> cached D (ucast sector) buf (umem s') \<and>
     (\<forall>x. unat (x - buf) < 512 \<longrightarrow> umem s' x = D (sector * 512 + (x - buf))) \<and>
     (\<forall>x. 56 \<le> unat (x - fp) \<and> 512 \<le> unat (x - buf) \<longrightarrow> umem s' x = umem s x)"
proof (cases "sector = ucast lst")
  case True
  moreover have "ucast (ucast lst :: u32) = lst" by (rule bit_word_eqI) (simp add: bit_simps)
  ultimately have "lst = ucast sector" by simp
  moreover have "lst \<noteq> - 1" using ucast_sector(2) [OF sec] calculation by simp
  ultimately show ?thesis using c True by (auto simp: cached_def)
next
  case False
  obtain s' where s': "read_sector (disk_trap (vol_device vol) (vol_disk vol) D) fp vol sector buf s = Some (512, s')"
      "\<And>x. 56 \<le> unat (x - fp) \<Longrightarrow> umem s' x = (if unat (x - buf) < 512 then D (sector * 512 + (x - buf)) else umem s x)"
    using read_sector_disk [OF buf] by blast
  have "umem s' x = D (sector * 512 + (x - buf))" if "unat (x - buf) < 512" for x
    using s'(2) [OF apartD [OF buf that]] that by simp
  then show ?thesis using False s' ucast_sector [OF sec] by (auto simp: cached_def)
qed

definition fat_next :: "(u32 \<Rightarrow> u8) \<Rightarrow> fat_volume \<Rightarrow> u16 \<Rightarrow> u16" where
  "fat_next D vol cl = (
     let a = ucast (reserved_sectors (boot_record vol)) * 512 + ucast cl * 2;
         v = ucast (D a) OR push_bit 8 (ucast (D (a + 1)))
     in if v \<ge> 0xFFF8 then - 1 else v)"

lemma next_cluster_disk:
  assumes buf: "apart fp 56 (next_buf bf) 512" and c: "cached D (next_last c) (next_buf bf) (umem s)"
    and rs: "unat (reserved_sectors (boot_record vol)) < 65000"
  shows "\<exists>l s'. next_cluster (disk_trap (vol_device vol) (vol_disk vol) D) fp bf vol cl c s = Some (fat_next D vol cl, c\<lparr>next_last := l\<rparr>, s') \<and>
     cached D l (next_buf bf) (umem s') \<and>
     (\<forall>x. 56 \<le> unat (x - fp) \<and> 512 \<le> unat (x - next_buf bf) \<longrightarrow> umem s' x = umem s x)"
proof -
  let ?o = "ucast cl * 2 :: u32" and ?r = "ucast (reserved_sectors (boot_record vol)) :: u32"
  let ?sec = "?r + ?o div 512"
  have o: "unat ?o = 2 * unat cl" using unat16_less [of cl] by (simp add: unat_word_ariths unat_ucast16)
  have "unat (?o div 512) < 256" using unat16_less [of cl] by (simp add: unat_div o)
  then have sec: "unat ?sec < 65535" using rs by (simp add: unat_word_ariths unat_ucast16)
  have same: "c\<lparr>next_last := next_last c\<rparr> = c" by simp
  obtain s' where s': "(if ?sec \<noteq> ucast (next_last c)
      then do { (_, s) \<leftarrow> read_sector (disk_trap (vol_device vol) (vol_disk vol) D) fp vol ?sec (next_buf bf) s; Some (c\<lparr>next_last := ucast ?sec\<rparr>, s) }
      else Some (c, s)) = Some (c\<lparr>next_last := ucast ?sec\<rparr>, s')" "cached D (ucast ?sec) (next_buf bf) (umem s')"
     "\<forall>x. unat (x - next_buf bf) < 512 \<longrightarrow> umem s' x = D (?sec * 512 + (x - next_buf bf))"
     "\<forall>x. 56 \<le> unat (x - fp) \<and> 512 \<le> unat (x - next_buf bf) \<longrightarrow> umem s' x = umem s x"
    using cached_read [OF buf c sec, of vol "\<lambda>l. c\<lparr>next_last := l\<rparr>"] unfolding same by blast
  have byte: "umem s' (next_buf bf + ?o mod 512 + of_nat i) = D (?r * 512 + ?o + of_nat i)" if "i < 2" for i
  proof -
    have "unat (?o mod 512) = 2 * (unat cl mod 256)" using mult_mod_right [of 2 "unat cl" 256] by (simp add: unat_mod o)
    moreover have "unat cl mod 256 < 256" by simp
    ultimately have "unat (?o mod 512 + of_nat i) < 512" using that by (simp only: unat_word_ariths) (simp add: unat_nat)
    then have "umem s' (next_buf bf + (?o mod 512 + of_nat i)) = D (?sec * 512 + (?o mod 512 + of_nat i))" using s'(3) by simp
    moreover have "?sec * 512 + (?o mod 512 + of_nat i) = ?r * 512 + (?o div 512 * 512 + ?o mod 512) + of_nat i"
      by (simp only: distrib_right add.assoc)
    ultimately show ?thesis by (simp only: div_mult_mod_eq add.assoc)
  qed
  have "lh (next_buf bf + ?o mod 512) s' = ucast (D (?r * 512 + ?o)) OR push_bit 8 (ucast (D (?r * 512 + ?o + 1)))"
    using byte [of 0] byte [of 1] by (simp add: lh_def)
  then have "next_cluster (disk_trap (vol_device vol) (vol_disk vol) D) fp bf vol cl c s = Some (fat_next D vol cl, c\<lparr>next_last := ucast ?sec\<rparr>, s')"
    using s'(1) by (simp add: next_cluster_def fat_next_def Let_def cong: if_cong)
  then show ?thesis using s'(2,4) by blast
qed
definition cluster_at :: "(u32 \<Rightarrow> u8) \<Rightarrow> fat_volume \<Rightarrow> u16 \<Rightarrow> nat \<Rightarrow> u16" where
  "cluster_at D vol cl k = (fat_next D vol ^^ k) cl"

lemma cluster_at_simps [simp]:
  "cluster_at D vol cl 0 = cl" "cluster_at D vol (fat_next D vol cl) k = cluster_at D vol cl (Suc k)"
  by (simp_all add: cluster_at_def funpow_swap1)

lemma cluster_at_add: "cluster_at D vol (cluster_at D vol cl j) k = cluster_at D vol cl (j + k)"
  unfolding cluster_at_def add.commute [of j] funpow_add by simp

definition cluster_len :: "fat_volume \<Rightarrow> nat" where
  "cluster_len vol = 512 * unat (cluster_sectors (boot_record vol))"

lemma unat_cluster_bytes: "unat (cluster_bytes vol) = cluster_len vol"
proof -
  have "unat (cluster_sectors (boot_record vol)) < 2 ^ LENGTH(8)" by (rule unsigned_less)
  then show ?thesis
    by (simp add: cluster_bytes_def cluster_len_def unat_word_ariths unsigned_ucast_eq take_bit_nat_eq_self)
qed

lemma find_cluster_disk:
  assumes buf: "apart fp 56 (next_buf bf) 512" and rs: "unat (reserved_sectors (boot_record vol)) < 65000" and B: "0 < cluster_len vol"
  shows "\<lbrakk>cached D (next_last c) (next_buf bf) (umem s); unat offset = k * cluster_len vol + r; r < cluster_len vol\<rbrakk> \<Longrightarrow>
   \<exists>l s'. find_cluster (disk_trap (vol_device vol) (vol_disk vol) D) fp bf vol cl offset c s = Some (cluster_at D vol cl k, of_nat r, c\<lparr>next_last := l\<rparr>, s') \<and>
     cached D l (next_buf bf) (umem s') \<and>
     (\<forall>x. 56 \<le> unat (x - fp) \<and> 512 \<le> unat (x - next_buf bf) \<longrightarrow> umem s' x = umem s x)"
proof (induction k arbitrary: cl offset c s)
  case 0
  then have "\<not> offset \<ge> cluster_bytes vol" "offset = of_nat r"
    using unat32_less [of offset] by (simp_all add: word_le_nat_alt unat_cluster_bytes word_unat_eq_iff unat_nat)
  moreover have "c\<lparr>next_last := next_last c\<rparr> = c" by simp
  ultimately show ?case using 0(1)
    by (subst find_cluster.simps) (auto intro!: exI [of _ "next_last c"])
next
  case (Suc k)
  have ge: "offset \<ge> cluster_bytes vol" using Suc.prems(2) by (simp add: word_le_nat_alt unat_cluster_bytes)
  then have off: "unat (offset - cluster_bytes vol) = k * cluster_len vol + r"
    using Suc.prems(2) by (simp add: unat_sub_if' word_le_nat_alt unat_cluster_bytes)
  obtain l s1 where n: "next_cluster (disk_trap (vol_device vol) (vol_disk vol) D) fp bf vol cl c s = Some (fat_next D vol cl, c\<lparr>next_last := l\<rparr>, s1)"
      "cached D l (next_buf bf) (umem s1)" "\<forall>x. 56 \<le> unat (x - fp) \<and> 512 \<le> unat (x - next_buf bf) \<longrightarrow> umem s1 x = umem s x"
    using next_cluster_disk [OF buf Suc.prems(1) rs] by blast
  have "unat (ucast (fat_next D vol cl) :: u32) < 65536" using unat16_less by (simp add: unat_ucast16)
  then have ne: "(ucast (fat_next D vol cl) :: u32) \<noteq> - 1" by (auto simp: unsigned_minus_1_eq_mask mask_eq_exp_minus_1)
  show ?case
    using Suc.IH [of "c\<lparr>next_last := l\<rparr>" s1 "offset - cluster_bytes vol" "fat_next D vol cl"] n off Suc.prems(3) ge ne
    by (subst find_cluster.simps) auto
qed

subsection \<open>Reading a file\<close>

text \<open>Where the code looks for the byte at a position: in the sector it computes for the cluster along the chain.\<close>

definition cluster_sector :: "fat_volume \<Rightarrow> u16 \<Rightarrow> u32" where
  "cluster_sector vol cl = (case get_cluster_sector vol cl of None \<Rightarrow> 0 | Some x \<Rightarrow> x)"

definition chain_byte :: "(u32 \<Rightarrow> u8) \<Rightarrow> fat_volume \<Rightarrow> u16 \<Rightarrow> nat \<Rightarrow> u8" where
  "chain_byte D vol cl p =
     D (cluster_sector vol (cluster_at D vol cl (p div cluster_len vol)) * 512 + of_nat (p mod cluster_len vol))"

lemma chain_byte_add:
  assumes "0 < cluster_len vol"
  shows "chain_byte D vol (cluster_at D vol cl k) p = chain_byte D vol cl (k * cluster_len vol + p)"
  using assms by (simp add: chain_byte_def cluster_at_add)

text \<open>The clusters that hold the first \<open>n\<close> bytes lie within the sectors the code can tell apart.\<close>

definition chain_in :: "(u32 \<Rightarrow> u8) \<Rightarrow> fat_volume \<Rightarrow> u16 \<Rightarrow> nat \<Rightarrow> bool" where
  "chain_in D vol cl n \<longleftrightarrow> (\<forall>k. k * cluster_len vol < n \<longrightarrow> get_cluster_sector vol (cluster_at D vol cl k) \<noteq> None \<and>
     unat (cluster_sector vol (cluster_at D vol cl k)) + unat (cluster_sectors (boot_record vol)) < 65536)"

lemma chain_in_add:
  "\<lbrakk>chain_in D vol cl n; k * cluster_len vol + m \<le> n\<rbrakk> \<Longrightarrow> chain_in D vol (cluster_at D vol cl k) m"
  unfolding chain_in_def cluster_at_add by (auto simp: add_mult_distrib)
definition fat_layout :: "u32 \<Rightarrow> fat_bufs \<Rightarrow> u32 \<Rightarrow> nat \<Rightarrow> bool" where
  "fat_layout fp bf ret n \<longleftrightarrow> apart fp 56 (next_buf bf) 512 \<and> apart fp 56 (read_buf bf) 512 \<and> apart (next_buf bf) 512 (read_buf bf) 512 \<and>
     apart fp 56 ret n \<and> apart (next_buf bf) 512 ret n \<and> apart (read_buf bf) 512 ret n"

lemma apart_sym: "apart a n b k \<Longrightarrow> unat (x - a) < n \<Longrightarrow> k \<le> unat (x - b)"
  using apartD [of a n b k x] by (meson not_le)

lemma cached_same: "cached D l buf m \<Longrightarrow> (\<And>x. unat (x - buf) < 512 \<Longrightarrow> m' x = m x) \<Longrightarrow> cached D l buf m'"
  by (simp add: cached_def)

lemma chain_byte_in:
  assumes "p < cluster_len vol"
  shows "chain_byte D vol cl p = D (cluster_sector vol cl * 512 + of_nat p)"
  using assms by (simp add: chain_byte_def)

text \<open>The part of a sector that a round of the loop copies stays inside the cluster.\<close>

lemma part_in_cluster:
  assumes "r < cluster_len vol" and "t \<le> 512 - r mod 512"
  shows "r + t \<le> cluster_len vol" and "r div 512 < unat (cluster_sectors (boot_record vol))"
proof -
  show "r div 512 < unat (cluster_sectors (boot_record vol))"
    using assms(1) by (simp add: cluster_len_def less_mult_imp_div_less mult.commute)
  then have "r div 512 * 512 + 512 \<le> cluster_len vol" by (simp add: cluster_len_def)
  then show "r + t \<le> cluster_len vol" using assms(2) div_mult_mod_eq [of r 512] mod_less_divisor [of 512 r] by linarith
qed

text \<open>Copying from the buffer to the result.\<close>

lemma copy_part:
  assumes lay: "apart rb 512 ret n" and p: "p + t \<le> n" "n < 4294967296" and o: "oo + t \<le> 512"
  shows "snd (memcpy (ret + of_nat p) (rb + of_nat oo) (of_nat t) m) = memcpy_mem m (ret + of_nat p) (rb + of_nat oo) t"
proof -
  have t: "unat (of_nat t :: u32) = t" using o by (intro unat_nat) simp
  have "t \<le> unat (ret + of_nat p - (rb + of_nat oo))"
  proof (rule ccontr)
    define j where "j = unat (ret + of_nat p - (rb + of_nat oo))"
    assume "\<not> ?thesis"
    then have j: "j < t" by (simp add: j_def)
    have "ret + of_nat p = rb + of_nat (oo + j)" by (simp add: j_def add.assoc)
    moreover have "unat (ret + of_nat p - ret) < n" using p j unat_nat [of p] by simp
    then have "512 \<le> unat (ret + of_nat p - rb)" by (rule apartD [OF lay])
    ultimately have "512 \<le> unat (of_nat (oo + j) :: u32)" by (simp del: of_nat_add)
    then show False using j o unat_nat [of "oo + j"] by simp
  qed
  then show ?thesis using memcpy_copies [of "ret + of_nat p" "rb + of_nat oo" "of_nat t" m] t by simp
qed

text \<open>The sector a round needs is in the buffer afterwards, read or not.\<close>

lemma fat_fetch:
  assumes lay: "fat_layout fp bf ret n"
    and c: "cached D l (next_buf bf) (umem s)" "cached D (read_last c) (read_buf bf) (umem s)" and sec: "unat sector < 65535"
  shows "\<exists>s'. (if sector \<noteq> ucast (read_last c)
      then do { (_, s) \<leftarrow> read_sector (disk_trap (vol_device vol) (vol_disk vol) D) fp vol sector (read_buf bf) s; Some (c\<lparr>read_last := ucast sector\<rparr>, s) }
      else Some (c, s)) = Some (c\<lparr>read_last := ucast sector\<rparr>, s') \<and>
     cached D l (next_buf bf) (umem s') \<and> cached D (ucast sector) (read_buf bf) (umem s') \<and>
     (\<forall>x. unat (x - read_buf bf) < 512 \<longrightarrow> umem s' x = D (sector * 512 + (x - read_buf bf))) \<and>
     (\<forall>x. 56 \<le> unat (x - fp) \<and> 512 \<le> unat (x - read_buf bf) \<longrightarrow> umem s' x = umem s x)"
proof -
  note a = lay [unfolded fat_layout_def]
  have same: "c\<lparr>read_last := read_last c\<rparr> = c" by simp
  obtain s' where s': "(if sector \<noteq> ucast (read_last c)
      then do { (_, s) \<leftarrow> read_sector (disk_trap (vol_device vol) (vol_disk vol) D) fp vol sector (read_buf bf) s; Some (c\<lparr>read_last := ucast sector\<rparr>, s) }
      else Some (c, s)) = Some (c\<lparr>read_last := ucast sector\<rparr>, s')" "cached D (ucast sector) (read_buf bf) (umem s')"
     "\<forall>x. unat (x - read_buf bf) < 512 \<longrightarrow> umem s' x = D (sector * 512 + (x - read_buf bf))"
     "\<forall>x. 56 \<le> unat (x - fp) \<and> 512 \<le> unat (x - read_buf bf) \<longrightarrow> umem s' x = umem s x"
    using cached_read [OF _ c(2) sec, of fp vol "\<lambda>l. c\<lparr>read_last := l\<rparr>"] a unfolding same by blast
  have "cached D l (next_buf bf) (umem s')"
    by (rule cached_same [OF c(1)]) (use s'(4) a apartD [of fp 56 "next_buf bf" 512] apart_sym [of "next_buf bf" 512 "read_buf bf" 512] in blast)
  with s' show ?thesis by blast
qed

lemma fat_copy:
  assumes lay: "fat_layout fp bf ret n" and t: "unat p + t \<le> n" "oo + t \<le> 512"
    and b: "\<forall>x. unat (x - read_buf bf) < 512 \<longrightarrow> m x = D (T * 512 + (x - read_buf bf))"
  defines "m' \<equiv> memcpy_mem m (ret + p) (read_buf bf + of_nat oo) t"
  shows "\<And>i. i < t \<Longrightarrow> m' (ret + p + of_nat i) = D (T * 512 + of_nat (oo + i))"
    and "\<And>x. unat (x - read_buf bf) < 512 \<or> unat (x - next_buf bf) < 512 \<Longrightarrow> m' x = m x"
proof -
  note a = lay [unfolded fat_layout_def]
  show "m' (ret + p + of_nat i) = D (T * 512 + of_nat (oo + i))" if "i < t" for i
  proof -
    have "unat (of_nat i :: u32) = i" "unat (of_nat oo + of_nat i :: u32) = oo + i"
      using that t(2) unat_nat [of "oo + i"] by (simp_all add: unat_nat)
    then show ?thesis using b [rule_format, of "read_buf bf + of_nat oo + of_nat i"] that t(2)
      by (simp add: m'_def memcpy_mem_def add.assoc)
  qed
  show "m' x = m x" if x: "unat (x - read_buf bf) < 512 \<or> unat (x - next_buf bf) < 512" for x
  proof -
    have "n \<le> unat (x - ret)" using x a apart_sym by blast
    define y where "y = x - ret"
    have "t \<le> unat (y - p)" using \<open>n \<le> unat (x - ret)\<close> t(1) by (auto simp: unat_sub_if' simp flip: y_def)
    then show ?thesis by (simp add: m'_def memcpy_mem_def y_def diff_diff_eq)
  qed
qed

lemma of_nat_512: "r < 4294967296 \<Longrightarrow> (of_nat r :: u32) div 512 = of_nat (r div 512)"
    "r < 4294967296 \<Longrightarrow> (of_nat r :: u32) mod 512 = of_nat (r mod 512)"
  by (simp_all add: word_unat_eq_iff unat_div unat_mod unat_nat less_imp_diff_less)

lemma fat_read_step:
  assumes lay: "fat_layout fp bf ret (unat len)" and rs: "unat (reserved_sectors (boot_record vol)) < 65000" and B: "0 < cluster_len vol"
    and c: "cached D (next_last c) (next_buf bf) (umem s)" "cached D (read_last c) (read_buf bf) (umem s)"
    and off: "unat offset = k * cluster_len vol + r" "r < cluster_len vol" and cur: "curr_pos < len"
    and ch: "chain_in D vol (cluster_at D vol (ucast cluster) k) 1"
  defines "t \<equiv> min (unat len - unat curr_pos) (512 - r mod 512)" and "cl \<equiv> cluster_at D vol (ucast cluster) k"
  shows "\<exists>c' s'. fat_read_loop (disk_trap (vol_device vol) (vol_disk vol) D) fp bf vol ret len curr_pos cluster offset c s =
       fat_read_loop (disk_trap (vol_device vol) (vol_disk vol) D) fp bf vol ret len (curr_pos + of_nat t) (ucast cl) (of_nat (r + t)) c' s' \<and>
     cached D (next_last c') (next_buf bf) (umem s') \<and> cached D (read_last c') (read_buf bf) (umem s') \<and>
     (\<forall>i<t. umem s' (ret + curr_pos + of_nat i) = chain_byte D vol cl (r + i)) \<and>
     (\<forall>x. 56 \<le> unat (x - fp) \<and> 512 \<le> unat (x - next_buf bf) \<and> 512 \<le> unat (x - read_buf bf) \<and>
        t \<le> unat (x - (ret + curr_pos)) \<longrightarrow> umem s' x = umem s x)"
proof -
  note a = lay [unfolded fat_layout_def]
  obtain l s1 where f: "find_cluster (disk_trap (vol_device vol) (vol_disk vol) D) fp bf vol (ucast cluster) offset c s = Some (cl, of_nat r, c\<lparr>next_last := l\<rparr>, s1)"
      "cached D l (next_buf bf) (umem s1)" "\<forall>x. 56 \<le> unat (x - fp) \<and> 512 \<le> unat (x - next_buf bf) \<longrightarrow> umem s1 x = umem s x"
    using find_cluster_disk [OF _ rs B c(1) off, of fp "ucast cluster"] a unfolding cl_def by blast
  have r32: "r < 4294967296" using off unat32_less [of offset] by linarith
  then have ur: "unat (of_nat r :: u32) = r" by (rule unat_nat)
  have tl: "t \<le> 512 - r mod 512" "unat curr_pos + t \<le> unat len" using cur by (auto simp: t_def word_less_nat_alt)
  note inn = part_in_cluster [OF off(2) tl(1)]
  obtain sec where sec: "get_cluster_sector vol cl = Some sec" "cluster_sector vol cl = sec"
      "unat sec + unat (cluster_sectors (boot_record vol)) < 65536"
    using ch B by (auto simp: chain_in_def cl_def [symmetric] cluster_sector_def dest!: spec [of _ 0])
  let ?c = "c\<lparr>next_last := l\<rparr>" and ?T = "sec + of_nat r div 512" and ?p = "ret + curr_pos" and ?q = "read_buf bf + of_nat (r mod 512)"
  have T: "unat ?T < 65535" using sec(3) inn(2) r32 by (simp add: of_nat_512 unat_word_ariths unat_nat)
  have cr: "cached D (read_last ?c) (read_buf bf) (umem s1)"
    using cached_same [OF c(2), of "umem s1"] f(3) a apartD by auto
  obtain s2 where g: "(if ?T \<noteq> ucast (read_last ?c)
      then do { (_, s) \<leftarrow> read_sector (disk_trap (vol_device vol) (vol_disk vol) D) fp vol ?T (read_buf bf) s1; Some (?c\<lparr>read_last := ucast ?T\<rparr>, s) }
      else Some (?c, s1)) = Some (?c\<lparr>read_last := ucast ?T\<rparr>, s2)"
     "cached D l (next_buf bf) (umem s2)" "cached D (ucast ?T) (read_buf bf) (umem s2)"
     "\<forall>x. unat (x - read_buf bf) < 512 \<longrightarrow> umem s2 x = D (?T * 512 + (x - read_buf bf))"
     "\<forall>x. 56 \<le> unat (x - fp) \<and> 512 \<le> unat (x - read_buf bf) \<longrightarrow> umem s2 x = umem s1 x"
    using fat_fetch [OF lay f(2) cr T, of vol] by blast
  have o: "r mod 512 + t \<le> 512" using tl(1) mod_less_divisor [of 512 r] by linarith
  let ?m = "memcpy_mem (umem s2) ?p ?q t"
  have cp: "snd (memcpy ?p ?q (of_nat t) (umem s2)) = ?m"
    using copy_part [of "read_buf bf" ret "unat len" "unat curr_pos" t "r mod 512" "umem s2"] a tl o unat32_less [of len] by simp
  note m = fat_copy [OF lay tl(2) o g(4)]
  have part: "(if len - curr_pos > 512 - of_nat (r mod 512) then 512 - of_nat (r mod 512) else len - curr_pos) = of_nat t"
  proof -
    have "unat (len - curr_pos) = unat len - unat curr_pos" using cur by (simp add: unat_sub_if' word_less_nat_alt)
    moreover have "unat (512 - of_nat (r mod 512) :: u32) = 512 - r mod 512"
      using mod_less_divisor [of 512 r] by (simp add: unat_sub_if' unat_nat)
    ultimately show ?thesis using o unat_nat [of t] by (auto simp: word_unat_eq_iff word_less_nat_alt t_def min_def)
  qed
  have "fat_read_loop (disk_trap (vol_device vol) (vol_disk vol) D) fp bf vol ret len curr_pos cluster offset c s =
      fat_read_loop (disk_trap (vol_device vol) (vol_disk vol) D) fp bf vol ret len (curr_pos + of_nat t) (ucast cl) (of_nat (r + t)) (?c\<lparr>read_last := ucast ?T\<rparr>) (set_umem ?m s2)"
    by (subst fat_read_loop.simps) (use cur f(1) sec(1) g(1) part cp r32 in \<open>simp add: of_nat_512 Let_def cong: if_cong\<close>)
  moreover have "?m (?p + of_nat i) = chain_byte D vol cl (r + i)" if "i < t" for i
  proof -
    have "(of_nat r :: u32) div 512 * 512 + of_nat (r mod 512) = of_nat r"
      using div_mult_mod_eq [of "of_nat r :: u32" 512] of_nat_512(2) [OF r32] by simp
    moreover have "?T * 512 + of_nat (r mod 512 + i) = sec * 512 + (of_nat r div 512 * 512 + of_nat (r mod 512)) + of_nat i"
      by (simp only: distrib_right of_nat_add add.assoc)
    ultimately have w: "?T * 512 + of_nat (r mod 512 + i) = sec * 512 + of_nat (r + i)" by (simp only: of_nat_add add.assoc)
    have "chain_byte D vol cl (r + i) = D (sec * 512 + of_nat (r + i))"
      using chain_byte_in [of "r + i" vol D cl] inn(1) that sec(2) by simp
    then show ?thesis using m(1) [OF that] unfolding w by simp
  qed
  moreover have "cached D l (next_buf bf) ?m" "cached D (ucast ?T) (read_buf bf) ?m"
    using cached_same [OF g(2), of ?m] cached_same [OF g(3), of ?m] m(2) by blast+
  moreover have "?m x = umem s x" if "56 \<le> unat (x - fp)" "512 \<le> unat (x - next_buf bf)" "512 \<le> unat (x - read_buf bf)" "t \<le> unat (x - ?p)" for x
    using that f(3) g(5) by (simp add: memcpy_mem_def)
  ultimately show ?thesis
    by (intro exI [of _ "?c\<lparr>read_last := ucast ?T\<rparr>"] exI [of _ "set_umem ?m s2"]) simp
qed
text \<open>Offsets from a position \<open>t\<close> bytes further on.\<close>

lemma unat_past:
  assumes "t \<le> unat (x - b :: u32)"
  shows "unat (x - (b + of_nat t)) = unat (x - b) - t"
proof -
  have t: "unat (of_nat t :: u32) = t" using assms unat32_less [of "x - b"] by (intro unat_nat) simp
  have "x - (b + of_nat t) = (x - b) - of_nat t" by simp
  then show ?thesis using assms t by (metis unat_sub word_le_nat_alt)
qed

lemma unat_before:
  assumes "i < t" and "t \<le> n" and "n < 4294967296"
  shows "n - t \<le> unat (b + of_nat i - (b + of_nat t) :: u32)"
proof -
  have u: "unat (of_nat i :: u32) = i" "unat (of_nat t :: u32) = t" using assms by (simp_all add: unat_nat)
  have "b + of_nat i - (b + of_nat t) = (of_nat i - of_nat t :: u32)" by simp
  then show ?thesis using assms u by (simp add: unat_sub_if')
qed

lemma fat_read_loop_disk:
  assumes lay: "fat_layout fp bf ret (unat len)" and rs: "unat (reserved_sectors (boot_record vol)) < 65000" and B: "0 < cluster_len vol"
  shows "\<lbrakk>cached D (next_last c) (next_buf bf) (umem s); cached D (read_last c) (read_buf bf) (umem s); curr_pos \<le> len;
      unat offset + (unat len - unat curr_pos) < 4294967296;
      chain_in D vol (ucast cluster) (unat offset + (unat len - unat curr_pos))\<rbrakk> \<Longrightarrow>
   \<exists>c' s'. fat_read_loop (disk_trap (vol_device vol) (vol_disk vol) D) fp bf vol ret len curr_pos cluster offset c s = Some (c', s') \<and>
     cached D (next_last c') (next_buf bf) (umem s') \<and> cached D (read_last c') (read_buf bf) (umem s') \<and>
     (\<forall>i. unat curr_pos + i < unat len \<longrightarrow> umem s' (ret + curr_pos + of_nat i) = chain_byte D vol (ucast cluster) (unat offset + i)) \<and>
     (\<forall>x. 56 \<le> unat (x - fp) \<and> 512 \<le> unat (x - next_buf bf) \<and> 512 \<le> unat (x - read_buf bf) \<and>
        unat len - unat curr_pos \<le> unat (x - (ret + curr_pos)) \<longrightarrow> umem s' x = umem s x)"
proof (induction "unat len - unat curr_pos" arbitrary: curr_pos cluster offset c s rule: less_induct)
  case less
  show ?case
  proof (cases "curr_pos < len")
    case False
    then show ?thesis using less.prems by (subst fat_read_loop.simps) (auto simp: word_less_nat_alt)
  next
    case True
    define k r where "k = unat offset div cluster_len vol" and "r = unat offset mod cluster_len vol"
    have off: "unat offset = k * cluster_len vol + r" "r < cluster_len vol" using B by (simp_all add: k_def r_def)
    define t where "t = min (unat len - unat curr_pos) (512 - r mod 512)"
    define cl where "cl = cluster_at D vol (ucast cluster) k"
    have lt: "unat curr_pos < unat len" using True by (simp add: word_less_nat_alt)
    have t: "0 < t" "unat curr_pos + t \<le> unat len" using lt by (auto simp: t_def)
    have pos: "unat (curr_pos + of_nat t) = unat curr_pos + t"
      using t(2) unat32_less [of len] by (simp add: unat_word_ariths unat_nat)
    have "chain_in D vol cl 1" unfolding cl_def
      by (rule chain_in_add [OF less.prems(5)]) (use off lt in simp)
    from fat_read_step [OF lay rs B less.prems(1,2) off True this [unfolded cl_def], folded t_def cl_def]
    obtain c1 s1 where step: "fat_read_loop (disk_trap (vol_device vol) (vol_disk vol) D) fp bf vol ret len curr_pos cluster offset c s =
          fat_read_loop (disk_trap (vol_device vol) (vol_disk vol) D) fp bf vol ret len (curr_pos + of_nat t) (ucast cl) (of_nat (r + t)) c1 s1"
        "cached D (next_last c1) (next_buf bf) (umem s1)" "cached D (read_last c1) (read_buf bf) (umem s1)"
        "\<forall>i<t. umem s1 (ret + curr_pos + of_nat i) = chain_byte D vol cl (r + i)"
        "\<forall>x. 56 \<le> unat (x - fp) \<and> 512 \<le> unat (x - next_buf bf) \<and> 512 \<le> unat (x - read_buf bf) \<and>
           t \<le> unat (x - (ret + curr_pos)) \<longrightarrow> umem s1 x = umem s x"
      by blast
    have rt: "unat (of_nat (r + t) :: u32) = r + t" using less.prems(4) off t(2) by (intro unat_nat) linarith
    have ucl: "ucast (ucast cl :: u32) = cl" by (rule bit_word_eqI) (simp add: bit_simps)
    have "chain_in D vol (ucast (ucast cl :: u32)) (r + t + (unat len - unat curr_pos - t))"
      unfolding ucl unfolding cl_def by (rule chain_in_add [OF less.prems(5)]) (use off t in simp)
    moreover have bounds: "unat len - unat curr_pos - t < unat len - unat curr_pos" "unat curr_pos + t \<le> unat len"
        "r + t + (unat len - unat curr_pos - t) < 4294967296"
      using t lt less.prems(4) off by linarith+
    ultimately obtain c' s' where ih: "fat_read_loop (disk_trap (vol_device vol) (vol_disk vol) D) fp bf vol ret len (curr_pos + of_nat t) (ucast cl) (of_nat (r + t)) c1 s1 = Some (c', s')"
        "cached D (next_last c') (next_buf bf) (umem s')" "cached D (read_last c') (read_buf bf) (umem s')"
        "\<forall>i. unat curr_pos + t + i < unat len \<longrightarrow> umem s' (ret + (curr_pos + of_nat t) + of_nat i) = chain_byte D vol cl (r + t + i)"
        "\<forall>x. 56 \<le> unat (x - fp) \<and> 512 \<le> unat (x - next_buf bf) \<and> 512 \<le> unat (x - read_buf bf) \<and>
          unat len - (unat curr_pos + t) \<le> unat (x - (ret + (curr_pos + of_nat t))) \<longrightarrow> umem s' x = umem s1 x"
      using less.hyps [of "curr_pos + of_nat t" c1 s1 "of_nat (r + t)" "ucast cl", OF _ step(2,3)] bounds
      unfolding rt pos ucl word_le_nat_alt diff_diff_left by blast
    have "umem s' (ret + curr_pos + of_nat i) = chain_byte D vol (ucast cluster) (unat offset + i)" if "unat curr_pos + i < unat len" for i
    proof (cases "i < t")
      case True
      let ?y = "ret + curr_pos + of_nat i :: u32"
      have "unat (?y - ret) = unat curr_pos + i" using that unat32_less [of len] by (simp add: unat_word_ariths unat_nat)
      then have "unat (?y - ret) < unat len" using that by simp
      then have "56 \<le> unat (?y - fp)" "512 \<le> unat (?y - next_buf bf)" "512 \<le> unat (?y - read_buf bf)"
        using lay unfolding fat_layout_def by (blast intro: apartD)+
      moreover have "unat len - (unat curr_pos + t) \<le> unat (?y - (ret + (curr_pos + of_nat t)))"
        using unat_before [OF True, of "unat len - unat curr_pos" "ret + curr_pos"] t(2) unat32_less [of len]
        by (simp add: add.assoc)
      ultimately have "umem s' ?y = umem s1 ?y" using ih(5) by blast
      then show ?thesis using step(4) True off(1) by (simp add: cl_def chain_byte_add [OF B] add.assoc)
    next
      case False
      then show ?thesis using ih(4) [rule_format, of "i - t"] that off(1) by (simp add: cl_def chain_byte_add [OF B] add.assoc flip: of_nat_add)
    qed
    moreover have "umem s' x = umem s x" if "56 \<le> unat (x - fp)" "512 \<le> unat (x - next_buf bf)" "512 \<le> unat (x - read_buf bf)"
        "unat len - unat curr_pos \<le> unat (x - (ret + curr_pos))" for x
    proof -
      have "unat (x - (ret + (curr_pos + of_nat t))) = unat (x - (ret + curr_pos)) - t" 
        using unat_past [of t x "ret + curr_pos"] that(4) t by (simp add: add.assoc)
      then have "umem s' x = umem s1 x" using ih(5) that by simp
      also have "\<dots> = umem s x" using step(5) that t lt by simp
      finally show ?thesis .
    qed
    ultimately show ?thesis unfolding step(1) using ih(1-3) by blast
  qed
qed
lemma fat_layout_le: "fat_layout fp bf ret n \<Longrightarrow> k \<le> n \<Longrightarrow> fat_layout fp bf ret k"
  unfolding fat_layout_def apart_def by (meson less_le_trans)

text \<open>The length \<open>fat_read\<close> settles on: what the file still holds past the offset.\<close>

lemma fat_read_length:
  assumes "offset < sz" and "unat offset + unat len < 4294967296"
  shows "unat (if offset + len > sz then sz - offset else len :: u32) = min (unat len) (unat sz - unat offset)"
proof -
  have "unat (offset + len) = unat offset + unat len" using assms(2) by (simp add: unat_word_ariths)
  then show ?thesis using assms(1) by (auto simp: word_less_nat_alt unat_sub_if')
qed

subsection \<open>The contents of a file\<close>

text \<open>
  The layout of a FAT16 volume, in natural numbers: the reserved sectors, the copies of the table, the root directory and
  the clusters, numbered from 2.  The number of the next cluster of a file is in the first table, in two bytes.
\<close>

abbreviation (input) vol_sector :: "fat_volume \<Rightarrow> nat" where "vol_sector vol \<equiv> unat (sector_bytes (boot_record vol))"

definition fat16_root_sectors :: "fat_volume \<Rightarrow> nat" where
  "fat16_root_sectors vol = (let n = 32 * unat (dirent_count (boot_record vol)) in
     if n mod vol_sector vol = 0 then n div vol_sector vol else n div vol_sector vol + 1)"

definition fat16_sector :: "fat_volume \<Rightarrow> nat \<Rightarrow> nat" where
  "fat16_sector vol cl = unat (reserved_sectors (boot_record vol)) +
     unat (fat_count (boot_record vol)) * unat (fat_sectors (boot_record vol)) + fat16_root_sectors vol +
     (cl - 2) * unat (cluster_sectors (boot_record vol))"

definition fat16_next :: "(u32 \<Rightarrow> u8) \<Rightarrow> fat_volume \<Rightarrow> nat \<Rightarrow> nat" where
  "fat16_next D vol cl = (let a = unat (reserved_sectors (boot_record vol)) * vol_sector vol + 2 * cl in
     unat (D (of_nat a)) + 256 * unat (D (of_nat (a + 1))))"

definition fat16_cluster :: "(u32 \<Rightarrow> u8) \<Rightarrow> fat_volume \<Rightarrow> nat \<Rightarrow> nat \<Rightarrow> nat" where
  "fat16_cluster D vol cl k = (fat16_next D vol ^^ k) cl"

text \<open>The byte at position \<open>p\<close> of the file whose first cluster is \<open>cl\<close>.\<close>

definition file_byte :: "(u32 \<Rightarrow> u8) \<Rightarrow> fat_volume \<Rightarrow> nat \<Rightarrow> nat \<Rightarrow> u8" where
  "file_byte D vol cl p = (let len = vol_sector vol * unat (cluster_sectors (boot_record vol)) in
     D (of_nat (fat16_sector vol (fat16_cluster D vol cl (p div len)) * vol_sector vol + p mod len)))"

text \<open>
  A file of \<open>n\<close> bytes is well formed on a volume the code can read: sectors have 512 bytes, the clusters of the file are
  proper ones, and they lie in the first 65535 sectors, whose numbers \<open>last_sector\<close> can hold.
\<close>

definition file_ok :: "(u32 \<Rightarrow> u8) \<Rightarrow> fat_volume \<Rightarrow> nat \<Rightarrow> nat \<Rightarrow> bool" where
  "file_ok D vol cl n \<longleftrightarrow> vol_sector vol = 512 \<and> 0 < unat (cluster_sectors (boot_record vol)) \<and>
     (\<forall>k. k * cluster_len vol < n \<longrightarrow> 2 \<le> fat16_cluster D vol cl k \<and> fat16_cluster D vol cl k < 0xFFF8 \<and>
        fat16_sector vol (fat16_cluster D vol cl k) + unat (cluster_sectors (boot_record vol)) < 65536)"

lemma fat_next_entry:
  assumes "vol_sector vol = 512" and "fat16_next D vol (unat cl) < 0xFFF8"
  shows "unat (fat_next D vol cl) = fat16_next D vol (unat cl)"
proof -
  define a where "a = unat (reserved_sectors (boot_record vol)) * 512 + 2 * unat cl"
  have "a + 1 < 4294967296" using unat16_less [of cl] unat16_less [of "reserved_sectors (boot_record vol)"] by (simp add: a_def)
  then have w: "ucast (reserved_sectors (boot_record vol)) * 512 + ucast cl * 2 = (of_nat a :: u32)"
    using unat16_less [of cl] unat16_less [of "reserved_sectors (boot_record vol)"]
    by (simp add: word_unat_eq_iff unat_word_ariths unat_ucast16 unat_nat a_def)
  define x y where "x = D (of_nat a)" and "y = D (of_nat a + 1)"
  define v where "v = (ucast x OR push_bit 8 (ucast y) :: u16)"
  have u: "unat x < 256" "unat y < 256" using unsigned_less [of x] unsigned_less [of y] by simp_all
  have "ucast x AND push_bit 8 (ucast y) = (0 :: u16)"
    by (rule bit_word_eqI) (auto simp: bit_simps dest: bit_imp_le_length)
  then have "v = ucast x + push_bit 8 (ucast y)" using word_plus_and_or [of "ucast x :: u16" "push_bit 8 (ucast y)"] by (simp add: v_def)
  then have v: "unat v = unat x + 256 * unat y"
    using u by (simp add: unat_word_ariths unsigned_ucast_eq take_bit_nat_eq_self push_bit_eq_mult)
  have n: "fat16_next D vol (unat cl) = unat v"
    using assms(1) v by (simp add: fat16_next_def Let_def a_def [symmetric] x_def y_def add.commute [of 1])
  then have "\<not> v \<ge> 0xFFF8" using assms(2) by (simp add: word_le_nat_alt)
  moreover have "fat_next D vol cl = (if v \<ge> 0xFFF8 then - 1 else v)"
    unfolding fat_next_def w Let_def by (simp add: v_def x_def y_def)
  ultimately show ?thesis using n by simp
qed

lemma cluster_at_entry:
  assumes "vol_sector vol = 512" and "\<And>j. j \<le> k \<Longrightarrow> fat16_cluster D vol (unat cl) j < 0xFFF8"
  shows "unat (cluster_at D vol cl k) = fat16_cluster D vol (unat cl) k"
  using assms(2)
proof (induction k)
  case 0
  then show ?case by (simp add: fat16_cluster_def)
next
  case (Suc k)
  then have ih: "unat (cluster_at D vol cl k) = fat16_cluster D vol (unat cl) k" by simp
  have s: "fat16_cluster D vol (unat cl) (Suc k) = fat16_next D vol (unat (cluster_at D vol cl k))" unfolding ih by (simp add: fat16_cluster_def)
  moreover have "cluster_at D vol cl (Suc k) = fat_next D vol (cluster_at D vol cl k)" by (simp add: cluster_at_def)
  ultimately show ?case using fat_next_entry [OF assms(1), of D "cluster_at D vol cl k"] Suc.prems [of "Suc k"] by simp
qed

lemma round_up: "(a + 511) div 512 = (if a mod 512 = 0 then a div 512 else a div 512 + 1)" for a :: nat
proof -
  define q r where "q = a div 512" and "r = a mod 512"
  have a: "a = 512 * q + r" "r < 512" by (simp_all add: q_def r_def)
  have "(512 * q + r + 511) div 512 = (if r = 0 then q else q + 1)" using a(2) by (intro div_nat_eqI) auto
  then show ?thesis by (simp add: q_def r_def)
qed

lemma root_sectors:
  assumes "vol_sector vol = 512"
  shows "(ucast (dirent_count (boot_record vol)) * 32 + ucast (sector_bytes (boot_record vol)) - 1 :: u32) div
    ucast (sector_bytes (boot_record vol)) = of_nat (fat16_root_sectors vol)"
proof -
  define n where "n = unat (dirent_count (boot_record vol))"
  have n: "n < 65536" using unat16_less by (simp add: n_def)
  have sb: "ucast (sector_bytes (boot_record vol)) = (512 :: u32)" using assms by (simp add: word_unat_eq_iff unat_ucast16)
  have "unat (ucast (dirent_count (boot_record vol)) * 32 + 512 - 1 :: u32) = 32 * n + 511"
    using n by (simp add: unat_word_ariths unat_ucast16 n_def)
  moreover have "(32 * n + 511) div 512 = fat16_root_sectors vol" unfolding fat16_root_sectors_def assms n_def [symmetric] Let_def
    by (rule round_up)
  moreover have "fat16_root_sectors vol < 4294967296" using n unfolding fat16_root_sectors_def assms n_def [symmetric] Let_def by auto
  ultimately show ?thesis unfolding sb by (simp add: word_unat_eq_iff unat_div unat_nat)
qed

lemma cluster_sector_entry:
  assumes "vol_sector vol = 512" and "2 \<le> unat cl" and "fat16_sector vol (unat cl) < 65536"
  shows "get_cluster_sector vol cl = Some (of_nat (fat16_sector vol (unat cl)))"
proof -
  let ?br = "boot_record vol"
  have nz: "cl \<noteq> 0" "sector_bytes ?br \<noteq> 0" using assms(1,2) by auto
  have c: "(ucast w :: u32) = of_nat (unat w)" for w :: u16 by (simp add: word_unat_eq_iff unat_ucast16 unat_nat [OF less_trans [OF unat16_less]])
  have c8: "(ucast w :: u32) = of_nat (unat w)" for w :: u8 by simp
  have m: "(ucast cl - 2 :: u32) = of_nat (unat cl - 2)" using assms(2) unfolding c by (simp add: of_nat_diff)
  show ?thesis using nz root_sectors [OF assms(1)] m
    by (simp add: get_cluster_sector_def Let_def fat16_sector_def)
qed

lemma file_ok_chain:
  assumes ok: "file_ok D vol (unat cluster) n" and "0 < n"
  shows "chain_in D vol (ucast cluster) n" and "p < n \<Longrightarrow> chain_byte D vol (ucast cluster) p = file_byte D vol (unat cluster) p"
proof -
  let ?cl = "ucast cluster :: u16"
  have v: "vol_sector vol = 512" "0 < unat (cluster_sectors (boot_record vol))" using ok by (simp_all add: file_ok_def)
  have c: "2 \<le> fat16_cluster D vol (unat cluster) k" "fat16_cluster D vol (unat cluster) k < 0xFFF8"
    "fat16_sector vol (fat16_cluster D vol (unat cluster) k) + unat (cluster_sectors (boot_record vol)) < 65536"
    if "k * cluster_len vol < n" for k using ok that by (simp_all add: file_ok_def)
  have u: "unat ?cl = unat cluster" using c(2) [of 0] assms(2) by (simp add: fat16_cluster_def unsigned_ucast_eq take_bit_nat_eq_self)
  have at: "unat (cluster_at D vol ?cl k) = fat16_cluster D vol (unat cluster) k" if "k * cluster_len vol < n" for k
    using cluster_at_entry [OF v(1), of k D ?cl] c(2) that unfolding u by (meson le_less_trans mult_le_mono1)
  have sec: "get_cluster_sector vol (cluster_at D vol ?cl k) = Some (of_nat (fat16_sector vol (fat16_cluster D vol (unat cluster) k)))"
    if "k * cluster_len vol < n" for k
    using cluster_sector_entry [OF v(1), of "cluster_at D vol ?cl k"] c [OF that] at [OF that] by simp
  have "unat (of_nat (fat16_sector vol (fat16_cluster D vol (unat cluster) k)) :: u32) = fat16_sector vol (fat16_cluster D vol (unat cluster) k)"
    if "k * cluster_len vol < n" for k using c(3) [OF that] by (intro unat_nat) simp
  then show "chain_in D vol ?cl n" unfolding chain_in_def using sec c(3) by (auto simp: cluster_sector_def)
  show "chain_byte D vol ?cl p = file_byte D vol (unat cluster) p" if "p < n"
  proof -
    have "p div cluster_len vol * cluster_len vol < n" using that by (meson div_times_less_eq_dividend le_less_trans)
    then show ?thesis using sec v(1) by (simp add: chain_byte_def file_byte_def cluster_sector_def cluster_len_def Let_def)
  qed
qed

text \<open>
  C13. Over a server that answers exactly the reads of 512 bytes of the disk of the volume at its
  port, with the bytes of the disk, with buffers that do not overlap, and for a well-formed file on
  a FAT16 volume with sectors of 512 bytes, fat_read returns: it gives the number of bytes the file
  still holds past the offset, at most the length asked for, and puts into the buffer exactly those
  bytes of the file, as the layout of a FAT16 volume places them on the disk. The cached sectors
  stay true to the disk, and no memory but the buffer, the two sector buffers and the frame of the
  messages is changed. The clusters of the file must lie in the first 65535 sectors, the table
  within them, and offset plus length must not overflow: last_sector has 16 bits, and beyond that
  the code takes one sector for another.
\<close>

theorem fat_read_contents:
  assumes lay: "fat_layout fp bf ret (unat len)" and rs: "unat (reserved_sectors (boot_record vol)) < 65000"
    and nc: "cached D (next_last c) (next_buf bf) (umem s)" and rc: "cached D (read_last c) (read_buf bf) (umem s)"
    and ok: "file_ok D vol (unat (lw (fl + file_cluster) s)) (unat (lw (fl + file_size) s))"
    and top: "unat offset + unat len < 4294967296"
  defines "n \<equiv> min (unat len) (unat (lw (fl + file_size) s) - unat offset)"
  shows "\<exists>c' s'. fat_read (disk_trap (vol_device vol) (vol_disk vol) D) fp bf vol fl offset len ret c s = Some (of_nat n, c', s') \<and>
     cached D (next_last c') (next_buf bf) (umem s') \<and> cached D (read_last c') (read_buf bf) (umem s') \<and>
     (\<forall>i<n. umem s' (ret + of_nat i) = file_byte D vol (unat (lw (fl + file_cluster) s)) (unat offset + i)) \<and>
     (\<forall>x. 56 \<le> unat (x - fp) \<and> 512 \<le> unat (x - next_buf bf) \<and> 512 \<le> unat (x - read_buf bf) \<and> n \<le> unat (x - ret) \<longrightarrow>
        umem s' x = umem s x)"
proof (cases "offset < lw (fl + file_size) s")
  case False
  then show ?thesis using nc rc by (simp add: fat_read_def n_def word_less_nat_alt word_le_nat_alt)
next
  case True
  have B: "0 < cluster_len vol" using ok by (simp add: file_ok_def cluster_len_def)
  have "0 < unat (lw (fl + file_size) s)" using True by (simp add: word_less_nat_alt)
  note ch = file_ok_chain [OF ok this]
  define l where "l = (if offset + len > lw (fl + file_size) s then lw (fl + file_size) s - offset else len)"
  have n: "unat l = n" unfolding l_def n_def by (rule fat_read_length [OF True top])
  have le: "n \<le> unat len" "unat offset + n \<le> unat (lw (fl + file_size) s)" using True by (auto simp: n_def word_less_nat_alt)
  have chain: "chain_in D vol (ucast (lw (fl + file_cluster) s)) (unat offset + n)"
    using chain_in_add [OF ch(1), of 0] le(2) by simp
  from fat_read_loop_disk [OF fat_layout_le [OF lay, of "unat l"] rs B nc rc, where curr_pos = 0 and offset = offset and cluster = "lw (fl + file_cluster) s"]
  obtain c' s' where "fat_read_loop (disk_trap (vol_device vol) (vol_disk vol) D) fp bf vol ret l 0 (lw (fl + file_cluster) s) offset c s = Some (c', s')"
     "cached D (next_last c') (next_buf bf) (umem s')" "cached D (read_last c') (read_buf bf) (umem s')"
     "\<forall>i<n. umem s' (ret + of_nat i) = chain_byte D vol (ucast (lw (fl + file_cluster) s)) (unat offset + i)"
     "\<forall>x. 56 \<le> unat (x - fp) \<and> 512 \<le> unat (x - next_buf bf) \<and> 512 \<le> unat (x - read_buf bf) \<and> n \<le> unat (x - ret) \<longrightarrow>
        umem s' x = umem s x"
    using n le top chain by (auto simp: n)
  moreover have "l = of_nat n" "\<not> lw (fl + file_size) s \<le> offset" using n True by auto
  moreover have "chain_byte D vol (ucast (lw (fl + file_cluster) s)) (unat offset + i) =
      file_byte D vol (unat (lw (fl + file_cluster) s)) (unat offset + i)" if "i < n" for i using ch(2) that le(2) by simp
  ultimately show ?thesis unfolding fat_read_def l_def [symmetric] by simp
qed

end
