(* ===== verification/Shell.thy ===== *)
theory Shell
  imports Vfsd
begin

text \<open>
  \<open>user/test-i586/main.c\<close>: the shell.  It opens the terminal and the keyboard through the file system server,
  reads a line key by key with echo and backspace, and runs the command of the line.
\<close>

subsection \<open>Files\<close>

text \<open>\<open>open\<close>, \<open>read\<close> and \<open>write\<close>; \<open>fp\<close> is the address of the two messages.\<close>

definition open_file :: "(memory \<times> 'w) trap \<Rightarrow> u32 \<Rightarrow> u32 \<Rightarrow> u32 \<Rightarrow> 'w alloc \<Rightarrow> (u32 \<times> 'w alloc) option" where
  "open_file trap fp filesystem path s = do {
     let req = fp;
     let res = fp + MSG_STRUCT;
     let s = msg_create req filesystem VFS_OPEN s;
     n \<leftarrow> strlen path (umem s);
     let s = msg_attach_payload req path (n + 1) s;
     (_, s) \<leftarrow> send trap req s;
     (_, s) \<leftarrow> wait trap (lw req s) s;
     (_, s) \<leftarrow> recv trap res s;
     Some (lw (res + msg_code_off) s, s)
   }"

definition read_file :: "(memory \<times> 'w) trap \<Rightarrow> u32 \<Rightarrow> u32 \<Rightarrow> u32 \<Rightarrow> u32 \<Rightarrow> u32 \<Rightarrow> u32 \<Rightarrow> 'w alloc \<Rightarrow> (u32 \<times> 'w alloc) option" where
  "read_file trap fp filesystem fd buf sz off s = do {
     let req = fp;
     let res = fp + MSG_STRUCT;
     let s = msg_create req filesystem VFS_READ s;
     let s = msg_set_args req [fd, sz, off] s;
     (_, s) \<leftarrow> send trap req s;
     (_, s) \<leftarrow> wait trap (lw req s) s;
     let s = msg_attach_payload res buf sz s;
     (_, s) \<leftarrow> recv trap res s;
     Some (lw (res + msg_code_off) s, s)
   }"

definition write_file :: "(memory \<times> 'w) trap \<Rightarrow> u32 \<Rightarrow> u32 \<Rightarrow> u32 \<Rightarrow> u32 \<Rightarrow> u32 \<Rightarrow> u32 \<Rightarrow> 'w alloc \<Rightarrow> (u32 \<times> 'w alloc) option" where
  "write_file trap fp filesystem fd buf sz off s = do {
     let req = fp;
     let res = fp + MSG_STRUCT;
     let s = msg_create req filesystem VFS_WRITE s;
     let s = msg_set_args req [fd, sz, off] s;
     let s = msg_attach_payload req buf sz s;
     (_, s) \<leftarrow> send trap req s;
     (_, s) \<leftarrow> wait trap (lw req s) s;
     (_, s) \<leftarrow> recv trap res s;
     Some (lw (res + msg_code_off) s, s)
   }"

text \<open>The global variables.\<close>

record shell =
  sh_filesystem :: u32
  sh_screen :: u32
  sh_keyboard :: u32

definition print_msg :: "(memory \<times> 'w) trap \<Rightarrow> u32 \<Rightarrow> shell \<Rightarrow> u32 \<Rightarrow> 'w alloc \<Rightarrow> 'w alloc option" where
  "print_msg trap fp g msg s = do {
     n \<leftarrow> strlen msg (umem s);
     (_, s) \<leftarrow> write_file trap fp (sh_filesystem g) (sh_screen g) msg (n + 1) 0 s;
     Some s
   }"

partial_function (option) open_wait :: "(memory \<times> 'w) trap \<Rightarrow> u32 \<Rightarrow> u32 \<Rightarrow> u32 \<Rightarrow> 'w alloc \<Rightarrow> (u32 \<times> 'w alloc) option" where
  "open_wait trap fp filesystem path s = do {
     (fd, s) \<leftarrow> open_file trap fp filesystem path s;
     if fd = - 1 then open_wait trap fp filesystem path s else Some (fd, s)
   }"

text \<open>The string literals are at the addresses \<open>lit\<close> gives.\<close>

definition shell_start :: "(memory \<times> 'w) trap \<Rightarrow> (string \<Rightarrow> u32) \<Rightarrow> u32 \<Rightarrow> 'w alloc \<Rightarrow> (shell \<times> 'w alloc) option" where
  "shell_start trap lit fp s = do {
     (fs, s) \<leftarrow> svcid_wait trap SVC_VFS s;
     (scr, s) \<leftarrow> open_wait trap fp fs (lit ''/dev/tty'') s;
     let g = \<lparr>sh_filesystem = fs, sh_screen = scr, sh_keyboard = 0\<rparr>;
     s \<leftarrow> print_msg trap fp g (lit (''Shell connected to TTY.'' @ [CHR 0x0A])) s;
     (kbd, s) \<leftarrow> open_wait trap fp fs (lit ''/dev/kbd'') s;
     let g = g\<lparr>sh_keyboard := kbd\<rparr>;
     s \<leftarrow> print_msg trap fp g (lit (''Shell connected to keyboard.'' @ [CHR 0x0A])) s;
     Some (g, s)
   }"

subsection \<open>Lines\<close>

text \<open>
  The variables of \<open>main\<close> in memory: \<open>input_buffer\<close> is at \<open>fp\<close>, \<open>last_key\<close> and \<open>key_str\<close> follow; the frame of the
  functions it calls is below.
\<close>

abbreviation (input) last_key :: "u32 \<Rightarrow> u32" where "last_key fp \<equiv> fp + 256"
abbreviation (input) key_str :: "u32 \<Rightarrow> u32" where "key_str fp \<equiv> fp + 257"
abbreviation (input) below :: "u32 \<Rightarrow> u32" where "below fp \<equiv> fp - 2 * MSG_STRUCT"

partial_function (option) read_key :: "(memory \<times> 'w) trap \<Rightarrow> u32 \<Rightarrow> shell \<Rightarrow> 'w alloc \<Rightarrow> 'w alloc option" where
  "read_key trap fp g s = do {
     (r, s) \<leftarrow> read_file trap (below fp) (sh_filesystem g) (sh_keyboard g) (last_key fp) 1 0 s;
     if sint r < 1 then read_key trap fp g s else Some s
   }"

definition shell_key :: "(memory \<times> 'w) trap \<Rightarrow> (string \<Rightarrow> u32) \<Rightarrow> u32 \<Rightarrow> shell \<Rightarrow> u32 \<Rightarrow> 'w alloc \<Rightarrow> (u32 \<times> 'w alloc) option" where
  "shell_key trap lit fp g input_pos s = do {
     let show_key = lb (last_key fp) s;
     (show_key, input_pos, s) \<leftarrow> (if sint show_key < 32 then do {
         (input_pos, s) \<leftarrow> (if show_key = 8 \<and> input_pos \<noteq> 0 then do {
             s \<leftarrow> print_msg trap (below fp) g (lit [CHR 0x08]) s;
             Some (input_pos - 1, s)
           }
           else Some (input_pos, s));
         Some (0, input_pos, s)
       }
       else Some (show_key, input_pos, s));
     if input_pos \<ge> 255 then Some (input_pos, s)
     else if show_key \<noteq> 0 then do {
       let s = sb (fp + input_pos) show_key s;
       let s = sb (key_str fp + 1) 0 (sb (key_str fp) show_key s);
       s \<leftarrow> print_msg trap (below fp) g (key_str fp) s;
       Some (input_pos + 1, s)
     }
     else Some (input_pos, s)
   }"

partial_function (option) shell_input ::
    "(memory \<times> 'w) trap \<Rightarrow> (string \<Rightarrow> u32) \<Rightarrow> u32 \<Rightarrow> shell \<Rightarrow> u32 \<Rightarrow> 'w alloc \<Rightarrow> (u32 \<times> 'w alloc) option" where
  "shell_input trap lit fp g input_pos s =
     (if lb (last_key fp) s \<noteq> 0x0A then do {
        s \<leftarrow> read_key trap fp g s;
        (input_pos, s) \<leftarrow> shell_key trap lit fp g input_pos s;
        shell_input trap lit fp g input_pos s
      }
      else Some (input_pos, s))"

definition shell_line :: "(memory \<times> 'w) trap \<Rightarrow> (string \<Rightarrow> u32) \<Rightarrow> u32 \<Rightarrow> shell \<Rightarrow> 'w alloc \<Rightarrow> 'w alloc option" where
  "shell_line trap lit fp g s = do {
     let s = set_umem (snd (memset fp 0 256 (umem s))) s;
     s \<leftarrow> print_msg trap (below fp) g (lit ''$> '') s;
     let s = sb (last_key fp) 0 s;
     (input_pos, s) \<leftarrow> shell_input trap lit fp g 0 s;
     Some (sb (fp + input_pos) 0 s)
   }"

subsection \<open>Commands\<close>

definition shell_read :: "(memory \<times> 'w) trap \<Rightarrow> (string \<Rightarrow> u32) \<Rightarrow> u32 \<Rightarrow> shell \<Rightarrow> u32 \<Rightarrow> 'w alloc \<Rightarrow> 'w alloc option" where
  "shell_read trap lit fp g arg s = do {
     (fd, s) \<leftarrow> open_file trap (below fp) (sh_filesystem g) arg s;
     if fd \<noteq> - 1 then do {
       (buf, s) \<leftarrow> malloc trap 2048 s;
       dassert (buf \<noteq> 0);
       let s = set_umem (snd (memset buf 0 2048 (umem s))) s;
       s \<leftarrow> print_msg trap (below fp) g (lit (''reading...'' @ [CHR 0x0A])) s;
       (res, s) \<leftarrow> read_file trap (below fp) (sh_filesystem g) fd buf 2048 0 s;
       s \<leftarrow> (if res = - 1 then print_msg trap (below fp) g (lit ''Error.'') s
            else if res = 0 then print_msg trap (below fp) g (lit ''Nothing to read.'') s
            else print_msg trap (below fp) g buf s);
       Some (free buf s)
     }
     else print_msg trap (below fp) g (lit ''File not found.'') s
   }"

definition shell_command :: "(memory \<times> 'w) trap \<Rightarrow> (string \<Rightarrow> u32) \<Rightarrow> u32 \<Rightarrow> shell \<Rightarrow> 'w alloc \<Rightarrow> 'w alloc option" where
  "shell_command trap lit fp g s = do {
     let cmd = fp;
     arg \<leftarrow> strchr fp 0x20 (umem s);
     let (arg, s) = (if arg \<noteq> 0 then (arg + 1, sb arg 0 s) else (arg, s));
     s \<leftarrow> print_msg trap (below fp) g (lit [CHR 0x0A]) s;
     is_read \<leftarrow> strcmp cmd (lit ''read'') (umem s);
     if is_read = 0 then do {
       s \<leftarrow> (if arg \<noteq> 0 then shell_read trap lit fp g arg s else Some s);
       print_msg trap (below fp) g (lit [CHR 0x0A]) s
     }
     else do {
       is_load \<leftarrow> strcmp cmd (lit ''load'') (umem s);
       if is_load = 0 then print_msg trap (below fp) g (lit [CHR 0x0A]) s
       else do {
         is_clear \<leftarrow> strcmp cmd (lit ''clear'') (umem s);
         if is_clear = 0 then print_msg trap (below fp) g (lit (CHR 0x1B # ''[2J'')) s
         else do {
           s \<leftarrow> print_msg trap (below fp) g (lit (''Unknown command '' @ [CHR 0x27])) s;
           s \<leftarrow> print_msg trap (below fp) g cmd s;
           s \<leftarrow> print_msg trap (below fp) g (lit [CHR 0x27, CHR 0x2E]) s;
           print_msg trap (below fp) g (lit [CHR 0x0A]) s
         }
       }
     }
   }"

definition shell_round :: "(memory \<times> 'w) trap \<Rightarrow> (string \<Rightarrow> u32) \<Rightarrow> u32 \<Rightarrow> shell \<Rightarrow> 'w alloc \<Rightarrow> 'w alloc option" where
  "shell_round trap lit fp g s = do {
     s \<leftarrow> shell_line trap lit fp g s;
     shell_command trap lit fp g s
   }"

subsection \<open>A keyboard and a screen behind the server\<close>

text \<open>
  A server that answers a read with the next key and a write by showing the bytes; the code of the
  last request is remembered until its answer is received.  Without a key the read is not answered.
\<close>

type_synonym tty = "u32 \<times> u8 list \<times> u8 list list"

definition bytes_at :: "memory \<Rightarrow> u32 \<Rightarrow> nat \<Rightarrow> u8 list" where
  "bytes_at m p n = map (\<lambda>i. m (p + of_nat i)) [0..<n]"

definition tty_trap :: "(memory \<times> tty) trap" where
  "tty_trap n args w = (case w of (m, pend, ks, out) \<Rightarrow>
     if n = SYS_send then
       (let req = hd args; code = ld32 m (req + msg_code_off) in
        Some (0, m, code, ks, if code = VFS_WRITE then
          out @ [bytes_at m (ld32 m (req + msg_buf_off)) (unat (ld32 m (req + msg_size_off)))] else out))
     else if n = SYS_wait then Some (0, m, pend, ks, out)
     else if n = SYS_recv then
       (let res = hd args in
        if pend = VFS_READ then (case ks of [] \<Rightarrow> None | k # ks \<Rightarrow>
          Some (1, (st32 m (res + msg_code_off) 1)(ld32 m (res + msg_buf_off) := k), pend, ks, out))
        else Some (0, st32 m (res + msg_code_off) 0, pend, ks, out))
     else None)"

text \<open>The line editor as a function on lists: what a key does to the line, and what is shown for it.\<close>

definition edit_key :: "u8 list \<Rightarrow> u8 \<Rightarrow> u8 list" where
  "edit_key l k = (if sint k < 32 then (if k = 8 then butlast l else l) else if length l < 255 then l @ [k] else l)"

definition key_echo :: "u8 list \<Rightarrow> u8 \<Rightarrow> u8 list list" where
  "key_echo l k = (if k = 8 \<and> l \<noteq> [] then [[8, 0]] else if sint k \<ge> 32 \<and> length l < 255 then [[k, 0]] else [])"

fun line_echo :: "u8 list \<Rightarrow> u8 list \<Rightarrow> u8 list list" where
  "line_echo l [] = []"
| "line_echo l (k # ks) = key_echo l k @ line_echo (edit_key l k) ks"
subsection \<open>Lines are edited\<close>

abbreviation (input) world :: "tty alloc \<Rightarrow> tty" where "world s \<equiv> snd (sys s)"

lemma bytes_at_cstr: "cstr m p bs \<Longrightarrow> bytes_at m p (Suc (length bs)) = bs @ [0]"
  unfolding bytes_at_def by (rule nth_equalityI) (auto simp: cstr_nth cstr_end nth_append less_Suc_eq simp del: upt_Suc)

lemma print_msg_tty:
  assumes str: "cstr (umem s) p bs" and far: "\<And>i. i \<le> length bs \<Longrightarrow> 56 \<le> unat (p + of_nat i - fr)" and w: "world s = (pend, ks, out)"
  shows "\<exists>s'. print_msg tty_trap fr g p s = Some s' \<and> world s' = (VFS_WRITE, ks, out @ [bs @ [0]]) \<and>
     (\<forall>x. 56 \<le> unat (x - fr) \<longrightarrow> umem s' x = umem s x)"
proof -
  let ?n = "of_nat (length bs) + 1 :: u32"
  let ?m1 = "st32 (st32 (st32 (st32 (st32 (st32 (st32 (memset_mem (umem s) fr 0 28) fr (sh_filesystem g)) (fr + 4) 4)
      (fr + 8) (sh_screen g)) (fr + 12) ?n) (fr + 16) 0) (fr + 20) p) (fr + 24) ?n"
  let ?m2 = "st32 ?m1 (fr + 32) 0"
  have m1: "?m1 x = umem s x" if "56 \<le> unat (x - fr)" for x
    using that st32_field [of x fr 0] st32_field [of x fr 4] st32_field [of x fr 8] st32_field [of x fr 12] st32_field [of x fr 16]
      st32_field [of x fr 20] st32_field [of x fr 24] by (simp add: memset_mem_def)
  have flds: "ld32 ?m1 (fr + 4) = 4" "ld32 ?m1 (fr + 20) = p" "ld32 ?m1 (fr + 24) = ?n" by (simp_all add: ld32_st32_near)
  have "cstr ?m1 p bs" by (rule cstr_agree [OF str]) (rule m1 [OF far])
  moreover have "unat ?n = Suc (length bs)"
  proof -
    have "length bs < unat (fr - p)" using far [of "unat (fr - p)"] by (auto simp: not_le [symmetric])
    then show ?thesis using unat32_less [of "fr - p"] by (simp add: unat_word_ariths unat_nat)
  qed
  ultimately have out: "bytes_at ?m1 p (unat ?n) = bs @ [0]" by (simp only: bytes_at_cstr)
  have "print_msg tty_trap fr g p s = Some (s\<lparr>sys := (?m2, 4, ks, out @ [bs @ [0]])\<rparr>)"
    using flds out w strlen_cstr [OF str]
    by (cases "sys s") (simp add: print_msg_def write_file_def msg_create_def msg_set_args_def msg_attach_payload_def memset_fills sw_def lw_def umem_def set_umem_def
        send_def wait_def recv_def syscall1_def tty_trap_def not_iserr_low Let_def add.assoc cong: if_cong)
  moreover have "?m2 x = umem s x" if "56 \<le> unat (x - fr)" for x
    using m1 [OF that] that st32_field [of x fr 32] by simp
  ultimately show ?thesis by (auto simp: umem_def)
qed

lemma ld32_upd: "4 \<le> unat (x - a) \<Longrightarrow> ld32 (m(x := v)) a = ld32 m a"
proof (rule ld32_agree)
  fix i :: nat assume far: "4 \<le> unat (x - a)" and i: "i < 4"
  have "a + of_nat i \<noteq> x"
  proof
    assume "a + of_nat i = x"
    then have "unat (x - a) = i" using i by (auto simp: unat_nat)
    then show False using far i by simp
  qed
  then show "(m(x := v)) (a + of_nat i) = m (a + of_nat i)" by simp
qed

lemma read_key_tty:
  assumes w: "world s = (pend, k # ks, out)"
  shows "\<exists>s'. read_key tty_trap fp g s = Some s' \<and> world s' = (VFS_READ, ks, out) \<and> lb (last_key fp) s' = k \<and>
     (\<forall>x. 56 \<le> unat (x - below fp) \<and> x \<noteq> last_key fp \<longrightarrow> umem s' x = umem s x)"
proof -
  define fr where "fr = below fp"
  have key: "last_key fp = fr + 312" by (simp add: fr_def)
  let ?m1 = "st32 (st32 (st32 (st32 (st32 (memset_mem (umem s) fr 0 28) fr (sh_filesystem g)) (fr + 4) 3)
      (fr + 8) (sh_keyboard g)) (fr + 12) 1) (fr + 16) 0"
  let ?m2 = "st32 (st32 ?m1 (fr + 48) (fr + 312)) (fr + 52) 1"
  let ?m3 = "(st32 ?m2 (fr + 32) 1)(fr + 312 := k)"
  have flds: "ld32 ?m1 (fr + 4) = 3" "ld32 ?m2 (fr + 48) = fr + 312" by (simp_all add: ld32_st32_near)
  have code: "ld32 ?m3 (fr + 32) = 1" by (simp add: ld32_upd)
  have "read_file tty_trap fr (sh_filesystem g) (sh_keyboard g) (fr + 312) 1 0 s = Some (1, s\<lparr>sys := (?m3, 3, ks, out)\<rparr>)"
    using flds code w
    by (cases "sys s") (simp add: read_file_def msg_create_def msg_set_args_def msg_attach_payload_def memset_fills sw_def lw_def umem_def set_umem_def
        send_def wait_def recv_def syscall1_def tty_trap_def not_iserr_low Let_def add.assoc cong: if_cong)
  then have "read_key tty_trap fp g s = Some (s\<lparr>sys := (?m3, 3, ks, out)\<rparr>)"
    unfolding key [symmetric] unfolding fr_def by (subst read_key.simps) simp
  moreover have "?m3 x = umem s x" if "56 \<le> unat (x - fr)" "x \<noteq> fr + 312" for x
    using that st32_field [of x fr 0] st32_field [of x fr 4] st32_field [of x fr 8] st32_field [of x fr 12] st32_field [of x fr 16]
      st32_field [of x fr 48] st32_field [of x fr 52] st32_field [of x fr 32] by (simp add: memset_mem_def)
  ultimately show ?thesis unfolding key fr_def [symmetric] by (auto simp: umem_def lb_def)
qed

text \<open>The state between two keys: the line so far is in the buffer.\<close>

definition editing :: "(string \<Rightarrow> u32) \<Rightarrow> u32 \<Rightarrow> u8 list \<Rightarrow> tty alloc \<Rightarrow> bool" where
  "editing lit fp l s \<longleftrightarrow> length l \<le> 255 \<and> (\<forall>i<length l. umem s (fp + of_nat i) = l ! i) \<and>
     cstr (umem s) (lit [CHR 0x08]) [8] \<and> (\<forall>i\<le>1. 315 \<le> unat (lit [CHR 0x08] + of_nat i - below fp))"

lemma frame_offset:
  assumes "i < j" and "j < 4294967296"
  shows "fp + of_nat i \<noteq> fp + (of_nat j :: u32)"
proof
  assume "fp + of_nat i = fp + (of_nat j :: u32)"
  then have "unat (of_nat i :: u32) = unat (of_nat j :: u32)" by simp
  then show False using assms by (simp add: unat_nat)
qed

lemma editing_same:
  assumes "editing lit fp l s" and "\<And>x. 56 \<le> unat (x - below fp) \<Longrightarrow> x \<noteq> last_key fp \<Longrightarrow> umem s' x = umem s x"
  shows "editing lit fp l s'"
proof -
  have "umem s' (fp + of_nat i) = umem s (fp + of_nat i)" if "i < length l" for i
  proof (rule assms(2))
    have i: "i < 256" using that assms(1) by (simp add: editing_def)
    then show "56 \<le> unat (fp + of_nat i - below fp)" by (simp add: unat_word_ariths unat_nat)
    show "fp + of_nat i \<noteq> last_key fp" using frame_offset [OF i, of fp] by simp
  qed
  moreover have "cstr (umem s') (lit [CHR 0x08]) [8]"
  proof (rule cstr_agree)
    show "cstr (umem s) (lit [CHR 0x08]) [8]" using assms(1) by (simp add: editing_def)
    fix i assume "i \<le> length [8 :: u8]"
    then have "315 \<le> unat (lit [CHR 0x08] + of_nat i - below fp)" using assms(1) by (simp add: editing_def)
    then show "umem s' (lit [CHR 0x08] + of_nat i) = umem s (lit [CHR 0x08] + of_nat i)"
      by (intro assms(2)) (auto simp: diff_diff_eq)
  qed
  ultimately show ?thesis using assms(1) by (simp add: editing_def)
qed

lemma editing_append:
  assumes ed: "editing lit fp l s" and "length l < 255"
  shows "editing lit fp (l @ [k]) (sb (key_str fp + 1) 0 (sb (key_str fp) k (sb (fp + of_nat (length l)) k s)))" (is "editing lit fp _ ?s")
proof -
  have o: "fp + of_nat i \<noteq> key_str fp" "fp + of_nat i \<noteq> key_str fp + 1" if "i \<le> 255" for i
    using that frame_offset [of i 257 fp] frame_offset [of i 258 fp] by (simp_all add: add.assoc)
  have "umem ?s (fp + of_nat i) = (l @ [k]) ! i" if "i < Suc (length l)" for i
    using ed that assms(2) o [of i] frame_offset [of i "length l" fp] by (auto simp: sb_def editing_def nth_append less_Suc_eq)
  moreover have far: "umem ?s x = umem s x" if "315 \<le> unat (x - below fp)" for x
  proof -
    have "x \<noteq> fp + of_nat i" if "i \<le> 258" for i
    proof
      assume "x = fp + of_nat i"
      then have "unat (x - below fp) = i + 56" using that by (simp add: unat_word_ariths unat_nat)
      then show False using \<open>315 \<le> unat (x - below fp)\<close> that by simp
    qed
    from this [of "length l"] this [of 257] this [of 258] show ?thesis using assms(2) by (simp add: sb_def add.commute [of fp])
  qed
  have "cstr (umem ?s) (lit [CHR 0x08]) [8]"
  proof (rule cstr_agree)
    show "cstr (umem s) (lit [CHR 0x08]) [8]" using ed by (simp add: editing_def)
    fix i assume "i \<le> length [8 :: u8]"
    then show "umem ?s (lit [CHR 0x08] + of_nat i) = umem s (lit [CHR 0x08] + of_nat i)"
      using ed by (intro far) (simp add: editing_def)
  qed
  with calculation show ?thesis using ed assms(2) by (simp add: editing_def)
qed

lemma shell_key_tty:
  assumes ed: "editing lit fp l s" and w: "world s = (pend, ks, out)" and k: "lb (last_key fp) s = k"
  shows "\<exists>s' pend'. shell_key tty_trap lit fp g (of_nat (length l)) s = Some (of_nat (length (edit_key l k)), s') \<and>
     editing lit fp (edit_key l k) s' \<and> world s' = (pend', ks, out @ key_echo l k) \<and> lb (last_key fp) s' = k"
proof -
  have len: "length l \<le> 255" "unat (of_nat (length l) :: u32) = length l" using ed by (simp_all add: editing_def unat_nat)
  consider "sint k < 32" "k = 8" "l \<noteq> []" | "sint k < 32" "k \<noteq> 8 \<or> l = []" | "\<not> sint k < 32" "255 \<le> length l" | "\<not> sint k < 32" "length l < 255"
    by linarith
  then show ?thesis
  proof cases
    case 1
    have "\<exists>s'. print_msg tty_trap (below fp) g (lit [CHR 0x08]) s = Some s' \<and> world s' = (4, ks, out @ [[8] @ [0]]) \<and>
        (\<forall>x. 56 \<le> unat (x - below fp) \<longrightarrow> umem s' x = umem s x)"
      by (rule print_msg_tty [OF _ _ w]) (use ed in \<open>auto simp: editing_def\<close>)
    then obtain s' where s': "print_msg tty_trap (below fp) g (lit [CHR 0x08]) s = Some s'" "world s' = (4, ks, out @ [[8, 0]])"
        "\<forall>x. 56 \<le> unat (x - below fp) \<longrightarrow> umem s' x = umem s x" by auto
    have "editing lit fp l s'" by (rule editing_same [OF ed]) (use s'(3) in simp)
    then have "editing lit fp (butlast l) s'" by (auto simp: editing_def nth_butlast)
    moreover have "lb (last_key fp) s' = k" using s'(3) k by (simp add: lb_def)
    moreover have "(of_nat (length l) :: u32) \<noteq> 0" "of_nat (length l) - 1 = (of_nat (length (butlast l)) :: u32)"
      using 1(3) len by (auto simp: word_unat_eq_iff of_nat_diff Suc_le_eq)
    moreover have "\<not> 255 \<le> (of_nat (length (butlast l)) :: u32)"
      using len(1) 1(3) by (simp add: word_le_nat_alt unat_nat) 
    ultimately show ?thesis using 1 s'(1,2) k by (simp add: shell_key_def edit_key_def key_echo_def)
  next
    case 2
    have "key_echo l k = []" "edit_key l k = l" using 2 by (auto simp: key_echo_def edit_key_def)
    moreover have "shell_key tty_trap lit fp g (of_nat (length l)) s = Some (of_nat (length l), s)"
      using 2 k len by (auto simp: shell_key_def word_le_nat_alt)
    ultimately show ?thesis using ed w k by simp
  next
    case 3
    then have "(255 :: u32) \<le> of_nat (length l)" using len by (simp add: word_le_nat_alt)
    then show ?thesis using 3 ed w k by (auto simp: shell_key_def key_echo_def edit_key_def)
  next
    case 4
    define s1 where "s1 = sb (key_str fp + 1) 0 (sb (key_str fp) k (sb (fp + of_nat (length l)) k s))"
    have o: "fp + of_nat i \<noteq> key_str fp" "fp + of_nat i \<noteq> key_str fp + 1" "fp + of_nat i \<noteq> last_key fp" if "i \<le> 255" for i
      using that frame_offset [of i 257 fp] frame_offset [of i 258 fp] frame_offset [of i 256 fp] by (simp_all add: add.assoc)
    have s1: "sb (fp + 258) 0 (sb (fp + 257) k (sb (fp + of_nat (length l)) k s)) = s1" by (simp add: s1_def add.commute [of fp 258])
    have k0: "k \<noteq> 0" "k \<noteq> 8" using 4(1) by auto
    have str: "cstr (umem s1) (key_str fp) [k]" using k0 by (simp add: s1_def sb_def)
    have "\<exists>s'. print_msg tty_trap (below fp) g (key_str fp) s1 = Some s' \<and> world s' = (4, ks, out @ [[k] @ [0]]) \<and>
        (\<forall>x. 56 \<le> unat (x - below fp) \<longrightarrow> umem s' x = umem s1 x)"
      by (rule print_msg_tty [OF str]) (use w in \<open>auto simp: s1_def sb_def le_Suc_eq set_umem_def\<close>)
    then obtain s' where s': "print_msg tty_trap (below fp) g (key_str fp) s1 = Some s'" "world s' = (4, ks, out @ [[k, 0]])"
        "\<forall>x. 56 \<le> unat (x - below fp) \<longrightarrow> umem s' x = umem s1 x" by auto
    have "editing lit fp (l @ [k]) s1" unfolding s1_def by (rule editing_append [OF ed 4(2)])
    then have "editing lit fp (l @ [k]) s'" by (rule editing_same) (use s'(3) in simp)
    moreover have "lb (last_key fp) s' = k" using s'(3) k o [of "length l"] len(1) by (simp add: lb_def s1_def sb_def)
    moreover have "\<not> (255 :: u32) \<le> of_nat (length l)" using 4(2) len by (simp add: word_le_nat_alt)
    ultimately show ?thesis using 4 s'(1,2) k k0 by (simp add: shell_key_def edit_key_def key_echo_def s1 add.commute)
  qed
qed

lemma shell_input_tty:
  assumes "editing lit fp l s" and "world s = (pend, ks @ 0x0A # rest, out)" and "lb (last_key fp) s \<noteq> 0x0A" and "0x0A \<notin> set ks"
  shows "\<exists>s' pend'. shell_input tty_trap lit fp g (of_nat (length l)) s = Some (of_nat (length (fold (\<lambda>k l. edit_key l k) ks l)), s') \<and>
     editing lit fp (fold (\<lambda>k l. edit_key l k) ks l) s' \<and> world s' = (pend', rest, out @ line_echo l ks)"
  using assms
proof (induction ks arbitrary: l s pend out)
  case Nil
  from read_key_tty [of s pend "0x0A" rest out fp g] Nil.prems(2)
  obtain s1 where s1: "read_key tty_trap fp g s = Some s1" "world s1 = (3, rest, out)" "lb (last_key fp) s1 = 0x0A"
      "\<forall>x. 56 \<le> unat (x - below fp) \<and> x \<noteq> last_key fp \<longrightarrow> umem s1 x = umem s x" by auto
  have "editing lit fp l s1" by (rule editing_same [OF Nil.prems(1)]) (use s1(4) in blast)
  from shell_key_tty [OF this s1(2,3), of g]
  obtain s2 pend' where s2: "shell_key tty_trap lit fp g (of_nat (length l)) s1 = Some (of_nat (length l), s2)" "editing lit fp l s2"
      "world s2 = (pend', rest, out)" "lb (last_key fp) s2 = 0x0A" by (auto simp: edit_key_def key_echo_def)
  then show ?case using Nil.prems(3) s1(1)
    by (subst shell_input.simps) (simp, subst shell_input.simps, simp)
next
  case (Cons k ks)
  from read_key_tty [of s pend k "ks @ 0x0A # rest" out fp g] Cons.prems(2)
  obtain s1 where s1: "read_key tty_trap fp g s = Some s1" "world s1 = (3, ks @ 0x0A # rest, out)" "lb (last_key fp) s1 = k"
      "\<forall>x. 56 \<le> unat (x - below fp) \<and> x \<noteq> last_key fp \<longrightarrow> umem s1 x = umem s x" by auto
  have "editing lit fp l s1" by (rule editing_same [OF Cons.prems(1)]) (use s1(4) in blast)
  from shell_key_tty [OF this s1(2,3), of g]
  obtain s2 pend' where s2: "shell_key tty_trap lit fp g (of_nat (length l)) s1 = Some (of_nat (length (edit_key l k)), s2)"
      "editing lit fp (edit_key l k) s2" "world s2 = (pend', ks @ 0x0A # rest, out @ key_echo l k)" "lb (last_key fp) s2 = k" by blast
  have "shell_input tty_trap lit fp g (of_nat (length l)) s = shell_input tty_trap lit fp g (of_nat (length (edit_key l k))) s2"
    using Cons.prems(3) s1(1) s2(1) by (subst shell_input.simps) simp
  then show ?case using Cons.IH [OF s2(2,3)] Cons.prems(4) s2(4) by auto
qed
lemma cstr_bytes:
  "\<lbrakk>\<And>i. i < length l \<Longrightarrow> m (p + of_nat i) = l ! i; 0 \<notin> set l; m (p + of_nat (length l)) = 0\<rbrakk> \<Longrightarrow> cstr m p l"
proof (induction l arbitrary: p)
  case (Cons b l)
  have "cstr m (p + 1) l"
  proof (rule Cons.IH)
    show "m (p + 1 + of_nat i) = l ! i" if "i < length l" for i using Cons.prems(1) [of "Suc i"] that by (simp add: add.assoc)
  qed (use Cons.prems(2,3) in \<open>simp_all add: add.assoc\<close>)
  then show ?case using Cons.prems(1) [of 0] Cons.prems(2) by auto
qed simp

lemma edited_no_zero: "0 \<notin> set l \<Longrightarrow> 0 \<notin> set (fold (\<lambda>k l. edit_key l k) ks l)"
proof (induction ks arbitrary: l)
  case (Cons k ks)
  have "0 \<notin> set (edit_key l k)" using Cons.prems by (auto simp: edit_key_def dest: in_set_butlastD)
  then show ?case using Cons.IH by simp
qed simp

text \<open>A literal that lies apart from the variables and the messages.\<close>

definition literal_at :: "(string \<Rightarrow> u32) \<Rightarrow> u32 \<Rightarrow> tty alloc \<Rightarrow> string \<Rightarrow> bool" where
  "literal_at lit fp s str \<longleftrightarrow> cstr (umem s) (lit str) (map of_char str) \<and>
     (\<forall>i\<le>length str. 315 \<le> unat (lit str + of_nat i - below fp))"

lemma literal_at_same:
  assumes lit: "literal_at lit fp s str" and same: "\<And>x. 315 \<le> unat (x - below fp) \<Longrightarrow> umem s' x = umem s x"
  shows "literal_at lit fp s' str"
proof -
  have "cstr (umem s') (lit str) (map of_char str)"
  proof (rule cstr_agree)
    show "cstr (umem s) (lit str) (map of_char str)" using lit by (simp add: literal_at_def)
    fix i assume "i \<le> length (map of_char str :: u8 list)"
    then show "umem s' (lit str + of_nat i) = umem s (lit str + of_nat i)" using lit by (intro same) (simp add: literal_at_def)
  qed
  then show ?thesis using lit by (simp add: literal_at_def)
qed

lemma print_literal:
  assumes "literal_at lit fp s str" and "world s = (pend, ks, out)"
  shows "\<exists>s'. print_msg tty_trap (below fp) g (lit str) s = Some s' \<and> world s' = (VFS_WRITE, ks, out @ [map of_char str @ [0]]) \<and>
     (\<forall>x. 56 \<le> unat (x - below fp) \<longrightarrow> umem s' x = umem s x)"
proof (rule print_msg_tty [OF _ _ assms(2)])
  show "cstr (umem s) (lit str) (map of_char str)" using assms(1) by (simp add: literal_at_def)
  fix i assume "i \<le> length (map of_char str :: u8 list)"
  then have "315 \<le> unat (lit str + of_nat i - below fp)" using assms(1) by (simp add: literal_at_def)
  then show "56 \<le> unat (lit str + of_nat i - below fp)" by linarith
qed

text \<open>
  C34. With a keyboard that delivers keys up to a line feed and a screen that shows what is written,
  reading a line returns: the buffer holds, as a string, the line an ideal editor makes of the keys
  (backspace removes the last character, control characters are ignored, at most 255 characters are
  kept), the keys behind the line feed are left, and the screen has shown the prompt and the echo of
  each key.
\<close>

theorem shell_line_edits:
  assumes lits: "literal_at lit fp s ''$> ''" "literal_at lit fp s [CHR 0x08]"
    and w: "world s = (pend, ks @ 0x0A # rest, out)" and "0x0A \<notin> set ks"
  shows "\<exists>s' pend'. shell_line tty_trap lit fp g s = Some s' \<and> cstr (umem s') fp (fold (\<lambda>k l. edit_key l k) ks []) \<and>
     world s' = (pend', rest, out @ [0x24, 0x3E, 0x20, 0] # line_echo [] ks)"
proof -
  define s0 where "s0 = set_umem (memset_mem (umem s) fp 0 256) s"
  have s0: "umem s0 x = umem s x" if "315 \<le> unat (x - below fp)" for x
  proof -
    define y where "y = x - fp"
    have "x - below fp = y + 56" by (simp add: y_def)
    then have "315 \<le> unat (y + 56)" using that by (simp only:)
    then have "\<not> unat y < 256" by (auto simp: unat_word_ariths)
    then show ?thesis by (simp add: s0_def memset_mem_def y_def)
  qed
  have w0: "world s0 = (pend, ks @ 0x0A # rest, out)" using w by (simp add: s0_def set_umem_def)
  from print_literal [OF literal_at_same [OF lits(1)] w0, OF s0, of g]
  obtain s1 where s1: "print_msg tty_trap (below fp) g (lit ''$> '') s0 = Some s1" "world s1 = (4, ks @ 0x0A # rest, out @ [[0x24, 0x3E, 0x20, 0]])"
      "\<forall>x. 56 \<le> unat (x - below fp) \<longrightarrow> umem s1 x = umem s0 x" by auto
  define s2 where "s2 = sb (last_key fp) 0 s1"
  have "literal_at lit fp s2 [CHR 0x08]"
  proof (rule literal_at_same [OF lits(2)])
    fix x assume x: "315 \<le> unat (x - below fp)"
    then have "x \<noteq> last_key fp" by auto
    then show "umem s2 x = umem s x" using x s0 s1(3) by (simp add: s2_def sb_def)
  qed
  then have "editing lit fp [] s2" by (simp add: editing_def literal_at_def)
  moreover have "world s2 = (4, ks @ 0x0A # rest, out @ [[0x24, 0x3E, 0x20, 0]])" using s1(2) by (simp add: s2_def sb_def set_umem_def)
  ultimately obtain s3 pend' where s3: "shell_input tty_trap lit fp g 0 s2 = Some (of_nat (length (fold (\<lambda>k l. edit_key l k) ks [])), s3)"
      "editing lit fp (fold (\<lambda>k l. edit_key l k) ks []) s3" "world s3 = (pend', rest, out @ [0x24, 0x3E, 0x20, 0] # line_echo [] ks)"
    using shell_input_tty [of lit fp "[]" s2 4 ks rest "out @ [[0x24, 0x3E, 0x20, 0]]" g] assms(4)
    by (auto simp: s2_def sb_def lb_def)
  let ?l = "fold (\<lambda>k l. edit_key l k) ks []" and ?s = "sb (fp + of_nat (length (fold (\<lambda>k l. edit_key l k) ks []))) 0 s3"
  have "cstr (umem ?s) fp ?l"
  proof (rule cstr_bytes)
    fix i assume i: "i < length ?l"
    have "length ?l \<le> 255" using s3(2) by (simp add: editing_def)
    then show "umem ?s (fp + of_nat i) = ?l ! i" using s3(2) i frame_offset [OF i, of fp] by (simp add: sb_def editing_def)
  qed (simp_all add: edited_no_zero sb_def)
  moreover have "shell_line tty_trap lit fp g s = Some ?s"
    using s1(1) s3(1) by (simp add: shell_line_def memset_fills s0_def [symmetric] s2_def [symmetric])
  ultimately show ?thesis using s3(3) by (auto simp: sb_def set_umem_def)
qed

end
