(* ===== verification/Isr_Stub.thy ===== *)
theory Isr_Stub
  imports Libh_Kernel
begin

text \<open>
  \<open>kernel/arch/i586/stub/isr_wrapper.nasm\<close>: the way from an interrupt to \<open>int_callback_common\<close> and
  back, instruction by instruction on the registers and the stack of the processor.
\<close>

subsection \<open>The processor\<close>

record cpu =
  r_eax :: u32
  r_ecx :: u32
  r_edx :: u32
  r_ebx :: u32
  r_esp :: u32
  r_ebp :: u32
  r_esi :: u32
  r_edi :: u32
  r_ds :: u16
  r_es :: u16
  r_fs :: u16
  r_gs :: u16
  r_ss :: u16
  r_cs :: u16
  r_eip :: u32
  r_eflags :: u32
  r_mem :: memory

definition push_l :: "u32 \<Rightarrow> cpu \<Rightarrow> cpu" where
  "push_l v c = c\<lparr>r_esp := r_esp c - 4, r_mem := st32 (r_mem c) (r_esp c - 4) v\<rparr>"

definition pop_l :: "cpu \<Rightarrow> u32 \<times> cpu" where
  "pop_l c = (ld32 (r_mem c) (r_esp c), c\<lparr>r_esp := r_esp c + 4\<rparr>)"

definition pusha :: "cpu \<Rightarrow> cpu" where
  "pusha c = (let t = r_esp c in
     push_l (r_edi c) (push_l (r_esi c) (push_l (r_ebp c) (push_l t (push_l (r_ebx c) (push_l (r_edx c)
       (push_l (r_ecx c) (push_l (r_eax c) c))))))))"

definition popa :: "cpu \<Rightarrow> cpu" where
  "popa c = (
     let (v, c) = pop_l c; c = c\<lparr>r_edi := v\<rparr>;
         (v, c) = pop_l c; c = c\<lparr>r_esi := v\<rparr>;
         (v, c) = pop_l c; c = c\<lparr>r_ebp := v\<rparr>;
         (v, c) = pop_l c;
         (v, c) = pop_l c; c = c\<lparr>r_ebx := v\<rparr>;
         (v, c) = pop_l c; c = c\<lparr>r_edx := v\<rparr>;
         (v, c) = pop_l c; c = c\<lparr>r_ecx := v\<rparr>;
         (v, c) = pop_l c
     in c\<lparr>r_eax := v\<rparr>)"

text \<open>A return to the outer ring also takes the stack pointer and the stack segment.\<close>

definition iret :: "cpu \<Rightarrow> cpu" where
  "iret c = (
     let (v, c) = pop_l c; c = c\<lparr>r_eip := v\<rparr>;
         (v, c) = pop_l c; outer = (v AND 3 \<noteq> ucast (r_cs c) AND 3); c = c\<lparr>r_cs := ucast v\<rparr>;
         (v, c) = pop_l c; c = c\<lparr>r_eflags := v\<rparr>
     in if outer then
          let (v, c) = pop_l c; (w, c) = pop_l c in c\<lparr>r_esp := v, r_ss := ucast w\<rparr>
        else c)"

text \<open>
  The processor takes an interrupt in ring 3: it loads the stack of ring 0 from the task state segment, pushes the
  state of the program and, for some exceptions, an error code, and enters the kernel's code segment with interrupts off.
\<close>

definition has_error :: "nat \<Rightarrow> bool" where
  "has_error n \<longleftrightarrow> n = 8 \<or> (10 \<le> n \<and> n \<le> 14) \<or> n = 17"

definition cpu_interrupt :: "nat \<Rightarrow> u32 \<Rightarrow> u32 \<Rightarrow> cpu \<Rightarrow> cpu" where
  "cpu_interrupt n err esp0 c = (
     let d = c\<lparr>r_esp := esp0, r_ss := 0x10, r_cs := 8, r_eflags := r_eflags c AND NOT 0x200\<rparr>;
         d = push_l (ucast (r_ss c)) d;
         d = push_l (r_esp c) d;
         d = push_l (r_eflags c) d;
         d = push_l (ucast (r_cs c)) d;
         d = push_l (r_eip c) d
     in if has_error n then push_l err d else d)"

subsection \<open>The stubs\<close>

definition isr_noerr_entry :: "cpu \<Rightarrow> cpu" where
  "isr_noerr_entry c = (
     let c = c\<lparr>r_esp := r_esp c - 4\<rparr>;
         c = push_l (r_eax c) c;
         c = c\<lparr>r_eax := ld32 (r_mem c) (r_esp c + 8)\<rparr>;
         c = c\<lparr>r_mem := st32 (r_mem c) (r_esp c + 4) (r_eax c)\<rparr>;
         (v, c) = pop_l c; c = c\<lparr>r_eax := v\<rparr>
     in c\<lparr>r_mem := st32 (r_mem c) (r_esp c + 4) 0\<rparr>)"

text \<open>The frame as the C code sees it, in memory.\<close>

definition frame_words :: "int_frame \<Rightarrow> u32 list" where
  "frame_words f = [GS f, FS f, ES f, DS f, EDI f, ESI f, EBP f, ESP f, EBX f, EDX f, ECX f, EAX f,
     int_num f, err_code f, EIP f, CS f, EFLAGS f, user_esp f, SS f]"

definition frame_at :: "memory \<Rightarrow> u32 \<Rightarrow> int_frame" where
  "frame_at m a = \<lparr>GS = ld32 m a, FS = ld32 m (a + 4), ES = ld32 m (a + 8), DS = ld32 m (a + 12),
     EDI = ld32 m (a + 16), ESI = ld32 m (a + 20), EBP = ld32 m (a + 24), ESP = ld32 m (a + 28),
     EBX = ld32 m (a + 32), EDX = ld32 m (a + 36), ECX = ld32 m (a + 40), EAX = ld32 m (a + 44),
     int_num = ld32 m (a + 48), err_code = ld32 m (a + 52), EIP = ld32 m (a + 56), CS = ld32 m (a + 60),
     EFLAGS = ld32 m (a + 64), user_esp = ld32 m (a + 68), SS = ld32 m (a + 72)\<rparr>"

fun store_words :: "u32 \<Rightarrow> u32 list \<Rightarrow> memory \<Rightarrow> memory" where
  "store_words a [] m = m"
| "store_words a (w # ws) m = store_words (a + 4) ws (st32 m a w)"

text \<open>
  The call of the C function: its argument is the address of the frame, \<open>ra\<close> is the return address, and \<open>clob\<close> what the
  callee leaves in the registers it need not keep.
\<close>

definition call_common :: "u32 \<Rightarrow> u32 \<times> u32 \<times> u32 \<Rightarrow> cpu \<Rightarrow> kstate \<Rightarrow> (cpu \<times> kstate) option" where
  "call_common ra clob c s = do {
     let c = push_l ra c;
     let frame = ld32 (r_mem c) (r_esp c + 4);
     (f, s) \<leftarrow> int_callback_common (frame_at (r_mem c) frame) s;
     let c = c\<lparr>r_mem := store_words frame (frame_words f) (r_mem c)\<rparr>;
     let c = (case clob of (x, y, z) \<Rightarrow> c\<lparr>r_eax := x, r_ecx := y, r_edx := z\<rparr>);
     Some (snd (pop_l c), s)
   }"

definition isr_entry :: "u32 \<Rightarrow> u32 \<times> u32 \<times> u32 \<Rightarrow> cpu \<Rightarrow> kstate \<Rightarrow> (cpu \<times> kstate) option" where
  "isr_entry ra clob c s = do {
     let c = pusha c;
     let c = push_l (ucast (r_gs c)) (push_l (ucast (r_fs c)) (push_l (ucast (r_es c)) (push_l (ucast (r_ds c)) c)));
     let c = c\<lparr>r_eax := r_eax c AND 0xFFFF0000 OR 0x10\<rparr>;
     let ax = (ucast (r_eax c) :: u16);
     let c = c\<lparr>r_ds := ax, r_es := ax, r_fs := ax, r_gs := ax\<rparr>;
     let c = c\<lparr>r_eax := r_esp c\<rparr>;
     let c = push_l (r_eax c) c;
     (c, s) \<leftarrow> call_common ra clob c s;
     let c = c\<lparr>r_esp := r_esp c + 4\<rparr>;
     let (v, c) = pop_l c; let c = c\<lparr>r_gs := ucast v\<rparr>;
     let (v, c) = pop_l c; let c = c\<lparr>r_fs := ucast v\<rparr>;
     let (v, c) = pop_l c; let c = c\<lparr>r_es := ucast v\<rparr>;
     let (v, c) = pop_l c; let c = c\<lparr>r_ds := ucast v\<rparr>;
     let c = popa c;
     let c = c\<lparr>r_esp := r_esp c + 8\<rparr>;
     Some (iret c, s)
   }"

definition isr_wrapper :: "u32 \<Rightarrow> u32 \<times> u32 \<times> u32 \<Rightarrow> nat \<Rightarrow> cpu \<Rightarrow> kstate \<Rightarrow> (cpu \<times> kstate) option" where
  "isr_wrapper ra clob n c s =
     (if n = 8 \<or> (10 \<le> n \<and> n \<le> 14) then isr_entry ra clob (push_l (of_nat n) c) s
      else isr_entry ra clob (isr_noerr_entry (push_l (of_nat n) c)) s)"

subsection \<open>Words on the stack\<close>

fun stack_at :: "memory \<Rightarrow> u32 \<Rightarrow> u32 list \<Rightarrow> bool" where
  "stack_at m a [] \<longleftrightarrow> True"
| "stack_at m a (w # ws) \<longleftrightarrow> ld32 m a = w \<and> stack_at m (a + 4) ws"

lemma stack_at_st32:
  "\<lbrakk>stack_at m b ws; 4 \<le> unat (b - a); unat (b - a) + 4 * length ws \<le> 4294967296\<rbrakk> \<Longrightarrow> stack_at (st32 m a w) b ws"
proof (induction ws arbitrary: b)
  case (Cons v ws)
  have "unat (b + 4 - a) = unat (b - a) + 4" if "ws \<noteq> []"
  proof -
    have "unat (b - a) + 4 < 4294967296" using Cons.prems(3) that by (cases ws) auto
    then have "unat ((b - a) + 4) = unat (b - a) + 4" by (simp add: unat_word_ariths)
    then show ?thesis by (simp add: diff_add_eq)
  qed
  then show ?case using Cons by (cases "ws = []") (auto simp: ld32_st32_near)
qed simp

lemma stack_at_push:
  assumes "stack_at (r_mem c) (r_esp c) ws" and "4 * length ws < 4294967292"
  shows "stack_at (r_mem (push_l w c)) (r_esp (push_l w c)) (w # ws)"
proof -
  have "unat (4 :: u32) = 4" by simp
  then show ?thesis using stack_at_st32 [OF assms(1), of "r_esp c - 4"] assms(2) by (simp add: push_l_def)
qed

lemma store_words_before:
  "\<lbrakk>4 \<le> unat (x - b); 4 * length ws \<le> unat (x - b); unat (x - b) \<le> 4294967292\<rbrakk> \<Longrightarrow> ld32 (store_words b ws m) x = ld32 m x"
proof (induction ws arbitrary: b m)
  case (Cons w ws)
  have "unat (x - (b + 4)) = unat (x - b) - 4" using unat_sub [of 4 "x - b"] Cons.prems(1) by (simp add: word_le_nat_alt diff_diff_add)
  moreover have "4 \<le> 4 * length ws" if "ws \<noteq> []" using that by (cases ws) simp_all
  ultimately show ?case using Cons.IH [of "b + 4" "st32 m b w"] Cons.prems by (cases "ws = []") (simp_all add: ld32_st32_near)
qed simp

lemma stack_at_store:
  "4 * length ws < 4294967296 \<Longrightarrow> stack_at (store_words a ws m) a ws"
proof (induction ws arbitrary: a m)
  case (Cons w ws)
  have "unat (a - (a + 4)) = 4294967292" by simp
  then have "ld32 (store_words (a + 4) ws (st32 m a w)) a = w" using Cons.prems by (simp add: store_words_before)
  then show ?case using Cons by simp
qed simp

lemma frame_at_words: "stack_at m a (frame_words f @ ws) \<longleftrightarrow> frame_at m a = f \<and> stack_at m (a + 76) ws"
  by (cases f) (auto simp: frame_at_def frame_words_def add.assoc)

subsection \<open>From an interrupt and back\<close>

text \<open>The frame of a program interrupted by vector \<open>n\<close>, and the processor after a return to ring 3 with a frame.\<close>

definition user_frame :: "nat \<Rightarrow> u32 \<Rightarrow> u32 \<Rightarrow> cpu \<Rightarrow> int_frame" where
  "user_frame n err esp0 c = \<lparr>GS = ucast (r_gs c), FS = ucast (r_fs c), ES = ucast (r_es c), DS = ucast (r_ds c),
     EDI = r_edi c, ESI = r_esi c, EBP = r_ebp c, ESP = esp0 - 28, EBX = r_ebx c, EDX = r_edx c, ECX = r_ecx c,
     EAX = r_eax c, int_num = of_nat n, err_code = (if has_error n then err else 0), EIP = r_eip c, CS = ucast (r_cs c),
     EFLAGS = r_eflags c, user_esp = r_esp c, SS = ucast (r_ss c)\<rparr>"

definition resumed :: "int_frame \<Rightarrow> memory \<Rightarrow> cpu" where
  "resumed f m = \<lparr>r_eax = EAX f, r_ecx = ECX f, r_edx = EDX f, r_ebx = EBX f, r_esp = user_esp f, r_ebp = EBP f,
     r_esi = ESI f, r_edi = EDI f, r_ds = ucast (DS f), r_es = ucast (ES f), r_fs = ucast (FS f), r_gs = ucast (GS f),
     r_ss = ucast (SS f), r_cs = ucast (CS f), r_eip = EIP f, r_eflags = EFLAGS f, r_mem = m\<rparr>"

text \<open>What the entry pushes.\<close>

definition entered :: "nat \<Rightarrow> u32 \<Rightarrow> u32 \<Rightarrow> cpu \<Rightarrow> cpu \<Rightarrow> bool" where
  "entered n err esp0 c d \<longleftrightarrow> r_esp d = esp0 - 28 \<and> r_cs d = 8 \<and>
     stack_at (r_mem d) (esp0 - 28) [of_nat n, if has_error n then err else 0, r_eip c, ucast (r_cs c), r_eflags c, r_esp c, ucast (r_ss c)] \<and>
     r_eax d = r_eax c \<and> r_ecx d = r_ecx c \<and> r_edx d = r_edx c \<and> r_ebx d = r_ebx c \<and> r_ebp d = r_ebp c \<and>
     r_esi d = r_esi c \<and> r_edi d = r_edi c \<and> r_ds d = r_ds c \<and> r_es d = r_es c \<and> r_fs d = r_fs c \<and> r_gs d = r_gs c"

lemma entered_error:
  assumes "has_error n"
  shows "entered n err esp0 c (push_l (of_nat n) (cpu_interrupt n err esp0 c))"
  using assms
  by (simp add: entered_def cpu_interrupt_def push_l_def ld32_st32_near add.assoc)

lemma entered_noerr:
  assumes "\<not> has_error n"
  shows "entered n err esp0 c (isr_noerr_entry (push_l (of_nat n) (cpu_interrupt n err esp0 c)))"
  using assms
  by (simp add: entered_def cpu_interrupt_def isr_noerr_entry_def push_l_def pop_l_def ld32_st32_near add.assoc)
definition saved :: "cpu \<Rightarrow> cpu" where
  "saved c = (let c = pusha c in
     push_l (ucast (r_gs c)) (push_l (ucast (r_fs c)) (push_l (ucast (r_es c)) (push_l (ucast (r_ds c)) c))))"

lemma saved_simps:
  assumes "entered n err esp0 c d"
  shows "stack_at (r_mem (saved d)) (esp0 - 76) (frame_words (user_frame n err esp0 c))" "r_esp (saved d) = esp0 - 76" "r_cs (saved d) = 8"
  using assms
  by (simp_all add: saved_def pusha_def Let_def entered_def push_l_def frame_words_def user_frame_def ld32_st32_near add.assoc)

lemma saved_frame: 
  assumes "entered n err esp0 c d"
  shows "frame_at (st32 (st32 (r_mem (saved d)) (esp0 - 80) v) (esp0 - 84) w) (esp0 - 76) = user_frame n err esp0 c"
proof -
  have "stack_at (st32 (st32 (r_mem (saved d)) (esp0 - 80) v) (esp0 - 84) w) (esp0 - 76) (frame_words (user_frame n err esp0 c) @ [])"
    unfolding append_Nil2
    by (rule stack_at_st32 [OF stack_at_st32 [OF saved_simps(1) [OF assms]]]) (simp_all add: frame_words_def)
  then show ?thesis by (simp only: frame_at_words)
qed

lemma store_frame_at: "frame_at (store_words a (frame_words f) m) a = f"
proof -
  have "stack_at (store_words a (frame_words f) m) a (frame_words f @ [])"
    unfolding append_Nil2 by (rule stack_at_store) (simp add: frame_words_def)
  then show ?thesis by (simp only: frame_at_words)
qed

text \<open>The way back: the registers come from the frame.\<close>

definition restored :: "cpu \<Rightarrow> cpu" where
  "restored c = (
     let (v, c) = pop_l c; c = c\<lparr>r_gs := ucast v\<rparr>;
         (v, c) = pop_l c; c = c\<lparr>r_fs := ucast v\<rparr>;
         (v, c) = pop_l c; c = c\<lparr>r_es := ucast v\<rparr>;
         (v, c) = pop_l c; c = c\<lparr>r_ds := ucast v\<rparr>;
         c = popa c
     in iret (c\<lparr>r_esp := r_esp c + 8\<rparr>))"

lemma restored_frame:
  assumes f: "frame_at (r_mem c) (r_esp c) = f" and k: "r_cs c = 8" and u: "CS f AND 3 = 3"
  shows "restored c = resumed f (r_mem c)"
proof -
  have "ld32 (r_mem c) (r_esp c + 60) AND 3 = 3" using u by (simp add: frame_at_def flip: f)
  then show ?thesis using k unfolding f [symmetric]
    by (simp add: restored_def resumed_def popa_def iret_def pop_l_def frame_at_def add.assoc)
qed

lemma isr_entry_steps:
  assumes "entered n err esp0 c d"
  shows "isr_entry ra clob d s = do {
     (f, s) \<leftarrow> int_callback_common (user_frame n err esp0 c) s;
     let m = store_words (esp0 - 76) (frame_words f) (st32 (st32 (r_mem (saved d)) (esp0 - 80) (esp0 - 76)) (esp0 - 84) ra);
     Some (restored ((saved d)\<lparr>r_eax := fst clob, r_ecx := fst (snd clob), r_edx := snd (snd clob),
       r_ds := 0x10, r_es := 0x10, r_fs := 0x10, r_gs := 0x10, r_mem := m\<rparr>), s)
   }"
proof -
  have "(ucast ((x AND 0xFFFF0000) OR 0x10 :: u32) :: u16) = 0x10" for x
  proof -
    have "\<not> bit (push_bit 16 0xFFFF :: u32) n" if "n < 16" for n using that by (simp only: bit_push_bit_iff) simp
    then have "\<not> bit (0xFFFF0000 :: u32) n" if "n < 16" for n using that by simp
    then show ?thesis by (intro bit_word_eqI) (auto simp: bit_simps)
  qed
  then show ?thesis
    using saved_simps(2) [OF assms] saved_frame [OF assms]
    unfolding isr_entry_def saved_def [unfolded Let_def, symmetric] Let_def
    by (cases clob; cases "saved d") (simp add: call_common_def restored_def push_l_def pop_l_def ld32_st32_near Let_def split: prod.splits bind_splits)
qed
lemma isr_wrapper_entered:
  assumes "n \<noteq> 17"
  shows "\<exists>d. isr_wrapper ra clob n (cpu_interrupt n err esp0 c) s = isr_entry ra clob d s \<and> entered n err esp0 c d"
proof (cases "has_error n")
  case True
  then have "n = 8 \<or> (10 \<le> n \<and> n \<le> 14)" using assms by (simp add: has_error_def)
  then show ?thesis using entered_error [OF True] by (auto simp: isr_wrapper_def)
next
  case False
  then have "\<not> (n = 8 \<or> (10 \<le> n \<and> n \<le> 14))" by (simp add: has_error_def)
  then show ?thesis using entered_noerr [OF False] by (auto simp: isr_wrapper_def)
qed

lemma isr_wrapper_returns:
  assumes "n \<noteq> 17" and "int_callback_common (user_frame n err esp0 c) s = Some (f, s')" and "CS f AND 3 = 3"
  shows "\<exists>m. isr_wrapper ra clob n (cpu_interrupt n err esp0 c) s = Some (resumed f m, s')"
proof -
  obtain d where d: "isr_wrapper ra clob n (cpu_interrupt n err esp0 c) s = isr_entry ra clob d s" "entered n err esp0 c d"
    using isr_wrapper_entered [OF assms(1)] by blast
  show ?thesis unfolding d(1) isr_entry_steps [OF d(2)] assms(2)
    by (auto simp: restored_frame [OF _ _ assms(3)] store_frame_at saved_simps [OF d(2)])
qed

text \<open>
  C6. For every vector but 17, an interrupt taken in user mode reaches int_callback_common with a
  frame that holds the registers of the program, the vector and the error code or 0; when it returns
  with a frame for user mode, the processor continues with exactly the registers of that frame,
  whatever the C code left in the registers it need not preserve; when it does not return, neither
  does the stub.
\<close>

theorem isr_wrapper_frame:
  assumes "n < 256" and "n \<noteq> 17"
  shows "case int_callback_common (user_frame n err esp0 c) s of
     None \<Rightarrow> isr_wrapper ra clob n (cpu_interrupt n err esp0 c) s = None
   | Some (f, s') \<Rightarrow> CS f AND 3 = 3 \<longrightarrow> (\<exists>m. isr_wrapper ra clob n (cpu_interrupt n err esp0 c) s = Some (resumed f m, s'))"
proof (cases "int_callback_common (user_frame n err esp0 c) s")
  case None
  obtain d where "isr_wrapper ra clob n (cpu_interrupt n err esp0 c) s = isr_entry ra clob d s" "entered n err esp0 c d"
    using isr_wrapper_entered [OF assms(2)] by blast
  then show ?thesis using None by (simp add: isr_entry_steps)
next
  case (Some a)
  then show ?thesis using isr_wrapper_returns [OF assms(2)] by (auto split: prod.splits)
qed

text \<open>
  Alignment checks: the processor pushes an error code for vector 17, but the stub is one for vectors without; the
  handler finds the error code in the place of the instruction pointer, and so on.
\<close>

lemma alignment_frame_shifted:
  "stack_at (r_mem (isr_noerr_entry (push_l 17 (cpu_interrupt 17 err esp0 c)))) (esp0 - 32)
     [17, 0, err, r_eip c, ucast (r_cs c), r_eflags c, r_esp c, ucast (r_ss c)]"
  by (simp add: cpu_interrupt_def has_error_def isr_noerr_entry_def push_l_def pop_l_def ld32_st32_near add.assoc)

subsection \<open>The trap of the C library\<close>

text \<open>The registers the inline assembly of a system call loads.\<close>

definition syscall_regs :: "u32 \<Rightarrow> u32 list \<Rightarrow> cpu \<Rightarrow> cpu" where
  "syscall_regs n args c = (
     let c = c\<lparr>r_eax := n\<rparr> in
     case args of
       [] \<Rightarrow> c
     | [a1] \<Rightarrow> c\<lparr>r_ebx := a1\<rparr>
     | [a1, a2] \<Rightarrow> c\<lparr>r_ebx := a1, r_ecx := a2\<rparr>
     | a1 # a2 # a3 # _ \<Rightarrow> c\<lparr>r_ebx := a1, r_ecx := a2, r_edx := a3\<rparr>)"

lemma user_frame_syscall:
  "user_frame (unat SYSCALL_ISR) err esp0 (syscall_regs n args c) = trap_frame n args (user_frame (unat SYSCALL_ISR) err esp0 c)"
  by (auto simp: user_frame_def syscall_regs_def trap_frame_def Let_def split: list.splits)

text \<open>
  C5. The trap of the C library is what the processor and the interrupt stubs do: when a program
  loads the registers of a system call and raises the interrupt, the stub builds the frame on the
  kernel stack, calls the handler and returns to the program, with the result of the trap in EAX and
  every other register as the kernel left it in the frame.
\<close>

theorem kernel_trap_stub:
  assumes "kernel_trap n args (user_frame (unat SYSCALL_ISR) err esp0 c, s) = Some (r, f, s')" and "CS f AND 3 = 3"
  shows "\<exists>m. isr_wrapper ra clob (unat SYSCALL_ISR) (cpu_interrupt (unat SYSCALL_ISR) err esp0 (syscall_regs n args c)) s = Some (resumed f m, s') \<and>
     r_eax (resumed f m) = r"
proof -
  have "int_callback_common (user_frame (unat SYSCALL_ISR) err esp0 (syscall_regs n args c)) s = Some (f, s')" "EAX f = r"
    using assms(1) unfolding user_frame_syscall by (auto simp: kernel_trap_def bind_eq_Some_conv split: if_splits)
  then show ?thesis using isr_wrapper_returns [OF _ _ assms(2), of "unat SYSCALL_ISR"] by (simp add: resumed_def)
qed

end
