(* ===== verification/Paging_Window.thy ===== *)
theory Paging_Window
  imports Paging
begin

text \<open>
  The temporary mapping of \<open>kernel/arch/i586/sw/paging.c\<close> as the processor sees it: the last entry of a
  directory maps the directory itself, \<open>paging_map_temp\<close> writes two entries of a page table through that
  mapping, and accesses to the window then reach the frames put there.  It refines the window of
  \<open>kmem\<close>, which keeps the two frames beside the memory.
\<close>

subsection \<open>Accesses through a directory\<close>

definition page_trans :: "memory \<Rightarrow> u32 \<Rightarrow> u32 \<Rightarrow> u32 option" where
  "page_trans m dir v = do { t \<leftarrow> walk m dir v; Some (ENTRY_ADDR (ent_frame t) + (v AND 0xFFF)) }"

definition page_ld :: "memory \<Rightarrow> u32 \<Rightarrow> u32 \<Rightarrow> u32 option" where
  "page_ld m dir v = do { p \<leftarrow> page_trans m dir v; Some (ld32 m p) }"

definition page_st :: "memory \<Rightarrow> u32 \<Rightarrow> u32 \<Rightarrow> u32 \<Rightarrow> memory option" where
  "page_st m dir v w = do { p \<leftarrow> page_trans m dir v; Some (st32 m p w) }"

definition dirent_find :: "u32 \<Rightarrow> u32" where
  "dirent_find a = 0xFFFFF000 + drop_bit 22 a * 4"

definition tblent_find :: "u32 \<Rightarrow> u32" where
  "tblent_find a = 0xFFC00000 + drop_bit 12 a * 4"

definition map_temp :: "memory \<Rightarrow> u32 \<Rightarrow> u32 \<Rightarrow> u32 \<Rightarrow> (u32 \<times> memory) option" where
  "map_temp m dir tempmap phys = do {
     dassert (tempmap \<noteq> 0);
     let te_low = tblent_find tempmap;
     te \<leftarrow> page_ld m dir te_low;
     m \<leftarrow> page_st m dir te_low (ent_set_frame (ENTRY_FRAME phys) te);
     let te_high = tblent_find (tempmap + PAGING_PAGE_SIZE);
     te \<leftarrow> page_ld m dir te_high;
     m \<leftarrow> page_st m dir te_high (ent_set_frame (ENTRY_FRAME (phys + PAGING_PAGE_SIZE)) te);
     Some (tempmap + phys mod PAGING_PAGE_SIZE, m)
   }"

subsection \<open>The recursive mapping\<close>

definition recursive :: "memory \<Rightarrow> u32 \<Rightarrow> bool" where
  "recursive m dir \<longleftrightarrow> page_aligned dir \<and> ent_present (ent m dir 1023) \<and> table_of m dir 1023 = dir"

text \<open>The physical address of the entry that maps a page.\<close>

definition pte :: "memory \<Rightarrow> u32 \<Rightarrow> u32 \<Rightarrow> u32" where
  "pte m dir v = ent_addr (table_of m dir (dir_index v)) (tbl_index v)"

lemma recursive_index:
  assumes "d < (1024 :: nat)" and "t < 1024"
  shows "(4290772992 + 4 * (1024 * d + t)) div 4194304 = 1023"
    "(4290772992 + 4 * (1024 * d + t)) div 4096 mod 1024 = d" "(4290772992 + 4 * (1024 * d + t)) mod 4096 = 4 * t"
proof -
  have e: "4290772992 + 4 * (1024 * d + t) = 4 * t + (1023 * 1024 + d) * 4096" by simp
  show "(4290772992 + 4 * (1024 * d + t)) div 4194304 = 1023" using assms by (intro div_nat_eqI) simp_all
  have "(1023 * 1024 + d) mod 1024 = d" using assms(1) mod_mult_self1 [of d 1023 1024] by (simp only: add.commute mod_less)
  moreover have "(4 * t + (1023 * 1024 + d) * 4096) div 4096 = 1023 * 1024 + d" using assms(2) by (subst div_mult_self1) simp_all
  ultimately show "(4290772992 + 4 * (1024 * d + t)) div 4096 mod 1024 = d" unfolding e by simp
  show "(4290772992 + 4 * (1024 * d + t)) mod 4096 = 4 * t" unfolding e mod_mult_self1 using assms(2) by simp
qed

lemma tblent_find_index:
  "dir_index (tblent_find v) = 1023" "tbl_index (tblent_find v) = dir_index v"
  "tblent_find v AND 0xFFF = 4 * of_nat (tbl_index v)"
proof -
  have "unat v div 4096 < 1048576" using unat32_less [of v] by (simp add: div_less_iff_less_mult)
  moreover have "unat v div 4096 = 1024 * dir_index v + tbl_index v"
    by (simp add: dir_index_nat tbl_index_nat div_mult2_eq [of _ 4096 1024, simplified])
  ultimately have u: "unat (tblent_find v) = 4290772992 + 4 * (1024 * dir_index v + tbl_index v)"
    by (simp add: tblent_find_def unat_word_ariths drop_bit_eq_div unat_div)
  show "dir_index (tblent_find v) = 1023" "tbl_index (tblent_find v) = dir_index v"
    unfolding dir_index_nat [of "tblent_find v"] tbl_index_nat [of "tblent_find v"] u
    by (rule recursive_index [OF dir_index_less tbl_index_less])+
  have "unat (tblent_find v AND 0xFFF) = 4 * tbl_index v"
    unfolding and_page_mask unat_take_bit u using recursive_index(3) [OF dir_index_less tbl_index_less] by simp
  then show "tblent_find v AND 0xFFF = 4 * of_nat (tbl_index v)"
    using tbl_index_less [of v] by (simp add: word_unat_eq_iff unat_word_ariths unat_of_nat del: of_nat_indices tbl_index_less)
qed

lemma page_trans_tblent:
  assumes "recursive m dir" and "ent_present (ent m dir (dir_index v))"
  shows "page_trans m dir (tblent_find v) = Some (pte m dir v)"
  using assms by (simp add: page_trans_def walk_def tblent_find_index recursive_def pte_def ent_addr_def table_of_def [of m dir "dir_index v", symmetric] del: of_nat_indices)

subsection \<open>The window in the page tables\<close>

text \<open>
  The memory of \<open>kmem\<close> agrees with that of the machine but for the two entries of the window, whose
  frames are the fields \<open>temp_low\<close> and \<open>temp_high\<close>.
\<close>

definition window_page :: "memory \<Rightarrow> u32 \<Rightarrow> u32 \<Rightarrow> bool" where
  "window_page m dir v \<longleftrightarrow> page_aligned v \<and> ent_present (ent m dir (dir_index v)) \<and> table_of m dir (dir_index v) \<noteq> dir \<and>
     ent_present (ld32 m (pte m dir v))"

definition window_rel :: "u32 \<Rightarrow> kmem \<Rightarrow> memory \<Rightarrow> bool" where
  "window_rel dir s m \<longleftrightarrow> (let low = tempmap_addr s; high = tempmap_addr s + PAGING_PAGE_SIZE in
     recursive m dir \<and> window_page m dir low \<and> window_page m dir high \<and>
     ent_frame (ld32 m (pte m dir low)) = temp_low s \<and> ent_frame (ld32 m (pte m dir high)) = temp_high s \<and>
     (\<forall>x. 4 \<le> unat (x - pte m dir low) \<and> 4 \<le> unat (x - pte m dir high) \<longrightarrow> m x = mem s x))"

lemma ent_frame_set [simp]: "ent_frame (ent_set_frame (ENTRY_FRAME p) w) = ENTRY_FRAME p"
  unfolding ent_frame_def ENTRY_FRAME_def
  by (rule bit_word_eqI) (auto simp: bit_drop_bit_eq ent_set_frame_bit dest: bit_imp_le_length)

text \<open>Writing an entry of a table leaves the directory alone, so the entries of all pages stay where they are.\<close>

lemma pte_st32:
  assumes "page_aligned dir" and "table_of m dir (dir_index v) \<noteq> dir" and "i < 1024"
  shows "ent (st32 m (pte m dir v) w) dir i = ent m dir i"
  using assms by (simp add: pte_def ent_st32)

lemma pte_st32_same:
  assumes "page_aligned dir" and "table_of m dir (dir_index v) \<noteq> dir"
  shows "table_of (st32 m (pte m dir v) w) dir (dir_index u) = table_of m dir (dir_index u)"
    "pte (st32 m (pte m dir v) w) dir u = pte m dir u" "recursive (st32 m (pte m dir v) w) dir = recursive m dir"
  using pte_st32 [OF assms] unfolding pte_def [of _ _ u] by (simp_all add: table_of_def recursive_def)

lemma pte_neq: "tbl_index u \<noteq> tbl_index v \<Longrightarrow> pte m dir u \<noteq> pte m dir v"
  by (simp add: pte_def ent_addr_inj)

lemma pte_aligned: "word_aligned (pte m dir v)"
  by (simp add: pte_def ent_addr_aligned)

lemma next_page_index:
  assumes "page_aligned v"
  shows "tbl_index (v + 4096) \<noteq> tbl_index v"
proof -
  obtain k where k: "unat v = 4096 * k" using page_alignedE [OF assms] .
  then have "k < 1048576" using unat32_less [of v] by simp
  then have "unat (v + 4096) = 4096 * ((k + 1) mod 1048576)"
    using k by (cases "k + 1 = 1048576") (simp_all add: unat_word_ariths)
  then have "tbl_index (v + 4096) = (k + 1) mod 1024" "tbl_index v = k mod 1024"
    using k by (simp_all add: tbl_index_nat mod_mod_cancel)
  then show ?thesis by (simp add: mod_Suc)
qed

lemma window_rel_write:
  fixes p :: u32
  assumes rel: "window_rel dir s m" and v: "v = tempmap_addr s \<or> v = tempmap_addr s + PAGING_PAGE_SIZE"
  defines "m' \<equiv> st32 m (pte m dir v) (ent_set_frame (ENTRY_FRAME p) (ld32 m (pte m dir v)))"
  shows "window_rel dir (if v = tempmap_addr s then s\<lparr>temp_low := ENTRY_FRAME p\<rparr> else s\<lparr>temp_high := ENTRY_FRAME p\<rparr>) m'"
    and "page_ld m dir (tblent_find v) = Some (ld32 m (pte m dir v))" and "page_st m dir (tblent_find v) w = Some (st32 m (pte m dir v) w)"
    and "pte m' dir u = pte m dir u"
proof -
  let ?low = "tempmap_addr s" and ?high = "tempmap_addr s + 4096"
  have r: "recursive m dir" "page_aligned dir" "window_page m dir ?low" "window_page m dir ?high"
    using rel by (simp_all add: window_rel_def Let_def recursive_def)
  have pv: "window_page m dir v" using v r(3,4) by auto
  then have tv: "table_of m dir (dir_index v) \<noteq> dir" "ent_present (ent m dir (dir_index v))" by (simp_all add: window_page_def)
  show "page_ld m dir (tblent_find v) = Some (ld32 m (pte m dir v))" "page_st m dir (tblent_find v) w = Some (st32 m (pte m dir v) w)"
    using page_trans_tblent [OF r(1) tv(2)] by (simp_all add: page_ld_def page_st_def)
  note same = pte_st32_same [OF r(2) tv(1), of "ent_set_frame (ENTRY_FRAME p) (ld32 m (pte m dir v))", folded m'_def]
  show "pte m' dir u = pte m dir u" by (rule same(2))
  have ne: "pte m dir ?low \<noteq> pte m dir ?high"
    using next_page_index [of ?low] r(3) by (intro pte_neq) (auto simp: window_page_def)
  have ld: "ld32 m' (pte m dir u) = (if pte m dir u = pte m dir v then ent_set_frame (ENTRY_FRAME p) (ld32 m (pte m dir v)) else ld32 m (pte m dir u))" for u
    unfolding m'_def by (simp add: ld32_st32_other pte_aligned)
  have dirs: "ent m' dir (dir_index u) = ent m dir (dir_index u)" for u unfolding m'_def by (rule pte_st32 [OF r(2) tv(1)]) simp
  have far: "m' x = m x" if "4 \<le> unat (x - pte m dir v)" for x unfolding m'_def using that by (rule st32_byte_other)
  have "?high \<noteq> ?low" by simp
  then show "window_rel dir (if v = tempmap_addr s then s\<lparr>temp_low := ENTRY_FRAME p\<rparr> else s\<lparr>temp_high := ENTRY_FRAME p\<rparr>) m'"
    using rel v ne far unfolding window_rel_def Let_def window_page_def by (auto simp: same dirs ld)
qed
lemma page_trans_offset:
  assumes "page_aligned v" and "unat off < 4096" and "ent_present (ent m dir (dir_index v))" and "ent_present (ld32 m (pte m dir v))"
  shows "page_trans m dir (v + off) = Some (ENTRY_ADDR (ent_frame (ld32 m (pte m dir v))) + off)"
proof -
  have "page_align (v + off) = page_align v"
    using page_align_in_page [OF assms(1), of "unat off"] assms(1,2) page_align_fixed [of v] by simp
  then have i: "dir_index (v + off) = dir_index v" "tbl_index (v + off) = tbl_index v"
    unfolding index_page_eq [symmetric] by simp_all
  have "unat ((v + off) AND 0xFFF) = unat off"
  proof -
    obtain k where "unat v = 4096 * k" using page_alignedE [OF assms(1)] .
    moreover have "unat (v + off) = unat v + unat off"
      using page_aligned_le [OF assms(1)] assms(2) by (simp add: unat_word_ariths)
    ultimately show ?thesis using assms(2) unfolding and_page_mask unat_take_bit by simp
  qed
  then have "(v + off) AND 0xFFF = off" by (simp add: word_unat_eq_iff)
  then show ?thesis using assms(3,4) by (simp add: page_trans_def walk_def i pte_def ent_def table_of_def)
qed

lemma window_trans:
  assumes "window_rel dir s m" and "temp_phys s a = Some p"
  shows "page_trans m dir a = Some p"
proof -
  define off where "off = a - tempmap_addr s"
  have a: "a = tempmap_addr s + off" by (simp add: off_def)
  have w: "window_page m dir (tempmap_addr s)" "window_page m dir (tempmap_addr s + 4096)"
    "ent_frame (ld32 m (pte m dir (tempmap_addr s))) = temp_low s" "ent_frame (ld32 m (pte m dir (tempmap_addr s + 4096))) = temp_high s"
    using assms(1) by (simp_all add: window_rel_def Let_def)
  consider "off < 4096" "p = push_bit 12 (temp_low s) + off" | "4096 \<le> off" "off < 8192" "p = push_bit 12 (temp_high s) + (off - 4096)"
    using assms(2) unfolding temp_phys_def off_def [symmetric] Let_def by (auto split: if_splits simp: not_less)
  then show ?thesis
  proof cases
    case 1
    then show ?thesis using page_trans_offset [of "tempmap_addr s" off m dir] w(1,3)
      by (simp add: a word_less_nat_alt window_page_def ENTRY_ADDR_def)
  next
    case 2
    then have "unat (off - 4096) < 4096" by (simp add: unat_sub_if' word_le_nat_alt word_less_nat_alt)
    then show ?thesis using page_trans_offset [of "tempmap_addr s + 4096" "off - 4096" m dir] w(2,4) 2(3)
      by (simp add: a window_page_def ENTRY_ADDR_def)
  qed
qed

text \<open>Words apart from the two entries, and from the directory entries on the way to them.\<close>

definition window_free :: "u32 \<Rightarrow> kmem \<Rightarrow> memory \<Rightarrow> u32 \<Rightarrow> bool" where
  "window_free dir s m p \<longleftrightarrow> word_aligned p \<and> p \<noteq> pte m dir (tempmap_addr s) \<and> p \<noteq> pte m dir (tempmap_addr s + PAGING_PAGE_SIZE) \<and>
     p \<notin> ent_addr dir ` {dir_index (tempmap_addr s), dir_index (tempmap_addr s + PAGING_PAGE_SIZE), 1023}"

lemma word_aligned_far: "\<lbrakk>word_aligned p; word_aligned q; p \<noteq> q; i < 4\<rbrakk> \<Longrightarrow> 4 \<le> unat (p + of_nat i - q)"
proof (rule ccontr)
  assume a: "word_aligned p" "word_aligned q" "p \<noteq> q" "i < 4" "\<not> 4 \<le> unat (p + of_nat i - q)"
  then show False using word_aligned_bytes [of p q i "unat (p + of_nat i - q)"] by simp
qed

lemma window_agree:
  assumes "window_rel dir s m" and "window_free dir s m p" and "i < 4"
  shows "m (p + of_nat i) = mem s (p + of_nat i)"
  using assms word_aligned_far [OF _ pte_aligned, of p] by (simp add: window_rel_def window_free_def Let_def)

lemma window_load:
  assumes "window_rel dir s m" and "temp_phys s a = Some p" and "window_free dir s m p"
  shows "page_ld m dir a = temp_ld s a"
proof -
  have "ld32 m p = ld32 (mem s) p" by (rule ld32_agree) (rule window_agree [OF assms(1,3)])
  then show ?thesis using window_trans [OF assms(1,2)] assms(2) by (simp add: page_ld_def temp_ld_def)
qed

lemma window_store:
  assumes rel: "window_rel dir s m" and p: "temp_phys s a = Some p" and free: "window_free dir s m p"
  shows "\<exists>s' m'. page_st m dir a w = Some m' \<and> temp_st s a w = Some s' \<and> window_rel dir s' m'"
proof -
  let ?low = "tempmap_addr s" and ?high = "tempmap_addr s + 4096" and ?m = "st32 m p w"
  have al: "page_aligned dir" "word_aligned p" using rel free by (simp_all add: window_rel_def Let_def recursive_def window_free_def)
  have d: "ent ?m dir i = ent m dir i" if "i \<in> {dir_index ?low, dir_index ?high, 1023}" for i
    unfolding ent_def by (rule ld32_st32_other) (use that free al in \<open>auto simp: window_free_def ent_addr_aligned\<close>)
  have pt: "pte ?m dir ?low = pte m dir ?low" "pte ?m dir ?high = pte m dir ?high" "recursive ?m dir = recursive m dir"
    "table_of ?m dir (dir_index ?low) = table_of m dir (dir_index ?low)" "table_of ?m dir (dir_index ?high) = table_of m dir (dir_index ?high)"
    using d by (simp_all add: pte_def table_of_def recursive_def)
  have ld: "ld32 ?m (pte m dir ?low) = ld32 m (pte m dir ?low)" "ld32 ?m (pte m dir ?high) = ld32 m (pte m dir ?high)"
    using free by (auto simp: window_free_def ld32_st32_other pte_aligned)
  have "st32 m p w x = st32 (mem s) p w x" if "4 \<le> unat (x - pte m dir ?low)" "4 \<le> unat (x - pte m dir ?high)" for x
    using rel that by (simp add: st32_def window_rel_def Let_def)
  then have "window_rel dir (s\<lparr>mem := st32 (mem s) p w\<rparr>) ?m"
    using rel d unfolding window_rel_def window_page_def Let_def by (simp add: pt ld)
  then show ?thesis using window_trans [OF rel p] p by (simp add: page_st_def temp_st_def)
qed

text \<open>
  C20. The temporary mapping: writing two page table entries through the recursive entry of the
  active directory implements the window of the model. Both give the same address, the page walk of
  each address of the window ends at the frame put there, and loads and stores through it of words
  other than the page table entries involved agree with those of the model and keep the relation.
\<close>

theorem map_temp_refines:
  assumes rel: "window_rel dir s m" and "tempmap_addr s \<noteq> 0"
  shows "\<exists>va s' m'. paging_map_temp s phys = Some (va, s') \<and> map_temp m dir (tempmap_addr s) phys = Some (va, m') \<and> window_rel dir s' m' \<and>
     (\<forall>a p. temp_phys s' a = Some p \<longrightarrow> page_trans m' dir a = Some p \<and>
        (window_free dir s' m' p \<longrightarrow> page_ld m' dir a = temp_ld s' a \<and>
           (\<forall>w. \<exists>s'' m''. page_st m' dir a w = Some m'' \<and> temp_st s' a w = Some s'' \<and> window_rel dir s'' m'')))"
proof -
  define t where "t = tempmap_addr s"
  define m1 where "m1 = st32 m (pte m dir t) (ent_set_frame (ENTRY_FRAME phys) (ld32 m (pte m dir t)))"
  define s1 where "s1 = s\<lparr>temp_low := ENTRY_FRAME phys\<rparr>"
  note low = window_rel_write [OF rel, of t, folded t_def]
  have r1: "window_rel dir s1 m1" using low(1) [of phys] by (simp add: s1_def m1_def t_def)
  note high = window_rel_write [OF r1, of "t + 4096"]
  define m2 where "m2 = st32 m1 (pte m1 dir (t + 4096)) (ent_set_frame (ENTRY_FRAME (phys + 4096)) (ld32 m1 (pte m1 dir (t + 4096))))"
  have r2: "window_rel dir (window s phys) m2" using high(1) [of "phys + 4096"] by (simp add: m2_def s1_def t_def window_def)
  have "map_temp m dir t phys = Some (t + phys mod 4096, m2)"
    using low(2,3) high(2,3) assms(2) unfolding map_temp_def Let_def
    by (simp add: m1_def [symmetric] m2_def [symmetric] s1_def flip: t_def)
  moreover have "paging_map_temp s phys = Some (t + phys mod 4096, window s phys)"
    using assms(2) by (simp add: paging_map_temp_def window_def t_def)
  ultimately show ?thesis
    using r2 window_trans [OF r2] window_load [OF r2] window_store [OF r2] unfolding t_def by blast
qed

end
