(* ===== verification/Boot.thy ===== *)
theory Boot
  imports Paging_Window Elf
begin

text \<open>
  \<open>kernel/arch/i586/stub/boot.nasm\<close>: from the boot loader to \<open>kmain\<close>.  Paging is off, so the two page tables and the
  directory are written to physical memory; the linker's addresses of the kernel and the stack of the loader are parameters.
\<close>

subsection \<open>The code\<close>

abbreviation (input) BL_PGDIR :: u32 where "BL_PGDIR \<equiv> 0x9D000"
abbreviation (input) BL_PGTBL_ID :: u32 where "BL_PGTBL_ID \<equiv> 0x9E000"
abbreviation (input) BL_PGTBL_3G :: u32 where "BL_PGTBL_3G \<equiv> 0x9F000"
abbreviation (input) BL_PGTBL_FLAGS :: u32 where "BL_PGTBL_FLAGS \<equiv> 3"

fun boot_map :: "nat \<Rightarrow> u32 \<Rightarrow> u32 \<Rightarrow> memory \<Rightarrow> memory" where
  "boot_map 0 eax ebx m = m"
| "boot_map (Suc ecx) eax ebx m = boot_map ecx (eax + 4) (ebx + 4096) (st32 m eax ebx)"

record booted =
  b_mem :: memory
  b_cr0 :: u32
  b_cr3 :: u32
  b_eax :: u32
  b_ebx :: u32
  b_ecx :: u32

text \<open>A call of \<open>map\<close>: the return address \<open>ra\<close> is pushed, and \<open>ret\<close> comes back only when it is still there.\<close>

definition call_map :: "u32 \<Rightarrow> u32 \<Rightarrow> u32 \<Rightarrow> u32 \<Rightarrow> memory \<Rightarrow> memory option" where
  "call_map ra esp eax ebx m = (
     let m = st32 m (esp - 4) ra;
         m = boot_map 1024 eax ebx m
     in if ld32 m (esp - 4) = ra then Some m else None)"

text \<open>
  The loader's registers are kept on the stack the loader left in ESP.  The pushes and the calls use it with paging off;
  the two pops come after paging is on and go through the new directory, \<open>None\<close> standing for a fault.  \<open>ra\<close> and \<open>ra'\<close>
  are the addresses behind the two calls.
\<close>

definition bootstrap :: "u32 \<Rightarrow> u32 \<Rightarrow> u32 \<Rightarrow> u32 \<Rightarrow> u32 \<Rightarrow> u32 \<Rightarrow> u32 \<Rightarrow> u32 \<Rightarrow> memory \<Rightarrow> booted option" where
  "bootstrap phys virt ra ra' esp eax ebx cr0 m = do {
     let m = st32 m (esp - 4) eax;
     let m = st32 m (esp - 8) ebx;
     m \<leftarrow> call_map ra (esp - 8) BL_PGTBL_ID (0 OR BL_PGTBL_FLAGS) m;
     let edx = virt - push_bit 22 768;
     let ecx = phys - edx;
     m \<leftarrow> call_map ra' (esp - 8) BL_PGTBL_3G (ecx OR BL_PGTBL_FLAGS) m;
     let m = st32 m (BL_PGDIR + 0 * 4) (BL_PGTBL_ID OR BL_PGTBL_FLAGS);
     let m = st32 m (BL_PGDIR + 768 * 4) (BL_PGTBL_3G OR BL_PGTBL_FLAGS);
     let m = st32 m (BL_PGDIR + 1023 * 4) (BL_PGDIR OR BL_PGTBL_FLAGS);
     let cr3 = BL_PGDIR;
     let cr0 = cr0 OR 0x80000000;
     ebx \<leftarrow> page_ld m cr3 (esp - 8);
     eax \<leftarrow> page_ld m cr3 (esp - 4);
     let ecx = push_bit 22 768 + 4096 * 1024;
     Some \<lparr>b_mem = m, b_cr0 = cr0, b_cr3 = cr3, b_eax = eax, b_ebx = ebx, b_ecx = ecx\<rparr>
   }"

text \<open>The three registers are the arguments of \<open>kmain\<close>; the information at EBX is the parameter \<open>B\<close>.\<close>

definition kstart :: "(u32 \<Rightarrow> boot_env) \<Rightarrow> booted \<Rightarrow> console \<Rightarrow> kstate \<Rightarrow> (console \<times> kstate) option" where
  "kstart B b c s = kmain (B (b_ebx b)) (b_eax b) (b_ecx b) c (s\<lparr>km := (km s)\<lparr>mem := b_mem b, cr3 := b_cr3 b\<rparr>\<rparr>)"

subsection \<open>The tables\<close>

lemma boot_map_ent:
  assumes "page_aligned base" and "page_aligned p" and "j < 1024"
  shows "i + n \<le> 1024 \<Longrightarrow> ent (boot_map n (ent_addr base i) e m) p j =
    (if p = base \<and> i \<le> j \<and> j < i + n then e + 4096 * of_nat (j - i) else ent m p j)"
proof (induction n arbitrary: i e m)
  case (Suc n)
  have "ent_addr base i + 4 = ent_addr base (Suc i)" by (simp add: ent_addr_def)
  then show ?case using Suc assms
    by (auto simp: ent_st32 Suc_diff_Suc algebra_simps simp flip: Suc_diff_Suc)
qed auto

lemma boot_map_page:
  assumes "page_aligned base" and "page_aligned p" and "j < 1024"
  shows "ent (boot_map 1024 base e m) p j = (if p = base then e + 4096 * of_nat j else ent m p j)"
  using boot_map_ent [OF assms, of 0 1024 e m] assms(3) by (simp add: ent_addr_def)

lemma page_aligned_or_3:
  assumes "page_aligned q"
  shows "q OR 3 = q + 3" "ent_present (q + 3)" "ENTRY_ADDR (ent_frame (q + 3)) = q"
proof -
  have lo: "\<not> bit q k" if "k < 12" for k
    using assms that unfolding page_aligned_def and_page_mask by (metis bit_0_eq bit_take_bit_iff bot_apply bot_bool_def)
  have "q AND 3 = 0"
  proof (rule bit_word_eqI)
    fix k assume "k < LENGTH(32)"
    have "(3 :: u32) = mask 2" by (simp add: mask_eq_exp_minus_1)
    then have "bit (3 :: u32) k \<Longrightarrow> k < 2" by (simp only: bit_mask_iff)
    then show "bit (q AND 3) k = bit 0 k" using lo [of k] by (auto simp: bit_simps)
  qed
  then show or: "q OR 3 = q + 3" using word_plus_and_or [of q 3] by simp
  show "ent_present (q + 3)" unfolding or [symmetric] by (simp add: ent_present_def bit_simps)
  have "drop_bit 12 (q OR 3) = drop_bit 12 q" by (simp add: drop_bit_or)
  then show "ENTRY_ADDR (ent_frame (q + 3)) = q"
    using entry_addr_frame [OF assms] unfolding or [symmetric] by (simp add: ent_frame_def ENTRY_FRAME_def)
qed

abbreviation (input) kernel_off :: "u32 \<Rightarrow> u32 \<Rightarrow> u32" where
  "kernel_off phys virt \<equiv> phys - (virt - 0xC0000000)"

definition boot_tables :: "u32 \<Rightarrow> memory \<Rightarrow> bool" where
  "boot_tables off m \<longleftrightarrow> ent m BL_PGDIR 0 = 0x9E003 \<and> ent m BL_PGDIR 768 = 0x9F003 \<and> ent m BL_PGDIR 1023 = 0x9D003 \<and>
     (\<forall>j < 1024. ent m BL_PGTBL_ID j = 4096 * of_nat j + 3 \<and> ent m BL_PGTBL_3G j = off + 4096 * of_nat j + 3)"

text \<open>The bytes the boot code writes: three pages of tables, and three words of the loader's stack.\<close>

definition boot_area :: "u32 \<Rightarrow> u32 \<Rightarrow> bool" where
  "boot_area esp x \<longleftrightarrow> 0x9D000 \<le> unat x \<and> unat x < 0xA0000 \<or> unat esp - 12 \<le> unat x \<and> unat x < unat esp"

text \<open>What the code needs of the stack it was given: it is mapped to itself, and the tables are not on it.\<close>

definition loader_stack :: "u32 \<Rightarrow> bool" where
  "loader_stack esp \<longleftrightarrow> word_aligned esp \<and> 12 \<le> unat esp \<and> unat esp \<le> 0x400000 \<and> (unat esp \<le> 0x9D000 \<or> 0xA000C \<le> unat esp)"

lemma st32_below: "unat x < unat a \<or> unat a + 4 \<le> unat x \<Longrightarrow> unat a \<le> 4294967292 \<Longrightarrow> st32 m a w x = m x"
proof (rule st32_byte_other)
  assume "unat x < unat a \<or> unat a + 4 \<le> unat x" "unat a \<le> 4294967292"
  then show "4 \<le> unat (x - a)" using unat32_less [of x] unat32_less [of a] by (auto simp: unat_sub_if_size size_word.rep_eq)
qed

lemma boot_map_frame:
  "unat x < unat a \<or> unat a + 4 * n \<le> unat x \<Longrightarrow> unat a + 4 * n < 4294967296 \<Longrightarrow> boot_map n a e m x = m x"
proof (induction n arbitrary: a e m)
  case (Suc n)
  have u: "unat (a + 4) = unat a + 4" using Suc.prems(2) by (simp add: unat_word_ariths)
  have "boot_map (Suc n) a e m x = st32 m a e x" using Suc.IH [of "a + 4"] Suc.prems by (auto simp: u)
  then show ?case using st32_below [of x a m e] Suc.prems by auto
qed simp

lemma stack_words:
  assumes "loader_stack esp" and "k \<in> {4, 8, 12}"
  shows "unat (esp - of_nat k) = unat esp - k" "word_aligned (esp - of_nat k)"
proof -
  have k: "k \<le> unat esp" "k mod 4 = 0" "unat esp mod 4 = 0" "unat (of_nat k :: u32) = k"
    using assms by (auto simp: loader_stack_def word_aligned_def)
  then show u: "unat (esp - of_nat k) = unat esp - k" by (simp add: unat_sub_if_size size_word.rep_eq)
  show "word_aligned (esp - of_nat k)" unfolding word_aligned_def u using k by (metis dvd_diff_nat mod_0_imp_dvd mod_eq_0_iff_dvd)
qed

lemma stack_ent:
  assumes "loader_stack esp" and "k \<in> {4, 8, 12}" and "T \<in> {BL_PGDIR, BL_PGTBL_ID, BL_PGTBL_3G}" and "j < 1024"
  shows "ent (st32 m (esp - of_nat k) w) T j = ent m T j" "esp - of_nat k \<noteq> ent_addr T j"
proof -
  have T: "page_aligned T" using assms(3) by (auto simp: page_aligned_def)
  have "unat (ent_addr T j) = unat T + 4 * j" using assms(3,4) by (auto simp: ent_addr_def unat_word_ariths unat_of_nat)
  then show n: "esp - of_nat k \<noteq> ent_addr T j"
    using assms stack_words(1) [OF assms(1,2)] by (auto simp: loader_stack_def)
  show "ent (st32 m (esp - of_nat k) w) T j = ent m T j" unfolding ent_def
    by (rule ld32_st32_other [OF stack_words(2) [OF assms(1,2)] ent_addr_aligned n]) (use T assms(4) in simp_all)
qed

lemma stack_ld:
  assumes "loader_stack esp" and "k \<in> {4, 8, 12}" and same: "\<And>x. \<not> (0x9D000 \<le> unat x \<and> unat x < 0xA0000) \<Longrightarrow> m' x = m x"
  shows "ld32 m' (esp - of_nat k) = ld32 m (esp - of_nat k)"
proof (rule ld32_agree, rule same)
  fix i :: nat assume i: "i < 4"
  have "unat esp - k + i < 4294967296" using i assms(1) unfolding loader_stack_def by linarith
  then have "unat (esp - of_nat k + of_nat i) = unat esp - k + i"
    using i stack_words(1) [OF assms(1,2)] by (simp add: unat_word_ariths unat_of_nat)
  then show "\<not> (0x9D000 \<le> unat (esp - of_nat k + of_nat i) \<and> unat (esp - of_nat k + of_nat i) < 0xA0000)"
    using assms(1,2) i by (auto simp: loader_stack_def)
qed

lemma address_parts: "v = 4194304 * of_nat (dir_index v) + (4096 * of_nat (tbl_index v) + (v AND 0xFFF))"
proof -
  have d: "dir_index v = unat v div 4096 div 1024" by (simp add: dir_index_nat div_mult2_eq [of _ 4096 1024, simplified])
  have t: "tbl_index v = unat v div 4096 mod 1024" by (simp add: tbl_index_nat)
  have o: "unat (v AND 0xFFF) = unat v mod 4096" by (simp add: and_page_mask unat_take_bit)
  have "unat v = 4194304 * dir_index v + (4096 * tbl_index v + unat (v AND 0xFFF))"
    using div_mult_mod_eq [of "unat v" 4096] div_mult_mod_eq [of "unat v div 4096" 1024] unfolding d t o by linarith
  then have "of_nat (unat v) = (of_nat (4194304 * dir_index v + (4096 * tbl_index v + unat (v AND 0xFFF))) :: u32)" by (rule arg_cong)
  then show ?thesis by (simp del: of_nat_indices)
qed

lemma page_aligned_add: "page_aligned q \<Longrightarrow> page_aligned (q + 4096 * of_nat i)"
proof -
  assume "page_aligned q"
  then obtain k where "unat q = 4096 * k" by (auto simp: page_aligned_iff)
  then have "of_nat (unat q) = (of_nat (4096 * k) :: u32)" by simp
  then have "q + 4096 * of_nat i = of_nat (4096 * (k + i))" by (simp add: distrib_left)
  moreover have "(4096 :: nat) dvd 4294967296" by simp
  ultimately show ?thesis by (simp add: page_aligned_iff unat_of_nat mod_mod_cancel del: of_nat_mult of_nat_add)
qed

lemma boot_trans:
  assumes off: "page_aligned off" and tab: "boot_tables off m'"
  shows "dir_index v = 0 \<Longrightarrow> page_trans m' BL_PGDIR v = Some v"
    and "dir_index v = 768 \<Longrightarrow> page_trans m' BL_PGDIR v = Some (off + (v - 0xC0000000))"
    and "recursive m' BL_PGDIR" "ent_present (ent m' BL_PGDIR 768)" "table_of m' BL_PGDIR 768 = 0x9F000"
    and "ent_present (ent m' BL_PGTBL_3G (tbl_index v))"
proof -
  have dir: "ent m' BL_PGDIR 0 = 0x9E003" "ent m' BL_PGDIR 768 = 0x9F003" "ent m' BL_PGDIR 1023 = 0x9D003"
    "j < 1024 \<Longrightarrow> ent m' BL_PGTBL_ID j = 4096 * of_nat j + 3" "j < 1024 \<Longrightarrow> ent m' BL_PGTBL_3G j = off + 4096 * of_nat j + 3" for j
    using tab by (simp_all add: boot_tables_def)
  have al: "page_aligned 0x9D000" "page_aligned 0" by (simp_all add: page_aligned_def)
  show tb: "ent_present (ent m' BL_PGDIR 768)" "table_of m' BL_PGDIR 768 = 0x9F000" "recursive m' BL_PGDIR"
    using al(1) by (simp_all add: dir recursive_def table_of_def ENTRY_ADDR_def ent_frame_def ent_present_def)
  have t0: "ent_present 0x9E003" "ent_present 0x9F003" "table_of m' BL_PGDIR 0 = 0x9E000"
    by (simp_all add: dir table_of_def ENTRY_ADDR_def ent_frame_def ent_present_def)
  note e1 = page_aligned_or_3 [OF page_aligned_add [OF al(2), of "tbl_index v"]] and e2 = page_aligned_or_3 [OF page_aligned_add [OF off, of "tbl_index v"]]
  show "ent_present (ent m' BL_PGTBL_3G (tbl_index v))" using e2(2) by (simp add: dir del: of_nat_indices)
  show "page_trans m' BL_PGDIR v = Some v" if "dir_index v = 0"
    using e1 address_parts [of v] that by (simp add: page_trans_def walk_def t0 dir del: of_nat_indices)
  show "page_trans m' BL_PGDIR v = Some (off + (v - 0xC0000000))" if "dir_index v = 768"
  proof -
    define x where "x = 4096 * of_nat (tbl_index v) + (v AND 0xFFF)"
    have "v = 0xC0000000 + x" using address_parts [of v] that by (simp add: x_def del: of_nat_indices)
    then have "v - 0xC0000000 = x" by simp
    then show ?thesis using e2(2,3) that by (simp add: page_trans_def walk_def tb t0 dir x_def add.assoc del: of_nat_indices)
  qed
qed

lemma entry_frame_addr: "ENTRY_FRAME (ENTRY_ADDR (ent_frame w)) = ent_frame w"
  unfolding ENTRY_FRAME_def ENTRY_ADDR_def ent_frame_def
  by (rule bit_word_eqI) (auto simp: bit_simps dest: bit_imp_le_length)

lemma boot_index: "unat v < 0x400000 \<Longrightarrow> dir_index v = 0" "0xC0000000 \<le> v \<Longrightarrow> v < 0xC0400000 \<Longrightarrow> dir_index v = 768"
proof -
  show "unat v < 0x400000 \<Longrightarrow> dir_index v = 0" by (simp add: dir_index_nat)
  show "0xC0000000 \<le> v \<Longrightarrow> v < 0xC0400000 \<Longrightarrow> dir_index v = 768"
    unfolding dir_index_nat word_le_nat_alt word_less_nat_alt by (intro div_nat_eqI) simp_all
qed

text \<open>Any two pages of the kernel's first 4 MB can be the window.\<close>

lemma boot_window:
  assumes off: "page_aligned (kernel_off phys virt)" and tab: "boot_tables (kernel_off phys virt) m'"
    and t: "page_aligned t" "0xC0000000 \<le> t" "unat t + 0x2000 \<le> unat (0xC0400000 :: u32)"
  shows "window_rel BL_PGDIR (s\<lparr>mem := m', cr3 := c, tempmap_addr := t, temp_low := ENTRY_FRAME (phys + (t - virt)),
      temp_high := ENTRY_FRAME (phys + (t + PAGING_PAGE_SIZE - virt))\<rparr>) m'"
proof -
  note tr = boot_trans [OF off tab]
  have win: "window_page m' 0x9D000 t \<and> ent_frame (ld32 m' (pte m' 0x9D000 t)) = ENTRY_FRAME (phys + (t - virt))"
    if "page_aligned t" "0xC0000000 \<le> t" "t < 0xC0400000" for t
  proof -
    note d = boot_index(2) [OF that(2,3)]
    have te: "ld32 m' (pte m' 0x9D000 t) = ent m' 0x9F000 (tbl_index t)" by (simp add: pte_def d tr(5) ent_def)
    have "t AND 0xFFF = 0" "kernel_off phys virt + (t - 0xC0000000) = phys + (t - virt)" using that(1) by (simp_all add: page_aligned_def)
    then have "ENTRY_ADDR (ent_frame (ent m' 0x9F000 (tbl_index t))) = phys + (t - virt)"
      using tr(2) [OF d] tr(4,6) unfolding page_trans_def walk_def d tr(5) by simp
    then show ?thesis using that(1) tr(4,6) entry_frame_addr [of "ent m' 0x9F000 (tbl_index t)"]
      unfolding window_page_def te d tr(5) by simp
  qed
  have u: "unat (t + 4096) = unat t + 4096" using t(3) by (simp add: unat_word_ariths)
  have "page_aligned (t + 4096)" using page_aligned_add [OF t(1), of 1] by simp
  moreover have "0xC0000000 \<le> t + 4096" "t + 4096 < 0xC0400000" "t < 0xC0400000"
    using t(2,3) u by (simp_all add: word_le_nat_alt word_less_nat_alt)
  ultimately show ?thesis using win [of t] win [of "t + 4096"] t tr(3) by (simp add: window_rel_def)
qed

subsection \<open>The stack of the loader\<close>

lemma call_map_runs:
  assumes st: "loader_stack esp" and T: "T \<in> {BL_PGTBL_ID, BL_PGTBL_3G}"
  shows "\<exists>m'. call_map ra (esp - 8) T e m = Some m' \<and>
    (\<forall>p \<in> {BL_PGDIR, BL_PGTBL_ID, BL_PGTBL_3G}. \<forall>j < 1024. ent m' p j = (if p = T then e + 4096 * of_nat j else ent m p j)) \<and>
    (\<forall>k \<in> {4, 8}. ld32 m' (esp - of_nat k) = ld32 m (esp - of_nat k)) \<and> (\<forall>x. \<not> boot_area esp x \<longrightarrow> m' x = m x)"
proof -
  define m1 where "m1 = st32 m (esp - of_nat 12) ra"
  define m' where "m' = boot_map 1024 T e m1"
  have u: "unat (esp - of_nat 12) = unat esp - 12" "12 \<le> unat esp" using stack_words(1) [OF st, of 12] st by (simp_all add: loader_stack_def)
  have fr: "m' x = m1 x" if "\<not> (0x9D000 \<le> unat x \<and> unat x < 0xA0000)" for x
    unfolding m'_def using T that by (intro boot_map_frame) auto
  have "ld32 m' (esp - of_nat 12) = ra" using stack_ld [OF st, of 12 m' m1] fr by (simp add: m1_def)
  then have "call_map ra (esp - 8) T e m = Some m'" by (simp add: call_map_def m'_def m1_def Let_def)
  moreover have "ent m' p j = (if p = T then e + 4096 * of_nat j else ent m p j)"
    if "p \<in> {BL_PGDIR, BL_PGTBL_ID, BL_PGTBL_3G}" "j < 1024" for p j
  proof -
    have "page_aligned p" "page_aligned T" using that(1) T by (auto simp: page_aligned_def)
    then show ?thesis using boot_map_page [of T p j e m1] stack_ent(1) [OF st _ that, of 12 m ra] that(2) by (simp add: m'_def m1_def)
  qed
  moreover have "ld32 m' (esp - of_nat k) = ld32 m (esp - of_nat k)" if "k \<in> {4, 8}" for k
  proof -
    have k: "k \<in> {4, 8, 12}" "esp - of_nat k \<noteq> esp - of_nat 12" using that by auto
    then show ?thesis using stack_ld [OF st k(1), of m' m1] fr
      ld32_st32_other [OF stack_words(2) [OF st, of 12] stack_words(2) [OF st k(1)]] by (simp add: m1_def)
  qed
  moreover have "m' x = m x" if "\<not> boot_area esp x" for x
  proof -
    have "m1 x = m x" unfolding m1_def using that u unat32_less [of esp] by (intro st32_below) (auto simp: boot_area_def)
    then show ?thesis using fr [of x] that by (simp add: boot_area_def)
  qed
  ultimately show ?thesis by blast
qed

lemma dir_write:
  assumes "i < 1024"
  shows "p \<in> {BL_PGDIR, BL_PGTBL_ID, BL_PGTBL_3G} \<Longrightarrow> j < 1024 \<Longrightarrow>
      ent (st32 m (ent_addr BL_PGDIR i) w) p j = (if p = BL_PGDIR \<and> j = i then w else ent m p j)"
    and "\<not> boot_area esp x \<Longrightarrow> st32 m (ent_addr BL_PGDIR i) w x = m x"
    and "loader_stack esp \<Longrightarrow> k \<in> {4, 8, 12} \<Longrightarrow> ld32 (st32 m (ent_addr BL_PGDIR i) w) (esp - of_nat k) = ld32 m (esp - of_nat k)"
proof -
  have al: "page_aligned BL_PGDIR" "page_aligned BL_PGTBL_ID" "page_aligned BL_PGTBL_3G" by (simp_all add: page_aligned_def)
  show "ent (st32 m (ent_addr BL_PGDIR i) w) p j = (if p = BL_PGDIR \<and> j = i then w else ent m p j)"
    if "p \<in> {BL_PGDIR, BL_PGTBL_ID, BL_PGTBL_3G}" "j < 1024" using that al assms by (auto simp: ent_st32)
  have "unat (ent_addr BL_PGDIR i) = 0x9D000 + 4 * i" using assms by (simp add: ent_addr_def unat_word_ariths unat_of_nat)
  then show "st32 m (ent_addr BL_PGDIR i) w x = m x" if "\<not> boot_area esp x"
    using that assms by (intro st32_below) (auto simp: boot_area_def)
  show "ld32 (st32 m (ent_addr BL_PGDIR i) w) (esp - of_nat k) = ld32 m (esp - of_nat k)" if "loader_stack esp" "k \<in> {4, 8, 12}"
    by (rule ld32_st32_other [OF ent_addr_aligned stack_words(2) [OF that] stack_ent(2) [OF that, symmetric]]) (use al assms in simp_all)
qed

lemma bootstrap_runs:
  assumes off: "page_aligned (kernel_off phys virt)" and st: "loader_stack esp"
  shows "\<exists>b. bootstrap phys virt ra ra' esp eax ebx cr m = Some b \<and> boot_tables (kernel_off phys virt) (b_mem b) \<and>
    b_eax b = eax \<and> b_ebx b = ebx \<and> b_cr0 b = cr OR 0x80000000 \<and> b_cr3 b = BL_PGDIR \<and> b_ecx b = 0xC0400000 \<and>
    (\<forall>x. \<not> boot_area esp x \<longrightarrow> b_mem b x = m x)"
proof -
  define off where "off = kernel_off phys virt"
  define m0 where "m0 = st32 (st32 m (esp - of_nat 4) eax) (esp - of_nat 8) ebx"
  note sw = stack_words [OF st]
  have bound: "12 \<le> unat esp" "unat esp \<le> 0x400000" using st by (simp_all add: loader_stack_def)
  have l0: "ld32 m0 (esp - of_nat 8) = ebx" "ld32 m0 (esp - of_nat 4) = eax"
    using ld32_st32_other [OF sw(2) [of 8] sw(2) [of 4]] by (simp_all add: m0_def)
  have x0: "m0 x = m x" if "\<not> boot_area esp x" for x
    unfolding m0_def using that sw(1) [of 4] sw(1) [of 8] bound by (subst st32_below; auto simp: boot_area_def st32_below)+
  obtain m1 where m1: "call_map ra (esp - 8) BL_PGTBL_ID 3 m0 = Some m1"
    "\<And>p j. p \<in> {BL_PGDIR, BL_PGTBL_ID, BL_PGTBL_3G} \<Longrightarrow> j < 1024 \<Longrightarrow> ent m1 p j = (if p = BL_PGTBL_ID then 3 + 4096 * of_nat j else ent m0 p j)"
    "\<And>k. k \<in> {4, 8} \<Longrightarrow> ld32 m1 (esp - of_nat k) = ld32 m0 (esp - of_nat k)" "\<And>x. \<not> boot_area esp x \<Longrightarrow> m1 x = m0 x"
    using call_map_runs [OF st, of BL_PGTBL_ID ra 3 m0, OF insertI1] by blast
  obtain m2 where m2: "call_map ra' (esp - 8) BL_PGTBL_3G (off + 3) m1 = Some m2"
    "\<And>p j. p \<in> {BL_PGDIR, BL_PGTBL_ID, BL_PGTBL_3G} \<Longrightarrow> j < 1024 \<Longrightarrow> ent m2 p j = (if p = BL_PGTBL_3G then off + 3 + 4096 * of_nat j else ent m1 p j)"
    "\<And>k. k \<in> {4, 8} \<Longrightarrow> ld32 m2 (esp - of_nat k) = ld32 m1 (esp - of_nat k)" "\<And>x. \<not> boot_area esp x \<Longrightarrow> m2 x = m1 x"
    using call_map_runs [OF st, of BL_PGTBL_3G ra' "off + 3" m1, OF insertI2, OF insertI1] by blast
  define m3 where "m3 = st32 (st32 (st32 m2 (ent_addr 0x9D000 0) 0x9E003) (ent_addr 0x9D000 768) 0x9F003) (ent_addr 0x9D000 1023) 0x9D003"
  have tab: "boot_tables off m3" by (simp add: boot_tables_def m3_def dir_write m1(2) m2(2) del: of_nat_numeral)
  have l3: "ld32 m3 (esp - of_nat 8) = ebx" "ld32 m3 (esp - of_nat 4) = eax"
    unfolding m3_def using l0 m1(3) [of 8] m1(3) [of 4] m2(3) [of 8] m2(3) [of 4] by (simp_all only: dir_write(3) [OF _ st] simp_thms insert_iff)
  have x3: "m3 x = m x" if "\<not> boot_area esp x" for x
    unfolding m3_def using dir_write(2) [OF _ that] m2(4) [OF that] m1(4) [OF that] x0 [OF that] by simp
  have pt: "page_ld m3 BL_PGDIR (esp - of_nat k) = Some (ld32 m3 (esp - of_nat k))" if "k \<in> {4, 8, 12}" for k
  proof -
    have "dir_index (esp - of_nat k) = 0" using sw(1) [OF that] bound that by (intro boot_index(1)) auto
    then show ?thesis using boot_trans(1) [OF assms(1) [folded off_def] tab] by (simp add: page_ld_def)
  qed
  have "bootstrap phys virt ra ra' esp eax ebx cr m =
      Some \<lparr>b_mem = m3, b_cr0 = cr OR 0x80000000, b_cr3 = BL_PGDIR, b_eax = eax, b_ebx = ebx, b_ecx = 0xC0400000\<rparr>"
    using m1(1) m2(1) pt [of 8] pt [of 4] l3 page_aligned_or_3(1) [OF assms(1)]
    by (simp add: bootstrap_def m0_def m3_def off_def ent_addr_def)
  then show ?thesis using tab x3 by (simp add: off_def)
qed

text \<open>What the kernel is entered with: the addresses below ECX are mapped, and the temporary mapping works in all of them.\<close>

text \<open>
  C21. The boot code, for a kernel at a page-aligned offset and entered with paging off and a word-
  aligned stack of at least twelve bytes in the first 4 MB and apart from its tables, reaches the
  kernel: low memory is mapped to itself, every address of the kernel below the limit passed to
  kmain is mapped to its load address, paging is on, the two registers of the boot loader come back
  from the stack through the new page tables, the temporary mapping can be placed on any two pages
  of the mapped range, and no byte outside of the three pages of tables and the twelve bytes of
  stack is changed.
\<close>

theorem bootstrap_maps:
  fixes phys virt eax ebx cr esp :: u32 and m :: memory
  assumes "page_aligned (phys - (virt - 0xC0000000))" and "loader_stack esp"
  shows "\<exists>b. bootstrap phys virt ra ra' esp eax ebx cr m = Some b \<and> b_eax b = eax \<and> b_ebx b = ebx \<and> bit (b_cr0 b) 31 \<and>
    (\<forall>v. unat v < 0x400000 \<longrightarrow> page_trans (b_mem b) (b_cr3 b) v = Some v) \<and>
    (\<forall>v. 0xC0000000 \<le> v \<and> v < b_ecx b \<longrightarrow> page_trans (b_mem b) (b_cr3 b) v = Some (phys + (v - virt))) \<and>
    (\<forall>s t. page_aligned t \<and> 0xC0000000 \<le> t \<and> unat t + 0x2000 \<le> unat (b_ecx b) \<longrightarrow>
       window_rel (b_cr3 b) (s\<lparr>mem := b_mem b, cr3 := b_cr3 b, tempmap_addr := t, temp_low := ENTRY_FRAME (phys + (t - virt)),
         temp_high := ENTRY_FRAME (phys + (t + PAGING_PAGE_SIZE - virt))\<rparr>) (b_mem b)) \<and>
    (\<forall>x. \<not> boot_area esp x \<longrightarrow> b_mem b x = m x)"
proof -
  obtain b where b: "bootstrap phys virt ra ra' esp eax ebx cr m = Some b" "boot_tables (kernel_off phys virt) (b_mem b)"
    "b_eax b = eax" "b_ebx b = ebx" "b_cr0 b = cr OR 0x80000000" "b_cr3 b = BL_PGDIR" "b_ecx b = 0xC0400000"
    "\<forall>x. \<not> boot_area esp x \<longrightarrow> b_mem b x = m x"
    using bootstrap_runs [OF assms] by blast
  have pg: "bit (b_cr0 b) 31"
  proof -
    have "(0x80000000 :: u32) = push_bit 31 1" by simp
    then show ?thesis by (simp only: b bit_or_iff bit_push_bit_iff) simp
  qed
  note tr = boot_trans [OF assms(1) b(2)]
  have off: "phys - (virt - 0xC0000000) + (v - 0xC0000000) = phys + (v - virt)" for v by simp
  show ?thesis
    by (intro exI [of _ b]) (use b pg tr(1) [OF boot_index(1)] tr(2) [OF boot_index(2)] off boot_window [OF assms(1) b(2)] in simp)
qed

end
