(* ===== verification/Server_Witnesses.thy ===== *)
theory Server_Witnesses
  imports User_Witnesses Fatfs Shell Isr_Stub Boot
begin

text \<open>Instances of the properties of the servers, of the shell, and of the code in assembly.\<close>

subsection \<open>Names and nodes in memory\<close>

text \<open>The strings \<open>tty\<close> and \<open>/\<close>, and an empty root node of type \<open>NODE_VIRT\<close>, below an empty heap.\<close>

definition server_alloc :: "unit alloc" where
  "server_alloc = malloc_initialize 0x8000000 (start_alloc\<lparr>sys := (lay [(0x400, ascii ''tty''), (0x500, [0x2F]), (0x628, [2])], ())\<rparr>)"

lemma server_alloc_simps:
  "heap_inv server_alloc []" "unat (heap_top server_alloc) + 4096 < 2 ^ 32" "lw (0x600 + node_type) server_alloc = NODE_VIRT"
  "cstr (umem server_alloc) 0x400 (ascii ''tty'')" "lb (0x500 + 1) server_alloc = 0"
  by (simp_all add: heap_inv_def server_alloc_def malloc_initialize_def start_alloc_def umem_def ascii_def lw_def ld32_def lb_def)

lemma server_alloc_kept: "unat x < 0x8000000 \<Longrightarrow> kept server_alloc [] x"
  by (simp add: kept_def server_alloc_def malloc_initialize_def)

lemma server_alloc_low: "i < 64 \<Longrightarrow> kept server_alloc [] (0x400 + of_nat i)" "i < 64 \<Longrightarrow> kept server_alloc [] (0x600 + of_nat i)"
  by (rule server_alloc_kept, simp add: unat_word_ariths unat_nat)+

theorem device_add_lookup_witness:
  "\<exists>p d' s'. device_add granting 0x400 7 devd_boot server_alloc = Some (d', s') \<and> p \<noteq> 0 \<and>
     device_find 0x400 d' s' = Some p \<and> device_get 1 d' s' = Some p \<and> device_get 2 d' s' = Some 0"
proof -
  have "registry devd_boot server_alloc [] []" by (simp add: registry_def numbered_def devd_boot_def server_alloc_simps)
  moreover have "length (ascii ''tty'') < 32" "last_id devd_boot = 1" by (simp_all add: ascii_def devd_boot_def)
  moreover have "kept server_alloc [] (0x400 + of_nat i)" if "i \<le> length (ascii ''tty'')" for i
    using that by (intro server_alloc_low) (simp add: ascii_def)
  ultimately show ?thesis
    using device_add_lookup [OF _ granting_ok server_alloc_simps(4) _ _ server_alloc_simps(2), where d = devd_boot and ds = "[]" and port = 7]
    by (fastforce simp: address_of_def)
qed

lemma vfs_boot_tables: "list_all table_inv vfs_boot" "i < 1024 \<Longrightarrow> vfs_boot ! i = \<lparr>ft_count = 0, ft_nodes = replicate 8 0\<rparr>" "length vfs_boot = 1024"
  unfolding vfs_boot_def by (simp_all add: table_inv_def list_all_iff)

theorem file_open_slot_witness:
  "\<exists>fd v'. file_open 0x600 3 vfs_boot = Some (int fd, v') \<and> fd < 8 \<and> ft_nodes (v' ! 3) = (replicate 8 0)[fd := 0x600]"
proof -
  have "vfs_boot ! 3 = \<lparr>ft_count = 0, ft_nodes = replicate 8 0\<rparr>" by (simp add: vfs_boot_tables)
  then show ?thesis using file_open_slot [of 3 vfs_boot "0x600"] vfs_boot_tables(1,3) by auto
qed

theorem mount_found_witness:
  "\<exists>p s'. mount_add granting 0x600 0x7000 0x500 0x400 5 server_alloc = Some (p, s') \<and> p \<noteq> 0 \<and>
     lw (p + node_owner) s' = 5 \<and> lw (0x600 + node_children) s' = p"
proof -
  have "length (ascii ''tty'') < 32" by (simp add: ascii_def)
  moreover have "kept server_alloc [] (0x400 + of_nat i)" if "i \<le> length (ascii ''tty'')" for i
    using that by (intro server_alloc_low) (simp add: ascii_def)
  moreover have "kept server_alloc [] (0x600 + of_nat i)" if "i < 52" for i
    using that by (intro server_alloc_low) simp
  ultimately show ?thesis
    using mount_found [OF server_alloc_simps(1) granting_ok server_alloc_simps(4) _ _ server_alloc_simps(2) _ _
       server_alloc_simps(3) server_alloc_simps(5), of "0x7000" 5] by fastforce
qed

subsection \<open>A file in two clusters\<close>

text \<open>
  A volume with a table of one sector, a root directory of one sector and clusters of one sector.
  The file begins in cluster 2, in sector 3, and goes on in cluster 3, in sector 4.
\<close>

definition small_volume :: fat_volume where
  "small_volume = \<lparr>vol_device = 9, vol_disk = 1, vol_format = 0, boot_record = \<lparr>sector_bytes = 512, cluster_sectors = 1,
     reserved_sectors = 1, fat_count = 1, dirent_count = 16, fat_sectors = 1\<rparr>\<rparr>"

definition small_disk :: "u32 \<Rightarrow> u8" where
  "small_disk = lay [(516, [3, 0, 0xFF, 0xFF]), (2046, ascii ''ABCD'')]"

definition reader_alloc :: "u32 alloc" where
  "reader_alloc = \<lparr>errno = 0, sys = (lay [(0x724, [2, 0, 0, 0, 0, 4, 0, 0])], 0), heap_base = 0, heap_top = 0\<rparr>"

lemma small_chain:
  "fat16_cluster small_disk small_volume 2 0 = 2" "fat16_cluster small_disk small_volume 2 (Suc 0) = 3"
  "fat16_sector small_volume 2 = 3" "fat16_sector small_volume 3 = 4" "cluster_len small_volume = 512"
  by (simp_all add: fat16_cluster_def fat16_next_def fat16_sector_def fat16_root_sectors_def cluster_len_def small_volume_def small_disk_def Let_def)

lemma small_file_ok: "file_ok small_disk small_volume 2 1024"
proof -
  have k: "k = 0 \<or> k = Suc 0" if "k * 512 < (1024 :: nat)" for k using that by auto
  have v: "unat (cluster_sectors (boot_record small_volume)) = 1" "unat (sector_bytes (boot_record small_volume)) = 512"
    by (simp_all add: small_volume_def)
  show ?thesis unfolding file_ok_def small_chain(5) v using small_chain k by fastforce
qed

theorem fat_read_contents_witness:
  "\<exists>c' s'. fat_read (disk_trap 9 1 small_disk) 0x100 \<lparr>read_buf = 0x1000, next_buf = 0x2000, dirent_buf = 0x3000\<rparr> small_volume 0x700 510 4 0x4000
        fat_cache_boot reader_alloc = Some (4, c', s') \<and>
     map (\<lambda>i. umem s' (0x4000 + of_nat i)) [0, 1, 2, 3] = ascii ''ABCD''"
proof -
  have w: "lw (0x700 + file_cluster) reader_alloc = 2" "lw (0x700 + file_size) reader_alloc = 1024"
    by (simp_all add: lw_def ld32_def umem_def reader_alloc_def)
  have b: "map (file_byte small_disk small_volume 2) [510, 511, 512, 513] = ascii ''ABCD''"
    using small_chain(2) by (simp add: file_byte_def Let_def fat16_cluster_def fat16_sector_def fat16_root_sectors_def small_volume_def)
      (simp add: small_disk_def ascii_def)
  have "fat_layout 0x100 \<lparr>read_buf = 0x1000, next_buf = 0x2000, dirent_buf = 0x3000\<rparr> 0x4000 4"
    by (simp add: fat_layout_def apart_def unat_word_ariths unat_nat unat_sub_if')
  moreover have "cached D (next_last fat_cache_boot) x y" "cached D (read_last fat_cache_boot) x y" for D x y
    by (simp_all add: cached_def fat_cache_boot_def)
  moreover have "unat (reserved_sectors (boot_record small_volume)) < 65000" by (simp add: small_volume_def)
  moreover have "vol_device small_volume = 9" "vol_disk small_volume = 1" by (simp_all add: small_volume_def)
  ultimately obtain c' s' where "fat_read (disk_trap 9 1 small_disk) 0x100 \<lparr>read_buf = 0x1000, next_buf = 0x2000, dirent_buf = 0x3000\<rparr> small_volume
        0x700 510 4 0x4000 fat_cache_boot reader_alloc = Some (4, c', s')"
      and m: "\<forall>i<4. umem s' (0x4000 + of_nat i) = file_byte small_disk small_volume 2 (510 + i)"
    using fat_read_contents [of "0x100" "\<lparr>read_buf = 0x1000, next_buf = 0x2000, dirent_buf = 0x3000\<rparr>" "0x4000" 4 small_volume
       small_disk fat_cache_boot reader_alloc "0x700" 510] small_file_ok
    unfolding w by (auto simp: small_chain)
  moreover have "map (\<lambda>i. umem s' (0x4000 + of_nat i)) [0, 1, 2, 3] = map (file_byte small_disk small_volume 2) [510, 511, 512, 513]"
    using m [rule_format, of 0] m [rule_format, of 1] m [rule_format, of 2] m [rule_format, of 3] by simp
  ultimately show ?thesis unfolding b by blast
qed

subsection \<open>A line typed with a correction\<close>

definition typed_alloc :: "tty alloc" where
  "typed_alloc = \<lparr>errno = 0, sys = (lay [(0x100, ascii ''$> ''), (0x110, [8])], 0, [0x68, 0x78, 8, 0x69, 0x0A], []), heap_base = 0, heap_top = 0\<rparr>"

definition shell_lit :: "string \<Rightarrow> u32" where
  "shell_lit str = (if str = ''$> '' then 0x100 else 0x110)"

theorem shell_line_edits_witness:
  "\<exists>s' pend'. shell_line tty_trap shell_lit 0x1000 \<lparr>sh_filesystem = 1, sh_screen = 0, sh_keyboard = 1\<rparr> typed_alloc = Some s' \<and>
     cstr (umem s') 0x1000 (ascii ''hi'') \<and>
     snd (sys s') = (pend', [], [ascii ''$> '' @ [0], [0x68, 0], [0x78, 0], [8, 0], [0x69, 0]])"
proof -
  have e: "fold (\<lambda>k l. edit_key l k) [0x68, 0x78, 8, 0x69] [] = ascii ''hi''" "line_echo [] [0x68, 0x78, 8, 0x69] = [[0x68, 0], [0x78, 0], [8, 0], [0x69, 0]]"
    "ascii ''$> '' = [0x24, 0x3E, 0x20]" by (simp_all add: edit_key_def key_echo_def ascii_def)
  have "literal_at shell_lit 0x1000 typed_alloc ''$> ''" "literal_at shell_lit 0x1000 typed_alloc [CHR 0x08]"
    by (auto simp: literal_at_def shell_lit_def typed_alloc_def umem_def ascii_def le_Suc_eq numeral_3_eq_3 take_bit_nat_eq_self)
  then show ?thesis
    using shell_line_edits [of shell_lit "0x1000" typed_alloc 0 "[0x68, 0x78, 8, 0x69]" "[]" "[]"]
    unfolding e by (simp add: typed_alloc_def)
qed

subsection \<open>Interrupts of a program\<close>

definition user_cpu :: cpu where
  "user_cpu = \<lparr>r_eax = 50, r_ecx = 2, r_edx = 3, r_ebx = 4, r_esp = 0xBFFF0000, r_ebp = 6, r_esi = 7, r_edi = 8, r_ds = 0x23, r_es = 0x23,
     r_fs = 0x23, r_gs = 0x23, r_ss = 0x23, r_cs = 0x1B, r_eip = 0x1234, r_eflags = 0x202, r_mem = (\<lambda>_. 0)\<rparr>"

lemma unknown_call:
  assumes "int_num f = 149" and "EAX f = 50"
  shows "int_callback_common f calling_state = Some (f, calling_state\<lparr>curr_frame := None\<rparr>)"
proof -
  have "dispatch_call (calling_state\<lparr>curr_frame := Some f\<rparr>) = Some (calling_state\<lparr>curr_frame := Some f\<rparr>)"
    by (rule dispatch_unknown [where f = f]) (use assms in \<open>simp_all add: calling_state_def sample_def syscall_table_def word_le_nat_alt\<close>)
  then show ?thesis by (simp add: int_callback_common_def run_handler_def calling_state_def)
qed

theorem isr_wrapper_frame_witness:
  "\<exists>c' s'. isr_wrapper 0x500 (1, 2, 3) 149 (cpu_interrupt 149 0 0xC0200000 user_cpu) calling_state = Some (c', s') \<and>
     r_eax c' = 50 \<and> r_esp c' = 0xBFFF0000 \<and> r_eip c' = 0x1234 \<and> r_cs c' = 0x1B"
proof -
  have "int_callback_common (user_frame 149 0 0xC0200000 user_cpu) calling_state = Some (user_frame 149 0 0xC0200000 user_cpu, calling_state\<lparr>curr_frame := None\<rparr>)"
    by (rule unknown_call) (simp_all add: user_frame_def user_cpu_def)
  then show ?thesis
    using isr_wrapper_frame [where n = 149 and err = 0 and ?esp0.0 = "0xC0200000" and c = user_cpu and s = calling_state and ra = "0x500" and clob = "(1, 2, 3)"]
    by (auto simp: user_frame_def user_cpu_def resumed_def)
qed

theorem kernel_trap_stub_witness:
  "\<exists>c' s'. isr_wrapper 0x500 (1, 2, 3) (unat SYSCALL_ISR) (cpu_interrupt (unat SYSCALL_ISR) 0 0xC0200000 (syscall_regs 50 [9] user_cpu)) calling_state = Some (c', s') \<and>
     r_eax c' = 50 \<and> r_ebx c' = 9"
proof -
  have "kernel_trap 50 [9] (user_frame (unat SYSCALL_ISR) 0 0xC0200000 user_cpu, calling_state) =
      Some (50, trap_frame 50 [9] (user_frame 149 0 0xC0200000 user_cpu), calling_state\<lparr>curr_frame := None\<rparr>)"
    using unknown_call [of "trap_frame 50 [9] (user_frame 149 0 0xC0200000 user_cpu)"]
    by (simp add: kernel_trap_def trap_frame_def)
  from kernel_trap_stub [OF this, of "0x500" "(1, 2, 3)"] show ?thesis
    by (auto simp: trap_frame_def user_frame_def user_cpu_def resumed_def)
qed

subsection \<open>The tables of the boot code\<close>

text \<open>The stack GRUB leaves behind is near 0x7FF00; the boot information is at 0x9500.\<close>

lemma sample_stack: "loader_stack 0x7FF00" "page_aligned (0x100000 - (0xC0100000 - 0xC0000000))" "page_aligned 0xC0300000"
  by (simp_all add: loader_stack_def word_aligned_def page_aligned_def)

theorem bootstrap_maps_witness:
  "\<exists>b. bootstrap 0x100000 0xC0100000 0x100011 0x100031 0x7FF00 0x2BADB002 0x9500 0x11 (\<lambda>_. 0) = Some b \<and> b_ebx b = 0x9500 \<and>
     page_trans (b_mem b) (b_cr3 b) 0x9500 = Some 0x9500 \<and> b_mem b 0x9500 = 0"
proof -
  have "unat (0x9500 :: u32) < 0x400000" "\<not> boot_area 0x7FF00 0x9500" by (simp_all add: boot_area_def)
  then show ?thesis
    using bootstrap_maps [OF sample_stack(2,1), of "0x100011" "0x100031" "0x2BADB002" "0x9500" "0x11" "\<lambda>_. 0"] by blast
qed

theorem map_temp_refines_witness:
  "\<exists>b va m'. bootstrap 0x100000 0xC0100000 0 0 0x7FF00 0 0 0 (\<lambda>_. 0) = Some b \<and>
     map_temp (b_mem b) 0x9D000 0xC0300000 0x1000123 = Some (va, m') \<and> va = 0xC0300123 \<and>
     page_trans m' 0x9D000 0xC0300123 = Some 0x1000123"
proof -
  obtain b where b: "bootstrap 0x100000 0xC0100000 0 0 0x7FF00 0 0 0 (\<lambda>_. 0) = Some b" "boot_tables (0x100000 - (0xC0100000 - 0xC0000000)) (b_mem b)"
    using bootstrap_runs [OF sample_stack(2,1)] by blast
  define s where "s = empty_kmem\<lparr>mem := b_mem b, cr3 := 0, tempmap_addr := 0xC0300000,
     temp_low := ENTRY_FRAME (0x100000 + (0xC0300000 - 0xC0100000)), temp_high := ENTRY_FRAME (0x100000 + (0xC0300000 + PAGING_PAGE_SIZE - 0xC0100000))\<rparr>"
  have rel: "window_rel 0x9D000 s (b_mem b)"
    unfolding s_def by (rule boot_window [OF sample_stack(2) b(2) sample_stack(3)]) simp_all
  moreover have "tempmap_addr s = 0xC0300000" by (simp add: s_def)
  ultimately show ?thesis
    using b(1) map_temp_refines [OF rel, of "0x1000123"] by (auto simp: paging_map_temp_def temp_phys_def ENTRY_FRAME_def)
qed

end
