(* ===== verification/Spec2Isabelle.thy ===== *)
theory Spec2Isabelle
  imports Server_Witnesses
begin

text \<open>
  The Horizon microkernel for the i586, its C library and the programs that run on it, as functions of HOL, and the
  properties that make their parts correct.

  \<^bold>\<open>The program.\<close>  The kernel of \<open>src/kernel\<close> boots from a multiboot loader, sets up physical
  and virtual memory, interrupts and a process table, loads the modules the loader brought as the first
  processes and then only reacts: the timer preempts the running thread, exceptions end or
  report a faulting process, and twenty system calls create and end processes and threads, exchange messages, map
  and share memory and claim services.  Everything else is in user processes: the programs of \<open>src/user\<close> drive the screen, the
  keyboard and the disk, keep the list of devices, serve a tree of files and read a FAT volume, all over messages, and are linked with the C library of \<open>src/lib/libh\<close>, whose string and
  output functions the kernel uses as well.

  \<^bold>\<open>Conventions.\<close>  A kernel function is a HOL function of the same name from the state to an option.
  \<open>None\<close> means that the code does not return in a defined state: a failed \<open>dassert\<close> or a \<open>dpanic\<close> (the kernel
  is built with \<open>_DEBUG\<close>), a \<open>NULL\<close> pointer, an index out of the bounds of an array, a fault in kernel mode, or a loop
  that does not end.  A property that a call returns is therefore stated as \<open>Some\<close>.  Errors for the
  caller are the words written to EAX.  Machine integers are words of their width and wrap around.  Loops over an index
  are \<open>for_each\<close>; loops that may not end are \<open>partial_function (option)\<close>, so no fuel is
  needed: for each of them a lemma gives the states in which it ends.  The calls of \<open>dtrace\<close> in kernel
  functions are left out there; what a trace prints is modelled on its own.

  \<^bold>\<open>State.\<close>  \<open>kstate\<close> (theory \<open>Kernel_State\<close>) collects the static variables of the sources: the memory part
  \<open>kmem\<close> (theory \<open>Paging\<close>: bytes of physical memory, CR3, the kernel directory, the temporary mapping, frame
  allocator and region allocator), the process table with one \<open>block_data\<close> per slot, the scheduler, services,
  interrupt callbacks, descriptor tables and the devices.  Page directories and tables are
  words of physical memory, reached as the code does through the temporary mapping.  Control blocks and messages are
  records beside it, so a store of the kernel through another mapping of their frames does not reach them; \<open>block_zero\<close> and \<open>kernel_mapped\<close> account for the pages they lie on.  Symbols of the
  linker and the structures of the boot loader are parameters (\<open>link_env\<close>, \<open>boot_env\<close>).
  A user program has \<open>alloc\<close> (theory \<open>Libh_Malloc\<close>): its bytes of memory, \<open>errno\<close> and the bounds of its heap, beside the rest
  of the world.  Its system calls go through a parameter, the trap, from the number, the arguments and the state to a result
  and a state; \<open>kernel_trap\<close> is the trap into the kernel model.  Structures it passes lie in its memory, those on its stack at
  addresses relative to a parameter \<open>fp\<close>; string literals are parameters as well.
  Other static variables of a program are records beside its memory, so a stray write of the program into them is not represented.  A program that serves requests is
  its start-up and one round of its loop.

  \<^bold>\<open>Theories.\<close>
  \<^item> \<open>Kernel_Prelude\<close>, \<open>Addr\<close>: words, arrays, loops, linked chains; \<open>util/addr.h\<close>, \<open>util/compare.h\<close>.
  \<^item> \<open>Slots\<close>: the interface of a table of slots.  \<open>Bitmap\<close>, \<open>Bmstack\<close> (\<open>util/bitmap.c\<close>,
    \<open>util/bmstack.c\<close>) implement it and \<open>thread_slots\<close>, \<open>message_slots\<close>, \<open>bmstack_slots\<close> are its instances.
  \<^item> \<open>Bootinfo\<close> (\<open>boot/meminfo.c\<close>, \<open>boot/module.c\<close>, \<open>spec/multiboot\<close>), \<open>Region\<close> (\<open>memory/region.c\<close>),
    \<open>Physical\<close> (\<open>memory/physical.c\<close>; its frames are an instance of \<open>frame_source\<close>).
  \<^item> \<open>Memory\<close>, \<open>Paging\<close>, \<open>Paging_Dirs\<close> (\<open>sw/paging.c\<close>): \<open>walk\<close> finds the table entry of a page, \<open>translate\<close> is
    the translation of the processor, whose access rights are those of both levels; mapping, unmapping, creation and destruction of directories are
    specified by their effect on them and on the counts of the frames.  There the temporary mapping is two fields
    of the state; \<open>Paging_Window\<close> refines it to the writes of page table entries through the recursive mapping.
  \<^item> \<open>Proc_Table\<close>, \<open>Virtual\<close> (\<open>memory/virtual.c\<close>), \<open>Multitask\<close> (\<open>multitask/process.c\<close>, \<open>thread.c\<close>, \<open>sw/task.c\<close>).
  \<^item> \<open>Devices\<close> (interrupt controller, timer, serial port), \<open>Interrupts\<close> (\<open>gdt.c\<close>, \<open>idt.c\<close>, \<open>isr.c\<close>, \<open>irq.c\<close>, \<open>arch.c\<close>),
    \<open>Console\<close> (\<open>debug/ctl.c\<close>), which refines an ideal terminal.
  \<^item> \<open>Scheduler\<close> (\<open>multitask/scheduler.c\<close>): the run queue is the list \<open>sched_queue\<close>; the timer is an instance
    of \<open>round_robin\<close>.
  \<^item> \<open>Ipc_Port\<close>, \<open>Ipc_Message\<close>, \<open>Ipc_Service\<close> (\<open>core/ipc\<close>): \<open>ipc_inv\<close> is the invariant of all message queues,
    and the queue of a thread an instance of \<open>mailbox\<close>.
  \<^item> \<open>User_Memory\<close>, \<open>Sys_Process\<close>, \<open>Sys_Memory\<close>, \<open>Sys_Message\<close> (\<open>core/system\<close>): the system calls.
  \<^item> \<open>Dispatch\<close> (\<open>int/callback.c\<close>, \<open>int/exception.c\<close>, \<open>int/syscall.c\<close>): from an interrupt frame to the
    handler and back.  \<open>Elf\<close> (\<open>core/main.c\<close>, \<open>spec/elf/module.c\<close>): start-up.
  \<^item> \<open>Isr_Stub\<close> (\<open>stub/isr_wrapper.nasm\<close>), \<open>Boot\<close> (\<open>stub/boot.nasm\<close>): the assembly, on the registers and the memory of the processor;
    the first justifies the trap \<open>kernel_trap\<close>, the second the first state of the page tables.  The stack the loader leaves is a
    parameter of \<open>bootstrap\<close>; \<open>loader_stack\<close> is what the code relies on.
  \<^item> \<open>Libh_String\<close> (\<open>libh/src/string\<close>, \<open>ctype.h\<close>), \<open>Libh_Printf\<close> (\<open>libh/src/stdio\<close>; the digit loops are instances of
    \<open>digit_loop\<close>), \<open>Debug_Log\<close> (\<open>debug/log.c\<close>, \<open>int/frame.c\<close>): what a format renders to, down to the console.
  \<^item> \<open>Libh_Syscall\<close> (the wrappers of \<open>libh/src\<close>), \<open>Libh_Kernel\<close>: the trap and the agreement of both sides.
  \<^item> \<open>Libh_Malloc\<close> (\<open>libh/src/malloc\<close>): the heap is a list of blocks laid out in memory, \<open>heap_inv\<close>.
  \<^item> \<open>User_Msg\<close> (\<open>user/util-i586\<close>), \<open>Vgatty\<close>, \<open>Ps2kbd\<close>, \<open>Idehdd\<close> (the drivers of the same names).
  \<^item> \<open>Heap_Client\<close>: what a fresh block of the heap keeps of the memory in use.  \<open>Devd\<close> (\<open>user/devd-all\<close>), where the list of
    devices represents a table of names, \<open>Vfsd\<close> (\<open>user/vfsd-all\<close>), the tree of nodes and the open files, and \<open>Fatfs\<close>
    (\<open>user/fatfs-all\<close>), where \<open>file_byte\<close> is the contents of a file by the layout of a FAT16 volume, written in natural numbers apart from the code.
    \<open>Shell\<close> (\<open>user/test-i586\<close>), whose line input refines a line editor on lists.  \<open>disk_trap\<close> and \<open>tty_trap\<close> are the
    servers these properties assume: they stand for the kernel and the programs that answer.
  \<^item> \<open>Sample_State\<close>, \<open>Witnesses\<close>, \<open>User_Witnesses\<close>, \<open>Server_Witnesses\<close>: concrete states at which the hypotheses of the properties hold.

  \<^bold>\<open>Results.\<close>  The properties are marked C1, C2, \<open>...\<close> in their theories.  They give the effect of the
  calls a system is built from (sending, blocking, waiting, yielding, preemption, mapping memory, killing), the
  invariants behind them (run queue, message queues, frame counts, well-formed address spaces),
  isolation and privilege, and the defects found, each stated as what the code does.  For the library they show that
  copying, formatting and the heap do what their callers rely on, and that each call from a program runs the handler meant and
  returns what it leaves; for the drivers, what is on the screen, which keys are read and which sector is addressed;
  for the servers, which device, node and descriptor a request finds and which bytes a read of a file returns.

  \<^bold>\<open>Not modelled.\<close>  The TLB, inline assembly of single instructions and the names of bits in \<open>sw/instr\<close>, the lengths of the interrupt
  stubs in bytes, the few instructions of \<open>crt0_min.nasm\<close> before and after \<open>main\<close> of a program, and timing.  The layout of control
  blocks is that of the i586 with natural alignment.
\<close>

end
